(* ===== verification/Prelude.thy ===== *)
theory Prelude
  imports Main "HOL-Library.AList" "HOL-Library.Multiset" "HOL-Library.List_Lexorder"
    "HOL-Library.Char_ord" "HOL-Library.Product_Lexorder"
begin

text \<open>
  The parts of JavaScript that the modelled components share.

  \<^item> A JavaScript string is a list of code units; the model keeps the code units below 256
    (\<open>string\<close>, a \<open>char list\<close>), for which \<open>toLowerCase\<close>, \<open>trim\<close> and the UTF-8 length of
    \<open>TextEncoder\<close> are written out exactly.
  \<^item> A \<open>Map\<close>, a \<open>Set\<close> and a plain record are association lists in insertion order:
    \<open>set\<close> on a present key keeps the key's position, on an absent one appends it, as
    \<open>AList.update\<close> does. The locale \<open>keyed_store\<close> is the contract the components rely on.
  \<^item> \<open>Array.prototype.sort\<close> is a stable sort by a comparator; \<open>js_sort\<close> is that sort. The
    locale \<open>keyed_comparator\<close> says that a comparator is the order of a key, and gives
    its clients sortedness, permutation and the fast path for an element that belongs last.
  \<^item> Numbers are \<open>int\<close>: every number the modelled code computes with is an integer
    (timestamps, counters, lengths).
\<close>

subsection \<open>Collections of the development\<close>

named_theorems jsmap_simps \<open>lookup and key laws of insertion-ordered maps\<close>
named_theorems observer_simps \<open>what each operation of the observer store leaves as it was\<close>
named_theorems turn_simps \<open>what each operation of the active-turn store leaves as it was\<close>

type_synonym ('k, 'v) jsmap = "('k \<times> 'v) list"

subsection \<open>Insertion-ordered maps\<close>

abbreviation jget :: "('k, 'v) jsmap \<Rightarrow> 'k \<Rightarrow> 'v option" where
  "jget m k \<equiv> map_of m k"

abbreviation jset :: "('k, 'v) jsmap \<Rightarrow> 'k \<Rightarrow> 'v \<Rightarrow> ('k, 'v) jsmap" where
  "jset m k v \<equiv> AList.update k v m"

abbreviation jdel :: "('k, 'v) jsmap \<Rightarrow> 'k \<Rightarrow> ('k, 'v) jsmap" where
  "jdel m k \<equiv> AList.delete k m"

abbreviation jkeys :: "('k, 'v) jsmap \<Rightarrow> 'k list" where
  "jkeys m \<equiv> map fst m"

abbreviation jvals :: "('k, 'v) jsmap \<Rightarrow> 'v list" where
  "jvals m \<equiv> map snd m"

definition jhas :: "('k, 'v) jsmap \<Rightarrow> 'k \<Rightarrow> bool" where
  "jhas m k = (map_of m k \<noteq> None)"

definition jwf :: "('k, 'v) jsmap \<Rightarrow> bool" where
  "jwf m = distinct (map fst m)"

definition jmap_of :: "('k \<times> 'v) list \<Rightarrow> ('k, 'v) jsmap" where
  "jmap_of kvs = fold (\<lambda>(k, v) m. AList.update k v m) kvs []"

definition jget_or :: "('k, 'v) jsmap \<Rightarrow> 'k \<Rightarrow> 'v \<Rightarrow> 'v" where
  "jget_or m k d = (case map_of m k of None \<Rightarrow> d | Some v \<Rightarrow> v)"

subsection \<open>Insertion-ordered sets\<close>

definition sadd :: "'a list \<Rightarrow> 'a \<Rightarrow> 'a list" where
  "sadd s x = (if x \<in> set s then s else s @ [x])"

subsection \<open>Array access\<close>

text \<open>\<open>xs[i]\<close> is \<open>undefined\<close> out of range; the last element likewise.\<close>

definition jsat :: "'a list \<Rightarrow> nat \<Rightarrow> 'a option" where
  "jsat xs i = (if i < length xs then Some (xs ! i) else None)"

definition jslast :: "'a list \<Rightarrow> 'a option" where
  "jslast xs = (if xs = [] then None else Some (last xs))"

fun findIndex :: "('a \<Rightarrow> bool) \<Rightarrow> 'a list \<Rightarrow> nat option" where
  "findIndex P [] = None"
| "findIndex P (x # xs) = (if P x then Some 0 else map_option Suc (findIndex P xs))"

subsection \<open>Sorting\<close>

fun js_insert :: "('a \<Rightarrow> 'a \<Rightarrow> int) \<Rightarrow> 'a \<Rightarrow> 'a list \<Rightarrow> 'a list" where
  "js_insert cmp x [] = [x]"
| "js_insert cmp x (y # ys) = (if cmp x y \<le> 0 then x # y # ys else y # js_insert cmp x ys)"

fun js_sort :: "('a \<Rightarrow> 'a \<Rightarrow> int) \<Rightarrow> 'a list \<Rightarrow> 'a list" where
  "js_sort cmp [] = []"
| "js_sort cmp (x # xs) = js_insert cmp x (js_sort cmp xs)"

subsection \<open>Strings\<close>

definition js_lower_char :: "char \<Rightarrow> char" where
  "js_lower_char c = (let n = of_char c :: nat in
     if (65 \<le> n \<and> n \<le> 90) \<or> (192 \<le> n \<and> n \<le> 222 \<and> n \<noteq> 215) then char_of (n + 32) else c)"

definition toLowerCase :: "string \<Rightarrow> string" where
  "toLowerCase s = map js_lower_char s"

definition js_space :: "char \<Rightarrow> bool" where
  "js_space c = (let n = of_char c :: nat in n \<in> {9, 10, 11, 12, 13, 32, 160})"

definition js_trim :: "string \<Rightarrow> string" where
  "js_trim s = rev (dropWhile js_space (rev (dropWhile js_space s)))"

definition startsWith :: "string \<Rightarrow> string \<Rightarrow> bool" where
  "startsWith s p = (take (length p) s = p)"

definition utf8_len :: "string \<Rightarrow> nat" where
  "utf8_len s = sum_list (map (\<lambda>c. if (of_char c :: nat) < 128 then 1 else 2) s)"

fun show_nat :: "nat \<Rightarrow> string" where
  "show_nat n = (if n < 10 then [char_of (48 + n)] else show_nat (n div 10) @ [char_of (48 + n mod 10)])"

declare show_nat.simps [simp del]

definition show_int :: "int \<Rightarrow> string" where
  "show_int i = (if i < 0 then ''-'' @ show_nat (nat (- i)) else show_nat (nat i))"

definition truthy :: "string option \<Rightarrow> bool" where
  "truthy s = (case s of None \<Rightarrow> False | Some t \<Rightarrow> t \<noteq> [])"

definition normalizePubkey :: "string \<Rightarrow> string" where
  "normalizePubkey pubkey = toLowerCase (js_trim pubkey)"

declare Let_def [simp]

subsection \<open>Laws of insertion-ordered maps\<close>

lemma jget_jset [simp, jsmap_simps]:
  "jget (jset m k v) k' = (if k' = k then Some v else jget m k')"
  by (simp add: update_conv')

lemma jget_jdel [simp, jsmap_simps]:
  "jget (jdel m k) k' = (if k' = k then None else jget m k')"
  by (simp add: delete_conv')

lemma jhas_iff [jsmap_simps]: "jhas m k \<longleftrightarrow> k \<in> set (jkeys m)"
  by (force simp: jhas_def map_of_eq_None_iff)

lemma jwf_empty [simp]: "jwf []"
  by (simp add: jwf_def)

lemma jwf_jset [simp]: "jwf m \<Longrightarrow> jwf (jset m k v)"
  by (simp add: jwf_def distinct_update)

lemma jwf_jdel [simp]: "jwf m \<Longrightarrow> jwf (jdel m k)"
  by (simp add: jwf_def distinct_delete)

lemma jwf_filter [simp]: "jwf m \<Longrightarrow> jwf (filter P m)"
  by (simp add: jwf_def distinct_map_filter)

lemma jkeys_jset: "set (jkeys (jset m k v)) = insert k (set (jkeys m))"
  by (metis dom_map_of_conv_image_fst dom_fun_upd list.set_map option.distinct(1) update_conv')

lemma length_jset:
  "length (jset m k v) = (if jhas m k then length m else Suc (length m))"
  by (induction m) (auto simp: jhas_def)

lemma jset_absent: "\<not> jhas m k \<Longrightarrow> jset m k v = m @ [(k, v)]"
  by (induction m) (auto simp: jhas_def split: if_splits)

lemma length_jdel: "length (jdel m k) \<le> length m"
  by (rule length_delete_le)

lemma jdel_absent: "\<not> jhas m k \<Longrightarrow> jdel m k = m"
  by (simp add: jhas_def delete_idem map_of_eq_None_iff)

lemma length_jdel_present:
  assumes "jwf m" and "jhas m k"
  shows "length m = Suc (length (jdel m k))"
  using assms
proof (induction m)
  case (Cons kv m)
  show ?case
  proof (cases "fst kv = k")
    case True
    with Cons.prems have "\<not> jhas m k" by (auto simp: jwf_def jhas_iff)
    with True show ?thesis by (cases kv) (simp add: jdel_absent)
  next
    case False
    with Cons show ?thesis by (cases kv) (auto simp: jwf_def jhas_def)
  qed
qed (simp add: jhas_def)

lemma jget_in_set: "jwf m \<Longrightarrow> jget m k = Some v \<longleftrightarrow> (k, v) \<in> set m"
  by (simp add: jwf_def)

lemma jget_rev: "jwf m \<Longrightarrow> map_of (rev m) = map_of m"
  by (rule map_of_eqI) (auto simp: jwf_def map_of_eq_Some_iff rev_map [symmetric])

lemma set_sadd [simp]: "set (sadd s x) = insert x (set s)"
  by (auto simp: sadd_def)

lemma distinct_sadd [simp]: "distinct s \<Longrightarrow> distinct (sadd s x)"
  by (simp add: sadd_def)

lemma set_fold_sadd: "set (fold (\<lambda>x s. sadd s x) xs s) = set xs \<union> set s"
  by (induction xs arbitrary: s) auto

lemma jwf_fold_jset: "jwf m \<Longrightarrow> jwf (fold (\<lambda>(k, v) m. jset m k v) kvs m)"
  by (induction kvs arbitrary: m) auto

lemma jget_fold_jset:
  "jget (fold (\<lambda>(k, v) m. jset m k v) kvs m) k =
     (case map_of (rev kvs) k of None \<Rightarrow> jget m k | Some v \<Rightarrow> Some v)"
  by (induction kvs arbitrary: m) (auto simp: map_add_def split: option.splits)

lemma jwf_jmap_of [simp]: "jwf (jmap_of kvs)"
  by (simp add: jmap_of_def jwf_fold_jset)

lemma jget_jmap_of [jsmap_simps]: "jget (jmap_of kvs) k = map_of (rev kvs) k"
  by (simp add: jmap_of_def jget_fold_jset split: option.splits)

lemma fold_jset_disjoint:
  "distinct (map fst (m @ kvs)) \<Longrightarrow> fold (\<lambda>(k, v) m. jset m k v) kvs m = m @ kvs"
  by (induction kvs arbitrary: m) (auto simp: jset_absent jhas_iff split: prod.splits)

lemma jmap_of_distinct: "distinct (map fst kvs) \<Longrightarrow> jmap_of kvs = kvs"
  by (simp add: jmap_of_def fold_jset_disjoint)

text \<open>
  Maps from a record's key to the record itself, \<open>new Map(xs.map(x => [f(x), x]))\<close>: the last
  record with a key wins.
\<close>

lemma map_of_keyed_find: "map_of (map (\<lambda>x. (f x, x)) xs) k = find (\<lambda>x. f x = k) xs"
  by (induction xs) auto

lemma jget_keyed: "jget (jmap_of (map (\<lambda>x. (f x, x)) xs)) k = find (\<lambda>x. f x = k) (rev xs)"
  by (simp add: jget_jmap_of rev_map map_of_keyed_find)

lemma find_keyD: "find (\<lambda>x. f x = k) xs = Some y \<Longrightarrow> f y = k"
  by (auto simp: find_Some_iff)

lemma keyed_pairs: "(k, v) \<in> set (jmap_of (map (\<lambda>x. (f x, x)) xs)) \<Longrightarrow> k = f v"
  using jget_in_set [of "jmap_of (map (\<lambda>x. (f x, x)) xs)" k v]
  by (auto simp: jget_keyed dest: find_keyD)

lemma set_jvals_keyed:
  "set (jvals (jmap_of (map (\<lambda>x. (f x, x)) xs))) = {v. find (\<lambda>x. f x = f v) (rev xs) = Some v}"
proof -
  let ?m = "jmap_of (map (\<lambda>x. (f x, x)) xs)"
  have "v \<in> set (jvals ?m) \<longleftrightarrow> (f v, v) \<in> set ?m" for v
    using keyed_pairs [of _ v f xs] by force
  then show ?thesis
    using jget_in_set [of ?m] by (auto simp: jget_keyed)
qed

lemma map_key_jvals_keyed:
  "map f (jvals (jmap_of (map (\<lambda>x. (f x, x)) xs))) = jkeys (jmap_of (map (\<lambda>x. (f x, x)) xs))"
  using keyed_pairs [of _ _ f xs] by (auto intro!: map_cong)

lemma distinct_jvals_keyed: "distinct (map f (jvals (jmap_of (map (\<lambda>x. (f x, x)) xs))))"
  using jwf_jmap_of [of "map (\<lambda>x. (f x, x)) xs"]
  by (simp only: map_key_jvals_keyed jwf_def)

lemma findIndex_nth:
  "distinct xs \<Longrightarrow> i < length xs \<Longrightarrow> findIndex (\<lambda>x. x = xs ! i) xs = Some i"
proof (induction xs arbitrary: i)
  case (Cons x xs)
  then show ?case by (cases i) auto
qed simp

lemma findIndex_map: "findIndex (\<lambda>s. f s = k) xs = findIndex (\<lambda>x. x = k) (map f xs)"
  by (induction xs) auto

lemma findIndex_Some: "findIndex P xs = Some i \<Longrightarrow> i < length xs \<and> P (xs ! i) \<and> (\<forall>j<i. \<not> P (xs ! j))"
proof (induction xs arbitrary: i)
  case (Cons x xs)
  then show ?case by (cases i) (auto simp: less_Suc_eq_0_disj split: if_splits)
qed simp

lemma jget_keys: "map_of (map (\<lambda>t. (t, f t)) ts) k = (if k \<in> set ts then Some (f k) else None)"
  by (induction ts) auto

lemma jset_keys:
  "distinct ts \<Longrightarrow> k \<in> set ts \<Longrightarrow> jset (map (\<lambda>t. (t, f t)) ts) k v = map (\<lambda>t. (t, (f(k := v)) t)) ts"
  by (induction ts) auto

text \<open>Grouping: a loop that updates the entry of each element's key folds the elements of each key.\<close>

lemma keys_fold_sadd:
  "distinct (fold (\<lambda>x s. sadd s (k x)) xs [])" "set (fold (\<lambda>x s. sadd s (k x)) xs []) = k ` set xs"
  by (induction xs rule: rev_induct) (auto simp: sadd_def)

lemma fold_group:
  "fold (\<lambda>x m. jset m (k x) (upd x (jget_or m (k x) init))) xs [] =
   map (\<lambda>i. (i, fold upd (filter (\<lambda>x. k x = i) xs) init)) (fold (\<lambda>x s. sadd s (k x)) xs [])"
proof (induction xs rule: rev_induct)
  case (snoc x xs)
  define ids where "ids = fold (\<lambda>x s. sadd s (k x)) xs []"
  let ?g = "\<lambda>i. fold upd (filter (\<lambda>x. k x = i) xs) init"
  let ?m = "map (\<lambda>i. (i, ?g i)) ids"
  have ids: "distinct ids" "set ids = k ` set xs" by (simp_all add: ids_def keys_fold_sadd)
  have goal: "jset ?m (k x) (upd x (jget_or ?m (k x) init)) =
      map (\<lambda>i. (i, fold upd (filter (\<lambda>y. k y = i) (xs @ [x])) init)) (sadd ids (k x))"
  proof (cases "k x \<in> set ids")
    case True
    then show ?thesis using ids(1) by (simp add: jset_keys jget_keys jget_or_def sadd_def)
  next
    case False
    then have "filter (\<lambda>y. k y = k x) xs = []" using ids(2) by (auto simp: filter_empty_conv image_iff)
    moreover have "\<not> jhas ?m (k x)" using False by (simp add: jhas_iff comp_def)
    moreover have "map (\<lambda>i. (i, fold upd (filter (\<lambda>y. k y = i) (xs @ [x])) init)) ids = ?m" using False by auto
    ultimately show ?thesis using False by (simp add: jset_absent jget_keys jget_or_def sadd_def)
  qed
  show ?case unfolding fold_append fold.simps o_apply id_apply snoc ids_def [symmetric] by (rule goal)
qed simp

lemma jset_map_vals:
  "jset (map (\<lambda>(k, v). (k, g v)) m) k (g v) = map (\<lambda>(k, v). (k, g v)) (jset m k v)"
  by (induction m) auto

lemma jvals_keyed_map:
  assumes "\<And>x. f (g x) = f x"
  shows "jvals (jmap_of (map (\<lambda>x. (f (g x), g x)) xs)) = map g (jvals (jmap_of (map (\<lambda>x. (f x, x)) xs)))"
proof -
  have "fold (\<lambda>(k, v) m. jset m k v) (map (\<lambda>x. (f (g x), g x)) xs) (map (\<lambda>(k, v). (k, g v)) m) =
        map (\<lambda>(k, v). (k, g v)) (fold (\<lambda>(k, v) m. jset m k v) (map (\<lambda>x. (f x, x)) xs) m)" for m
    by (induction xs arbitrary: m) (simp_all add: assms jset_map_vals)
  from this [of "[]"] show ?thesis by (simp add: jmap_of_def case_prod_beta comp_def)
qed

subsection \<open>The contract of a keyed store\<close>

text \<open>
  What the components rely on when they use a \<open>Map\<close>: the value after a write or a delete,
  and that keys stay unique.
\<close>

locale keyed_store =
  fixes empty :: 'm
    and get :: "'m \<Rightarrow> 'k \<Rightarrow> 'v option"
    and put :: "'m \<Rightarrow> 'k \<Rightarrow> 'v \<Rightarrow> 'm"
    and del :: "'m \<Rightarrow> 'k \<Rightarrow> 'm"
    and wf :: "'m \<Rightarrow> bool"
  assumes get_empty: "get empty k = None"
    and get_put: "wf m \<Longrightarrow> get (put m k v) k' = (if k' = k then Some v else get m k')"
    and get_del: "wf m \<Longrightarrow> get (del m k) k' = (if k' = k then None else get m k')"
    and wf_empty: "wf empty"
    and wf_put: "wf m \<Longrightarrow> wf (put m k v)"
    and wf_del: "wf m \<Longrightarrow> wf (del m k)"
begin

text \<open>A guarded write: the value is stored only where the key's old value allows it.\<close>

lemma get_guarded_put:
  assumes "wf m"
  shows "get (if P (get m k) then put m k v else m) k' =
    (if k' = k \<and> P (get m k) then Some v else get m k')"
  using assms by (simp add: get_put)

lemma get_fold_put_notin:
  assumes "wf m" and "k \<notin> fst ` set kvs"
  shows "get (fold (\<lambda>(k, v) m. put m k v) kvs m) k = get m k"
  using assms
proof (induction kvs arbitrary: m)
  case (Cons kv kvs)
  then show ?case by (cases kv) (simp add: wf_put get_put)
qed simp

lemma wf_fold_put: "wf m \<Longrightarrow> wf (fold (\<lambda>(k, v) m. put m k v) kvs m)"
  by (induction kvs arbitrary: m) (auto simp: wf_put)

lemma get_put_del: "wf m \<Longrightarrow> get (del (put m k v) k) k' = get (del m k) k'"
  by (simp add: get_put get_del wf_put)

end

interpretation js: keyed_store "[]" map_of "\<lambda>m k v. AList.update k v m" "\<lambda>m k. AList.delete k m" jwf
  by unfold_locales (simp_all add: jwf_def distinct_update distinct_delete)

subsection \<open>The contract of a comparator\<close>

text \<open>
  A comparator that is the order of a key, at least on the elements that satisfy \<open>ok\<close>.
  Sorting by it is the stable sort by the key.
\<close>

locale keyed_comparator =
  fixes cmp :: "'a \<Rightarrow> 'a \<Rightarrow> int"
    and key :: "'a \<Rightarrow> 'k::linorder"
    and ok :: "'a \<Rightarrow> bool"
  assumes cmp_key: "ok x \<Longrightarrow> ok y \<Longrightarrow> cmp x y \<le> 0 \<longleftrightarrow> key x \<le> key y"
begin

lemma js_insert_eq:
  "ok x \<Longrightarrow> \<forall>y\<in>set ys. ok y \<Longrightarrow> js_insert cmp x ys = insort_key key x ys"
  by (induction ys) (auto simp: cmp_key)

lemma js_sort_eq: "\<forall>x\<in>set xs. ok x \<Longrightarrow> js_sort cmp xs = sort_key key xs"
  by (induction xs) (simp_all add: js_insert_eq)

lemma js_sort_sorted: "\<forall>x\<in>set xs. ok x \<Longrightarrow> sorted (map key (js_sort cmp xs))"
  by (simp add: js_sort_eq)

lemma js_sort_id:
  assumes "\<forall>x\<in>set xs. ok x" and "sorted (map key xs)"
  shows "js_sort cmp xs = xs"
  using assms by (simp add: js_sort_eq sort_key_id_if_sorted)

lemma js_sort_snoc:
  assumes "\<forall>x\<in>set xs. ok x" and "ok e" and "sorted (map key xs)"
    and "\<forall>x\<in>set xs. key x \<le> key e"
  shows "js_sort cmp (xs @ [e]) = xs @ [e]"
  using assms by (intro js_sort_id) (auto simp: sorted_append)

end

lemma set_js_insert [simp]: "set (js_insert cmp x xs) = insert x (set xs)"
  by (induction xs) auto

lemma set_js_sort [simp]: "set (js_sort cmp xs) = set xs"
  by (induction xs) auto

lemma mset_js_insert: "mset (js_insert cmp x xs) = add_mset x (mset xs)"
  by (induction xs) auto

lemma mset_js_sort [simp]: "mset (js_sort cmp xs) = mset xs"
  by (induction xs) (auto simp: mset_js_insert)

lemma length_js_sort [simp]: "length (js_sort cmp xs) = length xs"
  by (metis mset_js_sort size_mset)

lemma distinct_map_js_sort [simp]: "distinct (map f (js_sort cmp xs)) = distinct (map f xs)"
  by (metis mset_js_sort mset_map mset_eq_imp_distinct_iff)

lemma js_insert_map:
  assumes "\<And>x y. cmp (f x) (f y) = cmp' x y"
  shows "js_insert cmp (f x) (map f xs) = map f (js_insert cmp' x xs)"
  by (induction xs) (simp_all add: assms)

lemma js_sort_map:
  assumes "\<And>x y. cmp (f x) (f y) = cmp' x y"
  shows "js_sort cmp (map f xs) = map f (js_sort cmp' xs)"
  using assms by (induction xs) (simp_all add: js_insert_map)

text \<open>Sorting numbers or records by a numeric field, \<open>(a, b) => a.f - b.f\<close>.\<close>

interpretation asc: keyed_comparator "\<lambda>x y. f x - f y" f "\<lambda>_. True" for f :: "'a \<Rightarrow> int"
  by unfold_locales simp

interpretation desc: keyed_comparator "\<lambda>x y. f y - f x" "\<lambda>x. - f x" "\<lambda>_. True" for f :: "'a \<Rightarrow> int"
  by unfold_locales simp

subsection \<open>The contract of an announcing store\<close>

text \<open>
  A store with listeners promises that a step that changes what readers can see calls every
  listener; \<open>log\<close> is the sequence of calls made. A client that recomputes on each call, and only
  then, is never behind.
\<close>

locale announcer =
  fixes step :: "'s \<Rightarrow> 's \<Rightarrow> bool"
    and inv :: "'s \<Rightarrow> bool"
    and listeners :: "'s \<Rightarrow> nat list"
    and log :: "'s \<Rightarrow> nat list"
    and view :: "'s \<Rightarrow> 'v"
  assumes inv_step: "inv s \<Longrightarrow> step s s' \<Longrightarrow> inv s'"
    and log_grows: "inv s \<Longrightarrow> step s s' \<Longrightarrow> \<exists>calls. log s' = log s @ calls"
    and announces: "inv s \<Longrightarrow> step s s' \<Longrightarrow> view s' \<noteq> view s \<Longrightarrow> l \<in> set (listeners s) \<Longrightarrow>
      l \<in> set (drop (length (log s)) (log s'))"
begin

lemma silent_step:
  "inv s \<Longrightarrow> step s s' \<Longrightarrow> l \<in> set (listeners s) \<Longrightarrow> l \<notin> set (drop (length (log s)) (log s')) \<Longrightarrow>
   view s' = view s"
  using announces by blast

text \<open>A listener that stays subscribed and is not called sees the same view all the way.\<close>

lemma silent_run:
  assumes "(\<lambda>s s'. step s s' \<and> l \<in> set (listeners s))\<^sup>*\<^sup>* s s'" and "inv s"
    and "l \<notin> set (drop (length (log s)) (log s'))"
  shows "view s' = view s"
proof -
  have "inv s' \<and> (\<exists>calls. log s' = log s @ calls) \<and> (l \<notin> set (drop (length (log s)) (log s')) \<longrightarrow> view s' = view s)"
    using assms(1)
  proof (induction rule: rtranclp_induct)
    case base
    show ?case using assms(2) by simp
  next
    case (step s1 s2)
    then obtain calls more_calls where c: "log s1 = log s @ calls" "log s2 = log s1 @ more_calls"
      using log_grows by blast
    then have "inv s2" using step inv_step by blast
    moreover have "view s2 = view s" if "l \<notin> set (drop (length (log s)) (log s2))"
      using step that c silent_step [of s1 s2 l] by simp
    ultimately show ?case using c by simp
  qed
  with assms(3) show ?thesis by blast
qed

end

subsection \<open>Laws of array access\<close>

lemma jsat_Nil [simp]: "jsat [] i = None"
  by (simp add: jsat_def)

lemma jsat_Cons_0 [simp]: "jsat (x # xs) 0 = Some x"
  by (simp add: jsat_def)

lemma jsat_Cons_Suc [simp]: "jsat (x # xs) (Suc i) = jsat xs i"
  by (simp add: jsat_def)

lemma jsat_Cons_numeral [simp]: "jsat (x # xs) (numeral n) = jsat xs (pred_numeral n)"
  by (simp add: jsat_def numeral_eq_Suc)

lemma jslast_simps [simp]: "jslast [] = None" "jslast (xs @ [x]) = Some x"
  by (simp_all add: jslast_def)

lemma jslast_Some: "jslast xs = Some x \<longleftrightarrow> xs \<noteq> [] \<and> last xs = x"
  by (simp add: jslast_def)

lemma jslast_in_set: "jslast xs = Some x \<Longrightarrow> x \<in> set xs"
  by (auto simp: jslast_def split: if_splits)

lemma nth_notin_take:
  assumes "distinct xs" and "n < length xs"
  shows "xs ! n \<notin> set (take n xs)"
proof -
  have "distinct (take n xs @ xs ! n # drop (Suc n) xs)"
    using assms id_take_nth_drop [of n xs] by metis
  then show ?thesis by simp
qed

lemma find_mem_Some: "find P xs = Some x \<Longrightarrow> x \<in> set xs \<and> P x"
  by (auto simp: find_Some_iff)

subsection \<open>Laws of strings\<close>

lemma js_lower_char_idem [simp]: "js_lower_char (js_lower_char c) = js_lower_char c"
proof -
  have "(of_char c :: nat) < 256" by simp
  then show ?thesis by (auto simp: js_lower_char_def Let_def)
qed

lemma toLowerCase_idem [simp]: "toLowerCase (toLowerCase s) = toLowerCase s"
  by (simp add: toLowerCase_def)

lemma js_space_lower [simp]: "js_space (js_lower_char c) = js_space c"
proof -
  have "(of_char c :: nat) < 256" by simp
  then show ?thesis by (auto simp: js_lower_char_def js_space_def Let_def)
qed

lemma js_trim_lower: "js_trim (toLowerCase s) = toLowerCase (js_trim s)"
  by (simp add: js_trim_def toLowerCase_def dropWhile_map comp_def rev_map)

lemma js_trim_idem [simp]: "js_trim (js_trim s) = js_trim s"
proof -
  define t where "t = dropWhile js_space s"
  define r where "r = dropWhile js_space (rev t)"
  have "dropWhile js_space (rev r) = rev r"
  proof (cases "r = []")
    case False
    obtain u where "rev t = u @ r" unfolding r_def by (metis takeWhile_dropWhile_id)
    then have "hd (rev r) = hd t" using False by (metis hd_append2 rev_append rev_is_Nil_conv rev_rev_ident)
    moreover have "t \<noteq> []" using False by (auto simp: r_def)
    then have "\<not> js_space (hd t)" unfolding t_def by (rule hd_dropWhile)
    ultimately show ?thesis using False by (cases "rev r") auto
  qed simp
  moreover have "dropWhile js_space r = r" unfolding r_def by (metis dropWhile_idem)
  ultimately show ?thesis by (simp add: js_trim_def t_def [symmetric] r_def [symmetric])
qed

lemma normalizePubkey_idem [simp]: "normalizePubkey (normalizePubkey s) = normalizePubkey s"
  by (simp add: normalizePubkey_def js_trim_lower)

lemma startsWith_append [simp]: "startsWith (p @ s) p"
  by (simp add: startsWith_def)

lemma startsWith_iff: "startsWith s p \<longleftrightarrow> (\<exists>t. s = p @ t)"
  by (metis append_take_drop_id startsWith_append startsWith_def)

lemma utf8_len_append [simp]: "utf8_len (s @ t) = utf8_len s + utf8_len t"
  by (simp add: utf8_len_def)

lemma utf8_len_Nil [simp]: "utf8_len [] = 0"
  by (simp add: utf8_len_def)

lemma utf8_len_ge_length: "length s \<le> utf8_len s"
  by (induction s) (auto simp: utf8_len_def)

end
