(* ===== verification/Json.thy ===== *)
theory Json
  imports Prelude
begin

text \<open>
  JSON as the storage components use it: \<open>JSON.stringify\<close> and \<open>JSON.parse\<close> on the values that
  reach local storage, with the round trip \<open>json_roundtrip\<close>. Integer numbers are kept as
  \<open>int\<close>; a number with a fraction or an exponent is kept as its literal (\<open>JFrac\<close>), so that a
  reader can tell that it is a number and not an integer. Fuel bounds the nesting of the
  parser: \<open>parse_val\<close> spends at most two units for each character it consumes, so
  \<open>JSON_parse\<close> starts with twice the length of the text and never runs out on printed values.
\<close>

datatype jsval =
    JNull
  | JBool bool
  | JNum int
  | JFrac string
  | JStr string
  | JArr "jsval list"
  | JObj "(string \<times> jsval) list"

subsection \<open>Printing\<close>

definition hex_digit :: "nat \<Rightarrow> char" where
  "hex_digit n = char_of (if n < 10 then 48 + n else 87 + n)"

definition json_escape :: "char \<Rightarrow> string" where
  "json_escape c =
     (let n = of_char c :: nat in
      if n = 34 then [CHR 0x5C, CHR 0x22]
      else if n = 92 then [CHR 0x5C, CHR 0x5C]
      else if n = 8 then [CHR 0x5C, CHR ''b'']
      else if n = 12 then [CHR 0x5C, CHR ''f'']
      else if n = 10 then [CHR 0x5C, CHR ''n'']
      else if n = 13 then [CHR 0x5C, CHR ''r'']
      else if n = 9 then [CHR 0x5C, CHR ''t'']
      else if n < 32 then [CHR 0x5C, CHR ''u'', CHR ''0'', CHR ''0'', hex_digit (n div 16), hex_digit (n mod 16)]
      else [c])"

definition json_quote :: "string \<Rightarrow> string" where
  "json_quote s = CHR 0x22 # concat (map json_escape s) @ [CHR 0x22]"

fun commas :: "string list \<Rightarrow> string" where
  "commas [] = []"
| "commas [x] = x"
| "commas (x # xs) = x @ '','' @ commas xs"

fun stringify :: "jsval \<Rightarrow> string" where
  "stringify JNull = ''null''"
| "stringify (JBool b) = (if b then ''true'' else ''false'')"
| "stringify (JNum i) = show_int i"
| "stringify (JFrac lit) = lit"
| "stringify (JStr s) = json_quote s"
| "stringify (JArr vs) = ''['' @ commas (map stringify vs) @ '']''"
| "stringify (JObj kvs) =
     ''{'' @ commas (map (\<lambda>(k, v). json_quote k @ '':'' @ stringify v) kvs) @ ''}''"

subsection \<open>Parsing\<close>

definition json_ws :: "char \<Rightarrow> bool" where
  "json_ws c = (c \<in> {CHR '' '', CHR 0x09, CHR 0x0A, CHR 0x0D})"

definition skip_ws :: "string \<Rightarrow> string" where
  "skip_ws s = dropWhile json_ws s"

definition is_digit :: "char \<Rightarrow> bool" where
  "is_digit c = (let n = of_char c :: nat in 48 \<le> n \<and> n \<le> 57)"

definition digit_val :: "char \<Rightarrow> nat" where
  "digit_val c = of_char c - 48"

definition nat_of_digits :: "string \<Rightarrow> nat" where
  "nat_of_digits ds = foldl (\<lambda>acc c. 10 * acc + digit_val c) 0 ds"

definition hex_val :: "char \<Rightarrow> nat option" where
  "hex_val c =
     (let n = of_char c :: nat in
      if 48 \<le> n \<and> n \<le> 57 then Some (n - 48)
      else if 97 \<le> n \<and> n \<le> 102 then Some (n - 87)
      else if 65 \<le> n \<and> n \<le> 70 then Some (n - 55)
      else None)"

fun parse_str :: "string \<Rightarrow> (string \<times> string) option" where
  "parse_str [] = None"
| "parse_str (c # cs) =
     (if c = CHR 0x22 then Some ([], cs)
      else if c = CHR 0x5C then
        (case cs of
           [] \<Rightarrow> None
         | e # r \<Rightarrow>
             if e = CHR ''u'' then
               (case r of
                  a # b # x # y # r' \<Rightarrow>
                    (case (hex_val a, hex_val b, hex_val x, hex_val y) of
                       (Some 0, Some 0, Some i, Some j) \<Rightarrow>
                         map_option (apfst (Cons (char_of (16 * i + j)))) (parse_str r')
                     | _ \<Rightarrow> None)
                | _ \<Rightarrow> None)
             else if e = CHR 0x22 \<or> e = CHR 0x5C \<or> e = CHR 0x2F
               then map_option (apfst (Cons e)) (parse_str r)
             else if e = CHR ''b'' then map_option (apfst (Cons (CHR 0x08))) (parse_str r)
             else if e = CHR ''f'' then map_option (apfst (Cons (CHR 0x0C))) (parse_str r)
             else if e = CHR ''n'' then map_option (apfst (Cons (CHR 0x0A))) (parse_str r)
             else if e = CHR ''r'' then map_option (apfst (Cons (CHR 0x0D))) (parse_str r)
             else if e = CHR ''t'' then map_option (apfst (Cons (CHR 0x09))) (parse_str r)
             else None)
      else if (of_char c :: nat) < 32 then None
      else map_option (apfst (Cons c)) (parse_str cs))"

definition parse_int_part :: "string \<Rightarrow> (string \<times> string) option" where
  "parse_int_part s =
     (case s of
        [] \<Rightarrow> None
      | c # r \<Rightarrow>
          if c = CHR ''0'' then Some ([c], r)
          else if is_digit c then Some (takeWhile is_digit s, dropWhile is_digit s)
          else None)"

definition parse_frac_part :: "string \<Rightarrow> (string \<times> string) option" where
  "parse_frac_part s =
     (case s of
        p # r \<Rightarrow>
          if p = CHR ''.'' then
            (let ds = takeWhile is_digit r in
             if ds = [] then None else Some (p # ds, dropWhile is_digit r))
          else Some ([], s)
      | [] \<Rightarrow> Some ([], s))"

definition parse_exp_part :: "string \<Rightarrow> (string \<times> string) option" where
  "parse_exp_part s =
     (case s of
        e # r \<Rightarrow>
          if e = CHR ''e'' \<or> e = CHR ''E'' then
            (let sign = (case r of c # _ \<Rightarrow> if c = CHR ''+'' \<or> c = CHR ''-'' then [c] else [] | [] \<Rightarrow> []);
                 r' = drop (length sign) r;
                 ds = takeWhile is_digit r'
             in if ds = [] then None else Some (e # sign @ ds, dropWhile is_digit r'))
          else Some ([], s)
      | [] \<Rightarrow> Some ([], s))"

definition parse_num :: "string \<Rightarrow> (jsval \<times> string) option" where
  "parse_num s =
     (let neg = (s \<noteq> [] \<and> hd s = CHR ''-''); s' = (if neg then tl s else s) in
      Option.bind (parse_int_part s') (\<lambda>(ds, r1).
      Option.bind (parse_frac_part r1) (\<lambda>(fr, r2).
      Option.bind (parse_exp_part r2) (\<lambda>(ex, r3).
        if fr = [] \<and> ex = []
        then Some (JNum (if neg then - int (nat_of_digits ds) else int (nat_of_digits ds)), r3)
        else Some (JFrac ((if neg then ''-'' else []) @ ds @ fr @ ex), r3)))))"

definition parse_lit :: "string \<Rightarrow> jsval \<Rightarrow> string \<Rightarrow> (jsval \<times> string) option" where
  "parse_lit w v s = (if startsWith s w then Some (v, drop (length w) s) else None)"

fun parse_val :: "nat \<Rightarrow> string \<Rightarrow> (jsval \<times> string) option"
and parse_elems :: "nat \<Rightarrow> string \<Rightarrow> (jsval list \<times> string) option"
and parse_members :: "nat \<Rightarrow> string \<Rightarrow> ((string \<times> jsval) list \<times> string) option" where
  "parse_val 0 s = None"
| "parse_val (Suc n) s =
     (case skip_ws s of
        [] \<Rightarrow> None
      | c # cs \<Rightarrow>
          if c = CHR 0x22 then map_option (apfst JStr) (parse_str cs)
          else if c = CHR ''['' then
            (case skip_ws cs of
               [] \<Rightarrow> None
             | d # r \<Rightarrow>
                 if d = CHR '']'' then Some (JArr [], r)
                 else map_option (apfst JArr) (parse_elems n (d # r)))
          else if c = CHR ''{'' then
            (case skip_ws cs of
               [] \<Rightarrow> None
             | d # r \<Rightarrow>
                 if d = CHR ''}'' then Some (JObj [], r)
                 else map_option (apfst (\<lambda>kvs. JObj (jmap_of kvs))) (parse_members n (d # r)))
          else if c = CHR ''n'' then parse_lit ''null'' JNull (c # cs)
          else if c = CHR ''t'' then parse_lit ''true'' (JBool True) (c # cs)
          else if c = CHR ''f'' then parse_lit ''false'' (JBool False) (c # cs)
          else parse_num (c # cs))"
| "parse_elems 0 s = None"
| "parse_elems (Suc n) s =
     Option.bind (parse_val n s) (\<lambda>(v, r).
       case skip_ws r of
         [] \<Rightarrow> None
       | c # r' \<Rightarrow>
           if c = CHR '','' then map_option (apfst (Cons v)) (parse_elems n r')
           else if c = CHR '']'' then Some ([v], r')
           else None)"
| "parse_members 0 s = None"
| "parse_members (Suc n) s =
     (case skip_ws s of
        [] \<Rightarrow> None
      | q # cs \<Rightarrow>
          if q \<noteq> CHR 0x22 then None
          else Option.bind (parse_str cs) (\<lambda>(k, r).
            case skip_ws r of
              [] \<Rightarrow> None
            | c # r1 \<Rightarrow>
                if c \<noteq> CHR '':'' then None
                else Option.bind (parse_val n r1) (\<lambda>(v, r2).
                  case skip_ws r2 of
                    [] \<Rightarrow> None
                  | d # r' \<Rightarrow>
                      if d = CHR '','' then map_option (apfst (Cons (k, v))) (parse_members n r')
                      else if d = CHR ''}'' then Some ([(k, v)], r')
                      else None)))"

definition JSON_parse :: "string \<Rightarrow> jsval option" where
  "JSON_parse s =
     (case parse_val (2 * length s) s of
        None \<Rightarrow> None
      | Some (v, r) \<Rightarrow> if skip_ws r = [] then Some v else None)"

definition jfield :: "(string \<times> jsval) list \<Rightarrow> string \<Rightarrow> jsval option" where
  "jfield obj k = map_of obj k"

subsection \<open>Strings round trip\<close>

lemma hex_val_hex_digit: "k < 16 \<Longrightarrow> hex_val (hex_digit k) = Some k"
  by (auto simp: hex_val_def hex_digit_def)

lemma char_of_hex: "char_of (16 * ((of_char c :: nat) div 16) + of_char c mod 16) = c"
  by simp

lemma of_char_escapes:
  "(of_char c :: nat) = 34 \<longleftrightarrow> c = CHR 0x22" "(of_char c :: nat) = 92 \<longleftrightarrow> c = CHR 0x5C"
  "(of_char c :: nat) = 8 \<longleftrightarrow> c = CHR 0x08" "(of_char c :: nat) = 12 \<longleftrightarrow> c = CHR 0x0C"
  "(of_char c :: nat) = 10 \<longleftrightarrow> c = CHR 0x0A" "(of_char c :: nat) = 13 \<longleftrightarrow> c = CHR 0x0D"
  "(of_char c :: nat) = 9 \<longleftrightarrow> c = CHR 0x09"
  using of_char_eq_iff [where 'a = nat, of c "CHR 0x22"] of_char_eq_iff [where 'a = nat, of c "CHR 0x5C"]
    of_char_eq_iff [where 'a = nat, of c "CHR 0x08"] of_char_eq_iff [where 'a = nat, of c "CHR 0x0C"]
    of_char_eq_iff [where 'a = nat, of c "CHR 0x0A"] of_char_eq_iff [where 'a = nat, of c "CHR 0x0D"]
    of_char_eq_iff [where 'a = nat, of c "CHR 0x09"]
  by (simp_all del: of_char_eq_iff)

lemma parse_str_escape:
  "parse_str (json_escape c @ rest) = map_option (apfst (Cons c)) (parse_str rest)"
proof -
  let ?esc = "{CHR 0x22, CHR 0x5C, CHR 0x08, CHR 0x0C, CHR 0x0A, CHR 0x0D, CHR 0x09}"
  consider (esc) "c \<in> ?esc" | (ctl) "c \<notin> ?esc" "(of_char c :: nat) < 32"
    | (plain) "c \<notin> ?esc" "32 \<le> (of_char c :: nat)"
    by fastforce
  then show ?thesis
  proof cases
    case esc
    then show ?thesis by (auto simp: json_escape_def)
  next
    case ctl
    have "hex_val CHR ''0'' = Some 0" by (simp add: hex_val_def)
    with ctl show ?thesis by (simp add: json_escape_def hex_val_hex_digit of_char_escapes)
  next
    case plain
    then show ?thesis by (simp add: json_escape_def of_char_escapes)
  qed
qed

lemma parse_str_quote:
  "parse_str (concat (map json_escape s) @ CHR 0x22 # rest) = Some (s, rest)"
  by (induction s) (simp_all add: parse_str_escape)

subsection \<open>Numbers round trip\<close>

lemma is_digit_char_of: "(n :: nat) < 10 \<Longrightarrow> is_digit (char_of (48 + n))"
  by (simp add: is_digit_def)

lemma char_of_48: "char_of (48 :: nat) = CHR ''0''"
  by code_simp

lemma char_of_49: "char_of (49 :: nat) = CHR ''1''"
  by code_simp

lemma show_nat_digits: "\<forall>c\<in>set (show_nat n). is_digit c"
proof (induction n rule: show_nat.induct)
  case (1 n)
  then show ?case
    by (subst show_nat.simps) (auto simp: is_digit_char_of simp del: char_of_nat)
qed

lemma show_nat_nonempty [simp]: "show_nat n \<noteq> []"
  by (subst show_nat.simps) simp

lemma nat_of_digits_snoc: "nat_of_digits (ds @ [c]) = 10 * nat_of_digits ds + digit_val c"
  by (simp add: nat_of_digits_def)

lemma nat_of_digits_show_nat: "nat_of_digits (show_nat n) = n"
proof (induction n rule: show_nat.induct)
  case (1 n)
  show ?case
  proof (cases "n < 10")
    case True
    then show ?thesis by (subst show_nat.simps) (simp add: nat_of_digits_def digit_val_def)
  next
    case False
    with 1 have "nat_of_digits (show_nat (n div 10)) = n div 10" by simp
    with False show ?thesis
      by (subst show_nat.simps) (simp add: nat_of_digits_snoc digit_val_def)
  qed
qed

lemma show_nat_leading: "0 < n \<Longrightarrow> hd (show_nat n) \<noteq> CHR ''0''"
proof (induction n rule: show_nat.induct)
  case (1 n)
  show ?case
  proof (cases "n < 10")
    case True
    have "char_of (48 + n) \<noteq> CHR ''0''"
    proof
      assume "char_of (48 + n) = CHR ''0''"
      then have "(of_char (char_of (48 + n) :: char) :: nat) = of_char CHR ''0''" by simp
      with True 1 show False by simp
    qed
    with True show ?thesis by (subst show_nat.simps) simp
  next
    case False
    with 1 have "hd (show_nat (n div 10)) \<noteq> CHR ''0''" by simp
    with False show ?thesis by (subst show_nat.simps) simp
  qed
qed

definition num_end :: "string \<Rightarrow> bool" where
  "num_end r = (case r of [] \<Rightarrow> True | c # _ \<Rightarrow> \<not> is_digit c \<and> c \<notin> {CHR ''.'', CHR ''e'', CHR ''E''})"

lemma parse_int_part_show_nat:
  assumes "num_end rest"
  shows "parse_int_part (show_nat n @ rest) = Some (show_nat n, rest)"
proof (cases "n = 0")
  case True
  then show ?thesis by (simp add: show_nat.simps parse_int_part_def char_of_48)
next
  case False
  obtain c cs where s: "show_nat n = c # cs" by (cases "show_nat n") auto
  with False show_nat_leading [of n] show_nat_digits [of n]
  have c: "c \<noteq> CHR ''0''" "is_digit c" "\<forall>c\<in>set cs. is_digit c" by auto
  have "takeWhile is_digit rest = []" "dropWhile is_digit rest = rest"
    using assms by (auto simp: num_end_def split: list.splits)
  with c show ?thesis by (simp add: s parse_int_part_def takeWhile_append2 dropWhile_append2)
qed

lemma parse_frac_exp_end:
  "num_end rest \<Longrightarrow> parse_frac_part rest = Some ([], rest) \<and> parse_exp_part rest = Some ([], rest)"
  by (auto simp: num_end_def parse_frac_part_def parse_exp_part_def split: list.splits)

lemma parse_num_show_int:
  assumes "num_end rest"
  shows "parse_num (show_int i @ rest) = Some (JNum i, rest)"
proof -
  have "hd (show_nat n) \<noteq> CHR ''-''" for n
    using show_nat_digits [of n] by (cases "show_nat n") (auto simp: is_digit_def)
  then show ?thesis
    using parse_int_part_show_nat [OF assms] parse_frac_exp_end [OF assms]
    by (simp add: parse_num_def show_int_def nat_of_digits_show_nat)
qed

subsection \<open>Values round trip\<close>

fun wf_json :: "jsval \<Rightarrow> bool" where
  "wf_json (JFrac lit) = False"
| "wf_json (JArr vs) = list_all wf_json vs"
| "wf_json (JObj kvs) = (distinct (map fst kvs) \<and> list_all (\<lambda>(k, v). wf_json v) kvs)"
| "wf_json _ = True"

definition parses :: "jsval \<Rightarrow> bool" where
  "parses v \<longleftrightarrow> (\<forall>rest n. num_end rest \<longrightarrow> 2 * length (stringify v) \<le> n \<longrightarrow>
     parse_val n (stringify v @ rest) = Some (v, rest))"

lemma num_end_simps [simp]:
  "num_end []" "num_end (CHR '','' # r)" "num_end (CHR '']'' # r)" "num_end (CHR ''}'' # r)"
  by (simp_all add: num_end_def is_digit_def)

lemma skip_ws_simps [simp]:
  "skip_ws [] = []" "skip_ws (CHR '','' # r) = CHR '','' # r" "skip_ws (CHR '']'' # r) = CHR '']'' # r"
  "skip_ws (CHR ''}'' # r) = CHR ''}'' # r" "skip_ws (CHR '':'' # r) = CHR '':'' # r"
  "skip_ws (CHR 0x22 # r) = CHR 0x22 # r" "skip_ws (CHR ''['' # r) = CHR ''['' # r"
  "skip_ws (CHR ''{'' # r) = CHR ''{'' # r"
  by (simp_all add: skip_ws_def json_ws_def)

lemma stringify_nonempty: "wf_json v \<Longrightarrow> stringify v \<noteq> []"
  by (cases v) (auto simp: show_int_def json_quote_def)

lemma show_int_head:
  "\<exists>c cs. show_int i = c # cs \<and> (c = CHR ''-'' \<or> is_digit c)"
  using show_nat_digits [of "nat i"]
  by (cases "show_nat (nat i)") (auto simp: show_int_def)

lemma digit_not_ws: "c = CHR ''-'' \<or> is_digit c \<Longrightarrow> \<not> json_ws c \<and> c \<notin>
    {CHR 0x22, CHR ''['', CHR ''{'', CHR ''n'', CHR ''t'', CHR ''f'', CHR '']'', CHR ''}''}"
  by (auto simp: json_ws_def is_digit_def)

lemma stringify_head:
  assumes "wf_json v"
  shows "\<exists>c cs. stringify v = c # cs \<and> \<not> json_ws c \<and> c \<noteq> CHR '']''"
proof (cases v)
  case (JNum i)
  with show_int_head [of i] digit_not_ws show ?thesis by force
qed (use assms in \<open>auto simp: json_quote_def json_ws_def\<close>)

lemma commas_Cons: "xs \<noteq> [] \<Longrightarrow> commas (x # xs) = x @ '','' @ commas xs"
  by (cases xs) auto

lemma parse_elems_commas:
  assumes "vs \<noteq> []" and "\<forall>v\<in>set vs. parses v"
    and "2 * length (commas (map stringify vs)) + 1 \<le> n"
  shows "parse_elems n (commas (map stringify vs) @ CHR '']'' # rest) = Some (vs, rest)"
  using assms
proof (induction vs arbitrary: n)
  case (Cons v vs)
  then obtain m where n: "n = Suc m" by (cases n) auto
  show ?case
  proof (cases "vs = []")
    case True
    with Cons.prems show ?thesis by (simp add: n parses_def)
  next
    case False
    then have comma: "commas (map stringify (v # vs)) =
        stringify v @ CHR '','' # commas (map stringify vs)" by (simp add: commas_Cons)
    with Cons.prems have v: "parse_val m (stringify v @ CHR '','' # (commas (map stringify vs) @ CHR '']'' # rest)) =
        Some (v, CHR '','' # (commas (map stringify vs) @ CHR '']'' # rest))"
      by (simp add: parses_def n)
    from Cons.prems False comma
    have "parse_elems m (commas (map stringify vs) @ CHR '']'' # rest) = Some (vs, rest)"
      by (intro Cons.IH) (auto simp: n)
    with v comma show ?thesis by (simp add: n)
  qed
qed simp

definition member_text :: "string \<times> jsval \<Rightarrow> string" where
  "member_text kv = json_quote (fst kv) @ '':'' @ stringify (snd kv)"

lemma stringify_obj: "stringify (JObj kvs) = ''{'' @ commas (map member_text kvs) @ ''}''"
  by (simp add: member_text_def [abs_def] case_prod_unfold)

lemma parse_member_step:
  assumes "parses v" and "2 * length (member_text (k, v)) \<le> n" and "num_end (d # rest)"
    and "\<not> json_ws d"
  shows "parse_members (Suc n) (member_text (k, v) @ d # rest) =
     (if d = CHR '','' then map_option (apfst (Cons (k, v))) (parse_members n rest)
      else if d = CHR ''}'' then Some ([(k, v)], rest) else None)"
proof -
  have "parse_val n (stringify v @ d # rest) = Some (v, d # rest)"
    using assms by (simp add: parses_def member_text_def)
  moreover have "skip_ws (d # rest) = d # rest" using assms(4) by (simp add: skip_ws_def)
  ultimately show ?thesis
    by (simp add: member_text_def json_quote_def parse_str_quote)
qed

lemma parse_members_commas:
  assumes "kvs \<noteq> []" and "\<forall>kv\<in>set kvs. parses (snd kv)"
    and "2 * length (commas (map member_text kvs)) + 1 \<le> n"
  shows "parse_members n (commas (map member_text kvs) @ CHR ''}'' # rest) = Some (kvs, rest)"
  using assms
proof (induction kvs arbitrary: n)
  case (Cons kv kvs)
  then obtain m where n: "n = Suc m" by (cases n) auto
  obtain k v where kv: "kv = (k, v)" by (cases kv)
  have brace: "\<not> json_ws CHR ''}''" "\<not> json_ws CHR '',''" by (simp_all add: json_ws_def)
  show ?case
  proof (cases "kvs = []")
    case True
    with Cons.prems brace show ?thesis
      by (simp add: n kv parse_member_step del: parse_members.simps)
  next
    case False
    then have comma: "commas (map member_text (kv # kvs)) =
        member_text (k, v) @ CHR '','' # commas (map member_text kvs)" by (simp add: commas_Cons kv)
    from Cons.prems False comma
    have "parse_members m (commas (map member_text kvs) @ CHR ''}'' # rest) = Some (kvs, rest)"
      by (intro Cons.IH) (auto simp: n)
    with Cons.prems comma brace show ?thesis
      by (simp add: n kv parse_member_step del: parse_members.simps)
  qed
qed simp

lemma member_text_head: "\<exists>cs. member_text kv = CHR 0x22 # cs"
  by (simp add: member_text_def json_quote_def)

lemma commas_head:
  assumes "xs \<noteq> []" and "\<forall>x\<in>set xs. \<exists>c cs. x = c # cs \<and> P c"
  shows "\<exists>c cs. commas xs = c # cs \<and> P c"
proof -
  obtain x ys where xs: "xs = x # ys" using assms(1) by (cases xs) auto
  then show ?thesis using assms(2) by (cases ys) auto
qed

lemma parses_arr:
  assumes "list_all wf_json vs" and "\<forall>v\<in>set vs. parses v"
  shows "parses (JArr vs)"
proof (cases "vs = []")
  case True
  then show ?thesis
    by (auto simp: parses_def numeral_eq_Suc dest!: Suc_le_D)
next
  case False
  obtain c cs where head: "commas (map stringify vs) = c # cs" "\<not> json_ws c \<and> c \<noteq> CHR '']''"
    using commas_head [of "map stringify vs" "\<lambda>c. \<not> json_ws c \<and> c \<noteq> CHR '']''"] False assms(1)
      stringify_head by (auto simp: list_all_iff)
  have "parse_val n (stringify (JArr vs) @ rest) = Some (JArr vs, rest)"
    if fuel: "2 * length (stringify (JArr vs)) \<le> n" for n rest
  proof -
    obtain m where n: "n = Suc m" using fuel by (cases n) auto
    have "parse_elems m (c # cs @ CHR '']'' # rest) = Some (vs, rest)"
      using parse_elems_commas [OF False assms(2), of m rest] fuel by (simp add: n head)
    with head show ?thesis by (simp add: n skip_ws_def [of "c # _"])
  qed
  then show ?thesis by (simp add: parses_def)
qed

lemma parses_obj:
  assumes "distinct (map fst kvs)" and "\<forall>kv\<in>set kvs. parses (snd kv)"
  shows "parses (JObj kvs)"
proof (cases "kvs = []")
  case True
  then show ?thesis
    by (auto simp: parses_def numeral_eq_Suc dest!: Suc_le_D)
next
  case False
  obtain cs where head: "commas (map member_text kvs) = CHR 0x22 # cs"
    using commas_head [of "map member_text kvs" "\<lambda>c. c = CHR 0x22"] False member_text_head by auto
  have "parse_val n (stringify (JObj kvs) @ rest) = Some (JObj kvs, rest)"
    if fuel: "2 * length (stringify (JObj kvs)) \<le> n" for n rest
  proof -
    obtain m where n: "n = Suc m" using fuel by (cases n) auto
    have "parse_members m (CHR 0x22 # cs @ CHR ''}'' # rest) = Some (kvs, rest)"
      using parse_members_commas [OF False assms(2), of m rest] fuel
      by (simp add: n head stringify_obj del: stringify.simps)
    with head show ?thesis
      by (simp add: n stringify_obj jmap_of_distinct [OF assms(1)] del: stringify.simps)
  qed
  then show ?thesis by (simp add: parses_def)
qed

lemma wf_json_parses: "wf_json v \<Longrightarrow> parses v"
proof (induction v)
  case (JNum i)
  obtain c cs where head: "show_int i = c # cs" "c = CHR ''-'' \<or> is_digit c"
    using show_int_head by blast
  have "parse_val n (show_int i @ rest) = Some (JNum i, rest)"
    if rest: "num_end rest" and fuel: "2 * length (show_int i) \<le> n" for n rest
  proof -
    obtain m where n: "n = Suc m" using fuel head by (cases n) auto
    have "parse_num (c # cs @ rest) = Some (JNum i, rest)"
      using parse_num_show_int [OF rest, of i] by (simp add: head)
    with digit_not_ws [OF head(2)] show ?thesis by (simp add: n head(1) skip_ws_def)
  qed
  then show ?case by (simp add: parses_def)
next
  case (JStr s)
  show ?case
    by (auto simp: parses_def json_quote_def parse_str_quote dest!: Suc_le_D)
next
  case (JArr vs)
  then show ?case by (intro parses_arr) (auto simp: list_all_iff)
next
  case (JObj kvs)
  then show ?case by (intro parses_obj) (fastforce simp: list_all_iff)+
qed (auto simp: parses_def skip_ws_def json_ws_def parse_lit_def startsWith_def numeral_eq_Suc dest!: Suc_le_D)

theorem json_roundtrip: "wf_json v \<Longrightarrow> JSON_parse (stringify v) = Some v"
  using wf_json_parses [of v, unfolded parses_def, rule_format, of "[]" "2 * length (stringify v)"]
  by (simp add: JSON_parse_def)


end
