(* ===== verification/Buffers.thy ===== *)
theory Buffers
  imports Prelude
begin

text \<open>
  Buffers that keep the newest elements: the observer store keeps the newest frames of an agent, the
  unread counts keep the newest unseen events of a channel. The locale \<open>newest_buffer\<close> is what both
  promise for one arrival, and gives that the arrival order does not matter.
\<close>

subsection \<open>The newest elements\<close>

definition newest :: "nat \<Rightarrow> 'a list \<Rightarrow> 'a list" where
  "newest n xs = drop (length xs - n) xs"

lemma newest_short: "length xs \<le> n \<Longrightarrow> newest n xs = xs"
  by (simp add: newest_def)

lemma newest_Cons: "n \<le> length xs \<Longrightarrow> newest n (x # xs) = newest n xs"
  by (simp add: newest_def Suc_diff_le)

lemma length_newest [simp]: "length (newest n xs) = min n (length xs)"
  by (simp add: newest_def min_def)

lemma set_newest: "set (newest n xs) \<subseteq> set xs"
  by (simp add: newest_def set_drop_subset)

lemma sorted_newest: "sorted (map f xs) \<Longrightarrow> sorted (map f (newest n xs))"
  by (simp add: newest_def drop_map [symmetric] sorted_wrt_drop)

lemma distinct_newest: "distinct (map f xs) \<Longrightarrow> distinct (map f (newest n xs))"
  by (simp add: newest_def drop_map [symmetric])

text \<open>Inserting behind equals, as a stable sort of the extended list does.\<close>

lemma sort_snoc_Cons_le:
  "sorted (map f (a # xs)) \<Longrightarrow> f a \<le> f x \<Longrightarrow> sort_key f ((a # xs) @ [x]) = a # sort_key f (xs @ [x])"
proof -
  assume a: "sorted (map f (a # xs))" "f a \<le> f x"
  then have "\<forall>y\<in>set (sort_key f (xs @ [x])). f a \<le> f y" by auto
  then have "insort_key f a (sort_key f (xs @ [x])) = a # sort_key f (xs @ [x])"
    by (cases "sort_key f (xs @ [x])") auto
  then show ?thesis by simp
qed

lemma sort_snoc_less:
  assumes "sorted (map f xs)" and "\<forall>y\<in>set xs. f x < f y"
  shows "sort_key f (xs @ [x]) = x # xs"
  using assms
proof (induction xs)
  case (Cons a xs)
  then have "insort_key f a xs = a # xs" by (cases xs) auto
  with Cons show ?case by auto
qed simp

lemma newest_sort_snoc:
  assumes "sorted (map f S)"
  shows "newest n (sort_key f (newest n S @ [x])) = newest n (sort_key f (S @ [x]))"
  using assms
proof (induction S)
  case (Cons a S)
  show ?case
  proof (cases "n \<le> length S")
    case True
    then have "newest n (sort_key f (newest n (a # S) @ [x])) = newest n (sort_key f (S @ [x]))"
      using Cons by (simp add: newest_Cons)
    also have "\<dots> = newest n (sort_key f ((a # S) @ [x]))"
    proof (cases "f a \<le> f x")
      case le: True
      show ?thesis unfolding sort_snoc_Cons_le [OF Cons.prems le] using True by (simp add: newest_Cons)
    next
      case False
      have "sort_key f (S @ [x]) = x # S" "sort_key f ((a # S) @ [x]) = x # a # S"
        using Cons.prems False by (intro sort_snoc_less; force)+
      then show ?thesis using True by (simp add: newest_Cons)
    qed
    finally show ?thesis .
  qed (simp add: newest_short)
qed (simp add: newest_def)

lemma newest_sort_older:
  assumes "sorted (map f xs)" and "\<forall>y\<in>set xs. f x < f y" and "length xs = n"
  shows "newest n (sort_key f (xs @ [x])) = xs"
  using sort_snoc_less [OF assms(1,2)] assms(3) by (simp add: newest_Cons newest_short)

lemma set_eq_sort_key:
  assumes "inj_on f (set xs)" and "set xs = set ys"
  shows "sort_key f (remdups xs) = sort_key f (remdups ys)"
proof (rule map_sorted_distinct_set_unique)
  show "inj_on f (set (sort_key f (remdups xs)) \<union> set (sort_key f (remdups ys)))"
    using assms by simp
  show "distinct (map f (sort_key f (remdups xs)))" "distinct (map f (sort_key f (remdups ys)))"
    using assms by (simp_all add: distinct_map)
qed (use assms in auto)

subsection \<open>The contract of a buffer of the newest elements\<close>

locale newest_buffer =
  fixes key :: "'e \<Rightarrow> 'k::linorder"
    and cap :: nat
    and ok :: "'e \<Rightarrow> bool"
    and inv :: "'b \<Rightarrow> bool"
    and start :: 'b
    and add :: "'e \<Rightarrow> 'b \<Rightarrow> 'b"
    and contents :: "'b \<Rightarrow> 'e list"
  assumes contents_start: "contents start = []"
    and inv_start: "inv start"
    and inv_add: "inv b \<Longrightarrow> inv (add e b)"
    and contents_add: "inv b \<Longrightarrow> ok e \<Longrightarrow> \<forall>x\<in>set (contents b). ok x \<Longrightarrow>
      inj_on key (insert e (set (contents b))) \<Longrightarrow> sorted (map key (contents b)) \<Longrightarrow> length (contents b) \<le> cap \<Longrightarrow>
      contents (add e b) =
        (if e \<in> set (contents b) then contents b else newest cap (sort_key key (contents b @ [e])))"
begin

lemma inv_adds: "inv (fold add es start)"
  by (induction es rule: rev_induct) (simp_all add: inv_start inv_add)

lemma converges:
  assumes "\<forall>e\<in>set es. ok e" and "inj_on key (set es)"
  shows "contents (fold add es start) = newest cap (sort_key key (remdups es))"
  using assms
proof (induction es rule: rev_induct)
  case Nil
  show ?case by (simp add: contents_start newest_def)
next
  case (snoc e es)
  let ?S = "sort_key key (remdups es)"
  let ?b = "newest cap ?S"
  have inj: "inj_on key (set es)" using snoc.prems(2) by (rule inj_on_subset) auto
  have ih: "contents (fold add es start) = ?b" using snoc.IH inj snoc.prems(1) by simp
  have sub: "set ?b \<subseteq> set es" using set_newest [of cap ?S] by simp
  have "inj_on key (insert e (set ?b))" using snoc.prems(2) sub by (elim inj_on_subset) auto
  moreover have "\<forall>x\<in>set ?b. ok x" using sub snoc.prems(1) by auto
  ultimately have step: "contents (fold add (es @ [e]) start) =
      (if e \<in> set ?b then ?b else newest cap (sort_key key (?b @ [e])))"
    using contents_add [OF inv_adds, of e es] snoc.prems(1) by (simp add: ih sorted_newest)
  show ?case
  proof (cases "e \<in> set es")
    case True
    then have same: "sort_key key (remdups (es @ [e])) = ?S"
      using snoc.prems(2) by (intro set_eq_sort_key) auto
    have "newest cap (sort_key key (?b @ [e])) = ?b" if e: "e \<notin> set ?b"
    proof (rule newest_sort_older)
      let ?a = "take (length ?S - cap) ?S"
      have split: "?S = ?a @ ?b" by (simp add: newest_def)
      have "e \<in> set ?S" using True by simp
      then have "e \<in> set ?a" using e split by (metis Un_iff set_append)
      moreover have "sorted (map key (?a @ ?b))" using split by (metis sorted_sort_key)
      ultimately have "\<forall>y\<in>set ?b. key e \<le> key y" by (auto simp: sorted_append)
      moreover have "key e \<noteq> key y" if "y \<in> set ?b" for y
        using that e sub True inj by (auto dest: inj_onD)
      ultimately show "\<forall>y\<in>set ?b. key e < key y" by (simp add: order.strict_iff_order)
      have "?a \<noteq> []" using \<open>e \<in> set ?a\<close> by auto
      then show "length ?b = cap" by simp
    qed (simp add: sorted_newest)
    then show ?thesis using step same by simp
  next
    case False
    then have "e \<notin> set ?b" using sub by auto
    then have "contents (fold add (es @ [e]) start) = newest cap (sort_key key (?S @ [e]))"
      using step newest_sort_snoc [of key ?S cap e] by simp
    also have "sort_key key (?S @ [e]) = sort_key key (remdups (?S @ [e]))"
      using False by (simp add: distinct_remdups_id)
    also have "\<dots> = sort_key key (remdups (es @ [e]))"
      using snoc.prems(2) by (intro set_eq_sort_key) auto
    finally show ?thesis .
  qed
qed

end

end
