(* ===== verification/Observer.thy ===== *)
theory Observer
  imports Json Buffers
begin

text \<open>
  The observer store of managed agents (\<open>features/agents/observerRelayStore.ts\<close>) and the parser of
  agent-management requests (\<open>features/agents/agentManagement.ts\<close>).

  The module state is one record. A listener is a number, and what the module calls outside
  itself (listeners, native commands, the query cache) is appended to \<open>ob_log\<close> in call order.
  An \<open>async\<close> function is split at its awaits: each segment is one definition, with what the
  awaited call returned as an argument, and the generation it captured before. \<open>Date.parse\<close> is
  the parameter \<open>dp\<close> (\<open>None\<close> for \<open>NaN\<close>). The transcript reducer \<open>processTranscriptEvent\<close>, which may throw
  (\<open>None\<close>), and its empty state are the arguments \<open>process\<close> and \<open>init\<close> of the definitions; the theory
  \<open>Transcript\<close> models them and the root theory puts the two together. An operation that may throw answers
  first whether it threw; what it changed before stays changed.
\<close>

subsection \<open>Data\<close>

record observer_event =
  oe_seq :: int
  oe_timestamp :: string
  oe_kind :: string
  oe_agentIndex :: "int option"
  oe_channelId :: "string option"
  oe_sessionId :: "string option"
  oe_turnId :: "string option"
  oe_startedAt :: "string option"
  oe_payload :: jsval

datatype connection_state = Idle | Connecting | Open | Closed | ConnError

record observer_snapshot =
  os_connectionState :: connection_state
  os_errorMessage :: "string option"
  os_events :: "observer_event list"

record latest_live_entry =
  ll_sessionId :: string
  ll_timestamp :: string
  ll_seq :: int

subsection \<open>Agent-management requests\<close>

record create_request =
  cr_channelId :: string
  cr_displayName :: string
  cr_systemPrompt :: string

record update_request =
  up_channelId :: string
  up_agentName :: string
  up_displayName :: "string option"
  up_systemPrompt :: "string option"
  up_runtime :: "string option"
  up_provider :: "string option"
  up_model :: "string option"
  up_respondTo :: "string option"

datatype management_request =
    CreateRequest string create_request
  | UpdateRequest string update_request

definition isText :: "jsval option \<Rightarrow> bool" where
  "isText val = (case val of Some (JStr s) \<Rightarrow> length (js_trim s) > 0 | _ \<Rightarrow> False)"

definition isRespondTo :: "jsval option \<Rightarrow> bool" where
  "isRespondTo val = (val = None \<or> val = Some (JStr ''owner-only'') \<or> val = Some (JStr ''anyone''))"

definition hasOnlyKeys :: "(string \<times> jsval) list \<Rightarrow> string list \<Rightarrow> bool" where
  "hasOnlyKeys val allowed = list_all (\<lambda>key. key \<in> set allowed) (jkeys val)"

definition text_of :: "jsval option \<Rightarrow> string" where
  "text_of val = (case val of Some (JStr s) \<Rightarrow> s | _ \<Rightarrow> [])"

definition optText :: "jsval option \<Rightarrow> string option" where
  "optText val = (if isText val then Some (text_of val) else None)"

definition CREATE_KEYS :: "string list" where
  "CREATE_KEYS = [''channelId'', ''displayName'', ''systemPrompt'']"

definition UPDATE_KEYS :: "string list" where
  "UPDATE_KEYS = [''channelId'', ''agentName'', ''displayName'', ''systemPrompt'', ''runtime'',
     ''provider'', ''model'', ''respondTo'']"

definition parseCreateRequest :: "(string \<times> jsval) list \<Rightarrow> create_request option" where
  "parseCreateRequest request =
     (if \<not> hasOnlyKeys request CREATE_KEYS then None
      else if \<not> isText (jfield request ''channelId'') \<or> \<not> isText (jfield request ''displayName'') \<or>
              \<not> isText (jfield request ''systemPrompt'') then None
      else Some \<lparr>cr_channelId = text_of (jfield request ''channelId''),
                 cr_displayName = text_of (jfield request ''displayName''),
                 cr_systemPrompt = text_of (jfield request ''systemPrompt'')\<rparr>)"

definition updateChanges :: "(string \<times> jsval) list \<Rightarrow> update_request" where
  "updateChanges request =
     \<lparr>up_channelId = text_of (jfield request ''channelId''),
      up_agentName = text_of (jfield request ''agentName''),
      up_displayName = optText (jfield request ''displayName''),
      up_systemPrompt = optText (jfield request ''systemPrompt''),
      up_runtime = optText (jfield request ''runtime''),
      up_provider = optText (jfield request ''provider''),
      up_model = optText (jfield request ''model''),
      up_respondTo = map_option (\<lambda>v. text_of (Some v)) (jfield request ''respondTo'')\<rparr>"

definition noChanges :: "update_request \<Rightarrow> bool" where
  "noChanges u =
     (up_displayName u = None \<and> up_systemPrompt u = None \<and> up_runtime u = None \<and>
      up_provider u = None \<and> up_model u = None \<and> up_respondTo u = None)"

definition parseUpdateRequest :: "(string \<times> jsval) list \<Rightarrow> update_request option" where
  "parseUpdateRequest request =
     (if \<not> isRespondTo (jfield request ''respondTo'') \<or> \<not> hasOnlyKeys request UPDATE_KEYS \<or>
         \<not> isText (jfield request ''channelId'') \<or> \<not> isText (jfield request ''agentName'') then None
      else if noChanges (updateChanges request) then None
      else Some (updateChanges request))"

definition parseAgentManagementRequest :: "jsval \<Rightarrow> management_request option" where
  "parseAgentManagementRequest val =
     (case val of
        JObj payload \<Rightarrow>
          if jfield payload ''type'' \<noteq> Some (JStr ''agent_management_request'') \<or>
             \<not> isText (jfield payload ''requestId'') \<or>
             (jfield payload ''action'' \<noteq> Some (JStr ''create'') \<and>
              jfield payload ''action'' \<noteq> Some (JStr ''update''))
          then None
          else
            let requestId = text_of (jfield payload ''requestId'') in
            (case jfield payload ''request'' of
               Some (JObj request) \<Rightarrow>
                 if jfield payload ''action'' = Some (JStr ''create'')
                 then map_option (CreateRequest requestId) (parseCreateRequest request)
                 else map_option (UpdateRequest requestId) (parseUpdateRequest request)
             | _ \<Rightarrow> None)
      | _ \<Rightarrow> None)"

subsection \<open>The store\<close>

datatype observer_effect =
    NotifyStore nat
  | NotifyManagement nat string management_request
  | NotifyControlResult nat jsval
  | PutSessionConfig string jsval
  | SessionConfigCaptured nat string
  | PutRuntimeLifecycle string jsval
  | UnsubscribeRelay

record observer_task =
  tk_pubkey :: string
  tk_event :: observer_event
  tk_generation :: nat

record 'tr observer_store =
  ob_listeners :: "nat list"
  ob_eventsByAgent :: "(string, observer_event list) jsmap"
  ob_transcriptByAgent :: "(string, 'tr) jsmap"
  ob_snapshotByAgent :: "(string, observer_snapshot) jsmap"
  ob_archiveEventsByChannel :: "(string, observer_event list) jsmap"
  ob_latestLiveSession :: "(string, latest_live_entry) jsmap"
  ob_controlResultListeners :: "(string, nat list) jsmap"
  ob_agentManagementListeners :: "nat list"
  ob_knownAgentPubkeys :: "string list"
  ob_knownAgentsBySubscription :: "(string, string list) jsmap"
  ob_archiveChildCursor :: "(string, int option) jsmap"
  ob_archiveChildExhausted :: "string list"
  ob_childAgentIdToPubkey :: "(string, string) jsmap"
  ob_knownChildAgentIds :: "string list"
  ob_onSessionConfigCaptured :: "nat option"
  ob_connectionState :: connection_state
  ob_errorMessage :: "string option"
  ob_subscribed :: bool
  ob_starting :: bool
  ob_queue :: "observer_task list"
  ob_generation :: nat
  ob_log :: "observer_effect list"

definition MAX_OBSERVER_EVENTS :: nat where "MAX_OBSERVER_EVENTS = 3000"
definition ARCHIVE_PAGE_SIZE :: nat where "ARCHIVE_PAGE_SIZE = 100"
definition ARCHIVE_PAGE_HOPS :: nat where "ARCHIVE_PAGE_HOPS = 20"

definition emptyObserverStore :: "'tr observer_store" where
  "emptyObserverStore =
     \<lparr>ob_listeners = [], ob_eventsByAgent = [], ob_transcriptByAgent = [], ob_snapshotByAgent = [],
      ob_archiveEventsByChannel = [], ob_latestLiveSession = [], ob_controlResultListeners = [],
      ob_agentManagementListeners = [], ob_knownAgentPubkeys = [], ob_knownAgentsBySubscription = [],
      ob_archiveChildCursor = [], ob_archiveChildExhausted = [], ob_childAgentIdToPubkey = [],
      ob_knownChildAgentIds = [], ob_onSessionConfigCaptured = None, ob_connectionState = Idle,
      ob_errorMessage = None, ob_subscribed = False, ob_starting = False, ob_queue = [],
      ob_generation = 0, ob_log = []\<rparr>"

definition liveSessionKey :: "string \<Rightarrow> string option \<Rightarrow> string" where
  "liveSessionKey agentPubkey channelId =
     normalizePubkey agentPubkey @ '':'' @ (case channelId of None \<Rightarrow> [] | Some c \<Rightarrow> c)"

definition getLatestLiveSessionId ::
  "'tr observer_store \<Rightarrow> string option \<Rightarrow> string option \<Rightarrow> string option" where
  "getLatestLiveSessionId s agentPubkey channelId =
     (if \<not> truthy agentPubkey then None
      else map_option ll_sessionId
             (jget (ob_latestLiveSession s) (liveSessionKey (the agentPubkey) channelId)))"

definition setSessionConfigCapturedCallback :: "nat option \<Rightarrow> 'tr observer_store \<Rightarrow> 'tr observer_store" where
  "setSessionConfigCapturedCallback cb s = s\<lparr>ob_onSessionConfigCaptured := cb\<rparr>"

subsection \<open>Known agents\<close>

definition recomputeKnownAgentPubkeys :: "'tr observer_store \<Rightarrow> 'tr observer_store" where
  "recomputeKnownAgentPubkeys s =
     s\<lparr>ob_knownAgentPubkeys :=
        fold (\<lambda>agents known. fold (\<lambda>pubkey known. sadd known pubkey) agents known)
          (jvals (ob_knownAgentsBySubscription s)) []\<rparr>"

text \<open>
  \<open>refreshChildAgentIdMap\<close> reads the known agents before its await; \<open>resolved\<close> lists their
  resolutions in the order in which they completed.
\<close>

definition finishRefreshChildAgentIdMap ::
  "(string \<times> string option) list \<Rightarrow> 'tr observer_store \<Rightarrow> 'tr observer_store" where
  "finishRefreshChildAgentIdMap resolved s =
     (let nextChildToPubkey = fold (\<lambda>(pubkey, childId) m.
            if truthy childId then jset m (the childId) pubkey else m) resolved []
      in s\<lparr>ob_childAgentIdToPubkey := nextChildToPubkey,
           ob_knownChildAgentIds := jkeys nextChildToPubkey\<rparr>)"

definition registerKnownAgents :: "string \<Rightarrow> string list \<Rightarrow> 'tr observer_store \<Rightarrow> 'tr observer_store" where
  "registerKnownAgents subscriptionId pubkeys s =
     recomputeKnownAgentPubkeys
       (s\<lparr>ob_knownAgentsBySubscription :=
           jset (ob_knownAgentsBySubscription s) subscriptionId
             (fold (\<lambda>pubkey ps. sadd ps (normalizePubkey pubkey)) pubkeys [])\<rparr>)"

definition unregisterKnownAgents :: "string \<Rightarrow> 'tr observer_store \<Rightarrow> 'tr observer_store" where
  "unregisterKnownAgents subscriptionId s =
     (if jhas (ob_knownAgentsBySubscription s) subscriptionId
      then recomputeKnownAgentPubkeys
             (s\<lparr>ob_knownAgentsBySubscription := jdel (ob_knownAgentsBySubscription s) subscriptionId\<rparr>)
      else s)"

subsection \<open>Events\<close>

definition notifyStoreListeners :: "'tr observer_store \<Rightarrow> 'tr observer_store" where
  "notifyStoreListeners s = s\<lparr>ob_log := ob_log s @ map NotifyStore (ob_listeners s)\<rparr>"

definition invalidateSnapshot :: "string \<Rightarrow> 'tr observer_store \<Rightarrow> 'tr observer_store" where
  "invalidateSnapshot key s = s\<lparr>ob_snapshotByAgent := jdel (ob_snapshotByAgent s) key\<rparr>"

definition setConnectionState ::
  "connection_state \<Rightarrow> string option \<Rightarrow> 'tr observer_store \<Rightarrow> 'tr observer_store" where
  "setConnectionState nextState nextErrorMessage s =
     notifyStoreListeners (s\<lparr>ob_connectionState := nextState, ob_errorMessage := nextErrorMessage,
                        ob_snapshotByAgent := []\<rparr>)"

definition compareObserverEvents ::
  "(string \<Rightarrow> int option) \<Rightarrow> observer_event \<Rightarrow> observer_event \<Rightarrow> int" where
  "compareObserverEvents dp left right =
     (case (dp (oe_timestamp left), dp (oe_timestamp right)) of
        (Some leftTime, Some rightTime) \<Rightarrow>
          if leftTime - rightTime \<noteq> 0 then leftTime - rightTime else oe_seq left - oe_seq right
      | _ \<Rightarrow> oe_seq left - oe_seq right)"

definition isObserverEventAfter ::
  "(string \<Rightarrow> int option) \<Rightarrow> string \<Rightarrow> int \<Rightarrow> string \<Rightarrow> int \<Rightarrow> bool" where
  "isObserverEventAfter dp candidateTimestamp candidateSeq storedTimestamp storedSeq =
     (case (dp candidateTimestamp, dp storedTimestamp) of
        (Some candidateTime, Some storedTime) \<Rightarrow>
          if candidateTime \<noteq> storedTime then candidateTime > storedTime
          else candidateSeq > storedSeq
      | _ \<Rightarrow> candidateSeq > storedSeq)"

definition sameFrame :: "observer_event \<Rightarrow> observer_event \<Rightarrow> bool" where
  "sameFrame event existing =
     (oe_seq existing = oe_seq event \<and> oe_timestamp existing = oe_timestamp event)"

definition buildTranscriptState ::
  "('tr \<Rightarrow> observer_event \<Rightarrow> 'tr option) \<Rightarrow> 'tr \<Rightarrow> observer_event list \<Rightarrow> 'tr option" where
  "buildTranscriptState process init events =
     foldl (\<lambda>state event. Option.bind state (\<lambda>st. process st event)) (Some init) events"

definition appendAgentEvent ::
  "(string \<Rightarrow> int option) \<Rightarrow> ('tr \<Rightarrow> observer_event \<Rightarrow> 'tr option) \<Rightarrow> 'tr \<Rightarrow> string \<Rightarrow> observer_event
   \<Rightarrow> 'tr observer_store \<Rightarrow> bool \<times> 'tr observer_store" where
  "appendAgentEvent dp process init agentPubkey event s =
     (let key = normalizePubkey agentPubkey;
          current = jget_or (ob_eventsByAgent s) key []
      in if list_ex (sameFrame event) current then (False, s)
         else
           let sorted = js_sort (compareObserverEvents dp) (current @ [event]);
               trimmed = length sorted > MAX_OBSERVER_EVENTS;
               final = (if trimmed then drop (length sorted - MAX_OBSERVER_EVENTS) sorted else sorted);
               s1 = s\<lparr>ob_eventsByAgent := jset (ob_eventsByAgent s) key final\<rparr>;
               eventAtEnd = (last sorted = event);
               transcript =
                 (if eventAtEnd \<and> \<not> trimmed
                  then process (jget_or (ob_transcriptByAgent s) key init) event
                  else buildTranscriptState process init final)
           in case transcript of
                None \<Rightarrow> (True, s1)
              | Some t \<Rightarrow> (False, notifyStoreListeners (invalidateSnapshot key
                  (s1\<lparr>ob_transcriptByAgent := jset (ob_transcriptByAgent s1) key t\<rparr>))))"

definition archiveChannelKey :: "string \<Rightarrow> string \<Rightarrow> string" where
  "archiveChannelKey agentPubkey channelId = normalizePubkey agentPubkey @ '':'' @ channelId"

definition appendArchivedChannelEvent ::
  "(string \<Rightarrow> int option) \<Rightarrow> string \<Rightarrow> string \<Rightarrow> observer_event \<Rightarrow> 'tr observer_store
   \<Rightarrow> bool \<times> 'tr observer_store" where
  "appendArchivedChannelEvent dp agentPubkey channelId event s =
     (let key = archiveChannelKey agentPubkey channelId;
          current = jget_or (ob_archiveEventsByChannel s) key []
      in if list_ex (sameFrame event) current then (False, s)
         else (True, s\<lparr>ob_archiveEventsByChannel :=
                 jset (ob_archiveEventsByChannel s) key
                   (js_sort (compareObserverEvents dp) (current @ [event]))\<rparr>))"

definition getArchivedChannelEvents ::
  "'tr observer_store \<Rightarrow> string option \<Rightarrow> string option \<Rightarrow> observer_event list" where
  "getArchivedChannelEvents s agentPubkey channelId =
     (if \<not> truthy agentPubkey \<or> \<not> truthy channelId then []
      else jget_or (ob_archiveEventsByChannel s) (archiveChannelKey (the agentPubkey) (the channelId)) [])"

definition isControlResultFrame :: "jsval \<Rightarrow> bool" where
  "isControlResultFrame payload =
     (case payload of
        JObj frame \<Rightarrow>
          (case (jfield frame ''type'', jfield frame ''status'') of
             (Some (JStr _), Some (JStr _)) \<Rightarrow> True
           | _ \<Rightarrow> False)
      | _ \<Rightarrow> False)"

definition dispatchControlResult :: "string \<Rightarrow> jsval \<Rightarrow> 'tr observer_store \<Rightarrow> 'tr observer_store" where
  "dispatchControlResult agentPubkey payload s =
     (if \<not> isControlResultFrame payload then s
      else s\<lparr>ob_log := ob_log s @ map (\<lambda>l. NotifyControlResult l payload)
                (jget_or (ob_controlResultListeners s) (normalizePubkey agentPubkey) [])\<rparr>)"

definition recordLatestLive ::
  "(string \<Rightarrow> int option) \<Rightarrow> string \<Rightarrow> observer_event \<Rightarrow> 'tr observer_store \<Rightarrow> 'tr observer_store" where
  "recordLatestLive dp agentPubkey parsed s =
     (if truthy (oe_sessionId parsed) \<and> truthy (oe_channelId parsed) then
        let key = liveSessionKey agentPubkey (oe_channelId parsed) in
        if (case jget (ob_latestLiveSession s) key of
              None \<Rightarrow> True
            | Some stored \<Rightarrow> isObserverEventAfter dp (oe_timestamp parsed) (oe_seq parsed)
                               (ll_timestamp stored) (ll_seq stored))
        then s\<lparr>ob_latestLiveSession := jset (ob_latestLiveSession s) key
                 \<lparr>ll_sessionId = the (oe_sessionId parsed), ll_timestamp = oe_timestamp parsed,
                  ll_seq = oe_seq parsed\<rparr>\<rparr>
        else s
      else s)"

definition dispatchObserverEvent :: "string \<Rightarrow> observer_event \<Rightarrow> 'tr observer_store \<Rightarrow> 'tr observer_store" where
  "dispatchObserverEvent agentPubkey parsed s =
     (let s1 = (case parseAgentManagementRequest (oe_payload parsed) of
                  None \<Rightarrow> s
                | Some request \<Rightarrow>
                    s\<lparr>ob_log := ob_log s @ map (\<lambda>l. NotifyManagement l agentPubkey request)
                        (ob_agentManagementListeners s)\<rparr>)
      in if oe_kind parsed = ''session_config_captured'' then
           s1\<lparr>ob_log := ob_log s1 @ [PutSessionConfig agentPubkey (oe_payload parsed)] @
                (case ob_onSessionConfigCaptured s1 of None \<Rightarrow> []
                 | Some cb \<Rightarrow> [SessionConfigCaptured cb agentPubkey])\<rparr>
         else if oe_kind parsed = ''control_result'' then
           dispatchControlResult agentPubkey (oe_payload parsed) s1
         else if oe_kind parsed = ''managed_agent_runtime_lifecycle'' then
           s1\<lparr>ob_log := ob_log s1 @ [PutRuntimeLifecycle agentPubkey (oe_payload parsed)]\<rparr>
         else s1)"

definition ingestObserverEvent ::
  "(string \<Rightarrow> int option) \<Rightarrow> ('tr \<Rightarrow> observer_event \<Rightarrow> 'tr option) \<Rightarrow> 'tr \<Rightarrow> string \<Rightarrow> observer_event \<Rightarrow> nat
   \<Rightarrow> 'tr observer_store \<Rightarrow> bool \<times> 'tr observer_store" where
  "ingestObserverEvent dp process init agentPubkey parsed activeGeneration s =
     (if activeGeneration \<noteq> ob_generation s then (False, s)
      else case appendAgentEvent dp process init agentPubkey parsed (recordLatestLive dp agentPubkey parsed s) of
             (threw, s') \<Rightarrow> (threw, if threw then s' else dispatchObserverEvent agentPubkey parsed s'))"

subsection \<open>The subscription\<close>

text \<open>
  \<open>ensureRelayObserverSubscription\<close> up to its first await, the frame callback it installs, the
  chained processing of a frame, and the ways its promise settles.
\<close>

definition ensureRelayObserverSubscription :: "'tr observer_store \<Rightarrow> 'tr observer_store" where
  "ensureRelayObserverSubscription s =
     (if ob_subscribed s \<or> ob_starting s then s
      else (setConnectionState Connecting None s)\<lparr>ob_starting := True\<rparr>)"

definition onObserverFrame ::
  "nat \<Rightarrow> (string \<times> observer_event) option \<Rightarrow> 'tr observer_store \<Rightarrow> 'tr observer_store" where
  "onObserverFrame activeGeneration frame s =
     (case frame of
        None \<Rightarrow> s
      | Some (agent, event) \<Rightarrow>
          (let pubkey = jget (ob_childAgentIdToPubkey s) agent in
           if \<not> truthy pubkey then s
           else s\<lparr>ob_queue := ob_queue s @ [\<lparr>tk_pubkey = the pubkey, tk_event = event,
                                               tk_generation = activeGeneration\<rparr>]\<rparr>))"

definition observerTaskFailed :: "nat \<Rightarrow> string \<Rightarrow> 'tr observer_store \<Rightarrow> 'tr observer_store" where
  "observerTaskFailed activeGeneration message s =
     (if activeGeneration \<noteq> ob_generation s then s
      else setConnectionState ConnError (Some (''Observer event handling failed: '' @ message)) s)"

text \<open>The next task of the queue; \<open>message\<close> is the engine's text of the error it throws, if it throws.\<close>

definition runObserverTask ::
  "(string \<Rightarrow> int option) \<Rightarrow> ('tr \<Rightarrow> observer_event \<Rightarrow> 'tr option) \<Rightarrow> 'tr \<Rightarrow> string \<Rightarrow> observer_task
   \<Rightarrow> 'tr observer_store \<Rightarrow> 'tr observer_store" where
  "runObserverTask dp process init message task s =
     (case ingestObserverEvent dp process init (tk_pubkey task) (tk_event task) (tk_generation task)
             (s\<lparr>ob_queue := remove1 task (ob_queue s)\<rparr>) of
        (threw, s') \<Rightarrow> if threw then observerTaskFailed (tk_generation task) message s' else s')"

definition subscriptionOpened :: "nat \<Rightarrow> 'tr observer_store \<Rightarrow> 'tr observer_store" where
  "subscriptionOpened activeGeneration s =
     (if activeGeneration \<noteq> ob_generation s then s\<lparr>ob_log := ob_log s @ [UnsubscribeRelay]\<rparr>
      else (setConnectionState Open None (s\<lparr>ob_subscribed := True\<rparr>))\<lparr>ob_starting := False\<rparr>)"

definition subscriptionFailed :: "nat \<Rightarrow> string \<Rightarrow> 'tr observer_store \<Rightarrow> 'tr observer_store" where
  "subscriptionFailed activeGeneration message s =
     (if activeGeneration \<noteq> ob_generation s then s
      else (setConnectionState ConnError (Some message) s)\<lparr>ob_starting := False\<rparr>)"

definition subscribeAgentObserverStore :: "nat \<Rightarrow> 'tr observer_store \<Rightarrow> 'tr observer_store" where
  "subscribeAgentObserverStore listener s = s\<lparr>ob_listeners := sadd (ob_listeners s) listener\<rparr>"

definition unsubscribeAgentObserverStore :: "nat \<Rightarrow> 'tr observer_store \<Rightarrow> 'tr observer_store" where
  "unsubscribeAgentObserverStore listener s =
     s\<lparr>ob_listeners := removeAll listener (ob_listeners s)\<rparr>"

definition subscribeAgentManagementRequests :: "nat \<Rightarrow> 'tr observer_store \<Rightarrow> 'tr observer_store" where
  "subscribeAgentManagementRequests listener s =
     s\<lparr>ob_agentManagementListeners := sadd (ob_agentManagementListeners s) listener\<rparr>"

definition unsubscribeAgentManagementRequests :: "nat \<Rightarrow> 'tr observer_store \<Rightarrow> 'tr observer_store" where
  "unsubscribeAgentManagementRequests listener s =
     s\<lparr>ob_agentManagementListeners := removeAll listener (ob_agentManagementListeners s)\<rparr>"

definition subscribeControlResults :: "string \<Rightarrow> nat \<Rightarrow> 'tr observer_store \<Rightarrow> 'tr observer_store" where
  "subscribeControlResults agentPubkey listener s =
     (let key = normalizePubkey agentPubkey;
          subscribers = jget_or (ob_controlResultListeners s) key []
      in s\<lparr>ob_controlResultListeners := jset (ob_controlResultListeners s) key (sadd subscribers listener)\<rparr>)"

definition unsubscribeControlResults :: "string \<Rightarrow> nat \<Rightarrow> 'tr observer_store \<Rightarrow> 'tr observer_store" where
  "unsubscribeControlResults agentPubkey listener s =
     (let key = normalizePubkey agentPubkey in
      case jget (ob_controlResultListeners s) key of
        None \<Rightarrow> s
      | Some current \<Rightarrow>
          (let current' = removeAll listener current in
           s\<lparr>ob_controlResultListeners :=
              (if current' = [] then jdel (ob_controlResultListeners s) key
               else jset (ob_controlResultListeners s) key current')\<rparr>))"

subsection \<open>Reading\<close>

definition IDLE_SNAPSHOT :: observer_snapshot where
  "IDLE_SNAPSHOT = \<lparr>os_connectionState = Idle, os_errorMessage = None, os_events = []\<rparr>"

definition freshSnapshot :: "'tr observer_store \<Rightarrow> string \<Rightarrow> observer_snapshot" where
  "freshSnapshot s key =
     \<lparr>os_connectionState = ob_connectionState s, os_errorMessage = ob_errorMessage s,
      os_events = jget_or (ob_eventsByAgent s) key []\<rparr>"

definition getAgentObserverSnapshot ::
  "string option \<Rightarrow> 'tr observer_store \<Rightarrow> observer_snapshot \<times> 'tr observer_store" where
  "getAgentObserverSnapshot agentPubkey s =
     (if \<not> truthy agentPubkey then (IDLE_SNAPSHOT, s)
      else
        let key = normalizePubkey (the agentPubkey);
            snapshot = freshSnapshot s key;
            stored = (snapshot, s\<lparr>ob_snapshotByAgent := jset (ob_snapshotByAgent s) key snapshot\<rparr>)
        in case jget (ob_snapshotByAgent s) key of
             None \<Rightarrow> stored
           | Some cached \<Rightarrow>
               if os_connectionState cached = ob_connectionState s \<and>
                  os_errorMessage cached = ob_errorMessage s
               then (cached, s) else stored)"

definition getAgentTranscript :: "('tr \<Rightarrow> 'item list) \<Rightarrow> string option \<Rightarrow> 'tr observer_store \<Rightarrow> 'item list" where
  "getAgentTranscript items agentPubkey s =
     (if \<not> truthy agentPubkey then []
      else case jget (ob_transcriptByAgent s) (normalizePubkey (the agentPubkey)) of
             None \<Rightarrow> [] | Some state \<Rightarrow> items state)"

subsection \<open>Archived history\<close>

definition ingestArchivedFrame ::
  "(string \<Rightarrow> int option) \<Rightarrow> ('tr \<Rightarrow> observer_event \<Rightarrow> 'tr option) \<Rightarrow> 'tr \<Rightarrow> string \<Rightarrow> observer_event
   \<Rightarrow> bool \<times> 'tr observer_store \<Rightarrow> bool \<times> bool \<times> 'tr observer_store" where
  "ingestArchivedFrame dp process init agentPubkey event st =
     (case st of (archiveChanged, s) \<Rightarrow>
        if truthy (oe_channelId event) then
          (case appendArchivedChannelEvent dp agentPubkey (the (oe_channelId event)) event s of
             (added, s') \<Rightarrow> (False, archiveChanged \<or> added, s'))
        else (case appendAgentEvent dp process init agentPubkey event s of
                (threw, s') \<Rightarrow> (threw, archiveChanged, s')))"

text \<open>A loop over an array whose body may throw.\<close>

fun throwingLoop :: "('a \<Rightarrow> 's \<Rightarrow> bool \<times> 's) \<Rightarrow> 'a list \<Rightarrow> 's \<Rightarrow> bool \<times> 's" where
  "throwingLoop body [] st = (False, st)"
| "throwingLoop body (x # xs) st =
     (case body x st of (threw, st') \<Rightarrow> if threw then (True, st') else throwingLoop body xs st')"

definition ingestArchivedObserverFrames ::
  "(string \<Rightarrow> int option) \<Rightarrow> ('tr \<Rightarrow> observer_event \<Rightarrow> 'tr option) \<Rightarrow> 'tr \<Rightarrow> string \<Rightarrow> observer_event list
   \<Rightarrow> 'tr observer_store \<Rightarrow> bool \<times> 'tr observer_store" where
  "ingestArchivedObserverFrames dp process init agentPubkey frames s =
     (case throwingLoop (ingestArchivedFrame dp process init agentPubkey) frames (False, s) of
        (threw, archiveChanged, s') \<Rightarrow>
          (threw, if \<not> threw \<and> archiveChanged then notifyStoreListeners s' else s'))"

record cold_page =
  cp_frames :: "observer_event list"
  cp_nextBeforeId :: "int option"
  cp_hasMore :: bool

text \<open>
  The paging loop of \<open>fetchOlderAgentArchived\<close>, by the hops that are left; \<open>load\<close> is
  \<open>coldLoadObserverHistory\<close> for the child and owner of the call, as a function of the cursor.
  The result says whether a frame was ingested, \<open>None\<close> that the loop threw.
\<close>

definition channelFrames :: "string option \<Rightarrow> observer_event list \<Rightarrow> observer_event list" where
  "channelFrames channelId frames =
     (case channelId of
        None \<Rightarrow> frames
      | Some c \<Rightarrow> filter (\<lambda>f. oe_channelId f = Some c) frames)"

definition ingestPage ::
  "(string \<Rightarrow> int option) \<Rightarrow> ('tr \<Rightarrow> observer_event \<Rightarrow> 'tr option) \<Rightarrow> 'tr \<Rightarrow> string \<Rightarrow> string \<Rightarrow> observer_event list
   \<Rightarrow> int option \<Rightarrow> 'tr observer_store \<Rightarrow> bool \<times> 'tr observer_store" where
  "ingestPage dp process init agentPubkey childAgentId frames cursor s =
     (case (if frames \<noteq> [] then ingestArchivedObserverFrames dp process init agentPubkey frames s else (False, s)) of
        (threw, s1) \<Rightarrow>
          (threw, if threw then s1
                  else s1\<lparr>ob_archiveChildCursor := jset (ob_archiveChildCursor s1) childAgentId cursor\<rparr>))"

fun archiveHops ::
  "(string \<Rightarrow> int option) \<Rightarrow> ('tr \<Rightarrow> observer_event \<Rightarrow> 'tr option) \<Rightarrow> 'tr \<Rightarrow> (int option \<Rightarrow> cold_page)
   \<Rightarrow> string \<Rightarrow> string option \<Rightarrow> string \<Rightarrow> nat \<Rightarrow> int option \<Rightarrow> 'tr observer_store
   \<Rightarrow> bool option \<times> 'tr observer_store" where
  "archiveHops dp process init load agentPubkey channelId childAgentId 0 cursor s = (Some False, s)"
| "archiveHops dp process init load agentPubkey channelId childAgentId (Suc hops) cursor s =
     (let page = load cursor;
          frames = channelFrames channelId (cp_frames page);
          cursor' = cp_nextBeforeId page
      in case ingestPage dp process init agentPubkey childAgentId frames cursor' s of
           (threw, s') \<Rightarrow>
             if threw then (None, s')
             else if \<not> cp_hasMore page \<or> cursor' = None
             then (Some (frames \<noteq> []), s'\<lparr>ob_archiveChildExhausted := sadd (ob_archiveChildExhausted s') childAgentId\<rparr>)
             else if frames \<noteq> [] then (Some True, s')
             else archiveHops dp process init load agentPubkey channelId childAgentId hops cursor' s')"

definition fetchOlderAgentArchived ::
  "(string \<Rightarrow> int option) \<Rightarrow> ('tr \<Rightarrow> observer_event \<Rightarrow> 'tr option) \<Rightarrow> 'tr \<Rightarrow> (int option \<Rightarrow> cold_page)
   \<Rightarrow> string option \<Rightarrow> string \<Rightarrow> string option \<Rightarrow> 'tr observer_store \<Rightarrow> bool option \<times> 'tr observer_store" where
  "fetchOlderAgentArchived dp process init load childAgentId agentPubkey channelId s =
     (if \<not> truthy childAgentId then (Some False, s)
      else
        let child = the childAgentId in
        if child \<in> set (ob_archiveChildExhausted s) then (Some False, s)
        else
          case archiveHops dp process init load agentPubkey channelId child ARCHIVE_PAGE_HOPS
                 (Option.bind (jget (ob_archiveChildCursor s) child) (\<lambda>c. c)) s of
            (ingested, s') \<Rightarrow> (map_option (\<lambda>i. i \<and> child \<notin> set (ob_archiveChildExhausted s')) ingested, s'))"

definition injectObserverEventsForE2E ::
  "(string \<Rightarrow> int option) \<Rightarrow> ('tr \<Rightarrow> observer_event \<Rightarrow> 'tr option) \<Rightarrow> 'tr \<Rightarrow> string \<Rightarrow> observer_event list
   \<Rightarrow> 'tr observer_store \<Rightarrow> bool \<times> 'tr observer_store" where
  "injectObserverEventsForE2E dp process init agentPubkey events s =
     (case throwingLoop (appendAgentEvent dp process init agentPubkey) events s of
        (threw, s') \<Rightarrow> (threw, if threw then s' else notifyStoreListeners s'))"

definition syncAgentObserverEvents ::
  "(string \<Rightarrow> int option) \<Rightarrow> ('tr \<Rightarrow> observer_event \<Rightarrow> 'tr option) \<Rightarrow> 'tr \<Rightarrow> string \<Rightarrow> observer_event list
   \<Rightarrow> 'tr observer_store \<Rightarrow> bool \<times> 'tr observer_store" where
  "syncAgentObserverEvents dp process init agentPubkey events s =
     throwingLoop (appendAgentEvent dp process init agentPubkey) events s"

definition resetAgentObserverStore :: "'tr observer_store \<Rightarrow> 'tr observer_store" where
  "resetAgentObserverStore s =
     (let s1 = notifyStoreListeners (s\<lparr>ob_generation := Suc (ob_generation s), ob_subscribed := False,
            ob_starting := False, ob_eventsByAgent := [], ob_transcriptByAgent := [],
            ob_snapshotByAgent := [], ob_archiveEventsByChannel := [], ob_knownAgentPubkeys := [],
            ob_knownAgentsBySubscription := [], ob_archiveChildCursor := [],
            ob_archiveChildExhausted := [], ob_latestLiveSession := [],
            ob_agentManagementListeners := [], ob_onSessionConfigCaptured := None,
            ob_connectionState := Idle, ob_errorMessage := None\<rparr>)
      in if ob_subscribed s then s1\<lparr>ob_log := ob_log s1 @ [UnsubscribeRelay]\<rparr> else s1)"

subsection \<open>The order of events\<close>

definition obsKey :: "(string \<Rightarrow> int option) \<Rightarrow> observer_event \<Rightarrow> int \<times> int" where
  "obsKey dp e = (the (dp (oe_timestamp e)), oe_seq e)"

definition parseable :: "(string \<Rightarrow> int option) \<Rightarrow> observer_event \<Rightarrow> bool" where
  "parseable dp e = (dp (oe_timestamp e) \<noteq> None)"

interpretation obs: keyed_comparator "compareObserverEvents dp" "obsKey dp" "parseable dp" for dp
  by unfold_locales
    (auto simp: compareObserverEvents_def obsKey_def parseable_def less_eq_prod_def split: option.splits)

text \<open>
  The test that advances the latest live session is the order of the transcript: a frame is
  after another exactly when the comparator of the event buffer puts it behind, unparseable
  timestamps included.
\<close>

lemma isObserverEventAfter_iff:
  "isObserverEventAfter dp (oe_timestamp c) (oe_seq c) (oe_timestamp e) (oe_seq e) \<longleftrightarrow>
     compareObserverEvents dp c e > 0"
  by (auto simp: isObserverEventAfter_def compareObserverEvents_def split: option.splits)

subsection \<open>The buffer of an agent\<close>

definition agentBuffer :: "'tr observer_store \<Rightarrow> string \<Rightarrow> observer_event list" where
  "agentBuffer s key = jget_or (ob_eventsByAgent s) key []"

text \<open>The loop: what its body keeps, and what it is when nothing throws.\<close>

lemma throwingLoop_keeps:
  assumes "\<And>x st. x \<in> set xs \<Longrightarrow> P st \<Longrightarrow> P (snd (body x st))" and "P st"
  shows "P (snd (throwingLoop body xs st))"
  using assms by (induction xs arbitrary: st) (simp_all add: case_prod_unfold)

lemma throwingLoop_fold:
  "\<not> fst (throwingLoop body xs st) \<Longrightarrow> snd (throwingLoop body xs st) = fold (\<lambda>x st. snd (body x st)) xs st"
  by (induction xs arbitrary: st) (simp_all add: case_prod_unfold split: if_splits)

lemma buildTranscriptState_Nil [simp]: "buildTranscriptState process init [] = Some init"
  by (simp add: buildTranscriptState_def)

lemma buildTranscriptState_snoc:
  "buildTranscriptState process init (evs @ [e]) =
     Option.bind (buildTranscriptState process init evs) (\<lambda>st. process st e)"
  by (simp add: buildTranscriptState_def)

lemma agentBuffer_append:
  "agentBuffer (snd (appendAgentEvent dp process init pk e s)) key =
     (if key = normalizePubkey pk \<and> \<not> list_ex (sameFrame e) (agentBuffer s key)
      then newest MAX_OBSERVER_EVENTS (js_sort (compareObserverEvents dp) (agentBuffer s key @ [e]))
      else agentBuffer s key)"
  by (auto simp: appendAgentEvent_def agentBuffer_def notifyStoreListeners_def invalidateSnapshot_def
      jget_or_def newest_def Let_def split: option.split)

interpretation agent_buffer: newest_buffer "obsKey dp" MAX_OBSERVER_EVENTS "parseable dp" "\<lambda>_. True"
    emptyObserverStore "\<lambda>e s. snd (appendAgentEvent dp process init pk e s)" "\<lambda>s. agentBuffer s (normalizePubkey pk)"
  for dp process init pk
proof unfold_locales
  fix b :: "'a observer_store" and e
  let ?b = "agentBuffer b (normalizePubkey pk)"
  assume ok: "parseable dp e" "\<forall>x\<in>set ?b. parseable dp x" and inj: "inj_on (obsKey dp) (insert e (set ?b))"
  have "list_ex (sameFrame e) ?b \<longleftrightarrow> e \<in> set ?b"
  proof
    assume "list_ex (sameFrame e) ?b"
    then obtain x where x: "x \<in> set ?b" "sameFrame e x" by (auto simp: list_ex_iff)
    then have "obsKey dp x = obsKey dp e" by (simp add: sameFrame_def obsKey_def)
    then have "x = e" using x(1) by (intro inj_onD [OF inj]) simp_all
    with x show "e \<in> set ?b" by simp
  qed (auto simp: list_ex_iff sameFrame_def)
  moreover have "\<forall>x\<in>set (?b @ [e]). parseable dp x" using ok by auto
  ultimately show "agentBuffer (snd (appendAgentEvent dp process init pk e b)) (normalizePubkey pk) =
      (if e \<in> set ?b then ?b else newest MAX_OBSERVER_EVENTS (sort_key (obsKey dp) (?b @ [e])))"
    by (simp add: agentBuffer_append obs.js_sort_eq)
qed (simp_all add: agentBuffer_def emptyObserverStore_def jget_or_def)

lemma handlers_events:
  "ob_eventsByAgent (recordLatestLive dp pk e s) = ob_eventsByAgent s"
  "ob_eventsByAgent (dispatchObserverEvent pk e s) = ob_eventsByAgent s"
  "ob_eventsByAgent (observerTaskFailed gen message s) = ob_eventsByAgent s"
  "ob_generation (recordLatestLive dp pk e s) = ob_generation s"
  "ob_generation (dispatchObserverEvent pk e s) = ob_generation s"
  "ob_generation (observerTaskFailed gen message s) = ob_generation s"
  "ob_generation (snd (appendAgentEvent dp process init pk e s)) = ob_generation s"
  by (simp_all add: recordLatestLive_def dispatchObserverEvent_def dispatchControlResult_def observerTaskFailed_def
      setConnectionState_def notifyStoreListeners_def invalidateSnapshot_def appendAgentEvent_def Let_def split: option.split)

lemma agentBuffer_handlers:
  "agentBuffer (recordLatestLive dp pk e s) key = agentBuffer s key"
  "agentBuffer (dispatchObserverEvent pk e s) key = agentBuffer s key"
  "agentBuffer (observerTaskFailed gen message s) key = agentBuffer s key"
  "agentBuffer (s\<lparr>ob_queue := q\<rparr>) key = agentBuffer s key"
  by (simp_all add: agentBuffer_def handlers_events)

lemma task_buffer:
  assumes "tk_generation task = ob_generation s"
  shows "agentBuffer (runObserverTask dp process init message task s) key =
    agentBuffer (snd (appendAgentEvent dp process init (tk_pubkey task) (tk_event task) s)) key"
    and "ob_generation (runObserverTask dp process init message task s) = ob_generation s"
  using assms
  by (auto simp: runObserverTask_def ingestObserverEvent_def case_prod_unfold agentBuffer_append agentBuffer_handlers
      handlers_events)

text \<open>
  C2. The event buffer of an agent converges: whatever the order and the repetitions in which
  frames with distinct positions arrive, it holds the newest \<open>MAX_OBSERVER_EVENTS\<close> of them,
  once each, in order. For live frames, one task of the queue each, this holds even when the transcript
  reducer throws on some of them; for a batch it holds unless the batch throws.
\<close>

theorem observer_buffer_converges:
  assumes "list_all (parseable dp) es" and "inj_on (obsKey dp) (set es)" and "set es' = set es"
  shows "agentBuffer (fold (\<lambda>e. runObserverTask dp process init message
        \<lparr>tk_pubkey = pk, tk_event = e, tk_generation = 0\<rparr>) es' emptyObserverStore) (normalizePubkey pk) =
      newest MAX_OBSERVER_EVENTS (sort_key (obsKey dp) (remdups es)) \<and>
    (\<not> fst (syncAgentObserverEvents dp process init pk es' emptyObserverStore) \<longrightarrow>
     agentBuffer (snd (syncAgentObserverEvents dp process init pk es' emptyObserverStore)) (normalizePubkey pk) =
       newest MAX_OBSERVER_EVENTS (sort_key (obsKey dp) (remdups es)))"
proof -
  let ?add = "\<lambda>e s. snd (appendAgentEvent dp process init pk e s)"
  let ?task = "\<lambda>e. \<lparr>tk_pubkey = pk, tk_event = e, tk_generation = 0\<rparr>"
  have "list_all (parseable dp) es'" "inj_on (obsKey dp) (set es')"
    using assms by (simp_all add: list_all_iff)
  then have buffer: "agentBuffer (fold ?add es' emptyObserverStore) (normalizePubkey pk) =
      newest MAX_OBSERVER_EVENTS (sort_key (obsKey dp) (remdups es))"
    using agent_buffer.converges [of es' dp process init pk] set_eq_sort_key [of "obsKey dp" es' es] assms(3)
    by (simp add: list_all_iff)
  have "agentBuffer (fold (\<lambda>e. runObserverTask dp process init message (?task e)) xs s) key =
      agentBuffer (fold ?add xs t) key"
    if "\<And>key. agentBuffer s key = agentBuffer t key" "ob_generation s = 0" for xs s key and t :: "'a observer_store"
    using that
  proof (induction xs arbitrary: s t)
    case (Cons x xs)
    have "agentBuffer (runObserverTask dp process init message (?task x) s) k = agentBuffer (?add x t) k" for k
      using Cons.prems(2) task_buffer(1) [of "?task x" s dp process init message k]
      by (auto simp: agentBuffer_append Cons.prems(1))
    then show ?case using Cons.IH Cons.prems(2) task_buffer(2) [of "?task x" s dp process init message] by simp
  qed simp
  from this [of emptyObserverStore emptyObserverStore es' "normalizePubkey pk"] show ?thesis
    using buffer throwingLoop_fold [of "appendAgentEvent dp process init pk" es' emptyObserverStore]
    by (simp add: syncAgentObserverEvents_def emptyObserverStore_def)
qed

text \<open>A sample clock and event, for the witnesses: a timestamp is read as its length.\<close>

definition length_clock :: "string \<Rightarrow> int option" where
  "length_clock ts = (if ts = [] then None else Some (int (length ts)))"

definition sample_event :: "int \<Rightarrow> string \<Rightarrow> string \<Rightarrow> observer_event" where
  "sample_event seq ts kind =
     \<lparr>oe_seq = seq, oe_timestamp = ts, oe_kind = kind, oe_agentIndex = None,
      oe_channelId = Some ''chan'', oe_sessionId = Some ''s'', oe_turnId = Some ''t'', oe_startedAt = None,
      oe_payload = JNull\<rparr>"

theorem observer_buffer_converges_witness:
  "let a = sample_event 1 ''x'' ''acp_read''; b = sample_event 2 ''x'' ''acp_read'' in
   agentBuffer (fold (\<lambda>e. runObserverTask length_clock (\<lambda>n e. if oe_seq e = 2 then None else Some (Suc n)) 0 ''thrown''
       \<lparr>tk_pubkey = ''pk'', tk_event = e, tk_generation = 0\<rparr>) [b, a, b] emptyObserverStore)
     (normalizePubkey ''pk'') = [a, b]"
proof -
  let ?a = "sample_event 1 ''x'' ''acp_read''" and ?b = "sample_event 2 ''x'' ''acp_read''"
  have "list_all (parseable length_clock) [?a, ?b]" "inj_on (obsKey length_clock) (set [?a, ?b])"
    by (simp_all add: parseable_def length_clock_def sample_event_def obsKey_def inj_on_def)
  moreover have "set [?b, ?a, ?b] = set [?a, ?b]" by auto
  moreover have "newest MAX_OBSERVER_EVENTS (sort_key (obsKey length_clock) (remdups [?a, ?b])) = [?a, ?b]"
    by (simp add: obsKey_def sample_event_def newest_short MAX_OBSERVER_EVENTS_def less_eq_prod_def)
  ultimately show ?thesis
    unfolding Let_def
    using observer_buffer_converges [of length_clock "[?a, ?b]" "[?b, ?a, ?b]"
        "\<lambda>n e. if oe_seq e = 2 then None else Some (Suc n)" 0 "''thrown''" "''pk''"] by metis
qed

text \<open>
  With an unparseable timestamp the comparator is cyclic: each of three events is ordered
  strictly before the next, so no order of the buffer is sorted.
\<close>

theorem compareObserverEvents_cycle:
  "let a = sample_event 1 ''xxx'' ''acp_read''; b = sample_event 2 [] ''acp_read'';
       c = sample_event 3 ''x'' ''acp_read'' in
   compareObserverEvents length_clock a b < 0 \<and> compareObserverEvents length_clock b c < 0 \<and>
   compareObserverEvents length_clock c a < 0"
  by (simp add: compareObserverEvents_def sample_event_def length_clock_def)

subsection \<open>The invariant of the store\<close>

definition frameId :: "observer_event \<Rightarrow> int \<times> string" where
  "frameId e = (oe_seq e, oe_timestamp e)"

definition ordered_frames :: "(string \<Rightarrow> int option) \<Rightarrow> observer_event list \<Rightarrow> bool" where
  "ordered_frames dp evs \<longleftrightarrow>
     list_all (parseable dp) evs \<and> sorted (map (obsKey dp) evs) \<and> distinct (map frameId evs)"

text \<open>
  The transcript and the cached snapshot are what the buffer says, as long as the buffer holds no frame on
  which the reducer throws.
\<close>

definition observer_wf ::
  "(string \<Rightarrow> int option) \<Rightarrow> ('tr \<Rightarrow> observer_event \<Rightarrow> 'tr option) \<Rightarrow> 'tr \<Rightarrow> 'tr observer_store \<Rightarrow> bool" where
  "observer_wf dp process init s \<longleftrightarrow>
     (\<forall>key. ordered_frames dp (agentBuffer s key) \<and> length (agentBuffer s key) \<le> MAX_OBSERVER_EVENTS \<and>
        (\<forall>t. buildTranscriptState process init (agentBuffer s key) = Some t \<longrightarrow>
           jget_or (ob_transcriptByAgent s) key init = t)) \<and>
     (\<forall>key snapshot. jget (ob_snapshotByAgent s) key = Some snapshot \<longrightarrow>
        buildTranscriptState process init (agentBuffer s key) \<noteq> None \<longrightarrow> os_events snapshot = agentBuffer s key) \<and>
     (\<forall>key. ordered_frames dp (jget_or (ob_archiveEventsByChannel s) key [])) \<and>
     set (ob_knownAgentPubkeys s) = \<Union> (set ` set (jvals (ob_knownAgentsBySubscription s))) \<and>
     list_all (\<lambda>task. parseable dp (tk_event task)) (ob_queue s)"

lemma ordered_frames_Nil [simp]: "ordered_frames dp []"
  by (simp add: ordered_frames_def)

lemma sameFrame_iff: "list_ex (sameFrame e) evs \<longleftrightarrow> frameId e \<in> frameId ` set evs"
proof -
  have "sameFrame e x \<longleftrightarrow> frameId e = frameId x" for x by (auto simp: sameFrame_def frameId_def)
  then show ?thesis by (simp add: list_ex_iff image_iff)
qed

lemma ordered_frames_insert:
  assumes "ordered_frames dp evs" and "parseable dp e" and "\<not> list_ex (sameFrame e) evs"
  shows "ordered_frames dp (js_sort (compareObserverEvents dp) (evs @ [e]))"
  using assms
  by (auto simp: ordered_frames_def list_all_iff obs.js_sort_sorted sameFrame_iff)

lemma ordered_frames_newest: "ordered_frames dp evs \<Longrightarrow> ordered_frames dp (newest n evs)"
  using set_newest [of n evs]
  by (auto simp: ordered_frames_def list_all_iff sorted_newest distinct_newest)

text \<open>A new last element of a sorted buffer does not move the others.\<close>

lemma sort_snoc_last:
  assumes "ordered_frames dp evs" and "parseable dp e"
    and "last (js_sort (compareObserverEvents dp) (evs @ [e])) = e"
  shows "js_sort (compareObserverEvents dp) (evs @ [e]) = evs @ [e]"
proof -
  let ?s = "js_sort (compareObserverEvents dp) (evs @ [e])"
  have ok: "\<forall>x\<in>set (evs @ [e]). parseable dp x" using assms by (auto simp: ordered_frames_def list_all_iff)
  have "?s \<noteq> []" by (metis length_js_sort length_0_conv snoc_eq_iff_butlast)
  then have "?s = butlast ?s @ [e]" using assms(3) by (metis append_butlast_last_id)
  moreover have "sorted (map (obsKey dp) ?s)" using obs.js_sort_sorted [OF ok] .
  ultimately have "sorted (map (obsKey dp) (butlast ?s) @ [obsKey dp e])" "set ?s = set (butlast ?s) \<union> {e}"
    by (metis list.simps(8,9) map_append, metis list.set(1,2) set_append)
  moreover have "set ?s = set evs \<union> {e}" by simp
  ultimately have "\<forall>x\<in>set evs. obsKey dp x \<le> obsKey dp e" by (auto simp: sorted_append)
  then show ?thesis
    using assms(1,2) ok by (intro obs.js_sort_snoc) (auto simp: ordered_frames_def)
qed

lemma append_fields [observer_simps]:
  "ob_archiveEventsByChannel (snd (appendAgentEvent dp process init pk e s)) = ob_archiveEventsByChannel s"
  "ob_knownAgentPubkeys (snd (appendAgentEvent dp process init pk e s)) = ob_knownAgentPubkeys s"
  "ob_knownAgentsBySubscription (snd (appendAgentEvent dp process init pk e s)) = ob_knownAgentsBySubscription s"
  "ob_queue (snd (appendAgentEvent dp process init pk e s)) = ob_queue s"
  "ob_generation (snd (appendAgentEvent dp process init pk e s)) = ob_generation s"
  "ob_latestLiveSession (snd (appendAgentEvent dp process init pk e s)) = ob_latestLiveSession s"
  by (simp_all add: appendAgentEvent_def notifyStoreListeners_def invalidateSnapshot_def Let_def split: option.split)

text \<open>
  An append that throws leaves a buffer that no rebuild survives; one that does not throws the snapshot
  away and sets the transcript to what a rebuild gives.
\<close>

lemma append_new:
  assumes "observer_wf dp process init s" and "parseable dp e"
    and "\<not> list_ex (sameFrame e) (agentBuffer s (normalizePubkey pk))"
  defines "key \<equiv> normalizePubkey pk" and "s' \<equiv> snd (appendAgentEvent dp process init pk e s)"
  shows "fst (appendAgentEvent dp process init pk e s) \<Longrightarrow> buildTranscriptState process init (agentBuffer s' key) = None"
    and "buildTranscriptState process init (agentBuffer s' key) = Some t \<Longrightarrow> jget_or (ob_transcriptByAgent s') key init = t"
    and "buildTranscriptState process init (agentBuffer s' key) = Some t \<Longrightarrow> jget (ob_snapshotByAgent s') key = None"
proof -
  let ?b = "agentBuffer s key"
  let ?s = "js_sort (compareObserverEvents dp) (?b @ [e])"
  define kept where "kept = jget_or (ob_transcriptByAgent s) key init"
  have wf: "ordered_frames dp ?b" "\<And>t. buildTranscriptState process init ?b = Some t \<Longrightarrow> kept = t"
    using assms(1) by (simp_all add: observer_wf_def kept_def)
  have buffer: "agentBuffer s' key = newest MAX_OBSERVER_EVENTS ?s"
    using assms(3) by (simp add: s'_def key_def agentBuffer_append)
  define transcript where "transcript = (if last ?s = e \<and> \<not> MAX_OBSERVER_EVENTS < length ?s then process kept e
      else buildTranscriptState process init (newest MAX_OBSERVER_EVENTS ?s))"
  have final: "(if MAX_OBSERVER_EVENTS < length ?s then drop (length ?s - MAX_OBSERVER_EVENTS) ?s else ?s) =
      newest MAX_OBSERVER_EVENTS ?s" by (simp add: newest_def)
  have "appendAgentEvent dp process init pk e s =
      (let s1 = s\<lparr>ob_eventsByAgent := jset (ob_eventsByAgent s) key (newest MAX_OBSERVER_EVENTS ?s)\<rparr> in
       case transcript of
         None \<Rightarrow> (True, s1)
       | Some t \<Rightarrow> (False, notifyStoreListeners (invalidateSnapshot key
           (s1\<lparr>ob_transcriptByAgent := jset (ob_transcriptByAgent s1) key t\<rparr>))))"
    using assms(3) unfolding appendAgentEvent_def Let_def transcript_def kept_def agentBuffer_def [symmetric] key_def [symmetric] final
    by simp
  then have result: "fst (appendAgentEvent dp process init pk e s) = (transcript = None)"
    "transcript = Some t \<Longrightarrow> jget_or (ob_transcriptByAgent s') key init = t \<and> jget (ob_snapshotByAgent s') key = None" for t
    by (simp_all add: s'_def Let_def notifyStoreListeners_def invalidateSnapshot_def jget_or_def split: option.split)
  have build: "transcript = Some t" if "buildTranscriptState process init (newest MAX_OBSERVER_EVENTS ?s) = Some t" for t
  proof (cases "last ?s = e \<and> \<not> MAX_OBSERVER_EVENTS < length ?s")
    case True
    then have "newest MAX_OBSERVER_EVENTS ?s = ?b @ [e]"
      using sort_snoc_last [OF wf(1) assms(2)] by (simp add: newest_short)
    then show ?thesis
      using that wf(2) True by (auto simp: transcript_def buildTranscriptState_snoc split: bind_splits)
  next
    case False
    then show ?thesis using that unfolding transcript_def by (simp only: if_False)
  qed
  show "fst (appendAgentEvent dp process init pk e s) \<Longrightarrow> buildTranscriptState process init (agentBuffer s' key) = None"
    using build result(1) by (cases "buildTranscriptState process init (agentBuffer s' key)") (auto simp: buffer)
  show "buildTranscriptState process init (agentBuffer s' key) = Some t \<Longrightarrow> jget_or (ob_transcriptByAgent s') key init = t"
    and "buildTranscriptState process init (agentBuffer s' key) = Some t \<Longrightarrow> jget (ob_snapshotByAgent s') key = None"
    using build result(2) by (simp_all add: buffer)
qed

lemma append_old:
  assumes "key \<noteq> normalizePubkey pk \<or> list_ex (sameFrame e) (agentBuffer s (normalizePubkey pk))"
  shows "agentBuffer (snd (appendAgentEvent dp process init pk e s)) key = agentBuffer s key"
    and "jget_or (ob_transcriptByAgent (snd (appendAgentEvent dp process init pk e s))) key init =
      jget_or (ob_transcriptByAgent s) key init"
    and "jget (ob_snapshotByAgent (snd (appendAgentEvent dp process init pk e s))) key = jget (ob_snapshotByAgent s) key"
  using assms
  by (auto simp: appendAgentEvent_def notifyStoreListeners_def invalidateSnapshot_def agentBuffer_def
      jget_or_def Let_def split: option.split)

lemma append_wf:
  assumes "observer_wf dp process init s" and "parseable dp e"
  shows "observer_wf dp process init (snd (appendAgentEvent dp process init pk e s))"
proof -
  let ?s' = "snd (appendAgentEvent dp process init pk e s)"
  have "ordered_frames dp (agentBuffer ?s' key) \<and> length (agentBuffer ?s' key) \<le> MAX_OBSERVER_EVENTS" for key
    using assms ordered_frames_insert [of dp "agentBuffer s key" e]
    by (auto simp: agentBuffer_append observer_wf_def intro: ordered_frames_newest)
  moreover have "(buildTranscriptState process init (agentBuffer ?s' key) = Some t \<longrightarrow>
        jget_or (ob_transcriptByAgent ?s') key init = t) \<and>
      (jget (ob_snapshotByAgent ?s') key = Some snapshot \<longrightarrow>
        buildTranscriptState process init (agentBuffer ?s' key) \<noteq> None \<longrightarrow> os_events snapshot = agentBuffer ?s' key)"
    for key t snapshot
  proof (cases "key \<noteq> normalizePubkey pk \<or> list_ex (sameFrame e) (agentBuffer s (normalizePubkey pk))")
    case True
    then show ?thesis using append_old [OF True, of dp process init] assms(1) by (simp add: observer_wf_def)
  next
    case False
    then show ?thesis using append_new(2,3) [OF assms] by fastforce
  qed
  ultimately show ?thesis
    using assms(1) by (simp add: observer_wf_def observer_simps)
qed

lemma wf_cong:
  assumes "ob_eventsByAgent s' = ob_eventsByAgent s" and "ob_transcriptByAgent s' = ob_transcriptByAgent s"
    and "ob_snapshotByAgent s' = ob_snapshotByAgent s \<or> ob_snapshotByAgent s' = []"
    and "ob_archiveEventsByChannel s' = ob_archiveEventsByChannel s"
    and "ob_knownAgentPubkeys s' = ob_knownAgentPubkeys s"
    and "ob_knownAgentsBySubscription s' = ob_knownAgentsBySubscription s"
    and "set (ob_queue s') \<subseteq> set (ob_queue s)"
    and "observer_wf dp process init s"
  shows "observer_wf dp process init s'"
proof -
  have "agentBuffer s' = agentBuffer s" using assms(1) by (simp add: agentBuffer_def fun_eq_iff)
  with assms show ?thesis by (auto simp: observer_wf_def list_all_iff)
qed

lemma notify_wf: "observer_wf dp process init s \<Longrightarrow> observer_wf dp process init (notifyStoreListeners s)"
  by (rule wf_cong) (simp_all add: notifyStoreListeners_def)

lemma setConnectionState_wf:
  "observer_wf dp process init s \<Longrightarrow> observer_wf dp process init (setConnectionState c m s)"
  by (rule wf_cong) (simp_all add: setConnectionState_def notifyStoreListeners_def)

lemma dispatch_wf:
  "observer_wf dp process init s \<Longrightarrow> observer_wf dp process init (dispatchObserverEvent pk e s)"
  by (rule wf_cong)
    (simp_all add: dispatchObserverEvent_def dispatchControlResult_def split: option.splits)

lemma recordLatestLive_wf:
  "observer_wf dp process init s \<Longrightarrow> observer_wf dp process init (recordLatestLive dp pk e s)"
  by (rule wf_cong) (simp_all add: recordLatestLive_def split: option.splits)

lemma task_failed_wf:
  "observer_wf dp process init s \<Longrightarrow> observer_wf dp process init (observerTaskFailed gen message s)"
  by (simp add: observerTaskFailed_def setConnectionState_wf)

lemma ingest_wf:
  "observer_wf dp process init s \<Longrightarrow> parseable dp e \<Longrightarrow>
   observer_wf dp process init (snd (ingestObserverEvent dp process init pk e gen s))"
  by (simp add: ingestObserverEvent_def dispatch_wf append_wf recordLatestLive_wf case_prod_unfold)

lemma append_loop_wf:
  "observer_wf dp process init s \<Longrightarrow> list_all (parseable dp) es \<Longrightarrow>
   observer_wf dp process init (snd (throwingLoop (appendAgentEvent dp process init pk) es s))"
  by (rule throwingLoop_keeps) (auto simp: append_wf list_all_iff)

lemma archived_wf:
  assumes "observer_wf dp process init s" and "parseable dp e"
  shows "observer_wf dp process init (snd (appendArchivedChannelEvent dp pk c e s))"
proof -
  let ?s' = "snd (appendArchivedChannelEvent dp pk c e s)"
  have "agentBuffer ?s' = agentBuffer s"
    by (auto simp: appendArchivedChannelEvent_def agentBuffer_def fun_eq_iff)
  moreover have "ordered_frames dp (jget_or (ob_archiveEventsByChannel ?s') key [])" for key
    using assms ordered_frames_insert [of dp "jget_or (ob_archiveEventsByChannel s) key []" e]
    by (auto simp: appendArchivedChannelEvent_def observer_wf_def jget_or_def)
  ultimately show ?thesis
    using assms(1) by (auto simp: observer_wf_def appendArchivedChannelEvent_def)
qed

lemma ingestArchivedFrame_wf:
  "observer_wf dp process init (snd st) \<Longrightarrow> parseable dp e \<Longrightarrow>
   observer_wf dp process init (snd (snd (ingestArchivedFrame dp process init pk e st)))"
  using archived_wf [of dp process init "snd st" e pk "the (oe_channelId e)"]
  by (auto simp: ingestArchivedFrame_def append_wf case_prod_unfold)

lemma ingestArchivedFrames_wf:
  assumes "observer_wf dp process init s" and "list_all (parseable dp) frames"
  shows "observer_wf dp process init (snd (ingestArchivedObserverFrames dp process init pk frames s))"
proof -
  have "observer_wf dp process init (snd (snd (throwingLoop (ingestArchivedFrame dp process init pk) frames (False, s))))"
    using assms
    by (intro throwingLoop_keeps [of _ "\<lambda>st. observer_wf dp process init (snd st)"])
      (auto simp: ingestArchivedFrame_wf list_all_iff)
  then show ?thesis
    by (simp add: ingestArchivedObserverFrames_def notify_wf case_prod_unfold)
qed

lemma cursor_wf:
  "observer_wf dp process init s \<Longrightarrow> observer_wf dp process init (s\<lparr>ob_archiveChildCursor := m\<rparr>)"
  "observer_wf dp process init s \<Longrightarrow> observer_wf dp process init (s\<lparr>ob_archiveChildExhausted := l\<rparr>)"
  by (erule wf_cong [rotated -1]; simp)+

lemma ingestPage_wf:
  assumes "observer_wf dp process init s" and "list_all (parseable dp) frames"
  shows "observer_wf dp process init (snd (ingestPage dp process init pk child frames cursor s))"
  using assms by (simp add: ingestPage_def case_prod_unfold ingestArchivedFrames_wf cursor_wf)

lemma archiveHops_wf:
  assumes "\<And>c. list_all (parseable dp) (cp_frames (load c))"
  shows "observer_wf dp process init s \<Longrightarrow>
    observer_wf dp process init (snd (archiveHops dp process init load pk channelId child hops cursor s))"
proof (induction hops arbitrary: cursor s)
  case (Suc hops)
  have "list_all (parseable dp) (channelFrames channelId (cp_frames (load cursor)))"
    using assms [of cursor] by (auto simp: channelFrames_def list_all_iff split: option.splits)
  then show ?case
    using ingestPage_wf [OF Suc.prems] Suc.IH by (simp add: case_prod_unfold Let_def cursor_wf)
qed simp

lemma fetch_wf:
  assumes "\<And>c. list_all (parseable dp) (cp_frames (load c))" and "observer_wf dp process init s"
  shows "observer_wf dp process init (snd (fetchOlderAgentArchived dp process init load child pk channelId s))"
  using archiveHops_wf [OF assms(1,2)]
  by (simp add: fetchOlderAgentArchived_def assms(2) case_prod_unfold)

lemma fold_sadd_set: "set (fold (\<lambda>x ys. sadd ys x) xs acc) = set acc \<union> set xs"
  by (induction xs arbitrary: acc) auto

lemma recompute_known:
  "set (ob_knownAgentPubkeys (recomputeKnownAgentPubkeys s)) =
     \<Union> (set ` set (jvals (ob_knownAgentsBySubscription s)))"
proof -
  have "set (fold (\<lambda>agents known. fold (\<lambda>pubkey known. sadd known pubkey) agents known) ls acc) =
      set acc \<union> \<Union> (set ` set ls)" for ls :: "string list list" and acc
    by (induction ls arbitrary: acc) (auto simp: fold_sadd_set)
  then show ?thesis by (simp add: recomputeKnownAgentPubkeys_def)
qed

lemma recompute_wf:
  assumes "observer_wf dp process init s"
    and "\<exists>m. s' = recomputeKnownAgentPubkeys (s\<lparr>ob_knownAgentsBySubscription := m\<rparr>)"
  shows "observer_wf dp process init s'"
proof -
  obtain m where s': "s' = recomputeKnownAgentPubkeys (s\<lparr>ob_knownAgentsBySubscription := m\<rparr>)"
    using assms(2) by blast
  have "agentBuffer s' = agentBuffer s" by (simp add: s' agentBuffer_def fun_eq_iff recomputeKnownAgentPubkeys_def)
  then show ?thesis
    using assms(1) recompute_known [of "s\<lparr>ob_knownAgentsBySubscription := m\<rparr>"]
    by (simp add: observer_wf_def s') (simp add: recomputeKnownAgentPubkeys_def)
qed

lemma reset_fields [observer_simps]:
  "ob_eventsByAgent (resetAgentObserverStore s) = []" "ob_transcriptByAgent (resetAgentObserverStore s) = []"
  "ob_snapshotByAgent (resetAgentObserverStore s) = []" "ob_archiveEventsByChannel (resetAgentObserverStore s) = []"
  "ob_knownAgentPubkeys (resetAgentObserverStore s) = []"
  "ob_knownAgentsBySubscription (resetAgentObserverStore s) = []"
  "ob_queue (resetAgentObserverStore s) = ob_queue s"
  "ob_generation (resetAgentObserverStore s) = Suc (ob_generation s)"
  "ob_latestLiveSession (resetAgentObserverStore s) = []"
  by (simp_all add: resetAgentObserverStore_def notifyStoreListeners_def)

lemma reset_wf: "observer_wf dp process init s \<Longrightarrow> observer_wf dp process init (resetAgentObserverStore s)"
  by (simp add: observer_wf_def observer_simps agentBuffer_def jget_or_def)

lemma snapshot_wf:
  "observer_wf dp process init s \<Longrightarrow> observer_wf dp process init (snd (getAgentObserverSnapshot pk s))"
  by (auto simp: observer_wf_def getAgentObserverSnapshot_def freshSnapshot_def agentBuffer_def
      split: option.splits)

subsection \<open>Reachable stores\<close>

text \<open>
  The steps of the store: every exported operation, every continuation of an async one, with
  frames whose timestamp parses.
\<close>

inductive observer_step ::
  "(string \<Rightarrow> int option) \<Rightarrow> ('tr \<Rightarrow> observer_event \<Rightarrow> 'tr option) \<Rightarrow> 'tr \<Rightarrow> 'tr observer_store \<Rightarrow> 'tr observer_store \<Rightarrow> bool"
  for dp process init where
  step_frame: "parseable dp e \<Longrightarrow> observer_step dp process init s (onObserverFrame gen (Some (child, e)) s)"
| step_run: "task \<in> set (ob_queue s) \<Longrightarrow> observer_step dp process init s (runObserverTask dp process init msg task s)"
| step_task_failed: "observer_step dp process init s (observerTaskFailed gen msg s)"
| step_ensure: "observer_step dp process init s (ensureRelayObserverSubscription s)"
| step_opened: "observer_step dp process init s (subscriptionOpened gen s)"
| step_failed: "observer_step dp process init s (subscriptionFailed gen msg s)"
| step_archived: "list_all (parseable dp) frames \<Longrightarrow>
    observer_step dp process init s (snd (ingestArchivedObserverFrames dp process init pk frames s))"
| step_fetch: "(\<And>c. list_all (parseable dp) (cp_frames (load c))) \<Longrightarrow>
    observer_step dp process init s (snd (fetchOlderAgentArchived dp process init load child pk channelId s))"
| step_sync: "list_all (parseable dp) es \<Longrightarrow>
    observer_step dp process init s (snd (syncAgentObserverEvents dp process init pk es s))"
| step_inject: "list_all (parseable dp) es \<Longrightarrow>
    observer_step dp process init s (snd (injectObserverEventsForE2E dp process init pk es s))"
| step_register: "observer_step dp process init s (registerKnownAgents sub pks s)"
| step_unregister: "observer_step dp process init s (unregisterKnownAgents sub s)"
| step_refresh: "observer_step dp process init s (finishRefreshChildAgentIdMap resolved s)"
| step_read: "observer_step dp process init s (snd (getAgentObserverSnapshot agent s))"
| step_subscribe: "observer_step dp process init s (subscribeAgentObserverStore l s)"
| step_unsubscribe: "observer_step dp process init s (unsubscribeAgentObserverStore l s)"
| step_sub_management: "observer_step dp process init s (subscribeAgentManagementRequests l s)"
| step_unsub_management: "observer_step dp process init s (unsubscribeAgentManagementRequests l s)"
| step_sub_control: "observer_step dp process init s (subscribeControlResults pk l s)"
| step_unsub_control: "observer_step dp process init s (unsubscribeControlResults pk l s)"
| step_callback: "observer_step dp process init s (setSessionConfigCapturedCallback cb s)"
| step_reset: "observer_step dp process init s (resetAgentObserverStore s)"

inductive observer_reachable ::
  "(string \<Rightarrow> int option) \<Rightarrow> ('tr \<Rightarrow> observer_event \<Rightarrow> 'tr option) \<Rightarrow> 'tr \<Rightarrow> 'tr observer_store \<Rightarrow> bool"
  for dp process init where
  reach_empty: "observer_reachable dp process init emptyObserverStore"
| reach_step: "observer_reachable dp process init s \<Longrightarrow> observer_step dp process init s s' \<Longrightarrow>
    observer_reachable dp process init s'"

lemma frame_wf:
  "observer_wf dp process init s \<Longrightarrow> parseable dp e \<Longrightarrow>
   observer_wf dp process init (onObserverFrame gen (Some (child, e)) s)"
  by (simp add: observer_wf_def onObserverFrame_def agentBuffer_def)

lemma run_wf:
  assumes "observer_wf dp process init s" and "task \<in> set (ob_queue s)"
  shows "observer_wf dp process init (runObserverTask dp process init message task s)"
proof -
  have "observer_wf dp process init (s\<lparr>ob_queue := remove1 task (ob_queue s)\<rparr>)"
    using assms(1) by (rule wf_cong [rotated -1]) (simp_all add: set_remove1_subset)
  moreover have "parseable dp (tk_event task)" using assms by (auto simp: observer_wf_def list_all_iff)
  ultimately show ?thesis by (simp add: runObserverTask_def ingest_wf task_failed_wf case_prod_unfold)
qed

lemma step_wf:
  "observer_step dp process init s s' \<Longrightarrow> observer_wf dp process init s \<Longrightarrow> observer_wf dp process init s'"
proof (induction rule: observer_step.induct)
  case (step_register s sub pks)
  then show ?case by (rule recompute_wf) (auto simp: registerKnownAgents_def)
next
  case (step_unregister s sub)
  then show ?case using recompute_wf [OF step_unregister] by (auto simp: unregisterKnownAgents_def)
next
  case (step_ensure s)
  then have "observer_wf dp process init (setConnectionState Connecting None s)" by (rule setConnectionState_wf)
  then have "observer_wf dp process init ((setConnectionState Connecting None s)\<lparr>ob_starting := True\<rparr>)"
    by (rule wf_cong [rotated -1]) simp_all
  with step_ensure show ?case by (simp add: ensureRelayObserverSubscription_def)
next
  case (step_opened s gen)
  then show ?case
    by (rule wf_cong [rotated -1])
      (simp_all add: subscriptionOpened_def setConnectionState_def notifyStoreListeners_def)
next
  case (step_failed s gen msg)
  then show ?case
    by (rule wf_cong [rotated -1])
      (simp_all add: subscriptionFailed_def setConnectionState_def notifyStoreListeners_def)
next
  case (step_refresh s resolved)
  then show ?case by (rule wf_cong [rotated -1]) (simp_all add: finishRefreshChildAgentIdMap_def)
next
  case (step_subscribe s l)
  then show ?case by (rule wf_cong [rotated -1]) (simp_all add: subscribeAgentObserverStore_def)
next
  case (step_unsubscribe s l)
  then show ?case by (rule wf_cong [rotated -1]) (simp_all add: unsubscribeAgentObserverStore_def)
next
  case (step_sub_management s l)
  then show ?case by (rule wf_cong [rotated -1]) (simp_all add: subscribeAgentManagementRequests_def)
next
  case (step_unsub_management s l)
  then show ?case by (rule wf_cong [rotated -1]) (simp_all add: unsubscribeAgentManagementRequests_def)
next
  case (step_sub_control s pk l)
  then show ?case by (rule wf_cong [rotated -1]) (simp_all add: subscribeControlResults_def)
next
  case (step_unsub_control s pk l)
  then show ?case
    by (rule wf_cong [rotated -1]) (simp_all add: unsubscribeControlResults_def split: option.splits)
next
  case (step_callback s cb)
  then show ?case by (rule wf_cong [rotated -1]) (simp_all add: setSessionConfigCapturedCallback_def)
qed (simp_all add: frame_wf run_wf task_failed_wf ingestArchivedFrames_wf fetch_wf syncAgentObserverEvents_def
      injectObserverEventsForE2E_def append_loop_wf notify_wf snapshot_wf reset_wf case_prod_unfold)

lemma empty_wf: "observer_wf dp process init emptyObserverStore"
  by (simp add: observer_wf_def emptyObserverStore_def agentBuffer_def jget_or_def)

lemma reachable_wf: "observer_reachable dp process init s \<Longrightarrow> observer_wf dp process init s"
  by (induction rule: observer_reachable.induct) (auto intro: step_wf empty_wf)

lemma threw_no_rebuild:
  assumes "observer_wf dp process init s" and "parseable dp e" and "fst (appendAgentEvent dp process init pk e s)"
  shows "buildTranscriptState process init (agentBuffer (snd (appendAgentEvent dp process init pk e s)) (normalizePubkey pk)) = None"
proof (rule append_new(1) [OF assms(1,2) _ assms(3)])
  show "\<not> list_ex (sameFrame e) (agentBuffer s (normalizePubkey pk))"
    using assms(3) by (auto simp: appendAgentEvent_def agentBuffer_def Let_def)
qed

definition sample_observer :: "nat observer_store" where
  "sample_observer = snd (syncAgentObserverEvents length_clock (\<lambda>n _. Some (Suc n)) 0 ''pk''
     [sample_event 2 ''xy'' ''acp_read'', sample_event 1 ''x'' ''acp_read''] emptyObserverStore)"

lemma sample_observer_reachable: "observer_reachable length_clock (\<lambda>n _. Some (Suc n)) 0 sample_observer"
  unfolding sample_observer_def
  by (rule reach_step [OF reach_empty step_sync]) (simp add: parseable_def length_clock_def sample_event_def)

text \<open>
  The cached snapshot is not stale while the buffer can be rebuilt: in every reachable store reading an
  agent's snapshot gives the current connection state, error and events.
\<close>

theorem snapshot_is_current:
  assumes "observer_reachable dp process init s" and "pk \<noteq> []"
    and "buildTranscriptState process init (agentBuffer s (normalizePubkey pk)) \<noteq> None"
  shows "fst (getAgentObserverSnapshot (Some pk) s) = freshSnapshot s (normalizePubkey pk)"
  using reachable_wf [OF assms(1)] assms(2,3)
  by (auto simp: getAgentObserverSnapshot_def freshSnapshot_def observer_wf_def agentBuffer_def truthy_def
      split: option.splits)

text \<open>
  A community switch isolates: frames queued before a reset change nothing after it, however
  many of them still run.
\<close>

theorem stale_tasks_ignored:
  assumes "list_all (\<lambda>task. tk_generation task \<le> ob_generation s) tasks"
  shows "fold (runObserverTask dp process init message) tasks (resetAgentObserverStore s) =
    (resetAgentObserverStore s)\<lparr>ob_queue := fold remove1 tasks (ob_queue s)\<rparr>"
proof -
  have "fold (runObserverTask dp process init message) tasks s' = s'\<lparr>ob_queue := fold remove1 tasks (ob_queue s')\<rparr>"
    if "ob_generation s' = Suc (ob_generation s)" for s'
    using assms that
  proof (induction tasks arbitrary: s')
    case (Cons task tasks)
    then have "runObserverTask dp process init message task s' = s'\<lparr>ob_queue := remove1 task (ob_queue s')\<rparr>"
      by (auto simp: runObserverTask_def ingestObserverEvent_def)
    with Cons show ?case by simp
  qed simp
  from this [of "resetAgentObserverStore s"] show ?thesis by (simp add: observer_simps)
qed

theorem stale_tasks_ignored_witness:
  "let task = \<lparr>tk_pubkey = ''pk'', tk_event = sample_event 1 ''x'' ''acp_read'', tk_generation = 0\<rparr> in
   ob_eventsByAgent (runObserverTask length_clock (\<lambda>n _. Some (Suc n)) 0 ''thrown'' task
     (resetAgentObserverStore sample_observer)) = []"
proof -
  let ?task = "\<lparr>tk_pubkey = ''pk'', tk_event = sample_event 1 ''x'' ''acp_read'', tk_generation = 0\<rparr>"
  show ?thesis
    using stale_tasks_ignored [of sample_observer "[?task]" length_clock "\<lambda>n _. Some (Suc n)" 0 "''thrown''"]
    by (simp add: observer_simps)
qed

subsection \<open>The latest live session\<close>

definition sessionFrames :: "string \<Rightarrow> observer_event list \<Rightarrow> observer_event list" where
  "sessionFrames channelId es =
     filter (\<lambda>e. truthy (oe_sessionId e) \<and> oe_channelId e = Some channelId) es"

definition live_entry :: "observer_event \<Rightarrow> latest_live_entry" where
  "live_entry e = \<lparr>ll_sessionId = the (oe_sessionId e), ll_timestamp = oe_timestamp e, ll_seq = oe_seq e\<rparr>"

lemma ingest_latest:
  "ob_latestLiveSession (snd (ingestObserverEvent dp process init pk e (ob_generation s) s)) =
     ob_latestLiveSession (recordLatestLive dp pk e s)"
  by (simp add: ingestObserverEvent_def dispatchObserverEvent_def dispatchControlResult_def observer_simps
      case_prod_unfold split: option.splits)

lemma ingest_generation:
  "ob_generation (snd (ingestObserverEvent dp process init pk e gen s)) = ob_generation s"
  by (simp add: ingestObserverEvent_def dispatchObserverEvent_def dispatchControlResult_def observer_simps
      recordLatestLive_def case_prod_unfold split: option.splits)

lemma record_latest:
  assumes "channelId \<noteq> []"
  shows "jget (ob_latestLiveSession (recordLatestLive dp pk e s)) (liveSessionKey pk (Some channelId)) =
    (if truthy (oe_sessionId e) \<and> oe_channelId e = Some channelId \<and>
        (case jget (ob_latestLiveSession s) (liveSessionKey pk (Some channelId)) of
           None \<Rightarrow> True
         | Some stored \<Rightarrow> isObserverEventAfter dp (oe_timestamp e) (oe_seq e) (ll_timestamp stored) (ll_seq stored))
     then Some (live_entry e)
     else jget (ob_latestLiveSession s) (liveSessionKey pk (Some channelId)))"
  using assms
  by (cases "oe_channelId e")
    (auto simp: recordLatestLive_def live_entry_def liveSessionKey_def truthy_def split: option.splits)

text \<open>
  The latest live session of an agent in a channel is the session of the newest live frame,
  by the order of the transcript, whatever the order in which the frames arrived; a late frame
  of an older session never takes it back.
\<close>

theorem latest_live_session:
  assumes "list_all (parseable dp) es" and "channelId \<noteq> []" and "sessionFrames channelId es \<noteq> []"
    and "pk \<noteq> []"
  shows "\<exists>e\<in>set (sessionFrames channelId es).
    getLatestLiveSessionId (fold (\<lambda>e s. snd (ingestObserverEvent dp process init pk e 0 s)) es emptyObserverStore)
      (Some pk) (Some channelId) = oe_sessionId e \<and>
    (\<forall>x\<in>set (sessionFrames channelId es). obsKey dp x \<le> obsKey dp e)"
proof -
  let ?st = "\<lambda>es. fold (\<lambda>e s. snd (ingestObserverEvent dp process init pk e 0 s)) es emptyObserverStore"
  let ?k = "liveSessionKey pk (Some channelId)"
  have gen: "ob_generation (?st es) = 0" for es
    by (induction es rule: rev_induct) (simp_all add: ingest_generation emptyObserverStore_def)
  have "case jget (ob_latestLiveSession (?st es)) ?k of
      None \<Rightarrow> sessionFrames channelId es = []
    | Some stored \<Rightarrow> \<exists>e\<in>set (sessionFrames channelId es). stored = live_entry e \<and>
        (\<forall>x\<in>set (sessionFrames channelId es). obsKey dp x \<le> obsKey dp e)"
    using assms(1)
  proof (induction es rule: rev_induct)
    case Nil
    then show ?case by (simp add: emptyObserverStore_def sessionFrames_def)
  next
    case (snoc e es)
    have step: "jget (ob_latestLiveSession (?st (es @ [e]))) ?k =
        jget (ob_latestLiveSession (recordLatestLive dp pk e (?st es))) ?k"
      using ingest_latest [of dp process init pk e "?st es"] gen [of es] by simp
    have after: "isObserverEventAfter dp (oe_timestamp e) (oe_seq e) (ll_timestamp (live_entry x))
        (ll_seq (live_entry x)) \<longleftrightarrow> obsKey dp x < obsKey dp e" if "x \<in> set es" for x
      using that snoc.prems
      by (auto simp: live_entry_def isObserverEventAfter_def obsKey_def parseable_def list_all_iff
          less_prod_def split: option.splits)
    have sub: "set (sessionFrames channelId es) \<subseteq> set es" by (auto simp: sessionFrames_def)
    have ih: "case jget (ob_latestLiveSession (?st es)) ?k of
        None \<Rightarrow> sessionFrames channelId es = []
      | Some stored \<Rightarrow> \<exists>e\<in>set (sessionFrames channelId es). stored = live_entry e \<and>
          (\<forall>x\<in>set (sessionFrames channelId es). obsKey dp x \<le> obsKey dp e)"
      using snoc by simp
    show ?case
    proof (cases "jget (ob_latestLiveSession (?st es)) ?k")
      case None
      with ih show ?thesis unfolding step record_latest [OF assms(2)] by (auto simp: sessionFrames_def)
    next
      case (Some stored)
      with ih obtain m where m: "m \<in> set (sessionFrames channelId es)" "stored = live_entry m"
        "\<forall>x\<in>set (sessionFrames channelId es). obsKey dp x \<le> obsKey dp m" by auto
      have "m \<in> set es" using m(1) sub by blast
      with m Some after [of m] show ?thesis
        unfolding step record_latest [OF assms(2)]
        by (auto simp: sessionFrames_def not_less intro: order.trans less_imp_le)
    qed
  qed
  then obtain e where "jget (ob_latestLiveSession (?st es)) ?k = Some (live_entry e)"
    "e \<in> set (sessionFrames channelId es)" "\<forall>x\<in>set (sessionFrames channelId es). obsKey dp x \<le> obsKey dp e"
    using assms(3) by (auto split: option.splits)
  then show ?thesis
    using assms(4) by (intro bexI [of _ e])
      (auto simp: getLatestLiveSessionId_def truthy_def live_entry_def sessionFrames_def split: option.splits)
qed

theorem latest_live_session_witness:
  "getLatestLiveSessionId (fold (\<lambda>e s. snd (ingestObserverEvent length_clock (\<lambda>n _. Some (Suc n)) (0 :: nat) ''pk'' e 0 s))
     [sample_event 2 ''xy'' ''acp_read'', sample_event 1 ''x'' ''acp_read''] emptyObserverStore)
     (Some ''pk'') (Some ''chan'') = Some ''s''"
proof -
  let ?es = "[sample_event 2 ''xy'' ''acp_read'', sample_event 1 ''x'' ''acp_read'']"
  have "list_all (parseable length_clock) ?es" "sessionFrames ''chan'' ?es \<noteq> []"
    by (simp_all add: parseable_def length_clock_def sample_event_def sessionFrames_def truthy_def)
  then obtain e where "e \<in> set (sessionFrames ''chan'' ?es)"
    "getLatestLiveSessionId (fold (\<lambda>e s. snd (ingestObserverEvent length_clock (\<lambda>n _. Some (Suc n)) (0 :: nat) ''pk'' e 0 s))
       ?es emptyObserverStore) (Some ''pk'') (Some ''chan'') = oe_sessionId e"
    using latest_live_session [of length_clock ?es "''chan''" "''pk''" "\<lambda>n _. Some (Suc n)" 0] by auto
  then show ?thesis by (auto simp: sessionFrames_def sample_event_def truthy_def)
qed

subsection \<open>Paging archived history\<close>

lemma archived_events: "ob_eventsByAgent (snd (appendArchivedChannelEvent dp pk c e s)) = ob_eventsByAgent s"
  by (simp add: appendArchivedChannelEvent_def)

lemma archived_frames_events:
  assumes "list_all (\<lambda>f. truthy (oe_channelId f)) frames"
  shows "ob_eventsByAgent (snd (ingestArchivedObserverFrames dp process init pk frames s)) = ob_eventsByAgent s"
    and "\<not> fst (ingestArchivedObserverFrames dp process init pk frames s)"
proof -
  let ?loop = "\<lambda>st. throwingLoop (ingestArchivedFrame dp process init pk) frames st"
  have "\<not> fst (?loop st) \<and> ob_eventsByAgent (snd (snd (?loop st))) = ob_eventsByAgent (snd st)" for st
    using assms
    by (induction frames arbitrary: st)
      (simp_all add: ingestArchivedFrame_def archived_events case_prod_unfold)
  from this [of "(False, s)"]
  show "ob_eventsByAgent (snd (ingestArchivedObserverFrames dp process init pk frames s)) = ob_eventsByAgent s"
    and "\<not> fst (ingestArchivedObserverFrames dp process init pk frames s)"
    by (simp_all add: ingestArchivedObserverFrames_def notifyStoreListeners_def case_prod_unfold)
qed

lemma channelFrames_truthy: "c \<noteq> [] \<Longrightarrow> list_all (\<lambda>f. truthy (oe_channelId f)) (channelFrames (Some c) frames)"
  by (auto simp: channelFrames_def truthy_def list_all_iff)

lemma ingestPage_channel:
  assumes "c \<noteq> []"
  shows "ob_eventsByAgent (snd (ingestPage dp process init pk child (channelFrames (Some c) frames) cursor s)) = ob_eventsByAgent s"
    and "\<not> fst (ingestPage dp process init pk child (channelFrames (Some c) frames) cursor s)"
  using archived_frames_events [OF channelFrames_truthy [OF assms], of dp process init pk frames s]
  by (simp_all add: ingestPage_def case_prod_unfold)

lemma hops_events:
  assumes "c \<noteq> []"
  shows "ob_eventsByAgent (snd (archiveHops dp process init load pk (Some c) child hops cursor s)) = ob_eventsByAgent s"
proof (induction hops arbitrary: cursor s)
  case (Suc hops)
  then show ?case
    using ingestPage_channel(1) [OF assms, of dp process init pk child "cp_frames (load cursor)" "cp_nextBeforeId (load cursor)" s]
    by (auto simp: case_prod_unfold Let_def)
qed simp

text \<open>
  Loading older history of a channel never touches the live buffers, so it can evict no live
  frame.
\<close>

theorem fetchOlder_keeps_live:
  assumes "c \<noteq> []"
  shows "agentBuffer (snd (fetchOlderAgentArchived dp process init load child pk (Some c) s)) key =
    agentBuffer s key"
  by (simp add: fetchOlderAgentArchived_def agentBuffer_def case_prod_unfold hops_events [OF assms])

text \<open>The cursor behind a number of pages.\<close>

fun cursorAfter :: "(int option \<Rightarrow> cold_page) \<Rightarrow> int option \<Rightarrow> nat \<Rightarrow> int option" where
  "cursorAfter load cursor 0 = cursor"
| "cursorAfter load cursor (Suc n) = cp_nextBeforeId (load (cursorAfter load cursor n))"

lemma cursorAfter_Suc: "cursorAfter load (cp_nextBeforeId (load cursor)) n = cursorAfter load cursor (Suc n)"
  by (induction n) simp_all

lemma cursorAfter_add: "cursorAfter load (cursorAfter load cursor m) n = cursorAfter load cursor (m + n)"
  by (induction n) simp_all

definition emptyPage :: "string \<Rightarrow> cold_page \<Rightarrow> bool" where
  "emptyPage c page \<longleftrightarrow> cp_hasMore page \<and> cp_nextBeforeId page \<noteq> None \<and> channelFrames (Some c) (cp_frames page) = []"

lemma emptyPage_ingest:
  "ingestPage dp process init pk child [] cursor s =
     (False, s\<lparr>ob_archiveChildCursor := jset (ob_archiveChildCursor s) child cursor\<rparr>)"
  by (simp add: ingestPage_def)

text \<open>A run of pages without a frame of the channel only moves the cursor.\<close>

lemma hops_empty:
  assumes "\<And>n. n < hops \<Longrightarrow> emptyPage c (load (cursorAfter load cursor n))" and "0 < hops"
  shows "\<exists>s'. archiveHops dp process init load pk (Some c) child hops cursor s = (Some False, s') \<and>
    ob_archiveChildExhausted s' = ob_archiveChildExhausted s \<and>
    jget (ob_archiveChildCursor s') child = Some (cursorAfter load cursor hops)"
  using assms
proof (induction hops arbitrary: cursor s)
  case (Suc hops)
  have page: "emptyPage c (load cursor)" using Suc.prems(1) [of 0] by simp
  let ?next = "cp_nextBeforeId (load cursor)"
  let ?s = "s\<lparr>ob_archiveChildCursor := jset (ob_archiveChildCursor s) child ?next\<rparr>"
  have step: "archiveHops dp process init load pk (Some c) child (Suc hops) cursor s =
      archiveHops dp process init load pk (Some c) child hops ?next ?s"
    using page by (auto simp: emptyPage_def emptyPage_ingest Let_def)
  show ?case
  proof (cases hops)
    case 0
    then show ?thesis unfolding step by simp
  next
    case (Suc m)
    have "emptyPage c (load (cursorAfter load ?next n))" if "n < hops" for n
      using Suc.prems(1) [of "Suc n"] that by (simp only: cursorAfter_Suc Suc_less_eq)
    then show ?thesis unfolding step using Suc.IH [of ?next ?s] Suc by (simp add: cursorAfter_Suc del: archiveHops.simps cursorAfter.simps)
  qed
qed simp

text \<open>The page that has frames of the channel is ingested, if it is among the pages of the call.\<close>

lemma archived_contains:
  assumes "\<forall>f\<in>set frames. oe_channelId f = Some c" and "c \<noteq> []" and "pk \<noteq> []"
  shows "frameId ` set frames \<subseteq> frameId ` set (getArchivedChannelEvents
    (snd (ingestArchivedObserverFrames dp process init pk frames s)) (Some pk) (Some c))"
proof -
  let ?arch = "\<lambda>s. jget_or (ob_archiveEventsByChannel s) (archiveChannelKey pk c) []"
  have add: "insert (frameId f) (frameId ` set (?arch s)) \<subseteq> frameId ` set (?arch (snd (appendArchivedChannelEvent dp pk c f s)))"
    for f s
    by (auto simp: appendArchivedChannelEvent_def sameFrame_iff jget_or_def Let_def)
  have "frameId ` set frames \<union> frameId ` set (?arch (snd st)) \<subseteq>
      frameId ` set (?arch (snd (snd (throwingLoop (ingestArchivedFrame dp process init pk) frames st))))" for st
    using assms(1)
  proof (induction frames arbitrary: st)
    case (Cons f frames)
    have f: "ingestArchivedFrame dp process init pk f st =
        (False, fst st \<or> fst (appendArchivedChannelEvent dp pk c f (snd st)), snd (appendArchivedChannelEvent dp pk c f (snd st)))"
      using Cons.prems assms(2) by (simp add: ingestArchivedFrame_def truthy_def case_prod_unfold)
    then have step: "throwingLoop (ingestArchivedFrame dp process init pk) (f # frames) st =
        throwingLoop (ingestArchivedFrame dp process init pk) frames (snd (ingestArchivedFrame dp process init pk f st))" by simp
    have "frameId ` set frames \<union> frameId ` set (?arch (snd (snd (ingestArchivedFrame dp process init pk f st)))) \<subseteq>
        frameId ` set (?arch (snd (snd (throwingLoop (ingestArchivedFrame dp process init pk) (f # frames) st))))"
      unfolding step by (rule Cons.IH) (use Cons.prems in simp)
    moreover have "insert (frameId f) (frameId ` set (?arch (snd st))) \<subseteq>
        frameId ` set (?arch (snd (snd (ingestArchivedFrame dp process init pk f st))))"
      unfolding f using add [of f "snd st"] by simp
    ultimately show ?case by (simp only: list.set image_insert Un_subset_iff insert_subset) blast
  qed simp
  from this [of "(False, s)"] show ?thesis
    using assms(2,3)
    by (auto simp: ingestArchivedObserverFrames_def getArchivedChannelEvents_def truthy_def notifyStoreListeners_def case_prod_unfold)
qed

definition foundPage :: "string \<Rightarrow> string \<Rightarrow> string \<Rightarrow> cold_page \<Rightarrow> 'tr observer_store \<Rightarrow> 'tr observer_store \<Rightarrow> bool" where
  "foundPage pk c child page s s' \<longleftrightarrow>
     frameId ` set (channelFrames (Some c) (cp_frames page)) \<subseteq>
       frameId ` set (getArchivedChannelEvents s' (Some pk) (Some c)) \<and>
     (child \<in> set (ob_archiveChildExhausted s') \<longleftrightarrow>
        child \<in> set (ob_archiveChildExhausted s) \<or> \<not> cp_hasMore page \<or> cp_nextBeforeId page = None)"

lemma archived_exhausted:
  assumes "list_all (\<lambda>f. truthy (oe_channelId f)) frames"
  shows "ob_archiveChildExhausted (snd (ingestArchivedObserverFrames dp process init pk frames s)) = ob_archiveChildExhausted s"
proof -
  let ?loop = "\<lambda>st. throwingLoop (ingestArchivedFrame dp process init pk) frames st"
  have step: "ob_archiveChildExhausted (snd (appendArchivedChannelEvent dp pk c e s)) = ob_archiveChildExhausted s" for c e s
    by (simp add: appendArchivedChannelEvent_def)
  have "ob_archiveChildExhausted (snd (snd (?loop st))) = ob_archiveChildExhausted (snd st)" for st
    using assms by (induction frames arbitrary: st) (simp_all add: ingestArchivedFrame_def case_prod_unfold step)
  from this [of "(False, s)"] show ?thesis
    by (simp add: ingestArchivedObserverFrames_def notifyStoreListeners_def case_prod_unfold)
qed

lemma ingestPage_found:
  assumes "c \<noteq> []" and "pk \<noteq> []" and "channelFrames (Some c) (cp_frames page) \<noteq> []" and "load cursor = page"
  shows "\<exists>s'. archiveHops dp process init load pk (Some c) child (Suc hops) cursor s = (Some True, s') \<and> foundPage pk c child page s s'"
proof -
  let ?frames = "channelFrames (Some c) (cp_frames page)"
  define s1 where "s1 = snd (ingestArchivedObserverFrames dp process init pk ?frames s)"
  define s2 where "s2 = s1\<lparr>ob_archiveChildCursor := jset (ob_archiveChildCursor s1) child (cp_nextBeforeId page)\<rparr>"
  define s3 where "s3 = (if \<not> cp_hasMore page \<or> cp_nextBeforeId page = None
       then s2\<lparr>ob_archiveChildExhausted := sadd (ob_archiveChildExhausted s2) child\<rparr> else s2)"
  have "\<forall>f\<in>set ?frames. oe_channelId f = Some c" by (simp add: channelFrames_def)
  then have sub: "frameId ` set ?frames \<subseteq> frameId ` set (getArchivedChannelEvents s1 (Some pk) (Some c))"
    unfolding s1_def by (rule archived_contains [OF _ assms(1,2)])
  note frames = channelFrames_truthy [OF assms(1), of "cp_frames page"]
  have "ingestArchivedObserverFrames dp process init pk ?frames s = (False, s1)"
    using archived_frames_events(2) [OF frames] by (simp add: s1_def prod_eq_iff)
  then have "ingestPage dp process init pk child ?frames (cp_nextBeforeId page) s = (False, s2)"
    using assms(3) by (simp add: ingestPage_def s2_def)
  then have "archiveHops dp process init load pk (Some c) child (Suc hops) cursor s = (Some True, s3)"
    using assms(3,4) by (simp add: Let_def s3_def)
  moreover have "getArchivedChannelEvents s3 (Some pk) (Some c) = getArchivedChannelEvents s1 (Some pk) (Some c)"
    by (simp add: getArchivedChannelEvents_def s3_def s2_def)
  moreover have "ob_archiveChildExhausted s2 = ob_archiveChildExhausted s"
    using archived_exhausted [OF frames, of dp process init pk s] by (simp add: s2_def s1_def)
  ultimately show ?thesis using sub by (auto simp: foundPage_def s3_def)
qed

lemma hops_found:
  assumes "c \<noteq> []" and "pk \<noteq> []" and "page = load (cursorAfter load cursor m)"
    and "channelFrames (Some c) (cp_frames page) \<noteq> []"
    and "\<And>n. n < m \<Longrightarrow> emptyPage c (load (cursorAfter load cursor n))" and "m < hops"
  shows "\<exists>s'. archiveHops dp process init load pk (Some c) child hops cursor s = (Some True, s') \<and> foundPage pk c child page s s'"
  using assms(3,5,6)
proof (induction m arbitrary: hops cursor s)
  case 0
  then obtain h where "hops = Suc h" by (cases hops) auto
  then show ?case using ingestPage_found [OF assms(1,2,4), of load cursor] 0 by simp
next
  case (Suc m)
  then obtain h where h: "hops = Suc h" by (cases hops) auto
  let ?next = "cp_nextBeforeId (load cursor)"
  let ?s = "s\<lparr>ob_archiveChildCursor := jset (ob_archiveChildCursor s) child ?next\<rparr>"
  have "emptyPage c (load cursor)" using Suc.prems(2) [of 0] by simp
  then have step: "archiveHops dp process init load pk (Some c) child hops cursor s =
      archiveHops dp process init load pk (Some c) child h ?next ?s"
    by (auto simp: h emptyPage_def emptyPage_ingest Let_def)
  have "emptyPage c (load (cursorAfter load ?next n))" if "n < m" for n
    using Suc.prems(2) [of "Suc n"] that by (simp only: cursorAfter_Suc Suc_less_eq)
  then have "\<exists>s'. archiveHops dp process init load pk (Some c) child h ?next ?s = (Some True, s') \<and> foundPage pk c child page ?s s'"
    using Suc.prems(1,3) h by (intro Suc.IH) (simp_all add: cursorAfter_Suc del: cursorAfter.simps)
  then show ?case unfolding step by (simp add: foundPage_def)
qed

text \<open>The cursor from which the next call pages.\<close>

definition nextCursor :: "string \<Rightarrow> 'tr observer_store \<Rightarrow> int option" where
  "nextCursor child s = Option.bind (jget (ob_archiveChildCursor s) child) (\<lambda>c. c)"

lemma fetch_hops:
  assumes "child \<noteq> []" and "child \<notin> set (ob_archiveChildExhausted s)"
    and "archiveHops dp process init load pk channelId child 20 (nextCursor child s) s = (answer, s')"
  shows "fetchOlderAgentArchived dp process init load (Some child) pk channelId s =
    (map_option (\<lambda>i. i \<and> child \<notin> set (ob_archiveChildExhausted s')) answer, s')"
  using assms unfolding fetchOlderAgentArchived_def ARCHIVE_PAGE_HOPS_def nextCursor_def truthy_def Let_def
  by (simp del: archiveHops.simps)

text \<open>
  C40. Older history of a channel is reached, twenty pages of the agent's history at a time. If the first
  page with a frame of the channel is the page \<open>k\<close> after the stored cursor, and the history goes on at every
  page before it, then the first \<open>k div 20\<close> calls answer that nothing more remains although it does, and
  the call after them holds all frames of that page in the channel's archive and answers whether the
  history goes on behind it.
\<close>

theorem fetchOlder_reaches_history:
  assumes "child \<noteq> []" and "c \<noteq> []" and "pk \<noteq> []" and "child \<notin> set (ob_archiveChildExhausted s)"
    and "\<And>n. n < k \<Longrightarrow> emptyPage c (load (cursorAfter load (nextCursor child s) n))"
    and "page = load (cursorAfter load (nextCursor child s) k)" and "channelFrames (Some c) (cp_frames page) \<noteq> []"
    and "call = fetchOlderAgentArchived dp process init load (Some child) pk (Some c)"
  shows "(\<forall>j<k div 20. fst (call (((\<lambda>s. snd (call s)) ^^ j) s)) = Some False) \<and>
    fst (call (((\<lambda>s. snd (call s)) ^^ (k div 20)) s)) = Some (cp_hasMore page \<and> cp_nextBeforeId page \<noteq> None) \<and>
    frameId ` set (channelFrames (Some c) (cp_frames page)) \<subseteq> frameId ` set (getArchivedChannelEvents
      (snd (call (((\<lambda>s. snd (call s)) ^^ (k div 20)) s))) (Some pk) (Some c))"
proof -
  let ?at = "\<lambda>j. ((\<lambda>s. snd (call s)) ^^ j) s" and ?cur = "cursorAfter load (nextCursor child s)"
  have empty: "\<exists>s'. call t = (Some False, s') \<and> child \<notin> set (ob_archiveChildExhausted s') \<and> nextCursor child s' = ?cur (20 * Suc j)"
    if "j < k div 20" "child \<notin> set (ob_archiveChildExhausted t)" "nextCursor child t = ?cur (20 * j)" for j t
  proof -
    have "20 * j + n < k" if "n < 20" for n
    proof -
      have "20 * Suc j \<le> 20 * (k div 20)" using \<open>j < k div 20\<close> by (intro mult_left_mono) simp_all
      also have "\<dots> \<le> k" by simp
      finally show ?thesis using that by simp
    qed
    then have "emptyPage c (load (cursorAfter load (nextCursor child t) n))" if "n < 20" for n
      using assms(5) that(1) by (simp add: that cursorAfter_add \<open>nextCursor child t = ?cur (20 * j)\<close>)
    from hops_empty [of 20 c load "nextCursor child t" dp process init pk child t, OF this] obtain s' where
      "archiveHops dp process init load pk (Some c) child 20 (nextCursor child t) t = (Some False, s')"
      "ob_archiveChildExhausted s' = ob_archiveChildExhausted t"
      "jget (ob_archiveChildCursor s') child = Some (cursorAfter load (nextCursor child t) 20)" by auto
    then show ?thesis
      using fetch_hops [OF assms(1) that(2)] that(2,3) assms(8)
      by (auto simp: nextCursor_def [of child s'] cursorAfter_add add.commute simp del: cursorAfter.simps)
  qed
  have state: "child \<notin> set (ob_archiveChildExhausted (?at j)) \<and> nextCursor child (?at j) = ?cur (20 * j)" if "j \<le> k div 20" for j
    using that
  proof (induction j)
    case (Suc j)
    then show ?case using empty [of j "?at j"] by auto
  qed (simp add: assms(4))
  let ?t = "?at (k div 20)"
  have "load (cursorAfter load (nextCursor child ?t) (k mod 20)) = page"
    using state [of "k div 20"] assms(6) by (simp add: cursorAfter_add)
  moreover have "emptyPage c (load (cursorAfter load (nextCursor child ?t) n))" if "n < k mod 20" for n
    using state [of "k div 20"] assms(5) [of "20 * (k div 20) + n"] that
    by (simp add: cursorAfter_add) (metis add_less_cancel_left mult_div_mod_eq)
  ultimately obtain s' where "archiveHops dp process init load pk (Some c) child 20 (nextCursor child ?t) ?t = (Some True, s')"
    "foundPage pk c child page ?t s'"
    using hops_found [OF assms(2,3) _ assms(7), of load "nextCursor child ?t" "k mod 20" 20 dp process init child ?t] by auto
  then have "call ?t = (Some (cp_hasMore page \<and> cp_nextBeforeId page \<noteq> None), s')"
    using fetch_hops [OF assms(1), of ?t] state [of "k div 20"] assms(8) by (auto simp: foundPage_def)
  moreover have "fst (call (?at j)) = Some False" if "j < k div 20" for j
    using empty [OF that, of "?at j"] state [of j] that by auto
  ultimately show ?thesis using \<open>foundPage pk c child page ?t s'\<close> by (simp add: foundPage_def)
qed

text \<open>A history of thirty pages: only the page 25 has a frame of the channel.\<close>

definition sample_history :: "int option \<Rightarrow> cold_page" where
  "sample_history cursor =
     (let n = (case cursor of None \<Rightarrow> 0 | Some i \<Rightarrow> i) in
      \<lparr>cp_frames = (if n = 25 then [sample_event 1 ''x'' ''acp_read''] else []),
       cp_nextBeforeId = Some (n + 1), cp_hasMore = (n < 29)\<rparr>)"

lemma sample_history_cursor: "cursorAfter sample_history None n = (if n = 0 then None else Some (int n))"
  by (induction n) (auto simp: sample_history_def)

theorem fetchOlder_reaches_history_witness:
  "let call = fetchOlderAgentArchived length_clock (\<lambda>n _. Some (Suc n)) 0 sample_history (Some ''child'') ''pk'' (Some ''chan'');
       first = call emptyObserverStore; second = call (snd first)
   in fst first = Some False \<and> fst second = Some True \<and>
      frameId (sample_event 1 ''x'' ''acp_read'') \<in> frameId ` set (getArchivedChannelEvents (snd second) (Some ''pk'') (Some ''chan''))"
proof -
  let ?store = "emptyObserverStore :: nat observer_store"
  let ?call = "fetchOlderAgentArchived length_clock (\<lambda>n _. Some (Suc n)) 0 sample_history (Some ''child'') ''pk'' (Some ''chan'')"
  have begins: "nextCursor ''child'' ?store = None" "''child'' \<notin> set (ob_archiveChildExhausted ?store)"
    by (simp_all add: nextCursor_def emptyObserverStore_def)
  have empty: "emptyPage ''chan'' (sample_history (cursorAfter sample_history (nextCursor ''child'' ?store) n))"
    if "n < 25" for n
    using that by (auto simp: begins sample_history_cursor emptyPage_def sample_history_def channelFrames_def)
  let ?page = "sample_history (cursorAfter sample_history (nextCursor ''child'' ?store) 25)"
  have page: "channelFrames (Some ''chan'') (cp_frames ?page) = [sample_event 1 ''x'' ''acp_read'']" "cp_hasMore ?page"
    "cp_nextBeforeId ?page \<noteq> None"
    by (simp_all add: begins sample_history_cursor sample_history_def channelFrames_def sample_event_def del: cursorAfter.simps)
  from fetchOlder_reaches_history [of "''child''" "''chan''" "''pk''" ?store 25 sample_history ?page ?call,
      OF _ _ _ begins(2) empty refl _ refl]
  have "fst (?call ?store) = Some False" "fst (?call (snd (?call ?store))) = Some True"
    "frameId ` set [sample_event 1 ''x'' ''acp_read''] \<subseteq>
      frameId ` set (getArchivedChannelEvents (snd (?call (snd (?call ?store)))) (Some ''pk'') (Some ''chan''))"
    unfolding page(1) using page(2,3) by (simp_all del: cursorAfter.simps)
  then show ?thesis by (simp add: Let_def)
qed

subsection \<open>Management requests are normal forms\<close>

definition optField :: "string \<Rightarrow> string option \<Rightarrow> (string \<times> jsval) list" where
  "optField key val = (case val of None \<Rightarrow> [] | Some v \<Rightarrow> [(key, JStr v)])"

fun requestJson :: "management_request \<Rightarrow> jsval" where
  "requestJson (CreateRequest rid r) =
     JObj [(''type'', JStr ''agent_management_request''), (''action'', JStr ''create''), (''requestId'', JStr rid),
       (''request'', JObj [(''channelId'', JStr (cr_channelId r)), (''displayName'', JStr (cr_displayName r)),
          (''systemPrompt'', JStr (cr_systemPrompt r))])]"
| "requestJson (UpdateRequest rid r) =
     JObj [(''type'', JStr ''agent_management_request''), (''action'', JStr ''update''), (''requestId'', JStr rid),
       (''request'', JObj ([(''channelId'', JStr (up_channelId r)), (''agentName'', JStr (up_agentName r))] @
          optField ''displayName'' (up_displayName r) @ optField ''systemPrompt'' (up_systemPrompt r) @
          optField ''runtime'' (up_runtime r) @ optField ''provider'' (up_provider r) @
          optField ''model'' (up_model r) @ optField ''respondTo'' (up_respondTo r)))]"

fun valid_request :: "management_request \<Rightarrow> bool" where
  "valid_request (CreateRequest rid r) =
     list_all (\<lambda>t. js_trim t \<noteq> []) [rid, cr_channelId r, cr_displayName r, cr_systemPrompt r]"
| "valid_request (UpdateRequest rid r) =
     (list_all (\<lambda>t. js_trim t \<noteq> []) [rid, up_channelId r, up_agentName r] \<and>
      list_all (\<lambda>v. case v of None \<Rightarrow> True | Some t \<Rightarrow> js_trim t \<noteq> [])
        [up_displayName r, up_systemPrompt r, up_runtime r, up_provider r, up_model r] \<and>
      up_respondTo r \<in> {None, Some ''owner-only'', Some ''anyone''} \<and>
      list_ex (\<lambda>v. v \<noteq> None) [up_displayName r, up_systemPrompt r, up_runtime r, up_provider r,
        up_model r, up_respondTo r])"

lemma map_of_optField [simp]: "map_of (optField key val) k = (if k = key then map_option JStr val else None)"
  by (simp add: optField_def split: option.splits)

lemma list_all_optField: "list_all P (optField key val) \<longleftrightarrow> (\<forall>v. val = Some v \<longrightarrow> P (key, JStr v))"
  by (simp add: optField_def split: option.splits)

lemma optText_JStr: "optText (map_option JStr val) = (case val of None \<Rightarrow> None
    | Some t \<Rightarrow> if js_trim t \<noteq> [] then Some t else None)"
  by (simp add: optText_def isText_def text_of_def split: option.splits)

lemma parse_requestJson: "valid_request r \<Longrightarrow> parseAgentManagementRequest (requestJson r) = Some r"
proof (cases r)
  case (CreateRequest rid c)
  assume "valid_request r"
  with CreateRequest show ?thesis
    by (simp add: parseAgentManagementRequest_def jfield_def isText_def text_of_def hasOnlyKeys_def
        CREATE_KEYS_def parseCreateRequest_def)
next
  case (UpdateRequest rid u)
  assume valid: "valid_request r"
  let ?req = "[(''channelId'', JStr (up_channelId u)), (''agentName'', JStr (up_agentName u))] @
    optField ''displayName'' (up_displayName u) @ optField ''systemPrompt'' (up_systemPrompt u) @
    optField ''runtime'' (up_runtime u) @ optField ''provider'' (up_provider u) @
    optField ''model'' (up_model u) @ optField ''respondTo'' (up_respondTo u)"
  have field: "jfield ?req ''channelId'' = Some (JStr (up_channelId u))"
    "jfield ?req ''agentName'' = Some (JStr (up_agentName u))"
    "jfield ?req ''displayName'' = map_option JStr (up_displayName u)"
    "jfield ?req ''systemPrompt'' = map_option JStr (up_systemPrompt u)"
    "jfield ?req ''runtime'' = map_option JStr (up_runtime u)"
    "jfield ?req ''provider'' = map_option JStr (up_provider u)"
    "jfield ?req ''model'' = map_option JStr (up_model u)"
    "jfield ?req ''respondTo'' = map_option JStr (up_respondTo u)"
    by (simp_all add: jfield_def map_add_def split: option.splits)
  have only: "hasOnlyKeys ?req UPDATE_KEYS"
    by (simp add: hasOnlyKeys_def UPDATE_KEYS_def list_all_optField list.pred_map comp_def)
  have opt: "optText (map_option JStr v) = v" if "case v of None \<Rightarrow> True | Some t \<Rightarrow> js_trim t \<noteq> []" for v
    using that by (cases v) (simp_all add: optText_def isText_def text_of_def)
  have vals: "optText (map_option JStr (up_displayName u)) = up_displayName u"
    "optText (map_option JStr (up_systemPrompt u)) = up_systemPrompt u"
    "optText (map_option JStr (up_runtime u)) = up_runtime u"
    "optText (map_option JStr (up_provider u)) = up_provider u"
    "optText (map_option JStr (up_model u)) = up_model u"
    using valid UpdateRequest by (auto intro: opt)
  have resp: "isRespondTo (map_option JStr (up_respondTo u))"
    "map_option (\<lambda>v. text_of (Some v)) (map_option JStr (up_respondTo u)) = up_respondTo u"
    using valid UpdateRequest by (auto simp: isRespondTo_def text_of_def)
  let ?p = "[(''type'', JStr ''agent_management_request''), (''action'', JStr ''update''), (''requestId'', JStr rid),
    (''request'', JObj ?req)]"
  have outer: "jfield ?p ''type'' = Some (JStr ''agent_management_request'')"
    "jfield ?p ''action'' = Some (JStr ''update'')" "jfield ?p ''requestId'' = Some (JStr rid)"
    "jfield ?p ''request'' = Some (JObj ?req)"
    by (simp_all add: jfield_def)
  have "updateChanges ?req = u"
    unfolding updateChanges_def field vals resp by (simp add: text_of_def)
  moreover have "\<not> noChanges u" using valid UpdateRequest by (auto simp: noChanges_def)
  ultimately have "parseUpdateRequest ?req = Some u"
    unfolding parseUpdateRequest_def field using only resp(1) valid UpdateRequest by (simp add: isText_def)
  then have "parseAgentManagementRequest (JObj ?p) = Some (UpdateRequest rid u)"
    unfolding parseAgentManagementRequest_def jsval.case outer option.case Let_def
    using valid UpdateRequest by (simp add: isText_def text_of_def)
  then show ?thesis by (simp add: UpdateRequest)
qed

lemma isText_trim: "isText v \<Longrightarrow> js_trim (text_of v) \<noteq> []"
  by (auto simp: isText_def text_of_def split: option.splits jsval.splits)

lemma optText_trim: "case optText v of None \<Rightarrow> True | Some t \<Rightarrow> js_trim t \<noteq> []"
  using isText_trim [of v] by (simp add: optText_def)

lemma parseUpdate_valid:
  assumes "parseUpdateRequest request = Some u" and "js_trim rid \<noteq> []"
  shows "valid_request (UpdateRequest rid u)"
proof -
  have u: "u = updateChanges request" "isRespondTo (jfield request ''respondTo'')" "\<not> noChanges u"
    "isText (jfield request ''channelId'')" "isText (jfield request ''agentName'')"
    using assms(1) by (auto simp: parseUpdateRequest_def split: if_splits)
  have "up_respondTo u \<in> {None, Some ''owner-only'', Some ''anyone''}"
    using u(2) by (auto simp: u(1) updateChanges_def isRespondTo_def text_of_def)
  moreover have "list_all (\<lambda>v. case v of None \<Rightarrow> True | Some t \<Rightarrow> js_trim t \<noteq> [])
      [up_displayName u, up_systemPrompt u, up_runtime u, up_provider u, up_model u]"
    by (simp add: u(1) updateChanges_def optText_trim)
  moreover have "js_trim (up_channelId u) \<noteq> []" "js_trim (up_agentName u) \<noteq> []"
    using u(4,5) by (simp_all add: u(1) updateChanges_def isText_trim)
  ultimately show ?thesis using u(3) assms(2) by (simp add: noChanges_def)
qed

lemma parse_valid:
  assumes "parseAgentManagementRequest val = Some r"
  shows "valid_request r"
proof -
  obtain payload request where v: "val = JObj payload" "isText (jfield payload ''requestId'')"
    and r: "(\<exists>c. parseCreateRequest request = Some c \<and> r = CreateRequest (text_of (jfield payload ''requestId'')) c) \<or>
      (\<exists>u. parseUpdateRequest request = Some u \<and> r = UpdateRequest (text_of (jfield payload ''requestId'')) u)"
    using assms
    by (auto simp: parseAgentManagementRequest_def split: jsval.splits option.splits if_splits)
  note rid = isText_trim [OF v(2)]
  from r show ?thesis
  proof
    assume "\<exists>c. parseCreateRequest request = Some c \<and> r = CreateRequest (text_of (jfield payload ''requestId'')) c"
    then show ?thesis using rid by (auto simp: parseCreateRequest_def isText_trim split: if_splits)
  qed (use rid parseUpdate_valid in blast)
qed

text \<open>
  C38. The narrow contract of management requests: a parsed request has only non-blank texts, an
  update changes something, and the parsed request is a normal form: written out as JSON it
  parses to itself.
\<close>

theorem parseAgentManagementRequest_normal:
  assumes "parseAgentManagementRequest val = Some r"
  shows "valid_request r \<and> parseAgentManagementRequest (requestJson r) = Some r"
  using parse_valid [OF assms] parse_requestJson by blast

theorem parseAgentManagementRequest_normal_witness:
  "valid_request (CreateRequest ''r1'' \<lparr>cr_channelId = ''c'', cr_displayName = ''d'', cr_systemPrompt = ''p''\<rparr>)"
proof -
  let ?v = "JObj [(''type'', JStr ''agent_management_request''), (''action'', JStr ''create''), (''requestId'', JStr ''r1''),
       (''request'', JObj [(''channelId'', JStr ''c''), (''displayName'', JStr ''d''), (''systemPrompt'', JStr ''p'')])]"
  have "parseAgentManagementRequest ?v =
      Some (CreateRequest ''r1'' \<lparr>cr_channelId = ''c'', cr_displayName = ''d'', cr_systemPrompt = ''p''\<rparr>)"
    by code_simp
  from parseAgentManagementRequest_normal [OF this] show ?thesis by blast
qed

end
