(* ===== verification/ActiveTurns.thy ===== *)
theory ActiveTurns
  imports Observer
begin

text \<open>
  The store of active agent turns (\<open>features/agents/activeAgentTurnsStore.ts\<close>): which agents work
  in which channels, derived from the observer events of each agent. The module state is the record
  \<open>turns_store\<close>, with the two caches of summaries the source keeps for reference stability, the
  prune timer, and the snapshots saved per community. \<open>Date.now()\<close> is the argument \<open>now\<close> of an
  operation, \<open>Date.parse\<close> is \<open>dp\<close>, \<open>String.localeCompare\<close> is \<open>lcmp\<close>; calls of listeners are
  appended to \<open>tu_notified\<close>.
\<close>

subsection \<open>Data\<close>

definition LIVENESS_INTERVAL_MS :: int where "LIVENESS_INTERVAL_MS = 10000"
definition REMOVE_AFTER_MS :: int where "REMOVE_AFTER_MS = 25000"
definition FRAME_GAP_PAUSE_MS :: int where "FRAME_GAP_PAUSE_MS = LIVENESS_INTERVAL_MS * 2"
definition PRUNE_PAUSE_MAX_MS :: int where "PRUNE_PAUSE_MAX_MS = 3 * 60000"
definition MAX_TURNS_PER_AGENT :: nat where "MAX_TURNS_PER_AGENT = 4"
definition MAX_TERMINAL_TOMBSTONES :: nat where "MAX_TERMINAL_TOMBSTONES = MAX_TURNS_PER_AGENT * 4"

record active_turn =
  at_turnId :: string
  at_channelId :: string
  at_startedAt :: int
  at_lastActivityAt :: int

record turn_summary =
  su_channelId :: string
  su_anchorAt :: int

record channel_turn_summary =
  cs_channelId :: string
  cs_anchorAt :: int
  cs_agentCount :: nat
  cs_agentPubkeys :: "string list"

type_synonym turn_map = "(string, active_turn) jsmap"

record turns_snapshot =
  sn_turns :: "(string, turn_map) jsmap"
  sn_offsets :: "(string, int) jsmap"
  sn_watermarks :: "(string, observer_event) jsmap"
  sn_terminals :: "(string, (string, int) jsmap) jsmap"

record turns_store =
  tu_activeTurnsByAgent :: "(string, turn_map) jsmap"
  tu_listeners :: "nat list"
  tu_clockOffsetByAgent :: "(string, int) jsmap"
  tu_cachedTurnSummaries :: "(string, turn_summary list) jsmap"
  tu_cachedChannelTurnSummaries :: "channel_turn_summary list option"
  tu_lastProcessed :: "(string, observer_event) jsmap"
  tu_terminalAtByAgent :: "(string, (string, int) jsmap) jsmap"
  tu_pruneInterval :: bool
  tu_savedByCommunity :: "(string, turns_snapshot) jsmap"
  tu_notified :: "nat list"

definition emptyTurnsStore :: turns_store where
  "emptyTurnsStore =
     \<lparr>tu_activeTurnsByAgent = [], tu_listeners = [], tu_clockOffsetByAgent = [],
      tu_cachedTurnSummaries = [], tu_cachedChannelTurnSummaries = None, tu_lastProcessed = [],
      tu_terminalAtByAgent = [], tu_pruneInterval = False, tu_savedByCommunity = [], tu_notified = []\<rparr>"

subsection \<open>Turns\<close>

definition invalidateCache :: "string \<Rightarrow> turns_store \<Rightarrow> turns_store" where
  "invalidateCache agentKey s =
     s\<lparr>tu_cachedTurnSummaries := jdel (tu_cachedTurnSummaries s) agentKey,
       tu_cachedChannelTurnSummaries := None\<rparr>"

definition notifyTurnListeners :: "turns_store \<Rightarrow> turns_store" where
  "notifyTurnListeners s = s\<lparr>tu_notified := tu_notified s @ tu_listeners s\<rparr>"

definition sampleClockOffset ::
  "(string \<Rightarrow> int option) \<Rightarrow> int \<Rightarrow> string \<Rightarrow> string \<Rightarrow> turns_store \<Rightarrow> bool \<times> turns_store" where
  "sampleClockOffset dp now agentKey timestamp s =
     (case dp timestamp of
        None \<Rightarrow> (False, s)
      | Some t \<Rightarrow>
          (let sample = now - t in
           if (case jget (tu_clockOffsetByAgent s) agentKey of None \<Rightarrow> False | Some prior \<Rightarrow> sample \<ge> prior)
           then (False, s)
           else (True, invalidateCache agentKey
                  (s\<lparr>tu_clockOffsetByAgent := jset (tu_clockOffsetByAgent s) agentKey sample\<rparr>))))"

text \<open>The first entry with the smallest start; \<open>None\<close> is the source's start at infinity.\<close>

fun oldestTurn :: "(string \<times> int) option \<Rightarrow> turn_map \<Rightarrow> (string \<times> int) option" where
  "oldestTurn best [] = best"
| "oldestTurn best ((tid, turn) # turns) =
     (if (case best of None \<Rightarrow> True | Some (_, oldestTime) \<Rightarrow> at_startedAt turn < oldestTime)
      then oldestTurn (Some (tid, at_startedAt turn)) turns
      else oldestTurn best turns)"

definition evictOldestTurn :: "turn_map \<Rightarrow> string \<Rightarrow> turn_map" where
  "evictOldestTurn agentTurns turnId =
     (if length agentTurns \<ge> MAX_TURNS_PER_AGENT \<and> \<not> jhas agentTurns turnId
      then (case oldestTurn None agentTurns of
              None \<Rightarrow> agentTurns
            | Some (oldestKey, _) \<Rightarrow> if oldestKey = [] then agentTurns else jdel agentTurns oldestKey)
      else agentTurns)"

definition startTurn ::
  "(string \<Rightarrow> int option) \<Rightarrow> int \<Rightarrow> string \<Rightarrow> string \<Rightarrow> string \<Rightarrow> string \<Rightarrow> turns_store \<Rightarrow> turns_store" where
  "startTurn dp now agentPubkey channelId turnId timestamp s =
     (let key = normalizePubkey agentPubkey;
          agentTurns = evictOldestTurn (jget_or (tu_activeTurnsByAgent s) key []) turnId;
          startedAt = (case dp timestamp of Some t \<Rightarrow> t | None \<Rightarrow> now);
          turn = \<lparr>at_turnId = turnId, at_channelId = channelId, at_startedAt = startedAt,
                  at_lastActivityAt = now\<rparr>
      in invalidateCache key
           (s\<lparr>tu_activeTurnsByAgent := jset (tu_activeTurnsByAgent s) key (jset agentTurns turnId turn)\<rparr>))"

definition recordActivity :: "int \<Rightarrow> string \<Rightarrow> string option \<Rightarrow> turns_store \<Rightarrow> bool \<times> turns_store" where
  "recordActivity now agentPubkey turnId s =
     (if \<not> truthy turnId then (False, s)
      else
        let key = normalizePubkey agentPubkey in
        case jget (tu_activeTurnsByAgent s) key of
          None \<Rightarrow> (False, s)
        | Some agentTurns \<Rightarrow>
            (case jget agentTurns (the turnId) of
               None \<Rightarrow> (False, s)
             | Some turn \<Rightarrow>
                 (True, s\<lparr>tu_activeTurnsByAgent := jset (tu_activeTurnsByAgent s) key
                          (jset agentTurns (the turnId) (turn\<lparr>at_lastActivityAt := now\<rparr>))\<rparr>)))"

definition resurrectTurn ::
  "(string \<Rightarrow> int option) \<Rightarrow> int \<Rightarrow> string \<Rightarrow> observer_event \<Rightarrow> turns_store \<Rightarrow> bool \<times> turns_store" where
  "resurrectTurn dp now agentPubkey event s =
     (if \<not> truthy (oe_turnId event) \<or> \<not> truthy (oe_channelId event) then (False, s)
      else
        let key = normalizePubkey agentPubkey;
            terminalAt = Option.bind (jget (tu_terminalAtByAgent s) key)
              (\<lambda>terminals. jget terminals (the (oe_turnId event)));
            frameAt = dp (oe_timestamp event)
        in if (case terminalAt of
                 None \<Rightarrow> False
               | Some t \<Rightarrow> (case frameAt of None \<Rightarrow> True | Some f \<Rightarrow> f \<le> t))
           then (False, s)
           else
             let startedAt = (case oe_startedAt event of
                   Some st \<Rightarrow> if dp st \<noteq> None then st else oe_timestamp event
                 | None \<Rightarrow> oe_timestamp event);
                 safeStartedAt = (case (frameAt, dp startedAt) of
                   (Some f, Some st) \<Rightarrow> if st \<le> f then startedAt else oe_timestamp event
                 | _ \<Rightarrow> oe_timestamp event)
             in (True, startTurn dp now agentPubkey (the (oe_channelId event)) (the (oe_turnId event))
                         safeStartedAt s))"

definition recordTerminal :: "string \<Rightarrow> string \<Rightarrow> int option \<Rightarrow> turns_store \<Rightarrow> turns_store" where
  "recordTerminal agentKey turnId terminalAt s =
     (case terminalAt of
        None \<Rightarrow> s
      | Some t \<Rightarrow>
          (let terminals = jset (jget_or (tu_terminalAtByAgent s) agentKey []) turnId t;
               bounded = (if length terminals > MAX_TERMINAL_TOMBSTONES
                          then jdel terminals (fst (hd terminals)) else terminals)
           in s\<lparr>tu_terminalAtByAgent := jset (tu_terminalAtByAgent s) agentKey bounded\<rparr>))"

text \<open>The turns of an agent after a change; an agent without turns is dropped.\<close>

definition storeAgentTurns :: "string \<Rightarrow> turn_map \<Rightarrow> turns_store \<Rightarrow> turns_store" where
  "storeAgentTurns key turns s =
     s\<lparr>tu_activeTurnsByAgent :=
        (if turns = [] then jdel (tu_activeTurnsByAgent s) key
         else jset (tu_activeTurnsByAgent s) key turns)\<rparr>"

definition removeEndedTurn ::
  "string \<Rightarrow> string option \<Rightarrow> string option \<Rightarrow> int option \<Rightarrow> turn_map \<Rightarrow> turns_store
   \<Rightarrow> turn_map \<times> turns_store" where
  "removeEndedTurn key turnId channelId terminalAt agentTurns s =
     (if truthy turnId then (jdel agentTurns (the turnId), s)
      else if truthy channelId then
        (case find (\<lambda>(tid, turn). at_channelId turn = the channelId) agentTurns of
           None \<Rightarrow> (agentTurns, s)
         | Some (tid, turn) \<Rightarrow> (jdel agentTurns tid, recordTerminal key tid terminalAt s))
      else (agentTurns, s))"

definition endTurn ::
  "string \<Rightarrow> string option \<Rightarrow> string option \<Rightarrow> int option \<Rightarrow> turns_store \<Rightarrow> turns_store" where
  "endTurn agentPubkey turnId channelId terminalAt s =
     (let key = normalizePubkey agentPubkey;
          s1 = (if truthy turnId then recordTerminal key (the turnId) terminalAt s else s)
      in case jget (tu_activeTurnsByAgent s1) key of
           None \<Rightarrow> s1
         | Some agentTurns \<Rightarrow>
             (case removeEndedTurn key turnId channelId terminalAt agentTurns s1 of
                (agentTurns', s2) \<Rightarrow> invalidateCache key (storeAgentTurns key agentTurns' s2)))"

subsection \<open>Pruning\<close>

definition shouldPausePrune :: "turn_map \<Rightarrow> int \<Rightarrow> bool" where
  "shouldPausePrune agentTurns now =
     (let maxActivity = fold (\<lambda>turn m. if at_lastActivityAt turn > m then at_lastActivityAt turn else m)
            (jvals agentTurns) 0;
          silentFor = now - maxActivity
      in maxActivity > 0 \<and> silentFor > FRAME_GAP_PAUSE_MS \<and> silentFor < PRUNE_PAUSE_MAX_MS)"

definition expired :: "int \<Rightarrow> active_turn \<Rightarrow> bool" where
  "expired now turn = (now - at_lastActivityAt turn > REMOVE_AFTER_MS)"

definition pruneAgent ::
  "int \<Rightarrow> string \<times> turn_map \<Rightarrow> bool \<times> turns_store \<Rightarrow> bool \<times> turns_store" where
  "pruneAgent now entry st =
     (case (entry, st) of ((agentKey, agentTurns), (changed, s)) \<Rightarrow>
        if shouldPausePrune agentTurns now then (changed, s)
        else
          let kept = filter (\<lambda>(turnId, turn). \<not> expired now turn) agentTurns;
              removed = list_ex (\<lambda>(turnId, turn). expired now turn) agentTurns;
              s1 = storeAgentTurns agentKey kept s
          in (changed \<or> removed, if removed then invalidateCache agentKey s1 else s1))"

definition pruneExpired :: "int \<Rightarrow> turns_store \<Rightarrow> turns_store" where
  "pruneExpired now s =
     (case fold (pruneAgent now) (tu_activeTurnsByAgent s) (False, s) of
        (changed, s') \<Rightarrow> if changed then notifyTurnListeners s' else s')"

subsection \<open>Events\<close>

definition processKind ::
  "(string \<Rightarrow> int option) \<Rightarrow> int \<Rightarrow> string \<Rightarrow> observer_event \<Rightarrow> turns_store \<Rightarrow> bool \<times> turns_store" where
  "processKind dp now agentPubkey event s =
     (if oe_kind event = ''turn_started'' then
        if truthy (oe_channelId event)
        then (True, startTurn dp now agentPubkey (the (oe_channelId event))
                      (case oe_turnId event of Some t \<Rightarrow> t | None \<Rightarrow> ''seq-'' @ show_int (oe_seq event))
                      (oe_timestamp event) s)
        else (False, s)
      else if oe_kind event \<in> {''turn_completed'', ''turn_error'', ''agent_panic''} then
        (True, endTurn agentPubkey (oe_turnId event) (oe_channelId event) (dp (oe_timestamp event)) s)
      else if oe_kind event \<in> {''acp_read'', ''acp_write'', ''turn_liveness''} then
        (case recordActivity now agentPubkey (oe_turnId event) s of
           (refreshed, s1) \<Rightarrow> if refreshed then (False, s1) else resurrectTurn dp now agentPubkey event s1)
      else (False, s))"

text \<open>The flag of \<open>processKind\<close> is the source's \<open>notifyListeners(); return;\<close> inside the switch.\<close>

definition processEvent ::
  "(string \<Rightarrow> int option) \<Rightarrow> int \<Rightarrow> string \<Rightarrow> observer_event \<Rightarrow> turns_store \<Rightarrow> turns_store" where
  "processEvent dp now agentPubkey event s =
     (let key = normalizePubkey agentPubkey in
      if (case jget (tu_lastProcessed s) key of
            None \<Rightarrow> False
          | Some lst \<Rightarrow> compareObserverEvents dp event lst \<le> 0)
      then s
      else
        let s1 = s\<lparr>tu_lastProcessed := jset (tu_lastProcessed s) key event\<rparr>;
            (offsetChanged, s2) = sampleClockOffset dp now key (oe_timestamp event) s1;
            (surfaced, s3) = processKind dp now agentPubkey event s2
        in if surfaced \<or> offsetChanged then notifyTurnListeners s3 else s3)"

definition subscribeActiveAgentTurns :: "nat \<Rightarrow> turns_store \<Rightarrow> turns_store" where
  "subscribeActiveAgentTurns listener s =
     (let s1 = s\<lparr>tu_listeners := sadd (tu_listeners s) listener\<rparr> in
      if length (tu_listeners s1) = 1 then s1\<lparr>tu_pruneInterval := True\<rparr> else s1)"

definition unsubscribeActiveAgentTurns :: "nat \<Rightarrow> turns_store \<Rightarrow> turns_store" where
  "unsubscribeActiveAgentTurns listener s =
     (let s1 = s\<lparr>tu_listeners := removeAll listener (tu_listeners s)\<rparr> in
      if tu_listeners s1 = [] then s1\<lparr>tu_pruneInterval := False\<rparr> else s1)"

definition syncAgentTurnsFromEvents ::
  "(string \<Rightarrow> int option) \<Rightarrow> int \<Rightarrow> string \<Rightarrow> observer_event list \<Rightarrow> turns_store \<Rightarrow> turns_store" where
  "syncAgentTurnsFromEvents dp now agentPubkey events s = fold (processEvent dp now agentPubkey) events s"

fun syncActiveAgentTurnsFromObserver ::
  "(string \<Rightarrow> int option) \<Rightarrow> int \<Rightarrow> (string \<times> string) list \<Rightarrow> 'tr observer_store \<Rightarrow> turns_store
   \<Rightarrow> 'tr observer_store \<times> turns_store" where
  "syncActiveAgentTurnsFromObserver dp now [] ob s = (ob, s)"
| "syncActiveAgentTurnsFromObserver dp now ((pubkey, status) # agents) ob s =
     (if status \<noteq> ''running'' \<and> status \<noteq> ''deployed''
      then syncActiveAgentTurnsFromObserver dp now agents ob s
      else case getAgentObserverSnapshot (Some pubkey) ob of
             (snapshot, ob') \<Rightarrow>
               syncActiveAgentTurnsFromObserver dp now agents ob'
                 (syncAgentTurnsFromEvents dp now pubkey (os_events snapshot) s))"

subsection \<open>Summaries\<close>

definition earliestByChannel :: "turn_map \<Rightarrow> (string, int) jsmap" where
  "earliestByChannel agentTurns =
     fold (\<lambda>turn m.
         if (case jget m (at_channelId turn) of None \<Rightarrow> True | Some prior \<Rightarrow> at_startedAt turn < prior)
         then jset m (at_channelId turn) (at_startedAt turn) else m)
       (jvals agentTurns) []"

definition turnSummaries ::
  "(string \<Rightarrow> string \<Rightarrow> int) \<Rightarrow> turns_store \<Rightarrow> string \<Rightarrow> turn_summary list" where
  "turnSummaries lcmp s key =
     (let offset = jget_or (tu_clockOffsetByAgent s) key 0 in
      js_sort (\<lambda>a b. lcmp (su_channelId a) (su_channelId b))
        (map (\<lambda>(channelId, startedAt). \<lparr>su_channelId = channelId, su_anchorAt = startedAt + offset\<rparr>)
          (earliestByChannel (jget_or (tu_activeTurnsByAgent s) key []))))"

definition getActiveTurnsForAgent ::
  "(string \<Rightarrow> string \<Rightarrow> int) \<Rightarrow> string option \<Rightarrow> turns_store \<Rightarrow> turn_summary list \<times> turns_store" where
  "getActiveTurnsForAgent lcmp agentPubkey s =
     (if \<not> truthy agentPubkey then ([], s)
      else
        let key = normalizePubkey (the agentPubkey) in
        if jget_or (tu_activeTurnsByAgent s) key [] = [] then ([], s)
        else case jget (tu_cachedTurnSummaries s) key of
               Some cached \<Rightarrow> (cached, s)
             | None \<Rightarrow>
                 (let result = turnSummaries lcmp s key in
                  (result, s\<lparr>tu_cachedTurnSummaries := jset (tu_cachedTurnSummaries s) key result\<rparr>)))"

definition addChannelTurn ::
  "string \<Rightarrow> int \<Rightarrow> active_turn \<Rightarrow> (string, int \<times> string list) jsmap \<Rightarrow> (string, int \<times> string list) jsmap" where
  "addChannelTurn agentKey offset turn summaries =
     (let anchorAt = at_startedAt turn + offset in
      case jget summaries (at_channelId turn) of
        None \<Rightarrow> jset summaries (at_channelId turn) (anchorAt, [agentKey])
      | Some (anchor, agents) \<Rightarrow>
          jset summaries (at_channelId turn)
            (if anchorAt < anchor then anchorAt else anchor, sadd agents agentKey))"

definition channelSummaryMap :: "turns_store \<Rightarrow> (string, int \<times> string list) jsmap" where
  "channelSummaryMap s =
     fold (\<lambda>(agentKey, agentTurns) summaries.
         fold (addChannelTurn agentKey (jget_or (tu_clockOffsetByAgent s) agentKey 0))
           (jvals agentTurns) summaries)
       (tu_activeTurnsByAgent s) []"

definition compareStrings :: "string \<Rightarrow> string \<Rightarrow> int" where
  "compareStrings a b = (if a < b then - 1 else if b < a then 1 else 0)"

definition channelTurnSummaries :: "(string \<Rightarrow> string \<Rightarrow> int) \<Rightarrow> turns_store \<Rightarrow> channel_turn_summary list" where
  "channelTurnSummaries lcmp s =
     js_sort (\<lambda>a b. lcmp (cs_channelId a) (cs_channelId b))
       (map (\<lambda>(channelId, anchorAt, agents).
           \<lparr>cs_channelId = channelId, cs_anchorAt = anchorAt, cs_agentCount = length agents,
            cs_agentPubkeys = js_sort compareStrings agents\<rparr>)
         (channelSummaryMap s))"

definition getActiveTurnsByChannel ::
  "(string \<Rightarrow> string \<Rightarrow> int) \<Rightarrow> turns_store \<Rightarrow> channel_turn_summary list \<times> turns_store" where
  "getActiveTurnsByChannel lcmp s =
     (case tu_cachedChannelTurnSummaries s of
        Some cached \<Rightarrow> (cached, s)
      | None \<Rightarrow>
          if tu_activeTurnsByAgent s = [] then ([], s)
          else
            let result = channelTurnSummaries lcmp s in
            (result, s\<lparr>tu_cachedChannelTurnSummaries := Some result\<rparr>))"

subsection \<open>Reset and community switch\<close>

definition resetActiveAgentTurnsStore :: "turns_store \<Rightarrow> turns_store" where
  "resetActiveAgentTurnsStore s =
     notifyTurnListeners (s\<lparr>tu_activeTurnsByAgent := [], tu_lastProcessed := [],
       tu_clockOffsetByAgent := [], tu_cachedTurnSummaries := [],
       tu_cachedChannelTurnSummaries := None, tu_terminalAtByAgent := []\<rparr>)"

definition saveActiveAgentTurnsForCommunity :: "string \<Rightarrow> turns_store \<Rightarrow> turns_store" where
  "saveActiveAgentTurnsForCommunity communityId s =
     (if tu_activeTurnsByAgent s = [] \<and> tu_terminalAtByAgent s = []
      then s\<lparr>tu_savedByCommunity := jdel (tu_savedByCommunity s) communityId\<rparr>
      else s\<lparr>tu_savedByCommunity := jset (tu_savedByCommunity s) communityId
             \<lparr>sn_turns = tu_activeTurnsByAgent s, sn_offsets = tu_clockOffsetByAgent s,
              sn_watermarks = tu_lastProcessed s, sn_terminals = tu_terminalAtByAgent s\<rparr>\<rparr>)"

definition refreshTurns :: "int \<Rightarrow> (string, turn_map) jsmap \<Rightarrow> (string, turn_map) jsmap" where
  "refreshTurns now turns =
     map (\<lambda>(agentKey, agentTurns).
         (agentKey, map (\<lambda>(turnId, turn). (turnId, turn\<lparr>at_lastActivityAt := now\<rparr>)) agentTurns)) turns"

definition restoreActiveAgentTurnsForCommunity :: "int \<Rightarrow> string \<Rightarrow> turns_store \<Rightarrow> turns_store" where
  "restoreActiveAgentTurnsForCommunity now communityId s =
     (case jget (tu_savedByCommunity s) communityId of
        None \<Rightarrow> s
      | Some snap \<Rightarrow>
          notifyTurnListeners
            (s\<lparr>tu_savedByCommunity := jdel (tu_savedByCommunity s) communityId,
               tu_activeTurnsByAgent := refreshTurns now (sn_turns snap),
               tu_clockOffsetByAgent := sn_offsets snap, tu_lastProcessed := sn_watermarks snap,
               tu_terminalAtByAgent := sn_terminals snap, tu_cachedTurnSummaries := [],
               tu_cachedChannelTurnSummaries := None\<rparr>))"

definition clearSavedCommunitySnapshot :: "string \<Rightarrow> turns_store \<Rightarrow> turns_store" where
  "clearSavedCommunitySnapshot communityId s =
     s\<lparr>tu_savedByCommunity := jdel (tu_savedByCommunity s) communityId\<rparr>"

subsection \<open>The watermark\<close>

text \<open>The watermark parses and only grows; every event at or below it is skipped.\<close>

definition watermarks_ok :: "(string \<Rightarrow> int option) \<Rightarrow> turns_store \<Rightarrow> bool" where
  "watermarks_ok dp s \<longleftrightarrow> (\<forall>key e. jget (tu_lastProcessed s) key = Some e \<longrightarrow> parseable dp e)"

definition seen :: "(string \<Rightarrow> int option) \<Rightarrow> string \<Rightarrow> observer_event \<Rightarrow> turns_store \<Rightarrow> bool" where
  "seen dp key e s \<longleftrightarrow> (\<exists>w. jget (tu_lastProcessed s) key = Some w \<and> obsKey dp e \<le> obsKey dp w)"

lemma kind_lastProcessed:
  "tu_lastProcessed (invalidateCache k s) = tu_lastProcessed s"
  "tu_lastProcessed (notifyTurnListeners s) = tu_lastProcessed s"
  "tu_lastProcessed (startTurn dp now pk c t ts s) = tu_lastProcessed s"
  "tu_lastProcessed (recordTerminal k t at s) = tu_lastProcessed s"
  by (simp_all add: invalidateCache_def notifyTurnListeners_def startTurn_def recordTerminal_def
      split: option.splits)

lemma endTurn_lastProcessed: "tu_lastProcessed (endTurn pk t c at s) = tu_lastProcessed s"
  by (auto simp: endTurn_def removeEndedTurn_def storeAgentTurns_def kind_lastProcessed
      split: option.splits prod.splits)

lemma processKind_lastProcessed: "tu_lastProcessed (snd (processKind dp now pk e s)) = tu_lastProcessed s"
  by (auto simp: processKind_def kind_lastProcessed endTurn_lastProcessed recordActivity_def resurrectTurn_def
      split: option.splits prod.splits)

lemma sample_lastProcessed: "tu_lastProcessed (snd (sampleClockOffset dp now k ts s)) = tu_lastProcessed s"
  by (simp add: sampleClockOffset_def kind_lastProcessed split: option.splits)

lemma process_lastProcessed:
  "tu_lastProcessed (processEvent dp now pk e s) =
     (if (case jget (tu_lastProcessed s) (normalizePubkey pk) of
            None \<Rightarrow> False | Some w \<Rightarrow> compareObserverEvents dp e w \<le> 0)
      then tu_lastProcessed s else jset (tu_lastProcessed s) (normalizePubkey pk) e)"
  by (simp add: processEvent_def case_prod_unfold kind_lastProcessed processKind_lastProcessed
      sample_lastProcessed)

lemma process_watermarks: "watermarks_ok dp s \<Longrightarrow> parseable dp e \<Longrightarrow> watermarks_ok dp (processEvent dp now pk e s)"
  by (simp add: watermarks_ok_def process_lastProcessed)

lemma process_seen_new:
  assumes "watermarks_ok dp s" and "parseable dp e"
  shows "seen dp (normalizePubkey pk) e (processEvent dp now pk e s)"
  using assms obs.cmp_key [of dp e]
  by (auto simp: seen_def process_lastProcessed watermarks_ok_def split: option.splits)

lemma process_seen_old:
  assumes "watermarks_ok dp s" and "parseable dp e" and "seen dp key x s"
  shows "seen dp key x (processEvent dp now pk e s)"
proof -
  from assms(3) obtain w where w: "jget (tu_lastProcessed s) key = Some w" "obsKey dp x \<le> obsKey dp w"
    by (auto simp: seen_def)
  then have "compareObserverEvents dp e w \<le> 0 \<longleftrightarrow> obsKey dp e \<le> obsKey dp w"
    using assms(1,2) by (intro obs.cmp_key) (auto simp: watermarks_ok_def)
  with w show ?thesis by (auto simp: seen_def process_lastProcessed)
qed

lemma process_seen_skip:
  assumes "watermarks_ok dp s" and "parseable dp e" and "seen dp (normalizePubkey pk) e s"
  shows "processEvent dp now pk e s = s"
proof -
  from assms(3) obtain w where w: "jget (tu_lastProcessed s) (normalizePubkey pk) = Some w"
    "obsKey dp e \<le> obsKey dp w" by (auto simp: seen_def)
  then have "compareObserverEvents dp e w \<le> 0"
    using assms(1,2) obs.cmp_key [of dp e w] by (auto simp: watermarks_ok_def)
  with w show ?thesis by (simp add: processEvent_def)
qed

lemma sync_watermarks:
  "watermarks_ok dp s \<Longrightarrow> list_all (parseable dp) es \<Longrightarrow> watermarks_ok dp (syncAgentTurnsFromEvents dp now pk es s)"
  unfolding syncAgentTurnsFromEvents_def
  by (induction es arbitrary: s) (simp_all add: process_watermarks)

lemma sync_seen_old:
  "watermarks_ok dp s \<Longrightarrow> list_all (parseable dp) es \<Longrightarrow> seen dp key x s \<Longrightarrow>
   seen dp key x (syncAgentTurnsFromEvents dp now pk es s)"
  unfolding syncAgentTurnsFromEvents_def
  by (induction es arbitrary: s) (simp_all add: process_watermarks process_seen_old)

lemma sync_seen_new:
  assumes "watermarks_ok dp s" and "list_all (parseable dp) es" and "e \<in> set es"
  shows "seen dp (normalizePubkey pk) e (syncAgentTurnsFromEvents dp now pk es s)"
  using assms
proof (induction es arbitrary: s)
  case (Cons x es)
  have sync: "syncAgentTurnsFromEvents dp now pk (x # es) s =
      syncAgentTurnsFromEvents dp now pk es (processEvent dp now pk x s)"
    by (simp add: syncAgentTurnsFromEvents_def)
  have wm: "watermarks_ok dp (processEvent dp now pk x s)" using Cons.prems by (simp add: process_watermarks)
  show ?case
  proof (cases "e = x")
    case True
    have "seen dp (normalizePubkey pk) x (processEvent dp now pk x s)"
      using Cons.prems by (simp add: process_seen_new)
    with True Cons.prems wm show ?thesis unfolding sync by (simp add: sync_seen_old)
  next
    case False
    with Cons wm show ?thesis unfolding sync by simp
  qed
qed simp

lemma sync_skip:
  assumes "watermarks_ok dp s" and "list_all (parseable dp) es"
    and "\<forall>e\<in>set es. seen dp (normalizePubkey pk) e s"
  shows "syncAgentTurnsFromEvents dp now pk es s = s"
  unfolding syncAgentTurnsFromEvents_def
  using assms by (induction es) (simp_all add: process_seen_skip)

text \<open>
  Replaying a buffer is a complete no-op: after the events of an agent have been synchronised,
  synchronising any of them again, at any later time and in any order, leaves the store exactly
  as it is, listeners included.
\<close>

theorem sync_replay_noop:
  assumes "watermarks_ok dp s" and "list_all (parseable dp) es" and "set replay \<subseteq> set es"
  shows "syncAgentTurnsFromEvents dp now' pk replay (syncAgentTurnsFromEvents dp now pk es s) =
    syncAgentTurnsFromEvents dp now pk es s"
proof (rule sync_skip)
  show "list_all (parseable dp) replay" using assms(2,3) by (auto simp: list_all_iff)
  show "\<forall>e\<in>set replay. seen dp (normalizePubkey pk) e (syncAgentTurnsFromEvents dp now pk es s)"
    using sync_seen_new [OF assms(1,2)] assms(3) by blast
qed (rule sync_watermarks [OF assms(1,2)])

theorem sync_replay_noop_witness:
  "let es = [sample_event 1 ''x'' ''turn_started'', sample_event 2 ''xy'' ''turn_liveness''] in
   syncAgentTurnsFromEvents length_clock 9 ''pk'' es (syncAgentTurnsFromEvents length_clock 5 ''pk'' es emptyTurnsStore) =
   syncAgentTurnsFromEvents length_clock 5 ''pk'' es emptyTurnsStore"
proof -
  let ?es = "[sample_event 1 ''x'' ''turn_started'', sample_event 2 ''xy'' ''turn_liveness'']"
  have "watermarks_ok length_clock emptyTurnsStore" by (simp add: watermarks_ok_def emptyTurnsStore_def)
  moreover have "list_all (parseable length_clock) ?es"
    by (simp add: parseable_def length_clock_def sample_event_def)
  ultimately show ?thesis
    using sync_replay_noop [of length_clock emptyTurnsStore ?es ?es 9 "''pk''" 5] by simp
qed

subsection \<open>What the summaries depend on\<close>

definition turnFacts :: "turn_map \<Rightarrow> (string \<times> int) list" where
  "turnFacts turns = map (\<lambda>turn. (at_channelId turn, at_startedAt turn)) (jvals turns)"

lemma earliest_facts:
  "earliestByChannel turns =
     fold (\<lambda>(c, t) m. if (case jget m c of None \<Rightarrow> True | Some prior \<Rightarrow> t < prior) then jset m c t else m)
       (turnFacts turns) []"
  by (simp add: earliestByChannel_def turnFacts_def fold_map comp_def)

lemma summary_facts:
  "channelSummaryMap s =
     fold (\<lambda>(agentKey, facts) summaries.
         fold (\<lambda>(c, t). addChannelTurn agentKey (jget_or (tu_clockOffsetByAgent s) agentKey 0)
             \<lparr>at_turnId = [], at_channelId = c, at_startedAt = t, at_lastActivityAt = 0\<rparr>) facts summaries)
       (map (\<lambda>(k, turns). (k, turnFacts turns)) (tu_activeTurnsByAgent s)) []"
proof -
  have facts: "fold (addChannelTurn k off) (jvals turns) = fold (\<lambda>(c, t). addChannelTurn k off
      \<lparr>at_turnId = [], at_channelId = c, at_startedAt = t, at_lastActivityAt = 0\<rparr>) (turnFacts turns)"
    for k off turns
    unfolding turnFacts_def
  proof
    fix m
    show "fold (addChannelTurn k off) (jvals turns) m = fold (\<lambda>(c, t). addChannelTurn k off
        \<lparr>at_turnId = [], at_channelId = c, at_startedAt = t, at_lastActivityAt = 0\<rparr>)
        (map (\<lambda>turn. (at_channelId turn, at_startedAt turn)) (jvals turns)) m"
      by (induction turns arbitrary: m) (auto simp: addChannelTurn_def split: option.splits)
  qed
  show ?thesis
    unfolding channelSummaryMap_def facts by (simp add: fold_map comp_def case_prod_unfold)
qed

definition same_facts :: "turns_store \<Rightarrow> turns_store \<Rightarrow> bool" where
  "same_facts s s' \<longleftrightarrow>
     map (\<lambda>(k, turns). (k, turnFacts turns)) (tu_activeTurnsByAgent s') =
       map (\<lambda>(k, turns). (k, turnFacts turns)) (tu_activeTurnsByAgent s) \<and>
     tu_clockOffsetByAgent s' = tu_clockOffsetByAgent s"

lemma map_of_facts:
  "map_of (map (\<lambda>(k, turns). (k, turnFacts turns)) m) k = map_option turnFacts (map_of m k)"
  by (induction m) auto

lemma same_facts_turns:
  assumes "same_facts s s'"
  shows "turnFacts (jget_or (tu_activeTurnsByAgent s') key []) = turnFacts (jget_or (tu_activeTurnsByAgent s) key [])"
proof -
  have "map_option turnFacts (jget (tu_activeTurnsByAgent s') key) =
      map_option turnFacts (jget (tu_activeTurnsByAgent s) key)"
    using assms by (simp add: same_facts_def map_of_facts [symmetric])
  then show ?thesis by (auto simp: jget_or_def split: option.splits)
qed

lemma same_facts_summaries:
  assumes "same_facts s s'"
  shows "turnSummaries lcmp s' key = turnSummaries lcmp s key"
    and "channelTurnSummaries lcmp s' = channelTurnSummaries lcmp s"
  using assms same_facts_turns [OF assms]
  by (simp_all add: turnSummaries_def earliest_facts channelTurnSummaries_def summary_facts same_facts_def)

subsection \<open>The invariant\<close>

definition cache_ok :: "(string \<Rightarrow> string \<Rightarrow> int) \<Rightarrow> turns_store \<Rightarrow> bool" where
  "cache_ok lcmp s \<longleftrightarrow>
     (\<forall>key l. jget (tu_cachedTurnSummaries s) key = Some l \<longrightarrow> l = turnSummaries lcmp s key) \<and>
     (\<forall>l. tu_cachedChannelTurnSummaries s = Some l \<longrightarrow> l = channelTurnSummaries lcmp s)"

definition agent_turns_ok :: "bool \<Rightarrow> turn_map \<Rightarrow> bool" where
  "agent_turns_ok named turns \<longleftrightarrow>
     turns \<noteq> [] \<and> jwf turns \<and> (\<forall>(tid, turn)\<in>set turns. at_turnId turn = tid) \<and>
     (named \<longrightarrow> length turns \<le> MAX_TURNS_PER_AGENT \<and> [] \<notin> fst ` set turns)"

definition maps_ok :: "bool \<Rightarrow> (string, turn_map) jsmap \<Rightarrow> (string, (string, int) jsmap) jsmap \<Rightarrow> bool" where
  "maps_ok named active terminals \<longleftrightarrow>
     jwf active \<and> (\<forall>key turns. jget active key = Some turns \<longrightarrow> agent_turns_ok named turns) \<and>
     (\<forall>key ts. jget terminals key = Some ts \<longrightarrow> jwf ts \<and> length ts \<le> MAX_TERMINAL_TOMBSTONES)"

definition turns_wf :: "bool \<Rightarrow> (string \<Rightarrow> string \<Rightarrow> int) \<Rightarrow> turns_store \<Rightarrow> bool" where
  "turns_wf named lcmp s \<longleftrightarrow>
     maps_ok named (tu_activeTurnsByAgent s) (tu_terminalAtByAgent s) \<and> cache_ok lcmp s \<and>
     tu_pruneInterval s = (tu_listeners s \<noteq> []) \<and>
     (\<forall>c snap. jget (tu_savedByCommunity s) c = Some snap \<longrightarrow> maps_ok named (sn_turns snap) (sn_terminals snap))"

text \<open>An update of one agent that drops the agent's cached summaries keeps the caches right.\<close>

lemma cache_ok_invalidate:
  assumes "cache_ok lcmp s"
    and "\<And>k. k \<noteq> key \<Longrightarrow> jget_or (tu_activeTurnsByAgent s') k [] = jget_or (tu_activeTurnsByAgent s) k []"
    and "\<And>k. k \<noteq> key \<Longrightarrow> jget_or (tu_clockOffsetByAgent s') k 0 = jget_or (tu_clockOffsetByAgent s) k 0"
    and "tu_cachedTurnSummaries s' = tu_cachedTurnSummaries s"
  shows "cache_ok lcmp (invalidateCache key s')"
  using assms by (auto simp: cache_ok_def invalidateCache_def turnSummaries_def)

lemma cache_ok_same:
  assumes "cache_ok lcmp s" and "same_facts s s'"
    and "tu_cachedTurnSummaries s' = tu_cachedTurnSummaries s"
    and "tu_cachedChannelTurnSummaries s' = tu_cachedChannelTurnSummaries s"
  shows "cache_ok lcmp s'"
  using assms by (simp add: cache_ok_def same_facts_summaries [OF assms(2)])

lemma agent_turns_ok_jget:
  "agent_turns_ok named turns \<Longrightarrow> jget turns tid = Some turn \<Longrightarrow> at_turnId turn = tid"
  by (auto simp: agent_turns_ok_def dest!: map_of_SomeD)

lemma set_jset: "set (jset m k v) \<subseteq> insert (k, v) (set m)"
  by (induction m) auto

lemma set_jdel: "set (jdel m k) \<subseteq> set m"
  by (auto simp: AList.delete_eq)

lemma oldestTurn_in:
  "oldestTurn best turns = Some (k, t) \<Longrightarrow> best = Some (k, t) \<or> k \<in> fst ` set turns"
  by (induction best turns rule: oldestTurn.induct) (auto split: if_splits)

lemma oldestTurn_some: "turns \<noteq> [] \<or> best \<noteq> None \<Longrightarrow> oldestTurn best turns \<noteq> None"
  by (induction best turns rule: oldestTurn.induct) (auto split: if_splits option.splits)

lemma length_evict: "length (evictOldestTurn turns t) \<le> length turns"
  by (auto simp: evictOldestTurn_def length_jdel split: option.splits)

lemma evict_sub: "jwf turns \<Longrightarrow> jwf (evictOldestTurn turns t) \<and> set (evictOldestTurn turns t) \<subseteq> set turns"
  using set_jdel [of _ turns] by (auto simp: evictOldestTurn_def split: option.splits)

lemma evict_room:
  assumes "length turns \<le> MAX_TURNS_PER_AGENT" and "[] \<notin> fst ` set turns" and "jwf turns"
  shows "jhas (evictOldestTurn turns t) t \<or> length (evictOldestTurn turns t) < MAX_TURNS_PER_AGENT"
proof (cases "length turns \<ge> MAX_TURNS_PER_AGENT \<and> \<not> jhas turns t")
  case True
  then have "turns \<noteq> []" by (auto simp: MAX_TURNS_PER_AGENT_def)
  then obtain k u where o: "oldestTurn None turns = Some (k, u)"
    using oldestTurn_some [of turns None] by fastforce
  then have k: "k \<in> fst ` set turns" using oldestTurn_in [of None turns k u] by simp
  then have "k \<noteq> []" "jhas turns k" using assms(2) by (metis, simp add: jhas_iff)
  with True o assms(1,3) length_jdel_present [of turns k] show ?thesis
    by (auto simp: evictOldestTurn_def)
next
  case False
  with assms show ?thesis by (auto simp: evictOldestTurn_def)
qed

lemma start_agent_ok:
  assumes "turns = [] \<or> agent_turns_ok named turns" and "named \<Longrightarrow> t \<noteq> []" and "at_turnId turn = t"
  shows "agent_turns_ok named (jset (evictOldestTurn turns t) t turn)"
proof -
  let ?new = "jset (evictOldestTurn turns t) t turn"
  have base: "jwf turns" "\<forall>(tid, turn)\<in>set turns. at_turnId turn = tid"
    "named \<Longrightarrow> length turns \<le> MAX_TURNS_PER_AGENT \<and> [] \<notin> fst ` set turns"
    using assms(1) by (auto simp: agent_turns_ok_def)
  note e = evict_sub [OF base(1), of t]
  have sub: "set ?new \<subseteq> insert (t, turn) (set turns)" using set_jset [of t turn "evictOldestTurn turns t"] e by blast
  then have "\<forall>(tid, turn)\<in>set ?new. at_turnId turn = tid" using base(2) assms(3) by fastforce
  moreover have "length ?new \<le> MAX_TURNS_PER_AGENT \<and> [] \<notin> fst ` set ?new" if named
    using that base(1,3) evict_room [of turns t] length_evict [of turns t] sub assms(2) by (fastforce simp: length_jset)
  moreover have "?new \<noteq> []" by (cases "evictOldestTurn turns t") auto
  ultimately show ?thesis using e by (simp add: agent_turns_ok_def)
qed

lemma maps_ok_jset: "maps_ok named a t \<Longrightarrow> agent_turns_ok named turns \<Longrightarrow> maps_ok named (jset a k turns) t"
  by (simp add: maps_ok_def)

lemma maps_ok_jdel: "maps_ok named a t \<Longrightarrow> maps_ok named (jdel a k) t"
  by (auto simp: maps_ok_def split: if_splits)

lemma turns_wf_update:
  assumes "turns_wf named lcmp s" and "maps_ok named (tu_activeTurnsByAgent s') (tu_terminalAtByAgent s')"
    and "cache_ok lcmp s'" and "tu_pruneInterval s' = tu_pruneInterval s"
    and "tu_listeners s' = tu_listeners s" and "tu_savedByCommunity s' = tu_savedByCommunity s"
  shows "turns_wf named lcmp s'"
  using assms by (simp add: turns_wf_def)

lemma turns_wfD:
  assumes "turns_wf named lcmp s"
  shows "maps_ok named (tu_activeTurnsByAgent s) (tu_terminalAtByAgent s)" and "cache_ok lcmp s"
    and "jwf (tu_activeTurnsByAgent s)"
  using assms by (auto simp: turns_wf_def maps_ok_def)

lemma invalidate_fields [turn_simps]:
  "tu_activeTurnsByAgent (invalidateCache k s) = tu_activeTurnsByAgent s"
  "tu_terminalAtByAgent (invalidateCache k s) = tu_terminalAtByAgent s"
  "tu_pruneInterval (invalidateCache k s) = tu_pruneInterval s"
  "tu_listeners (invalidateCache k s) = tu_listeners s"
  "tu_savedByCommunity (invalidateCache k s) = tu_savedByCommunity s"
  "tu_clockOffsetByAgent (invalidateCache k s) = tu_clockOffsetByAgent s"
  by (simp_all add: invalidateCache_def)

lemma agent_ok:
  "turns_wf named lcmp s \<Longrightarrow> jget_or (tu_activeTurnsByAgent s) key [] = [] \<or>
   agent_turns_ok named (jget_or (tu_activeTurnsByAgent s) key [])"
  by (auto simp: turns_wf_def maps_ok_def jget_or_def split: option.splits)

lemma startTurn_wf:
  assumes "turns_wf named lcmp s" and "named \<Longrightarrow> t \<noteq> []"
  shows "turns_wf named lcmp (startTurn dp now pk c t ts s)"
  unfolding startTurn_def Let_def
proof (rule turns_wf_update [OF assms(1)])
  show "cache_ok lcmp (invalidateCache (normalizePubkey pk) (s\<lparr>tu_activeTurnsByAgent :=
      jset (tu_activeTurnsByAgent s) (normalizePubkey pk)
        (jset (evictOldestTurn (jget_or (tu_activeTurnsByAgent s) (normalizePubkey pk) []) t) t
          \<lparr>at_turnId = t, at_channelId = c, at_startedAt = case dp ts of Some t \<Rightarrow> t | None \<Rightarrow> now,
           at_lastActivityAt = now\<rparr>)\<rparr>))"
    by (rule cache_ok_invalidate [OF turns_wfD(2) [OF assms(1)]]) (simp_all add: jget_or_def)
qed (use assms start_agent_ok [OF agent_ok [OF assms(1)] assms(2)] in
    \<open>simp_all add: turn_simps maps_ok_jset turns_wfD(1)\<close>)

lemma jset_same_facts:
  assumes "jget turns tid = Some turn" and "at_channelId turn' = at_channelId turn"
    and "at_startedAt turn' = at_startedAt turn"
  shows "turnFacts (jset turns tid turn') = turnFacts turns"
  using assms by (induction turns) (auto simp: turnFacts_def)

lemma map_jset_same:
  "jget m k = Some v \<Longrightarrow> f v' = f v \<Longrightarrow> map (\<lambda>(k, v). (k, f v)) (jset m k v') = map (\<lambda>(k, v). (k, f v)) m"
  by (induction m) auto

lemma agent_turns_ok_jset:
  assumes "agent_turns_ok named turns" and "jget turns tid = Some turn" and "at_turnId turn' = tid"
  shows "agent_turns_ok named (jset turns tid turn')"
proof -
  have "fst ` set (jset turns tid turn') = fst ` set turns"
    using jkeys_jset [of tid turn' turns] map_of_SomeD [OF assms(2)] by force
  moreover have "length (jset turns tid turn') = length turns" using assms(2) by (simp add: length_jset jhas_def)
  moreover have "jset turns tid turn' \<noteq> []" by (cases turns) auto
  moreover have "\<forall>(tid, turn)\<in>set (jset turns tid turn'). at_turnId turn = tid"
    using set_jset [of tid turn' turns] assms by (fastforce simp: agent_turns_ok_def)
  ultimately show ?thesis using assms(1) by (simp add: agent_turns_ok_def)
qed

lemma recordActivity_wf:
  assumes "turns_wf named lcmp s"
  shows "turns_wf named lcmp (snd (recordActivity now pk t s))"
proof (cases "fst (recordActivity now pk t s)")
  case True
  then obtain turns turn where j: "jget (tu_activeTurnsByAgent s) (normalizePubkey pk) = Some turns"
    "jget turns (the t) = Some turn"
    and r: "snd (recordActivity now pk t s) = s\<lparr>tu_activeTurnsByAgent := jset (tu_activeTurnsByAgent s)
      (normalizePubkey pk) (jset turns (the t) (turn\<lparr>at_lastActivityAt := now\<rparr>))\<rparr>"
    by (auto simp: recordActivity_def split: option.splits if_splits)
  have ok: "agent_turns_ok named turns" using turns_wfD(1) [OF assms] j(1) by (auto simp: maps_ok_def)
  then have ok': "agent_turns_ok named (jset turns (the t) (turn\<lparr>at_lastActivityAt := now\<rparr>))"
    using j(2) agent_turns_ok_jget [OF ok j(2)] by (intro agent_turns_ok_jset) auto
  have "same_facts s (s\<lparr>tu_activeTurnsByAgent := jset (tu_activeTurnsByAgent s)
      (normalizePubkey pk) (jset turns (the t) (turn\<lparr>at_lastActivityAt := now\<rparr>))\<rparr>)"
    using j jset_same_facts [OF j(2), of "turn\<lparr>at_lastActivityAt := now\<rparr>"]
    by (simp add: same_facts_def map_jset_same)
  then have "cache_ok lcmp (s\<lparr>tu_activeTurnsByAgent := jset (tu_activeTurnsByAgent s)
      (normalizePubkey pk) (jset turns (the t) (turn\<lparr>at_lastActivityAt := now\<rparr>))\<rparr>)"
    by (rule cache_ok_same [OF turns_wfD(2) [OF assms]]) simp_all
  with ok' turns_wfD(1) [OF assms] show ?thesis
    unfolding r by (intro turns_wf_update [OF assms]) (simp_all add: maps_ok_jset)
next
  case False
  then have "snd (recordActivity now pk t s) = s"
    by (auto simp: recordActivity_def split: option.splits if_splits)
  with assms show ?thesis by simp
qed

lemma cache_ok_cong:
  "cache_ok lcmp s \<Longrightarrow> tu_activeTurnsByAgent s' = tu_activeTurnsByAgent s \<Longrightarrow>
   tu_clockOffsetByAgent s' = tu_clockOffsetByAgent s \<Longrightarrow>
   tu_cachedTurnSummaries s' = tu_cachedTurnSummaries s \<Longrightarrow>
   tu_cachedChannelTurnSummaries s' = tu_cachedChannelTurnSummaries s \<Longrightarrow> cache_ok lcmp s'"
  by (rule cache_ok_same) (simp_all add: same_facts_def)

lemma recordTerminal_fields [turn_simps]:
  "tu_activeTurnsByAgent (recordTerminal k t at s) = tu_activeTurnsByAgent s"
  "tu_clockOffsetByAgent (recordTerminal k t at s) = tu_clockOffsetByAgent s"
  "tu_cachedTurnSummaries (recordTerminal k t at s) = tu_cachedTurnSummaries s"
  "tu_cachedChannelTurnSummaries (recordTerminal k t at s) = tu_cachedChannelTurnSummaries s"
  "tu_pruneInterval (recordTerminal k t at s) = tu_pruneInterval s"
  "tu_listeners (recordTerminal k t at s) = tu_listeners s"
  "tu_savedByCommunity (recordTerminal k t at s) = tu_savedByCommunity s"
  by (simp_all add: recordTerminal_def split: option.splits)

lemma tombstones_bounded:
  assumes "jwf ts" and "length ts \<le> MAX_TERMINAL_TOMBSTONES"
  shows "length (jdel (jset ts t v) (fst (hd (jset ts t v)))) \<le> MAX_TERMINAL_TOMBSTONES"
proof -
  define new where "new = jset ts t v"
  have "new \<noteq> []" unfolding new_def by (cases ts) auto
  then have "jhas new (fst (hd new))" by (simp add: jhas_iff)
  moreover have "jwf new" using assms(1) by (simp add: new_def)
  ultimately have "length new = Suc (length (jdel new (fst (hd new))))" by (intro length_jdel_present)
  moreover have "length new \<le> Suc (length ts)" by (simp add: new_def length_jset)
  ultimately show ?thesis using assms(2) unfolding new_def by linarith
qed

lemma recordTerminal_wf:
  assumes "turns_wf named lcmp s"
  shows "turns_wf named lcmp (recordTerminal k t at s)"
proof (rule turns_wf_update [OF assms])
  have "jwf (jget_or (tu_terminalAtByAgent s) k [])"
    "length (jget_or (tu_terminalAtByAgent s) k []) \<le> MAX_TERMINAL_TOMBSTONES"
    using turns_wfD(1) [OF assms] by (auto simp: maps_ok_def jget_or_def split: option.splits)
  then show "maps_ok named (tu_activeTurnsByAgent (recordTerminal k t at s)) (tu_terminalAtByAgent (recordTerminal k t at s))"
    using turns_wfD(1) [OF assms] tombstones_bounded [of "jget_or (tu_terminalAtByAgent s) k []" t]
    by (auto simp: maps_ok_def recordTerminal_def not_less split: option.splits if_splits)
  show "cache_ok lcmp (recordTerminal k t at s)"
    using turns_wfD(2) [OF assms] by (rule cache_ok_cong) (simp_all add: turn_simps)
qed (simp_all add: turn_simps)

lemma agent_turns_ok_filter: "agent_turns_ok named turns \<Longrightarrow> filter P turns \<noteq> [] \<Longrightarrow> agent_turns_ok named (filter P turns)"
  by (auto simp: agent_turns_ok_def intro: le_trans [OF length_filter_le])

lemma agent_turns_ok_jdel: "agent_turns_ok named turns \<Longrightarrow> jdel turns k \<noteq> [] \<Longrightarrow> agent_turns_ok named (jdel turns k)"
  unfolding AList.delete_eq by (rule agent_turns_ok_filter)

lemma storeAgentTurns_wf:
  assumes "turns_wf named lcmp s" and "turns \<noteq> [] \<Longrightarrow> agent_turns_ok named turns"
  shows "turns_wf named lcmp (invalidateCache key (storeAgentTurns key turns s))"
proof (rule turns_wf_update [OF assms(1)])
  show "cache_ok lcmp (invalidateCache key (storeAgentTurns key turns s))"
    by (rule cache_ok_invalidate [OF turns_wfD(2) [OF assms(1)]])
      (simp_all add: jget_or_def storeAgentTurns_def)
qed (use assms(2) turns_wfD(1) [OF assms(1)] in
    \<open>simp_all add: turn_simps storeAgentTurns_def maps_ok_jset maps_ok_jdel\<close>)

lemma removeEndedTurn_wf:
  assumes "turns_wf named lcmp s" and "agent_turns_ok named turns" and "removeEndedTurn key t c at turns s = (turns', s')"
  shows "turns_wf named lcmp s' \<and> (turns' \<noteq> [] \<longrightarrow> agent_turns_ok named turns')"
  using assms recordTerminal_wf [OF assms(1)] agent_turns_ok_jdel [OF assms(2)]
  by (auto simp: removeEndedTurn_def split: if_splits option.splits prod.splits)

lemma endTurn_wf:
  assumes "turns_wf named lcmp s"
  shows "turns_wf named lcmp (endTurn pk t c at s)"
proof -
  let ?key = "normalizePubkey pk"
  define s1 where "s1 = (if truthy t then recordTerminal ?key (the t) at s else s)"
  have s1: "turns_wf named lcmp s1" using assms by (simp add: s1_def recordTerminal_wf)
  show ?thesis
  proof (cases "jget (tu_activeTurnsByAgent s1) ?key")
    case None
    then show ?thesis using s1 by (simp add: endTurn_def s1_def [symmetric])
  next
    case (Some turns)
    have ok: "agent_turns_ok named turns" using turns_wfD(1) [OF s1] Some by (auto simp: maps_ok_def)
    obtain turns' s2 where r: "removeEndedTurn ?key t c at turns s1 = (turns', s2)" by fastforce
    then have "endTurn pk t c at s = invalidateCache ?key (storeAgentTurns ?key turns' s2)"
      using Some by (simp add: endTurn_def s1_def [symmetric])
    then show ?thesis using removeEndedTurn_wf [OF s1 ok r] by (simp add: storeAgentTurns_wf)
  qed
qed

lemma notify_turns_wf: "turns_wf named lcmp (notifyTurnListeners s) \<longleftrightarrow> turns_wf named lcmp s"
proof -
  have "cache_ok lcmp (notifyTurnListeners s) \<longleftrightarrow> cache_ok lcmp s"
    using cache_ok_cong [of lcmp s "notifyTurnListeners s"] cache_ok_cong [of lcmp "notifyTurnListeners s" s]
    by (auto simp: notifyTurnListeners_def)
  then show ?thesis by (simp add: turns_wf_def) (simp add: notifyTurnListeners_def)
qed

lemma sample_wf:
  assumes "turns_wf named lcmp s"
  shows "turns_wf named lcmp (snd (sampleClockOffset dp now key ts s))"
proof -
  have "turns_wf named lcmp (invalidateCache key (s\<lparr>tu_clockOffsetByAgent := jset (tu_clockOffsetByAgent s) key v\<rparr>))" for v
  proof (rule turns_wf_update [OF assms])
    show "cache_ok lcmp (invalidateCache key (s\<lparr>tu_clockOffsetByAgent := jset (tu_clockOffsetByAgent s) key v\<rparr>))"
      by (rule cache_ok_invalidate [OF turns_wfD(2) [OF assms]]) (simp_all add: jget_or_def)
  qed (use turns_wfD(1) [OF assms] in \<open>simp_all add: turn_simps\<close>)
  with assms show ?thesis by (auto simp: sampleClockOffset_def split: option.splits)
qed

lemma resurrect_wf:
  "turns_wf named lcmp s \<Longrightarrow> turns_wf named lcmp (snd (resurrectTurn dp now pk e s))"
  by (auto simp: resurrectTurn_def truthy_def intro: startTurn_wf split: option.splits)

lemma processKind_wf:
  assumes "turns_wf named lcmp s" and "named \<Longrightarrow> oe_turnId e \<noteq> Some []"
  shows "turns_wf named lcmp (snd (processKind dp now pk e s))"
  using assms recordActivity_wf [OF assms(1), of now pk "oe_turnId e"]
  by (auto simp: processKind_def case_prod_unfold startTurn_wf endTurn_wf resurrect_wf split: option.splits)

lemma processEvent_wf:
  assumes "turns_wf named lcmp s" and "named \<Longrightarrow> oe_turnId e \<noteq> Some []"
  shows "turns_wf named lcmp (processEvent dp now pk e s)"
proof -
  let ?s1 = "s\<lparr>tu_lastProcessed := jset (tu_lastProcessed s) (normalizePubkey pk) e\<rparr>"
  have "cache_ok lcmp ?s1" using turns_wfD(2) [OF assms(1)] by (rule cache_ok_cong) simp_all
  then have "turns_wf named lcmp ?s1" using turns_wfD(1) [OF assms(1)] by (intro turns_wf_update [OF assms(1)]) simp_all
  then have "turns_wf named lcmp (snd (processKind dp now pk e
      (snd (sampleClockOffset dp now (normalizePubkey pk) (oe_timestamp e) ?s1))))"
    by (intro processKind_wf sample_wf assms(2))
  with assms(1) show ?thesis by (simp add: processEvent_def case_prod_unfold notify_turns_wf)
qed

lemma sync_wf:
  "turns_wf named lcmp s \<Longrightarrow> list_all (\<lambda>e. named \<longrightarrow> oe_turnId e \<noteq> Some []) es \<Longrightarrow>
   turns_wf named lcmp (syncAgentTurnsFromEvents dp now pk es s)"
  unfolding syncAgentTurnsFromEvents_def by (induction es arbitrary: s) (simp_all add: processEvent_wf)

subsection \<open>What pruning removes\<close>

definition keptTurns :: "int \<Rightarrow> turn_map \<Rightarrow> turn_map" where
  "keptTurns now turns =
     (if shouldPausePrune turns now then turns else filter (\<lambda>(turnId, turn). \<not> expired now turn) turns)"

lemma jset_id: "jget m k = Some v \<Longrightarrow> jset m k v = m"
  by (induction m) auto

lemma pruneAgent_cases:
  assumes "jget (tu_activeTurnsByAgent s) key = Some turns" and "turns \<noteq> []"
  shows "pruneAgent now (key, turns) (changed, s) =
    (if keptTurns now turns = turns then (changed, s)
     else (True, invalidateCache key (storeAgentTurns key (keptTurns now turns) s)))"
proof (cases "list_ex (\<lambda>(turnId, turn). expired now turn) turns")
  case True
  then have "filter (\<lambda>(turnId, turn). \<not> expired now turn) turns \<noteq> turns"
    by (auto simp: filter_id_conv list_ex_iff)
  with True show ?thesis by (simp add: pruneAgent_def keptTurns_def)
next
  case False
  then have "filter (\<lambda>(turnId, turn). \<not> expired now turn) turns = turns"
    by (auto simp: filter_id_conv list_ex_iff)
  moreover have "storeAgentTurns key turns s = s" using assms by (simp add: storeAgentTurns_def jset_id)
  ultimately show ?thesis using False by (simp add: pruneAgent_def keptTurns_def)
qed

lemma kept_ok: "agent_turns_ok named turns \<Longrightarrow> keptTurns now turns \<noteq> [] \<Longrightarrow> agent_turns_ok named (keptTurns now turns)"
  by (auto simp: keptTurns_def agent_turns_ok_filter)

text \<open>One agent is pruned at a time; the entries still to come are untouched.\<close>

lemma prune_fold:
  assumes "turns_wf named lcmp s" and "distinct (map fst entries)"
    and "\<forall>(key, turns)\<in>set entries. jget (tu_activeTurnsByAgent s) key = Some turns"
  shows "turns_wf named lcmp (snd (fold (pruneAgent now) entries (changed, s))) \<and>
    (\<forall>key. jget (tu_activeTurnsByAgent (snd (fold (pruneAgent now) entries (changed, s)))) key =
      (case map_of entries key of
         None \<Rightarrow> jget (tu_activeTurnsByAgent s) key
       | Some turns \<Rightarrow> if keptTurns now turns = [] then None else Some (keptTurns now turns)))"
  using assms
proof (induction entries arbitrary: s changed)
  case (Cons entry entries)
  obtain key turns where e: "entry = (key, turns)" by fastforce
  have j: "jget (tu_activeTurnsByAgent s) key = Some turns" using Cons.prems(3) by (simp add: e)
  then have ok: "agent_turns_ok named turns" using turns_wfD(1) [OF Cons.prems(1)] by (auto simp: maps_ok_def)
  then have ne: "turns \<noteq> []" by (simp add: agent_turns_ok_def)
  obtain changed' s' where step: "pruneAgent now (key, turns) (changed, s) = (changed', s')" by fastforce
  have s': "turns_wf named lcmp s'"
    using step Cons.prems(1) ok
    by (auto simp: pruneAgent_cases [OF j ne] storeAgentTurns_wf kept_ok split: if_splits)
  have get: "jget (tu_activeTurnsByAgent s') k =
      (if k = key then if keptTurns now turns = [] then None else Some (keptTurns now turns)
       else jget (tu_activeTurnsByAgent s) k)" for k
    using step j ne
    by (auto simp: pruneAgent_cases [OF j ne] storeAgentTurns_def turn_simps split: if_splits)
  have "\<forall>(k, t)\<in>set entries. jget (tu_activeTurnsByAgent s') k = Some t"
  proof
    fix x assume x: "x \<in> set entries"
    then have "fst x \<noteq> key" using Cons.prems(2) by (auto simp: e)
    then show "case x of (k, t) \<Rightarrow> jget (tu_activeTurnsByAgent s') k = Some t"
      using Cons.prems(3) x by (auto simp: e get)
  qed
  note ih = Cons.IH [OF s' _ this, of changed']
  have "map_of entries key = None" using Cons.prems(2) by (auto simp: e map_of_eq_None_iff)
  with ih Cons.prems(2) get step show ?case by (auto simp: e split: option.splits)
qed simp

lemma notify_active [turn_simps]: "tu_activeTurnsByAgent (notifyTurnListeners s) = tu_activeTurnsByAgent s"
  by (simp add: notifyTurnListeners_def)

lemma prune_all:
  assumes "turns_wf named lcmp s"
  shows "turns_wf named lcmp (pruneExpired now s)"
    and "jget (tu_activeTurnsByAgent (pruneExpired now s)) key =
      (case jget (tu_activeTurnsByAgent s) key of
         None \<Rightarrow> None
       | Some turns \<Rightarrow> if keptTurns now turns = [] then None else Some (keptTurns now turns))"
proof -
  let ?act = "tu_activeTurnsByAgent s"
  have wf: "jwf ?act" by (rule turns_wfD(3) [OF assms])
  then have "\<forall>(k, turns)\<in>set ?act. jget ?act k = Some turns" by (auto simp: jget_in_set)
  with wf have f: "turns_wf named lcmp (snd (fold (pruneAgent now) ?act (False, s))) \<and>
    (\<forall>key. jget (tu_activeTurnsByAgent (snd (fold (pruneAgent now) ?act (False, s)))) key =
      (case jget ?act key of
         None \<Rightarrow> jget ?act key
       | Some turns \<Rightarrow> if keptTurns now turns = [] then None else Some (keptTurns now turns)))"
    unfolding jwf_def by (intro prune_fold [OF assms])
  have "pruneExpired now s = snd (fold (pruneAgent now) ?act (False, s)) \<or>
      pruneExpired now s = notifyTurnListeners (snd (fold (pruneAgent now) ?act (False, s)))"
    by (simp add: pruneExpired_def case_prod_unfold)
  moreover have "jget (tu_activeTurnsByAgent (snd (fold (pruneAgent now) ?act (False, s)))) key =
      (case jget ?act key of
         None \<Rightarrow> None
       | Some turns \<Rightarrow> if keptTurns now turns = [] then None else Some (keptTurns now turns))"
    using f [THEN conjunct2, rule_format, of key] by (simp split: option.splits)
  ultimately show "turns_wf named lcmp (pruneExpired now s)"
    and "jget (tu_activeTurnsByAgent (pruneExpired now s)) key =
      (case jget ?act key of
         None \<Rightarrow> None
       | Some turns \<Rightarrow> if keptTurns now turns = [] then None else Some (keptTurns now turns))"
    using f [THEN conjunct1] by (auto simp: notify_turns_wf turn_simps)
qed

definition agentTurns :: "turns_store \<Rightarrow> string \<Rightarrow> turn_map" where
  "agentTurns s key = jget_or (tu_activeTurnsByAgent s) key []"

lemma prune_turns: "turns_wf named lcmp s \<Longrightarrow> agentTurns (pruneExpired now s) key = keptTurns now (agentTurns s key)"
  by (auto simp: agentTurns_def jget_or_def prune_all(2) keptTurns_def split: option.splits)

lemma max_activity:
  "fold (\<lambda>turn m. if at_lastActivityAt turn > m then at_lastActivityAt turn else m) ts (m :: int) =
     Max (insert m (at_lastActivityAt ` set ts))"
proof (induction ts arbitrary: m)
  case (Cons t ts)
  have "Max (insert m (at_lastActivityAt ` set (t # ts))) = Max (insert (max m (at_lastActivityAt t)) (at_lastActivityAt ` set ts))"
    by (cases "ts = []") (simp_all add: max.assoc max.left_commute)
  with Cons show ?case by (simp add: max_def)
qed simp

subsection \<open>Reachable stores\<close>

inductive turn_step :: "bool \<Rightarrow> (string \<Rightarrow> string \<Rightarrow> int) \<Rightarrow> (string \<Rightarrow> int option) \<Rightarrow> turns_store \<Rightarrow> turns_store \<Rightarrow> bool"
  for named lcmp dp where
  turn_event: "(named \<Longrightarrow> oe_turnId e \<noteq> Some []) \<Longrightarrow> turn_step named lcmp dp s (processEvent dp now pk e s)"
| turn_prune: "turn_step named lcmp dp s (pruneExpired now s)"
| turn_subscribe: "turn_step named lcmp dp s (subscribeActiveAgentTurns l s)"
| turn_unsubscribe: "turn_step named lcmp dp s (unsubscribeActiveAgentTurns l s)"
| turn_read: "turn_step named lcmp dp s (snd (getActiveTurnsForAgent lcmp pk s))"
| turn_read_channels: "turn_step named lcmp dp s (snd (getActiveTurnsByChannel lcmp s))"
| turn_reset: "turn_step named lcmp dp s (resetActiveAgentTurnsStore s)"
| turn_save: "turn_step named lcmp dp s (saveActiveAgentTurnsForCommunity c s)"
| turn_restore: "turn_step named lcmp dp s (restoreActiveAgentTurnsForCommunity now c s)"
| turn_clear: "turn_step named lcmp dp s (clearSavedCommunitySnapshot c s)"

inductive turns_reachable :: "bool \<Rightarrow> (string \<Rightarrow> string \<Rightarrow> int) \<Rightarrow> (string \<Rightarrow> int option) \<Rightarrow> turns_store \<Rightarrow> bool"
  for named lcmp dp where
  turns_empty: "turns_reachable named lcmp dp emptyTurnsStore"
| turns_step: "turns_reachable named lcmp dp s \<Longrightarrow> turn_step named lcmp dp s s' \<Longrightarrow> turns_reachable named lcmp dp s'"

lemma subscribe_turns_wf:
  assumes "turns_wf named lcmp s"
  shows "turns_wf named lcmp (subscribeActiveAgentTurns l s)"
proof -
  let ?s' = "subscribeActiveAgentTurns l s"
  have "tu_listeners ?s' = sadd (tu_listeners s) l"
    "tu_pruneInterval ?s' = (length (sadd (tu_listeners s) l) = 1 \<or> tu_pruneInterval s)"
    "tu_savedByCommunity ?s' = tu_savedByCommunity s" "tu_activeTurnsByAgent ?s' = tu_activeTurnsByAgent s"
    "tu_terminalAtByAgent ?s' = tu_terminalAtByAgent s"
    by (simp_all add: subscribeActiveAgentTurns_def)
  moreover have "cache_ok lcmp ?s'"
    using turns_wfD(2) [OF assms] by (rule cache_ok_cong) (simp_all add: subscribeActiveAgentTurns_def)
  moreover have "sadd (tu_listeners s) l \<noteq> []" "length (sadd (tu_listeners s) l) = 1 \<or> tu_listeners s \<noteq> []"
    by (auto simp: sadd_def)
  ultimately show ?thesis using assms by (auto simp: turns_wf_def)
qed

lemma unsubscribe_turns_wf:
  assumes "turns_wf named lcmp s"
  shows "turns_wf named lcmp (unsubscribeActiveAgentTurns l s)"
proof -
  let ?s' = "unsubscribeActiveAgentTurns l s"
  have "tu_listeners ?s' = removeAll l (tu_listeners s)"
    "tu_pruneInterval ?s' = (removeAll l (tu_listeners s) \<noteq> [] \<and> tu_pruneInterval s)"
    "tu_savedByCommunity ?s' = tu_savedByCommunity s" "tu_activeTurnsByAgent ?s' = tu_activeTurnsByAgent s"
    "tu_terminalAtByAgent ?s' = tu_terminalAtByAgent s"
    by (simp_all add: unsubscribeActiveAgentTurns_def)
  moreover have "cache_ok lcmp ?s'"
    using turns_wfD(2) [OF assms] by (rule cache_ok_cong) (simp_all add: unsubscribeActiveAgentTurns_def)
  ultimately show ?thesis using assms by (auto simp: turns_wf_def)
qed

lemma read_turns_wf:
  assumes "turns_wf named lcmp s"
  shows "turns_wf named lcmp (snd (getActiveTurnsForAgent lcmp pk s))"
    and "turns_wf named lcmp (snd (getActiveTurnsByChannel lcmp s))"
proof -
  have "cache_ok lcmp (s\<lparr>tu_cachedTurnSummaries := jset (tu_cachedTurnSummaries s) k (turnSummaries lcmp s k)\<rparr>)" for k
    using turns_wfD(2) [OF assms]
    by (simp add: cache_ok_def) (simp add: turnSummaries_def channelTurnSummaries_def channelSummaryMap_def)
  moreover have "cache_ok lcmp (s\<lparr>tu_cachedChannelTurnSummaries := Some (channelTurnSummaries lcmp s)\<rparr>)"
    using turns_wfD(2) [OF assms]
    by (simp add: cache_ok_def) (simp add: turnSummaries_def channelTurnSummaries_def channelSummaryMap_def)
  ultimately show "turns_wf named lcmp (snd (getActiveTurnsForAgent lcmp pk s))"
    and "turns_wf named lcmp (snd (getActiveTurnsByChannel lcmp s))"
    using assms
    by (auto simp: getActiveTurnsForAgent_def getActiveTurnsByChannel_def split: option.splits
        intro!: turns_wf_update [OF assms]) (simp_all add: turns_wf_def)
qed

lemma cache_ok_empty:
  "tu_cachedTurnSummaries s = [] \<Longrightarrow> tu_cachedChannelTurnSummaries s = None \<Longrightarrow> cache_ok lcmp s"
  by (simp add: cache_ok_def)

lemma maps_ok_Nil: "maps_ok named [] []"
  by (simp add: maps_ok_def)

lemma reset_turns_wf: "turns_wf named lcmp s \<Longrightarrow> turns_wf named lcmp (resetActiveAgentTurnsStore s)"
  unfolding resetActiveAgentTurnsStore_def notify_turns_wf
  by (rule turns_wf_update) (simp_all add: cache_ok_empty maps_ok_Nil)

lemma clear_turns_wf:
  assumes "turns_wf named lcmp s"
  shows "turns_wf named lcmp (clearSavedCommunitySnapshot c s)"
proof -
  have "cache_ok lcmp (clearSavedCommunitySnapshot c s)"
    using turns_wfD(2) [OF assms] by (rule cache_ok_cong) (simp_all add: clearSavedCommunitySnapshot_def)
  with assms show ?thesis
    by (auto simp: turns_wf_def clearSavedCommunitySnapshot_def split: if_splits)
qed

lemma save_turns_wf:
  assumes "turns_wf named lcmp s"
  shows "turns_wf named lcmp (saveActiveAgentTurnsForCommunity c s)"
proof (cases "tu_activeTurnsByAgent s = [] \<and> tu_terminalAtByAgent s = []")
  case True
  then show ?thesis
    using clear_turns_wf [OF assms, of c]
    by (simp add: saveActiveAgentTurnsForCommunity_def clearSavedCommunitySnapshot_def)
next
  case False
  have "cache_ok lcmp (saveActiveAgentTurnsForCommunity c s)"
    using turns_wfD(2) [OF assms] False
    by (elim cache_ok_cong) (simp_all add: saveActiveAgentTurnsForCommunity_def)
  with assms False show ?thesis by (auto simp: turns_wf_def saveActiveAgentTurnsForCommunity_def)
qed

lemma jget_refreshTurns:
  "jget (refreshTurns now m) k =
     map_option (map (\<lambda>(tid, turn). (tid, turn\<lparr>at_lastActivityAt := now\<rparr>))) (jget m k)"
  unfolding refreshTurns_def by (induction m) auto

lemma refresh_ok: "agent_turns_ok named turns \<Longrightarrow>
   agent_turns_ok named (map (\<lambda>(tid, turn). (tid, turn\<lparr>at_lastActivityAt := now\<rparr>)) turns)"
  by (simp add: agent_turns_ok_def jwf_def comp_def case_prod_unfold image_image)

lemma restore_turns_wf:
  assumes "turns_wf named lcmp s"
  shows "turns_wf named lcmp (restoreActiveAgentTurnsForCommunity now c s)"
proof (cases "jget (tu_savedByCommunity s) c")
  case None
  with assms show ?thesis by (simp add: restoreActiveAgentTurnsForCommunity_def)
next
  case (Some snap)
  have ok: "maps_ok named (sn_turns snap) (sn_terminals snap)" using assms Some by (auto simp: turns_wf_def)
  have "jwf (refreshTurns now (sn_turns snap))"
    using ok by (simp add: maps_ok_def jwf_def refreshTurns_def comp_def case_prod_unfold)
  then have "maps_ok named (refreshTurns now (sn_turns snap)) (sn_terminals snap)"
    using ok by (auto simp: maps_ok_def jget_refreshTurns refresh_ok)
  with assms show ?thesis
    unfolding restoreActiveAgentTurnsForCommunity_def Some option.case notify_turns_wf
    by (auto simp: turns_wf_def cache_ok_empty split: if_splits)
qed

lemma turn_step_wf: "turn_step named lcmp dp s s' \<Longrightarrow> turns_wf named lcmp s \<Longrightarrow> turns_wf named lcmp s'"
  by (induction rule: turn_step.induct)
    (simp_all add: processEvent_wf prune_all(1) subscribe_turns_wf unsubscribe_turns_wf read_turns_wf
      reset_turns_wf save_turns_wf restore_turns_wf clear_turns_wf)

lemma empty_turns_wf: "turns_wf named lcmp emptyTurnsStore"
  by (simp add: turns_wf_def emptyTurnsStore_def maps_ok_Nil cache_ok_empty)

lemma turns_reachable_wf: "turns_reachable named lcmp dp s \<Longrightarrow> turns_wf named lcmp s"
  by (induction rule: turns_reachable.induct) (auto intro: turn_step_wf empty_turns_wf)

text \<open>
  C32. In every reachable store an agent has at least one turn, each under its own id, its tombstones stay
  within their cap, and the prune timer runs exactly while someone listens. If no frame names its turn
  with the empty string (\<open>named\<close>), an agent has at most \<open>MAX_TURNS_PER_AGENT\<close> turns.
\<close>

theorem turns_reachable_invariant:
  assumes "turns_reachable named lcmp dp s"
  shows "(\<forall>key turns. jget (tu_activeTurnsByAgent s) key = Some turns \<longrightarrow>
      1 \<le> length turns \<and> (named \<longrightarrow> length turns \<le> MAX_TURNS_PER_AGENT) \<and> distinct (jkeys turns) \<and>
      (\<forall>(tid, turn)\<in>set turns. at_turnId turn = tid)) \<and>
    (\<forall>key terminals. jget (tu_terminalAtByAgent s) key = Some terminals \<longrightarrow>
      length terminals \<le> MAX_TERMINAL_TOMBSTONES) \<and>
    tu_pruneInterval s = (tu_listeners s \<noteq> [])"
proof -
  have "1 \<le> length turns \<and> (named \<longrightarrow> length turns \<le> MAX_TURNS_PER_AGENT) \<and> distinct (jkeys turns) \<and>
      (\<forall>(tid, turn)\<in>set turns. at_turnId turn = tid)" if "agent_turns_ok named turns" for turns
    using that by (cases turns) (auto simp: agent_turns_ok_def jwf_def)
  then show ?thesis using turns_reachable_wf [OF assms] unfolding turns_wf_def maps_ok_def by blast
qed

definition sample_turns :: turns_store where
  "sample_turns = processEvent length_clock 5 ''pk'' (sample_event 1 ''x'' ''turn_started'') emptyTurnsStore"

lemma sample_turns_reachable: "turns_reachable True compareStrings length_clock sample_turns"
  unfolding sample_turns_def
  by (rule turns_step [OF turns_empty turn_event])
    (simp_all add: sample_event_def parseable_def length_clock_def)

text \<open>Five turns started one after the other.\<close>

definition started_turns :: "string list \<Rightarrow> turns_store" where
  "started_turns ids = fold (\<lambda>(n, tid). processEvent length_clock 9 ''pk''
     ((sample_event (int n) (replicate n (CHR ''x'')) ''turn_started'')\<lparr>oe_turnId := Some tid\<rparr>)) (enumerate 1 ids) emptyTurnsStore"

lemma started_turns_reachable:
  assumes "named \<Longrightarrow> [] \<notin> set ids"
  shows "turns_reachable named lcmp length_clock (started_turns ids)"
proof -
  have "turns_reachable named lcmp length_clock (fold (\<lambda>(n, tid). processEvent length_clock 9 ''pk''
      ((sample_event (int n) (replicate n (CHR ''x'')) ''turn_started'')\<lparr>oe_turnId := Some tid\<rparr>)) (enumerate k ids) s)"
    if "turns_reachable named lcmp length_clock s" for k s
    using assms that
  proof (induction ids arbitrary: k s)
    case (Cons tid ids)
    let ?s = "processEvent length_clock 9 ''pk''
      ((sample_event (int k) (replicate k (CHR ''x'')) ''turn_started'')\<lparr>oe_turnId := Some tid\<rparr>) s"
    have "turns_reachable named lcmp length_clock ?s"
      using Cons.prems(1) by (intro turns_step [OF Cons.prems(2) turn_event]) auto
    then show ?case using Cons.IH [of ?s "Suc k"] Cons.prems(1) by simp
  qed simp
  then show ?thesis unfolding started_turns_def using turns_empty .
qed

theorem turns_reachable_invariant_witness:
  "\<exists>turns. jget (tu_activeTurnsByAgent (started_turns [''a'', ''b'', ''c'', ''d'', ''e''])) ''pk'' = Some turns \<and>
     jkeys turns = [''b'', ''c'', ''d'', ''e''] \<and> length turns \<le> MAX_TURNS_PER_AGENT \<and>
     \<not> tu_pruneInterval (started_turns [''a'', ''b'', ''c'', ''d'', ''e''])"
proof -
  let ?s = "started_turns [''a'', ''b'', ''c'', ''d'', ''e'']"
  have keys: "map_option jkeys (jget (tu_activeTurnsByAgent ?s) ''pk'') = Some [''b'', ''c'', ''d'', ''e'']"
    "tu_listeners ?s = []" by code_simp+
  then obtain turns where turns: "jget (tu_activeTurnsByAgent ?s) ''pk'' = Some turns" "jkeys turns = [''b'', ''c'', ''d'', ''e'']"
    by auto
  have "turns_reachable True compareStrings length_clock ?s" by (rule started_turns_reachable) simp
  note inv = turns_reachable_invariant [OF this]
  have "length turns \<le> MAX_TURNS_PER_AGENT" using conjunct1 [OF inv] turns(1) by simp
  moreover have "\<not> tu_pruneInterval ?s" using inv keys(2) by simp
  ultimately show ?thesis using turns by (intro exI [of _ turns] conjI)
qed

text \<open>
  The empty string as the id of the oldest turn defeats the cap: the eviction tests the oldest id for
  truth, finds the empty string and removes nothing.
\<close>

lemma empty_turn_id_exceeds_cap:
  "turns_reachable False compareStrings length_clock (started_turns [[], ''a'', ''b'', ''c'', ''d'']) \<and>
   MAX_TURNS_PER_AGENT < length (jget_or (tu_activeTurnsByAgent (started_turns [[], ''a'', ''b'', ''c'', ''d''])) ''pk'' [])"
proof
  show "turns_reachable False compareStrings length_clock (started_turns [[], ''a'', ''b'', ''c'', ''d''])"
    by (rule started_turns_reachable) simp
  show "MAX_TURNS_PER_AGENT < length (jget_or (tu_activeTurnsByAgent (started_turns [[], ''a'', ''b'', ''c'', ''d''])) ''pk'' [])"
    by code_simp
qed

text \<open>
  The cached summaries are never stale: in every reachable store, reading an agent's or the
  channels' active turns gives what the current turns and clock offsets determine.
\<close>

theorem turn_summaries_current:
  assumes "turns_reachable named lcmp dp s" and "pk \<noteq> []"
  shows "fst (getActiveTurnsForAgent lcmp (Some pk) s) = turnSummaries lcmp s (normalizePubkey pk) \<and>
    fst (getActiveTurnsByChannel lcmp s) = channelTurnSummaries lcmp s"
  using turns_wfD(2) [OF turns_reachable_wf [OF assms(1)]] assms(2)
  by (auto simp: getActiveTurnsForAgent_def getActiveTurnsByChannel_def cache_ok_def truthy_def
      turnSummaries_def earliestByChannel_def channelTurnSummaries_def channelSummaryMap_def
      split: option.splits)

theorem turn_summaries_current_witness:
  "fst (getActiveTurnsForAgent compareStrings (Some ''pk'') sample_turns) =
     turnSummaries compareStrings sample_turns (normalizePubkey ''pk'')"
  using turn_summaries_current [OF sample_turns_reachable, of "''pk''"] by simp

subsection \<open>Liveness and the prune pause\<close>

lemma shouldPausePrune_iff:
  "shouldPausePrune turns now \<longleftrightarrow>
     (\<exists>t\<in>set (jvals turns). 0 < at_lastActivityAt t \<and> now - at_lastActivityAt t < PRUNE_PAUSE_MAX_MS) \<and>
     (\<forall>t\<in>set (jvals turns). now - at_lastActivityAt t > FRAME_GAP_PAUSE_MS)"
proof -
  let ?A = "at_lastActivityAt ` set (jvals turns)"
  define m where "m = Max (insert 0 ?A)"
  have pause: "shouldPausePrune turns now \<longleftrightarrow> 0 < m \<and> now - m > FRAME_GAP_PAUSE_MS \<and> now - m < PRUNE_PAUSE_MAX_MS"
    by (simp only: shouldPausePrune_def Let_def max_activity m_def)
  have ub: "\<forall>a\<in>insert 0 ?A. a \<le> m" by (simp add: m_def)
  have mem: "m \<in> insert 0 ?A" unfolding m_def by (rule Max_in) auto
  show ?thesis
  proof
    assume p: "shouldPausePrune turns now"
    then have "m \<in> ?A" using mem pause by auto
    then obtain t where "t \<in> set (jvals turns)" "at_lastActivityAt t = m" by blast
    with p pause ub show "(\<exists>t\<in>set (jvals turns). 0 < at_lastActivityAt t \<and> now - at_lastActivityAt t < PRUNE_PAUSE_MAX_MS) \<and>
      (\<forall>t\<in>set (jvals turns). now - at_lastActivityAt t > FRAME_GAP_PAUSE_MS)" by fastforce
  next
    assume r: "(\<exists>t\<in>set (jvals turns). 0 < at_lastActivityAt t \<and> now - at_lastActivityAt t < PRUNE_PAUSE_MAX_MS) \<and>
      (\<forall>t\<in>set (jvals turns). now - at_lastActivityAt t > FRAME_GAP_PAUSE_MS)"
    then obtain t where t: "t \<in> set (jvals turns)" "0 < at_lastActivityAt t"
      "now - at_lastActivityAt t < PRUNE_PAUSE_MAX_MS" by blast
    then have le: "at_lastActivityAt t \<le> m" using ub by auto
    then have "m \<in> ?A" using mem t(2) by auto
    with r t le pause show "shouldPausePrune turns now" by auto
  qed
qed

text \<open>
  Pruning, exactly: a turn survives if it was active within \<open>REMOVE_AFTER_MS\<close>, or if all of
  its agent's turns have been silent for longer than the frame gap while the last of them was
  active less than \<open>PRUNE_PAUSE_MAX_MS\<close> ago (the agent's stream is down); no other turn does, and
  other agents have no influence.
\<close>

theorem pruneExpired_spec:
  assumes "turns_reachable named lcmp dp s"
  shows "(tid, turn) \<in> set (agentTurns (pruneExpired now s) key) \<longleftrightarrow>
    (tid, turn) \<in> set (agentTurns s key) \<and>
    (now - at_lastActivityAt turn \<le> REMOVE_AFTER_MS \<or>
     (\<exists>t\<in>set (jvals (agentTurns s key)). 0 < at_lastActivityAt t \<and> now - at_lastActivityAt t < PRUNE_PAUSE_MAX_MS) \<and>
     (\<forall>t\<in>set (jvals (agentTurns s key)). now - at_lastActivityAt t > FRAME_GAP_PAUSE_MS))"
  unfolding prune_turns [OF turns_reachable_wf [OF assms]] keptTurns_def shouldPausePrune_iff
  by (auto simp: expired_def)

theorem pruneExpired_spec_witness:
  "(''t'', \<lparr>at_turnId = ''t'', at_channelId = ''chan'', at_startedAt = 1, at_lastActivityAt = 5\<rparr>)
     \<in> set (agentTurns (pruneExpired 15000 sample_turns) (normalizePubkey ''pk''))"
proof -
  let ?t = "\<lparr>at_turnId = ''t'', at_channelId = ''chan'', at_startedAt = 1, at_lastActivityAt = 5\<rparr>"
  have "(''t'', ?t) \<in> set (agentTurns sample_turns (normalizePubkey ''pk''))"
    by code_simp
  then show ?thesis
    using pruneExpired_spec [OF sample_turns_reachable, of "''t''" ?t 15000 "normalizePubkey ''pk''"]
    by (simp add: REMOVE_AFTER_MS_def)
qed

subsection \<open>Completed turns stay completed\<close>

definition frame_kind :: "string \<Rightarrow> bool" where
  "frame_kind k = (k \<in> {''acp_read'', ''acp_write'', ''turn_liveness''})"

definition tombstone :: "turns_store \<Rightarrow> string \<Rightarrow> string \<Rightarrow> int option" where
  "tombstone s key tid = Option.bind (jget (tu_terminalAtByAgent s) key) (\<lambda>terminals. jget terminals tid)"

lemma agentTurns_start:
  "tid \<noteq> t \<Longrightarrow> jget (agentTurns s (normalizePubkey pk)) tid = None \<Longrightarrow>
   jget (agentTurns (startTurn dp now pk c t ts s) (normalizePubkey pk)) tid = None"
  by (auto simp: agentTurns_def startTurn_def jget_or_def turn_simps evictOldestTurn_def
      split: option.splits)

lemma sample_keeps:
  "tu_activeTurnsByAgent (snd (sampleClockOffset dp now k ts s)) = tu_activeTurnsByAgent s"
  "tu_terminalAtByAgent (snd (sampleClockOffset dp now k ts s)) = tu_terminalAtByAgent s"
  by (simp_all add: sampleClockOffset_def turn_simps split: option.splits)

lemma frame_tombstones:
  "frame_kind (oe_kind e) \<Longrightarrow> tu_terminalAtByAgent (processEvent dp now pk e s) = tu_terminalAtByAgent s"
  by (auto simp: processEvent_def processKind_def frame_kind_def case_prod_unfold sample_keeps turn_simps
      notifyTurnListeners_def recordActivity_def resurrectTurn_def startTurn_def split: option.splits)

lemma recordActivity_absent:
  "jget (agentTurns s (normalizePubkey pk)) tid = None \<Longrightarrow>
   jget (agentTurns (snd (recordActivity now pk t s)) (normalizePubkey pk)) tid = None"
  by (auto simp: recordActivity_def agentTurns_def jget_or_def split: option.splits)

lemma resurrect_absent:
  assumes "jget (agentTurns s (normalizePubkey pk)) tid = None"
    and "tombstone s (normalizePubkey pk) tid = Some T"
    and "oe_turnId e = Some tid \<Longrightarrow> (case dp (oe_timestamp e) of None \<Rightarrow> True | Some f \<Rightarrow> f \<le> T)"
  shows "jget (agentTurns (snd (resurrectTurn dp now pk e s)) (normalizePubkey pk)) tid = None"
proof (cases "oe_turnId e = Some tid")
  case True
  with assms show ?thesis by (auto simp: resurrectTurn_def tombstone_def split: option.splits)
next
  case False
  then have "tid \<noteq> the (oe_turnId e)" if "truthy (oe_turnId e)"
    using that by (auto simp: truthy_def split: option.splits)
  with assms(1) show ?thesis by (auto simp: resurrectTurn_def agentTurns_start)
qed

lemma frame_absent:
  assumes "frame_kind (oe_kind e)" and "jget (agentTurns s (normalizePubkey pk)) tid = None"
    and "tombstone s (normalizePubkey pk) tid = Some T"
    and "oe_turnId e = Some tid \<Longrightarrow> (case dp (oe_timestamp e) of None \<Rightarrow> True | Some f \<Rightarrow> f \<le> T)"
  shows "jget (agentTurns (processEvent dp now pk e s) (normalizePubkey pk)) tid = None"
proof -
  define s2 where "s2 = snd (sampleClockOffset dp now (normalizePubkey pk) (oe_timestamp e)
    (s\<lparr>tu_lastProcessed := jset (tu_lastProcessed s) (normalizePubkey pk) e\<rparr>))"
  have s2: "jget (agentTurns s2 (normalizePubkey pk)) tid = None" "tombstone s2 (normalizePubkey pk) tid = Some T"
    using assms(2,3) by (simp_all add: s2_def agentTurns_def tombstone_def sample_keeps)
  let ?a = "recordActivity now pk (oe_turnId e) s2"
  have t: "tombstone (snd ?a) (normalizePubkey pk) tid = Some T"
    using s2(2) by (auto simp: recordActivity_def tombstone_def split: option.splits)
  have "jget (agentTurns (snd (processKind dp now pk e s2)) (normalizePubkey pk)) tid = None"
    using assms(1,4) recordActivity_absent [OF s2(1)] resurrect_absent [OF recordActivity_absent [OF s2(1)] t]
    by (auto simp: processKind_def frame_kind_def case_prod_unfold)
  then show ?thesis
    using assms(2)
    by (simp add: processEvent_def case_prod_unfold s2_def [symmetric] agentTurns_def turn_simps)
qed

lemma frames_absent:
  assumes "list_all (\<lambda>e. frame_kind (oe_kind e) \<and> (oe_turnId e = Some tid \<longrightarrow>
      (case dp (oe_timestamp e) of None \<Rightarrow> True | Some f \<Rightarrow> f \<le> T))) frames"
    and "jget (agentTurns s (normalizePubkey pk)) tid = None"
    and "tombstone s (normalizePubkey pk) tid = Some T"
  shows "jget (agentTurns (syncAgentTurnsFromEvents dp now pk frames s) (normalizePubkey pk)) tid = None"
  using assms unfolding syncAgentTurnsFromEvents_def
  by (induction frames arbitrary: s) (simp_all add: frame_absent tombstone_def frame_tombstones)

lemma recordTerminal_tombstone:
  assumes "turns_wf named lcmp s"
  shows "tombstone (recordTerminal key tid (Some T) s) key tid = Some T"
proof -
  define ts where "ts = jget_or (tu_terminalAtByAgent s) key []"
  have ts: "length ts \<le> MAX_TERMINAL_TOMBSTONES"
    using turns_wfD(1) [OF assms] by (auto simp: maps_ok_def jget_or_def ts_def split: option.splits)
  have "fst (hd (jset ts tid T)) \<noteq> tid" if big: "length (jset ts tid T) > MAX_TERMINAL_TOMBSTONES"
  proof -
    have "\<not> jhas ts tid" using big ts by (auto simp: length_jset split: if_splits)
    moreover have "ts \<noteq> []" using big by (auto simp: MAX_TERMINAL_TOMBSTONES_def MAX_TURNS_PER_AGENT_def)
    ultimately show ?thesis by (cases ts) (auto simp: jset_absent jhas_def split: if_splits)
  qed
  then show ?thesis
    by (auto simp: tombstone_def recordTerminal_def ts_def [symmetric])
qed

lemma endTurn_result:
  assumes "turns_wf named lcmp s" and "tid \<noteq> []"
  shows "jget (agentTurns (endTurn pk (Some tid) c (Some T) s) (normalizePubkey pk)) tid = None"
    and "tombstone (endTurn pk (Some tid) c (Some T) s) (normalizePubkey pk) tid = Some T"
proof -
  let ?key = "normalizePubkey pk"
  define s1 where "s1 = recordTerminal ?key tid (Some T) s"
  have e: "endTurn pk (Some tid) c (Some T) s =
      (case jget (tu_activeTurnsByAgent s1) ?key of None \<Rightarrow> s1
       | Some turns \<Rightarrow> invalidateCache ?key (storeAgentTurns ?key (jdel turns tid) s1))"
    using assms(2) by (simp add: endTurn_def s1_def removeEndedTurn_def truthy_def split: option.splits)
  show "jget (agentTurns (endTurn pk (Some tid) c (Some T) s) ?key) tid = None"
    unfolding e by (auto simp: agentTurns_def jget_or_def turn_simps storeAgentTurns_def split: option.splits)
  have "tombstone s1 ?key tid = Some T" unfolding s1_def by (rule recordTerminal_tombstone [OF assms(1)])
  then show "tombstone (endTurn pk (Some tid) c (Some T) s) ?key tid = Some T"
    unfolding e by (simp add: tombstone_def turn_simps storeAgentTurns_def split: option.splits)
qed

definition terminal_kind :: "string \<Rightarrow> bool" where
  "terminal_kind k = (k \<in> {''turn_completed'', ''turn_error'', ''agent_panic''})"

lemma terminal_result:
  assumes "turns_wf named lcmp s" and "terminal_kind (oe_kind e)" and "oe_turnId e = Some tid" and "tid \<noteq> []"
    and "dp (oe_timestamp e) = Some T" and "jget (tu_lastProcessed s) (normalizePubkey pk) = None \<or>
      compareObserverEvents dp e (the (jget (tu_lastProcessed s) (normalizePubkey pk))) > 0"
  shows "jget (agentTurns (processEvent dp now pk e s) (normalizePubkey pk)) tid = None"
    and "tombstone (processEvent dp now pk e s) (normalizePubkey pk) tid = Some T"
proof -
  define s2 where "s2 = snd (sampleClockOffset dp now (normalizePubkey pk) (oe_timestamp e)
    (s\<lparr>tu_lastProcessed := jset (tu_lastProcessed s) (normalizePubkey pk) e\<rparr>))"
  have "cache_ok lcmp (s\<lparr>tu_lastProcessed := jset (tu_lastProcessed s) (normalizePubkey pk) e\<rparr>)"
    using turns_wfD(2) [OF assms(1)] by (rule cache_ok_cong) simp_all
  then have "turns_wf named lcmp (s\<lparr>tu_lastProcessed := jset (tu_lastProcessed s) (normalizePubkey pk) e\<rparr>)"
    using turns_wfD(1) [OF assms(1)] by (intro turns_wf_update [OF assms(1)]) simp_all
  then have wf: "turns_wf named lcmp s2" unfolding s2_def by (rule sample_wf)
  have kind: "snd (processKind dp now pk e s2) = endTurn pk (Some tid) (oe_channelId e) (Some T) s2"
    using assms(2,3,5) by (auto simp: processKind_def terminal_kind_def)
  have "processEvent dp now pk e s = snd (processKind dp now pk e s2) \<or>
      processEvent dp now pk e s = notifyTurnListeners (snd (processKind dp now pk e s2))"
    using assms(6) by (auto simp: processEvent_def case_prod_unfold s2_def split: option.splits)
  with endTurn_result [OF wf assms(4)] kind
  show "jget (agentTurns (processEvent dp now pk e s) (normalizePubkey pk)) tid = None"
    and "tombstone (processEvent dp now pk e s) (normalizePubkey pk) tid = Some T"
    by (auto simp: agentTurns_def tombstone_def notifyTurnListeners_def)
qed

text \<open>
  C19. A completed turn stays completed: once a fresh terminal event of a turn is processed, the
  turn is gone, and no stream or liveness frame of the turn that is not later than the terminal
  brings it back, whatever frames of other turns arrive in between.
\<close>

theorem completed_turn_stays_completed:
  assumes "turns_reachable named lcmp dp s" and "terminal_kind (oe_kind e)" and "oe_turnId e = Some tid"
    and "tid \<noteq> []" and "dp (oe_timestamp e) = Some T"
    and "jget (tu_lastProcessed s) (normalizePubkey pk) = None \<or>
      compareObserverEvents dp e (the (jget (tu_lastProcessed s) (normalizePubkey pk))) > 0"
    and "list_all (\<lambda>f. frame_kind (oe_kind f) \<and> (oe_turnId f = Some tid \<longrightarrow>
      (case dp (oe_timestamp f) of None \<Rightarrow> True | Some t \<Rightarrow> t \<le> T))) frames"
  shows "jget (agentTurns (syncAgentTurnsFromEvents dp now' pk frames (processEvent dp now pk e s))
    (normalizePubkey pk)) tid = None"
  using frames_absent [OF assms(7)] terminal_result [OF turns_reachable_wf [OF assms(1)] assms(2-6)] by blast

theorem completed_turn_stays_completed_witness:
  "jget (agentTurns (syncAgentTurnsFromEvents length_clock 9 ''pk'' [sample_event 3 ''xy'' ''turn_liveness'']
     (processEvent length_clock 8 ''pk'' (sample_event 2 ''xy'' ''turn_completed'') sample_turns))
     (normalizePubkey ''pk'')) ''t'' = None"
proof -
  have "jget (tu_lastProcessed sample_turns) (normalizePubkey ''pk'') = Some (sample_event 1 ''x'' ''turn_started'')"
    unfolding sample_turns_def process_lastProcessed by (simp add: emptyTurnsStore_def)
  then show ?thesis
    using completed_turn_stays_completed [OF sample_turns_reachable, of "sample_event 2 ''xy'' ''turn_completed''"
        "''t''" 2 "''pk''" "[sample_event 3 ''xy'' ''turn_liveness'']" 9 8]
    by (simp add: sample_event_def terminal_kind_def frame_kind_def length_clock_def compareObserverEvents_def)
qed

text \<open>
  Switching communities and back loses nothing but idle time: saving, resetting and restoring
  gives the same turns with their activity set to the restore time, and the same offsets, watermarks
  and tombstones; the snapshot is used up.
\<close>

theorem community_switch_roundtrip:
  assumes "tu_activeTurnsByAgent s \<noteq> [] \<or> tu_terminalAtByAgent s \<noteq> []"
  shows "let s' = restoreActiveAgentTurnsForCommunity now c
      (resetActiveAgentTurnsStore (saveActiveAgentTurnsForCommunity c s)) in
    tu_activeTurnsByAgent s' = refreshTurns now (tu_activeTurnsByAgent s) \<and>
    tu_clockOffsetByAgent s' = tu_clockOffsetByAgent s \<and> tu_lastProcessed s' = tu_lastProcessed s \<and>
    tu_terminalAtByAgent s' = tu_terminalAtByAgent s \<and> jget (tu_savedByCommunity s') c = None"
  using assms
  by (auto simp: restoreActiveAgentTurnsForCommunity_def resetActiveAgentTurnsStore_def notifyTurnListeners_def
      saveActiveAgentTurnsForCommunity_def)

theorem community_switch_roundtrip_witness:
  "tu_lastProcessed (restoreActiveAgentTurnsForCommunity 9 ''c''
     (resetActiveAgentTurnsStore (saveActiveAgentTurnsForCommunity ''c'' sample_turns))) =
   tu_lastProcessed sample_turns"
proof -
  have "tu_activeTurnsByAgent sample_turns \<noteq> []" by code_simp
  then show ?thesis using community_switch_roundtrip [of sample_turns 9 "''c''"] by simp
qed

subsection \<open>What the summaries say\<close>

lemma min_insert2: "finite S \<Longrightarrow> Min (insert a (insert t S)) = Min (insert (min a t) S)"
  by (cases "S = {}") (simp_all add: min.assoc)

lemma earliest_fold:
  assumes "jwf m"
  shows "jwf (fold (\<lambda>(c, t) m. if (case jget m c of None \<Rightarrow> True | Some prior \<Rightarrow> t < prior) then jset m c t else m) facts m) \<and>
    jget (fold (\<lambda>(c, t) m. if (case jget m c of None \<Rightarrow> True | Some prior \<Rightarrow> t < prior) then jset m c t else m) facts m) c =
      (let ts = (case jget m c of None \<Rightarrow> {} | Some t \<Rightarrow> {t}) \<union> {t. (c, t) \<in> set facts}
       in if ts = {} then None else Some (Min ts))"
  using assms
proof (induction facts arbitrary: m)
  case Nil
  then show ?case by (simp split: option.splits)
next
  case (Cons f facts)
  obtain c' t where f: "f = (c', t)" by fastforce
  let ?m = "if (case jget m c' of None \<Rightarrow> True | Some prior \<Rightarrow> t < prior) then jset m c' t else m"
  have wf: "jwf ?m" using Cons.prems by simp
  have fin: "finite {t. (c, t) \<in> set facts}"
    by (rule finite_subset [of _ "snd ` set facts"]) force+
  have "(case jget ?m c of None \<Rightarrow> {} | Some t \<Rightarrow> {t}) \<union> {t. (c, t) \<in> set facts} = {} \<longleftrightarrow>
      (case jget m c of None \<Rightarrow> {} | Some t \<Rightarrow> {t}) \<union> {t. (c, t) \<in> set (f # facts)} = {}"
    by (auto simp: f split: option.splits)
  moreover have "Min ((case jget ?m c of None \<Rightarrow> {} | Some t \<Rightarrow> {t}) \<union> {t. (c, t) \<in> set facts}) =
      Min ((case jget m c of None \<Rightarrow> {} | Some t \<Rightarrow> {t}) \<union> {t. (c, t) \<in> set (f # facts)})"
  proof (cases "c = c'")
    case True
    have split: "{u. (c, u) \<in> set (f # facts)} = insert t {u. (c, u) \<in> set facts}" using True by (auto simp: f)
    define S where "S = {u. (c, u) \<in> set facts}"
    have S: "finite S" using fin by (simp add: S_def)
    show ?thesis
    proof (cases "jget m c'")
      case (Some a)
      have "(if t < a then t else a) = min a t" by (auto simp: min_def)
      then have "Min (insert (if t < a then t else a) S) = Min (insert a (insert t S))"
        by (simp only: min_insert2 [OF S])
      then have "Min (insert (if t < a then t else a) S) = Min (insert t (insert a S))"
        by (simp only: insert_commute)
      with Some True show ?thesis unfolding split S_def [symmetric] by (simp split: if_splits)
    next
      case None
      with True show ?thesis unfolding split S_def [symmetric] by simp
    qed
  next
    case False
    then have "{u. (c, u) \<in> set (f # facts)} = {u. (c, u) \<in> set facts}" by (auto simp: f)
    with False show ?thesis by simp
  qed
  ultimately show ?case using Cons.IH [OF wf] by (simp only: f fold.simps comp_def split Let_def)
qed

lemma jget_earliest:
  "jget (earliestByChannel turns) c =
     (let ts = {at_startedAt t | t. t \<in> set (jvals turns) \<and> at_channelId t = c}
      in if ts = {} then None else Some (Min ts))" and jwf_earliest: "jwf (earliestByChannel turns)"
proof -
  have "{t. (c, t) \<in> set (turnFacts turns)} = {at_startedAt t | t. t \<in> set (jvals turns) \<and> at_channelId t = c}"
    by (auto simp: turnFacts_def)
  then show "jget (earliestByChannel turns) c =
     (let ts = {at_startedAt t | t. t \<in> set (jvals turns) \<and> at_channelId t = c}
      in if ts = {} then None else Some (Min ts))" and "jwf (earliestByChannel turns)"
    using earliest_fold [of "[]" "turnFacts turns" c] by (simp_all add: earliest_facts)
qed

text \<open>
  The badges of an agent: one summary per channel with an active turn and none else, anchored
  to the earliest start of the channel's turns, translated by the agent's clock offset.
\<close>

theorem turnSummaries_spec:
  "distinct (map su_channelId (turnSummaries lcmp s key)) \<and>
   set (turnSummaries lcmp s key) =
     {\<lparr>su_channelId = c,
       su_anchorAt = Min {at_startedAt t | t. t \<in> set (jvals (agentTurns s key)) \<and> at_channelId t = c} +
         jget_or (tu_clockOffsetByAgent s) key 0\<rparr>
      | c. c \<in> at_channelId ` set (jvals (agentTurns s key))}"
proof -
  let ?e = "earliestByChannel (agentTurns s key)" and ?off = "jget_or (tu_clockOffsetByAgent s) key 0"
  define C where "C = at_channelId ` set (jvals (agentTurns s key))"
  define M where "M c = Min {at_startedAt t | t. t \<in> set (jvals (agentTurns s key)) \<and> at_channelId t = c}" for c
  have mem: "(c, t) \<in> set ?e \<longleftrightarrow> c \<in> C \<and> t = M c" for c t
    unfolding jget_in_set [OF jwf_earliest, symmetric] jget_earliest Let_def M_def C_def
    by (auto simp: image_iff)
  have "set (turnSummaries lcmp s key) = (\<lambda>(c, t). \<lparr>su_channelId = c, su_anchorAt = t + ?off\<rparr>) ` set ?e"
    by (simp add: turnSummaries_def agentTurns_def [symmetric])
  also have "set ?e = (\<lambda>c. (c, M c)) ` C" using mem by auto
  finally have "set (turnSummaries lcmp s key) = {\<lparr>su_channelId = c, su_anchorAt = M c + ?off\<rparr> | c. c \<in> C}"
    by (simp add: image_image Setcompr_eq_image)
  moreover have "distinct (map su_channelId (turnSummaries lcmp s key))"
    using jwf_earliest [of "agentTurns s key"]
    by (simp add: turnSummaries_def agentTurns_def [symmetric] jwf_def comp_def case_prod_unfold)
  ultimately show ?thesis unfolding C_def M_def by blast
qed

subsection \<open>The turn store announces what it changes\<close>

definition same_log :: "turns_store \<Rightarrow> turns_store \<Rightarrow> bool" where
  "same_log s s' \<longleftrightarrow> tu_listeners s' = tu_listeners s \<and> tu_notified s' = tu_notified s"

lemma same_log_parts:
  "same_log s (invalidateCache k s)"
  "same_log s (storeAgentTurns k ts s)"
  "same_log s (startTurn dp now pk c t stamp s)"
  "same_log s (recordTerminal k t at s)"
  "same_log s (snd (recordActivity now pk tid s))"
  "same_log s (snd (sampleClockOffset dp now k stamp s))"
  by (auto simp: same_log_def invalidateCache_def storeAgentTurns_def startTurn_def recordTerminal_def
      recordActivity_def sampleClockOffset_def split: option.splits)

lemma same_log_trans: "same_log s s' \<Longrightarrow> same_log s' s'' \<Longrightarrow> same_log s s''"
  by (simp add: same_log_def)

lemma same_log_kind: "same_log s (snd (processKind dp now pk e s))"
proof -
  have "same_log s (endTurn pk t c at s)" for t c at
    by (auto simp: endTurn_def removeEndedTurn_def same_log_def invalidateCache_def storeAgentTurns_def
        recordTerminal_def split: option.splits prod.splits)
  moreover have "same_log s' (snd (resurrectTurn dp now pk e s'))" for s'
    using same_log_parts(3) by (auto simp: resurrectTurn_def same_log_def split: option.splits)
  ultimately show ?thesis
    using same_log_parts(3,5) same_log_trans
    by (auto simp: processKind_def case_prod_unfold same_log_def split: option.splits)
qed

lemma recordActivity_facts: "same_facts s (snd (recordActivity now pk t s))"
proof -
  have "same_facts s (s\<lparr>tu_activeTurnsByAgent := jset (tu_activeTurnsByAgent s) k
      (jset turns tid (turn\<lparr>at_lastActivityAt := now\<rparr>))\<rparr>)"
    if "jget (tu_activeTurnsByAgent s) k = Some turns" "jget turns tid = Some turn" for k turns tid turn
    using that jset_same_facts [OF that(2), of "turn\<lparr>at_lastActivityAt := now\<rparr>"]
    by (simp add: same_facts_def map_jset_same)
  moreover have "same_facts s s" by (simp add: same_facts_def)
  ultimately show ?thesis by (auto simp: recordActivity_def split: option.splits)
qed

lemma kind_silent: "\<not> fst (processKind dp now pk e s) \<Longrightarrow> same_facts s (snd (processKind dp now pk e s))"
  using recordActivity_facts [of s now pk "oe_turnId e"]
  by (auto simp: processKind_def case_prod_unfold resurrectTurn_def same_facts_def split: if_splits option.splits)

lemma processEvent_announces:
  "same_facts s (processEvent dp now pk e s) \<and> same_log s (processEvent dp now pk e s) \<or>
   tu_listeners (processEvent dp now pk e s) = tu_listeners s \<and>
   tu_notified (processEvent dp now pk e s) = tu_notified s @ tu_listeners s"
proof -
  let ?s1 = "s\<lparr>tu_lastProcessed := jset (tu_lastProcessed s) (normalizePubkey pk) e\<rparr>"
  let ?sample = "sampleClockOffset dp now (normalizePubkey pk) (oe_timestamp e) ?s1"
  let ?kind = "processKind dp now pk e (snd ?sample)"
  have log: "same_log s (snd ?kind)"
    using same_log_parts(6) [of ?s1] same_log_kind [of "snd ?sample"] by (simp add: same_log_def)
  have "snd ?sample = ?s1" if "\<not> fst ?sample"
    using that by (auto simp: sampleClockOffset_def split: option.splits if_splits)
  then have quiet: "same_facts s (snd ?kind)" if "\<not> fst ?sample" "\<not> fst ?kind"
    using kind_silent [OF that(2)] that(1) by (simp add: same_facts_def)
  have "same_facts s s" "same_log s s" by (simp_all add: same_facts_def same_log_def)
  then show ?thesis
    using log quiet by (auto simp: processEvent_def case_prod_unfold notifyTurnListeners_def same_log_def)
qed

lemma prune_announces:
  assumes "turns_wf named lcmp s"
  shows "pruneExpired now s = s \<or>
    tu_listeners (pruneExpired now s) = tu_listeners s \<and> tu_notified (pruneExpired now s) = tu_notified s @ tu_listeners s"
proof -
  have f: "same_log s (snd (fold (pruneAgent now) entries (changed, s))) \<and>
      (\<not> fst (fold (pruneAgent now) entries (changed, s)) \<longrightarrow> snd (fold (pruneAgent now) entries (changed, s)) = s)"
    if "\<forall>(key, turns)\<in>set entries. jget (tu_activeTurnsByAgent s) key = Some turns \<and> turns \<noteq> []"
      "distinct (map fst entries)" for entries changed and s :: turns_store
    using that
  proof (induction entries arbitrary: s changed)
    case (Cons entry entries)
    obtain key turns where e: "entry = (key, turns)" by fastforce
    then have j: "jget (tu_activeTurnsByAgent s) key = Some turns" "turns \<noteq> []" using Cons.prems(1) by auto
    show ?case
    proof (cases "keptTurns now turns = turns")
      case True
      with Cons j show ?thesis by (simp add: e pruneAgent_cases [OF j])
    next
      case False
      let ?s = "invalidateCache key (storeAgentTurns key (keptTurns now turns) s)"
      have get: "jget (tu_activeTurnsByAgent ?s) k = jget (tu_activeTurnsByAgent s) k" if "k \<noteq> key" for k
        using that by (simp add: turn_simps storeAgentTurns_def)
      have "\<forall>(k, t)\<in>set entries. jget (tu_activeTurnsByAgent ?s) k = Some t \<and> t \<noteq> []"
      proof
        fix x assume x: "x \<in> set entries"
        then have "fst x \<noteq> key" using Cons.prems(2) by (auto simp: e)
        with get [of "fst x"] show "case x of (k, t) \<Rightarrow> jget (tu_activeTurnsByAgent ?s) k = Some t \<and> t \<noteq> []"
          using Cons.prems(1) x by (auto simp: e)
      qed
      note ih = Cons.IH [OF this, of True]
      have "same_log s ?s" using same_log_parts(1,2) same_log_trans by blast
      moreover have "fst (fold (pruneAgent now) es (True, s'))" for es s'
        by (induction es arbitrary: s') (auto simp: pruneAgent_def case_prod_unfold)
      ultimately show ?thesis
        using ih Cons.prems(2) False same_log_trans by (auto simp: e pruneAgent_cases [OF j])
    qed
  qed (simp add: same_log_def)
  have "\<forall>(key, turns)\<in>set (tu_activeTurnsByAgent s). jget (tu_activeTurnsByAgent s) key = Some turns \<and> turns \<noteq> []"
    using turns_wfD(1,3) [OF assms] unfolding maps_ok_def agent_turns_ok_def by (auto simp: jget_in_set)
  from f [OF this] turns_wfD(3) [OF assms] show ?thesis
    by (auto simp: pruneExpired_def case_prod_unfold notifyTurnListeners_def same_log_def jwf_def)
qed

text \<open>Every step changes neither summaries nor log, or calls all listeners.\<close>

lemma turn_step_announces:
  assumes "turn_step named lcmp dp s s'" and "turns_wf named lcmp s"
  shows "same_facts s s' \<and> tu_notified s' = tu_notified s \<or> tu_notified s' = tu_notified s @ tu_listeners s"
  using assms
proof (induction rule: turn_step.induct)
  case (turn_event e s now pk)
  then show ?case using processEvent_announces [of s dp now pk e] by (auto simp: same_log_def)
next
  case (turn_prune s now)
  then show ?case using prune_announces [of named lcmp s now] by (auto simp: same_facts_def)
next
  case (turn_read s pk)
  then show ?case by (auto simp: getActiveTurnsForAgent_def same_facts_def split: option.splits)
next
  case (turn_read_channels s)
  then show ?case by (auto simp: getActiveTurnsByChannel_def same_facts_def split: option.splits)
qed (auto simp: same_facts_def subscribeActiveAgentTurns_def unsubscribeActiveAgentTurns_def
    resetActiveAgentTurnsStore_def saveActiveAgentTurnsForCommunity_def notifyTurnListeners_def
    restoreActiveAgentTurnsForCommunity_def clearSavedCommunitySnapshot_def split: option.splits)

interpretation turns: announcer "turn_step named lcmp dp" "turns_wf named lcmp" tu_listeners tu_notified
    "\<lambda>s. (turnSummaries lcmp s, channelTurnSummaries lcmp s)" for lcmp dp
proof unfold_locales
  fix s s' l
  assume wf: "turns_wf named lcmp s" and step: "turn_step named lcmp dp s s'"
  from step wf show "turns_wf named lcmp s'" by (rule turn_step_wf)
  note cases = turn_step_announces [OF step wf]
  then show "\<exists>calls. tu_notified s' = tu_notified s @ calls" by auto
  show "l \<in> set (drop (length (tu_notified s)) (tu_notified s'))"
    if "(turnSummaries lcmp s', channelTurnSummaries lcmp s') \<noteq> (turnSummaries lcmp s, channelTurnSummaries lcmp s)"
      "l \<in> set (tu_listeners s)"
    using cases that same_facts_summaries [of s s' lcmp] by auto
qed

end
