(* ===== verification/WorkingSignal.thy ===== *)
theory WorkingSignal
  imports ActiveTurns
begin

text \<open>
  The unified "agent is working" signal (\<open>features/agents/agentWorkingSignal.ts\<close>). It merges the
  active turns of \<open>ActiveTurns\<close> with a registry of bot typing indicators, and keeps three caches
  of what it answered. The module state is \<open>working_store\<close>; \<open>signal_state\<close> pairs it with the
  store of turns it subscribes to. While the signal has listeners of its own, its \<open>notify\<close> is the
  listener \<open>WORKING_NOTIFY\<close> of the turn store: a call the turn store makes to it (an entry its log
  gains) runs \<open>notify\<close> here.
\<close>

subsection \<open>Data\<close>

datatype working_source = FromObserver | FromTyping | FromNone

record working_channel =
  wc_channelId :: string
  wc_anchorAt :: int
  wc_source :: working_source

record working_state =
  wk_working :: bool
  wk_source :: working_source
  wk_channels :: "working_channel list"

text \<open>The anchor \<open>None\<close> is \<open>Number.POSITIVE_INFINITY\<close>, the minimum over no typing agent.\<close>

record working_summary =
  wy_channelId :: string
  wy_anchorAt :: "int option"
  wy_agentCount :: nat
  wy_agentPubkeys :: "string list"
  wy_source :: working_source

definition IDLE_STATE :: working_state where
  "IDLE_STATE = \<lparr>wk_working = False, wk_source = FromNone, wk_channels = []\<rparr>"

type_synonym typing_map = "(string, (string, int) jsmap) jsmap"

record working_store =
  ws_typingByChannel :: typing_map
  ws_listeners :: "nat list"
  ws_unsubscribeTurns :: bool
  ws_stateCache :: "(string, working_state) jsmap"
  ws_channelsCache :: "working_summary list option"
  ws_channelPubkeysCache :: "(string, string list) jsmap"
  ws_notified :: "nat list"

record signal_state =
  sg_turns :: turns_store
  sg_work :: working_store

definition WORKING_NOTIFY :: nat where "WORKING_NOTIFY = 0"

definition emptySignal :: signal_state where
  "emptySignal =
     \<lparr>sg_turns = emptyTurnsStore,
      sg_work = \<lparr>ws_typingByChannel = [], ws_listeners = [], ws_unsubscribeTurns = False, ws_stateCache = [],
        ws_channelsCache = None, ws_channelPubkeysCache = [], ws_notified = []\<rparr>\<rparr>"

subsection \<open>Notification\<close>

definition invalidateCaches :: "working_store \<Rightarrow> working_store" where
  "invalidateCaches w = w\<lparr>ws_stateCache := [], ws_channelsCache := None, ws_channelPubkeysCache := []\<rparr>"

definition notifyWorking :: "working_store \<Rightarrow> working_store" where
  "notifyWorking w = (let w1 = invalidateCaches w in w1\<lparr>ws_notified := ws_notified w1 @ ws_listeners w1\<rparr>)"

definition subscribeAgentWorkingSignal :: "nat \<Rightarrow> signal_state \<Rightarrow> signal_state" where
  "subscribeAgentWorkingSignal listener st =
     (let w1 = (sg_work st)\<lparr>ws_listeners := sadd (ws_listeners (sg_work st)) listener\<rparr> in
      if length (ws_listeners w1) = 1
      then st\<lparr>sg_turns := subscribeActiveAgentTurns WORKING_NOTIFY (sg_turns st),
              sg_work := (invalidateCaches w1)\<lparr>ws_unsubscribeTurns := True\<rparr>\<rparr>
      else st\<lparr>sg_work := w1\<rparr>)"

definition unsubscribeAgentWorkingSignal :: "nat \<Rightarrow> signal_state \<Rightarrow> signal_state" where
  "unsubscribeAgentWorkingSignal listener st =
     (let w1 = (sg_work st)\<lparr>ws_listeners := removeAll listener (ws_listeners (sg_work st))\<rparr> in
      if ws_listeners w1 = []
      then st\<lparr>sg_turns := (if ws_unsubscribeTurns w1 then unsubscribeActiveAgentTurns WORKING_NOTIFY (sg_turns st)
                           else sg_turns st),
              sg_work := w1\<lparr>ws_unsubscribeTurns := False\<rparr>\<rparr>
      else st\<lparr>sg_work := w1\<rparr>)"

subsection \<open>The typing registry\<close>

definition nextTyping ::
  "int \<Rightarrow> (string, int) jsmap option \<Rightarrow> string list \<Rightarrow> (string, int) jsmap" where
  "nextTyping now current pubkeys =
     fold (\<lambda>pubkey nxt.
         let key = normalizePubkey pubkey in
         jset nxt key (case Option.bind current (\<lambda>c. jget c key) of Some since \<Rightarrow> since | None \<Rightarrow> now))
       pubkeys []"

definition typingUnchanged :: "(string, int) jsmap option \<Rightarrow> (string, int) jsmap \<Rightarrow> bool" where
  "typingUnchanged current nxt \<longleftrightarrow>
     (case current of None \<Rightarrow> 0 | Some c \<Rightarrow> length c) = length nxt \<and>
     list_all (\<lambda>key. case current of None \<Rightarrow> False | Some c \<Rightarrow> jhas c key) (jkeys nxt)"

definition reportChannelBotTyping :: "int \<Rightarrow> string \<Rightarrow> string list \<Rightarrow> working_store \<Rightarrow> working_store" where
  "reportChannelBotTyping now channelId pubkeys w =
     (let current = jget (ws_typingByChannel w) channelId;
          nxt = nextTyping now current pubkeys
      in if typingUnchanged current nxt then w
         else notifyWorking (w\<lparr>ws_typingByChannel :=
                (if nxt = [] then jdel (ws_typingByChannel w) channelId
                 else jset (ws_typingByChannel w) channelId nxt)\<rparr>))"

subsection \<open>The state of one agent\<close>

definition typingChannels :: "string \<Rightarrow> string list \<Rightarrow> typing_map \<Rightarrow> working_channel list" where
  "typingChannels key observerChannelIds typing =
     concat (map (\<lambda>(typingChannelId, entries).
         if typingChannelId \<in> set observerChannelIds then []
         else case jget entries key of
                None \<Rightarrow> []
              | Some since \<Rightarrow>
                  [\<lparr>wc_channelId = typingChannelId, wc_anchorAt = since, wc_source = FromTyping\<rparr>])
       typing)"

definition scopedSource :: "string option \<Rightarrow> working_channel list \<Rightarrow> working_source" where
  "scopedSource channelId channels =
     (let scoped = (case channelId of
            None \<Rightarrow> channels
          | Some c \<Rightarrow> filter (\<lambda>channel. wc_channelId channel = c) channels)
      in if list_ex (\<lambda>channel. wc_source channel = FromObserver) scoped then FromObserver
         else if length scoped > 0 then FromTyping else FromNone)"

definition mergeWorkingState ::
  "(string \<Rightarrow> string \<Rightarrow> int) \<Rightarrow> string \<Rightarrow> string option \<Rightarrow> typing_map \<Rightarrow> turn_summary list \<Rightarrow> working_state" where
  "mergeWorkingState lcmp key channelId typing turns =
     (let observed = map (\<lambda>turn. \<lparr>wc_channelId = su_channelId turn, wc_anchorAt = su_anchorAt turn,
                                  wc_source = FromObserver\<rparr>) turns;
          channels = observed @ typingChannels key (map su_channelId turns) typing
      in if channels = [] then IDLE_STATE
         else
           let sorted_channels = js_sort (\<lambda>a b. lcmp (wc_channelId a) (wc_channelId b)) channels;
               source = scopedSource channelId sorted_channels
           in \<lparr>wk_working = (source \<noteq> FromNone), wk_source = source, wk_channels = sorted_channels\<rparr>)"

definition computeAgentWorkingState ::
  "(string \<Rightarrow> string \<Rightarrow> int) \<Rightarrow> string \<Rightarrow> string option \<Rightarrow> signal_state \<Rightarrow> working_state \<times> signal_state" where
  "computeAgentWorkingState lcmp agentPubkey channelId st =
     (let key = normalizePubkey agentPubkey in
      case getActiveTurnsForAgent lcmp (Some key) (sg_turns st) of
        (turns, t') \<Rightarrow>
          (mergeWorkingState lcmp key channelId (ws_typingByChannel (sg_work st)) turns, st\<lparr>sg_turns := t'\<rparr>))"

definition workingCacheKey :: "string \<Rightarrow> string option \<Rightarrow> string" where
  "workingCacheKey agentPubkey channelId =
     normalizePubkey agentPubkey @ ''|'' @ (case channelId of None \<Rightarrow> [] | Some c \<Rightarrow> c)"

definition getAgentWorkingState ::
  "(string \<Rightarrow> string \<Rightarrow> int) \<Rightarrow> string option \<Rightarrow> string option \<Rightarrow> signal_state \<Rightarrow> working_state \<times> signal_state" where
  "getAgentWorkingState lcmp agentPubkey channelId st =
     (if \<not> truthy agentPubkey then (IDLE_STATE, st)
      else
        let cacheKey = workingCacheKey (the agentPubkey) channelId in
        case jget (ws_stateCache (sg_work st)) cacheKey of
          Some cached \<Rightarrow> (cached, st)
        | None \<Rightarrow>
            (case computeAgentWorkingState lcmp (the agentPubkey) channelId st of
               (state, st') \<Rightarrow>
                 (state, st'\<lparr>sg_work := (sg_work st')\<lparr>ws_stateCache :=
                    jset (ws_stateCache (sg_work st')) cacheKey state\<rparr>\<rparr>)))"

subsection \<open>The working channels\<close>

definition observerSummary :: "channel_turn_summary \<Rightarrow> working_summary" where
  "observerSummary summary =
     \<lparr>wy_channelId = cs_channelId summary, wy_anchorAt = Some (cs_anchorAt summary),
      wy_agentCount = cs_agentCount summary, wy_agentPubkeys = cs_agentPubkeys summary,
      wy_source = FromObserver\<rparr>"

definition earliestSince :: "(string, int) jsmap \<Rightarrow> int option" where
  "earliestSince entries =
     fold (\<lambda>since anchorAt. if (case anchorAt of None \<Rightarrow> True | Some a \<Rightarrow> since < a) then Some since else anchorAt)
       (jvals entries) None"

definition mergeTypingChannel ::
  "string \<times> (string, int) jsmap \<Rightarrow> (string, working_summary) jsmap \<Rightarrow> (string, working_summary) jsmap" where
  "mergeTypingChannel entry byChannel =
     (case entry of (channelId, entries) \<Rightarrow>
        case jget byChannel channelId of
          Some existing \<Rightarrow>
            (let known = map normalizePubkey (wy_agentPubkeys existing);
                 merged = wy_agentPubkeys existing @ filter (\<lambda>pubkey. pubkey \<notin> set known) (jkeys entries)
             in if length merged \<noteq> length (wy_agentPubkeys existing)
                then jset byChannel channelId
                       (existing\<lparr>wy_agentPubkeys := merged, wy_agentCount := length merged\<rparr>)
                else byChannel)
        | None \<Rightarrow>
            jset byChannel channelId
              \<lparr>wy_channelId = channelId, wy_anchorAt = earliestSince entries, wy_agentCount = length entries,
               wy_agentPubkeys = jkeys entries, wy_source = FromTyping\<rparr>)"

definition mergeWorkingChannels ::
  "(string \<Rightarrow> string \<Rightarrow> int) \<Rightarrow> typing_map \<Rightarrow> channel_turn_summary list \<Rightarrow> working_summary list" where
  "mergeWorkingChannels lcmp typing summaries =
     (let byChannel = fold (\<lambda>summary m. jset m (cs_channelId summary) (observerSummary summary)) summaries []
      in js_sort (\<lambda>a b. lcmp (wy_channelId a) (wy_channelId b))
           (jvals (fold mergeTypingChannel typing byChannel)))"

definition getWorkingChannels ::
  "(string \<Rightarrow> string \<Rightarrow> int) \<Rightarrow> signal_state \<Rightarrow> working_summary list \<times> signal_state" where
  "getWorkingChannels lcmp st =
     (case ws_channelsCache (sg_work st) of
        Some cached \<Rightarrow> (cached, st)
      | None \<Rightarrow>
          (case getActiveTurnsByChannel lcmp (sg_turns st) of
             (summaries, t') \<Rightarrow>
               (let result = mergeWorkingChannels lcmp (ws_typingByChannel (sg_work st)) summaries in
                (result, st\<lparr>sg_turns := t', sg_work := (sg_work st)\<lparr>ws_channelsCache := Some result\<rparr>\<rparr>))))"

subsection \<open>The working agents of a channel\<close>

definition mergeChannelPubkeys ::
  "string \<Rightarrow> typing_map \<Rightarrow> channel_turn_summary list \<Rightarrow> string list" where
  "mergeChannelPubkeys channelId typing summaries =
     (let observed = concat (map (\<lambda>summary.
              if cs_channelId summary \<noteq> channelId then [] else map normalizePubkey (cs_agentPubkeys summary)) summaries);
          typed = (case jget typing channelId of None \<Rightarrow> [] | Some entries \<Rightarrow> jkeys entries)
      in js_sort compareStrings (fold (\<lambda>pubkey merged. sadd merged pubkey) (observed @ typed) []))"

definition getWorkingAgentPubkeysForChannel ::
  "(string \<Rightarrow> string \<Rightarrow> int) \<Rightarrow> string option \<Rightarrow> signal_state \<Rightarrow> string list \<times> signal_state" where
  "getWorkingAgentPubkeysForChannel lcmp channelId st =
     (if \<not> truthy channelId then ([], st)
      else
        case jget (ws_channelPubkeysCache (sg_work st)) (the channelId) of
          Some cached \<Rightarrow> (cached, st)
        | None \<Rightarrow>
            (case getActiveTurnsByChannel lcmp (sg_turns st) of
               (summaries, t') \<Rightarrow>
                 (let result = mergeChannelPubkeys (the channelId) (ws_typingByChannel (sg_work st)) summaries in
                  (result, st\<lparr>sg_turns := t', sg_work := (sg_work st)\<lparr>ws_channelPubkeysCache :=
                     jset (ws_channelPubkeysCache (sg_work st)) (the channelId) result\<rparr>\<rparr>))))"

definition resetAgentWorkingSignal :: "working_store \<Rightarrow> working_store" where
  "resetAgentWorkingSignal w = notifyWorking (w\<lparr>ws_typingByChannel := []\<rparr>)"

text \<open>
  What happens here when the turn store goes from \<open>t\<close> to \<open>t'\<close>: \<open>notify\<close> runs once for each call the
  turn store made to it.
\<close>

definition turnCalls :: "turns_store \<Rightarrow> turns_store \<Rightarrow> nat list" where
  "turnCalls t t' = filter (\<lambda>l. l = WORKING_NOTIFY) (drop (length (tu_notified t)) (tu_notified t'))"

definition onTurns :: "turns_store \<Rightarrow> signal_state \<Rightarrow> signal_state" where
  "onTurns t' st =
     st\<lparr>sg_turns := t', sg_work := fold (\<lambda>_. notifyWorking) (turnCalls (sg_turns st) t') (sg_work st)\<rparr>"

subsection \<open>Agents are keyed by normalised pubkeys\<close>

definition normalKeys :: "(string, turn_map) jsmap \<Rightarrow> bool" where
  "normalKeys m \<longleftrightarrow> (\<forall>k\<in>set (jkeys m). normalizePubkey k = k)"

definition keys_normal :: "turns_store \<Rightarrow> bool" where
  "keys_normal s \<longleftrightarrow> normalKeys (tu_activeTurnsByAgent s) \<and>
     (\<forall>c snap. jget (tu_savedByCommunity s) c = Some snap \<longrightarrow> normalKeys (sn_turns snap))"

lemma normalKeys_update: "normalKeys m \<Longrightarrow> normalizePubkey k = k \<Longrightarrow> normalKeys (jset m k v)"
  by (simp add: normalKeys_def jkeys_jset del: set_map)

lemma normalKeys_delete: "normalKeys m \<Longrightarrow> normalKeys (jdel m k)"
  by (auto simp: normalKeys_def AList.delete_eq)

lemma normalKeys_store:
  "keys_normal s \<Longrightarrow> normalizePubkey k = k \<Longrightarrow> keys_normal (storeAgentTurns k ts s)"
  by (simp add: keys_normal_def storeAgentTurns_def normalKeys_update normalKeys_delete)

lemma keys_normal_cong:
  "keys_normal s \<Longrightarrow> tu_activeTurnsByAgent s' = tu_activeTurnsByAgent s \<Longrightarrow>
   tu_savedByCommunity s' = tu_savedByCommunity s \<Longrightarrow> keys_normal s'"
  by (simp add: keys_normal_def)

lemma keys_normal_parts:
  assumes "keys_normal s"
  shows "keys_normal (invalidateCache k s)" "keys_normal (recordTerminal k t at s)"
    "keys_normal (notifyTurnListeners s)" "keys_normal (startTurn dp now pk c t stamp s)"
    "keys_normal (snd (recordActivity now pk tid s))" "keys_normal (snd (sampleClockOffset dp now k stamp s))"
proof -
  show "keys_normal (startTurn dp now pk c t stamp s)" "keys_normal (snd (recordActivity now pk tid s))"
    using assms
    by (auto simp: keys_normal_def startTurn_def recordActivity_def turn_simps normalKeys_update split: option.splits)
qed (rule keys_normal_cong [OF assms]; auto simp: turn_simps notifyTurnListeners_def sampleClockOffset_def split: option.splits)+

lemma keys_normal_kind:
  assumes "keys_normal s"
  shows "keys_normal (snd (processKind dp now pk e s))"
proof -
  have "keys_normal s2" if "removeEndedTurn k t c at ts s1 = (ts', s2)" "keys_normal s1" for k t c at ts s1 ts' s2
    using that keys_normal_parts(2) by (auto simp: removeEndedTurn_def split: if_splits option.splits)
  then have "keys_normal (endTurn pk t c at s)" for t c at
    using assms
    by (auto simp: endTurn_def keys_normal_parts normalKeys_store split: option.splits prod.splits)
  moreover have "keys_normal (snd (resurrectTurn dp now pk e s'))" if "keys_normal s'" for s'
    using that by (auto simp: resurrectTurn_def keys_normal_parts split: option.splits)
  ultimately show ?thesis
    using assms keys_normal_parts(4,5) [OF assms]
    by (auto simp: processKind_def case_prod_unfold split: option.splits)
qed

lemma keys_normal_prune:
  assumes "keys_normal s"
  shows "keys_normal (pruneExpired now s)"
proof -
  have "keys_normal (snd (fold (pruneAgent now) entries (changed, s)))"
    if "\<forall>k\<in>set (map fst entries). normalizePubkey k = k" "keys_normal s" for entries changed s
    using that
    by (induction entries arbitrary: s changed)
      (auto simp: pruneAgent_def normalKeys_store keys_normal_parts)
  moreover have "\<forall>k\<in>set (map fst (tu_activeTurnsByAgent s)). normalizePubkey k = k"
    using assms unfolding keys_normal_def normalKeys_def by blast
  ultimately have "keys_normal (snd (fold (pruneAgent now) (tu_activeTurnsByAgent s) (False, s)))"
    using assms by blast
  then show ?thesis by (simp add: pruneExpired_def case_prod_unfold keys_normal_parts)
qed

lemma normalKeys_refresh: "normalKeys (refreshTurns now m) = normalKeys m"
  by (simp add: normalKeys_def refreshTurns_def comp_def case_prod_unfold)

lemma keys_normal_step:
  assumes "turn_step False lcmp dp s s'" and "keys_normal s"
  shows "keys_normal s'"
  using assms
proof (induction rule: turn_step.induct)
  case (turn_event e s now pk)
  let ?s1 = "s\<lparr>tu_lastProcessed := jset (tu_lastProcessed s) (normalizePubkey pk) e\<rparr>"
  have "keys_normal ?s1" using turn_event by (elim keys_normal_cong) simp_all
  then have "keys_normal (snd (processKind dp now pk e
      (snd (sampleClockOffset dp now (normalizePubkey pk) (oe_timestamp e) ?s1))))"
    by (intro keys_normal_kind keys_normal_parts)
  with turn_event show ?case by (simp add: processEvent_def case_prod_unfold keys_normal_parts)
next
  case (turn_restore s now c)
  then show ?case
    by (auto simp: restoreActiveAgentTurnsForCommunity_def notifyTurnListeners_def keys_normal_def
        normalKeys_refresh split: option.splits if_splits)
next
  case (turn_save s c)
  then show ?case by (auto simp: saveActiveAgentTurnsForCommunity_def keys_normal_def split: if_splits)
next
  case (turn_clear s c)
  then show ?case by (auto simp: clearSavedCommunitySnapshot_def keys_normal_def split: if_splits)
next
  case (turn_reset s)
  then show ?case by (simp add: resetActiveAgentTurnsStore_def notifyTurnListeners_def keys_normal_def normalKeys_def)
next
  case (turn_prune s now)
  then show ?case by (simp add: keys_normal_prune)
qed (erule keys_normal_cong;
    auto simp: subscribeActiveAgentTurns_def unsubscribeActiveAgentTurns_def getActiveTurnsForAgent_def
      getActiveTurnsByChannel_def split: option.splits)+

lemma turns_reachable_keys: "turns_reachable False lcmp dp s \<Longrightarrow> keys_normal s"
proof (induction rule: turns_reachable.induct)
  case turns_empty
  show ?case by (simp add: keys_normal_def normalKeys_def emptyTurnsStore_def)
qed (rule keys_normal_step)

subsection \<open>Who works where\<close>

definition worksIn :: "turns_store \<Rightarrow> string \<Rightarrow> string \<Rightarrow> bool" where
  "worksIn s key c \<longleftrightarrow> c \<in> at_channelId ` set (jvals (agentTurns s key))"

lemma summary_channels: "su_channelId ` set (turnSummaries lcmp s key) = {c. worksIn s key c}"
proof -
  have "jget (earliestByChannel (agentTurns s key)) c \<noteq> None \<longleftrightarrow> worksIn s key c" for c
    unfolding jget_earliest worksIn_def Let_def by auto
  then have "fst ` set (earliestByChannel (agentTurns s key)) = {c. worksIn s key c}"
    by (auto simp flip: dom_map_of_conv_image_fst)
  then show ?thesis
    by (simp add: turnSummaries_def agentTurns_def [symmetric] image_image case_prod_unfold)
qed

definition summaryAgents :: "(string, int \<times> string list) jsmap \<Rightarrow> string \<Rightarrow> string list" where
  "summaryAgents m c = (case jget m c of None \<Rightarrow> [] | Some (_, agents) \<Rightarrow> agents)"

definition summary_ok :: "(string, int \<times> string list) jsmap \<Rightarrow> bool" where
  "summary_ok m \<longleftrightarrow> jwf m \<and> (\<forall>c v. jget m c = Some v \<longrightarrow> snd v \<noteq> [] \<and> distinct (snd v))"

lemma jget_addChannelTurn:
  "jget (addChannelTurn k off turn m) c =
     (if c = at_channelId turn
      then Some (case jget m c of
          None \<Rightarrow> (at_startedAt turn + off, [k])
        | Some (anchor, agents) \<Rightarrow>
            (if at_startedAt turn + off < anchor then at_startedAt turn + off else anchor, sadd agents k))
      else jget m c)"
  by (simp add: addChannelTurn_def split: option.splits prod.splits)

lemma jwf_addChannelTurn: "jwf m \<Longrightarrow> jwf (addChannelTurn k off turn m)"
  by (simp add: addChannelTurn_def split: option.splits prod.splits)

lemma sadd_not_Nil [simp]: "sadd xs x \<noteq> []"
  by (auto simp: sadd_def)

lemma addChannelTurn_agents:
  assumes "summary_ok m"
  shows "summary_ok (addChannelTurn k off turn m)"
    and "set (summaryAgents (addChannelTurn k off turn m) c) =
      set (summaryAgents m c) \<union> (if at_channelId turn = c then {k} else {})"
proof -
  show "summary_ok (addChannelTurn k off turn m)"
    unfolding summary_ok_def
  proof (intro conjI [OF jwf_addChannelTurn] allI impI)
    show "jwf m" using assms by (simp add: summary_ok_def)
    fix c v assume v: "jget (addChannelTurn k off turn m) c = Some v"
    have old: "snd w \<noteq> [] \<and> distinct (snd w)" if "jget m c = Some w" for w
      using assms that unfolding summary_ok_def by blast
    show "snd v \<noteq> [] \<and> distinct (snd v)"
    proof (cases "c = at_channelId turn")
      case True
      show ?thesis
      proof (cases "jget m c")
        case None
        with v True show ?thesis by (auto simp: jget_addChannelTurn)
      next
        case (Some w)
        with v True have "snd v = sadd (snd w) k" by (auto simp: jget_addChannelTurn split: prod.splits)
        with old [OF Some] show ?thesis by simp
      qed
    next
      case False
      with v old show ?thesis by (simp add: jget_addChannelTurn)
    qed
  qed
  show "set (summaryAgents (addChannelTurn k off turn m) c) =
      set (summaryAgents m c) \<union> (if at_channelId turn = c then {k} else {})"
    by (cases "jget m c") (auto simp: summaryAgents_def jget_addChannelTurn split: prod.splits)
qed

lemma addChannelTurns_agents:
  assumes "summary_ok m"
  shows "summary_ok (fold (addChannelTurn k off) turns m) \<and>
    set (summaryAgents (fold (addChannelTurn k off) turns m) c) =
      set (summaryAgents m c) \<union> (if c \<in> at_channelId ` set turns then {k} else {})"
  using assms
proof (induction turns arbitrary: m)
  case (Cons turn turns)
  from Cons.IH [OF addChannelTurn_agents(1) [OF Cons.prems]] show ?case
    by (simp add: addChannelTurn_agents(2) [OF Cons.prems])
qed simp

lemma channelSummary_agents:
  "summary_ok (channelSummaryMap s) \<and>
   set (summaryAgents (channelSummaryMap s) c) = {k. \<exists>turns. (k, turns) \<in> set (tu_activeTurnsByAgent s) \<and> c \<in> at_channelId ` set (jvals turns)}"
proof -
  let ?add = "\<lambda>(k, turns). fold (addChannelTurn k (jget_or (tu_clockOffsetByAgent s) k 0)) (jvals turns)"
  have "summary_ok (fold ?add es m) \<and> set (summaryAgents (fold ?add es m) c) =
      set (summaryAgents m c) \<union> {k. \<exists>turns. (k, turns) \<in> set es \<and> c \<in> at_channelId ` set (jvals turns)}"
    if "summary_ok m" for es m
    using that
  proof (induction es arbitrary: m)
    case (Cons e es)
    obtain k turns where e: "e = (k, turns)" by fastforce
    note add = addChannelTurns_agents [OF Cons.prems, of k "jget_or (tu_clockOffsetByAgent s) k 0" "jvals turns" c]
    have "{k'. \<exists>t. (k', t) \<in> set (e # es) \<and> c \<in> at_channelId ` set (jvals t)} =
        (if c \<in> at_channelId ` set (jvals turns) then {k} else {}) \<union>
        {k. \<exists>t. (k, t) \<in> set es \<and> c \<in> at_channelId ` set (jvals t)}"
      by (auto simp: e)
    with Cons.IH [OF add [THEN conjunct1]] add [THEN conjunct2] show ?case by (simp only: e fold_simps prod.case Un_assoc)
  qed simp
  note main = this [of "[]" "tu_activeTurnsByAgent s"]
  have empty_map: "summary_ok []" "set (summaryAgents [] c) = {}" by (simp_all add: summary_ok_def summaryAgents_def)
  show ?thesis using main [OF empty_map(1)] unfolding channelSummaryMap_def empty_map(2) Un_empty_left .
qed

lemma js_sort_Nil: "js_sort cmp xs = [] \<longleftrightarrow> xs = []"
  by (metis length_0_conv length_js_sort)

lemma channelSummary_works:
  assumes "turns_wf False lcmp s"
  shows "set (summaryAgents (channelSummaryMap s) c) = {k. worksIn s k c}"
proof -
  have "(\<exists>turns. (k, turns) \<in> set (tu_activeTurnsByAgent s) \<and> c \<in> at_channelId ` set (jvals turns)) \<longleftrightarrow> worksIn s k c" for k
    unfolding worksIn_def agentTurns_def jget_or_def jget_in_set [OF turns_wfD(3) [OF assms], symmetric]
    by (cases "jget (tu_activeTurnsByAgent s) k") simp_all
  then show ?thesis using channelSummary_agents [of s c] by simp
qed

lemma channelSummary_ok: "jwf (channelSummaryMap s)"
  "jget (channelSummaryMap s) c = Some (a, agents) \<Longrightarrow> agents \<noteq> [] \<and> distinct agents"
  using channelSummary_agents [of s, THEN conjunct1] unfolding summary_ok_def by (blast, metis snd_conv)

lemma channel_summaries_iff:
  "y \<in> set (channelTurnSummaries lcmp s) \<longleftrightarrow>
     (\<exists>c a agents. jget (channelSummaryMap s) c = Some (a, agents) \<and>
       y = \<lparr>cs_channelId = c, cs_anchorAt = a, cs_agentCount = length agents,
            cs_agentPubkeys = js_sort compareStrings agents\<rparr>)"
  unfolding jget_in_set [OF channelSummary_ok(1)] by (force simp: channelTurnSummaries_def)

lemma channel_summaries_distinct: "distinct (map cs_channelId (channelTurnSummaries lcmp s))"
  using channelSummary_ok(1) [of s]
  by (simp add: channelTurnSummaries_def jwf_def comp_def case_prod_unfold)

lemma channel_summary_at:
  assumes "turns_wf False lcmp s"
  shows "y \<in> set (channelTurnSummaries lcmp s) \<Longrightarrow> cs_channelId y = c \<Longrightarrow>
      set (cs_agentPubkeys y) = {k. worksIn s k c} \<and> cs_agentPubkeys y \<noteq> [] \<and> distinct (cs_agentPubkeys y) \<and>
      cs_agentCount y = length (cs_agentPubkeys y)"
    and "worksIn s k c \<Longrightarrow> \<exists>y\<in>set (channelTurnSummaries lcmp s). cs_channelId y = c"
proof -
  note works = channelSummary_works [OF assms]
  show "set (cs_agentPubkeys y) = {k. worksIn s k c} \<and> cs_agentPubkeys y \<noteq> [] \<and> distinct (cs_agentPubkeys y) \<and>
      cs_agentCount y = length (cs_agentPubkeys y)"
    if y: "y \<in> set (channelTurnSummaries lcmp s)" "cs_channelId y = c"
  proof -
    obtain a agents where g: "jget (channelSummaryMap s) c = Some (a, agents)"
      and f: "cs_agentPubkeys y = js_sort compareStrings agents" "cs_agentCount y = length agents"
      using y by (auto simp: channel_summaries_iff)
    have "agents \<noteq> []" "distinct agents"
      using channelSummary_ok(2) [OF g] by auto
    moreover have "set agents = {k. worksIn s k c}" using works [of c] g by (simp add: summaryAgents_def)
    ultimately show ?thesis
      using distinct_map_js_sort [of "\<lambda>x. x" compareStrings agents] by (simp add: f js_sort_Nil)
  qed
  show "\<exists>y\<in>set (channelTurnSummaries lcmp s). cs_channelId y = c" if "worksIn s k c"
  proof -
    have "summaryAgents (channelSummaryMap s) c \<noteq> []" using works [of c] that by force
    then obtain a agents where "jget (channelSummaryMap s) c = Some (a, agents)"
      by (auto simp: summaryAgents_def split: option.splits)
    then have "\<lparr>cs_channelId = c, cs_anchorAt = a, cs_agentCount = length agents,
        cs_agentPubkeys = js_sort compareStrings agents\<rparr> \<in> set (channelTurnSummaries lcmp s)"
      unfolding channel_summaries_iff by blast
    then show ?thesis by (rule bexI [rotated]) simp
  qed
qed

subsection \<open>What the signal answers\<close>

definition typing_ok :: "typing_map \<Rightarrow> bool" where
  "typing_ok typing \<longleftrightarrow> jwf typing \<and>
     (\<forall>c entries. jget typing c = Some entries \<longrightarrow>
        entries \<noteq> [] \<and> jwf entries \<and> (\<forall>k\<in>set (jkeys entries). normalizePubkey k = k))"

definition typesIn :: "typing_map \<Rightarrow> string \<Rightarrow> string \<Rightarrow> bool" where
  "typesIn typing key c \<longleftrightarrow> (case jget typing c of None \<Rightarrow> False | Some entries \<Rightarrow> jhas entries key)"

lemma typing_channel_iff:
  assumes "jwf typing"
  shows "wc \<in> set (typingChannels key ids typing) \<longleftrightarrow>
    (\<exists>since entries. jget typing (wc_channelId wc) = Some entries \<and> jget entries key = Some since \<and>
      wc_channelId wc \<notin> set ids \<and>
      wc = \<lparr>wc_channelId = wc_channelId wc, wc_anchorAt = since, wc_source = FromTyping\<rparr>)"
proof -
  have "wc \<in> set (typingChannels key ids typing) \<longleftrightarrow>
      (\<exists>c entries since. (c, entries) \<in> set typing \<and> c \<notin> set ids \<and> jget entries key = Some since \<and>
        wc = \<lparr>wc_channelId = c, wc_anchorAt = since, wc_source = FromTyping\<rparr>)"
    unfolding typingChannels_def by (force split: if_splits option.splits)
  then show ?thesis unfolding jget_in_set [OF assms, symmetric] by (cases wc) auto
qed

lemma merged_source:
  assumes "typing_ok typing"
  shows "wk_source (mergeWorkingState lcmp key (Some c) typing (turnSummaries lcmp s key)) =
      (if worksIn s key c then FromObserver else if typesIn typing key c then FromTyping else FromNone)"
    and "wk_working (mergeWorkingState lcmp key (Some c) typing (turnSummaries lcmp s key)) \<longleftrightarrow>
      worksIn s key c \<or> typesIn typing key c"
proof -
  let ?turns = "turnSummaries lcmp s key"
  define observed where "observed = map (\<lambda>turn. \<lparr>wc_channelId = su_channelId turn, wc_anchorAt = su_anchorAt turn,
      wc_source = FromObserver\<rparr>) ?turns"
  define typed where "typed = typingChannels key (map su_channelId ?turns) typing"
  have works: "worksIn s key c \<longleftrightarrow> (\<exists>w\<in>set observed. wc_channelId w = c)"
    using summary_channels [of lcmp s key] by (force simp: observed_def)
  have jw: "jwf typing" using assms by (simp add: typing_ok_def)
  have obs: "\<forall>w\<in>set observed. wc_source w = FromObserver" by (simp add: observed_def)
  have typd: "\<forall>w\<in>set typed. wc_source w = FromTyping"
    by (auto simp: typed_def typingChannels_def split: if_splits option.splits)
  have types: "typesIn typing key c \<longleftrightarrow> (\<exists>w\<in>set typed. wc_channelId w = c)" if "\<not> worksIn s key c"
  proof -
    have "c \<notin> set (map su_channelId ?turns)" using that summary_channels [of lcmp s key] by auto
    then have "(\<exists>w\<in>set typed. wc_channelId w = c) \<longleftrightarrow>
        (\<exists>entries since. jget typing c = Some entries \<and> jget entries key = Some since)"
      unfolding typed_def Bex_def typing_channel_iff [OF jw]
      by (metis working_channel.select_convs(1))
    then show ?thesis by (auto simp: typesIn_def jhas_def split: option.splits)
  qed
  have "scopedSource (Some c) (js_sort cmp (observed @ typed)) =
      (if worksIn s key c then FromObserver else if typesIn typing key c then FromTyping else FromNone)" for cmp
    using works types obs typd
    by (auto simp: scopedSource_def list_ex_iff filter_empty_conv)
  moreover have "\<not> worksIn s key c \<and> \<not> typesIn typing key c" if "observed @ typed = []"
    using works types that by auto
  ultimately show "wk_source (mergeWorkingState lcmp key (Some c) typing ?turns) =
      (if worksIn s key c then FromObserver else if typesIn typing key c then FromTyping else FromNone)"
    and "wk_working (mergeWorkingState lcmp key (Some c) typing ?turns) \<longleftrightarrow> worksIn s key c \<or> typesIn typing key c"
    unfolding mergeWorkingState_def Let_def observed_def [symmetric] typed_def [symmetric]
    by (simp_all add: IDLE_STATE_def)
qed

lemma normal_agents:
  assumes "turns_wf False lcmp s" and "keys_normal s" and "y \<in> set (channelTurnSummaries lcmp s)"
  shows "map normalizePubkey (cs_agentPubkeys y) = cs_agentPubkeys y"
proof (rule map_idI)
  fix k assume "k \<in> set (cs_agentPubkeys y)"
  then have "worksIn s k (cs_channelId y)" using channel_summary_at(1) [OF assms(1,3) refl] by blast
  then have "jget (tu_activeTurnsByAgent s) k \<noteq> None"
    by (cases "jget (tu_activeTurnsByAgent s) k") (auto simp: worksIn_def agentTurns_def jget_or_def)
  then have "k \<in> set (jkeys (tu_activeTurnsByAgent s))" by (simp add: map_of_eq_None_iff)
  then show "normalizePubkey k = k" using assms(2) unfolding keys_normal_def normalKeys_def by blast
qed

lemma merged_pubkeys:
  assumes "turns_wf False lcmp s" and "keys_normal s"
  shows "set (mergeChannelPubkeys c typing (channelTurnSummaries lcmp s)) = {k. worksIn s k c \<or> typesIn typing k c}"
proof -
  let ?ys = "channelTurnSummaries lcmp s"
  have "set (concat (map (\<lambda>y. if cs_channelId y \<noteq> c then [] else map normalizePubkey (cs_agentPubkeys y)) ?ys)) =
      (\<Union>y\<in>{y \<in> set ?ys. cs_channelId y = c}. set (cs_agentPubkeys y))"
  proof -
    have "map (\<lambda>y. if cs_channelId y \<noteq> c then [] else map normalizePubkey (cs_agentPubkeys y)) ?ys =
        map (\<lambda>y. if cs_channelId y \<noteq> c then [] else cs_agentPubkeys y) ?ys"
      using normal_agents [OF assms] by (intro map_cong) auto
    then show ?thesis by (auto split: if_splits)
  qed
  also have "\<dots> = {k. worksIn s k c}"
  proof (intro equalityI subsetI)
    fix k assume "k \<in> {k. worksIn s k c}"
    then obtain y where "y \<in> set ?ys" "cs_channelId y = c" "worksIn s k c"
      using channel_summary_at(2) [OF assms(1)] by blast
    then show "k \<in> (\<Union>y\<in>{y \<in> set ?ys. cs_channelId y = c}. set (cs_agentPubkeys y))"
      using channel_summary_at(1) [OF assms(1), of y c] by blast
  qed (use channel_summary_at(1) [OF assms(1)] in blast)
  finally show ?thesis
    by (auto simp: mergeChannelPubkeys_def set_fold_sadd typesIn_def jhas_iff split: option.splits)
qed

text \<open>The channels of the signal: one summary per channel, for exactly the agents at work there.\<close>

definition channels_ok :: "(string \<Rightarrow> string set) \<Rightarrow> (string, working_summary) jsmap \<Rightarrow> bool" where
  "channels_ok agents m \<longleftrightarrow> jwf m \<and>
     (\<forall>c. (case jget m c of
             None \<Rightarrow> agents c = {}
           | Some y \<Rightarrow> wy_channelId y = c \<and> set (wy_agentPubkeys y) = agents c \<and> agents c \<noteq> {} \<and>
               distinct (wy_agentPubkeys y) \<and> wy_agentCount y = length (wy_agentPubkeys y)))"

lemma observer_channels:
  assumes "turns_wf False lcmp s"
  shows "channels_ok (\<lambda>c. {k. worksIn s k c})
    (fold (\<lambda>y m. jset m (cs_channelId y) (observerSummary y)) (channelTurnSummaries lcmp s) [])"
proof -
  let ?ys = "channelTurnSummaries lcmp s"
  have eq: "fold (\<lambda>y m. jset m (cs_channelId y) (observerSummary y)) ?ys [] =
      map (\<lambda>y. (cs_channelId y, observerSummary y)) ?ys"
  proof -
    have "jmap_of (map (\<lambda>y. (cs_channelId y, observerSummary y)) ?ys) = map (\<lambda>y. (cs_channelId y, observerSummary y)) ?ys"
      by (rule jmap_of_distinct) (simp add: comp_def channel_summaries_distinct)
    then show ?thesis by (simp add: jmap_of_def fold_map comp_def)
  qed
  have jw: "jwf (map (\<lambda>y. (cs_channelId y, observerSummary y)) ?ys)"
    by (simp add: jwf_def comp_def channel_summaries_distinct)
  show ?thesis
    unfolding eq channels_ok_def
  proof (intro conjI allI)
    fix c
    show "case jget (map (\<lambda>y. (cs_channelId y, observerSummary y)) ?ys) c of
        None \<Rightarrow> {k. worksIn s k c} = {}
      | Some y \<Rightarrow> wy_channelId y = c \<and> set (wy_agentPubkeys y) = {k. worksIn s k c} \<and> {k. worksIn s k c} \<noteq> {} \<and>
          distinct (wy_agentPubkeys y) \<and> wy_agentCount y = length (wy_agentPubkeys y)"
    proof (cases "jget (map (\<lambda>y. (cs_channelId y, observerSummary y)) ?ys) c")
      case None
      then have "c \<notin> cs_channelId ` set ?ys" by (auto simp: map_of_eq_None_iff image_image)
      then show ?thesis using None channel_summary_at(2) [OF assms] by auto
    next
      case (Some w)
      then obtain y where y: "y \<in> set ?ys" "cs_channelId y = c" "w = observerSummary y"
        by (auto dest!: map_of_SomeD)
      note at = channel_summary_at(1) [OF assms y(1,2)]
      then have "{k. worksIn s k c} \<noteq> {}" by (metis set_empty)
      with at y(2) show ?thesis unfolding Some y(3) by (simp add: observerSummary_def)
    qed
  qed (rule jw)
qed

lemma channels_ok_at:
  "channels_ok A m \<Longrightarrow>
     (case jget m c of
        None \<Rightarrow> A c = {}
      | Some y \<Rightarrow> wy_channelId y = c \<and> set (wy_agentPubkeys y) = A c \<and> A c \<noteq> {} \<and>
          distinct (wy_agentPubkeys y) \<and> wy_agentCount y = length (wy_agentPubkeys y))"
  unfolding channels_ok_def by (drule conjunct2) (rule spec)

lemma channels_okD:
  assumes "channels_ok A m"
  shows "jget m c = Some y \<Longrightarrow>
     wy_channelId y = c \<and> set (wy_agentPubkeys y) = A c \<and> A c \<noteq> {} \<and> distinct (wy_agentPubkeys y) \<and>
     wy_agentCount y = length (wy_agentPubkeys y)"
    and "jget m c = None \<Longrightarrow> A c = {}"
  using channels_ok_at [OF assms, of c] by simp_all

lemma channels_ok_put:
  assumes "channels_ok A m" and "wy_channelId y = c" and "set (wy_agentPubkeys y) = B" and "B \<noteq> {}"
    and "distinct (wy_agentPubkeys y)" and "wy_agentCount y = length (wy_agentPubkeys y)"
  shows "channels_ok (A(c := B)) (jset m c y)"
  unfolding channels_ok_def
proof (intro conjI allI)
  show "jwf (jset m c y)" using assms(1) by (simp add: channels_ok_def)
  fix d
  show "case jget (jset m c y) d of
      None \<Rightarrow> (A(c := B)) d = {}
    | Some y \<Rightarrow> wy_channelId y = d \<and> set (wy_agentPubkeys y) = (A(c := B)) d \<and> (A(c := B)) d \<noteq> {} \<and>
        distinct (wy_agentPubkeys y) \<and> wy_agentCount y = length (wy_agentPubkeys y)"
    using assms channels_ok_at [OF assms(1), of d] by (cases "d = c"; cases "jget m d") simp_all
qed

lemma channels_ok_views:
  assumes m: "channels_ok A m"
  shows "(\<exists>y\<in>set (jvals m). wy_channelId y = c \<and> k \<in> set (wy_agentPubkeys y)) \<longleftrightarrow> k \<in> A c"
    and "distinct (map wy_channelId (jvals m))"
    and "\<forall>y\<in>set (jvals m). wy_agentCount y = length (wy_agentPubkeys y) \<and> distinct (wy_agentPubkeys y)"
proof -
  have jw: "jwf m" using m unfolding channels_ok_def by blast
  have at: "y \<in> set (jvals m) \<longleftrightarrow> jget m (wy_channelId y) = Some y" for y
  proof
    assume "y \<in> set (jvals m)"
    then obtain d where "jget m d = Some y" by (auto simp: jget_in_set [OF jw])
    then show "jget m (wy_channelId y) = Some y" using channels_okD(1) [OF m] by metis
  next
    assume "jget m (wy_channelId y) = Some y"
    then show "y \<in> set (jvals m)" by (force simp: jget_in_set [OF jw])
  qed
  show "(\<exists>y\<in>set (jvals m). wy_channelId y = c \<and> k \<in> set (wy_agentPubkeys y)) \<longleftrightarrow> k \<in> A c"
  proof (cases "jget m c")
    case None
    with channels_okD(2) [OF m None] show ?thesis unfolding Bex_def at by (metis empty_iff option.distinct(1))
  next
    case (Some y)
    with channels_okD(1) [OF m Some] show ?thesis unfolding Bex_def at by (metis option.inject)
  qed
  have "wy_channelId (snd e) = fst e" if "e \<in> set m" for e
    using that channels_okD(1) [OF m, of "fst e" "snd e"] by (simp add: jget_in_set [OF jw])
  then have "map wy_channelId (jvals m) = jkeys m" by (simp add: comp_def)
  then show "distinct (map wy_channelId (jvals m))" using jw unfolding jwf_def by metis
  show "\<forall>y\<in>set (jvals m). wy_agentCount y = length (wy_agentPubkeys y) \<and> distinct (wy_agentPubkeys y)"
    using channels_okD(1) [OF m] at by blast
qed

lemma mergeTyping_ok:
  assumes ok: "channels_ok A m" and normal: "\<forall>k\<in>A c. normalizePubkey k = k"
    and entries: "entries \<noteq> []" "jwf entries"
  shows "channels_ok (A(c := A c \<union> set (jkeys entries))) (mergeTypingChannel (c, entries) m)"
proof (cases "jget m c")
  case None
  then have "A c = {}" by (rule channels_okD(2) [OF ok])
  with None entries channels_ok_put [OF ok] show ?thesis
    by (simp add: mergeTypingChannel_def jwf_def)
next
  case (Some y)
  note y = channels_okD(1) [OF ok Some]
  define fresh where "fresh = filter (\<lambda>k. k \<notin> set (wy_agentPubkeys y)) (jkeys entries)"
  have "map normalizePubkey (wy_agentPubkeys y) = wy_agentPubkeys y" using normal y by (intro map_idI) blast
  moreover have "filter ((\<lambda>k. k \<notin> set (wy_agentPubkeys y)) \<circ> fst) entries = [] \<longleftrightarrow> fresh = []"
    by (simp add: fresh_def filter_map)
  ultimately have step: "mergeTypingChannel (c, entries) m =
      (if fresh \<noteq> [] then jset m c (y\<lparr>wy_agentPubkeys := wy_agentPubkeys y @ fresh,
         wy_agentCount := length (wy_agentPubkeys y @ fresh)\<rparr>) else m)"
    by (simp add: mergeTypingChannel_def Some fresh_def [symmetric] del: filter_map)
  have union: "set (wy_agentPubkeys y) \<union> set fresh = A c \<union> set (jkeys entries)" using y by (auto simp: fresh_def)
  have "distinct fresh" "set fresh \<inter> set (wy_agentPubkeys y) = {}"
    using entries(2) by (auto simp: fresh_def jwf_def distinct_map_filter)
  then have "channels_ok (A(c := A c \<union> set (jkeys entries))) (jset m c (y\<lparr>wy_agentPubkeys := wy_agentPubkeys y @ fresh,
         wy_agentCount := length (wy_agentPubkeys y @ fresh)\<rparr>))"
    using y union by (intro channels_ok_put [OF ok]) auto
  moreover have "A(c := A c \<union> set (jkeys entries)) = A" if "fresh = []"
    using union that y by (simp add: fun_upd_idem_iff)
  ultimately show ?thesis unfolding step using ok by simp
qed

lemma typesIn_Cons:
  "c' \<notin> set (jkeys typing) \<Longrightarrow> {k. typesIn ((c', entries) # typing) k c} =
     (if c = c' then set (jkeys entries) else {k. typesIn typing k c})"
  by (auto simp: typesIn_def jhas_iff)

lemma typesIn_absent: "c \<notin> set (jkeys typing) \<Longrightarrow> \<not> typesIn typing k c"
  by (simp add: typesIn_def split: option.splits) (metis map_of_eq_None_iff option.distinct(1))

lemma mergeTyping_fold_ok:
  assumes "channels_ok A m" and "\<forall>c. \<forall>k\<in>A c. normalizePubkey k = k" and "distinct (jkeys typing)"
    and "\<forall>(c, entries)\<in>set typing. entries \<noteq> [] \<and> jwf entries \<and> (\<forall>k\<in>set (jkeys entries). normalizePubkey k = k)"
  shows "channels_ok (\<lambda>c. A c \<union> {k. typesIn typing k c}) (fold mergeTypingChannel typing m)"
  using assms
proof (induction typing arbitrary: A m)
  case Nil
  then show ?case by (simp add: typesIn_def)
next
  case (Cons e typing)
  obtain c' entries where e: "e = (c', entries)" by fastforce
  let ?A = "A(c' := A c' \<union> set (jkeys entries))"
  have ent: "entries \<noteq> []" "jwf entries" "\<forall>k\<in>set (jkeys entries). normalizePubkey k = k"
    using Cons.prems(4) by (simp_all add: e)
  have a: "channels_ok ?A (mergeTypingChannel e m)"
    unfolding e using Cons.prems(1,2) ent by (intro mergeTyping_ok) simp_all
  have b: "\<forall>c. \<forall>k\<in>?A c. normalizePubkey k = k" using Cons.prems(2) ent(3) by auto
  have "channels_ok (\<lambda>c. ?A c \<union> {k. typesIn typing k c}) (fold mergeTypingChannel typing (mergeTypingChannel e m))"
    by (rule Cons.IH [OF a b]) (use Cons.prems in simp_all)
  moreover have "(\<lambda>c. ?A c \<union> {k. typesIn typing k c}) = (\<lambda>c. A c \<union> {k. typesIn (e # typing) k c})"
  proof
    fix c
    show "?A c \<union> {k. typesIn typing k c} = A c \<union> {k. typesIn (e # typing) k c}"
      using Cons.prems(3) typesIn_absent [of c' typing] typesIn_Cons [of c' typing entries c]
      by (auto simp: e simp del: set_map)
  qed
  ultimately show ?case by simp
qed

subsection \<open>Reachable states\<close>

definition plainQuery :: "string \<Rightarrow> string option \<Rightarrow> bool" where
  "plainQuery pk channelId \<longleftrightarrow> CHR ''|'' \<notin> set (normalizePubkey pk) \<and> channelId \<noteq> Some []"

inductive signal_step ::
  "(string \<Rightarrow> string \<Rightarrow> int) \<Rightarrow> (string \<Rightarrow> int option) \<Rightarrow> signal_state \<Rightarrow> signal_state \<Rightarrow> bool"
  for lcmp dp where
  sig_turns: "turn_step False lcmp dp (sg_turns st) t' \<Longrightarrow>
    WORKING_NOTIFY \<in> set (tu_listeners t') \<longleftrightarrow> WORKING_NOTIFY \<in> set (tu_listeners (sg_turns st)) \<Longrightarrow>
    signal_step lcmp dp st (onTurns t' st)"
| sig_subscribe: "signal_step lcmp dp st (subscribeAgentWorkingSignal l st)"
| sig_unsubscribe: "signal_step lcmp dp st (unsubscribeAgentWorkingSignal l st)"
| sig_typing: "signal_step lcmp dp st (st\<lparr>sg_work := reportChannelBotTyping now c pks (sg_work st)\<rparr>)"
| sig_state: "plainQuery pk c \<Longrightarrow> signal_step lcmp dp st (snd (getAgentWorkingState lcmp (Some pk) c st))"
| sig_channels: "signal_step lcmp dp st (snd (getWorkingChannels lcmp st))"
| sig_pubkeys: "signal_step lcmp dp st (snd (getWorkingAgentPubkeysForChannel lcmp ch st))"
| sig_reset: "signal_step lcmp dp st (st\<lparr>sg_work := resetAgentWorkingSignal (sg_work st)\<rparr>)"

inductive signal_reachable ::
  "(string \<Rightarrow> string \<Rightarrow> int) \<Rightarrow> (string \<Rightarrow> int option) \<Rightarrow> signal_state \<Rightarrow> bool"
  for lcmp dp where
  signal_empty: "signal_reachable lcmp dp emptySignal"
| signal_next: "signal_reachable lcmp dp st \<Longrightarrow> signal_step lcmp dp st st' \<Longrightarrow> signal_reachable lcmp dp st'"

text \<open>The answers as the present turns and typing entries determine them.\<close>

definition stateNow :: "(string \<Rightarrow> string \<Rightarrow> int) \<Rightarrow> signal_state \<Rightarrow> string \<Rightarrow> string option \<Rightarrow> working_state" where
  "stateNow lcmp st pk c =
     mergeWorkingState lcmp (normalizePubkey pk) c (ws_typingByChannel (sg_work st))
       (if normalizePubkey pk = [] then [] else turnSummaries lcmp (sg_turns st) (normalizePubkey pk))"

definition channelsNow :: "(string \<Rightarrow> string \<Rightarrow> int) \<Rightarrow> signal_state \<Rightarrow> working_summary list" where
  "channelsNow lcmp st =
     mergeWorkingChannels lcmp (ws_typingByChannel (sg_work st)) (channelTurnSummaries lcmp (sg_turns st))"

definition pubkeysNow :: "(string \<Rightarrow> string \<Rightarrow> int) \<Rightarrow> signal_state \<Rightarrow> string \<Rightarrow> string list" where
  "pubkeysNow lcmp st c =
     mergeChannelPubkeys c (ws_typingByChannel (sg_work st)) (channelTurnSummaries lcmp (sg_turns st))"

definition caches_current :: "(string \<Rightarrow> string \<Rightarrow> int) \<Rightarrow> signal_state \<Rightarrow> bool" where
  "caches_current lcmp st \<longleftrightarrow>
     (\<forall>pk c v. plainQuery pk c \<longrightarrow> jget (ws_stateCache (sg_work st)) (workingCacheKey pk c) = Some v \<longrightarrow>
        v = stateNow lcmp st pk c) \<and>
     (\<forall>v. ws_channelsCache (sg_work st) = Some v \<longrightarrow> v = channelsNow lcmp st) \<and>
     (\<forall>c v. jget (ws_channelPubkeysCache (sg_work st)) c = Some v \<longrightarrow> v = pubkeysNow lcmp st c)"

definition signal_ok :: "(string \<Rightarrow> string \<Rightarrow> int) \<Rightarrow> signal_state \<Rightarrow> bool" where
  "signal_ok lcmp st \<longleftrightarrow>
     turns_wf False lcmp (sg_turns st) \<and> keys_normal (sg_turns st) \<and> typing_ok (ws_typingByChannel (sg_work st)) \<and>
     (WORKING_NOTIFY \<in> set (tu_listeners (sg_turns st)) \<longleftrightarrow> ws_listeners (sg_work st) \<noteq> []) \<and>
     (ws_unsubscribeTurns (sg_work st) \<longleftrightarrow> ws_listeners (sg_work st) \<noteq> []) \<and>
     (ws_listeners (sg_work st) \<noteq> [] \<longrightarrow> caches_current lcmp st)"

lemma workingCacheKey_inj:
  assumes "plainQuery pk c" and "plainQuery pk' c'" and "workingCacheKey pk c = workingCacheKey pk' c'"
  shows "normalizePubkey pk = normalizePubkey pk'" and "c = c'"
proof -
  let ?k = "\<lambda>pk. normalizePubkey pk" and ?c = "\<lambda>c. case c of None \<Rightarrow> [] | Some c \<Rightarrow> c"
  have eq: "?k pk @ CHR ''|'' # ?c c = ?k pk' @ CHR ''|'' # ?c c'" using assms(3) by (simp add: workingCacheKey_def)
  have bar: "CHR ''|'' \<notin> set (?k pk)" "CHR ''|'' \<notin> set (?k pk')" using assms(1,2) by (simp_all add: plainQuery_def)
  have "takeWhile (\<lambda>x. x \<noteq> CHR ''|'') (?k pk @ CHR ''|'' # ?c c) = ?k pk"
    "takeWhile (\<lambda>x. x \<noteq> CHR ''|'') (?k pk' @ CHR ''|'' # ?c c') = ?k pk'"
    using bar by (subst takeWhile_append2; fastforce)+
  with eq show k: "?k pk = ?k pk'" by simp
  with eq have "?c c = ?c c'" by simp
  then show "c = c'" using assms(1,2) by (auto simp: plainQuery_def split: option.splits)
qed

lemma now_cong:
  assumes "turnSummaries lcmp (sg_turns st') = turnSummaries lcmp (sg_turns st)"
    and "channelTurnSummaries lcmp (sg_turns st') = channelTurnSummaries lcmp (sg_turns st)"
    and "ws_typingByChannel (sg_work st') = ws_typingByChannel (sg_work st)"
  shows "stateNow lcmp st' = stateNow lcmp st" and "channelsNow lcmp st' = channelsNow lcmp st"
    and "pubkeysNow lcmp st' = pubkeysNow lcmp st"
  by (rule ext, rule ext, simp add: stateNow_def assms) (simp add: channelsNow_def assms,
    rule ext, simp add: pubkeysNow_def assms)

lemma caches_current_cong:
  assumes "caches_current lcmp st"
    and "turnSummaries lcmp (sg_turns st') = turnSummaries lcmp (sg_turns st)"
    and "channelTurnSummaries lcmp (sg_turns st') = channelTurnSummaries lcmp (sg_turns st)"
    and "ws_typingByChannel (sg_work st') = ws_typingByChannel (sg_work st)"
    and "ws_stateCache (sg_work st') = ws_stateCache (sg_work st)"
    and "ws_channelsCache (sg_work st') = ws_channelsCache (sg_work st)"
    and "ws_channelPubkeysCache (sg_work st') = ws_channelPubkeysCache (sg_work st)"
  shows "caches_current lcmp st'"
  using assms(1) unfolding caches_current_def stateNow_def channelsNow_def pubkeysNow_def assms(2-) .

lemma invalidated_current:
  "ws_stateCache (sg_work st) = [] \<Longrightarrow> ws_channelsCache (sg_work st) = None \<Longrightarrow>
   ws_channelPubkeysCache (sg_work st) = [] \<Longrightarrow> caches_current lcmp st"
  by (simp add: caches_current_def)

text \<open>Reading the turn store.\<close>

lemma turns_read:
  assumes "turns_wf False lcmp t"
  shows "fst (getActiveTurnsForAgent lcmp (Some key) t) =
      (if key = [] then [] else turnSummaries lcmp t (normalizePubkey key))"
    and "fst (getActiveTurnsByChannel lcmp t) = channelTurnSummaries lcmp t"
  using turns_wfD(2) [OF assms]
  by (auto simp: getActiveTurnsForAgent_def getActiveTurnsByChannel_def cache_ok_def truthy_def
      turnSummaries_def earliestByChannel_def channelTurnSummaries_def channelSummaryMap_def
      split: option.splits)

lemma turns_read_same:
  "same_facts t (snd (getActiveTurnsForAgent lcmp pk t))" "same_facts t (snd (getActiveTurnsByChannel lcmp t))"
  "tu_listeners (snd (getActiveTurnsForAgent lcmp pk t)) = tu_listeners t"
  "tu_listeners (snd (getActiveTurnsByChannel lcmp t)) = tu_listeners t"
  by (auto simp: getActiveTurnsForAgent_def getActiveTurnsByChannel_def same_facts_def split: option.splits)

lemma nextTyping_ok:
  "jwf (nextTyping now current pks) \<and> (\<forall>k\<in>set (jkeys (nextTyping now current pks)). normalizePubkey k = k)"
proof -
  let ?put = "\<lambda>pubkey nxt. jset nxt (normalizePubkey pubkey)
      (case Option.bind current (\<lambda>c. jget c (normalizePubkey pubkey)) of Some since \<Rightarrow> since | None \<Rightarrow> now)"
  have "jwf (fold ?put pks m) \<and> (\<forall>k\<in>set (jkeys (fold ?put pks m)). normalizePubkey k = k)"
    if "jwf m" "\<forall>k\<in>set (jkeys m). normalizePubkey k = k" for m
    using that
  proof (induction pks arbitrary: m)
    case (Cons pk pks)
    have "\<forall>k\<in>set (jkeys (?put pk m)). normalizePubkey k = k"
      unfolding jkeys_jset by (metis Cons.prems(2) insert_iff normalizePubkey_idem)
    with jwf_jset [OF Cons.prems(1)] show ?case unfolding fold_simps by (rule Cons.IH)
  qed simp
  from this [of "[]"] show ?thesis by (simp add: nextTyping_def)
qed

lemma typing_ok_Nil: "typing_ok []"
  by (simp add: typing_ok_def)

lemma report_typing_ok:
  assumes "typing_ok (ws_typingByChannel w)"
  shows "typing_ok (ws_typingByChannel (reportChannelBotTyping now c pks w))"
proof -
  let ?nxt = "nextTyping now (jget (ws_typingByChannel w) c) pks"
  have "typing_ok (jset (ws_typingByChannel w) c ?nxt)" if "?nxt \<noteq> []"
    using assms that nextTyping_ok [of now _ pks] unfolding typing_ok_def by (auto simp: jwf_jset)
  moreover have "typing_ok (jdel (ws_typingByChannel w) c)"
    using assms unfolding typing_ok_def by (auto split: if_splits)
  ultimately show ?thesis
    using assms by (simp add: reportChannelBotTyping_def notifyWorking_def invalidateCaches_def)
qed

lemma notify_caches:
  "ws_stateCache (notifyWorking w) = []" "ws_channelsCache (notifyWorking w) = None"
  "ws_channelPubkeysCache (notifyWorking w) = []" "ws_typingByChannel (notifyWorking w) = ws_typingByChannel w"
  "ws_listeners (notifyWorking w) = ws_listeners w" "ws_unsubscribeTurns (notifyWorking w) = ws_unsubscribeTurns w"
  by (simp_all add: notifyWorking_def invalidateCaches_def)

lemma fold_notify:
  "ws_typingByChannel (fold (\<lambda>_. notifyWorking) ls w) = ws_typingByChannel w"
  "ws_listeners (fold (\<lambda>_. notifyWorking) ls w) = ws_listeners w"
  "ws_unsubscribeTurns (fold (\<lambda>_. notifyWorking) ls w) = ws_unsubscribeTurns w"
  "ls \<noteq> [] \<Longrightarrow> ws_stateCache (fold (\<lambda>_. notifyWorking) ls w) = [] \<and>
     ws_channelsCache (fold (\<lambda>_. notifyWorking) ls w) = None \<and>
     ws_channelPubkeysCache (fold (\<lambda>_. notifyWorking) ls w) = []"
proof -
  show "ws_typingByChannel (fold (\<lambda>_. notifyWorking) ls w) = ws_typingByChannel w"
    "ws_listeners (fold (\<lambda>_. notifyWorking) ls w) = ws_listeners w"
    "ws_unsubscribeTurns (fold (\<lambda>_. notifyWorking) ls w) = ws_unsubscribeTurns w"
    by (induction ls arbitrary: w) (simp_all add: notify_caches)
  show "ls \<noteq> [] \<Longrightarrow> ws_stateCache (fold (\<lambda>_. notifyWorking) ls w) = [] \<and>
     ws_channelsCache (fold (\<lambda>_. notifyWorking) ls w) = None \<and>
     ws_channelPubkeysCache (fold (\<lambda>_. notifyWorking) ls w) = []"
    by (induction ls arbitrary: w rule: rev_induct) (simp_all add: notify_caches)
qed

text \<open>A change of turns reaches the caches, because the turn store announces it.\<close>

lemma onTurns_ok:
  assumes "signal_ok lcmp st" and "turn_step False lcmp dp (sg_turns st) t'"
    and "WORKING_NOTIFY \<in> set (tu_listeners t') \<longleftrightarrow> WORKING_NOTIFY \<in> set (tu_listeners (sg_turns st))"
  shows "signal_ok lcmp (onTurns t' st)"
proof -
  have wf: "turns_wf False lcmp (sg_turns st)" using assms(1) by (simp add: signal_ok_def)
  have "caches_current lcmp (onTurns t' st)" if subscribed: "ws_listeners (sg_work st) \<noteq> []"
  proof (cases "turnCalls (sg_turns st) t' = []")
    case False
    then show ?thesis by (intro invalidated_current) (simp_all add: onTurns_def fold_notify)
  next
    case True
    have "WORKING_NOTIFY \<in> set (tu_listeners (sg_turns st))" using assms(1) subscribed by (simp add: signal_ok_def)
    moreover have "WORKING_NOTIFY \<notin> set (drop (length (tu_notified (sg_turns st))) (tu_notified t'))"
      using True by (auto simp: turnCalls_def filter_empty_conv)
    ultimately have "(turnSummaries lcmp t', channelTurnSummaries lcmp t') =
        (turnSummaries lcmp (sg_turns st), channelTurnSummaries lcmp (sg_turns st))"
      by (rule turns.silent_step [OF wf assms(2)])
    moreover have "caches_current lcmp st" using assms(1) subscribed by (simp add: signal_ok_def)
    ultimately show ?thesis by (elim caches_current_cong) (simp_all add: onTurns_def True)
  qed
  moreover have "turns_wf False lcmp t'" "keys_normal t'"
    using assms(1) turn_step_wf [OF assms(2)] keys_normal_step [OF assms(2)] by (simp_all add: signal_ok_def)
  ultimately show ?thesis
    using assms(1,3) by (simp add: signal_ok_def) (simp add: onTurns_def fold_notify)
qed

lemma mem_listeners_sadd: "x \<in> set (sadd ls l) \<longleftrightarrow> x = l \<or> x \<in> set ls"
  by auto

lemma subscribe_ok:
  assumes "signal_ok lcmp st"
  shows "signal_ok lcmp (subscribeAgentWorkingSignal l st)"
proof (cases "length (sadd (ws_listeners (sg_work st)) l) = 1")
  case True
  let ?st = "subscribeAgentWorkingSignal l st"
  have t: "sg_turns ?st = subscribeActiveAgentTurns WORKING_NOTIFY (sg_turns st)"
    and w: "sg_work ?st = (invalidateCaches ((sg_work st)\<lparr>ws_listeners := sadd (ws_listeners (sg_work st)) l\<rparr>))
      \<lparr>ws_unsubscribeTurns := True\<rparr>"
    using True by (simp_all add: subscribeAgentWorkingSignal_def)
  have "caches_current lcmp ?st" by (rule invalidated_current) (simp_all add: w invalidateCaches_def)
  moreover have "turns_wf False lcmp (sg_turns ?st)" "keys_normal (sg_turns ?st)"
    unfolding t using assms subscribe_turns_wf keys_normal_step [OF turn_subscribe] by (auto simp: signal_ok_def)
  moreover have "tu_listeners (sg_turns ?st) = sadd (tu_listeners (sg_turns st)) WORKING_NOTIFY"
    by (simp add: t subscribeActiveAgentTurns_def)
  ultimately show ?thesis using assms by (simp add: signal_ok_def w invalidateCaches_def)
next
  case False
  let ?st = "subscribeAgentWorkingSignal l st"
  have st: "?st = st\<lparr>sg_work := (sg_work st)\<lparr>ws_listeners := sadd (ws_listeners (sg_work st)) l\<rparr>\<rparr>"
    using False by (simp add: subscribeAgentWorkingSignal_def)
  have old: "ws_listeners (sg_work st) \<noteq> []" using False by (auto simp: sadd_def)
  then have "caches_current lcmp st" using assms by (simp add: signal_ok_def)
  then have "caches_current lcmp ?st" unfolding st by (rule caches_current_cong) simp_all
  with assms old show ?thesis unfolding signal_ok_def by (simp add: st)
qed

lemma unsubscribe_ok:
  assumes "signal_ok lcmp st"
  shows "signal_ok lcmp (unsubscribeAgentWorkingSignal l st)"
proof (cases "removeAll l (ws_listeners (sg_work st)) = []")
  case True
  let ?st = "unsubscribeAgentWorkingSignal l st"
  have "turns_wf False lcmp (sg_turns ?st)" "keys_normal (sg_turns ?st)"
    using assms True unsubscribe_turns_wf keys_normal_step [OF turn_unsubscribe]
    by (auto simp: signal_ok_def unsubscribeAgentWorkingSignal_def)
  moreover have "WORKING_NOTIFY \<notin> set (tu_listeners (sg_turns ?st))"
    using assms True by (auto simp: signal_ok_def unsubscribeAgentWorkingSignal_def unsubscribeActiveAgentTurns_def)
  ultimately show ?thesis
    using assms True by (simp add: signal_ok_def) (simp add: unsubscribeAgentWorkingSignal_def)
next
  case False
  let ?st = "unsubscribeAgentWorkingSignal l st"
  have st: "?st = st\<lparr>sg_work := (sg_work st)\<lparr>ws_listeners := removeAll l (ws_listeners (sg_work st))\<rparr>\<rparr>"
    using False by (simp add: unsubscribeAgentWorkingSignal_def)
  have old: "ws_listeners (sg_work st) \<noteq> []" using False by auto
  then have "caches_current lcmp st" using assms by (simp add: signal_ok_def)
  then have "caches_current lcmp ?st" unfolding st by (rule caches_current_cong) simp_all
  with assms old False show ?thesis unfolding signal_ok_def by (simp add: st)
qed

text \<open>Reading fills a cache with the current answer.\<close>

lemma state_read:
  assumes "signal_ok lcmp st" and "plainQuery pk c" and "ws_listeners (sg_work st) \<noteq> [] \<or> ws_stateCache (sg_work st) = []"
  shows "fst (getAgentWorkingState lcmp (Some pk) c st) = (if pk = [] then IDLE_STATE else stateNow lcmp st pk c)"
proof (cases "pk = [] \<or> jget (ws_stateCache (sg_work st)) (workingCacheKey pk c) \<noteq> None")
  case True
  have "v = stateNow lcmp st pk c" if "jget (ws_stateCache (sg_work st)) (workingCacheKey pk c) = Some v" for v
    using that assms unfolding signal_ok_def caches_current_def by (metis map_of.simps(1) option.distinct(1))
  then show ?thesis using True by (auto simp: getAgentWorkingState_def truthy_def split: option.splits)
next
  case False
  have "turns_wf False lcmp (sg_turns st)" using assms(1) by (simp add: signal_ok_def)
  then show ?thesis
    using False turns_read(1) [of lcmp "sg_turns st" "normalizePubkey pk"]
    by (auto simp: getAgentWorkingState_def computeAgentWorkingState_def stateNow_def truthy_def case_prod_unfold
        split: option.splits)
qed

lemma state_read_ok:
  assumes "signal_ok lcmp st" and "plainQuery pk c"
  shows "signal_ok lcmp (snd (getAgentWorkingState lcmp (Some pk) c st))"
proof (cases "pk = [] \<or> jget (ws_stateCache (sg_work st)) (workingCacheKey pk c) \<noteq> None")
  case True
  then show ?thesis using assms(1) by (auto simp: getAgentWorkingState_def truthy_def split: option.splits)
next
  case False
  let ?key = "normalizePubkey pk" and ?st = "snd (getAgentWorkingState lcmp (Some pk) c st)"
  have wf: "turns_wf False lcmp (sg_turns st)" using assms(1) by (simp add: signal_ok_def)
  have t: "sg_turns ?st = snd (getActiveTurnsForAgent lcmp (Some ?key) (sg_turns st))"
    and w: "sg_work ?st = (sg_work st)\<lparr>ws_stateCache := jset (ws_stateCache (sg_work st)) (workingCacheKey pk c) (stateNow lcmp st pk c)\<rparr>"
    using False turns_read(1) [OF wf, of ?key]
    by (auto simp: getAgentWorkingState_def computeAgentWorkingState_def stateNow_def truthy_def case_prod_unfold
        split: option.splits)
  have view: "turnSummaries lcmp (sg_turns ?st) = turnSummaries lcmp (sg_turns st)"
    "channelTurnSummaries lcmp (sg_turns ?st) = channelTurnSummaries lcmp (sg_turns st)"
    unfolding t using same_facts_summaries [OF turns_read_same(1)] by blast+
  have typing: "ws_typingByChannel (sg_work ?st) = ws_typingByChannel (sg_work st)" by (simp add: w)
  note now = now_cong [OF view typing]
  have "caches_current lcmp ?st" if "caches_current lcmp st"
  proof -
    have "stateNow lcmp st pk' c' = stateNow lcmp st pk c"
      if "plainQuery pk' c'" "workingCacheKey pk' c' = workingCacheKey pk c" for pk' c'
      using workingCacheKey_inj [OF that(1) assms(2) that(2)] by (simp add: stateNow_def)
    with that show ?thesis unfolding caches_current_def now w by auto
  qed
  moreover have "turns_wf False lcmp (sg_turns ?st)" "keys_normal (sg_turns ?st)"
    unfolding t using assms(1) read_turns_wf(1) keys_normal_step [OF turn_read] by (auto simp: signal_ok_def)
  ultimately show ?thesis using assms(1) unfolding signal_ok_def by (simp add: w) (simp add: t turns_read_same)
qed

lemma channels_read:
  assumes "signal_ok lcmp st"
  shows "ws_listeners (sg_work st) \<noteq> [] \<or> ws_channelsCache (sg_work st) = None \<Longrightarrow>
      fst (getWorkingChannels lcmp st) = channelsNow lcmp st"
    and "signal_ok lcmp (snd (getWorkingChannels lcmp st))"
proof -
  have wf: "turns_wf False lcmp (sg_turns st)" using assms by (simp add: signal_ok_def)
  show "fst (getWorkingChannels lcmp st) = channelsNow lcmp st"
    if "ws_listeners (sg_work st) \<noteq> [] \<or> ws_channelsCache (sg_work st) = None"
    using that assms turns_read(2) [OF wf]
    by (auto simp: getWorkingChannels_def signal_ok_def caches_current_def channelsNow_def case_prod_unfold
        split: option.splits)
  show "signal_ok lcmp (snd (getWorkingChannels lcmp st))"
  proof (cases "ws_channelsCache (sg_work st)")
    case None
    let ?st = "snd (getWorkingChannels lcmp st)"
    have t: "sg_turns ?st = snd (getActiveTurnsByChannel lcmp (sg_turns st))"
      and w: "sg_work ?st = (sg_work st)\<lparr>ws_channelsCache := Some (channelsNow lcmp st)\<rparr>"
      using None turns_read(2) [OF wf] by (simp_all add: getWorkingChannels_def channelsNow_def case_prod_unfold)
    have view: "turnSummaries lcmp (sg_turns ?st) = turnSummaries lcmp (sg_turns st)"
      "channelTurnSummaries lcmp (sg_turns ?st) = channelTurnSummaries lcmp (sg_turns st)"
      unfolding t using same_facts_summaries [OF turns_read_same(2)] by blast+
    have typing: "ws_typingByChannel (sg_work ?st) = ws_typingByChannel (sg_work st)" by (simp add: w)
  note now = now_cong [OF view typing]
    have "caches_current lcmp ?st" if "caches_current lcmp st"
      using that unfolding caches_current_def now w by simp
    moreover have "turns_wf False lcmp (sg_turns ?st)" "keys_normal (sg_turns ?st)"
      unfolding t using assms read_turns_wf(2) keys_normal_step [OF turn_read_channels] by (auto simp: signal_ok_def)
    ultimately show ?thesis using assms unfolding signal_ok_def by (simp add: w) (simp add: t turns_read_same)
  qed (use assms in \<open>simp add: getWorkingChannels_def\<close>)
qed

lemma pubkeys_read:
  assumes "signal_ok lcmp st"
  shows "c \<noteq> [] \<Longrightarrow> ws_listeners (sg_work st) \<noteq> [] \<or> ws_channelPubkeysCache (sg_work st) = [] \<Longrightarrow>
      fst (getWorkingAgentPubkeysForChannel lcmp (Some c) st) = pubkeysNow lcmp st c"
    and "signal_ok lcmp (snd (getWorkingAgentPubkeysForChannel lcmp ch st))"
proof -
  have wf: "turns_wf False lcmp (sg_turns st)" using assms by (simp add: signal_ok_def)
  show "fst (getWorkingAgentPubkeysForChannel lcmp (Some c) st) = pubkeysNow lcmp st c"
    if "c \<noteq> []" "ws_listeners (sg_work st) \<noteq> [] \<or> ws_channelPubkeysCache (sg_work st) = []"
    using that assms turns_read(2) [OF wf]
    by (auto simp: getWorkingAgentPubkeysForChannel_def truthy_def signal_ok_def caches_current_def pubkeysNow_def
        case_prod_unfold split: option.splits)
  show "signal_ok lcmp (snd (getWorkingAgentPubkeysForChannel lcmp ch st))"
  proof (cases "truthy ch \<and> jget (ws_channelPubkeysCache (sg_work st)) (the ch) = None")
    case True
    let ?st = "snd (getWorkingAgentPubkeysForChannel lcmp ch st)"
    have t: "sg_turns ?st = snd (getActiveTurnsByChannel lcmp (sg_turns st))"
      and w: "sg_work ?st = (sg_work st)\<lparr>ws_channelPubkeysCache :=
        jset (ws_channelPubkeysCache (sg_work st)) (the ch) (pubkeysNow lcmp st (the ch))\<rparr>"
      using True turns_read(2) [OF wf]
      by (simp_all add: getWorkingAgentPubkeysForChannel_def pubkeysNow_def case_prod_unfold)
    have view: "turnSummaries lcmp (sg_turns ?st) = turnSummaries lcmp (sg_turns st)"
      "channelTurnSummaries lcmp (sg_turns ?st) = channelTurnSummaries lcmp (sg_turns st)"
      unfolding t using same_facts_summaries [OF turns_read_same(2)] by blast+
    have typing: "ws_typingByChannel (sg_work ?st) = ws_typingByChannel (sg_work st)" by (simp add: w)
  note now = now_cong [OF view typing]
    have "caches_current lcmp ?st" if "caches_current lcmp st"
      using that unfolding caches_current_def now w by auto
    moreover have "turns_wf False lcmp (sg_turns ?st)" "keys_normal (sg_turns ?st)"
      unfolding t using assms read_turns_wf(2) keys_normal_step [OF turn_read_channels] by (auto simp: signal_ok_def)
    ultimately show ?thesis using assms unfolding signal_ok_def by (simp add: w) (simp add: t turns_read_same)
  qed (use assms in \<open>auto simp: getWorkingAgentPubkeysForChannel_def split: option.splits\<close>)
qed

lemma signal_step_ok:
  assumes "signal_step lcmp dp st st'" and "signal_ok lcmp st"
  shows "signal_ok lcmp st'"
  using assms
proof (induction rule: signal_step.induct)
  case (sig_turns st t')
  then show ?case by (intro onTurns_ok)
next
  case (sig_typing st now c pks)
  let ?w = "reportChannelBotTyping now c pks (sg_work st)"
  have "?w = sg_work st \<or> (\<exists>w. ?w = notifyWorking w)" by (simp add: reportChannelBotTyping_def) blast
  then have "caches_current lcmp (st\<lparr>sg_work := ?w\<rparr>)" if "ws_listeners (sg_work st) \<noteq> []"
    using that sig_typing
    by (auto simp: signal_ok_def notify_caches intro: invalidated_current)
  moreover have "ws_listeners ?w = ws_listeners (sg_work st)" "ws_unsubscribeTurns ?w = ws_unsubscribeTurns (sg_work st)"
    by (simp_all add: reportChannelBotTyping_def notify_caches)
  ultimately show ?case using sig_typing report_typing_ok by (simp add: signal_ok_def)
next
  case (sig_reset st)
  have "caches_current lcmp (st\<lparr>sg_work := resetAgentWorkingSignal (sg_work st)\<rparr>)"
    by (rule invalidated_current) (simp_all add: resetAgentWorkingSignal_def notify_caches)
  with sig_reset show ?case
    by (simp add: signal_ok_def) (simp add: resetAgentWorkingSignal_def notify_caches typing_ok_Nil)
qed (simp_all add: subscribe_ok unsubscribe_ok state_read_ok channels_read(2) pubkeys_read(2))

lemma empty_signal_ok: "signal_ok lcmp emptySignal"
  by (simp add: signal_ok_def emptySignal_def empty_turns_wf typing_ok_Nil WORKING_NOTIFY_def)
    (simp add: emptyTurnsStore_def keys_normal_def normalKeys_def)

lemma signal_reachable_ok: "signal_reachable lcmp dp st \<Longrightarrow> signal_ok lcmp st"
  by (induction rule: signal_reachable.induct) (simp add: empty_signal_ok, rule signal_step_ok)

definition withoutCaches :: "signal_state \<Rightarrow> signal_state" where
  "withoutCaches st = st\<lparr>sg_work := invalidateCaches (sg_work st)\<rparr>"

lemma withoutCaches_ok:
  assumes "signal_ok lcmp st"
  shows "signal_ok lcmp (withoutCaches st)" and "stateNow lcmp (withoutCaches st) = stateNow lcmp st"
    and "channelsNow lcmp (withoutCaches st) = channelsNow lcmp st"
    and "pubkeysNow lcmp (withoutCaches st) = pubkeysNow lcmp st"
proof -
  have "caches_current lcmp (withoutCaches st)"
    by (rule invalidated_current) (simp_all add: withoutCaches_def invalidateCaches_def)
  then show "signal_ok lcmp (withoutCaches st)"
    using assms by (simp add: signal_ok_def) (simp add: withoutCaches_def invalidateCaches_def)
qed (rule now_cong; simp add: withoutCaches_def invalidateCaches_def)+

text \<open>
  C10. The caches of the signal are transparent: in every reachable state of the signal and the turn
  store with at least one subscriber, each of the three reads answers what it would answer with all
  caches dropped, whatever turn, typing and community events came before. The read of one agent is for a
  key without a bar and a channel that is absent or not the empty string (\<open>plainQuery\<close>), since its cache is keyed by the two
  joined with a bar.
\<close>

theorem working_caches_transparent:
  assumes "signal_reachable lcmp dp st" and "ws_listeners (sg_work st) \<noteq> []" and "plainQuery pk ch"
  shows "fst (getAgentWorkingState lcmp (Some pk) ch st) = fst (getAgentWorkingState lcmp (Some pk) ch (withoutCaches st)) \<and>
    fst (getWorkingChannels lcmp st) = fst (getWorkingChannels lcmp (withoutCaches st)) \<and>
    fst (getWorkingAgentPubkeysForChannel lcmp c st) = fst (getWorkingAgentPubkeysForChannel lcmp c (withoutCaches st))"
proof -
  note ok = signal_reachable_ok [OF assms(1)]
  note ok' = withoutCaches_ok(1) [OF ok] and now = withoutCaches_ok(2-4) [OF ok]
  have dropped: "ws_stateCache (sg_work (withoutCaches st)) = []" "ws_channelsCache (sg_work (withoutCaches st)) = None"
    "ws_channelPubkeysCache (sg_work (withoutCaches st)) = []"
    by (simp_all add: withoutCaches_def invalidateCaches_def)
  have "fst (getWorkingAgentPubkeysForChannel lcmp c st) = fst (getWorkingAgentPubkeysForChannel lcmp c (withoutCaches st))"
    using pubkeys_read(1) [OF ok] pubkeys_read(1) [OF ok'] assms(2)
    by (cases "truthy c") (auto simp: dropped now truthy_def getWorkingAgentPubkeysForChannel_def [of _ None]
        getWorkingAgentPubkeysForChannel_def [of _ "Some []"] split: option.splits)
  then show ?thesis
    using state_read [OF ok assms(3)] state_read [OF ok' assms(3)] channels_read(1) [OF ok] channels_read(1) [OF ok'] assms(2)
    by (simp add: dropped now)
qed

text \<open>A sample: one subscriber, then an agent starts a turn and another is seen typing.\<close>

definition sample_subscribed :: signal_state where
  "sample_subscribed = subscribeAgentWorkingSignal 7 emptySignal"

definition sample_signal :: signal_state where
  "sample_signal =
     (let st = onTurns (processEvent length_clock 5 ''pk'' (sample_event 1 ''x'' ''turn_started'') (sg_turns sample_subscribed))
            sample_subscribed
      in st\<lparr>sg_work := reportChannelBotTyping 6 ''chan'' [''QK''] (sg_work st)\<rparr>)"

lemma sample_signal_reachable: "signal_reachable compareStrings length_clock sample_signal"
proof -
  let ?t = "processEvent length_clock 5 ''pk'' (sample_event 1 ''x'' ''turn_started'') (sg_turns sample_subscribed)"
  have start: "signal_reachable compareStrings length_clock sample_subscribed"
    unfolding sample_subscribed_def by (rule signal_next [OF signal_empty sig_subscribe])
  have "tu_listeners ?t = tu_listeners (sg_turns sample_subscribed)"
    using processEvent_announces [of "sg_turns sample_subscribed" length_clock 5 "''pk''" "sample_event 1 ''x'' ''turn_started''"]
    by (auto simp: same_log_def)
  then have "signal_step compareStrings length_clock sample_subscribed (onTurns ?t sample_subscribed)"
    by (intro sig_turns turn_event) (simp_all add: sample_event_def parseable_def length_clock_def)
  from signal_next [OF signal_next [OF start this] sig_typing] show ?thesis by (simp add: sample_signal_def)
qed

lemma sample_signal_listeners: "ws_listeners (sg_work sample_signal) = [7]"
  by (simp add: sample_signal_def reportChannelBotTyping_def notify_caches onTurns_def fold_notify sample_subscribed_def
      subscribeAgentWorkingSignal_def emptySignal_def sadd_def invalidateCaches_def)

theorem working_caches_transparent_witness:
  "fst (getWorkingChannels compareStrings sample_signal) = fst (getWorkingChannels compareStrings (withoutCaches sample_signal))"
proof -
  have "plainQuery ''pk'' None" by code_simp
  with working_caches_transparent [OF sample_signal_reachable, of "''pk''"] show ?thesis
    by (simp add: sample_signal_listeners)
qed

lemma typing_okD:
  assumes "typing_ok typing" and "(c, entries) \<in> set typing"
  shows "entries \<noteq> [] \<and> jwf entries \<and> (\<forall>k\<in>set (jkeys entries). normalizePubkey k = k)"
proof -
  have "jwf typing" using assms(1) unfolding typing_ok_def by blast
  then have "jget typing c = Some entries" using assms(2) by (simp add: jget_in_set)
  with assms(1) show ?thesis unfolding typing_ok_def by blast
qed

lemma merged_channels:
  assumes "signal_ok lcmp st"
  shows "channels_ok (\<lambda>c. {k. worksIn (sg_turns st) k c} \<union> {k. typesIn (ws_typingByChannel (sg_work st)) k c})
    (fold mergeTypingChannel (ws_typingByChannel (sg_work st))
      (fold (\<lambda>y m. jset m (cs_channelId y) (observerSummary y)) (channelTurnSummaries lcmp (sg_turns st)) []))"
proof (rule mergeTyping_fold_ok)
  have wf: "turns_wf False lcmp (sg_turns st)" and keys: "keys_normal (sg_turns st)"
    and typing: "typing_ok (ws_typingByChannel (sg_work st))"
    using assms by (simp_all add: signal_ok_def)
  show "channels_ok (\<lambda>c. {k. worksIn (sg_turns st) k c})
      (fold (\<lambda>y m. jset m (cs_channelId y) (observerSummary y)) (channelTurnSummaries lcmp (sg_turns st)) [])"
    by (rule observer_channels [OF wf])
  show "\<forall>c. \<forall>k\<in>{k. worksIn (sg_turns st) k c}. normalizePubkey k = k"
  proof (intro allI ballI)
    fix c k assume "k \<in> {k. worksIn (sg_turns st) k c}"
    then have "jget (tu_activeTurnsByAgent (sg_turns st)) k \<noteq> None"
      by (cases "jget (tu_activeTurnsByAgent (sg_turns st)) k") (auto simp: worksIn_def agentTurns_def jget_or_def)
    then have "k \<in> set (jkeys (tu_activeTurnsByAgent (sg_turns st)))" by (simp add: map_of_eq_None_iff)
    then show "normalizePubkey k = k" using keys unfolding keys_normal_def normalKeys_def by blast
  qed
  show "distinct (jkeys (ws_typingByChannel (sg_work st)))" using typing by (simp add: typing_ok_def jwf_def)
  show "\<forall>(c, entries)\<in>set (ws_typingByChannel (sg_work st)).
      entries \<noteq> [] \<and> jwf entries \<and> (\<forall>k\<in>set (jkeys entries). normalizePubkey k = k)"
  proof
    fix e assume e: "e \<in> set (ws_typingByChannel (sg_work st))"
    obtain c entries where "e = (c, entries)" by fastforce
    with typing_okD [OF typing, of c entries] e
    show "case e of (c, entries) \<Rightarrow> entries \<noteq> [] \<and> jwf entries \<and> (\<forall>k\<in>set (jkeys entries). normalizePubkey k = k)"
      by simp
  qed
qed

text \<open>
  C30. The three views of the signal agree: an agent is listed among a channel's working agents, and
  in the channel's summary, exactly when its own state scoped to that channel says it is working;
  there is one summary per channel, counting each agent once.
\<close>

theorem working_views_agree:
  assumes "signal_reachable lcmp dp st" and "ws_listeners (sg_work st) \<noteq> []" and "plainQuery pk (Some c)"
    and "normalizePubkey pk = pk" and "pk \<noteq> []"
  shows "let working = wk_working (fst (getAgentWorkingState lcmp (Some pk) (Some c) st));
      channels = fst (getWorkingChannels lcmp st) in
    (pk \<in> set (fst (getWorkingAgentPubkeysForChannel lcmp (Some c) st)) \<longleftrightarrow> working) \<and>
    ((\<exists>y\<in>set channels. wy_channelId y = c \<and> pk \<in> set (wy_agentPubkeys y)) \<longleftrightarrow> working) \<and>
    distinct (map wy_channelId channels) \<and>
    (\<forall>y\<in>set channels. wy_agentCount y = length (wy_agentPubkeys y) \<and> distinct (wy_agentPubkeys y))"
proof -
  note ok = signal_reachable_ok [OF assms(1)]
  let ?typing = "ws_typingByChannel (sg_work st)" and ?t = "sg_turns st"
  define M where "M = fold mergeTypingChannel ?typing
      (fold (\<lambda>y m. jset m (cs_channelId y) (observerSummary y)) (channelTurnSummaries lcmp ?t) [])"
  have wf: "turns_wf False lcmp ?t" and keys: "keys_normal ?t" and typing: "typing_ok ?typing"
    using ok by (simp_all add: signal_ok_def)
  have c: "c \<noteq> []" using assms(3) by (simp add: plainQuery_def)
  have working: "wk_working (fst (getAgentWorkingState lcmp (Some pk) (Some c) st)) \<longleftrightarrow> worksIn ?t pk c \<or> typesIn ?typing pk c"
    using state_read [OF ok assms(3)] assms(2,4,5) merged_source(2) [OF typing] by (simp add: stateNow_def)
  have listed: "pk \<in> set (fst (getWorkingAgentPubkeysForChannel lcmp (Some c) st)) \<longleftrightarrow> worksIn ?t pk c \<or> typesIn ?typing pk c"
    using pubkeys_read(1) [OF ok c] assms(2) merged_pubkeys [OF wf keys] by (simp add: pubkeysNow_def)
  have channels: "fst (getWorkingChannels lcmp st) = js_sort (\<lambda>a b. lcmp (wy_channelId a) (wy_channelId b)) (jvals M)"
    using channels_read(1) [OF ok] assms(2) by (simp add: channelsNow_def mergeWorkingChannels_def M_def)
  show ?thesis
    using channels_ok_views [OF merged_channels [OF ok, folded M_def]]
    unfolding Let_def working listed channels by (simp del: set_map)
qed

theorem working_views_agree_witness:
  "''qk'' \<in> set (fst (getWorkingAgentPubkeysForChannel compareStrings (Some ''chan'') sample_signal)) \<longleftrightarrow>
   wk_working (fst (getAgentWorkingState compareStrings (Some ''qk'') (Some ''chan'') sample_signal))"
proof -
  have "plainQuery ''qk'' (Some ''chan'')" "normalizePubkey ''qk'' = ''qk''" by code_simp+
  with working_views_agree [OF sample_signal_reachable, of "''qk''" "''chan''"] show ?thesis
    unfolding Let_def by (simp add: sample_signal_listeners)
qed

end
