(* ===== verification/LocalStorage.thy ===== *)
theory LocalStorage
  imports Json
begin

text \<open>
  The webview's \<open>localStorage\<close> and the quota-aware write of
  \<open>shared/lib/localStorageQuota.ts\<close>. A store holds string items and a quota on their total
  length; \<open>setItem\<close> throws (here: \<open>None\<close>) when the quota would be exceeded and then leaves the
  store as it was. The locale \<open>kv_storage\<close> is what the components that persist state rely on.
\<close>

record local_storage =
  st_items :: "(string, string) jsmap"
  st_quota :: nat
  st_warned :: bool
  st_toasts :: nat

definition storage_size :: "(string, string) jsmap \<Rightarrow> nat" where
  "storage_size items = sum_list (map (\<lambda>(k, v). length k + length v) items)"

definition getItem :: "local_storage \<Rightarrow> string \<Rightarrow> string option" where
  "getItem s key = jget (st_items s) key"

definition setItem :: "local_storage \<Rightarrow> string \<Rightarrow> string \<Rightarrow> local_storage option" where
  "setItem s key val =
     (let items = jset (st_items s) key val in
      if storage_size items \<le> st_quota s then Some (s\<lparr>st_items := items\<rparr>) else None)"

definition removeItem :: "local_storage \<Rightarrow> string \<Rightarrow> local_storage" where
  "removeItem s key = s\<lparr>st_items := jdel (st_items s) key\<rparr>"

definition PURE_CACHE_KEY_PREFIXES :: "string list" where
  "PURE_CACHE_KEY_PREFIXES =
     [''buzz-channel-messages.v1'', ''buzz-channels.v1'', ''buzz-timeline-skeleton-shape.v1'']"

definition isPureCacheKey :: "string \<Rightarrow> bool" where
  "isPureCacheKey key = list_ex (\<lambda>prefix. startsWith key prefix) PURE_CACHE_KEY_PREFIXES"

definition evictPureCacheEntries :: "local_storage \<Rightarrow> local_storage \<times> nat" where
  "evictPureCacheEntries s =
     (let toRemove = filter isPureCacheKey (jkeys (st_items s)) in
      (fold (\<lambda>key s. removeItem s key) toRemove s, length toRemove))"

definition notifyStorageFull :: "local_storage \<Rightarrow> local_storage" where
  "notifyStorageFull s =
     (if st_warned s then s else s\<lparr>st_warned := True, st_toasts := Suc (st_toasts s)\<rparr>)"

definition setLocalStorageItemWithRecovery ::
  "local_storage \<Rightarrow> string \<Rightarrow> string \<Rightarrow> bool \<times> local_storage" where
  "setLocalStorageItemWithRecovery s key val =
     (case setItem s key val of
        Some s' \<Rightarrow> (True, s')
      | None \<Rightarrow>
          (case evictPureCacheEntries s of
             (s1, evicted) \<Rightarrow>
               if evicted > 0 then
                 (case setItem s1 key val of
                    Some s2 \<Rightarrow> (True, s2)
                  | None \<Rightarrow> (False, notifyStorageFull s1))
               else (False, notifyStorageFull s1)))"

subsection \<open>The contract of a store\<close>

text \<open>
  \<open>durable key\<close>: the key is not a pure cache entry, so no write of another key removes it.
\<close>

locale kv_storage =
  fixes look :: "'s \<Rightarrow> string \<Rightarrow> string option"
    and put :: "'s \<Rightarrow> string \<Rightarrow> string \<Rightarrow> bool \<times> 's"
    and durable :: "string \<Rightarrow> bool"
  assumes read_written: "put s k v = (True, s') \<Longrightarrow> look s' k = Some v"
    and read_other: "put s k v = (b, s') \<Longrightarrow> k' \<noteq> k \<Longrightarrow> durable k' \<Longrightarrow> look s' k' = look s k'"
    and read_failed: "put s k v = (False, s') \<Longrightarrow> durable k \<Longrightarrow> look s' k = look s k"
begin

text \<open>A durable key holds either what was written or what it held before.\<close>

lemma read_after_write:
  assumes "put s k v = (b, s')" and "durable k"
  shows "look s' k = (if b then Some v else look s k)"
  using assms read_written read_failed by (cases b) auto

text \<open>Two writes to different durable keys do not disturb each other.\<close>

lemma read_two_writes:
  assumes "put s k v = (True, s1)" and "put s1 k' v' = (b, s2)" and "k \<noteq> k'" and "durable k"
  shows "look s2 k = Some v"
  using assms read_written read_other by metis

end

subsection \<open>Lemmas\<close>

lemma st_items_fold_removeItem:
  "st_items (fold (\<lambda>key s. removeItem s key) keys s) = filter (\<lambda>(k, v). k \<notin> set keys) (st_items s)"
  by (induction keys arbitrary: s)
    (auto simp: removeItem_def AList.delete_eq intro: filter_cong)

lemma quota_fold_removeItem:
  "st_quota (fold (\<lambda>key s. removeItem s key) keys s) = st_quota s"
  by (induction keys arbitrary: s) (simp_all add: removeItem_def)

lemma evict_items:
  "st_items (fst (evictPureCacheEntries s)) = filter (\<lambda>(k, v). \<not> isPureCacheKey k) (st_items s)"
  by (auto simp: evictPureCacheEntries_def st_items_fold_removeItem intro!: filter_cong) force

lemma evict_quota: "st_quota (fst (evictPureCacheEntries s)) = st_quota s"
  by (simp add: evictPureCacheEntries_def quota_fold_removeItem)

lemma evict_none:
  "snd (evictPureCacheEntries s) = 0 \<Longrightarrow> st_items (fst (evictPureCacheEntries s)) = st_items s"
  unfolding evict_items
  by (auto simp: evictPureCacheEntries_def filter_empty_conv intro!: filter_True)

lemma notifyStorageFull_items [simp]:
  "st_items (notifyStorageFull s) = st_items s" "st_quota (notifyStorageFull s) = st_quota s"
  by (simp_all add: notifyStorageFull_def)

lemma map_of_filter_keys:
  "P k \<Longrightarrow> map_of (filter (\<lambda>(k, v). P k) m) k = map_of m k"
  by (induction m) auto

lemma getItem_evict: "\<not> isPureCacheKey k \<Longrightarrow> getItem (fst (evictPureCacheEntries s)) k = getItem s k"
  by (simp add: getItem_def evict_items map_of_filter_keys)

lemma getItem_setItem:
  "setItem s k v = Some s' \<Longrightarrow> getItem s' k' = (if k' = k then Some v else getItem s k')"
  by (auto simp: setItem_def getItem_def split: if_splits)

lemma write_cases:
  assumes "setLocalStorageItemWithRecovery s k v = (b, s')"
  obtains "b" and "setItem s k v = Some s'"
  | "b" and "setItem (fst (evictPureCacheEntries s)) k v = Some s'"
  | "\<not> b" and "st_items s' = st_items (fst (evictPureCacheEntries s))"
  using assms
  by (auto simp: setLocalStorageItemWithRecovery_def split: option.splits prod.splits if_splits)

interpretation storage: kv_storage getItem setLocalStorageItemWithRecovery "\<lambda>k. \<not> isPureCacheKey k"
proof
  fix s k v s'
  assume "setLocalStorageItemWithRecovery s k v = (True, s')"
  then show "getItem s' k = Some v" by (cases rule: write_cases) (auto simp: getItem_setItem)
next
  fix s k v b s' k'
  assume "setLocalStorageItemWithRecovery s k v = (b, s')" and "k' \<noteq> k" and "\<not> isPureCacheKey k'"
  then show "getItem s' k' = getItem s k'"
    by (cases rule: write_cases) (auto simp: getItem_setItem getItem_evict, simp add: getItem_def
        evict_items map_of_filter_keys)
next
  fix s k v s'
  assume "setLocalStorageItemWithRecovery s k v = (False, s')" and "\<not> isPureCacheKey k"
  then show "getItem s' k = getItem s k"
    by (cases rule: write_cases) (auto simp: getItem_def evict_items map_of_filter_keys)
qed

lemma filter_jset:
  "\<not> isPureCacheKey k \<Longrightarrow>
   jset (filter (\<lambda>(k, v). \<not> isPureCacheKey k) m) k v = filter (\<lambda>(k, v). \<not> isPureCacheKey k) (jset m k v)"
  by (induction m) auto

lemma write_fits:
  assumes "\<not> isPureCacheKey k"
    and "storage_size (filter (\<lambda>(k, v). \<not> isPureCacheKey k) (jset (st_items s) k v)) \<le> st_quota s"
  shows "\<exists>s'. setLocalStorageItemWithRecovery s k v = (True, s')"
proof -
  obtain b s' where w: "setLocalStorageItemWithRecovery s k v = (b, s')" by fastforce
  have fits: "setItem (fst (evictPureCacheEntries s)) k v \<noteq> None"
    using assms by (simp add: setItem_def evict_items evict_quota filter_jset)
  moreover have "setItem s k v \<noteq> None" if "snd (evictPureCacheEntries s) = 0"
    using fits evict_none [OF that] by (simp add: setItem_def evict_quota split: if_splits)
  ultimately have b
    using w by (auto simp: setLocalStorageItemWithRecovery_def split: option.splits prod.splits if_splits)
  with w show ?thesis by simp
qed

text \<open>
  C28. The quota-aware write gives load-bearing state the whole quota: whenever the durable
  entries together with the new value fit the quota, the write succeeds, however full of
  snapshot caches the store is; it reads back, and every other durable entry is untouched.
\<close>

theorem setLocalStorageItemWithRecovery_complete:
  assumes "\<not> isPureCacheKey k"
    and "storage_size (filter (\<lambda>(k, v). \<not> isPureCacheKey k) (jset (st_items s) k v)) \<le> st_quota s"
  shows "\<exists>s'. setLocalStorageItemWithRecovery s k v = (True, s') \<and> getItem s' k = Some v \<and>
    (\<forall>k'. k' \<noteq> k \<longrightarrow> \<not> isPureCacheKey k' \<longrightarrow> getItem s' k' = getItem s k')"
proof -
  obtain s' where "setLocalStorageItemWithRecovery s k v = (True, s')" using write_fits [OF assms] by blast
  then show ?thesis
    using storage.read_written storage.read_other by blast
qed

theorem setLocalStorageItemWithRecovery_complete_witness:
  "let s = \<lparr>st_items = [(''buzz-channels.v1:me'', ''0123456789''), (''k'', ''old'')], st_quota = 32,
            st_warned = False, st_toasts = 0\<rparr>
   in \<exists>s'. setLocalStorageItemWithRecovery s ''k'' ''new-value'' = (True, s') \<and>
        getItem s' ''k'' = Some ''new-value''"
proof -
  let ?s = "\<lparr>st_items = [(''buzz-channels.v1:me'', ''0123456789''), (''k'', ''old'')], st_quota = 32,
            st_warned = False, st_toasts = 0\<rparr>"
  have k: "\<not> isPureCacheKey ''k''" and "isPureCacheKey ''buzz-channels.v1:me''"
    by (simp_all add: isPureCacheKey_def PURE_CACHE_KEY_PREFIXES_def startsWith_def)
  then have "storage_size (filter (\<lambda>(k, v). \<not> isPureCacheKey k) (jset (st_items ?s) ''k'' ''new-value''))
      \<le> st_quota ?s"
    by (simp add: storage_size_def)
  from setLocalStorageItemWithRecovery_complete [OF k this] show ?thesis
    unfolding Let_def by blast
qed

end
