(* ===== verification/ReadState.thy ===== *)
theory ReadState
  imports LocalStorage
begin

text \<open>
  Read state (\<open>features/channels/readState\<close>): which contexts (channels, threads, messages) the
  user has read, and up to when. \<open>readStateFormat.ts\<close> names and validates contexts,
  \<open>readStateStorage.ts\<close> persists and prunes them, \<open>readStateManager.ts\<close> keeps the live state and
  the slot budget of the published blob.

  \<open>Date.parse\<close> and \<open>Date.prototype.toISOString\<close> are the parameters \<open>date_parse\<close> (milliseconds,
  \<open>None\<close> for \<open>NaN\<close>) and \<open>to_iso\<close>; \<open>toISOString\<close> throws a \<open>RangeError\<close> outside the range of
  \<open>Date\<close>, which the model keeps as \<open>RangeError\<close>. Records are association lists in insertion
  order (keys that look like array indices, which JavaScript would list first, do not occur:
  contexts are channel ids or carry a prefix).
\<close>

subsection \<open>Format\<close>

definition READ_STATE_D_TAG_PREFIX :: string where "READ_STATE_D_TAG_PREFIX = ''read-state:''"
definition READ_STATE_HORIZON_SECONDS :: int where "READ_STATE_HORIZON_SECONDS = 7 * 24 * 60 * 60"
definition MAX_CONTEXTS :: nat where "MAX_CONTEXTS = 10000"
definition LOCAL_MAX_PRUNABLE_CONTEXTS :: nat where "LOCAL_MAX_PRUNABLE_CONTEXTS = 1000"
definition MSG_PREFIX :: string where "MSG_PREFIX = ''msg:''"
definition THREAD_PREFIX :: string where "THREAD_PREFIX = ''thread:''"

definition maxReadAt :: "int option list \<Rightarrow> int option" where
  "maxReadAt markers =
     foldl (\<lambda>latest marker.
       case marker of
         None \<Rightarrow> latest
       | Some m \<Rightarrow>
           (case latest of
              None \<Rightarrow> Some m
            | Some l \<Rightarrow> if m > l then Some m else Some l)) None markers"

definition msgContextKey :: "string \<Rightarrow> string" where
  "msgContextKey messageId = MSG_PREFIX @ messageId"

definition is_event_id :: "string \<Rightarrow> bool" where
  "is_event_id s =
     (length s = 64 \<and>
      list_all (\<lambda>c. let n = of_char c :: nat in (48 \<le> n \<and> n \<le> 57) \<or> (97 \<le> n \<and> n \<le> 102)) s)"

definition isThreadContextKey :: "string \<Rightarrow> bool" where
  "isThreadContextKey val =
     (startsWith val THREAD_PREFIX \<and> is_event_id (drop (length THREAD_PREFIX) val))"

definition isMsgContextKey :: "string \<Rightarrow> bool" where
  "isMsgContextKey val =
     (startsWith val MSG_PREFIX \<and> is_event_id (drop (length MSG_PREFIX) val))"

definition localReadStateKey :: "string \<Rightarrow> string" where
  "localReadStateKey pubkey = ''buzz.channel-read-state.v2:'' @ pubkey"

definition localPublishableContextKey :: "string \<Rightarrow> string" where
  "localPublishableContextKey pubkey = ''buzz.channel-read-state.publishable.v1:'' @ pubkey"

definition localSourceCreatedAtKey :: "string \<Rightarrow> string" where
  "localSourceCreatedAtKey pubkey = ''buzz.channel-read-state.source-created-at.v1:'' @ pubkey"

definition isValidBlob :: "jsval \<Rightarrow> bool" where
  "isValidBlob obj =
     (case obj of
        JObj record \<Rightarrow>
          jfield record ''v'' = Some (JNum 1) \<and>
          (case jfield record ''client_id'' of
             Some (JStr c) \<Rightarrow> 0 < length c \<and> length c \<le> 64
           | _ \<Rightarrow> False) \<and>
          (case jfield record ''contexts'' of
             Some (JObj contexts) \<Rightarrow> length contexts \<le> MAX_CONTEXTS
           | _ \<Rightarrow> False)
      | _ \<Rightarrow> False)"

fun sanitizeContexts :: "(string \<times> jsval) list \<Rightarrow> (string, int) jsmap \<Rightarrow> (string, int) jsmap" where
  "sanitizeContexts [] result = result"
| "sanitizeContexts ((key, val) # entries) result =
     (if utf8_len key > 256 then sanitizeContexts entries result
      else case val of
        JNum n \<Rightarrow>
          if n < 0 \<or> n > 4294967295 then sanitizeContexts entries result
          else sanitizeContexts entries (jset result key n)
      | _ \<Rightarrow> sanitizeContexts entries result)"

definition isAscii :: "string \<Rightarrow> bool" where
  "isAscii s = list_all (\<lambda>c. (of_char c :: nat) \<le> 127) s"

definition isValidReadStateDTag :: "string option \<Rightarrow> bool" where
  "isValidReadStateDTag val =
     (case val of
        None \<Rightarrow> False
      | Some v \<Rightarrow>
          startsWith v READ_STATE_D_TAG_PREFIX \<and>
          (let slotId = drop (length READ_STATE_D_TAG_PREFIX) v in
           slotId \<noteq> [] \<and> length slotId \<le> 64 \<and> isAscii slotId))"

definition localIsoToUnixSeconds :: "(string \<Rightarrow> int option) \<Rightarrow> jsval \<Rightarrow> int option" where
  "localIsoToUnixSeconds date_parse val =
     (case val of
        JStr s \<Rightarrow>
          if s = [] then None else map_option (\<lambda>ms. ms div 1000) (date_parse s)
      | _ \<Rightarrow> None)"

subsection \<open>Storage\<close>

record stored_read_state =
  rs_contexts :: "(string, int) jsmap"
  rs_publishableContextIds :: "string list"
  rs_contextSourceCreatedAt :: "(string, int) jsmap"

definition parseItem :: "local_storage \<Rightarrow> string \<Rightarrow> jsval option" where
  "parseItem st key =
     (case getItem st key of
        None \<Rightarrow> None
      | Some raw \<Rightarrow> if raw = [] then None else JSON_parse raw)"

definition mergeContextEntry ::
  "(string \<Rightarrow> int option) \<Rightarrow> string \<times> jsval \<Rightarrow> (string, int) jsmap \<Rightarrow> (string, int) jsmap" where
  "mergeContextEntry date_parse entry contexts =
     (case localIsoToUnixSeconds date_parse (snd entry) of
        None \<Rightarrow> contexts
      | Some unixSeconds \<Rightarrow>
          if unixSeconds > jget_or contexts (fst entry) 0
          then jset contexts (fst entry) unixSeconds else contexts)"

definition mergeLocalStorageKey ::
  "(string \<Rightarrow> int option) \<Rightarrow> local_storage \<Rightarrow> (string, int) jsmap \<Rightarrow> string \<Rightarrow> (string, int) jsmap" where
  "mergeLocalStorageKey date_parse st contexts key =
     (case parseItem st key of
        Some (JObj entries) \<Rightarrow> fold (mergeContextEntry date_parse) entries contexts
      | _ \<Rightarrow> contexts)"

definition readPublishableContextIds :: "local_storage \<Rightarrow> string \<Rightarrow> string list" where
  "readPublishableContextIds st pubkey =
     (case parseItem st (localPublishableContextKey pubkey) of
        Some (JArr vs) \<Rightarrow>
          fold (\<lambda>v result. case v of JStr s \<Rightarrow> sadd result s | _ \<Rightarrow> result) vs []
      | _ \<Rightarrow> [])"

definition readContextSourceCreatedAt :: "local_storage \<Rightarrow> string \<Rightarrow> (string, int) jsmap" where
  "readContextSourceCreatedAt st pubkey =
     (case parseItem st (localSourceCreatedAtKey pubkey) of
        Some (JObj entries) \<Rightarrow>
          fold (\<lambda>(k, v) result.
            case v of JNum n \<Rightarrow> if n \<ge> 0 then jset result k n else result | _ \<Rightarrow> result) entries []
      | _ \<Rightarrow> [])"

definition readStoredReadState ::
  "(string \<Rightarrow> int option) \<Rightarrow> local_storage \<Rightarrow> string \<Rightarrow> stored_read_state" where
  "readStoredReadState date_parse st pubkey =
     \<lparr>rs_contexts = mergeLocalStorageKey date_parse st [] (localReadStateKey pubkey),
      rs_publishableContextIds = readPublishableContextIds st pubkey,
      rs_contextSourceCreatedAt = readContextSourceCreatedAt st pubkey\<rparr>"

definition isPrunableContextKey :: "string \<Rightarrow> bool" where
  "isPrunableContextKey contextId =
     (startsWith contextId MSG_PREFIX \<or> startsWith contextId THREAD_PREFIX)"

definition pruneStaleContexts :: "(string, int) jsmap \<Rightarrow> int \<Rightarrow> (string, int) jsmap" where
  "pruneStaleContexts contexts nowUnixSeconds =
     (let cutoff = nowUnixSeconds - READ_STATE_HORIZON_SECONDS;
          kept = filter (\<lambda>(c, t). \<not> isPrunableContextKey c) contexts;
          prunable = filter (\<lambda>(c, t). isPrunableContextKey c \<and> t \<ge> cutoff) contexts;
          prunable' = (if length prunable > LOCAL_MAX_PRUNABLE_CONTEXTS
             then take LOCAL_MAX_PRUNABLE_CONTEXTS (js_sort (\<lambda>a b. snd b - snd a) prunable)
             else prunable)
      in fold (\<lambda>(c, t) m. jset m c t) prunable' kept)"

datatype js_throw = RangeError | TypeError

definition date_in_range :: "int \<Rightarrow> bool" where
  "date_in_range ms = (- 8640000000000000 \<le> ms \<and> ms \<le> 8640000000000000)"

definition contextsText :: "(int \<Rightarrow> string) \<Rightarrow> (string, int) jsmap \<Rightarrow> string" where
  "contextsText to_iso pruned =
     stringify (JObj (map (\<lambda>(c, t). (c, JStr (to_iso (t * 1000)))) pruned))"

definition writeStoredReadState ::
  "(int \<Rightarrow> string) \<Rightarrow> local_storage \<Rightarrow> int \<Rightarrow> string \<Rightarrow> (string, int) jsmap \<Rightarrow> string list
   \<Rightarrow> (string, int) jsmap \<Rightarrow> js_throw + local_storage" where
  "writeStoredReadState to_iso st now_ms pubkey contexts publishableContextIds contextSourceCreatedAt =
     (let pruned = pruneStaleContexts contexts (now_ms div 1000) in
      if \<not> list_all (\<lambda>(c, t). date_in_range (t * 1000)) pruned then Inl RangeError
      else
        let st1 = snd (setLocalStorageItemWithRecovery st (localReadStateKey pubkey) (contextsText to_iso pruned));
            ids = JArr (map JStr (filter (jhas pruned) publishableContextIds));
            st2 = snd (setLocalStorageItemWithRecovery st1 (localPublishableContextKey pubkey) (stringify ids));
            sourceState = JObj (map (\<lambda>(c, t). (c, JNum t)) (filter (\<lambda>(c, t). jhas pruned c) contextSourceCreatedAt))
        in Inr (snd (setLocalStorageItemWithRecovery st2 (localSourceCreatedAtKey pubkey) (stringify sourceState))))"

subsection \<open>Frontiers\<close>

datatype apply_result = Unchanged | Advanced

definition resolveEffectiveTimestamp ::
  "(string, int) jsmap \<Rightarrow> string \<Rightarrow> (string \<Rightarrow> string option) option \<Rightarrow> int option" where
  "resolveEffectiveTimestamp effectiveState contextId parentResolver =
     (let own = jget effectiveState contextId;
          parentId = Option.bind parentResolver (\<lambda>resolver. resolver contextId)
      in case parentId of
           None \<Rightarrow> own
         | Some pid \<Rightarrow>
             (case jget effectiveState pid of
                None \<Rightarrow> own
              | Some parent \<Rightarrow>
                  (case own of
                     None \<Rightarrow> Some parent
                   | Some o' \<Rightarrow> Some (max o' parent))))"

definition resolveRemoteContextTimestamp :: "int \<Rightarrow> int \<Rightarrow> int \<times> apply_result" where
  "resolveRemoteContextTimestamp current timestamp =
     (let nxt = max current timestamp in
      (nxt, if nxt = current then Unchanged else Advanced))"

definition applyRemoteContextTimestamp ::
  "(string, int) jsmap \<Rightarrow> (string, int) jsmap \<Rightarrow> string \<Rightarrow> int \<Rightarrow> int
   \<Rightarrow> apply_result \<times> (string, int) jsmap \<times> (string, int) jsmap" where
  "applyRemoteContextTimestamp effectiveState contextSourceCreatedAt contextId timestamp eventCreatedAt =
     (let sourceCreatedAt = jget_or contextSourceCreatedAt contextId 0;
          current = jget_or effectiveState contextId 0;
          (nxt, result) = resolveRemoteContextTimestamp current timestamp;
          effectiveState' = (if result = Advanced then jset effectiveState contextId nxt else effectiveState);
          source' = (if eventCreatedAt > sourceCreatedAt
                     then jset contextSourceCreatedAt contextId eventCreatedAt
                     else contextSourceCreatedAt)
      in (result, effectiveState', source'))"

subsection \<open>The budget of the published blob\<close>

record trim_result =
  tr_evicted :: nat
  tr_fitsAfterTrim :: bool

definition blobFor :: "string \<Rightarrow> (string, int) jsmap \<Rightarrow> string" where
  "blobFor clientId c =
     stringify (JObj [(''v'', JNum 1), (''client_id'', JStr clientId),
                      (''contexts'', JObj (map (\<lambda>(k, t). (k, JNum t)) c))])"

definition blobBytes :: "string \<Rightarrow> (string, int) jsmap \<Rightarrow> int" where
  "blobBytes clientId c = int (utf8_len (blobFor clientId c))"

definition entryCost :: "string \<times> int \<Rightarrow> int" where
  "entryCost entry = int (length (fst entry)) + 3 + int (length (show_int (snd entry))) + 1"

fun evictLoop :: "int \<Rightarrow> int \<Rightarrow> string list \<Rightarrow> (string \<times> int) list \<Rightarrow> string list" where
  "evictLoop maxBytes currentBytes toEvict [] = toEvict"
| "evictLoop maxBytes currentBytes toEvict (entry # entries) =
     (if currentBytes \<le> maxBytes then toEvict
      else evictLoop maxBytes (currentBytes - entryCost entry) (toEvict @ [fst entry]) entries)"

definition evictionOrder :: "(string, int) jsmap \<Rightarrow> (string \<times> int) list" where
  "evictionOrder contexts =
     (let msgEntries = filter (\<lambda>(key, ts). startsWith key MSG_PREFIX) contexts;
          threadEntries = filter (\<lambda>(key, ts). \<not> startsWith key MSG_PREFIX \<and> startsWith key THREAD_PREFIX) contexts
      in js_sort (\<lambda>a b. snd a - snd b) msgEntries @ js_sort (\<lambda>a b. snd a - snd b) threadEntries)"

definition trimContextsToBudget ::
  "(string, int) jsmap \<Rightarrow> string \<Rightarrow> int \<Rightarrow> trim_result \<times> (string, int) jsmap" where
  "trimContextsToBudget contexts clientId maxBytes =
     (let currentBytes = blobBytes clientId contexts in
      if currentBytes \<le> maxBytes
      then (\<lparr>tr_evicted = 0, tr_fitsAfterTrim = True\<rparr>, contexts)
      else
        let toEvict = evictLoop maxBytes currentBytes [] (evictionOrder contexts);
            contexts' = fold (\<lambda>key m. jdel m key) toEvict contexts
        in (\<lparr>tr_evicted = length toEvict,
             tr_fitsAfterTrim = (blobBytes clientId contexts' \<le> maxBytes)\<rparr>, contexts'))"

record slot_split_result =
  sl_slots :: "(string, int) jsmap list"
  sl_extraSlotIds :: "string list"

definition distribute :: "(string \<times> int) list \<Rightarrow> nat \<Rightarrow> (string, int) jsmap list" where
  "distribute channelEntries cnt =
     fold (\<lambda>(i, key, ts) slots. slots[i mod cnt := jset (slots ! (i mod cnt)) key ts])
       (zip [0..<length channelEntries] channelEntries) (replicate cnt [])"

definition oversize :: "string \<Rightarrow> int \<Rightarrow> (string, int) jsmap list \<Rightarrow> bool" where
  "oversize clientId maxBytes slots = list_ex (\<lambda>c. blobBytes clientId c > maxBytes) slots"

function growSlots ::
  "(string \<times> int) list \<Rightarrow> string \<Rightarrow> nat \<Rightarrow> int \<Rightarrow> (nat \<Rightarrow> string) \<Rightarrow> nat \<Rightarrow> string list \<Rightarrow> nat \<times> string list" where
  "growSlots channelEntries clientId maxSlots maxBytes slotIdGenerator slotCount extraSlotIds =
     (if oversize clientId maxBytes (distribute channelEntries slotCount) \<and> slotCount < maxSlots
      then growSlots channelEntries clientId maxSlots maxBytes slotIdGenerator (Suc slotCount)
             (extraSlotIds @ [slotIdGenerator (length extraSlotIds)])
      else (slotCount, extraSlotIds))"
  by pat_completeness auto
termination
  by (relation "measure (\<lambda>(_, _, maxSlots, _, _, slotCount, _). maxSlots - slotCount)") auto

declare growSlots.simps [simp del]

text \<open>
  The caller passes at least one slot, as the source's contract says. With none, writing an entry into
  the absent slot throws, and so does trimming it, unless the blob without contexts fits.
\<close>

definition emptyBlob :: "string \<Rightarrow> string" where
  "emptyBlob clientId = stringify (JObj [(''v'', JNum 1), (''client_id'', JStr clientId)])"

definition splitContextsIntoBudgetedSlots ::
  "(string \<times> int) list \<Rightarrow> (string \<times> int) list \<Rightarrow> string \<Rightarrow> nat \<Rightarrow> nat \<Rightarrow> int \<Rightarrow> (nat \<Rightarrow> string)
   \<Rightarrow> js_throw + slot_split_result option" where
  "splitContextsIntoBudgetedSlots channelEntries threadMsgEntries clientId initialSlotCount maxSlots
      maxBytes slotIdGenerator =
     (if initialSlotCount = 0
      then
        if channelEntries = [] \<and> threadMsgEntries = [] \<and> int (utf8_len (emptyBlob clientId)) \<le> maxBytes
        then Inr (Some \<lparr>sl_slots = [], sl_extraSlotIds = []\<rparr>) else Inl TypeError
      else
        let (slotCount, extraSlotIds) =
              growSlots channelEntries clientId maxSlots maxBytes slotIdGenerator initialSlotCount [];
            slotContexts = distribute channelEntries slotCount
        in if oversize clientId maxBytes slotContexts then Inr None
           else
             let primary = fold (\<lambda>(key, ts) m. jset m key ts) threadMsgEntries (slotContexts ! 0);
                 trimmed = snd (trimContextsToBudget primary clientId maxBytes)
             in Inr (Some \<lparr>sl_slots = slotContexts[0 := trimmed], sl_extraSlotIds = extraSlotIds\<rparr>))"

subsection \<open>The manager\<close>

text \<open>
  A listener is named by a number; \<open>rw_notified\<close> logs the calls of listeners in order. A
  listener that throws is caught by the source and changes nothing. Random ids are drawn by the
  caller and passed to the constructor.
\<close>

record read_world =
  rw_storage :: local_storage
  rw_now :: int
  rw_notified :: "nat list"

record read_state_manager =
  rm_pubkey :: string
  rm_clientId :: string
  rm_slotId :: string
  rm_effectiveState :: "(string, int) jsmap"
  rm_listeners :: "nat list"
  rm_initialized :: bool
  rm_destroyed :: bool
  rm_parentResolver :: "(string \<Rightarrow> string option) option"

definition clientIdKey :: "string \<Rightarrow> string" where
  "clientIdKey pubkey = ''buzz.nip-rs.client-id:'' @ pubkey"

definition slotIdKey :: "string \<Rightarrow> string" where
  "slotIdKey pubkey = ''buzz.nip-rs.slot-id:'' @ pubkey"

definition getOrCreatePersisted :: "local_storage \<Rightarrow> string \<Rightarrow> string \<Rightarrow> string \<times> local_storage" where
  "getOrCreatePersisted st key generated =
     (if \<not> truthy (getItem st key)
      then (generated, snd (setLocalStorageItemWithRecovery st key generated))
      else (the (getItem st key), st))"

definition newReadStateManager ::
  "read_world \<Rightarrow> string \<Rightarrow> string \<Rightarrow> string \<Rightarrow> read_state_manager \<times> read_world" where
  "newReadStateManager w pubkey uuid hex =
     (let (clientId, st1) = getOrCreatePersisted (rw_storage w) (clientIdKey pubkey) uuid;
          (slotId, st2) = getOrCreatePersisted st1 (slotIdKey pubkey) hex
      in (\<lparr>rm_pubkey = pubkey, rm_clientId = clientId, rm_slotId = slotId, rm_effectiveState = [],
           rm_listeners = [], rm_initialized = False, rm_destroyed = False, rm_parentResolver = None\<rparr>,
          w\<lparr>rw_storage := st2\<rparr>))"

definition notifyListeners :: "read_state_manager \<Rightarrow> read_world \<Rightarrow> read_world" where
  "notifyListeners m w = w\<lparr>rw_notified := rw_notified w @ rm_listeners m\<rparr>"

definition persistLocalState ::
  "(int \<Rightarrow> string) \<Rightarrow> read_state_manager \<Rightarrow> read_world \<Rightarrow> js_throw + read_world" where
  "persistLocalState to_iso m w =
     (case writeStoredReadState to_iso (rw_storage w) (rw_now w) (rm_pubkey m) (rm_effectiveState m) [] [] of
        Inl err \<Rightarrow> Inl err
      | Inr st \<Rightarrow> Inr (w\<lparr>rw_storage := st\<rparr>))"

definition advanceContext ::
  "(int \<Rightarrow> string) \<Rightarrow> string \<Rightarrow> int \<Rightarrow> read_state_manager \<Rightarrow> read_world
   \<Rightarrow> js_throw option \<times> read_state_manager \<times> read_world" where
  "advanceContext to_iso contextId unixTimestamp m w =
     (if unixTimestamp \<le> jget_or (rm_effectiveState m) contextId 0 then (None, m, w)
      else
        let m' = m\<lparr>rm_effectiveState := jset (rm_effectiveState m) contextId unixTimestamp\<rparr>
        in case persistLocalState to_iso m' w of
             Inl err \<Rightarrow> (Some err, m', w)
           | Inr w' \<Rightarrow> (None, m', notifyListeners m' w'))"

definition markContextRead ::
  "(int \<Rightarrow> string) \<Rightarrow> string \<Rightarrow> int \<Rightarrow> read_state_manager \<Rightarrow> read_world
   \<Rightarrow> js_throw option \<times> read_state_manager \<times> read_world" where
  "markContextRead to_iso contextId unixTimestamp = advanceContext to_iso contextId unixTimestamp"

definition seedContextRead ::
  "(int \<Rightarrow> string) \<Rightarrow> string \<Rightarrow> int \<Rightarrow> read_state_manager \<Rightarrow> read_world
   \<Rightarrow> js_throw option \<times> read_state_manager \<times> read_world" where
  "seedContextRead to_iso contextId unixTimestamp = advanceContext to_iso contextId unixTimestamp"

definition hydrateFromLocalStorage ::
  "(string \<Rightarrow> int option) \<Rightarrow> (int \<Rightarrow> string) \<Rightarrow> read_state_manager \<Rightarrow> read_world
   \<Rightarrow> js_throw option \<times> read_state_manager \<times> read_world" where
  "hydrateFromLocalStorage date_parse to_iso m w =
     (let stored = readStoredReadState date_parse (rw_storage w) (rm_pubkey m);
          m' = m\<lparr>rm_effectiveState :=
                 fold (\<lambda>(c, t) s. jset s c t) (rs_contexts stored) (rm_effectiveState m)\<rparr>
      in case persistLocalState to_iso m' w of
           Inl err \<Rightarrow> (Some err, m', w)
         | Inr w' \<Rightarrow> (None, m', w'))"

definition initializeManager ::
  "(string \<Rightarrow> int option) \<Rightarrow> (int \<Rightarrow> string) \<Rightarrow> read_state_manager \<Rightarrow> read_world
   \<Rightarrow> js_throw option \<times> read_state_manager \<times> read_world" where
  "initializeManager date_parse to_iso m w =
     (if rm_initialized m \<or> rm_destroyed m then (None, m, w)
      else case hydrateFromLocalStorage date_parse to_iso m w of
             (Some err, m', w') \<Rightarrow> (Some err, m', w')
           | (None, m', w') \<Rightarrow>
               let m'' = m'\<lparr>rm_initialized := True\<rparr> in (None, m'', notifyListeners m'' w'))"

definition getEffectiveTimestamp :: "read_state_manager \<Rightarrow> string \<Rightarrow> int option" where
  "getEffectiveTimestamp m contextId =
     resolveEffectiveTimestamp (rm_effectiveState m) contextId (rm_parentResolver m)"

definition getOwnTimestamp :: "read_state_manager \<Rightarrow> string \<Rightarrow> int option" where
  "getOwnTimestamp m contextId = jget (rm_effectiveState m) contextId"

definition setContextParentResolver ::
  "(string \<Rightarrow> string option) option \<Rightarrow> read_state_manager \<Rightarrow> read_state_manager" where
  "setContextParentResolver resolver m = m\<lparr>rm_parentResolver := resolver\<rparr>"

definition subscribe :: "nat \<Rightarrow> read_state_manager \<Rightarrow> read_state_manager" where
  "subscribe listener m = m\<lparr>rm_listeners := sadd (rm_listeners m) listener\<rparr>"

definition unsubscribe :: "nat \<Rightarrow> read_state_manager \<Rightarrow> read_state_manager" where
  "unsubscribe listener m = m\<lparr>rm_listeners := removeAll listener (rm_listeners m)\<rparr>"

definition destroy :: "read_state_manager \<Rightarrow> read_state_manager" where
  "destroy m = m\<lparr>rm_destroyed := True, rm_listeners := []\<rparr>"

subsection \<open>Pruning\<close>

lemma pruneStaleContexts_eq:
  assumes "jwf contexts"
  shows "pruneStaleContexts contexts now =
    filter (\<lambda>(c, t). \<not> isPrunableContextKey c) contexts @
    (let fresh = filter (\<lambda>(c, t). isPrunableContextKey c \<and> t \<ge> now - READ_STATE_HORIZON_SECONDS) contexts
     in if length fresh > LOCAL_MAX_PRUNABLE_CONTEXTS
        then take LOCAL_MAX_PRUNABLE_CONTEXTS (js_sort (\<lambda>a b. snd b - snd a) fresh) else fresh)"
proof -
  let ?kept = "filter (\<lambda>(c, t). \<not> isPrunableContextKey c) contexts"
  let ?fresh = "filter (\<lambda>(c, t). isPrunableContextKey c \<and> t \<ge> now - READ_STATE_HORIZON_SECONDS) contexts"
  let ?sorted = "js_sort (\<lambda>a b. snd b - snd a) ?fresh"
  have d: "distinct (map fst ?kept)" "distinct (map fst ?fresh)" "distinct (map fst ?sorted)"
    using assms by (simp_all add: jwf_def distinct_map_filter)
  have disj: "fst ` set ?kept \<inter> fst ` set ?fresh = {}" by auto
  have "distinct (map fst (?kept @ take n ?sorted))" for n
  proof -
    have "set (take n ?sorted) \<subseteq> set ?fresh" using set_take_subset [of n ?sorted] by simp
    moreover have "distinct (map fst (take n ?sorted))" by (metis d(3) distinct_take take_map)
    ultimately show ?thesis
      using d(1) disj unfolding map_append distinct_append set_map by blast
  qed
  moreover have "distinct (map fst (?kept @ ?fresh))" using d disj by auto
  ultimately show ?thesis
    by (simp add: pruneStaleContexts_def fold_jset_disjoint)
qed

lemma jwf_pruneStaleContexts: "jwf contexts \<Longrightarrow> jwf (pruneStaleContexts contexts now)"
  unfolding pruneStaleContexts_def Let_def by (intro jwf_fold_jset jwf_filter)

definition freshEntry :: "int \<Rightarrow> string \<times> int \<Rightarrow> bool" where
  "freshEntry now e =
     (isPrunableContextKey (fst e) \<and> snd e \<ge> now - READ_STATE_HORIZON_SECONDS)"

lemma sorted_take_drop_le:
  assumes "sorted (map f xs)" and "x \<in> set (take n xs)" and "y \<in> set (drop n xs)"
  shows "f x \<le> f y"
proof -
  have "sorted (map f (take n xs) @ map f (drop n xs))"
    using assms(1) by (simp add: map_append [symmetric] del: map_append)
  with assms(2,3) show ?thesis by (auto simp: sorted_append)
qed

lemma prune_newest:
  assumes "fresh = filter P contexts"
    and "x \<in> set (take n (js_sort (\<lambda>a b. snd b - snd a) fresh))"
    and "y \<in> set fresh" and "y \<notin> set (take n (js_sort (\<lambda>a b. snd b - snd a) fresh))"
  shows "snd y \<le> (snd x :: int)"
proof -
  let ?s = "js_sort (\<lambda>a b. snd b - snd a) fresh"
  have "y \<in> set ?s" using assms(3) by simp
  then have "y \<in> set (take n ?s) \<union> set (drop n ?s)" by (metis append_take_drop_id set_append)
  with assms(4) have "y \<in> set (drop n ?s)" by blast
  moreover have "sorted (map (\<lambda>x. - snd x) ?s)" by (rule desc.js_sort_sorted) simp
  ultimately show ?thesis
    using sorted_take_drop_le [of "\<lambda>x. - snd x" ?s x n y] assms(2) by simp
qed

text \<open>
  Pruning keeps every channel marker, keeps no message or thread marker older than the
  horizon and at most \<open>LOCAL_MAX_PRUNABLE_CONTEXTS\<close> of them, changes no timestamp, and drops
  a marker inside the horizon only when all the kept ones are at least as new.
\<close>

theorem pruneStaleContexts_spec:
  assumes "jwf contexts"
  shows "let pruned = pruneStaleContexts contexts now; fresh = freshEntry now in
    jwf pruned \<and> set pruned \<subseteq> set contexts \<and>
    (\<forall>c. \<not> isPrunableContextKey c \<longrightarrow> jget pruned c = jget contexts c) \<and>
    (\<forall>e\<in>set pruned. isPrunableContextKey (fst e) \<longrightarrow> fresh e) \<and>
    length (filter (\<lambda>(c, t). isPrunableContextKey c) pruned) \<le> LOCAL_MAX_PRUNABLE_CONTEXTS \<and>
    (\<forall>x\<in>set pruned. \<forall>y\<in>set contexts.
       isPrunableContextKey (fst x) \<and> fresh y \<and> y \<notin> set pruned \<longrightarrow> snd y \<le> snd x)"
proof -
  define pruned where "pruned = pruneStaleContexts contexts now"
  define fresh where "fresh = freshEntry now"
  let ?kept = "filter (\<lambda>(c, t). \<not> isPrunableContextKey c) contexts"
  let ?fresh = "filter fresh contexts"
  let ?s = "js_sort (\<lambda>a b. snd b - snd a) ?fresh"
  define top where "top = (if length ?fresh > LOCAL_MAX_PRUNABLE_CONTEXTS
    then take LOCAL_MAX_PRUNABLE_CONTEXTS ?s else ?fresh)"
  have eq: "pruned = ?kept @ top"
    using pruneStaleContexts_eq [OF assms(1), of now]
    by (simp add: pruned_def top_def fresh_def freshEntry_def [abs_def] case_prod_unfold)
  have top: "set top \<subseteq> set ?fresh" "length top \<le> LOCAL_MAX_PRUNABLE_CONTEXTS"
    using set_take_subset [of LOCAL_MAX_PRUNABLE_CONTEXTS ?s] by (auto simp: top_def)
  have wf: "jwf pruned" using assms(1) by (simp add: pruned_def jwf_pruneStaleContexts)
  have kept: "jget pruned c = jget contexts c" if "\<not> isPrunableContextKey c" for c
  proof -
    have "jget top c = None" using that top(1) by (auto simp: map_of_eq_None_iff fresh_def freshEntry_def)
    then have "jget pruned c = jget ?kept c"
      by (simp add: eq map_add_def split: option.splits)
    with that show ?thesis by (simp add: map_of_filter_keys)
  qed
  have count: "length (filter (\<lambda>(c, t). isPrunableContextKey c) pruned) \<le> LOCAL_MAX_PRUNABLE_CONTEXTS"
  proof -
    have "filter (\<lambda>(c, t). isPrunableContextKey c) ?kept = []" by (auto simp: filter_empty_conv)
    then have "filter (\<lambda>(c, t). isPrunableContextKey c) pruned =
        filter (\<lambda>(c, t). isPrunableContextKey c) top" by (simp only: eq filter_append append_Nil)
    with order.trans [OF length_filter_le top(2)] show ?thesis by simp
  qed
  have newest: "snd y \<le> snd x" if "x \<in> set pruned" "y \<in> set contexts" "isPrunableContextKey (fst x)"
    "fresh y" "y \<notin> set pruned" for x y
  proof -
    from that have x: "x \<in> set top" and y: "y \<in> set ?fresh" "y \<notin> set top" by (auto simp: eq)
    then have "top = take LOCAL_MAX_PRUNABLE_CONTEXTS ?s" by (auto simp: top_def split: if_splits)
    with x y prune_newest [OF refl, of x _ fresh contexts y] show ?thesis by simp
  qed
  have "\<forall>e\<in>set pruned. isPrunableContextKey (fst e) \<longrightarrow> fresh e" and "set pruned \<subseteq> set contexts"
    using top(1) by (auto simp: eq)
  with wf kept count newest show ?thesis unfolding Let_def pruned_def fresh_def by blast
qed

theorem pruneStaleContexts_spec_witness:
  "jget (pruneStaleContexts [(''chan'', 5), (''msg:a'', 10), (''msg:b'', 999990)] 1000000) ''chan'' = Some 5"
proof -
  have "jwf [(''chan'', 5 :: int), (''msg:a'', 10), (''msg:b'', 999990)]" by (simp add: jwf_def)
  from pruneStaleContexts_spec [OF this, of 1000000] show ?thesis
    by (simp add: isPrunableContextKey_def startsWith_def MSG_PREFIX_def THREAD_PREFIX_def)
qed


subsection \<open>Byte accounting of the blob\<close>

definition entryText :: "string \<times> int \<Rightarrow> string" where
  "entryText e = json_quote (fst e) @ '':'' @ show_int (snd e)"

definition entryBytes :: "string \<times> int \<Rightarrow> int" where
  "entryBytes e = int (utf8_len (entryText e)) + 1"

definition baseBytes :: "string \<Rightarrow> int" where
  "baseBytes clientId = blobBytes clientId []"

lemma utf8_commas:
  "xs \<noteq> [] \<Longrightarrow> int (utf8_len (commas xs)) + 1 = sum_list (map (\<lambda>x. int (utf8_len x) + 1) xs)"
  by (induction xs rule: commas.induct) (auto simp: utf8_len_def)

lemma stringify_contexts:
  "stringify (JObj (map (\<lambda>(k, t). (k, JNum t)) c)) = ''{'' @ commas (map entryText c) @ ''}''"
  by (simp add: entryText_def [abs_def] case_prod_unfold comp_def)

lemma blobFor_shape: "\<exists>p q. \<forall>c. blobFor clientId c = p @ commas (map entryText c) @ q"
proof -
  have "blobFor clientId c =
      (''{'' @ json_quote ''v'' @ '':1,'' @ json_quote ''client_id'' @ '':'' @ json_quote clientId @
       '','' @ json_quote ''contexts'' @ '':{'') @ commas (map entryText c) @ ''}}''" for c
    unfolding blobFor_def
    using stringify_contexts [of c] by (simp add: show_int_def show_nat.simps char_of_49)
  then show ?thesis by blast
qed

lemma blobBytes_eq:
  "blobBytes clientId c = baseBytes clientId + (if c = [] then 0 else sum_list (map entryBytes c) - 1)"
proof -
  obtain p q where shape: "\<forall>c. blobFor clientId c = p @ commas (map entryText c) @ q"
    using blobFor_shape by blast
  then have "blobBytes clientId c = baseBytes clientId + int (utf8_len (commas (map entryText c)))" for c
    by (simp add: blobBytes_def baseBytes_def)
  with utf8_commas [of "map entryText c"] show ?thesis
    by (cases "c = []") (simp_all add: entryBytes_def [abs_def] comp_def)
qed

lemma length_json_escape: "1 \<le> length (json_escape c)"
  by (simp add: json_escape_def)

lemma length_json_quote: "length s + 2 \<le> utf8_len (json_quote s)"
proof -
  have "length s \<le> length (concat (map json_escape s))"
  proof (induction s)
    case (Cons c s)
    then show ?case using length_json_escape [of c] by simp
  qed simp
  also have "\<dots> \<le> utf8_len (concat (map json_escape s))" by (rule utf8_len_ge_length)
  finally show ?thesis by (simp add: json_quote_def utf8_len_def)
qed

lemma entryCost_le_entryBytes: "entryCost e \<le> entryBytes e"
  using length_json_quote [of "fst e"] utf8_len_ge_length [of "show_int (snd e)"]
  by (simp add: entryCost_def entryBytes_def entryText_def utf8_len_def)

lemma sum_entryCost_le: "sum_list (map entryCost es) \<le> sum_list (map entryBytes es)"
  by (induction es) (use entryCost_le_entryBytes in \<open>auto simp: add_mono\<close>)

subsection \<open>The eviction loop\<close>

lemma evictLoop_prefix:
  "\<exists>n\<le>length es. evictLoop maxBytes cur acc es = acc @ map fst (take n es) \<and>
     (n < length es \<longrightarrow> cur - sum_list (map entryCost (take n es)) \<le> maxBytes)"
proof (induction es arbitrary: cur acc)
  case (Cons e es)
  show ?case
  proof (cases "cur \<le> maxBytes")
    case True
    then show ?thesis by (intro exI [of _ 0]) simp
  next
    case False
    from Cons.IH [of "cur - entryCost e" "acc @ [fst e]"] obtain n where
      n: "n \<le> length es" "evictLoop maxBytes (cur - entryCost e) (acc @ [fst e]) es =
        (acc @ [fst e]) @ map fst (take n es)"
        "n < length es \<longrightarrow> cur - entryCost e - sum_list (map entryCost (take n es)) \<le> maxBytes"
      by auto
    with False show ?thesis by (intro exI [of _ "Suc n"]) auto
  qed
qed simp

lemma fold_jdel: "fold (\<lambda>key m. jdel m key) keys m = filter (\<lambda>e. fst e \<notin> set keys) m"
  by (induction keys arbitrary: m)
    (auto simp: AList.delete_eq case_prod_unfold intro: filter_cong)

lemma set_evictionOrder: "set (evictionOrder c) = {e \<in> set c. isPrunableContextKey (fst e)}"
  by (auto simp: evictionOrder_def isPrunableContextKey_def)

lemma distinct_evictionOrder:
  assumes "jwf c" shows "distinct (map fst (evictionOrder c))"
proof -
  let ?m = "filter (\<lambda>(key, ts). startsWith key MSG_PREFIX) c"
  let ?t = "filter (\<lambda>(key, ts). \<not> startsWith key MSG_PREFIX \<and> startsWith key THREAD_PREFIX) c"
  have "fst ` set ?m \<inter> fst ` set ?t = {}" by auto
  then show ?thesis using assms by (simp add: evictionOrder_def jwf_def distinct_map_filter)
qed

lemma sum_list_filter_split:
  fixes f :: "'a \<Rightarrow> int"
  shows "sum_list (map f xs) = sum_list (map f (filter P xs)) + sum_list (map f (filter (\<lambda>x. \<not> P x) xs))"
  by (induction xs) auto

lemma sum_list_removed:
  assumes "jwf c" and "set es \<subseteq> set c" and "distinct es"
  shows "sum_list (map f (filter (\<lambda>e. fst e \<in> fst ` set es) c)) = (sum_list (map f es) :: int)"
proof -
  have inj: "inj_on fst (set c)" using assms(1) by (simp add: jwf_def distinct_map)
  have "e \<in> set es \<longleftrightarrow> fst e \<in> fst ` set es" if "e \<in> set c" for e
    using inj_on_image_mem_iff [OF inj that assms(2)] by simp
  then have "set (filter (\<lambda>e. fst e \<in> fst ` set es) c) = set es" using assms(2) by auto
  moreover have "distinct (filter (\<lambda>e. fst e \<in> fst ` set es) c)"
    using assms(1) by (simp add: jwf_def distinct_map)
  ultimately have "mset (filter (\<lambda>e. fst e \<in> fst ` set es) c) = mset es"
    using assms(3) by (metis set_eq_iff_mset_eq_distinct)
  then show ?thesis by (simp only: sum_mset_sum_list [symmetric] mset_map)
qed

lemma trim_prefix:
  assumes "jwf c" and "trimContextsToBudget c clientId maxBytes = (r, c')"
  obtains n where "c' = filter (\<lambda>e. fst e \<notin> fst ` set (take n (evictionOrder c))) c"
    and "n \<le> length (evictionOrder c)"
    and "tr_fitsAfterTrim r \<longleftrightarrow> blobBytes clientId c' \<le> maxBytes"
    and "tr_evicted r = n"
    and "n < length (evictionOrder c) \<Longrightarrow> blobBytes clientId c' \<le> maxBytes"
proof (cases "blobBytes clientId c \<le> maxBytes")
  case True
  with assms(2) show ?thesis by (intro that [of 0]) (auto simp: trimContextsToBudget_def)
next
  case False
  let ?o = "evictionOrder c"
  from evictLoop_prefix [of ?o maxBytes "blobBytes clientId c" "[]"] obtain n where
    n: "n \<le> length ?o" "evictLoop maxBytes (blobBytes clientId c) [] ?o = map fst (take n ?o)"
      "n < length ?o \<Longrightarrow> blobBytes clientId c - sum_list (map entryCost (take n ?o)) \<le> maxBytes"
    by auto
  let ?kept = "filter (\<lambda>e. fst e \<notin> fst ` set (take n ?o)) c"
  have c': "c' = ?kept" "tr_fitsAfterTrim r \<longleftrightarrow> blobBytes clientId c' \<le> maxBytes" "tr_evicted r = n"
    using assms(2) False n(1,2) by (auto simp: trimContextsToBudget_def fold_jdel)
  have "blobBytes clientId c' \<le> maxBytes" if lt: "n < length ?o"
  proof -
    have sub: "set (take n ?o) \<subseteq> set c"
      using set_take_subset [of n ?o] by (auto simp: set_evictionOrder)
    have dis: "distinct (map fst ?o)" using assms(1) by (rule distinct_evictionOrder)
    have "?o ! n \<in> set c" using nth_mem [OF lt] by (simp add: set_evictionOrder)
    moreover have "fst (?o ! n) \<notin> fst ` set (take n ?o)"
      using nth_notin_take [OF dis, of n] lt by (simp add: take_map)
    ultimately have ne: "?kept \<noteq> []" by (auto simp: filter_empty_conv)
    then have "c \<noteq> []" by auto
    moreover have "sum_list (map entryBytes ?kept) =
        sum_list (map entryBytes c) - sum_list (map entryBytes (take n ?o))"
      using sum_list_filter_split [of entryBytes c "\<lambda>e. fst e \<in> fst ` set (take n ?o)"]
        sum_list_removed [OF assms(1) sub, of entryBytes] dis
      by (simp add: distinct_map)
    ultimately have "blobBytes clientId c' =
        blobBytes clientId c - sum_list (map entryBytes (take n ?o))"
      using ne c'(1) by (simp add: blobBytes_eq)
    with n(3) [OF lt] sum_entryCost_le [of "take n ?o"] show ?thesis by linarith
  qed
  with c' n(1) show ?thesis by (intro that [of n]) auto
qed

lemma key_in_take:
  assumes "jwf c" and "y \<in> set c" and "fst y \<in> fst ` set (take n (evictionOrder c))"
  shows "y \<in> set (take n (evictionOrder c))"
proof -
  have "inj_on fst (set c)" using assms(1) by (simp add: jwf_def distinct_map)
  moreover have "set (take n (evictionOrder c)) \<subseteq> set c"
    using set_take_subset [of n "evictionOrder c"] by (auto simp: set_evictionOrder)
  ultimately show ?thesis using assms(2,3) by (simp add: inj_on_image_mem_iff)
qed

lemma evicted_before:
  assumes "x \<in> set (drop n (evictionOrder c))" and "y \<in> set (take n (evictionOrder c))"
  shows "(startsWith (fst x) MSG_PREFIX \<longrightarrow> startsWith (fst y) MSG_PREFIX) \<and>
    (startsWith (fst x) MSG_PREFIX = startsWith (fst y) MSG_PREFIX \<longrightarrow> snd y \<le> snd x)"
proof -
  let ?ms = "js_sort (\<lambda>a b. snd a - snd b) (filter (\<lambda>(key, ts). startsWith key MSG_PREFIX) c)"
  let ?ts = "js_sort (\<lambda>a b. snd a - snd b)
    (filter (\<lambda>(key, ts). \<not> startsWith key MSG_PREFIX \<and> startsWith key THREAD_PREFIX) c)"
  have o: "evictionOrder c = ?ms @ ?ts" by (simp add: evictionOrder_def)
  have ms: "sorted (map snd ?ms)" and ts: "sorted (map snd ?ts)" by (auto intro: asc.js_sort_sorted)
  have kinds: "e \<in> set ?ms \<Longrightarrow> startsWith (fst e) MSG_PREFIX"
    "e \<in> set ?ts \<Longrightarrow> \<not> startsWith (fst e) MSG_PREFIX" for e by auto
  have x: "x \<in> set (drop n ?ms) \<or> x \<in> set (drop (n - length ?ms) ?ts)"
    and y: "y \<in> set (take n ?ms) \<or> y \<in> set (take (n - length ?ms) ?ts)"
    using assms unfolding o by (auto simp del: set_js_sort)
  show ?thesis
  proof (cases "x \<in> set (drop n ?ms)")
    case True
    then have "n < length ?ms" by (metis drop_all empty_iff leI list.set(1))
    then have "y \<in> set (take n ?ms)" using y by simp
    with True kinds sorted_take_drop_le [OF ms] show ?thesis
      by (meson in_set_dropD in_set_takeD)
  next
    case False
    then have x': "x \<in> set (drop (n - length ?ms) ?ts)" using x by blast
    from y show ?thesis
      using kinds x' sorted_take_drop_le [OF ts] by (meson in_set_dropD in_set_takeD)
  qed
qed

text \<open>
  Trimming evicts message and thread markers only, leaving every channel marker as it was;
  it evicts oldest messages first and threads only once no message is left; the flag says
  whether the blob fits; and the blob fails to fit only when channel markers alone are left.
\<close>

theorem trimContextsToBudget_spec:
  assumes "jwf c" and "trimContextsToBudget c clientId maxBytes = (r, c')"
  shows "jwf c' \<and> set c' \<subseteq> set c \<and>
    (\<forall>k. \<not> isPrunableContextKey k \<longrightarrow> jget c' k = jget c k) \<and>
    (tr_fitsAfterTrim r \<longleftrightarrow> blobBytes clientId c' \<le> maxBytes) \<and>
    (\<forall>x\<in>set c'. \<forall>y\<in>set c - set c'.
       isPrunableContextKey (fst x) \<longrightarrow>
         (startsWith (fst x) MSG_PREFIX \<longrightarrow> startsWith (fst y) MSG_PREFIX) \<and>
         (startsWith (fst x) MSG_PREFIX = startsWith (fst y) MSG_PREFIX \<longrightarrow> snd y \<le> snd x)) \<and>
    (\<not> tr_fitsAfterTrim r \<longrightarrow> (\<forall>x\<in>set c'. \<not> isPrunableContextKey (fst x)))"
proof -
  let ?o = "evictionOrder c"
  obtain n where c': "c' = filter (\<lambda>e. fst e \<notin> fst ` set (take n ?o)) c"
    and n: "n \<le> length ?o" "n < length ?o \<Longrightarrow> blobBytes clientId c' \<le> maxBytes"
    and fits: "tr_fitsAfterTrim r \<longleftrightarrow> blobBytes clientId c' \<le> maxBytes"
    using trim_prefix [OF assms] by metis
  have pr: "e \<in> set (take n ?o) \<Longrightarrow> isPrunableContextKey (fst e) \<and> e \<in> set c" for e
    using set_take_subset [of n ?o] by (auto simp: set_evictionOrder)
  have keep: "jget c' k = jget c k" if "\<not> isPrunableContextKey k" for k
  proof -
    have "k \<notin> fst ` set (take n ?o)" using that pr by auto
    then show ?thesis
      unfolding c' using map_of_filter_keys [of "\<lambda>k. k \<notin> fst ` set (take n ?o)" k c]
      by (simp add: case_prod_unfold)
  qed
  have order: "(startsWith (fst x) MSG_PREFIX \<longrightarrow> startsWith (fst y) MSG_PREFIX) \<and>
      (startsWith (fst x) MSG_PREFIX = startsWith (fst y) MSG_PREFIX \<longrightarrow> snd y \<le> snd x)"
    if that': "x \<in> set c'" "y \<in> set c - set c'" "isPrunableContextKey (fst x)" for x y
  proof (rule evicted_before [of x n c y])
    have "x \<in> set ?o" using that' by (simp add: c' set_evictionOrder)
    then have "x \<in> set (take n ?o) \<union> set (drop n ?o)" by (metis append_take_drop_id set_append)
    then show "x \<in> set (drop n ?o)" using that'(1) by (auto simp: c')
    show "y \<in> set (take n ?o)"
      using that'(2) by (intro key_in_take [OF assms(1)]) (auto simp: c')
  qed
  have left: "\<not> isPrunableContextKey (fst x)" if "x \<in> set c'" "\<not> tr_fitsAfterTrim r" for x
  proof -
    have "take n ?o = ?o" using n that(2) fits by (cases "n = length ?o") auto
    then show ?thesis using that(1) by (auto simp: c' set_evictionOrder)
  qed
  show ?thesis
    using assms(1) keep fits order left by (simp add: c')
qed

theorem trimContextsToBudget_spec_witness:
  "jget (snd (trimContextsToBudget [(''chan'', 5), (''msg:a'', 10)] ''c'' 20)) ''chan'' = Some 5"
proof -
  have wf: "jwf [(''chan'', 5 :: int), (''msg:a'', 10)]" by (simp add: jwf_def)
  have chan: "\<not> isPrunableContextKey ''chan''"
    by (simp add: isPrunableContextKey_def startsWith_def MSG_PREFIX_def THREAD_PREFIX_def)
  obtain r c' where t: "trimContextsToBudget [(''chan'', 5), (''msg:a'', 10)] ''c'' 20 = (r, c')"
    by fastforce
  from trimContextsToBudget_spec [OF wf t] chan show ?thesis by (simp add: t)
qed

subsection \<open>Slots\<close>

lemma length_distribute [simp]: "length (distribute es cnt) = cnt"
proof -
  have "length (fold (\<lambda>(i, key, ts) slots. slots[i mod cnt := jset (slots ! (i mod cnt)) key ts]) ps slots)
      = length slots" for ps :: "(nat \<times> string \<times> int) list" and slots
    by (induction ps arbitrary: slots) auto
  then show ?thesis by (simp add: distribute_def)
qed

lemma distribute_snoc:
  "distribute (es @ [(k, t)]) cnt =
    (distribute es cnt)[length es mod cnt := jset (distribute es cnt ! (length es mod cnt)) k t]"
  by (simp add: distribute_def)

lemma distribute_wf: "j < cnt \<Longrightarrow> jwf (distribute es cnt ! j)"
proof (induction es rule: rev_induct)
  case (snoc e es)
  then show ?case by (cases e) (auto simp: distribute_snoc nth_list_update)
qed (simp add: distribute_def)

lemma distribute_keys:
  "j < cnt \<Longrightarrow> fst ` set (distribute es cnt ! j) \<subseteq> fst ` set es"
proof (induction es rule: rev_induct)
  case (snoc e es)
  obtain k t where e: "e = (k, t)" by fastforce
  from snoc have "insert k (fst ` set (distribute es cnt ! j)) \<subseteq> insert k (fst ` set es)" by blast
  with snoc.prems show ?case
    using jkeys_jset [where m = "distribute es cnt ! (length es mod cnt)" and k = k and v = t]
    by (simp add: e distribute_snoc nth_list_update) blast
qed (simp add: distribute_def)

lemma distribute_holds:
  assumes "jwf es" and "i < length es" and "0 < cnt"
  shows "jget (distribute es cnt ! (i mod cnt)) (fst (es ! i)) = Some (snd (es ! i))"
  using assms(1,2)
proof (induction es rule: rev_induct)
  case (snoc e es)
  obtain k t where e: "e = (k, t)" by fastforce
  have "fst (es ! i) \<noteq> k" if "i < length es"
    using snoc.prems(1) nth_mem [OF that] by (force simp: e jwf_def)
  moreover have "jwf es" using snoc.prems(1) by (simp add: jwf_def)
  ultimately show ?case
    using snoc assms(3) by (auto simp: e distribute_snoc nth_append nth_list_update less_Suc_eq)
qed simp

lemma growSlots_spec:
  assumes "growSlots es clientId maxSlots maxBytes gen cnt ids = (n, ids')"
  shows "cnt \<le> n \<and> n \<le> max cnt maxSlots \<and> length ids' = length ids + (n - cnt) \<and>
    (\<forall>m. cnt \<le> m \<and> m < n \<longrightarrow> oversize clientId maxBytes (distribute es m)) \<and>
    (oversize clientId maxBytes (distribute es n) \<longrightarrow> maxSlots \<le> n)"
  using assms
proof (induction es clientId maxSlots maxBytes gen cnt ids rule: growSlots.induct)
  case (1 es clientId maxSlots maxBytes gen cnt ids)
  show ?case
  proof (cases "oversize clientId maxBytes (distribute es cnt) \<and> cnt < maxSlots")
    case True
    with "1.prems" have "growSlots es clientId maxSlots maxBytes gen (Suc cnt)
        (ids @ [gen (length ids)]) = (n, ids')" by (subst (asm) growSlots.simps) simp
    note ih = "1.IH" [OF True this]
    have "oversize clientId maxBytes (distribute es m)" if "cnt \<le> m" "m < n" for m
      using that ih True by (cases "m = cnt") auto
    with ih True show ?thesis by auto
  next
    case False
    with "1.prems" show ?thesis by (subst (asm) growSlots.simps) auto
  qed
qed

text \<open>Adding thread and message markers to a slot of channel markers keeps the channel part.\<close>

lemma fold_jset_prunable:
  assumes "\<forall>e\<in>set tm. isPrunableContextKey (fst e)" and "\<forall>e\<in>set c. \<not> isPrunableContextKey (fst e)"
  shows "filter (\<lambda>e. \<not> isPrunableContextKey (fst e)) (fold (\<lambda>(key, ts) m. jset m key ts) tm c) = c"
proof -
  have upd: "filter (\<lambda>e. \<not> isPrunableContextKey (fst e)) (jset m k t) =
      filter (\<lambda>e. \<not> isPrunableContextKey (fst e)) m" if "isPrunableContextKey k" for m k t
    using that by (induction m) auto
  have "filter (\<lambda>e. \<not> isPrunableContextKey (fst e)) (fold (\<lambda>(key, ts) m. jset m key ts) tm m) =
      filter (\<lambda>e. \<not> isPrunableContextKey (fst e)) m" for m
    using assms(1) by (induction tm arbitrary: m) (auto simp: upd)
  with assms(2) show ?thesis by (metis filter_True)
qed

lemma trim_fits_if_channels_fit:
  assumes "jwf c" and "blobBytes clientId (filter (\<lambda>e. \<not> isPrunableContextKey (fst e)) c) \<le> maxBytes"
  shows "blobBytes clientId (snd (trimContextsToBudget c clientId maxBytes)) \<le> maxBytes"
proof -
  obtain r c' where t: "trimContextsToBudget c clientId maxBytes = (r, c')" by fastforce
  obtain n where c': "c' = filter (\<lambda>e. fst e \<notin> fst ` set (take n (evictionOrder c))) c"
    and n: "n \<le> length (evictionOrder c)"
      "n < length (evictionOrder c) \<Longrightarrow> blobBytes clientId c' \<le> maxBytes"
    using trim_prefix [OF assms(1) t] by metis
  show ?thesis
  proof (cases "n < length (evictionOrder c)")
    case False
    have keys: "fst e \<in> fst ` set (evictionOrder c) \<longleftrightarrow> isPrunableContextKey (fst e)" if "e \<in> set c" for e
      using that by (auto simp: set_evictionOrder)
    have "c' = filter (\<lambda>e. \<not> isPrunableContextKey (fst e)) c"
      unfolding c' using False n(1) keys by (intro filter_cong) auto
    with assms(2) t show ?thesis by simp
  qed (simp add: t n(2))
qed

lemma trim_keeps_channels:
  assumes "jwf c" and "\<not> isPrunableContextKey k"
  shows "jget (snd (trimContextsToBudget c clientId maxBytes)) k = jget c k"
proof -
  obtain r c' where t: "trimContextsToBudget c clientId maxBytes = (r, c')" by fastforce
  obtain n where c': "c' = filter (\<lambda>e. fst e \<notin> fst ` set (take n (evictionOrder c))) c"
    using trim_prefix [OF assms(1) t] by metis
  have "k \<notin> fst ` set (take n (evictionOrder c))"
    using assms(2) set_take_subset [of n "evictionOrder c"] by (auto simp: set_evictionOrder)
  then show ?thesis
    using map_of_filter_keys [of "\<lambda>k. k \<notin> fst ` set (take n (evictionOrder c))" k c]
    by (simp add: t c' case_prod_unfold)
qed

text \<open>
  C36. Splitting succeeds exactly when some allowed number of slots fits the channel markers,
  and otherwise reports failure. On success every slot's blob is within the budget, every channel
  marker is in a slot with its timestamp, and exactly one new slot id was generated per slot
  beyond those already available.
\<close>

theorem splitContextsIntoBudgetedSlots_spec:
  assumes "jwf channelEntries" and "0 < initialSlotCount"
    and "\<forall>e\<in>set channelEntries. \<not> isPrunableContextKey (fst e)"
    and "\<forall>e\<in>set threadMsgEntries. isPrunableContextKey (fst e)"
  shows "case splitContextsIntoBudgetedSlots channelEntries threadMsgEntries clientId initialSlotCount
      maxSlots maxBytes gen of
    Inl _ \<Rightarrow> False
  | Inr None \<Rightarrow> \<forall>n. initialSlotCount \<le> n \<and> n \<le> max initialSlotCount maxSlots \<longrightarrow>
      oversize clientId maxBytes (distribute channelEntries n)
  | Inr (Some r) \<Rightarrow>
      (\<forall>slot\<in>set (sl_slots r). blobBytes clientId slot \<le> maxBytes) \<and>
      (\<forall>(k, t)\<in>set channelEntries. \<exists>slot\<in>set (sl_slots r). jget slot k = Some t) \<and>
      length (sl_slots r) = initialSlotCount + length (sl_extraSlotIds r) \<and>
      length (sl_slots r) \<le> max initialSlotCount maxSlots"
proof -
  obtain n ids where g: "growSlots channelEntries clientId maxSlots maxBytes gen initialSlotCount [] = (n, ids)"
    by fastforce
  note grow = growSlots_spec [OF g]
  then have n0: "0 < n" using assms(2) by simp
  let ?slots = "distribute channelEntries n"
  show ?thesis
  proof (cases "oversize clientId maxBytes ?slots")
    case True
    have "oversize clientId maxBytes (distribute channelEntries m)"
      if "initialSlotCount \<le> m" "m \<le> max initialSlotCount maxSlots" for m
      using that grow True by (cases "m = n") (auto simp: max_def split: if_splits)
    with True g assms(2) show ?thesis by (simp add: splitContextsIntoBudgetedSlots_def)
  next
    case False
    define primary where "primary = fold (\<lambda>(key, ts) m. jset m key ts) threadMsgEntries (?slots ! 0)"
    define trimmed where "trimmed = snd (trimContextsToBudget primary clientId maxBytes)"
    have r: "splitContextsIntoBudgetedSlots channelEntries threadMsgEntries clientId initialSlotCount
        maxSlots maxBytes gen = Inr (Some \<lparr>sl_slots = ?slots[0 := trimmed], sl_extraSlotIds = ids\<rparr>)"
      using False g assms(2) by (simp add: splitContextsIntoBudgetedSlots_def primary_def trimmed_def)
    have wf: "jwf primary" unfolding primary_def using n0 by (intro jwf_fold_jset distribute_wf)
    have chan: "filter (\<lambda>e. \<not> isPrunableContextKey (fst e)) primary = ?slots ! 0"
      unfolding primary_def
      using assms(3,4) distribute_keys [OF n0, of channelEntries]
      by (intro fold_jset_prunable) fastforce+
    have fits: "blobBytes clientId slot \<le> maxBytes" if "slot \<in> set ?slots" for slot
      using that False by (auto simp: oversize_def list_ex_iff)
    have "blobBytes clientId trimmed \<le> maxBytes"
      unfolding trimmed_def using n0 by (intro trim_fits_if_channels_fit [OF wf]) (simp add: chan fits)
    then have a: "\<forall>slot\<in>set (?slots[0 := trimmed]). blobBytes clientId slot \<le> maxBytes"
      using fits set_update_subset_insert [of ?slots 0 trimmed] by blast
    have keep: "jget trimmed k = jget (?slots ! 0) k" if "\<not> isPrunableContextKey k" for k
      using trim_keeps_channels [OF wf that] map_of_filter_keys [of "\<lambda>k. \<not> isPrunableContextKey k" k primary]
        that by (simp add: trimmed_def chan [symmetric] case_prod_unfold)
    have b: "\<exists>slot\<in>set (?slots[0 := trimmed]). jget slot k = Some t" if e: "(k, t) \<in> set channelEntries" for k t
    proof -
      from e obtain i where i: "i < length channelEntries" "channelEntries ! i = (k, t)"
        by (auto simp: in_set_conv_nth)
      have "jget (?slots[0 := trimmed] ! (i mod n)) k = Some t"
        using distribute_holds [OF assms(1) i(1) n0] i(2) keep [of k] assms(3) e n0
        by (cases "i mod n = 0") auto
      then show ?thesis using n0 by (intro bexI [of _ "?slots[0 := trimmed] ! (i mod n)"]) auto
    qed
    show ?thesis using a b grow by (auto simp: r)
  qed
qed

theorem splitContextsIntoBudgetedSlots_spec_witness:
  "case splitContextsIntoBudgetedSlots [(''chan'', 5)] [(''msg:a'', 10)] ''c'' 1 3 60 (\<lambda>_. ''s'') of
     Inr (Some r) \<Rightarrow> \<forall>slot\<in>set (sl_slots r). blobBytes ''c'' slot \<le> 60
   | _ \<Rightarrow> False"
proof -
  have "case splitContextsIntoBudgetedSlots [(''chan'', 5)] [(''msg:a'', 10)] ''c'' 1 3 60 (\<lambda>_. ''s'') of
     Inr (Some r) \<Rightarrow> True | _ \<Rightarrow> False" by code_simp
  moreover
  have "jwf [(''chan'', 5 :: int)]" and "0 < (1 :: nat)"
    and "\<forall>e\<in>set [(''chan'', 5 :: int)]. \<not> isPrunableContextKey (fst e)"
    and "\<forall>e\<in>set [(''msg:a'', 10 :: int)]. isPrunableContextKey (fst e)"
    by (simp_all add: jwf_def isPrunableContextKey_def startsWith_def MSG_PREFIX_def THREAD_PREFIX_def)
  note splitContextsIntoBudgetedSlots_spec [OF this, where clientId = "''c''" and maxSlots = 3 and maxBytes = 60
      and gen = "\<lambda>_. ''s''"]
  ultimately show ?thesis by (auto split: sum.splits option.splits)
qed

subsection \<open>Persistence\<close>

definition valid_markers :: "(string, int) jsmap \<Rightarrow> bool" where
  "valid_markers c = (jwf c \<and> list_all (\<lambda>(k, t). 0 < t \<and> date_in_range (t * 1000)) c)"

text \<open>What the two \<open>Date\<close> parameters promise: an ISO string parses back to its time.\<close>

definition iso_laws :: "(string \<Rightarrow> int option) \<Rightarrow> (int \<Rightarrow> string) \<Rightarrow> bool" where
  "iso_laws date_parse to_iso \<longleftrightarrow>
     (\<forall>ms. date_in_range ms \<longrightarrow> to_iso ms \<noteq> [] \<and> date_parse (to_iso ms) = Some ms)"

lemma valid_markers_subset:
  "valid_markers c \<Longrightarrow> jwf c' \<Longrightarrow> set c' \<subseteq> set c \<Longrightarrow> valid_markers c'"
  by (auto simp: valid_markers_def list_all_iff)

lemma set_pruneStaleContexts: "jwf c \<Longrightarrow> set (pruneStaleContexts c now) \<subseteq> set c"
  unfolding pruneStaleContexts_eq
  by (auto split: if_splits dest!: in_set_takeD)

lemma valid_markers_prune: "valid_markers c \<Longrightarrow> valid_markers (pruneStaleContexts c now)"
  by (meson valid_markers_subset valid_markers_def jwf_pruneStaleContexts set_pruneStaleContexts)

lemma prune_channel:
  assumes "jwf c" and "\<not> isPrunableContextKey k"
  shows "jget (pruneStaleContexts c now) k = jget c k"
proof -
  have none: "jget xs k = None" if "\<forall>e\<in>set xs. isPrunableContextKey (fst e)" for xs :: "(string, int) jsmap"
    using that assms(2) by (auto simp: map_of_eq_None_iff)
  obtain top where "pruneStaleContexts c now = filter (\<lambda>(c, t). \<not> isPrunableContextKey c) c @ top"
    and "\<forall>e\<in>set top. isPrunableContextKey (fst e)"
    by (rule that [OF pruneStaleContexts_eq [OF assms(1)]]) (auto dest!: in_set_takeD split: if_splits)
  then show ?thesis
    using assms(2) none [of top] by (simp add: map_add_def map_of_filter_keys split: option.splits)
qed

lemma storage_keys [simp]:
  "\<not> isPureCacheKey (localReadStateKey pk)" "\<not> isPureCacheKey (clientIdKey pk)"
  "\<not> isPureCacheKey (slotIdKey pk)" "\<not> isPureCacheKey (localPublishableContextKey pk)"
  "\<not> isPureCacheKey (localSourceCreatedAtKey pk)"
  by (simp_all add: isPureCacheKey_def PURE_CACHE_KEY_PREFIXES_def startsWith_def localReadStateKey_def
      clientIdKey_def slotIdKey_def localPublishableContextKey_def localSourceCreatedAtKey_def)

lemma storage_keys_distinct [simp]:
  "localReadStateKey pk \<noteq> clientIdKey pk'" "localReadStateKey pk \<noteq> slotIdKey pk'"
  "localReadStateKey pk \<noteq> localPublishableContextKey pk'"
  "localReadStateKey pk \<noteq> localSourceCreatedAtKey pk'"
  by (simp_all add: localReadStateKey_def
      clientIdKey_def slotIdKey_def localPublishableContextKey_def localSourceCreatedAtKey_def)

lemma parse_contextsText:
  assumes "jwf c"
  shows "JSON_parse (contextsText to_iso c) = Some (JObj (map (\<lambda>(k, t). (k, JStr (to_iso (t * 1000)))) c))"
    and "contextsText to_iso c \<noteq> []"
proof -
  have "wf_json (JObj (map (\<lambda>(k, t). (k, JStr (to_iso (t * 1000)))) c))"
    using assms by (simp add: jwf_def comp_def case_prod_unfold list_all_iff)
  then show "JSON_parse (contextsText to_iso c) = Some (JObj (map (\<lambda>(k, t). (k, JStr (to_iso (t * 1000)))) c))"
    and "contextsText to_iso c \<noteq> []"
    unfolding contextsText_def by (rule json_roundtrip, rule stringify_nonempty)
qed

lemma merge_contexts:
  assumes "iso_laws date_parse to_iso" and "valid_markers c"
  shows "fold (mergeContextEntry date_parse) (map (\<lambda>(k, t). (k, JStr (to_iso (t * 1000)))) c) [] = c"
proof -
  have "fold (mergeContextEntry date_parse) (map (\<lambda>(k, t). (k, JStr (to_iso (t * 1000)))) es) m = m @ es"
    if "jwf (m @ es)" "list_all (\<lambda>(k, t). 0 < t \<and> date_in_range (t * 1000)) es" for es m
    using that
  proof (induction es arbitrary: m)
    case (Cons e es)
    obtain k t where e: "e = (k, t)" by fastforce
    have "\<not> jhas m k" using Cons.prems(1) by (auto simp: e jwf_def jhas_iff)
    then have "mergeContextEntry date_parse (k, JStr (to_iso (t * 1000))) m = m @ [(k, t)]"
      using Cons.prems(2) assms(1)
      by (simp add: mergeContextEntry_def localIsoToUnixSeconds_def iso_laws_def e jget_or_def
          jset_absent jhas_def)
    with Cons show ?case by (simp add: e)
  qed simp
  from this [of "[]" c] assms(2) show ?thesis by (simp add: valid_markers_def)
qed

text \<open>The item under the read-state key decides which markers are read back.\<close>

lemma readStored_written:
  assumes "iso_laws date_parse to_iso" and "valid_markers c"
    and "getItem st (localReadStateKey pk) = Some (contextsText to_iso c)"
  shows "rs_contexts (readStoredReadState date_parse st pk) = c"
  using assms parse_contextsText [of c to_iso] merge_contexts [OF assms(1,2)]
  by (simp add: readStoredReadState_def mergeLocalStorageKey_def parseItem_def valid_markers_def)

lemma write_ok:
  assumes "valid_markers c"
  obtains st' where "writeStoredReadState to_iso st now pk c ids src = Inr st'"
    and "getItem st' (localReadStateKey pk) =
      getItem (snd (setLocalStorageItemWithRecovery st (localReadStateKey pk)
        (contextsText to_iso (pruneStaleContexts c (now div 1000))))) (localReadStateKey pk)"
proof -
  have keep: "getItem (snd (setLocalStorageItemWithRecovery s k v)) (localReadStateKey pk) =
      getItem s (localReadStateKey pk)" if "k \<noteq> localReadStateKey pk" for s k v
    using that storage.read_other [of s k v _ _ "localReadStateKey pk"]
    by (metis prod.collapse storage_keys(1))
  have "list_all (\<lambda>(c, t). date_in_range (t * 1000)) (pruneStaleContexts c (now div 1000))"
    using valid_markers_prune [OF assms, of "now div 1000"] by (auto simp: valid_markers_def list_all_iff)
  with that show thesis
    by (simp add: writeStoredReadState_def keep storage_keys_distinct [symmetric])
qed

lemma getItem_getOrCreate:
  "k \<noteq> key \<Longrightarrow> \<not> isPureCacheKey k \<Longrightarrow>
   getItem (snd (getOrCreatePersisted st key g)) k = getItem st k"
  using storage.read_other [of st key g _ _ k]
  by (auto simp: getOrCreatePersisted_def) (metis prod.collapse)

lemma new_manager:
  assumes "newReadStateManager w pk uuid hex = (m, w')"
  shows "rm_pubkey m = pk \<and> rm_effectiveState m = [] \<and> \<not> rm_initialized m \<and> \<not> rm_destroyed m \<and>
    getItem (rw_storage w') (localReadStateKey pk) = getItem (rw_storage w) (localReadStateKey pk)"
proof -
  have "getItem (snd (getOrCreatePersisted (snd (getOrCreatePersisted (rw_storage w) (clientIdKey pk) uuid))
      (slotIdKey pk) hex)) (localReadStateKey pk) = getItem (rw_storage w) (localReadStateKey pk)"
    by (simp add: getItem_getOrCreate)
  with assms show ?thesis
    by (auto simp: newReadStateManager_def case_prod_unfold)
qed

lemma initialize_restores:
  assumes "iso_laws date_parse to_iso" and "valid_markers c"
    and "getItem (rw_storage w) (localReadStateKey (rm_pubkey m)) = Some (contextsText to_iso c)"
    and "rm_effectiveState m = []" and "\<not> rm_initialized m" and "\<not> rm_destroyed m"
  shows "\<exists>m' w'. initializeManager date_parse to_iso m w = (None, m', w') \<and>
    rm_initialized m' \<and> rm_effectiveState m' = c"
proof -
  have "fold (\<lambda>(c, t) s. jset s c t) c [] = c"
    using fold_jset_disjoint [of "[]" c] assms(2) by (simp add: valid_markers_def jwf_def)
  moreover obtain st' where
    "writeStoredReadState to_iso (rw_storage w) (rw_now w) (rm_pubkey m) c [] [] = Inr st'"
    using write_ok [OF assms(2)] by metis
  ultimately show ?thesis
    using assms(4-6) readStored_written [OF assms(1-3)]
    by (simp add: initializeManager_def hydrateFromLocalStorage_def persistLocalState_def)
qed

text \<open>
  C1. Read markers survive a restart: after a successful mark, a manager constructed anew for
  the same user and initialised from the store holds exactly the pruned markers, so every
  channel has the marker it had before, the new one included. (The store has room for the
  markers next to its other durable entries.)
\<close>

theorem read_markers_survive_restart:
  assumes "iso_laws date_parse to_iso"
    and "c = jset (rm_effectiveState m) contextId t" and "valid_markers c"
    and "t > jget_or (rm_effectiveState m) contextId 0"
    and "storage_size (filter (\<lambda>(k, v). \<not> isPureCacheKey k)
      (jset (st_items (rw_storage w)) (localReadStateKey (rm_pubkey m))
        (contextsText to_iso (pruneStaleContexts c (rw_now w div 1000))))) \<le> st_quota (rw_storage w)"
  shows "case markContextRead to_iso contextId t m w of (err, m', w') \<Rightarrow>
    case newReadStateManager w' (rm_pubkey m) uuid hex of (m1, w1) \<Rightarrow>
    case initializeManager date_parse to_iso m1 w1 of (err2, m2, w2) \<Rightarrow>
      err = None \<and> err2 = None \<and> rm_initialized m2 \<and>
      rm_effectiveState m2 = pruneStaleContexts c (rw_now w div 1000) \<and>
      (\<forall>k. \<not> isPrunableContextKey k \<longrightarrow> getOwnTimestamp m2 k = getOwnTimestamp m' k)"
proof -
  let ?pruned = "pruneStaleContexts c (rw_now w div 1000)"
  obtain st' where st': "writeStoredReadState to_iso (rw_storage w) (rw_now w) (rm_pubkey m) c [] [] = Inr st'"
    and item: "getItem st' (localReadStateKey (rm_pubkey m)) = Some (contextsText to_iso ?pruned)"
    using write_ok [OF assms(3), of to_iso "rw_storage w" "rw_now w" "rm_pubkey m" "[]" "[]"]
      write_fits [OF _ assms(5)] storage.read_written by (metis snd_conv storage_keys(1))
  define m' where "m' = m\<lparr>rm_effectiveState := c\<rparr>"
  define w' where "w' = notifyListeners m' (w\<lparr>rw_storage := st'\<rparr>)"
  have mark: "markContextRead to_iso contextId t m w = (None, m', w')"
    using assms(2,4) st'
    by (simp add: markContextRead_def advanceContext_def persistLocalState_def m'_def w'_def)
  obtain m1 w1 where new: "newReadStateManager w' (rm_pubkey m) uuid hex = (m1, w1)" by fastforce
  note n = new_manager [OF new]
  have "getItem (rw_storage w1) (localReadStateKey (rm_pubkey m1)) = Some (contextsText to_iso ?pruned)"
    using n item by (simp add: w'_def notifyListeners_def)
  from initialize_restores [OF assms(1) valid_markers_prune [OF assms(3)] this] n
  obtain m2 w2 where init: "initializeManager date_parse to_iso m1 w1 = (None, m2, w2)"
    and m2: "rm_initialized m2" "rm_effectiveState m2 = ?pruned" by blast
  have "getOwnTimestamp m2 k = getOwnTimestamp m' k" if "\<not> isPrunableContextKey k" for k
    using prune_channel [OF _ that] assms(3) by (simp add: getOwnTimestamp_def m2 m'_def valid_markers_def)
  with mark new init m2 show ?thesis by simp
qed

text \<open>A pair of functions that meets \<open>iso_laws\<close>, for the witnesses: decimal milliseconds.\<close>

definition decimal_parse :: "string \<Rightarrow> int option" where
  "decimal_parse s = (case JSON_parse s of Some (JNum n) \<Rightarrow> Some n | _ \<Rightarrow> None)"

lemma iso_laws_decimal: "iso_laws decimal_parse show_int"
proof -
  have "JSON_parse (show_int n) = Some (JNum n)" for n
    using json_roundtrip [of "JNum n"] by simp
  moreover have "show_int n \<noteq> []" for n
    using stringify_nonempty [of "JNum n"] by simp
  ultimately show ?thesis by (simp add: iso_laws_def decimal_parse_def)
qed

definition sample_world :: read_world where
  "sample_world = \<lparr>rw_storage = \<lparr>st_items = [], st_quota = 200, st_warned = False, st_toasts = 0\<rparr>,
     rw_now = 2000000, rw_notified = []\<rparr>"

lemma show_int_7000: "show_int 7000 = ''7000''"
  by (simp add: show_int_def show_nat.simps char_of_def bit_Suc_0_iff)

theorem read_markers_survive_restart_witness:
  "let m = fst (newReadStateManager sample_world ''pk'' ''u'' ''h'') in
   case markContextRead show_int ''chan'' 7 m sample_world of (err, m', w') \<Rightarrow>
   case newReadStateManager w' ''pk'' ''u2'' ''h2'' of (m1, w1) \<Rightarrow>
   case initializeManager decimal_parse show_int m1 w1 of (err2, m2, w2) \<Rightarrow>
     getOwnTimestamp m2 ''chan'' = getOwnTimestamp m' ''chan''"
proof -
  let ?m = "fst (newReadStateManager sample_world ''pk'' ''u'' ''h'')"
  have pk: "rm_pubkey ?m = ''pk''" and eff: "rm_effectiveState ?m = []"
    by (simp_all add: newReadStateManager_def case_prod_unfold)
  have chan: "\<not> isPrunableContextKey ''chan''"
    by (simp add: isPrunableContextKey_def startsWith_def MSG_PREFIX_def THREAD_PREFIX_def)
  have "valid_markers [(''chan'', 7)]" by (simp add: valid_markers_def jwf_def date_in_range_def)
  moreover have "pruneStaleContexts [(''chan'', 7)] (rw_now sample_world div 1000) = [(''chan'', 7)]"
    using chan by (simp add: pruneStaleContexts_def)
  moreover have "storage_size (filter (\<lambda>(k, v). \<not> isPureCacheKey k)
      (jset (st_items (rw_storage sample_world)) (localReadStateKey ''pk'')
        (contextsText show_int [(''chan'', 7)]))) \<le> st_quota (rw_storage sample_world)"
    by (simp add: contextsText_def show_int_7000 storage_size_def localReadStateKey_def json_quote_def
        json_escape_def isPureCacheKey_def PURE_CACHE_KEY_PREFIXES_def startsWith_def sample_world_def)
  ultimately show ?thesis
    using read_markers_survive_restart [OF iso_laws_decimal refl, where m = ?m and contextId = "''chan''"
        and t = 7 and w = sample_world and uuid = "''u2''" and hex = "''h2''"] chan
    by (simp add: pk eff jget_or_def case_prod_unfold)
qed

subsection \<open>Markers only grow, and converge\<close>

text \<open>A session: any sequence of marks, each of which may fail to persist.\<close>

fun markAll ::
  "(int \<Rightarrow> string) \<Rightarrow> (string \<times> int) list \<Rightarrow> read_state_manager \<Rightarrow> read_world \<Rightarrow> read_state_manager \<times> read_world" where
  "markAll to_iso [] m w = (m, w)"
| "markAll to_iso ((c, t) # marks) m w =
     (case markContextRead to_iso c t m w of (_, m', w') \<Rightarrow> markAll to_iso marks m' w')"

lemma own_after_mark:
  "getOwnTimestamp (fst (snd (markContextRead to_iso c t m w))) k =
     (if k = c \<and> t > jget_or (rm_effectiveState m) c 0 then Some t else getOwnTimestamp m k)"
  by (auto simp: markContextRead_def advanceContext_def getOwnTimestamp_def split: sum.splits)

lemma maxReadAt_absorb:
  "maxReadAt (a # Some t # rest) = maxReadAt (Some (case a of None \<Rightarrow> t | Some l \<Rightarrow> max l t) # rest)"
  by (cases a) (auto simp: maxReadAt_def)

text \<open>
  Whatever marks arrive, in whatever order and however often, and whether or not they
  could be persisted, a context's marker is the largest of its old marker and the positive
  marks made for it: it never moves back, and two orders of the same marks agree.
\<close>

theorem markAll_max:
  assumes "case getOwnTimestamp m c of None \<Rightarrow> True | Some t \<Rightarrow> 0 < t"
  shows "getOwnTimestamp (fst (markAll to_iso marks m w)) c =
    maxReadAt (getOwnTimestamp m c # map (Some \<circ> snd) (filter (\<lambda>(c', t). c' = c \<and> 0 < t) marks))"
  using assms
proof (induction marks arbitrary: m w)
  case Nil
  then show ?case by (simp add: maxReadAt_def split: option.splits)
next
  case (Cons mark marks)
  obtain c' t where mk: "mark = (c', t)" by fastforce
  obtain e m' w' where r: "markContextRead to_iso c' t m w = (e, m', w')" by (metis prod_cases3)
  have own: "getOwnTimestamp m' c =
      (if c = c' \<and> t > jget_or (rm_effectiveState m) c' 0 then Some t else getOwnTimestamp m c)"
    using own_after_mark [of to_iso c' t m w c] by (simp add: r)
  have "case getOwnTimestamp m' c of None \<Rightarrow> True | Some t \<Rightarrow> 0 < t"
    using Cons.prems own by (auto simp: getOwnTimestamp_def jget_or_def split: option.splits if_splits)
  note ih = Cons.IH [OF this, of w']
  show ?case
  proof (cases "c' = c \<and> 0 < t")
    case True
    have "getOwnTimestamp m' c = Some (case getOwnTimestamp m c of None \<Rightarrow> t | Some l \<Rightarrow> max l t)"
      using True own Cons.prems
      by (auto simp: getOwnTimestamp_def jget_or_def split: option.splits)
    moreover have "markContextRead to_iso c t m w = (e, m', w')" using True r by simp
    ultimately show ?thesis using True ih by (simp add: mk maxReadAt_absorb)
  next
    case False
    then have "getOwnTimestamp m' c = getOwnTimestamp m c"
      using own Cons.prems by (auto simp: getOwnTimestamp_def jget_or_def split: option.splits if_splits)
    with False ih show ?thesis by (auto simp: mk r)
  qed
qed

theorem markAll_max_witness:
  "let m = fst (newReadStateManager sample_world ''pk'' ''u'' ''h'') in
   getOwnTimestamp (fst (markAll show_int [(''a'', 5), (''b'', 9), (''a'', 3)] m sample_world)) ''a'' = Some 5"
proof -
  let ?m = "fst (newReadStateManager sample_world ''pk'' ''u'' ''h'')"
  have "getOwnTimestamp ?m ''a'' = None"
    by (simp add: newReadStateManager_def case_prod_unfold getOwnTimestamp_def)
  then show ?thesis
    using markAll_max [of ?m "''a''" show_int "[(''a'', 5), (''b'', 9), (''a'', 3)]" sample_world]
    by (simp add: maxReadAt_def)
qed

text \<open>
  The hierarchical frontier is the latest of a context's own marker and its parent's: with
  no resolver, no parent or no parent marker it is the own marker.
\<close>

theorem getEffectiveTimestamp_max:
  "getEffectiveTimestamp m c =
     maxReadAt [getOwnTimestamp m c,
       Option.bind (Option.bind (rm_parentResolver m) (\<lambda>resolver. resolver c)) (getOwnTimestamp m)]"
  by (cases "rm_parentResolver m")
    (auto simp: getEffectiveTimestamp_def resolveEffectiveTimestamp_def getOwnTimestamp_def maxReadAt_def
      split: option.splits)

text \<open>
  C39. One channel marker whose time is outside the range of \<open>Date\<close> makes every later advance
  throw: nothing is stored and no listener is called from then on, while the marker in memory
  still moves.
\<close>

theorem out_of_range_marker_blocks_persistence:
  assumes "jwf (rm_effectiveState m)" and "getOwnTimestamp m bad = Some tb"
    and "\<not> isPrunableContextKey bad" and "\<not> date_in_range (tb * 1000)"
    and "contextId \<noteq> bad" and "t > jget_or (rm_effectiveState m) contextId 0"
  shows "markContextRead to_iso contextId t m w =
    (Some RangeError, m\<lparr>rm_effectiveState := jset (rm_effectiveState m) contextId t\<rparr>, w)"
proof -
  let ?c = "jset (rm_effectiveState m) contextId t"
  have "jget (pruneStaleContexts ?c (rw_now w div 1000)) bad = Some tb"
    using prune_channel [of ?c bad] assms(1-3,5) by (simp add: getOwnTimestamp_def)
  then have "(bad, tb) \<in> set (pruneStaleContexts ?c (rw_now w div 1000))" by (rule map_of_SomeD)
  then have "\<not> list_all (\<lambda>(c, t). date_in_range (t * 1000)) (pruneStaleContexts ?c (rw_now w div 1000))"
    using assms(4) by (auto simp: list_all_iff)
  with assms(6) show ?thesis
    by (simp add: markContextRead_def advanceContext_def persistLocalState_def writeStoredReadState_def)
qed

theorem out_of_range_marker_blocks_persistence_witness:
  "let m = fst (markAll show_int [(''bad'', 9000000000000)]
             (fst (newReadStateManager sample_world ''pk'' ''u'' ''h'')) sample_world) in
   fst (markContextRead show_int ''chan'' 7 m sample_world) = Some RangeError"
proof -
  let ?m = "fst (markAll show_int [(''bad'', 9000000000000)]
             (fst (newReadStateManager sample_world ''pk'' ''u'' ''h'')) sample_world)"
  have eff: "rm_effectiveState ?m = [(''bad'', 9000000000000)]"
    by (auto simp: newReadStateManager_def case_prod_unfold markContextRead_def advanceContext_def
        jget_or_def split: sum.splits)
  have "\<not> isPrunableContextKey ''bad''"
    by (simp add: isPrunableContextKey_def startsWith_def MSG_PREFIX_def THREAD_PREFIX_def)
  then show ?thesis
    using out_of_range_marker_blocks_persistence [of ?m "''bad''" 9000000000000 "''chan''" 7 show_int sample_world]
    by (simp add: eff jwf_def getOwnTimestamp_def date_in_range_def jget_or_def del: markAll.simps)
qed

end
