(* ===== verification/RelayEvents.thy ===== *)
theory RelayEvents
  imports Prelude
begin

text \<open>
  Relay events (\<open>shared/api/types.ts\<close>), their kinds (\<open>shared/constants/kinds.ts\<close>) and the
  thread references that their tags carry (\<open>features/messages/lib/threading.ts\<close>): reading a
  reference, building the tags of a reply, and normalising the mentions of a message.
\<close>

subsection \<open>Events and kinds\<close>

record channel =
  ch_id :: string
  ch_name :: string
  ch_channelType :: string
  ch_visibility :: string
  ch_description :: string
  ch_topic :: "string option"
  ch_purpose :: "string option"
  ch_memberCount :: int
  ch_memberPubkeys :: "string list"
  ch_lastMessageAt :: "string option"
  ch_archivedAt :: "string option"
  ch_participants :: "string list"
  ch_participantPubkeys :: "string list"
  ch_isMember :: bool
  ch_ttlSeconds :: "int option"
  ch_ttlDeadline :: "string option"

record relay_event =
  ev_id :: string
  ev_localKey :: "string option"
  ev_pubkey :: string
  ev_created_at :: int
  ev_kind :: int
  ev_tags :: "string list list"
  ev_content :: string
  ev_sig :: string
  ev_pending :: "bool option"

definition KIND_SYSTEM_MESSAGE :: int where "KIND_SYSTEM_MESSAGE = 40099"
definition KIND_CHANNEL_THREAD_SUMMARY :: int where "KIND_CHANNEL_THREAD_SUMMARY = 39005"
definition KIND_CHANNEL_WINDOW_BOUNDS :: int where "KIND_CHANNEL_WINDOW_BOUNDS = 39006"
definition KIND_HUDDLE_STARTED :: int where "KIND_HUDDLE_STARTED = 48100"

definition CHANNEL_AUX_EVENT_KINDS :: "int list" where
  "CHANNEL_AUX_EVENT_KINDS = [5, 7, 9005, 40003]"

definition CHANNEL_TIMELINE_CONTENT_KINDS :: "int list" where
  "CHANNEL_TIMELINE_CONTENT_KINDS =
     [9, 40002, 40008, 40099, 43001, 43002, 43003, 43004, 43005, 43006, 48100]"

definition NON_CONVERSATIONAL_UNREAD_KINDS :: "int list" where
  "NON_CONVERSATIONAL_UNREAD_KINDS =
     [40099, 43001, 43002, 43003, 43004, 43005, 43006, 48100, 48101, 48102, 48103]"

definition isConversationalUnreadKind :: "int option \<Rightarrow> bool" where
  "isConversationalUnreadKind kind =
     (case kind of None \<Rightarrow> True | Some k \<Rightarrow> k \<notin> set NON_CONVERSATIONAL_UNREAD_KINDS)"

subsection \<open>Thread references\<close>

record thread_reference =
  tr_parentId :: "string option"
  tr_rootId :: "string option"

definition getEventTags :: "string list list \<Rightarrow> string list list" where
  "getEventTags tags = filter (\<lambda>tag. jsat tag 0 = Some ''e'' \<and> jsat tag 1 \<noteq> None) tags"

definition getChannelIdFromTags :: "string list list \<Rightarrow> string option" where
  "getChannelIdFromTags tags =
     (case find (\<lambda>tag. jsat tag 0 = Some ''h'') tags of
        None \<Rightarrow> None
      | Some tag \<Rightarrow> jsat tag 1)"

definition isBroadcastReply :: "string list list \<Rightarrow> bool" where
  "isBroadcastReply tags =
     list_ex (\<lambda>tag. jsat tag 0 = Some ''broadcast'' \<and> jsat tag 1 = Some ''1'') tags"

definition getThreadReference :: "string list list \<Rightarrow> thread_reference" where
  "getThreadReference tags =
     (let eventTags = getEventTags tags in
      if eventTags = [] then \<lparr>tr_parentId = None, tr_rootId = None\<rparr>
      else
        let rootTag = find (\<lambda>tag. jsat tag 3 = Some ''root'') eventTags;
            replyTag = find (\<lambda>tag. jsat tag 3 = Some ''reply'') (rev eventTags)
        in case replyTag of
             None \<Rightarrow> \<lparr>tr_parentId = None, tr_rootId = None\<rparr>
           | Some reply \<Rightarrow>
               let parentId = jsat reply 1 in
               \<lparr>tr_parentId = parentId,
                tr_rootId = (case Option.bind rootTag (\<lambda>tag. jsat tag 1) of
                               Some r \<Rightarrow> Some r
                             | None \<Rightarrow> parentId)\<rparr>)"

definition isThreadReply :: "string list list \<Rightarrow> bool" where
  "isThreadReply tags =
     (tr_parentId (getThreadReference tags) \<noteq> None \<and> \<not> isBroadcastReply tags)"

subsection \<open>Mentions\<close>

fun normalizeMentions_loop :: "string list \<Rightarrow> string list \<Rightarrow> string list \<Rightarrow> string list" where
  "normalizeMentions_loop seen result [] = result"
| "normalizeMentions_loop seen result (pk # pks) =
     (let lower = toLowerCase pk in
      if lower \<in> set seen then normalizeMentions_loop seen result pks
      else normalizeMentions_loop (seen @ [lower]) (result @ [lower]) pks)"

definition normalizeMentionPubkeys :: "string list \<Rightarrow> string \<Rightarrow> string list" where
  "normalizeMentionPubkeys mentionPubkeys selfPubkey =
     normalizeMentions_loop [toLowerCase selfPubkey] [] mentionPubkeys"

definition diffAddedMentionPubkeys :: "string list \<Rightarrow> string list \<Rightarrow> string \<Rightarrow> string list" where
  "diffAddedMentionPubkeys originalPubkeys editedPubkeys selfPubkey =
     (let original = map toLowerCase originalPubkeys in
      filter (\<lambda>pubkey. pubkey \<notin> set original)
        (normalizeMentionPubkeys editedPubkeys selfPubkey))"

subsection \<open>Building tags\<close>

definition buildReplyTags ::
  "string \<Rightarrow> string \<Rightarrow> string \<Rightarrow> string \<Rightarrow> string list \<Rightarrow> string list list" where
  "buildReplyTags channelId authorPubkey parentEventId rootEventId mentionPubkeys =
     (let tags = [[''p'', authorPubkey], [''h'', channelId]] @
            map (\<lambda>pubkey. [''p'', pubkey]) (normalizeMentionPubkeys mentionPubkeys authorPubkey)
      in if parentEventId = rootEventId then tags @ [[''e'', rootEventId, [], ''reply'']]
         else tags @ [[''e'', rootEventId, [], ''root''], [''e'', parentEventId, [], ''reply'']])"

definition buildThreadReferenceTags ::
  "string \<Rightarrow> string option \<Rightarrow> string option \<Rightarrow> string list list" where
  "buildThreadReferenceTags channelId parentEventId rootEventId =
     (let tags = [[''h'', channelId]] in
      if \<not> truthy parentEventId then tags
      else if \<not> truthy rootEventId \<or> parentEventId = rootEventId
        then tags @ [[''e'', the parentEventId, [], ''reply'']]
      else tags @ [[''e'', the rootEventId, [], ''root''], [''e'', the parentEventId, [], ''reply'']])"

definition resolveReplyRootId :: "string \<Rightarrow> relay_event list \<Rightarrow> string" where
  "resolveReplyRootId parentEventId events =
     (case find (\<lambda>event. ev_id event = parentEventId) events of
        None \<Rightarrow> parentEventId
      | Some parent \<Rightarrow>
          (case tr_rootId (getThreadReference (ev_tags parent)) of
             Some r \<Rightarrow> r
           | None \<Rightarrow> ev_id parent))"

subsection \<open>Lemmas on mentions\<close>

lemma normalizeMentions_loop_set:
  "set (normalizeMentions_loop seen result pks) =
     set result \<union> (toLowerCase ` set pks - set seen)"
  by (induction pks arbitrary: seen result) auto

lemma normalizeMentions_loop_distinct:
  assumes "distinct result" and "set result \<subseteq> set seen"
  shows "distinct (normalizeMentions_loop seen result pks)"
  using assms
proof (induction pks arbitrary: seen result)
  case (Cons pk pks)
  show ?case
  proof (cases "toLowerCase pk \<in> set seen")
    case True
    with Cons show ?thesis by simp
  next
    case False
    with Cons.prems have "distinct (result @ [toLowerCase pk])"
      and "set (result @ [toLowerCase pk]) \<subseteq> set (seen @ [toLowerCase pk])" by auto
    from Cons.IH [OF this] False show ?thesis by simp
  qed
qed simp

lemma set_normalizeMentionPubkeys:
  "set (normalizeMentionPubkeys pks self) = toLowerCase ` set pks - {toLowerCase self}"
  by (simp add: normalizeMentionPubkeys_def normalizeMentions_loop_set)

lemma distinct_normalizeMentionPubkeys: "distinct (normalizeMentionPubkeys pks self)"
  by (simp add: normalizeMentionPubkeys_def normalizeMentions_loop_distinct)

text \<open>
  The mentions an edit newly adds are, each once and lower-cased, exactly the pubkeys of
  the edited body that differ (case-insensitively) from the author and from every pubkey of
  the original body.
\<close>

theorem diffAddedMentionPubkeys_spec:
  "distinct (diffAddedMentionPubkeys original edited self) \<and>
   set (diffAddedMentionPubkeys original edited self) =
     toLowerCase ` set edited - insert (toLowerCase self) (toLowerCase ` set original)"
  by (auto simp: diffAddedMentionPubkeys_def set_normalizeMentionPubkeys
      distinct_normalizeMentionPubkeys)

subsection \<open>Lemmas on thread references\<close>

lemma getEventTags_append: "getEventTags (xs @ ys) = getEventTags xs @ getEventTags ys"
  by (simp add: getEventTags_def)

lemma getEventTags_p: "getEventTags (map (\<lambda>pubkey. [''p'', pubkey]) pks) = []"
  by (induction pks) (simp_all add: getEventTags_def)

lemma getEventTags_buildReplyTags:
  "getEventTags (buildReplyTags ch author parent root ms) =
     (if parent = root then [[''e'', root, [], ''reply'']]
      else [[''e'', root, [], ''root''], [''e'', parent, [], ''reply'']])"
  by (simp add: buildReplyTags_def getEventTags_append getEventTags_p)
    (simp add: getEventTags_def)

lemma getThreadReference_buildReplyTags:
  "getThreadReference (buildReplyTags ch author parent root ms) =
     \<lparr>tr_parentId = Some parent, tr_rootId = Some root\<rparr>"
  by (simp add: getThreadReference_def getEventTags_buildReplyTags)

lemma getThreadReference_buildThreadReferenceTags:
  "getThreadReference (buildThreadReferenceTags ch (Some parent) root) =
     (if parent = [] then \<lparr>tr_parentId = None, tr_rootId = None\<rparr>
      else \<lparr>tr_parentId = Some parent, tr_rootId = Some (if truthy root then the root else parent)\<rparr>)"
  by (auto simp: getThreadReference_def buildThreadReferenceTags_def getEventTags_def truthy_def
      split: option.splits)

lemma isBroadcastReply_append:
  "isBroadcastReply (xs @ ys) \<longleftrightarrow> isBroadcastReply xs \<or> isBroadcastReply ys"
  by (simp add: isBroadcastReply_def)

lemma isBroadcastReply_p: "\<not> isBroadcastReply (map (\<lambda>pubkey. [''p'', pubkey]) pks)"
  by (induction pks) (simp_all add: isBroadcastReply_def)

lemma isBroadcastReply_buildReplyTags: "\<not> isBroadcastReply (buildReplyTags ch author parent root ms)"
  using isBroadcastReply_p [of "normalizeMentionPubkeys ms author"]
  by (simp add: buildReplyTags_def isBroadcastReply_def)

text \<open>
  Reading back the tags a reply was built with gives the parent, the root and the channel
  they were built from, whatever is mentioned, and the reply is recognised as a thread reply.
\<close>

theorem buildReplyTags_roundtrip:
  "getThreadReference (buildReplyTags ch author parent root ms) =
     \<lparr>tr_parentId = Some parent, tr_rootId = Some root\<rparr> \<and>
   getChannelIdFromTags (buildReplyTags ch author parent root ms) = Some ch \<and>
   isThreadReply (buildReplyTags ch author parent root ms)"
  by (simp add: getThreadReference_buildReplyTags isThreadReply_def isBroadcastReply_buildReplyTags)
    (simp add: getChannelIdFromTags_def buildReplyTags_def)

end
