(* ===== verification/ChannelWindow.thy ===== *)
theory ChannelWindow
  imports RelayEvents
begin

text \<open>
  The channel window (\<open>features/messages/lib/channelWindowStore.ts\<close>) and the parser of a page
  response (\<open>channelWindowResponse.ts\<close>). A window is a chain of relay pages, each continuing
  the cursor of the one before, an overlay of live rows that no page has delivered yet, live
  auxiliary events, and live thread summaries. Operations that throw in the source return
  \<open>Inl\<close> of the error. The chain, the disjointness of overlay and pages and the uniqueness of
  rows are the invariant \<open>window_wf\<close>, kept by every operation.
\<close>

subsection \<open>Data\<close>

record window_cursor =
  cur_createdAt :: int
  cur_eventId :: string
  cur_beforeId :: "int option"

record thread_summary =
  ts_replyCount :: int
  ts_descendantCount :: int
  ts_lastReplyAt :: "int option"
  ts_participantPubkeys :: "string list"

record window_row =
  row_event :: relay_event
  row_thread :: "thread_summary option"

record live_summary =
  ls_summary :: thread_summary
  ls_createdAt :: int

record window_page =
  pg_startCursor :: "window_cursor option"
  pg_rows :: "window_row list"
  pg_aux :: "relay_event list"
  pg_nextCursor :: "window_cursor option"
  pg_hasMore :: bool

record window_store =
  cw_pages :: "window_page list"
  cw_liveOverlay :: "relay_event list"
  cw_liveAux :: "relay_event list"
  cw_liveSummaries :: "(string, live_summary) jsmap"

datatype window_error =
    HasMoreDisagrees
  | DuplicateRow string
  | OutsideCursor string
  | NotRelayOrder
  | StartCursorNotNull
  | NewestNotLoaded
  | WindowComplete
  | ChainBroken
  | RowOverlaps string
  | InvalidJson string
  | NullJson
  | BoundsCount
  | BoundsMismatch
  | BoundsDisagree

subsection \<open>Order and page validity\<close>

definition emptyChannelWindowStore :: window_store where
  "emptyChannelWindowStore =
     \<lparr>cw_pages = [], cw_liveOverlay = [], cw_liveAux = [], cw_liveSummaries = []\<rparr>"

definition cursorsEqual :: "window_cursor option \<Rightarrow> window_cursor option \<Rightarrow> bool" where
  "cursorsEqual left right =
     (case (left, right) of
        (None, None) \<Rightarrow> True
      | (Some l, Some r) \<Rightarrow>
          cur_createdAt l = cur_createdAt r \<and> cur_eventId l = cur_eventId r \<and>
          cur_beforeId l = cur_beforeId r
      | _ \<Rightarrow> False)"

definition compareRelayOrder :: "relay_event \<Rightarrow> relay_event \<Rightarrow> int" where
  "compareRelayOrder left right =
     (if ev_created_at left \<noteq> ev_created_at right then ev_created_at right - ev_created_at left
      else if ev_id left < ev_id right then - 1
      else if ev_id left > ev_id right then 1
      else 0)"

definition isStrictlyOlder :: "relay_event \<Rightarrow> window_cursor \<Rightarrow> bool" where
  "isStrictlyOlder event cursor =
     (ev_created_at event < cur_createdAt cursor \<or>
      (ev_created_at event = cur_createdAt cursor \<and> ev_id event > cur_eventId cursor))"

fun assertValidRows ::
  "window_cursor option \<Rightarrow> string list \<Rightarrow> relay_event option \<Rightarrow> window_row list \<Rightarrow> window_error option" where
  "assertValidRows startCursor seen previous [] = None"
| "assertValidRows startCursor seen previous (row # rows) =
     (let event = row_event row in
      if ev_id event \<in> set seen then Some (DuplicateRow (ev_id event))
      else if (case startCursor of
                 None \<Rightarrow> False
               | Some c \<Rightarrow> cur_beforeId c = None \<and> \<not> isStrictlyOlder event c)
        then Some (OutsideCursor (ev_id event))
      else if (case previous of None \<Rightarrow> False | Some p \<Rightarrow> compareRelayOrder p event > 0)
        then Some NotRelayOrder
      else assertValidRows startCursor (seen @ [ev_id event]) (Some event) rows)"

definition assertValidPage :: "window_page \<Rightarrow> window_error option" where
  "assertValidPage page =
     (if pg_hasMore page \<noteq> (pg_nextCursor page \<noteq> None) then Some HasMoreDisagrees
      else assertValidRows (pg_startCursor page) [] None (pg_rows page))"

subsection \<open>Operations\<close>

definition pageRowIds :: "window_page \<Rightarrow> string list" where
  "pageRowIds page = map (\<lambda>row. ev_id (row_event row)) (pg_rows page)"

definition pageLocalKeys :: "window_page \<Rightarrow> string list" where
  "pageLocalKeys page =
     map the (filter truthy (map (\<lambda>row. ev_localKey (row_event row)) (pg_rows page)))"

definition renderKey :: "relay_event \<Rightarrow> string" where
  "renderKey event = (case ev_localKey event of Some k \<Rightarrow> k | None \<Rightarrow> ev_id event)"

definition notInPage :: "window_page \<Rightarrow> relay_event \<Rightarrow> bool" where
  "notInPage page event =
     (ev_id event \<notin> set (pageRowIds page) \<and> renderKey event \<notin> set (pageLocalKeys page))"

definition replaceNewestChannelWindow ::
  "window_store \<Rightarrow> window_page \<Rightarrow> window_error + window_store" where
  "replaceNewestChannelWindow current page =
     (if pg_startCursor page \<noteq> None then Inl StartCursorNotNull
      else case assertValidPage page of
        Some err \<Rightarrow> Inl err
      | None \<Rightarrow>
          (let auxIds = map ev_id (pg_aux page) in
           Inr \<lparr>cw_pages = [page],
                cw_liveOverlay = filter (notInPage page) (cw_liveOverlay current),
                cw_liveAux = filter (\<lambda>event. ev_id event \<notin> set auxIds) (cw_liveAux current),
                cw_liveSummaries = []\<rparr>))"

definition appendOlderChannelWindow ::
  "window_store \<Rightarrow> window_page \<Rightarrow> window_error + window_store" where
  "appendOlderChannelWindow current page =
     (case assertValidPage page of
        Some err \<Rightarrow> Inl err
      | None \<Rightarrow>
          (case jslast (cw_pages current) of
             None \<Rightarrow> Inl NewestNotLoaded
           | Some tail \<Rightarrow>
               if \<not> pg_hasMore tail \<or> pg_nextCursor tail = None then Inl WindowComplete
               else if \<not> cursorsEqual (pg_startCursor page) (pg_nextCursor tail)
                 then Inl ChainBroken
               else
                 let ids = concat (map pageRowIds (cw_pages current)) in
                 case find (\<lambda>i. i \<in> set ids) (pageRowIds page) of
                   Some i \<Rightarrow> Inl (RowOverlaps i)
                 | None \<Rightarrow>
                     Inr (current\<lparr>cw_pages := cw_pages current @ [page],
                            cw_liveOverlay := filter (notInPage page) (cw_liveOverlay current)\<rparr>)))"

definition mergeLiveThreadSummary ::
  "window_store \<Rightarrow> string \<Rightarrow> live_summary \<Rightarrow> window_store" where
  "mergeLiveThreadSummary current rootId incoming =
     (let existing = jget (cw_liveSummaries current) rootId in
      if (case existing of None \<Rightarrow> False | Some e \<Rightarrow> ls_createdAt e \<ge> ls_createdAt incoming)
        then current
      else current\<lparr>cw_liveSummaries := jset (cw_liveSummaries current) rootId incoming\<rparr>)"

definition oldestRow :: "window_store \<Rightarrow> relay_event option" where
  "oldestRow store =
     Option.bind (jslast (cw_pages store)) (\<lambda>page. map_option row_event (jslast (pg_rows page)))"

definition channelWindowHasMore :: "window_store \<Rightarrow> bool" where
  "channelWindowHasMore store =
     (case jslast (cw_pages store) of None \<Rightarrow> False | Some tail \<Rightarrow> pg_hasMore tail)"

definition channelWindowHistoryExhausted :: "window_store \<Rightarrow> bool" where
  "channelWindowHistoryExhausted store =
     (case jslast (cw_pages store) of None \<Rightarrow> False | Some tail \<Rightarrow> \<not> pg_hasMore tail)"

definition belowOldest :: "window_store \<Rightarrow> relay_event \<Rightarrow> bool" where
  "belowOldest store event =
     (case oldestRow store of
        None \<Rightarrow> False
      | Some oldest \<Rightarrow>
          ev_created_at event < ev_created_at oldest \<or>
          (channelWindowHasMore store \<and> compareRelayOrder event oldest \<ge> 0))"

definition deliveredByPage :: "window_store \<Rightarrow> relay_event \<Rightarrow> bool" where
  "deliveredByPage store event =
     list_ex (\<lambda>page. list_ex (\<lambda>row. ev_id (row_event row) = ev_id event \<or>
                                    renderKey (row_event row) = renderKey event) (pg_rows page))
       (cw_pages store)"

definition mergeLiveChannelWindowEvent ::
  "window_store \<Rightarrow> relay_event \<Rightarrow> bool \<Rightarrow> window_store" where
  "mergeLiveChannelWindowEvent current event isTimelineRow =
     (if \<not> isTimelineRow then
        (if list_ex (\<lambda>candidate. ev_id candidate = ev_id event) (cw_liveAux current) \<or>
            list_ex (\<lambda>page. list_ex (\<lambda>candidate. ev_id candidate = ev_id event) (pg_aux page))
              (cw_pages current)
         then current
         else current\<lparr>cw_liveAux := cw_liveAux current @ [event]\<rparr>)
      else if deliveredByPage current event then current
      else if belowOldest current event then current
      else current\<lparr>cw_liveOverlay :=
             js_sort compareRelayOrder
               (filter (\<lambda>candidate. ev_id candidate \<noteq> ev_id event \<and>
                          renderKey candidate \<noteq> renderKey event) (cw_liveOverlay current)
                @ [event])\<rparr>)"

definition mapPageEvents :: "(relay_event \<Rightarrow> relay_event) \<Rightarrow> window_page \<Rightarrow> window_page" where
  "mapPageEvents f page =
     page\<lparr>pg_rows := map (\<lambda>row. row\<lparr>row_event := f (row_event row)\<rparr>) (pg_rows page),
          pg_aux := map f (pg_aux page)\<rparr>"

definition windowEvents :: "window_store \<Rightarrow> relay_event list" where
  "windowEvents store =
     concat (map (\<lambda>page. map row_event (pg_rows page) @ pg_aux page) (cw_pages store))
     @ cw_liveOverlay store @ cw_liveAux store"

definition mapChannelWindowEvents ::
  "window_store \<Rightarrow> (relay_event \<Rightarrow> relay_event) \<Rightarrow> window_store" where
  "mapChannelWindowEvents store f =
     (let changed = list_ex (\<lambda>event. f event \<noteq> event) (windowEvents store) in
      if changed then
        store\<lparr>cw_pages := map (mapPageEvents f) (cw_pages store),
              cw_liveOverlay := map f (cw_liveOverlay store),
              cw_liveAux := map f (cw_liveAux store)\<rparr>
      else store)"

definition flattenChannelWindowEvents :: "window_store \<Rightarrow> relay_event list" where
  "flattenChannelWindowEvents store =
     (let byId = jmap_of (map (\<lambda>event. (ev_id event, event)) (windowEvents store)) in
      js_sort (\<lambda>left right. compareRelayOrder right left) (jvals byId))"

definition channelWindowThreadSummaries :: "window_store \<Rightarrow> (string, thread_summary) jsmap" where
  "channelWindowThreadSummaries store =
     (let summaries = jmap_of (concat (map (\<lambda>page. List.map_filter (\<lambda>row.
            map_option (\<lambda>thread. (ev_id (row_event row), thread)) (row_thread row)) (pg_rows page))
            (cw_pages store)))
      in fold (\<lambda>(rootId, live) m. jset m rootId (ls_summary live))
           (cw_liveSummaries store) summaries)"

subsection \<open>Parsing a page response\<close>

text \<open>
  \<open>JSON.parse\<close> is a parameter of the parsers: it rejects the text, returns \<open>null\<close>, or
  returns an object, which the source casts to the payload type. Reading a field of \<open>null\<close>
  throws.
\<close>

datatype 'a json = JsonError | JsonNull | JsonValue 'a

record wire_cursor =
  wc_created_at :: int
  wc_id :: string

record bounds_payload =
  bp_has_more :: bool
  bp_next_cursor :: "wire_cursor option"

record summary_payload =
  sp_reply_count :: int
  sp_descendant_count :: int
  sp_last_reply_at :: "int option"
  sp_participants :: "string list"

definition targetId :: "relay_event \<Rightarrow> string \<Rightarrow> string option" where
  "targetId event tagName =
     (case find (\<lambda>tag. jsat tag 0 = Some tagName) (ev_tags event) of
        None \<Rightarrow> None
      | Some tag \<Rightarrow> jsat tag 1)"

definition parseJson :: "(string \<Rightarrow> 'a json) \<Rightarrow> relay_event \<Rightarrow> window_error + 'a" where
  "parseJson json_parse event =
     (case json_parse (ev_content event) of
        JsonError \<Rightarrow> Inl (InvalidJson (ev_id event))
      | JsonNull \<Rightarrow> Inl NullJson
      | JsonValue v \<Rightarrow> Inr v)"

definition mapCursor :: "wire_cursor option \<Rightarrow> window_cursor option" where
  "mapCursor cursor =
     map_option (\<lambda>c. \<lparr>cur_createdAt = wc_created_at c, cur_eventId = wc_id c,
                      cur_beforeId = None\<rparr>) cursor"

definition mapSummary :: "summary_payload \<Rightarrow> thread_summary" where
  "mapSummary payload =
     \<lparr>ts_replyCount = sp_reply_count payload, ts_descendantCount = sp_descendant_count payload,
      ts_lastReplyAt = sp_last_reply_at payload, ts_participantPubkeys = sp_participants payload\<rparr>"

definition parseLiveThreadSummary ::
  "(string \<Rightarrow> summary_payload json) \<Rightarrow> relay_event \<Rightarrow> (string \<times> live_summary) option" where
  "parseLiveThreadSummary json_parse event =
     (if ev_kind event \<noteq> KIND_CHANNEL_THREAD_SUMMARY then None
      else
        let rootId = targetId event ''e'' in
        if \<not> truthy rootId then None
        else case json_parse (ev_content event) of
               JsonValue payload \<Rightarrow>
                 Some (the rootId, \<lparr>ls_summary = mapSummary payload,
                                    ls_createdAt = ev_created_at event\<rparr>)
             | _ \<Rightarrow> None)"

definition expectedBoundsKey :: "string \<Rightarrow> window_cursor option \<Rightarrow> string" where
  "expectedBoundsKey channelId startCursor =
     toLowerCase channelId @ '':'' @
     (case startCursor of
        None \<Rightarrow> ''head''
      | Some c \<Rightarrow> show_int (cur_createdAt c) @ '':'' @ toLowerCase (cur_eventId c))"

fun setLastThread :: "string \<Rightarrow> thread_summary \<Rightarrow> window_row list \<Rightarrow> window_row list" where
  "setLastThread rootId thread [] = []"
| "setLastThread rootId thread (row # rows) =
     (if ev_id (row_event row) = rootId \<and>
         rootId \<notin> set (map (\<lambda>r. ev_id (row_event r)) rows)
      then row\<lparr>row_thread := Some thread\<rparr> # rows
      else row # setLastThread rootId thread rows)"

fun attachSummaries ::
  "(string \<Rightarrow> summary_payload json) \<Rightarrow> relay_event list \<Rightarrow> window_row list
   \<Rightarrow> window_error + window_row list" where
  "attachSummaries json_parse [] rows = Inr rows"
| "attachSummaries json_parse (event # events) rows =
     (if ev_kind event \<noteq> KIND_CHANNEL_THREAD_SUMMARY then attachSummaries json_parse events rows
      else
        let rootId = targetId event ''e'' in
        if \<not> truthy rootId \<or> the rootId \<notin> set (map (\<lambda>r. ev_id (row_event r)) rows)
          then attachSummaries json_parse events rows
        else case parseJson json_parse event of
               Inl err \<Rightarrow> Inl err
             | Inr payload \<Rightarrow>
                 attachSummaries json_parse events
                   (setLastThread (the rootId) (mapSummary payload) rows))"

definition parseChannelWindowResponse ::
  "(string \<Rightarrow> summary_payload json) \<Rightarrow> (string \<Rightarrow> bounds_payload json) \<Rightarrow> relay_event list
   \<Rightarrow> string \<Rightarrow> window_cursor option \<Rightarrow> window_error + window_page" where
  "parseChannelWindowResponse json_summary json_bounds events channelId startCursor =
     (let rows0 = map (\<lambda>event. \<lparr>row_event = event, row_thread = None\<rparr>)
            (filter (\<lambda>event. ev_kind event \<in> set CHANNEL_TIMELINE_CONTENT_KINDS) events)
      in case attachSummaries json_summary events rows0 of
        Inl err \<Rightarrow> Inl err
      | Inr rows \<Rightarrow>
          (case filter (\<lambda>event. ev_kind event = KIND_CHANNEL_WINDOW_BOUNDS) events of
             [boundsEvent] \<Rightarrow>
               if targetId boundsEvent ''d'' \<noteq> Some (expectedBoundsKey channelId startCursor)
                 then Inl BoundsMismatch
               else (case parseJson json_bounds boundsEvent of
                 Inl err \<Rightarrow> Inl err
               | Inr bounds \<Rightarrow>
                   let nextCursor = mapCursor (bp_next_cursor bounds) in
                   if bp_has_more bounds \<noteq> (nextCursor \<noteq> None) then Inl BoundsDisagree
                   else Inr \<lparr>pg_startCursor = startCursor, pg_rows = rows,
                     pg_aux = filter (\<lambda>event. ev_kind event \<in> set CHANNEL_AUX_EVENT_KINDS) events,
                     pg_nextCursor = nextCursor, pg_hasMore = bp_has_more bounds\<rparr>)
           | _ \<Rightarrow> Inl BoundsCount))"

subsection \<open>Relay order as a linear order\<close>

text \<open>
  The position of an event in a window: newest second first, ascending id within a second.
  \<open>chron_pos\<close> is the reverse order, in which the timeline is rendered.
\<close>

datatype relay_pos = RelayPos (pos_time: int) (pos_id: string)

instantiation relay_pos :: linorder
begin

definition less_eq_relay_pos :: "relay_pos \<Rightarrow> relay_pos \<Rightarrow> bool" where
  "less_eq_relay_pos p q \<longleftrightarrow>
     pos_time q < pos_time p \<or> (pos_time p = pos_time q \<and> pos_id p \<le> pos_id q)"

definition less_relay_pos :: "relay_pos \<Rightarrow> relay_pos \<Rightarrow> bool" where
  "less_relay_pos p q \<longleftrightarrow>
     pos_time q < pos_time p \<or> (pos_time p = pos_time q \<and> pos_id p < pos_id q)"

instance
  by standard
    (auto simp: less_eq_relay_pos_def less_relay_pos_def relay_pos.expand)

end

datatype chron_pos = ChronPos (chron_relay: relay_pos)

instantiation chron_pos :: linorder
begin

definition less_eq_chron_pos :: "chron_pos \<Rightarrow> chron_pos \<Rightarrow> bool" where
  "less_eq_chron_pos p q \<longleftrightarrow> chron_relay q \<le> chron_relay p"

definition less_chron_pos :: "chron_pos \<Rightarrow> chron_pos \<Rightarrow> bool" where
  "less_chron_pos p q \<longleftrightarrow> chron_relay q < chron_relay p"

instance
  by standard (auto simp: less_eq_chron_pos_def less_chron_pos_def chron_pos.expand)

end

definition relayPos :: "relay_event \<Rightarrow> relay_pos" where
  "relayPos event = RelayPos (ev_created_at event) (ev_id event)"

definition chronPos :: "relay_event \<Rightarrow> chron_pos" where
  "chronPos event = ChronPos (relayPos event)"

lemma compareRelayOrder_key: "compareRelayOrder x y \<le> 0 \<longleftrightarrow> relayPos x \<le> relayPos y"
  by (auto simp: compareRelayOrder_def relayPos_def less_eq_relay_pos_def)

interpretation relay: keyed_comparator compareRelayOrder relayPos "\<lambda>_. True"
  by unfold_locales (simp add: compareRelayOrder_key)

interpretation chron: keyed_comparator "\<lambda>x y. compareRelayOrder y x" chronPos "\<lambda>_. True"
  by unfold_locales (simp add: compareRelayOrder_key chronPos_def less_eq_chron_pos_def)

lemma compareRelayOrder_zero: "compareRelayOrder x y = 0 \<longleftrightarrow> relayPos x = relayPos y"
  by (auto simp: compareRelayOrder_def relayPos_def)

subsection \<open>Page validity\<close>

definition inCursorInterval :: "window_cursor option \<Rightarrow> relay_event \<Rightarrow> bool" where
  "inCursorInterval c event =
     (case c of None \<Rightarrow> True | Some c \<Rightarrow> cur_beforeId c = None \<longrightarrow> isStrictlyOlder event c)"

lemma assertValidRows_None:
  "assertValidRows c seen prev rows = None \<longleftrightarrow>
     distinct (map (\<lambda>r. ev_id (row_event r)) rows) \<and>
     set (map (\<lambda>r. ev_id (row_event r)) rows) \<inter> set seen = {} \<and>
     (\<forall>row\<in>set rows. inCursorInterval c (row_event row)) \<and>
     sorted (map relayPos ((case prev of None \<Rightarrow> [] | Some p \<Rightarrow> [p]) @ map row_event rows))"
proof (induction rows arbitrary: seen prev)
  case Nil
  then show ?case by (auto split: option.splits)
next
  case (Cons row rows)
  have pos: "compareRelayOrder p e > 0 \<longleftrightarrow> \<not> relayPos p \<le> relayPos e" for p e
    by (simp add: compareRelayOrder_key [symmetric] not_le)
  show ?case
    by (cases prev) (auto simp: Cons.IH pos inCursorInterval_def split: option.splits)
qed

text \<open>
  A page passes \<open>assertValidPage\<close> exactly when its end cursor is present iff it has more,
  its row ids are distinct, every row is older than the start cursor (where that is a
  timestamp cursor), and its rows are in relay order, newest first.
\<close>

theorem assertValidPage_iff:
  "assertValidPage page = None \<longleftrightarrow>
     (pg_hasMore page \<longleftrightarrow> pg_nextCursor page \<noteq> None) \<and>
     distinct (pageRowIds page) \<and>
     list_all (\<lambda>row. inCursorInterval (pg_startCursor page) (row_event row)) (pg_rows page) \<and>
     sorted (map relayPos (map row_event (pg_rows page)))"
  by (auto simp: assertValidPage_def assertValidRows_None pageRowIds_def list_all_iff)

lemma valid_pageD:
  assumes "assertValidPage page = None"
  shows "pg_hasMore page \<longleftrightarrow> pg_nextCursor page \<noteq> None"
    and "distinct (pageRowIds page)"
    and "sorted (map relayPos (map row_event (pg_rows page)))"
  using assms by (auto simp: assertValidPage_def assertValidRows_None pageRowIds_def split: if_splits)

lemma cursorsEqual_iff [simp]: "cursorsEqual l r \<longleftrightarrow> l = r"
  by (cases l; cases r) (auto simp: cursorsEqual_def)

subsection \<open>The window invariant\<close>

fun chained :: "window_cursor option \<Rightarrow> window_page list \<Rightarrow> bool" where
  "chained c [] = True"
| "chained c (page # pages) =
     (pg_startCursor page = c \<and> (pages \<noteq> [] \<longrightarrow> pg_hasMore page) \<and> chained (pg_nextCursor page) pages)"

definition storeRowIds :: "window_store \<Rightarrow> string list" where
  "storeRowIds store = concat (map pageRowIds (cw_pages store))"

definition window_wf :: "window_store \<Rightarrow> bool" where
  "window_wf store \<longleftrightarrow>
     chained None (cw_pages store) \<and>
     (\<forall>page\<in>set (cw_pages store). assertValidPage page = None) \<and>
     distinct (storeRowIds store) \<and>
     distinct (map ev_id (cw_liveOverlay store)) \<and>
     distinct (map renderKey (cw_liveOverlay store)) \<and>
     sorted (map relayPos (cw_liveOverlay store)) \<and>
     set (map ev_id (cw_liveOverlay store)) \<inter> set (storeRowIds store) = {} \<and>
     jwf (cw_liveSummaries store)"

lemma chained_snoc:
  "chained c (pages @ [page]) \<longleftrightarrow>
     chained c pages \<and>
     (case jslast pages of
        None \<Rightarrow> pg_startCursor page = c
      | Some tail \<Rightarrow> pg_hasMore tail \<and> pg_startCursor page = pg_nextCursor tail)"
  by (induction c pages rule: chained.induct) (auto simp: jslast_def)

lemma window_wf_empty: "window_wf emptyChannelWindowStore"
  by (simp add: window_wf_def emptyChannelWindowStore_def storeRowIds_def)

lemma filter_overlay_wf:
  assumes "distinct (map ev_id xs)" and "distinct (map renderKey xs)" and "sorted (map relayPos xs)"
  shows "distinct (map ev_id (filter P xs))" and "distinct (map renderKey (filter P xs))"
    and "sorted (map relayPos (filter P xs))"
  using assms by (simp_all add: distinct_map_filter sorted_filter)

lemma window_wf_replace:
  assumes "window_wf store" and "replaceNewestChannelWindow store page = Inr store'"
  shows "window_wf store'"
  using assms filter_overlay_wf [of "cw_liveOverlay store" "notInPage page"]
  by (auto simp: replaceNewestChannelWindow_def window_wf_def storeRowIds_def notInPage_def
      valid_pageD split: if_splits option.splits)

lemma appendOlder_Inr:
  "appendOlderChannelWindow store page = Inr store' \<longleftrightarrow>
     assertValidPage page = None \<and>
     (\<exists>tail. jslast (cw_pages store) = Some tail \<and> pg_hasMore tail \<and>
        pg_nextCursor tail \<noteq> None \<and> pg_startCursor page = pg_nextCursor tail) \<and>
     set (pageRowIds page) \<inter> set (storeRowIds store) = {} \<and>
     store' = store\<lparr>cw_pages := cw_pages store @ [page],
                    cw_liveOverlay := filter (notInPage page) (cw_liveOverlay store)\<rparr>"
  by (auto simp: appendOlderChannelWindow_def storeRowIds_def find_None_iff dest: find_mem_Some
      split: option.splits if_splits)

lemma window_wf_append:
  assumes "window_wf store" and "appendOlderChannelWindow store page = Inr store'"
  shows "window_wf store'"
proof -
  from assms(2) obtain tail where page: "assertValidPage page = None"
    and tail: "jslast (cw_pages store) = Some tail" "pg_hasMore tail"
      "pg_startCursor page = pg_nextCursor tail"
    and disj: "set (pageRowIds page) \<inter> set (storeRowIds store) = {}"
    and store': "store' = store\<lparr>cw_pages := cw_pages store @ [page],
                    cw_liveOverlay := filter (notInPage page) (cw_liveOverlay store)\<rparr>"
    by (auto simp: appendOlder_Inr)
  have "chained None (cw_pages store')"
    using assms(1) tail by (simp add: store' chained_snoc window_wf_def)
  moreover have "distinct (storeRowIds store')"
    using assms(1) disj page by (auto simp: store' storeRowIds_def window_wf_def valid_pageD)
  ultimately show ?thesis
    using assms(1) page filter_overlay_wf [of "cw_liveOverlay store" "notInPage page"]
    by (auto simp: window_wf_def store' storeRowIds_def notInPage_def)
qed

lemma window_wf_summary:
  "window_wf store \<Longrightarrow> window_wf (mergeLiveThreadSummary store rootId live)"
  by (simp add: mergeLiveThreadSummary_def window_wf_def storeRowIds_def split: option.splits)

lemma window_wf_live:
  assumes "window_wf store"
  shows "window_wf (mergeLiveChannelWindowEvent store event isRow)"
proof (cases "isRow \<and> \<not> deliveredByPage store event \<and> \<not> belowOldest store event")
  case False
  with assms show ?thesis
    by (auto simp: mergeLiveChannelWindowEvent_def window_wf_def storeRowIds_def)
next
  case True
  define kept where "kept = filter (\<lambda>candidate. ev_id candidate \<noteq> ev_id event \<and>
    renderKey candidate \<noteq> renderKey event) (cw_liveOverlay store)"
  have merged: "mergeLiveChannelWindowEvent store event isRow =
      store\<lparr>cw_liveOverlay := js_sort compareRelayOrder (kept @ [event])\<rparr>"
    using True by (simp add: mergeLiveChannelWindowEvent_def kept_def)
  have "ev_id event \<notin> set (storeRowIds store)"
    using True by (force simp: deliveredByPage_def storeRowIds_def pageRowIds_def list_ex_iff)
  moreover have "distinct (map ev_id (kept @ [event]))" "distinct (map renderKey (kept @ [event]))"
    using assms by (auto simp: kept_def window_wf_def distinct_map_filter)
  ultimately show ?thesis
    using assms by (auto simp: merged window_wf_def storeRowIds_def kept_def relay.js_sort_sorted)
qed

subsection \<open>Reachable windows\<close>

inductive window_step :: "window_store \<Rightarrow> window_store \<Rightarrow> bool" where
  replace: "replaceNewestChannelWindow s page = Inr s' \<Longrightarrow> window_step s s'"
| append: "appendOlderChannelWindow s page = Inr s' \<Longrightarrow> window_step s s'"
| summary: "window_step s (mergeLiveThreadSummary s rootId live)"
| live: "window_step s (mergeLiveChannelWindowEvent s event isRow)"

inductive window_reachable :: "window_store \<Rightarrow> bool" where
  start: "window_reachable emptyChannelWindowStore"
| step: "window_reachable s \<Longrightarrow> window_step s s' \<Longrightarrow> window_reachable s'"

inductive_cases window_stepE: "window_step s s'"

lemma window_step_wf: "window_step s s' \<Longrightarrow> window_wf s \<Longrightarrow> window_wf s'"
  by (erule window_stepE)
    (auto intro: window_wf_replace window_wf_append window_wf_summary window_wf_live)

lemma window_reachable_wf: "window_reachable s \<Longrightarrow> window_wf s"
  by (induction rule: window_reachable.induct) (auto intro: window_wf_empty window_step_wf)

text \<open>
  C24. In every store the window operations can produce, the pages form one cursor chain from
  the head, every page is valid, no row id occurs twice in the pages, and the live overlay
  repeats neither a row id, nor a render key, nor a row a page delivered, and is in relay order.
\<close>

theorem window_reachable_invariant: "window_reachable s \<Longrightarrow> window_wf s"
  by (rule window_reachable_wf)


subsection \<open>The rendered timeline\<close>

lemma flatten_jvals:
  "set (flattenChannelWindowEvents s) =
     {e. find (\<lambda>x. ev_id x = ev_id e) (rev (windowEvents s)) = Some e}"
  using set_jvals_keyed [of ev_id "windowEvents s"] by (simp add: flattenChannelWindowEvents_def)

lemma distinct_flatten: "distinct (map ev_id (flattenChannelWindowEvents s))"
  using distinct_jvals_keyed [of ev_id "windowEvents s"]
  by (simp add: flattenChannelWindowEvents_def)

lemma sorted_flatten: "sorted (map chronPos (flattenChannelWindowEvents s))"
  by (simp add: flattenChannelWindowEvents_def chron.js_sort_sorted)

lemma flatten_subset: "set (flattenChannelWindowEvents s) \<subseteq> set (windowEvents s)"
  by (auto simp: flatten_jvals dest: find_mem_Some)

text \<open>
  The flattened timeline shows each event id once, in chronological order (the reverse of
  relay order), and shows under an id exactly the event that was written last for it: live
  events over page events, later pages over earlier ones.
\<close>

theorem flatten_timeline:
  "distinct (map ev_id (flattenChannelWindowEvents s)) \<and>
   sorted (map chronPos (flattenChannelWindowEvents s)) \<and>
   set (flattenChannelWindowEvents s) =
     {e. find (\<lambda>x. ev_id x = ev_id e) (rev (windowEvents s)) = Some e} \<and>
   ev_id ` set (flattenChannelWindowEvents s) = ev_id ` set (windowEvents s)"
proof -
  have "\<exists>y. find (\<lambda>x. ev_id x = ev_id y) (rev (windowEvents s)) = Some y \<and> ev_id y = ev_id e"
    if "e \<in> set (windowEvents s)" for e
  proof -
    from that obtain y where y: "find (\<lambda>x. ev_id x = ev_id e) (rev (windowEvents s)) = Some y"
      by (cases "find (\<lambda>x. ev_id x = ev_id e) (rev (windowEvents s))") (auto simp: find_None_iff)
    with find_mem_Some [OF y] have "find (\<lambda>x. ev_id x = ev_id y) (rev (windowEvents s)) = Some y"
      and "ev_id y = ev_id e" by simp_all
    then show ?thesis by blast
  qed
  then show ?thesis
    using flatten_subset [of s] by (auto simp: distinct_flatten sorted_flatten flatten_jvals image_iff) metis
qed

lemma windowEvents_map:
  "windowEvents (s\<lparr>cw_pages := map (mapPageEvents f) (cw_pages s),
     cw_liveOverlay := map f (cw_liveOverlay s), cw_liveAux := map f (cw_liveAux s)\<rparr>) =
   map f (windowEvents s)"
  by (simp add: windowEvents_def mapPageEvents_def map_concat comp_def)

text \<open>
  Mapping the window store and flattening it agree: a transform that keeps an event's id and
  timestamp (an edit of its content, a cleared pending flag) applied to the store is exactly
  the transform applied to the rendered timeline, so no later re-flattening reverts it.
\<close>

theorem flatten_mapChannelWindowEvents:
  assumes "\<And>e. ev_id (f e) = ev_id e" and "\<And>e. ev_created_at (f e) = ev_created_at e"
  shows "flattenChannelWindowEvents (mapChannelWindowEvents s f) = map f (flattenChannelWindowEvents s)"
proof (cases "list_ex (\<lambda>event. f event \<noteq> event) (windowEvents s)")
  case True
  have cmp: "compareRelayOrder (f y) (f x) = compareRelayOrder y x" for x y
    using assms by (simp add: compareRelayOrder_def)
  have "jvals (jmap_of (map (\<lambda>e. (ev_id e, e)) (map f (windowEvents s)))) =
        map f (jvals (jmap_of (map (\<lambda>e. (ev_id e, e)) (windowEvents s))))"
    using jvals_keyed_map [of ev_id f "windowEvents s"] assms by (simp add: comp_def)
  then show ?thesis
    using True
    by (simp only: mapChannelWindowEvents_def flattenChannelWindowEvents_def windowEvents_map
        Let_def if_True js_sort_map [of "\<lambda>x y. compareRelayOrder y x" f "\<lambda>x y. compareRelayOrder y x",
          OF cmp])
next
  case False
  then have "\<forall>e\<in>set (flattenChannelWindowEvents s). f e = e"
    using flatten_subset [of s] by (auto simp: list_ex_iff)
  with False show ?thesis by (simp add: mapChannelWindowEvents_def map_idI)
qed

theorem flatten_mapChannelWindowEvents_witness:
  "let e = \<lparr>ev_id = ''a'', ev_localKey = None, ev_pubkey = ''p'', ev_created_at = 3, ev_kind = 9,
             ev_tags = [], ev_content = ''old'', ev_sig = [], ev_pending = None\<rparr>;
       s = emptyChannelWindowStore\<lparr>cw_liveOverlay := [e]\<rparr>;
       f = (\<lambda>x. x\<lparr>ev_content := ''new''\<rparr>)
   in flattenChannelWindowEvents (mapChannelWindowEvents s f) = [e\<lparr>ev_content := ''new''\<rparr>]"
proof -
  have f: "ev_id (e\<lparr>ev_content := ''new''\<rparr>) = ev_id e"
    "ev_created_at (e\<lparr>ev_content := ''new''\<rparr>) = ev_created_at e" for e :: relay_event
    by simp_all
  show ?thesis
    unfolding Let_def
    by (subst flatten_mapChannelWindowEvents [where f = "\<lambda>x. x\<lparr>ev_content := ''new''\<rparr>", OF f])
      (simp add: flattenChannelWindowEvents_def windowEvents_def emptyChannelWindowStore_def jmap_of_def)
qed

subsection \<open>Live merging\<close>

lemma live_pages [simp]:
  "cw_pages (mergeLiveChannelWindowEvent s e b) = cw_pages s"
  by (simp add: mergeLiveChannelWindowEvent_def)

lemma live_hasMore [simp]:
  "channelWindowHasMore (mergeLiveChannelWindowEvent s e b) = channelWindowHasMore s"
  by (simp add: channelWindowHasMore_def)

lemma live_delivered [simp]:
  "deliveredByPage (mergeLiveChannelWindowEvent s e b) x = deliveredByPage s x"
  "belowOldest (mergeLiveChannelWindowEvent s e b) x = belowOldest s x"
  by (simp_all add: deliveredByPage_def belowOldest_def oldestRow_def split: option.splits)

lemma live_overlay_idem:
  fixes e :: relay_event
  assumes "sorted (map relayPos xs)"
  defines "keep \<equiv> filter (\<lambda>c. ev_id c \<noteq> ev_id e \<and> renderKey c \<noteq> renderKey e)"
  shows "keep (js_sort compareRelayOrder (keep xs @ [e])) = keep xs"
proof -
  have "keep (js_sort compareRelayOrder (keep xs @ [e])) = sort_key relayPos (keep (keep xs @ [e]))"
    by (simp add: relay.js_sort_eq keep_def filter_sort)
  also have "\<dots> = keep xs"
    using assms(1) by (simp add: keep_def sorted_filter sort_key_id_if_sorted)
  finally show ?thesis .
qed

text \<open>
  Merging a live event twice is merging it once, in every reachable window: replays of the
  live subscription change nothing.
\<close>

lemma mergeLive_idempotent:
  assumes "window_reachable s"
  shows "mergeLiveChannelWindowEvent (mergeLiveChannelWindowEvent s e b) e b =
         mergeLiveChannelWindowEvent s e b"
proof (cases "b \<and> \<not> deliveredByPage s e \<and> \<not> belowOldest s e")
  case True
  have "sorted (map relayPos (cw_liveOverlay s))"
    using window_reachable_wf [OF assms] by (simp add: window_wf_def)
  from live_overlay_idem [OF this, of e] True show ?thesis
    by (simp add: mergeLiveChannelWindowEvent_def [of "mergeLiveChannelWindowEvent s e b"])
      (simp add: mergeLiveChannelWindowEvent_def)
next
  case False
  then show ?thesis
    by (auto simp: mergeLiveChannelWindowEvent_def list_ex_iff)
qed

text \<open>
  A live row is never lost: unless it lies below the window's oldest row (where ordinary
  paging will fetch it), after the merge the window holds a row with its id or its render key,
  and every other row the window held before, but for those it replaces, is still there.
\<close>

theorem mergeLive_complete:
  assumes "\<not> belowOldest s e"
  shows "(\<exists>x\<in>set (windowEvents (mergeLiveChannelWindowEvent s e True)).
            ev_id x = ev_id e \<or> renderKey x = renderKey e) \<and>
         (\<forall>x\<in>set (windowEvents s). ev_id x \<noteq> ev_id e \<and> renderKey x \<noteq> renderKey e \<longrightarrow>
            x \<in> set (windowEvents (mergeLiveChannelWindowEvent s e True)))"
proof (cases "deliveredByPage s e")
  case True
  then show ?thesis
    using assms
    by (force simp: mergeLiveChannelWindowEvent_def deliveredByPage_def windowEvents_def list_ex_iff)
next
  case False
  with assms show ?thesis
    by (auto simp: mergeLiveChannelWindowEvent_def windowEvents_def)
qed

theorem mergeLive_complete_witness:
  "let e = \<lparr>ev_id = ''a'', ev_localKey = None, ev_pubkey = ''p'', ev_created_at = 3, ev_kind = 9,
             ev_tags = [], ev_content = [], ev_sig = [], ev_pending = None\<rparr>
   in \<not> belowOldest emptyChannelWindowStore e \<and>
      (\<exists>x\<in>set (windowEvents (mergeLiveChannelWindowEvent emptyChannelWindowStore e True)).
         ev_id x = ''a'' \<or> renderKey x = renderKey e)"
proof -
  have below: "\<not> belowOldest emptyChannelWindowStore e" for e
    by (simp add: belowOldest_def oldestRow_def emptyChannelWindowStore_def)
  show ?thesis
    using below mergeLive_complete [OF below, of "\<lparr>ev_id = ''a'', ev_localKey = None,
      ev_pubkey = ''p'', ev_created_at = 3, ev_kind = 9, ev_tags = [], ev_content = [],
      ev_sig = [], ev_pending = None\<rparr>"]
    by simp
qed


subsection \<open>Thread summaries\<close>

definition pushSummaries :: "window_store \<Rightarrow> (string \<times> live_summary) list \<Rightarrow> window_store" where
  "pushSummaries s pushes = fold (\<lambda>(rootId, live) s. mergeLiveThreadSummary s rootId live) pushes s"

definition newest_summary :: "live_summary option \<Rightarrow> live_summary \<Rightarrow> live_summary option" where
  "newest_summary old l =
     (case old of None \<Rightarrow> Some l | Some x \<Rightarrow> if ls_createdAt x \<ge> ls_createdAt l then Some x else Some l)"

lemma jget_mergeLiveThreadSummary:
  "jget (cw_liveSummaries (mergeLiveThreadSummary s r l)) k =
     (if k = r then newest_summary (jget (cw_liveSummaries s) r) l
      else jget (cw_liveSummaries s) k)"
  by (auto simp: mergeLiveThreadSummary_def newest_summary_def split: option.splits)

lemma jget_pushSummaries:
  "jget (cw_liveSummaries (pushSummaries s pushes)) k =
     fold (\<lambda>(r, l) acc. if r = k then newest_summary acc l else acc) pushes
       (jget (cw_liveSummaries s) k)"
  by (induction pushes arbitrary: s)
    (auto simp: pushSummaries_def jget_mergeLiveThreadSummary)

lemma newest_summary_fold:
  "case fold (\<lambda>(r, l) acc. if r = k then newest_summary acc l else acc) pushes acc of
     None \<Rightarrow> acc = None \<and> k \<notin> fst ` set pushes
   | Some l \<Rightarrow> (acc = Some l \<or> (k, l) \<in> set pushes) \<and>
       (\<forall>l'. acc = Some l' \<or> (k, l') \<in> set pushes \<longrightarrow> ls_createdAt l' \<le> ls_createdAt l)"
proof (induction pushes arbitrary: acc)
  case (Cons p pushes)
  obtain r l where p: "p = (r, l)" by (cases p)
  show ?case
  proof (cases "r = k")
    case True
    with Cons.IH [of "newest_summary acc l"] show ?thesis
      by (fastforce simp: p newest_summary_def split: option.splits if_splits)
  next
    case False
    with Cons.IH [of acc] show ?thesis by (auto simp: p split: option.splits)
  qed
qed (auto split: option.splits)

text \<open>
  Whatever the order in which live thread summaries arrive, the store holds for a root a
  summary with the greatest \<open>created_at\<close> among those pushed for it and the one held before,
  and holds one as soon as one was pushed.
\<close>

lemma liveSummary_newest_wins:
  "case jget (cw_liveSummaries (pushSummaries s pushes)) k of
     None \<Rightarrow> jget (cw_liveSummaries s) k = None \<and> k \<notin> fst ` set pushes
   | Some l \<Rightarrow> (jget (cw_liveSummaries s) k = Some l \<or> (k, l) \<in> set pushes) \<and>
       {l'. jget (cw_liveSummaries s) k = Some l' \<or> (k, l') \<in> set pushes}
         \<subseteq> {l'. ls_createdAt l' \<le> ls_createdAt l}"
  using newest_summary_fold [where k = k and pushes = pushes and acc = "jget (cw_liveSummaries s) k"]
  by (auto simp: jget_pushSummaries split: option.splits)

lemma jget_live_overlay:
  "jget (fold (\<lambda>(rootId, live) m. jset m rootId (ls_summary live)) lives m) k =
     (case map_of (rev lives) k of None \<Rightarrow> jget m k | Some live \<Rightarrow> Some (ls_summary live))"
  by (induction lives arbitrary: m) (auto simp: map_add_def split: option.splits)

lemma channelWindowThreadSummaries_live:
  assumes "jwf (cw_liveSummaries s)" and "jget (cw_liveSummaries s) k = Some live"
  shows "jget (channelWindowThreadSummaries s) k = Some (ls_summary live)"
proof -
  have "map_of (rev (cw_liveSummaries s)) = map_of (cw_liveSummaries s)"
    using assms(1) by (rule jget_rev)
  with assms(2) show ?thesis
    by (simp add: channelWindowThreadSummaries_def jget_live_overlay)
qed

text \<open>
  The badge of a thread shows the newest pushed summary: in a reachable window, after a
  summary newer than the one held is pushed for a root, that root's rendered summary is the
  pushed one, whatever the pages say.
\<close>

theorem threadSummary_shows_newest_push:
  assumes "window_reachable s"
    and "\<And>old. jget (cw_liveSummaries s) k = Some old \<Longrightarrow> ls_createdAt old < ls_createdAt live"
  shows "jget (channelWindowThreadSummaries (mergeLiveThreadSummary s k live)) k =
         Some (ls_summary live)"
proof (rule channelWindowThreadSummaries_live)
  show "jwf (cw_liveSummaries (mergeLiveThreadSummary s k live))"
    using window_wf_summary [OF window_reachable_wf [OF assms(1)], of k live]
    by (simp add: window_wf_def)
  show "jget (cw_liveSummaries (mergeLiveThreadSummary s k live)) k = Some live"
    using assms(2)
    by (cases "jget (cw_liveSummaries s) k")
      (auto simp: jget_mergeLiveThreadSummary newest_summary_def not_le)
qed

theorem threadSummary_shows_newest_push_witness:
  "let live = \<lparr>ls_summary = \<lparr>ts_replyCount = 2, ts_descendantCount = 3, ts_lastReplyAt = Some 7,
                 ts_participantPubkeys = [''p'']\<rparr>, ls_createdAt = 9\<rparr>
   in jget (channelWindowThreadSummaries
        (mergeLiveThreadSummary emptyChannelWindowStore ''r'' live)) ''r'' = Some (ls_summary live)"
  unfolding Let_def
  by (rule threadSummary_shows_newest_push [OF window_reachable.start])
    (simp add: emptyChannelWindowStore_def)

subsection \<open>Paging\<close>

lemma last_page_valid:
  assumes "window_wf s" and "jslast (cw_pages s) = Some tail"
  shows "pg_hasMore tail \<longleftrightarrow> pg_nextCursor tail \<noteq> None"
  by (rule valid_pageD(1)) (use assms jslast_in_set [OF assms(2)] in \<open>simp add: window_wf_def\<close>)

lemma appendable:
  assumes "window_wf s" and "jslast (cw_pages s) = Some tail" and "pg_hasMore tail"
  shows "\<exists>page s'. appendOlderChannelWindow s page = Inr s'"
proof -
  let ?page = "\<lparr>pg_startCursor = pg_nextCursor tail, pg_rows = [], pg_aux = [],
                pg_nextCursor = None, pg_hasMore = False\<rparr>"
  have "assertValidPage ?page = None" by (simp add: assertValidPage_def)
  moreover have "pageRowIds ?page = []" by (simp add: pageRowIds_def)
  moreover have "pg_nextCursor tail \<noteq> None" using assms last_page_valid by blast
  ultimately have "appendOlderChannelWindow s ?page =
      Inr (s\<lparr>cw_pages := cw_pages s @ [?page],
             cw_liveOverlay := filter (notInPage ?page) (cw_liveOverlay s)\<rparr>)"
    using assms(2,3) by (simp add: appendOlder_Inr)
  then show ?thesis by blast
qed

text \<open>
  \<open>channelWindowHasMore\<close> is the paging signal it claims to be: in a reachable window it is
  true exactly when some page could be appended; and \<open>channelWindowHistoryExhausted\<close> is true
  exactly when something is loaded and no page can ever be appended.
\<close>

theorem hasMore_iff_appendable:
  assumes "window_reachable s"
  shows "(channelWindowHasMore s \<longleftrightarrow> (\<exists>page s'. appendOlderChannelWindow s page = Inr s')) \<and>
         (channelWindowHistoryExhausted s \<longleftrightarrow>
            cw_pages s \<noteq> [] \<and> (\<forall>page s'. appendOlderChannelWindow s page \<noteq> Inr s'))"
proof -
  have wf: "window_wf s" using assms by (rule window_reachable_wf)
  have more: "channelWindowHasMore s \<longleftrightarrow> (\<exists>page s'. appendOlderChannelWindow s page = Inr s')"
  proof
    assume "channelWindowHasMore s"
    then obtain tail where tail: "jslast (cw_pages s) = Some tail" "pg_hasMore tail"
      by (auto simp: channelWindowHasMore_def split: option.splits)
    with appendable [OF wf] show "\<exists>page s'. appendOlderChannelWindow s page = Inr s'" by blast
  next
    assume "\<exists>page s'. appendOlderChannelWindow s page = Inr s'"
    then obtain tail where "jslast (cw_pages s) = Some tail" "pg_hasMore tail"
      unfolding appendOlder_Inr by blast
    then show "channelWindowHasMore s" by (simp add: channelWindowHasMore_def)
  qed
  have "channelWindowHistoryExhausted s \<longleftrightarrow> cw_pages s \<noteq> [] \<and> \<not> channelWindowHasMore s"
    by (auto simp: channelWindowHistoryExhausted_def channelWindowHasMore_def jslast_def)
  then show ?thesis using more by simp
qed

lemma replace_empty_reachable:
  assumes "replaceNewestChannelWindow emptyChannelWindowStore page = Inr s"
  shows "window_reachable s"
  using assms window_reachable.start by (blast intro: window_reachable.step window_step.replace)

theorem hasMore_iff_appendable_witness:
  "let page = \<lparr>pg_startCursor = None, pg_rows = [], pg_aux = [],
               pg_nextCursor = Some \<lparr>cur_createdAt = 5, cur_eventId = ''x'', cur_beforeId = None\<rparr>,
               pg_hasMore = True\<rparr>;
       s = emptyChannelWindowStore\<lparr>cw_pages := [page]\<rparr>
   in channelWindowHasMore s \<and> (\<exists>page s'. appendOlderChannelWindow s page = Inr s')"
proof -
  let ?page = "\<lparr>pg_startCursor = None, pg_rows = [], pg_aux = [],
               pg_nextCursor = Some \<lparr>cur_createdAt = 5, cur_eventId = ''x'', cur_beforeId = None\<rparr>,
               pg_hasMore = True\<rparr>"
  have "window_reachable (emptyChannelWindowStore\<lparr>cw_pages := [?page]\<rparr>)"
    by (rule replace_empty_reachable [of ?page])
      (simp add: replaceNewestChannelWindow_def assertValidPage_def emptyChannelWindowStore_def)
  from hasMore_iff_appendable [OF this] show ?thesis
    by (simp add: channelWindowHasMore_def jslast_def)
qed

theorem window_reachable_invariant_witness:
  "window_wf emptyChannelWindowStore \<and>
   window_wf (mergeLiveThreadSummary emptyChannelWindowStore ''r''
     \<lparr>ls_summary = \<lparr>ts_replyCount = 1, ts_descendantCount = 1, ts_lastReplyAt = None,
        ts_participantPubkeys = []\<rparr>, ls_createdAt = 4\<rparr>)"
  by (intro conjI window_reachable_invariant window_reachable.start
      window_reachable.step [OF window_reachable.start window_step.summary])

subsection \<open>Responses\<close>

lemma setLastThread_events: "map row_event (setLastThread r t rows) = map row_event rows"
  by (induction rows) simp_all

lemma attachSummaries_events:
  "attachSummaries js events rows = Inr rows' \<Longrightarrow> map row_event rows' = map row_event rows"
  by (induction js events rows arbitrary: rows' rule: attachSummaries.induct)
    (auto simp: setLastThread_events split: if_splits sum.splits)

text \<open>
  A response that parses gives a page that echoes the requested cursor, has an end cursor
  exactly when it has more, and partitions the response: its rows are the content events, its
  auxiliary events the reactions, edits and deletions, each in response order, and no event is
  both; summaries and bounds are in neither.
\<close>

theorem parseChannelWindowResponse_page:
  assumes "parseChannelWindowResponse js jb events channelId startCursor = Inr page"
  shows "pg_startCursor page = startCursor \<and>
    (pg_hasMore page \<longleftrightarrow> pg_nextCursor page \<noteq> None) \<and>
    map row_event (pg_rows page) =
      filter (\<lambda>e. ev_kind e \<in> set CHANNEL_TIMELINE_CONTENT_KINDS) events \<and>
    pg_aux page = filter (\<lambda>e. ev_kind e \<in> set CHANNEL_AUX_EVENT_KINDS) events \<and>
    set (map row_event (pg_rows page)) \<inter> set (pg_aux page) = {} \<and>
    {KIND_CHANNEL_THREAD_SUMMARY, KIND_CHANNEL_WINDOW_BOUNDS} \<inter>
      ev_kind ` (set (map row_event (pg_rows page)) \<union> set (pg_aux page)) = {}"
proof -
  have page: "pg_startCursor page = startCursor \<and>
      (pg_hasMore page \<longleftrightarrow> pg_nextCursor page \<noteq> None) \<and>
      pg_aux page = filter (\<lambda>e. ev_kind e \<in> set CHANNEL_AUX_EVENT_KINDS) events \<and>
      attachSummaries js events (map (\<lambda>event. \<lparr>row_event = event, row_thread = None\<rparr>)
        (filter (\<lambda>event. ev_kind event \<in> set CHANNEL_TIMELINE_CONTENT_KINDS) events))
        = Inr (pg_rows page)"
    using assms
    by (auto simp: parseChannelWindowResponse_def split: sum.splits list.splits if_splits)
  then have rows: "map row_event (pg_rows page) =
      filter (\<lambda>e. ev_kind e \<in> set CHANNEL_TIMELINE_CONTENT_KINDS) events"
    by (auto dest: attachSummaries_events simp: comp_def)
  have "set CHANNEL_TIMELINE_CONTENT_KINDS \<inter> set CHANNEL_AUX_EVENT_KINDS = {}"
    and "KIND_CHANNEL_THREAD_SUMMARY \<notin> set CHANNEL_TIMELINE_CONTENT_KINDS \<union> set CHANNEL_AUX_EVENT_KINDS"
    and "KIND_CHANNEL_WINDOW_BOUNDS \<notin> set CHANNEL_TIMELINE_CONTENT_KINDS \<union> set CHANNEL_AUX_EVENT_KINDS"
    by (simp_all add: CHANNEL_TIMELINE_CONTENT_KINDS_def CHANNEL_AUX_EVENT_KINDS_def
        KIND_CHANNEL_THREAD_SUMMARY_def KIND_CHANNEL_WINDOW_BOUNDS_def)
  with page rows show ?thesis by (auto simp del: set_map)
qed

theorem parseChannelWindowResponse_page_witness:
  "let mk = (\<lambda>i k tags. \<lparr>ev_id = i, ev_localKey = None, ev_pubkey = ''p'', ev_created_at = 3,
              ev_kind = k, ev_tags = tags, ev_content = [], ev_sig = [], ev_pending = None\<rparr>);
       events = [mk ''a'' 9 [], mk ''r'' 7 [[''e'', ''a'']], mk ''b'' 39006 [[''d'', ''7:head'']]];
       jb = (\<lambda>_. JsonValue \<lparr>bp_has_more = False, bp_next_cursor = None\<rparr>)
   in case parseChannelWindowResponse (\<lambda>_. JsonError) jb events ''7'' None of
        Inl _ \<Rightarrow> False
      | Inr page \<Rightarrow> map row_event (pg_rows page) = [mk ''a'' 9 []] \<and> \<not> pg_hasMore page"
proof -
  let ?mk = "\<lambda>i k tags. \<lparr>ev_id = i, ev_localKey = None, ev_pubkey = ''p'', ev_created_at = 3,
              ev_kind = k, ev_tags = tags, ev_content = [], ev_sig = [], ev_pending = None\<rparr>"
  let ?events = "[?mk ''a'' 9 [], ?mk ''r'' 7 [[''e'', ''a'']], ?mk ''b'' 39006 [[''d'', ''7:head'']]]"
  let ?jb = "\<lambda>_. JsonValue \<lparr>bp_has_more = False, bp_next_cursor = None\<rparr>"
  note defs = parseChannelWindowResponse_def CHANNEL_TIMELINE_CONTENT_KINDS_def
    KIND_CHANNEL_THREAD_SUMMARY_def KIND_CHANNEL_WINDOW_BOUNDS_def targetId_def expectedBoundsKey_def
    toLowerCase_def js_lower_char_def parseJson_def mapCursor_def CHANNEL_AUX_EVENT_KINDS_def
  obtain page where page: "parseChannelWindowResponse (\<lambda>_. JsonError) ?jb ?events ''7'' None = Inr page"
    by (simp add: defs)
  from parseChannelWindowResponse_page [OF page] page show ?thesis
    by (auto simp: defs)
qed


end
