(* ===== verification/ThreadPanel.thy ===== *)
theory ThreadPanel
  imports ChannelWindow "HOL-Library.Monad_Syntax"
begin

text \<open>
  Threads as the panel and the main timeline show them (\<open>features/messages/lib/threadPanel.ts\<close>):
  the index of a channel's messages (children by parent, statistics of the descendants, messages by
  id), the rows of an open thread with their collapsed summaries, and the entries of the main
  timeline.

  The statistics objects that the source mutates in place are the values of a map from message id;
  a mutation is an update of the map. \<open>normalizeInlineReplyMessage\<close> caches the copies it makes by
  object identity; the copies are equal to fresh ones, so the cache is not part of the model. The
  recursion of \<open>appendExpandedReplies\<close> has no bound in the source; it is a partial function whose
  value \<open>None\<close> is a recursion that does not end.
\<close>

subsection \<open>Data\<close>

record reaction_user =
  ru_pubkey :: string
  ru_displayName :: string
  ru_avatarUrl :: "string option"

record timeline_reaction =
  re_emoji :: string
  re_emojiUrl :: "string option"
  re_count :: int
  re_reactedByCurrentUser :: "bool option"
  re_users :: "reaction_user list"

record timeline_message =
  tm_id :: string
  tm_renderKey :: "string option"
  tm_createdAt :: int
  tm_pubkey :: "string option"
  tm_signerPubkey :: "string option"
  tm_author :: string
  tm_isAgent :: "bool option"
  tm_ownerPubkey :: "string option"
  tm_ownerLabel :: "string option"
  tm_avatarUrl :: "string option"
  tm_role :: "string option"
  tm_personaDisplayName :: "string option"
  tm_respondTo :: "string option"
  tm_time :: string
  tm_body :: string
  tm_parentId :: "string option"
  tm_rootId :: "string option"
  tm_depth :: int
  tm_accent :: "bool option"
  tm_pending :: "bool option"
  tm_edited :: "bool option"
  tm_highlighted :: "bool option"
  tm_kind :: "int option"
  tm_tags :: "string list list option"
  tm_reactions :: "timeline_reaction list option"

record thread_participant =
  pa_id :: string
  pa_author :: string
  pa_avatarUrl :: "string option"

record timeline_thread_summary =
  tt_threadHeadId :: string
  tt_replyCount :: int
  tt_lastReplyAt :: "int option"
  tt_participants :: "thread_participant list"

record timeline_entry =
  en_message :: timeline_message
  en_summary :: "timeline_thread_summary option"

record descendant_stats =
  ds_descendantCount :: int
  ds_unreadDescendantCount :: int
  ds_lastReplyAt :: "int option"
  ds_recentParticipantsNewestFirst :: "thread_participant list"

record thread_panel_index =
  ti_directChildrenByParentId :: "(string, timeline_message list) jsmap"
  ti_descendantStatsByMessageId :: "(string, descendant_stats) jsmap"
  ti_messageById :: "(string, timeline_message) jsmap"

record thread_panel_data =
  pd_threadHead :: "timeline_message option"
  pd_totalReplyCount :: int
  pd_visibleReplies :: "timeline_entry list"
  pd_replyTargetMessage :: "timeline_message option"

record profile_summary =
  pr_displayName :: "string option"
  pr_name :: "string option"
  pr_avatarUrl :: "string option"
  pr_nip05Handle :: "string option"
  pr_ownerPubkey :: "string option"
  pr_isAgent :: "bool option"

definition MAX_SUMMARY_PARTICIPANTS :: nat where "MAX_SUMMARY_PARTICIPANTS = 3"

subsection \<open>The index\<close>

definition normalizeHeadMessage :: "timeline_message \<Rightarrow> timeline_message" where
  "normalizeHeadMessage message = message\<lparr>tm_depth := 0\<rparr>"

definition normalizeInlineReplyMessage :: "timeline_message \<Rightarrow> int \<Rightarrow> timeline_message" where
  "normalizeInlineReplyMessage message depth = message\<lparr>tm_depth := depth\<rparr>"

definition addChild ::
  "timeline_message \<Rightarrow> (string, timeline_message list) jsmap \<Rightarrow> (string, timeline_message list) jsmap" where
  "addChild message childrenByParentId =
     (if \<not> truthy (tm_parentId message) then childrenByParentId
      else
        let parent = the (tm_parentId message) in
        jset childrenByParentId parent (jget_or childrenByParentId parent [] @ [message]))"

definition buildDirectChildrenByParentId ::
  "timeline_message list \<Rightarrow> (string, timeline_message list) jsmap" where
  "buildDirectChildrenByParentId messages = fold addChild messages []"

definition emptyStats :: descendant_stats where
  "emptyStats = \<lparr>ds_descendantCount = 0, ds_unreadDescendantCount = 0, ds_lastReplyAt = None,
     ds_recentParticipantsNewestFirst = []\<rparr>"

definition participantFromMessage :: "timeline_message \<Rightarrow> thread_participant" where
  "participantFromMessage message =
     \<lparr>pa_id = (case tm_pubkey message of Some p \<Rightarrow> p | None \<Rightarrow> tm_id message),
      pa_author = tm_author message, pa_avatarUrl = tm_avatarUrl message\<rparr>"

definition addParticipant :: "thread_participant \<Rightarrow> thread_participant list \<Rightarrow> thread_participant list" where
  "addParticipant participant recent =
     (if length recent < MAX_SUMMARY_PARTICIPANTS \<and> \<not> list_ex (\<lambda>existing. pa_id existing = pa_id participant) recent
      then recent @ [participant] else recent)"

definition creditAncestor :: "timeline_message \<Rightarrow> bool \<Rightarrow> descendant_stats \<Rightarrow> descendant_stats" where
  "creditAncestor message isUnread stats =
     \<lparr>ds_descendantCount = ds_descendantCount stats + 1,
      ds_unreadDescendantCount = ds_unreadDescendantCount stats + (if isUnread then 1 else 0),
      ds_lastReplyAt = Some (max (case ds_lastReplyAt stats of Some t \<Rightarrow> t | None \<Rightarrow> 0) (tm_createdAt message)),
      ds_recentParticipantsNewestFirst =
        addParticipant (participantFromMessage message) (ds_recentParticipantsNewestFirst stats)\<rparr>"

text \<open>The walk up the parents; the last number is \<open>maxHops - hops\<close>.\<close>

fun creditAncestors ::
  "(string, timeline_message) jsmap \<Rightarrow> timeline_message \<Rightarrow> bool \<Rightarrow> string option \<Rightarrow> nat
   \<Rightarrow> (string, descendant_stats) jsmap \<Rightarrow> (string, descendant_stats) jsmap" where
  "creditAncestors messageById message isUnread ancestorId 0 stats = stats"
| "creditAncestors messageById message isUnread ancestorId (Suc hops) stats =
     (if \<not> truthy ancestorId then stats
      else
        case jget stats (the ancestorId) of
          None \<Rightarrow> stats
        | Some ancestorStats \<Rightarrow>
            creditAncestors messageById message isUnread
              (Option.bind (jget messageById (the ancestorId)) tm_parentId) hops
              (jset stats (the ancestorId) (creditAncestor message isUnread ancestorStats)))"

definition compareIndexed :: "timeline_message \<times> nat \<Rightarrow> timeline_message \<times> nat \<Rightarrow> int" where
  "compareIndexed left right =
     (if tm_createdAt (fst left) \<noteq> tm_createdAt (fst right)
      then tm_createdAt (fst left) - tm_createdAt (fst right)
      else int (snd left) - int (snd right))"

definition orderedMessages :: "timeline_message list \<Rightarrow> timeline_message list" where
  "orderedMessages messages = map fst (js_sort compareIndexed (zip messages [0..<length messages]))"

definition buildDescendantStatsByMessageId ::
  "timeline_message list \<Rightarrow> string list \<Rightarrow> (string, timeline_message) jsmap \<Rightarrow> (string, descendant_stats) jsmap" where
  "buildDescendantStatsByMessageId messages unreadReplyIds messageById =
     fold (\<lambda>message stats.
         creditAncestors messageById message (tm_id message \<in> set unreadReplyIds) (tm_parentId message)
           (length messages + 1) stats)
       (rev (orderedMessages messages))
       (jmap_of (map (\<lambda>message. (tm_id message, emptyStats)) messages))"

definition buildThreadPanelIndex :: "timeline_message list \<Rightarrow> string list \<Rightarrow> thread_panel_index" where
  "buildThreadPanelIndex messages unreadReplyIds =
     (let messageById = jmap_of (map (\<lambda>message. (tm_id message, message)) messages) in
      \<lparr>ti_directChildrenByParentId = buildDirectChildrenByParentId messages,
       ti_descendantStatsByMessageId = buildDescendantStatsByMessageId messages unreadReplyIds messageById,
       ti_messageById = messageById\<rparr>)"

subsection \<open>Summaries\<close>

definition buildSummaryForDirectReplies ::
  "string \<Rightarrow> (string, descendant_stats) jsmap \<Rightarrow> timeline_thread_summary option" where
  "buildSummaryForDirectReplies messageId descendantStatsByMessageId =
     (case jget descendantStatsByMessageId messageId of
        None \<Rightarrow> None
      | Some stats \<Rightarrow>
          if ds_descendantCount stats = 0 then None
          else Some \<lparr>tt_threadHeadId = messageId, tt_replyCount = ds_descendantCount stats,
                 tt_lastReplyAt = ds_lastReplyAt stats,
                 tt_participants = rev (ds_recentParticipantsNewestFirst stats)\<rparr>)"

text \<open>
  The accumulators of the loop over the entries: the count, the latest reply and the participant
  candidates with their timestamps; a candidate's index is its position.
\<close>

definition addEntry ::
  "timeline_entry \<Rightarrow> int \<times> int option \<times> (thread_participant \<times> int) list
   \<Rightarrow> int \<times> int option \<times> (thread_participant \<times> int) list" where
  "addEntry entry acc =
     (case acc of (replyCount, lastReplyAt, candidates) \<Rightarrow>
        let createdAt = tm_createdAt (en_message entry);
            last1 = max (case lastReplyAt of Some t \<Rightarrow> t | None \<Rightarrow> 0) createdAt;
            candidates1 = candidates @ [(participantFromMessage (en_message entry), createdAt)]
        in case en_summary entry of
             None \<Rightarrow> (replyCount + 1, Some last1, candidates1)
           | Some summary \<Rightarrow>
               (replyCount + 1 + tt_replyCount summary,
                Some (case tt_lastReplyAt summary of None \<Rightarrow> last1 | Some t \<Rightarrow> max last1 t),
                candidates1 @ map (\<lambda>participant.
                    (participant, case tt_lastReplyAt summary of None \<Rightarrow> createdAt | Some t \<Rightarrow> t))
                  (tt_participants summary)))"

definition compareCandidates ::
  "(thread_participant \<times> int) \<times> nat \<Rightarrow> (thread_participant \<times> int) \<times> nat \<Rightarrow> int" where
  "compareCandidates left right =
     (if snd (fst left) \<noteq> snd (fst right) then snd (fst right) - snd (fst left)
      else int (snd right) - int (snd left))"

fun pickParticipants :: "thread_participant list \<Rightarrow> thread_participant list \<Rightarrow> thread_participant list" where
  "pickParticipants recent [] = recent"
| "pickParticipants recent (candidate # candidates) =
     (if list_ex (\<lambda>participant. pa_id participant = pa_id candidate) recent
      then pickParticipants recent candidates
      else
        let recent1 = recent @ [candidate] in
        if length recent1 \<ge> MAX_SUMMARY_PARTICIPANTS then recent1 else pickParticipants recent1 candidates)"

definition buildThreadSummaryFromVisibleEntries ::
  "string \<Rightarrow> timeline_entry list \<Rightarrow> timeline_thread_summary option" where
  "buildThreadSummaryFromVisibleEntries threadHeadId entries =
     (case fold addEntry entries (0, None, []) of
        (replyCount, lastReplyAt, candidates) \<Rightarrow>
          if replyCount = 0 then None
          else Some \<lparr>tt_threadHeadId = threadHeadId, tt_replyCount = replyCount, tt_lastReplyAt = lastReplyAt,
                 tt_participants = rev (pickParticipants []
                   (map (fst \<circ> fst) (js_sort compareCandidates (zip candidates [0..<length candidates]))))\<rparr>)"

definition hasNestedThreadBranches :: "timeline_entry list \<Rightarrow> bool" where
  "hasNestedThreadBranches entries =
     list_ex (\<lambda>entry. tm_depth (en_message entry) > 1 \<or> en_summary entry \<noteq> None) entries"

subsection \<open>The rows of an open thread\<close>

definition replyEntry ::
  "(string, descendant_stats) jsmap \<Rightarrow> string list \<Rightarrow> timeline_message \<Rightarrow> int \<Rightarrow> timeline_entry" where
  "replyEntry stats expandedReplyIds reply depth =
     \<lparr>en_message = normalizeInlineReplyMessage reply depth,
      en_summary = (if tm_id reply \<in> set expandedReplyIds then None
                    else buildSummaryForDirectReplies (tm_id reply) stats)\<rparr>"

partial_function (option) expandReplies ::
  "(string, timeline_message list) jsmap \<Rightarrow> (string, descendant_stats) jsmap \<Rightarrow> string list
   \<Rightarrow> timeline_message list \<Rightarrow> int \<Rightarrow> timeline_entry list option" where
  "expandReplies children stats expandedReplyIds replies depth =
     (case replies of
        [] \<Rightarrow> Some []
      | reply # rest \<Rightarrow>
          do {
            inner \<leftarrow> (if tm_id reply \<in> set expandedReplyIds
                      then expandReplies children stats expandedReplyIds (jget_or children (tm_id reply) []) (depth + 1)
                      else Some []);
            later \<leftarrow> expandReplies children stats expandedReplyIds rest depth;
            Some (replyEntry stats expandedReplyIds reply depth # inner @ later)
          })"

definition appendExpandedReplies ::
  "timeline_entry list \<Rightarrow> string \<Rightarrow> int \<Rightarrow> (string, timeline_message list) jsmap \<Rightarrow> (string, descendant_stats) jsmap
   \<Rightarrow> string list \<Rightarrow> timeline_entry list option" where
  "appendExpandedReplies entries parentId depth children stats expandedReplyIds =
     map_option ((@) entries) (expandReplies children stats expandedReplyIds (jget_or children parentId []) depth)"

definition buildVisibleThreadReplies ::
  "string \<Rightarrow> (string, timeline_message list) jsmap \<Rightarrow> (string, descendant_stats) jsmap
   \<Rightarrow> string list \<Rightarrow> timeline_entry list option" where
  "buildVisibleThreadReplies openThreadHeadId children stats expandedReplyIds =
     appendExpandedReplies [] openThreadHeadId 1 children stats expandedReplyIds"

subsection \<open>The main timeline\<close>

definition buildRelayThreadSummary ::
  "string \<Rightarrow> thread_summary \<Rightarrow> (string, profile_summary) jsmap option \<Rightarrow> timeline_thread_summary" where
  "buildRelayThreadSummary messageId summary profiles =
     (let profile = (\<lambda>pubkey. Option.bind profiles (\<lambda>p. jget p (toLowerCase pubkey))) in
      \<lparr>tt_threadHeadId = messageId, tt_replyCount = ts_descendantCount summary,
       tt_lastReplyAt = ts_lastReplyAt summary,
       tt_participants =
         map (\<lambda>pubkey.
             \<lparr>pa_id = pubkey,
              pa_author = (case Option.bind (profile pubkey) pr_displayName of Some name \<Rightarrow> name | None \<Rightarrow> pubkey),
              pa_avatarUrl = Option.bind (profile pubkey) pr_avatarUrl\<rparr>)
           (rev (take 3 (ts_participantPubkeys summary)))\<rparr>)"

definition mergeThreadSummaries ::
  "timeline_thread_summary option \<Rightarrow> timeline_thread_summary option \<Rightarrow> timeline_thread_summary option" where
  "mergeThreadSummaries local_summary relay_summary =
     (case (local_summary, relay_summary) of
        (None, relay) \<Rightarrow> relay
      | (Some loc, None) \<Rightarrow> Some loc
      | (Some loc, Some relay) \<Rightarrow>
          (let participants = jvals (jmap_of (map (\<lambda>participant. (pa_id participant, participant))
                 (tt_participants relay @ tt_participants loc)));
               at = (\<lambda>summary. case tt_lastReplyAt summary of Some t \<Rightarrow> t | None \<Rightarrow> 0);
               latest = max (at loc) (at relay)
           in Some \<lparr>tt_threadHeadId = tt_threadHeadId loc,
                tt_replyCount = max (tt_replyCount loc) (tt_replyCount relay),
                tt_lastReplyAt = (if latest = 0 then None else Some latest),
                tt_participants = drop (length participants - 3) participants\<rparr>))"

definition buildMainTimelineEntries ::
  "timeline_message list \<Rightarrow> string list \<Rightarrow> (string, thread_summary) jsmap \<Rightarrow> (string, profile_summary) jsmap option
   \<Rightarrow> timeline_entry list" where
  "buildMainTimelineEntries messages unreadReplyIds relaySummaries profiles =
     (let stats = ti_descendantStatsByMessageId (buildThreadPanelIndex messages unreadReplyIds) in
      map (\<lambda>message.
          \<lparr>en_message = message,
           en_summary =
             (if tm_kind message = Some KIND_HUDDLE_STARTED then None
              else mergeThreadSummaries (buildSummaryForDirectReplies (tm_id message) stats)
                     (map_option (\<lambda>relaySummary. buildRelayThreadSummary (tm_id message) relaySummary profiles)
                       (jget relaySummaries (tm_id message))))\<rparr>)
        (filter (\<lambda>message. tm_parentId message = None \<or>
              isBroadcastReply (case tm_tags message of Some tags \<Rightarrow> tags | None \<Rightarrow> []))
          messages))"

definition shouldRenderUnreadDivider :: "int \<Rightarrow> string \<Rightarrow> string option \<Rightarrow> bool" where
  "shouldRenderUnreadDivider index messageId firstUnreadMessageId \<longleftrightarrow>
     index > 0 \<and> Some messageId = firstUnreadMessageId"

subsection \<open>The panel\<close>

definition noThread :: thread_panel_data where
  "noThread = \<lparr>pd_threadHead = None, pd_totalReplyCount = 0, pd_visibleReplies = [], pd_replyTargetMessage = None\<rparr>"

definition buildThreadPanelDataFromIndex ::
  "thread_panel_index \<Rightarrow> string option \<Rightarrow> string option \<Rightarrow> string list \<Rightarrow> thread_panel_data option" where
  "buildThreadPanelDataFromIndex index openThreadHeadId threadReplyTargetId expandedReplyIds =
     (if \<not> truthy openThreadHeadId then Some noThread
      else
        case jget (ti_messageById index) (the openThreadHeadId) of
          None \<Rightarrow> Some noThread
        | Some threadHead \<Rightarrow>
            do {
              visibleReplies \<leftarrow> buildVisibleThreadReplies (the openThreadHeadId)
                (ti_directChildrenByParentId index) (ti_descendantStatsByMessageId index) expandedReplyIds;
              Some
                (let normalizedThreadHead = normalizeHeadMessage threadHead;
                     replyTargetInBranch =
                       (if threadReplyTargetId = Some (tm_id threadHead) then Some normalizedThreadHead
                        else jget (ti_messageById index) (case threadReplyTargetId of Some t \<Rightarrow> t | None \<Rightarrow> []))
                 in \<lparr>pd_threadHead = Some normalizedThreadHead,
                     pd_totalReplyCount =
                       (case jget (ti_descendantStatsByMessageId index) (the openThreadHeadId) of
                          None \<Rightarrow> 0 | Some stats \<Rightarrow> ds_descendantCount stats),
                     pd_visibleReplies = visibleReplies,
                     pd_replyTargetMessage =
                       (case replyTargetInBranch of Some m \<Rightarrow> Some m | None \<Rightarrow> Some normalizedThreadHead)\<rparr>)
            })"

definition buildThreadPanelData ::
  "timeline_message list \<Rightarrow> string option \<Rightarrow> string option \<Rightarrow> string list \<Rightarrow> thread_panel_data option" where
  "buildThreadPanelData messages openThreadHeadId threadReplyTargetId expandedReplyIds =
     buildThreadPanelDataFromIndex (buildThreadPanelIndex messages []) openThreadHeadId threadReplyTargetId
       expandedReplyIds"

subsection \<open>Ancestors\<close>

text \<open>
  A message descends from \<open>a\<close> when the chain of its parents, as far as they are loaded, reaches \<open>a\<close>.
\<close>

inductive descends :: "timeline_message list \<Rightarrow> timeline_message \<Rightarrow> string \<Rightarrow> bool" for messages where
  child: "tm_parentId m = Some a \<Longrightarrow> a \<noteq> [] \<Longrightarrow> a \<in> tm_id ` set messages \<Longrightarrow> descends messages m a"
| further: "tm_parentId m = Some (tm_id parent) \<Longrightarrow> tm_id parent \<noteq> [] \<Longrightarrow> parent \<in> set messages \<Longrightarrow>
    descends messages parent a \<Longrightarrow> descends messages m a"

definition thread_ok :: "timeline_message list \<Rightarrow> bool" where
  "thread_ok messages \<longleftrightarrow> distinct (map tm_id messages) \<and> (\<forall>m\<in>set messages. \<not> descends messages m (tm_id m))"

abbreviation byId :: "timeline_message list \<Rightarrow> (string, timeline_message) jsmap" where
  "byId messages \<equiv> jmap_of (map (\<lambda>message. (tm_id message, message)) messages)"

fun ancestorIds :: "timeline_message list \<Rightarrow> string option \<Rightarrow> nat \<Rightarrow> string list" where
  "ancestorIds messages a 0 = []"
| "ancestorIds messages a (Suc n) =
     (if truthy a \<and> the a \<in> tm_id ` set messages
      then the a # ancestorIds messages (Option.bind (jget (byId messages) (the a)) tm_parentId) n
      else [])"

lemma jget_byId:
  assumes "distinct (map tm_id messages)" and "m \<in> set messages"
  shows "jget (byId messages) (tm_id m) = Some m"
proof -
  have "byId messages = map (\<lambda>message. (tm_id message, message)) messages"
    by (rule jmap_of_distinct) (simp add: comp_def assms(1))
  with assms show ?thesis by (simp add: comp_def)
qed

lemma ancestorIds_Some:
  assumes "distinct (map tm_id messages)" and "p \<in> set messages" and "tm_id p \<noteq> []"
  shows "ancestorIds messages (Some (tm_id p)) (Suc n) = tm_id p # ancestorIds messages (tm_parentId p) n"
  using assms by (simp add: truthy_def jget_byId)

text \<open>A nonempty chain starts with the loaded parent.\<close>

lemma ancestorIds_cases:
  assumes "distinct (map tm_id messages)"
  obtains "ancestorIds messages a (Suc n) = []" "\<not> (truthy a \<and> the a \<in> tm_id ` set messages)"
  | p where "p \<in> set messages" "tm_id p \<noteq> []" "a = Some (tm_id p)"
      "ancestorIds messages a (Suc n) = tm_id p # ancestorIds messages (tm_parentId p) n"
proof (cases "truthy a \<and> the a \<in> tm_id ` set messages")
  case True
  then obtain p where "p \<in> set messages" "a = Some (tm_id p)" "tm_id p \<noteq> []"
    by (auto simp: truthy_def split: option.splits)
  with that(2) ancestorIds_Some [OF assms] show ?thesis by metis
next
  case False
  with that(1) show ?thesis by (simp del: ex_simps)
qed

lemma ancestorIds_sound:
  assumes "distinct (map tm_id messages)" and "x \<in> set (ancestorIds messages (tm_parentId m) n)"
  shows "descends messages m x"
  using assms(2)
proof (induction n arbitrary: m)
  case (Suc n)
  show ?case
  proof (cases rule: ancestorIds_cases [OF assms(1), where a = "tm_parentId m" and n = n])
    case 1
    with Suc.prems show ?thesis by (simp only: list.set empty_iff)
  next
    case (2 p)
    then have "x = tm_id p \<or> descends messages p x" using Suc by (metis set_ConsD)
    with 2 show ?thesis using child [of m "tm_id p"] further [of m p] by auto
  qed
qed simp

lemma ancestorIds_complete:
  assumes "distinct (map tm_id messages)" and "length (ancestorIds messages (tm_parentId m) n) < n"
    and "descends messages m x"
  shows "x \<in> set (ancestorIds messages (tm_parentId m) n)"
  using assms(2,3)
proof (induction n arbitrary: m)
  case (Suc n)
  show ?case
  proof (cases rule: ancestorIds_cases [OF assms(1), where a = "tm_parentId m" and n = n])
    case 1
    with Suc.prems(2) show ?thesis by (auto simp: truthy_def elim: descends.cases)
  next
    case (2 p)
    have "x = tm_id p \<or> descends messages p x"
      using Suc.prems(2)
    proof cases
      case child
      then show ?thesis using 2(3) by simp
    next
      case (further parent)
      then have "parent = p" using 2(1,3) assms(1) by (auto simp: distinct_map dest: inj_onD)
      with further show ?thesis by simp
    qed
    moreover have "x \<in> set (ancestorIds messages (tm_parentId p) n)" if "descends messages p x"
      using Suc.IH [of p] Suc.prems(1) that unfolding 2(4) by simp
    ultimately show ?thesis unfolding 2(4) by auto
  qed
qed simp

lemma ancestorIds_distinct:
  assumes "thread_ok messages"
  shows "distinct (ancestorIds messages a n) \<and> set (ancestorIds messages a n) \<subseteq> tm_id ` set messages"
proof (induction n arbitrary: a)
  case (Suc n)
  have d: "distinct (map tm_id messages)" using assms by (simp add: thread_ok_def)
  show ?case
  proof (cases rule: ancestorIds_cases [OF d, where a = a and n = n])
    case (2 p)
    then have "tm_id p \<notin> set (ancestorIds messages (tm_parentId p) n)"
      using ancestorIds_sound [OF d] assms by (auto simp: thread_ok_def)
    then show ?thesis unfolding 2(4) using Suc.IH 2(1) by simp
  qed (simp only: distinct.simps list.set empty_subsetI)
qed simp

lemma ancestorIds_length:
  assumes "thread_ok messages"
  shows "length (ancestorIds messages a n) \<le> length messages"
proof -
  have "length (ancestorIds messages a n) = card (set (ancestorIds messages a n))"
    using ancestorIds_distinct [OF assms] by (simp add: distinct_card)
  also have "\<dots> \<le> card (tm_id ` set messages)" using ancestorIds_distinct [OF assms] by (simp add: card_mono)
  also have "\<dots> \<le> length messages" using card_image_le [of "set messages" tm_id] card_length [of messages] by simp
  finally show ?thesis .
qed

text \<open>The bound of the walk is never reached in a thread without cycles.\<close>

lemma ancestorIds_iff:
  assumes "thread_ok messages"
  shows "set (ancestorIds messages (tm_parentId m) (length messages + 1)) = {x. descends messages m x}"
proof -
  have d: "distinct (map tm_id messages)" using assms by (simp add: thread_ok_def)
  have "length (ancestorIds messages (tm_parentId m) (length messages + 1)) < length messages + 1"
    using ancestorIds_length [OF assms, of "tm_parentId m" "length messages + 1"] by simp
  then show ?thesis using ancestorIds_sound [OF d] ancestorIds_complete [OF d] by blast
qed

subsection \<open>Statistics of the descendants\<close>

lemma creditAncestors_get:
  assumes "\<And>x. jget stats x \<noteq> None \<longleftrightarrow> x \<in> tm_id ` set messages"
    and "distinct (ancestorIds messages a n)"
  shows "jget (creditAncestors (byId messages) m u a n stats) x =
    (if x \<in> set (ancestorIds messages a n) then map_option (creditAncestor m u) (jget stats x) else jget stats x)"
  using assms
proof (induction n arbitrary: a stats)
  case (Suc n)
  show ?case
  proof (cases "truthy a \<and> the a \<in> tm_id ` set messages")
    case True
    then obtain st where st: "jget stats (the a) = Some st" using Suc.prems(1) [of "the a"] by auto
    let ?next = "Option.bind (jget (byId messages) (the a)) tm_parentId"
    let ?stats = "jset stats (the a) (creditAncestor m u st)"
    have chain: "ancestorIds messages a (Suc n) = the a # ancestorIds messages ?next n" using True by simp
    then have d: "distinct (ancestorIds messages ?next n)" "the a \<notin> set (ancestorIds messages ?next n)"
      using Suc.prems(2) unfolding chain by simp_all
    have "jget ?stats x \<noteq> None \<longleftrightarrow> x \<in> tm_id ` set messages" for x
      using Suc.prems(1) [of x] st True by (auto split: if_splits)
    note ih = Suc.IH [OF this d(1)]
    have "creditAncestors (byId messages) m u a (Suc n) stats = creditAncestors (byId messages) m u ?next n ?stats"
      using True st by simp
    then show ?thesis unfolding chain using ih d(2) st by auto
  next
    case False
    then have "creditAncestors (byId messages) m u a (Suc n) stats = stats"
      using Suc.prems(1) [of "the a"] by (auto split: option.splits)
    moreover have "ancestorIds messages a (Suc n) = []" using False by (simp only: ancestorIds.simps if_False)
    ultimately show ?thesis by simp
  qed
qed simp

definition statsOf :: "timeline_message list \<Rightarrow> string list \<Rightarrow> string \<Rightarrow> descendant_stats" where
  "statsOf messages unread x =
     fold (\<lambda>m. creditAncestor m (tm_id m \<in> set unread))
       (filter (\<lambda>m. descends messages m x) (rev (orderedMessages messages))) emptyStats"

lemma stats_fold:
  assumes "thread_ok messages" and "\<And>x. jget stats x \<noteq> None \<longleftrightarrow> x \<in> tm_id ` set messages"
  shows "jget (fold (\<lambda>m stats. creditAncestors (byId messages) m (tm_id m \<in> set unread) (tm_parentId m)
        (length messages + 1) stats) ms stats) x =
    map_option (fold (\<lambda>m. creditAncestor m (tm_id m \<in> set unread)) (filter (\<lambda>m. descends messages m x) ms)) (jget stats x)"
  using assms(2)
proof (induction ms arbitrary: stats)
  case Nil
  then show ?case by (simp add: option.map_id [unfolded id_def])
next
  case (Cons m ms)
  let ?step = "creditAncestors (byId messages) m (tm_id m \<in> set unread) (tm_parentId m) (length messages + 1) stats"
  have get: "jget ?step x = (if descends messages m x then map_option (creditAncestor m (tm_id m \<in> set unread)) (jget stats x)
      else jget stats x)" for x
    using creditAncestors_get [OF Cons.prems ancestorIds_distinct [OF assms(1), THEN conjunct1]]
      ancestorIds_iff [OF assms(1), of m] by (simp only: mem_Collect_eq)
  have "jget ?step x \<noteq> None \<longleftrightarrow> x \<in> tm_id ` set messages" for x
    unfolding get using Cons.prems [of x] by auto
  note ih = Cons.IH [OF this]
  show ?case
    unfolding fold_simps ih get by (cases "jget stats x") (simp_all del: ancestorIds.simps)
qed

lemma stats_of:
  assumes "thread_ok messages"
  shows "jget (buildDescendantStatsByMessageId messages unread (byId messages)) x =
    (if x \<in> tm_id ` set messages then Some (statsOf messages unread x) else None)"
proof -
  let ?start = "jmap_of (map (\<lambda>m. (tm_id m, emptyStats)) messages)"
  have start: "jget ?start x = (if x \<in> tm_id ` set messages then Some emptyStats else None)" for x
  proof -
    have "?start = map (\<lambda>m. (tm_id m, emptyStats)) messages"
      using assms by (intro jmap_of_distinct) (simp add: thread_ok_def comp_def)
    moreover have "map_of (map (\<lambda>m. (tm_id m, emptyStats)) ms) x = (if x \<in> tm_id ` set ms then Some emptyStats else None)" for ms
      by (induction ms) auto
    ultimately show ?thesis by (simp only:)
  qed
  have "jget ?start x \<noteq> None \<longleftrightarrow> x \<in> tm_id ` set messages" for x unfolding start by simp
  then have "jget (buildDescendantStatsByMessageId messages unread (byId messages)) x =
      map_option (fold (\<lambda>m. creditAncestor m (tm_id m \<in> set unread))
        (filter (\<lambda>m. descends messages m x) (rev (orderedMessages messages)))) (jget ?start x)"
    unfolding buildDescendantStatsByMessageId_def by (rule stats_fold [OF assms])
  then show ?thesis unfolding start statsOf_def by simp
qed

text \<open>The stable order by time.\<close>

lemma compareIndexed_le: "snd a < snd b \<Longrightarrow> compareIndexed a b \<le> 0 \<longleftrightarrow> tm_createdAt (fst a) \<le> tm_createdAt (fst b)"
  by (simp add: compareIndexed_def)

lemma insert_indexed:
  "\<forall>y\<in>set ys. i < snd y \<Longrightarrow> map fst (js_insert compareIndexed (m, i) ys) = insort_key tm_createdAt m (map fst ys)"
  by (induction ys) (simp_all add: compareIndexed_le)

lemma orderedMessages_sort: "orderedMessages messages = sort_key tm_createdAt messages"
proof -
  have "map fst (js_sort compareIndexed (zip ms [k..<k + length ms])) = sort_key tm_createdAt ms" for ms k
  proof (induction ms arbitrary: k)
    case (Cons m ms)
    have "zip (m # ms) [k..<k + length (m # ms)] = (m, k) # zip ms [Suc k..<Suc k + length ms]"
      by (simp add: upt_conv_Cons del: upt_Suc)
    moreover have "\<forall>y\<in>set (js_sort compareIndexed (zip ms [Suc k..<Suc k + length ms])). k < snd y"
      by (auto dest: set_zip_rightD simp del: upt_Suc)
    ultimately show ?case using Cons.IH [of "Suc k"] by (simp add: insert_indexed del: upt_Suc)
  qed simp
  from this [of messages 0] show ?thesis by (simp add: orderedMessages_def)
qed

text \<open>The first element for each key.\<close>

fun uniqueBy :: "('a \<Rightarrow> 'k) \<Rightarrow> 'a list \<Rightarrow> 'a list" where
  "uniqueBy f [] = []"
| "uniqueBy f (x # xs) = x # filter (\<lambda>y. f y \<noteq> f x) (uniqueBy f xs)"

lemma set_uniqueBy: "f ` set (uniqueBy f xs) = f ` set xs"
proof (induction xs)
  case (Cons x xs)
  have "f ` {y \<in> set (uniqueBy f xs). f y \<noteq> f x} = f ` set (uniqueBy f xs) - {f x}" by auto
  with Cons show ?case by auto
qed simp

lemma uniqueBy_snoc: "uniqueBy f (xs @ [y]) = uniqueBy f xs @ (if f y \<in> f ` set xs then [] else [y])"
  by (induction xs) (auto simp: image_iff)

lemma addParticipant_unique:
  "addParticipant p (take 3 (uniqueBy pa_id ps)) = take 3 (uniqueBy pa_id (ps @ [p]))"
proof (cases "length (uniqueBy pa_id ps) < 3")
  case True
  have "list_ex (\<lambda>e. pa_id e = pa_id p) (uniqueBy pa_id ps) \<longleftrightarrow> pa_id p \<in> pa_id ` set ps"
    unfolding set_uniqueBy [of pa_id ps, symmetric] list_ex_iff by (auto simp: image_iff) metis
  with True show ?thesis by (simp add: addParticipant_def MAX_SUMMARY_PARTICIPANTS_def uniqueBy_snoc)
next
  case False
  then show ?thesis by (simp add: addParticipant_def MAX_SUMMARY_PARTICIPANTS_def uniqueBy_snoc)
qed

lemma fold_credit:
  "fold (\<lambda>m. creditAncestor m (u m)) ms emptyStats =
     \<lparr>ds_descendantCount = int (length ms), ds_unreadDescendantCount = int (length (filter u ms)),
      ds_lastReplyAt = (if ms = [] then None else Some (Max (insert 0 (tm_createdAt ` set ms)))),
      ds_recentParticipantsNewestFirst = take 3 (uniqueBy pa_id (map participantFromMessage ms))\<rparr>"
proof (induction ms rule: rev_induct)
  case (snoc m ms)
  have "max (case (if ms = [] then None else Some (Max (insert 0 (tm_createdAt ` set ms)))) of Some t \<Rightarrow> t | None \<Rightarrow> 0)
      (tm_createdAt m) = Max (insert 0 (tm_createdAt ` set (ms @ [m])))"
    by (cases "ms = []") (simp_all add: max.commute max.left_commute)
  with snoc show ?case
    by (simp add: creditAncestor_def addParticipant_unique)
qed (simp add: emptyStats_def)

text \<open>An executable test that a thread has no cycle.\<close>

lemma thread_ok_check:
  assumes "distinct (map tm_id messages)"
    and "list_all (\<lambda>m. let ids = ancestorIds messages (tm_parentId m) (length messages + 1) in
      length ids \<le> length messages \<and> tm_id m \<notin> set ids) messages"
  shows "thread_ok messages"
  unfolding thread_ok_def
proof (intro conjI ballI notI)
  fix m assume m: "m \<in> set messages" "descends messages m (tm_id m)"
  let ?ids = "ancestorIds messages (tm_parentId m) (length messages + 1)"
  have "length ?ids \<le> length messages" "tm_id m \<notin> set ?ids"
    using assms(2) m(1) by (auto simp: list_all_iff simp del: ancestorIds.simps)
  then show False using ancestorIds_complete [OF assms(1), of m "length messages + 1" "tm_id m"] m(2) by simp
qed (rule assms(1))

definition sample_message :: "string \<Rightarrow> string option \<Rightarrow> int \<Rightarrow> timeline_message" where
  "sample_message i parent t =
     \<lparr>tm_id = i, tm_renderKey = None, tm_createdAt = t, tm_pubkey = Some ''pk'', tm_signerPubkey = None,
      tm_author = ''Ann'', tm_isAgent = None, tm_ownerPubkey = None, tm_ownerLabel = None, tm_avatarUrl = None,
      tm_role = None, tm_personaDisplayName = None, tm_respondTo = None, tm_time = [], tm_body = ''hi'',
      tm_parentId = parent, tm_rootId = None, tm_depth = 0, tm_accent = None, tm_pending = None,
      tm_edited = None, tm_highlighted = None, tm_kind = None, tm_tags = None, tm_reactions = None\<rparr>"

definition sample_thread :: "timeline_message list" where
  "sample_thread = [sample_message ''a'' None 1, sample_message ''b'' (Some ''a'') 2, sample_message ''c'' (Some ''b'') 3]"

lemma sample_thread_ok: "thread_ok sample_thread"
  by (rule thread_ok_check) code_simp+

text \<open>
  The statistics under a message: in a thread without cycles they count each loaded descendant
  once, however deep, and each unread one; they hold the time of the latest descendant and the
  authors of the newest ones, each author once and at most three.
\<close>

theorem descendant_stats_spec:
  assumes "thread_ok messages" and "x \<in> tm_id ` set messages"
  shows "let under = filter (\<lambda>m. descends messages m x) messages in
    jget (buildDescendantStatsByMessageId messages unread (byId messages)) x =
      Some \<lparr>ds_descendantCount = int (length under),
        ds_unreadDescendantCount = int (length (filter (\<lambda>m. tm_id m \<in> set unread) under)),
        ds_lastReplyAt = (if under = [] then None else Some (Max (insert 0 (tm_createdAt ` set under)))),
        ds_recentParticipantsNewestFirst =
          take 3 (uniqueBy pa_id (map participantFromMessage (rev (sort_key tm_createdAt under))))\<rparr>"
proof -
  let ?P = "\<lambda>m. descends messages m x" and ?u = "\<lambda>m. tm_id m \<in> set unread"
  have f: "filter ?P (rev (orderedMessages messages)) = rev (sort_key tm_createdAt (filter ?P messages))"
    by (simp add: orderedMessages_sort filter_sort flip: rev_filter)
  have e: "rev (sort_key tm_createdAt xs) = [] \<longleftrightarrow> xs = []" for xs by (metis length_0_conv length_rev length_sort)
  have u: "length (filter ?u (rev (sort_key tm_createdAt xs))) = length (filter ?u xs)" for xs
    by (simp add: filter_sort flip: rev_filter)
  show ?thesis
    using assms unfolding Let_def stats_of [OF assms(1)] statsOf_def f fold_credit e u by simp
qed

theorem descendant_stats_spec_witness:
  "let under = filter (\<lambda>m. descends sample_thread m ''a'') sample_thread in
   map_option ds_descendantCount (jget (buildDescendantStatsByMessageId sample_thread [''c''] (byId sample_thread)) ''a'') =
     Some (int (length under))"
proof -
  have "''a'' \<in> tm_id ` set sample_thread" by code_simp
  from descendant_stats_spec [OF sample_thread_ok this, of "[''c'']"] show ?thesis by (simp add: Let_def del: ancestorIds.simps)
qed

subsection \<open>The rows of a thread account for every reply\<close>

lemma addChild_get:
  "x \<noteq> [] \<Longrightarrow> jget_or (fold addChild ms m) x [] = jget_or m x [] @ filter (\<lambda>c. tm_parentId c = Some x) ms"
proof (induction ms arbitrary: m)
  case (Cons c ms)
  have "jget_or (addChild c m) x [] = jget_or m x [] @ (if tm_parentId c = Some x then [c] else [])"
    using Cons.prems by (auto simp: addChild_def jget_or_def truthy_def split: option.splits)
  with Cons show ?case by simp
qed simp

lemma children_of:
  "x \<noteq> [] \<Longrightarrow> jget_or (buildDirectChildrenByParentId messages) x [] = filter (\<lambda>c. tm_parentId c = Some x) messages"
  by (simp add: buildDirectChildrenByParentId_def addChild_get) (simp add: jget_or_def)

lemma no_children_of_empty: "jget_or (buildDirectChildrenByParentId messages) [] [] = []"
proof -
  have "jget_or (fold addChild ms m) [] [] = jget_or m [] []" for ms m
    by (induction ms arbitrary: m) (auto simp: addChild_def jget_or_def truthy_def split: option.splits)
  from this [of messages "[]"] show ?thesis by (simp add: buildDirectChildrenByParentId_def jget_or_def)
qed

definition under :: "timeline_message list \<Rightarrow> string \<Rightarrow> timeline_message set" where
  "under messages x = {m \<in> set messages. descends messages m x}"

lemma descends_step:
  assumes "descends messages m x" and "m \<in> set messages" and "distinct (map tm_id messages)"
  obtains "tm_parentId m = Some x" | c where "c \<in> set messages" "tm_parentId c = Some x" "descends messages m (tm_id c)"
  using assms(1,2)
proof (induction arbitrary: thesis rule: descends.induct)
  case (further m parent a)
  show ?case
  proof (rule further.IH)
    assume "tm_parentId parent = Some a"
    then show thesis using further.prems(2) [of parent] further.hyps child [of m "tm_id parent" messages] by simp
  next
    fix c assume "c \<in> set messages" "tm_parentId c = Some a" "descends messages parent (tm_id c)"
    then show thesis using further.prems(2) [of c] further.hyps descends.further [of m parent messages] by blast
  qed (rule further.hyps)
qed blast

lemma descends_trans:
  assumes "descends messages m (tm_id c)" and "descends messages c x" and "c \<in> set messages"
    and "distinct (map tm_id messages)"
  shows "descends messages m x"
  using assms(1,2)
proof (induction m "tm_id c" rule: descends.induct)
  case (child m)
  then show ?case using assms(3) descends.further [of m c messages x] by simp
qed (rule descends.further)

lemma descends_nonempty: "descends messages m x \<Longrightarrow> x \<noteq> [] \<and> x \<in> tm_id ` set messages"
  by (induction rule: descends.induct) auto

lemma under_children:
  assumes "thread_ok messages" and "x \<noteq> []" and "x \<in> tm_id ` set messages"
  shows "under messages x = (\<Union>c\<in>{c \<in> set messages. tm_parentId c = Some x}. insert c (under messages (tm_id c)))"
proof (intro equalityI subsetI)
  have d: "distinct (map tm_id messages)" using assms(1) by (simp add: thread_ok_def)
  fix m assume "m \<in> under messages x"
  then have "m \<in> set messages" "descends messages m x" by (auto simp: under_def)
  then show "m \<in> (\<Union>c\<in>{c \<in> set messages. tm_parentId c = Some x}. insert c (under messages (tm_id c)))"
    by (cases rule: descends_step [OF _ _ d]) (auto simp: under_def)
next
  have d: "distinct (map tm_id messages)" using assms(1) by (simp add: thread_ok_def)
  fix m assume "m \<in> (\<Union>c\<in>{c \<in> set messages. tm_parentId c = Some x}. insert c (under messages (tm_id c)))"
  then obtain c where c: "c \<in> set messages" "tm_parentId c = Some x" "m = c \<or> m \<in> set messages \<and> descends messages m (tm_id c)"
    by (auto simp: under_def)
  then have "descends messages c x" using assms(2,3) by (intro child)
  then show "m \<in> under messages x" using c descends_trans [OF _ _ c(1) d] by (auto simp: under_def)
qed

lemma same_id: "distinct (map tm_id messages) \<Longrightarrow> p \<in> set messages \<Longrightarrow> q \<in> set messages \<Longrightarrow> tm_id p = tm_id q \<Longrightarrow> p = q"
  by (auto simp: distinct_map dest: inj_onD)

lemma no_sibling_descent:
  assumes "thread_ok messages" and "c \<in> set messages" "tm_parentId c = Some x"
    and "c' \<in> set messages" "tm_parentId c' = Some x"
  shows "\<not> descends messages c (tm_id c')"
proof
  assume s: "descends messages c (tm_id c')"
  have d: "distinct (map tm_id messages)" and acyclic: "\<forall>m\<in>set messages. \<not> descends messages m (tm_id m)"
    using assms(1) by (simp_all add: thread_ok_def)
  from s show False
  proof cases
    case child
    then show False using assms(3-5) acyclic descends.child [of c' x messages] by auto
  next
    case (further p)
    then have "descends messages c' (tm_id p)" using assms(3,5) by (intro child) auto
    then have "descends messages p (tm_id p)" using further(4) descends_trans [OF _ _ assms(4) d] by blast
    with further(3) acyclic show False by blast
  qed
qed

lemma child_unique:
  assumes "thread_ok messages" and "c \<in> set messages" "tm_parentId c = Some x"
    and "c' \<in> set messages" "tm_parentId c' = Some x"
    and "descends messages m (tm_id c)" and "descends messages m (tm_id c')"
  shows "c = c'"
  using assms(6,7)
proof (induction m "tm_id c" rule: descends.induct)
  have d: "distinct (map tm_id messages)" using assms(1) by (simp add: thread_ok_def)
  note no = no_sibling_descent [OF assms(1)]
  {
    case (child m)
    from child(4) show ?case
    proof cases
      case child
      with \<open>tm_parentId m = Some (tm_id c)\<close> show ?thesis using same_id [OF d assms(2,4)] by simp
    next
      case (further p)
      with \<open>tm_parentId m = Some (tm_id c)\<close> have "p = c" using same_id [OF d _ assms(2)] by simp
      with further no [OF assms(2-5)] show ?thesis by blast
    qed
  next
    case (further m p)
    from further(6) show ?case
    proof cases
      case child
      with further(1,3) have "p = c'" using same_id [OF d _ assms(4)] by simp
      with further(4) no [OF assms(4,5,2,3)] show ?thesis by blast
    next
      case (further q)
      with \<open>tm_parentId m = Some (tm_id p)\<close> \<open>p \<in> set messages\<close> have "q = p" using same_id [OF d] by simp
      with further(4) \<open>descends messages p (tm_id c') \<Longrightarrow> c = c'\<close> show ?thesis by blast
    qed
  }
qed

definition repliesUnder :: "timeline_message list \<Rightarrow> string \<Rightarrow> nat" where
  "repliesUnder messages x = card (under messages x)"

lemma repliesUnder_children:
  assumes "thread_ok messages" and "x \<in> tm_id ` set messages"
  shows "repliesUnder messages x =
    sum_list (map (\<lambda>c. Suc (repliesUnder messages (tm_id c))) (jget_or (buildDirectChildrenByParentId messages) x []))"
proof (cases "x = []")
  case True
  have "under messages [] = {}" using descends_nonempty by (auto simp: under_def)
  with True show ?thesis by (simp add: repliesUnder_def no_children_of_empty)
next
  case False
  let ?C = "{c \<in> set messages. tm_parentId c = Some x}"
  have fin: "finite (under messages y)" for y by (simp add: under_def)
  have self: "c \<notin> under messages (tm_id c)" for c using assms(1) by (auto simp: under_def thread_ok_def)
  have "card (under messages x) = (\<Sum>c\<in>?C. card (insert c (under messages (tm_id c))))"
    unfolding under_children [OF assms(1) False assms(2)]
  proof (rule card_UN_disjoint)
    show "\<forall>c\<in>?C. \<forall>c'\<in>?C. c \<noteq> c' \<longrightarrow> insert c (under messages (tm_id c)) \<inter> insert c' (under messages (tm_id c')) = {}"
      using no_sibling_descent [OF assms(1)] child_unique [OF assms(1)] by (fastforce simp: under_def)
  qed (simp_all add: fin)
  also have "\<dots> = (\<Sum>c\<in>?C. Suc (repliesUnder messages (tm_id c)))"
    using fin self by (simp add: repliesUnder_def)
  also have "\<dots> = sum_list (map (\<lambda>c. Suc (repliesUnder messages (tm_id c))) (filter (\<lambda>c. tm_parentId c = Some x) messages))"
  proof -
    have "distinct messages" using assms(1) by (simp add: thread_ok_def distinct_map)
    then show ?thesis by (simp add: sum_list_distinct_conv_sum_set)
  qed
  finally show ?thesis using False by (simp add: repliesUnder_def children_of)
qed

lemma expandReplies_simps [simp, code]:
  "expandReplies children stats ex [] depth = Some []"
  "expandReplies children stats ex (reply # rest) depth =
     do {
       inner \<leftarrow> (if tm_id reply \<in> set ex
                 then expandReplies children stats ex (jget_or children (tm_id reply) []) (depth + 1) else Some []);
       later \<leftarrow> expandReplies children stats ex rest depth;
       Some (replyEntry stats ex reply depth # inner @ later)
     }"
  by (subst expandReplies.simps, simp)+

text \<open>The replies a row stands for: its message and those its summary counts.\<close>

definition rowReplies :: "timeline_entry \<Rightarrow> int" where
  "rowReplies e = 1 + (case en_summary e of None \<Rightarrow> 0 | Some s \<Rightarrow> tt_replyCount s)"

lemma statsOf_count: "thread_ok messages \<Longrightarrow> ds_descendantCount (statsOf messages unread x) = int (repliesUnder messages x)"
proof -
  assume "thread_ok messages"
  then have "distinct (filter (\<lambda>m. descends messages m x) (rev (orderedMessages messages)))"
    by (simp add: thread_ok_def distinct_map orderedMessages_sort)
  then have "length (filter (\<lambda>m. descends messages m x) (rev (orderedMessages messages))) = repliesUnder messages x"
    by (simp add: repliesUnder_def under_def orderedMessages_sort Int_def conj_commute flip: distinct_card)
  then show ?thesis by (simp add: statsOf_def fold_credit)
qed

lemma rowReplies_entry:
  assumes "thread_ok messages" and "c \<in> set messages"
  shows "rowReplies (replyEntry (buildDescendantStatsByMessageId messages unread (byId messages)) ex c depth) =
    1 + (if tm_id c \<in> set ex then 0 else int (repliesUnder messages (tm_id c)))"
  using assms
  by (simp add: rowReplies_def replyEntry_def buildSummaryForDirectReplies_def stats_of statsOf_count)

text \<open>
  The recursion ends because the replies still to be placed become fewer, and each of them ends up
  as a row or in the count of a collapsed row.
\<close>

lemma expandReplies_total:
  assumes "thread_ok messages" and "set replies \<subseteq> set messages"
  shows "\<exists>es. expandReplies (buildDirectChildrenByParentId messages)
      (buildDescendantStatsByMessageId messages unread (byId messages)) ex replies depth = Some es \<and>
    sum_list (map rowReplies es) = int (sum_list (map (\<lambda>c. Suc (repliesUnder messages (tm_id c))) replies))"
  using assms(2)
proof (induction "sum_list (map (\<lambda>c. Suc (repliesUnder messages (tm_id c))) replies)" arbitrary: replies depth rule: less_induct)
  case less
  let ?children = "buildDirectChildrenByParentId messages"
  let ?stats = "buildDescendantStatsByMessageId messages unread (byId messages)"
  show ?case
  proof (cases replies)
    case (Cons c rest)
    let ?kids = "jget_or ?children (tm_id c) []"
    have c: "c \<in> set messages" using less.prems Cons by simp
    have kids: "repliesUnder messages (tm_id c) = sum_list (map (\<lambda>c. Suc (repliesUnder messages (tm_id c))) ?kids)"
      using c by (intro repliesUnder_children [OF assms(1)]) simp
    have sub: "set ?kids \<subseteq> set messages" by (cases "tm_id c = []") (auto simp: no_children_of_empty children_of)
    obtain inner where inner: "expandReplies ?children ?stats ex ?kids (depth + 1) = Some inner"
      "sum_list (map rowReplies inner) = int (repliesUnder messages (tm_id c))"
      using less.hyps [of ?kids "depth + 1"] sub kids by (auto simp: Cons)
    obtain later where later: "expandReplies ?children ?stats ex rest depth = Some later"
      "sum_list (map rowReplies later) = int (sum_list (map (\<lambda>c. Suc (repliesUnder messages (tm_id c))) rest))"
      using less.hyps [of rest depth] less.prems by (auto simp: Cons)
    show ?thesis
      using inner later rowReplies_entry [OF assms(1) c, of unread ex depth] by (simp add: Cons)
  qed simp
qed

lemma visible_total:
  assumes "thread_ok messages" and "x \<in> tm_id ` set messages"
  shows "\<exists>es. buildVisibleThreadReplies x (buildDirectChildrenByParentId messages)
      (buildDescendantStatsByMessageId messages unread (byId messages)) ex = Some es \<and>
    sum_list (map rowReplies es) = int (repliesUnder messages x)"
proof -
  have "set (jget_or (buildDirectChildrenByParentId messages) x []) \<subseteq> set messages"
    by (cases "x = []") (auto simp: no_children_of_empty children_of)
  from expandReplies_total [OF assms(1) this, of unread ex 1] show ?thesis
    by (auto simp: buildVisibleThreadReplies_def appendExpandedReplies_def repliesUnder_children [OF assms])
qed

text \<open>
  C37. Opening a thread always ends: for every set of expanded replies and every head, the recursion
  over the expanded replies of a thread without cycles returns.
\<close>

theorem thread_panel_terminates:
  assumes "thread_ok messages"
  shows "\<exists>panel. buildThreadPanelData messages head target expanded = Some panel"
proof -
  have "the head \<in> tm_id ` set messages" if "jget (byId messages) (the head) = Some m" for m
    using that find_mem_Some [of "\<lambda>m. tm_id m = the head" "rev messages" m]
    by (auto simp: jget_keyed intro!: image_eqI [of _ _ m])
  then show ?thesis
    using visible_total [OF assms, of "the head" "[]" expanded]
    by (auto simp: buildThreadPanelData_def buildThreadPanelDataFromIndex_def buildThreadPanelIndex_def split: option.splits)
qed

theorem thread_panel_terminates_witness:
  "\<exists>panel. buildThreadPanelData sample_thread (Some ''a'') None [''b''] = Some panel"
  by (rule thread_panel_terminates [OF sample_thread_ok])

text \<open>
  The hypothesis is needed: unlike the walk up the parents, this recursion has no bound, and it does
  not return when an expanded message is its own reply.
\<close>

lemma expand_cycle_diverges:
  assumes "m \<in> set replies" and "tm_id m \<in> set ex" and "m \<in> set (jget_or children (tm_id m) [])"
  shows "expandReplies children stats ex replies depth = None"
proof -
  have "tm_id m \<in> set ex \<longrightarrow> m \<in> set (jget_or children (tm_id m) []) \<longrightarrow> m \<notin> set replies"
    if "expandReplies children stats ex replies depth = Some es" for es
    using that
  proof (rule expandReplies.raw_induct [rotated, where P = "\<lambda>children stats ex replies depth es.
      tm_id m \<in> set ex \<longrightarrow> m \<in> set (jget_or children (tm_id m) []) \<longrightarrow> m \<notin> set replies"], goal_cases)
    case (1 f children stats ex replies depth es)
    show ?case
    proof (cases replies)
      case (Cons reply rest)
      have "m \<notin> set rest" if "tm_id m \<in> set ex" "m \<in> set (jget_or children (tm_id m) [])"
        using 1 Cons that by (auto simp: bind_eq_Some_conv split: if_splits)
      moreover have "m \<noteq> reply" if "tm_id m \<in> set ex" "m \<in> set (jget_or children (tm_id m) [])"
        using 1(1) [of children stats ex "jget_or children (tm_id reply) []" "depth + 1"] 1(2) Cons that
        by (auto simp: bind_eq_Some_conv)
      ultimately show ?thesis using Cons by auto
    qed simp
  qed
  with assms show ?thesis by (cases "expandReplies children stats ex replies depth") auto
qed

lemma fold_addEntry:
  "fst (fold addEntry es acc) = fst acc + sum_list (map rowReplies es)"
proof (induction es arbitrary: acc)
  case (Cons e es)
  have "fst (addEntry e acc) = fst acc + rowReplies e"
    by (simp add: addEntry_def rowReplies_def case_prod_unfold split: option.splits)
  with Cons show ?case by simp
qed simp

text \<open>
  C11. The rows of an open thread account for every reply: whatever is expanded or collapsed, the
  summary rebuilt from the visible rows (its rows and the counts of the collapsed ones) has exactly
  the reply count that the panel shows for the head, and is absent exactly when that count is zero.
\<close>

theorem visible_rows_account_for_replies:
  assumes "thread_ok messages" and "head \<in> set messages" and "tm_id head \<noteq> []"
    and "buildThreadPanelData messages (Some (tm_id head)) target expanded = Some panel"
  shows "pd_totalReplyCount panel = int (card {m \<in> set messages. descends messages m (tm_id head)}) \<and>
    (case buildThreadSummaryFromVisibleEntries (tm_id head) (pd_visibleReplies panel) of
       None \<Rightarrow> pd_totalReplyCount panel = 0
     | Some summary \<Rightarrow> tt_replyCount summary = pd_totalReplyCount panel)"
proof -
  have head: "tm_id head \<in> tm_id ` set messages" using assms(2) by simp
  obtain es where es: "buildVisibleThreadReplies (tm_id head) (buildDirectChildrenByParentId messages)
      (buildDescendantStatsByMessageId messages [] (byId messages)) expanded = Some es"
    "sum_list (map rowReplies es) = int (repliesUnder messages (tm_id head))"
    using visible_total [OF assms(1) head, of "[]" expanded] by blast
  have "jget (byId messages) (tm_id head) = Some head"
    using assms(1,2) by (intro jget_byId) (simp_all add: thread_ok_def)
  then have panel: "pd_visibleReplies panel = es" "pd_totalReplyCount panel = int (repliesUnder messages (tm_id head))"
    using assms(3,4) es(1) head
    by (auto simp: buildThreadPanelData_def buildThreadPanelDataFromIndex_def buildThreadPanelIndex_def truthy_def
        stats_of [OF assms(1)] statsOf_count [OF assms(1)])
  have "fst (fold addEntry es (0, None, [])) = int (repliesUnder messages (tm_id head))"
    by (simp add: fold_addEntry es(2))
  then show ?thesis
    unfolding panel by (auto simp: buildThreadSummaryFromVisibleEntries_def repliesUnder_def under_def split: prod.splits)
qed

theorem visible_rows_account_for_replies_witness:
  "\<exists>panel. buildThreadPanelData sample_thread (Some ''a'') None [] = Some panel \<and>
     (case buildThreadSummaryFromVisibleEntries ''a'' (pd_visibleReplies panel) of
        None \<Rightarrow> pd_totalReplyCount panel = 0
      | Some summary \<Rightarrow> tt_replyCount summary = pd_totalReplyCount panel)"
proof -
  let ?head = "sample_message ''a'' None 1"
  have head: "?head \<in> set sample_thread" "tm_id ?head = ''a''" by (simp_all add: sample_thread_def sample_message_def)
  have "\<not> Option.is_none (buildThreadPanelData sample_thread (Some ''a'') None [])" by code_simp
  then obtain panel where panel: "buildThreadPanelData sample_thread (Some ''a'') None [] = Some panel"
    by (cases "buildThreadPanelData sample_thread (Some ''a'') None []") simp_all
  with visible_rows_account_for_replies [OF sample_thread_ok head(1), of None "[]" panel] head(2) show ?thesis by auto
qed

end
