(* ===== verification/UnreadCounts.thy ===== *)
theory UnreadCounts
  imports ReadState ThreadPanel Buffers
begin

text \<open>
  Unread events and markers: the bounded maps of observed unread events with the counts that feed
  the channel and application badges (\<open>features/channels/unreadChannelCounts.ts\<close>), and the first
  unread message of a channel or thread (\<open>features/messages/lib/unreadMarker.ts\<close>). The read
  markers come from \<open>ReadState\<close> (\<open>maxReadAt\<close>), the messages from \<open>ThreadPanel\<close>.
\<close>

subsection \<open>Observed events\<close>

record observed_event =
  ou_id :: string
  ou_createdAt :: int
  ou_rootId :: "string option"
  ou_highPriority :: bool
  ou_countsTowardBadge :: bool
  ou_countsTowardAppBadge :: bool

definition makeObservedUnreadEvent ::
  "string \<Rightarrow> int \<Rightarrow> string option \<Rightarrow> bool \<Rightarrow> string option \<Rightarrow> bool \<Rightarrow> observed_event" where
  "makeObservedUnreadEvent i createdAt rootId highPriority channelType isThreadedReply =
     (let isDm = (channelType = Some ''dm'') in
      \<lparr>ou_id = i, ou_createdAt = createdAt, ou_rootId = rootId, ou_highPriority = highPriority,
       ou_countsTowardBadge = (isDm \<or> isThreadedReply \<or> highPriority),
       ou_countsTowardAppBadge = (isDm \<or> (\<not> isThreadedReply \<and> highPriority))\<rparr>)"

definition mapsEqual :: "(string, int) jsmap \<Rightarrow> (string, int) jsmap \<Rightarrow> bool" where
  "mapsEqual a b \<longleftrightarrow> length a = length b \<and> list_all (\<lambda>(key, v). jget b key = Some v) a"

type_synonym observed_map = "(string, observed_event) jsmap"

definition oldestId :: "observed_map \<Rightarrow> string option" where
  "oldestId eventsById =
     map_option ou_id (jsat (js_sort (\<lambda>a b. ou_createdAt a - ou_createdAt b) (jvals eventsById)) 0)"

definition recordObservedUnreadEvent ::
  "(string, observed_map) jsmap \<Rightarrow> string \<Rightarrow> observed_event \<Rightarrow> nat \<Rightarrow> bool \<times> (string, observed_map) jsmap" where
  "recordObservedUnreadEvent eventsByChannel channelId event limit =
     (let eventsById = jget_or eventsByChannel channelId [] in
      if jhas eventsById (ou_id event) then (False, eventsByChannel)
      else
        let eventsById1 = jset eventsById (ou_id event) event in
        if length eventsById1 \<le> limit then (True, jset eventsByChannel channelId eventsById1)
        else
          let oldest = oldestId eventsById1 in
          (True, jset eventsByChannel channelId
             (if truthy oldest then jdel eventsById1 (the oldest) else eventsById1)))"

subsection \<open>Counts\<close>

definition isUnreadAt :: "(observed_event \<Rightarrow> int option) \<Rightarrow> observed_event \<Rightarrow> bool" where
  "isUnreadAt getReadAt event = (case getReadAt event of None \<Rightarrow> True | Some readAt \<Rightarrow> ou_createdAt event > readAt)"

definition countUnreadObservedEvents :: "observed_map option \<Rightarrow> (observed_event \<Rightarrow> int option) \<Rightarrow> nat" where
  "countUnreadObservedEvents eventsById getReadAt =
     (case eventsById of
        None \<Rightarrow> 0
      | Some events \<Rightarrow> fold (\<lambda>event n. if isUnreadAt getReadAt event then n + 1 else n) (jvals events) 0)"

definition countUnreadBadgeObservedEvents :: "observed_map option \<Rightarrow> (observed_event \<Rightarrow> int option) \<Rightarrow> nat" where
  "countUnreadBadgeObservedEvents eventsById getReadAt =
     (case eventsById of
        None \<Rightarrow> 0
      | Some events \<Rightarrow>
          fold (\<lambda>event n.
              if \<not> ou_countsTowardBadge event then n
              else if isUnreadAt getReadAt event then n + 1 else n) (jvals events) 0)"

definition countUnreadAppBadgeObservedEvents :: "observed_map option \<Rightarrow> (observed_event \<Rightarrow> int option) \<Rightarrow> nat" where
  "countUnreadAppBadgeObservedEvents eventsById getReadAt =
     (case eventsById of
        None \<Rightarrow> 0
      | Some events \<Rightarrow>
          fold (\<lambda>event n.
              if \<not> ou_countsTowardAppBadge event then n
              else if isUnreadAt getReadAt event then n + 1 else n) (jvals events) 0)"

definition countUnreadHighPriorityObservedEvents ::
  "observed_map option \<Rightarrow> (observed_event \<Rightarrow> int option) \<Rightarrow> nat" where
  "countUnreadHighPriorityObservedEvents eventsById getReadAt =
     (case eventsById of
        None \<Rightarrow> 0
      | Some events \<Rightarrow>
          fold (\<lambda>event n.
              if \<not> ou_highPriority event then n
              else if isUnreadAt getReadAt event then n + 1 else n) (jvals events) 0)"

definition observedUnreadEventReadAt ::
  "int option \<Rightarrow> (string \<Rightarrow> int option) \<Rightarrow> (string \<Rightarrow> int option) \<Rightarrow> observed_event \<Rightarrow> int option" where
  "observedUnreadEventReadAt channelReadAt getThreadOwnMarker getMessageOwnMarker event =
     (let markers = [channelReadAt, getMessageOwnMarker (ou_id event)] in
      maxReadAt (case ou_rootId event of None \<Rightarrow> markers | Some root \<Rightarrow> markers @ [getThreadOwnMarker root]))"

text \<open>The markers as the channel list reads them (\<open>useUnreadChannels.ts\<close>).\<close>

definition readAtForObservedEvent :: "read_state_manager \<Rightarrow> string \<Rightarrow> observed_event \<Rightarrow> int option" where
  "readAtForObservedEvent manager channelId event =
     observedUnreadEventReadAt (getEffectiveTimestamp manager channelId)
       (\<lambda>rootId. getOwnTimestamp manager (''thread:'' @ rootId))
       (\<lambda>messageId. getOwnTimestamp manager (''msg:'' @ messageId)) event"

subsection \<open>The first unread message\<close>

record channel_unread_marker =
  um_firstUnreadMessageId :: "string option"
  um_unreadCount :: nat

definition EMPTY_MARKER :: channel_unread_marker where
  "EMPTY_MARKER = \<lparr>um_firstUnreadMessageId = None, um_unreadCount = 0\<rparr>"

definition isOwnMessage :: "string option \<Rightarrow> timeline_message \<Rightarrow> bool" where
  "isOwnMessage currentAgentId message =
     (let normalizedPubkey = map_option toLowerCase currentAgentId in
      truthy normalizedPubkey \<and> map_option toLowerCase (tm_pubkey message) = normalizedPubkey)"

text \<open>The body of the loops: an unread message takes the first place if it is free and is counted.\<close>

definition countUnreadMessage :: "timeline_message \<Rightarrow> string option \<times> nat \<Rightarrow> string option \<times> nat" where
  "countUnreadMessage message acc =
     (case acc of (firstId, unread) \<Rightarrow>
        (case firstId of None \<Rightarrow> Some (tm_id message) | Some i \<Rightarrow> Some i, unread + 1))"

definition computeChannelUnreadMarker ::
  "timeline_message list \<Rightarrow> int option \<Rightarrow> bool \<Rightarrow> string option \<Rightarrow> channel_unread_marker" where
  "computeChannelUnreadMarker messages frontierSeconds suppressed currentAgentId =
     (if suppressed then EMPTY_MARKER
      else
        case fold (\<lambda>message acc.
            if truthy (tm_parentId message) then acc
            else if isOwnMessage currentAgentId message then acc
            else if \<not> (case frontierSeconds of None \<Rightarrow> True | Some f \<Rightarrow> tm_createdAt message > f) then acc
            else countUnreadMessage message acc) messages (None, 0) of
          (firstUnreadMessageId, unreadCount) \<Rightarrow>
            if firstUnreadMessageId = None then EMPTY_MARKER
            else \<lparr>um_firstUnreadMessageId = firstUnreadMessageId, um_unreadCount = unreadCount\<rparr>)"

record thread_unread_marker =
  ur_firstUnreadReplyId :: "string option"
  ur_unreadCount :: nat

definition EMPTY_THREAD_MARKER :: thread_unread_marker where
  "EMPTY_THREAD_MARKER = \<lparr>ur_firstUnreadReplyId = None, ur_unreadCount = 0\<rparr>"

definition computeThreadUnreadMarker ::
  "timeline_message list \<Rightarrow> (string \<Rightarrow> int option) \<Rightarrow> string option \<Rightarrow> (string \<Rightarrow> bool) \<Rightarrow> thread_unread_marker" where
  "computeThreadUnreadMarker replies getReadAt currentAgentId isForcedUnread =
     (case fold (\<lambda>reply acc.
          if isOwnMessage currentAgentId reply then acc
          else if \<not> (isForcedUnread (tm_id reply) \<or>
                     (case getReadAt (tm_id reply) of None \<Rightarrow> True | Some readAt \<Rightarrow> tm_createdAt reply > readAt)) then acc
          else countUnreadMessage reply acc) replies (None, 0) of
        (firstUnreadReplyId, unreadCount) \<Rightarrow>
          if firstUnreadReplyId = None then EMPTY_THREAD_MARKER
          else \<lparr>ur_firstUnreadReplyId = firstUnreadReplyId, ur_unreadCount = unreadCount\<rparr>)"

subsection \<open>The bounded map of observed events\<close>

definition channelEvents :: "string \<Rightarrow> (string, observed_map) jsmap \<Rightarrow> observed_event list" where
  "channelEvents c m = sort_key ou_createdAt (jvals (jget_or m c []))"

definition observed_ok :: "string \<Rightarrow> nat \<Rightarrow> (string, observed_map) jsmap \<Rightarrow> bool" where
  "observed_ok c limit m \<longleftrightarrow> jwf (jget_or m c []) \<and> (\<forall>e\<in>set (jget_or m c []). fst e = ou_id (snd e))"

definition recordEvent :: "string \<Rightarrow> nat \<Rightarrow> observed_event \<Rightarrow> (string, observed_map) jsmap \<Rightarrow> (string, observed_map) jsmap" where
  "recordEvent c limit e m = snd (recordObservedUnreadEvent m c e limit)"

lemma recordEvent_get:
  "jget_or (recordEvent c limit e m) c [] =
     (let es = jget_or m c []; es1 = jset es (ou_id e) e in
      if jhas es (ou_id e) then es
      else if length es1 \<le> limit then es1
      else if truthy (oldestId es1) then jdel es1 (the (oldestId es1)) else es1)"
  by (simp add: recordEvent_def recordObservedUnreadEvent_def) (auto simp: jget_or_def)

lemma set_jdel_subset: "set (jdel m k) \<subseteq> set m"
  by (auto simp: AList.delete_eq)

lemma observed_ok_record:
  assumes "observed_ok c limit m"
  shows "observed_ok c limit (recordEvent c limit e m)"
proof (cases "jhas (jget_or m c []) (ou_id e)")
  case True
  then have "jget_or (recordEvent c limit e m) c [] = jget_or m c []" by (simp add: recordEvent_get)
  with assms show ?thesis unfolding observed_ok_def by simp
next
  case False
  let ?es = "jset (jget_or m c []) (ou_id e) e"
  have es: "jwf ?es" "\<forall>x\<in>set ?es. fst x = ou_id (snd x)"
    using assms False unfolding observed_ok_def by (simp, simp add: jset_absent)
  have "\<forall>x\<in>set (jdel ?es k). fst x = ou_id (snd x)" for k using es(2) set_jdel_subset [of k ?es] by blast
  moreover have "jget_or (recordEvent c limit e m) c [] = ?es \<or> (\<exists>k. jget_or (recordEvent c limit e m) c [] = jdel ?es k)"
    unfolding recordEvent_get Let_def if_not_P [OF False] by (metis (full_types))
  ultimately show ?thesis unfolding observed_ok_def using es jwf_jdel [OF es(1)] by metis
qed

text \<open>Deleting the entry of the least element drops the head of the sorted values.\<close>

lemma sort_delete_head:
  assumes "jwf m" and "\<forall>e\<in>set m. fst e = g (snd e)" and "inj_on f (set (jvals m))" and "sort_key f (jvals m) = x # xs"
  shows "sort_key f (jvals (jdel m (g x))) = xs"
proof -
  have mem: "x \<in> set (jvals m)" using assms(4) by (metis list.set_intros(1) set_sort)
  have inj: "inj_on (\<lambda>e. snd e) (set m)"
  proof (rule inj_onI)
    fix a b assume "a \<in> set m" "b \<in> set m" "snd a = snd b"
    then show "a = b" using assms(2) by (metis prod_eqI)
  qed
  have vals: "jvals (jdel m (g x)) = filter (\<lambda>v. v \<noteq> x) (jvals m)"
  proof -
    have iff: "fst e = g x \<longleftrightarrow> snd e = x" if "e \<in> set m" for e
    proof
      assume "fst e = g x"
      obtain e' where e': "e' \<in> set m" "snd e' = x" using mem by auto
      then have "fst e' = fst e" using assms(2) \<open>fst e = g x\<close> by simp
      then have "e' = e" using assms(1) e'(1) that by (auto simp: jwf_def distinct_map dest: inj_onD)
      with e' show "snd e = x" by simp
    qed (use assms(2) that in auto)
    have "filter (\<lambda>e. fst e \<noteq> g x) m = filter (\<lambda>e. snd e \<noteq> x) m"
      by (rule filter_cong [OF refl]) (simp only: iff)
    moreover have "jdel m (g x) = filter (\<lambda>e. fst e \<noteq> g x) m"
      unfolding AList.delete_eq by (rule filter_cong) (auto simp: case_prod_unfold)
    ultimately show ?thesis by (simp add: filter_map comp_def)
  qed
  have "distinct (jvals m)" using assms(1) inj by (auto simp: jwf_def distinct_map)
  then have "distinct (x # xs)" using assms(4) by (metis distinct_sort)
  have "sort_key f (filter (\<lambda>v. v \<noteq> x) (jvals m)) = filter (\<lambda>v. v \<noteq> x) (sort_key f (jvals m))"
    by (rule filter_sort [symmetric])
  also have "\<dots> = xs" unfolding assms(4) using \<open>distinct (x # xs)\<close> by (auto simp: filter_id_conv)
  finally show ?thesis by (simp add: vals)
qed

text \<open>
  \<open>known\<close> names the event of each id: events that share an id are the same event.
\<close>

interpretation unread: newest_buffer ou_createdAt limit "\<lambda>e. known (ou_id e) = Some e \<and> ou_id e \<noteq> []"
    "observed_ok c limit" "[]" "recordEvent c limit" "channelEvents c"
  for limit c and known :: "string \<Rightarrow> observed_event option"
proof unfold_locales
  fix m :: "(string, observed_map) jsmap" and e
  let ?es = "jget_or m c []" and ?cs = "channelEvents c m"
  assume inv: "observed_ok c limit m"
    and e: "known (ou_id e) = Some e \<and> ou_id e \<noteq> []"
    and old: "\<forall>x\<in>set ?cs. known (ou_id x) = Some x \<and> ou_id x \<noteq> []"
    and inj: "inj_on ou_createdAt (insert e (set ?cs))" and short: "length ?cs \<le> limit"
  have vals: "set ?cs = set (jvals ?es)" by (simp add: channelEvents_def)
  have wf: "jwf ?es" and keyed: "\<forall>x\<in>set ?es. fst x = ou_id (snd x)" using inv by (simp_all add: observed_ok_def)
  have has: "jhas ?es (ou_id e) \<longleftrightarrow> e \<in> set ?cs"
  proof
    assume "jhas ?es (ou_id e)"
    then obtain x where x: "(ou_id e, x) \<in> set ?es" unfolding jhas_iff by auto
    then have "ou_id x = ou_id e" "x \<in> set ?cs" using keyed vals by (force, force)
    then show "e \<in> set ?cs" using old e by (metis option.inject)
  next
    assume "e \<in> set ?cs"
    then show "jhas ?es (ou_id e)" using keyed vals unfolding jhas_iff by force
  qed
  show "channelEvents c (recordEvent c limit e m) =
      (if e \<in> set ?cs then ?cs else newest limit (sort_key ou_createdAt (?cs @ [e])))"
  proof (cases "jhas ?es (ou_id e)")
    case True
    then show ?thesis using has by (simp add: channelEvents_def recordEvent_get)
  next
    case False
    let ?es1 = "jset ?es (ou_id e) e"
    have es1: "jvals ?es1 = jvals ?es @ [e]" "length ?es1 = Suc (length ?cs)"
      using False by (simp_all add: jset_absent channelEvents_def)
    have sorted1: "sort_key ou_createdAt (?cs @ [e]) = sort_key ou_createdAt (jvals ?es1)"
    proof (rule map_sorted_distinct_set_unique [of ou_createdAt])
      have "distinct (jvals ?es)"
        using wf keyed by (auto simp: jwf_def distinct_map inj_on_def prod_eq_iff)
      then have d: "distinct (?cs @ [e])" "distinct (jvals ?es1)"
        using False has vals unfolding es1 by (auto simp: channelEvents_def)
      have sets: "set (?cs @ [e]) = insert e (set ?cs)" "set (jvals ?es1) = insert e (set ?cs)"
        by (simp, simp only: es1(1) vals set_append list.set Un_insert_right Un_empty_right)
      show "inj_on ou_createdAt (set (sort_key ou_createdAt (?cs @ [e])) \<union> set (sort_key ou_createdAt (jvals ?es1)))"
        using inj unfolding set_sort sets by simp
      show "distinct (map ou_createdAt (sort_key ou_createdAt (?cs @ [e])))"
        "distinct (map ou_createdAt (sort_key ou_createdAt (jvals ?es1)))"
        using inj d unfolding distinct_map [of ou_createdAt] set_sort sets by simp_all
      show "set (sort_key ou_createdAt (?cs @ [e])) = set (sort_key ou_createdAt (jvals ?es1))"
        unfolding set_sort sets ..
    qed simp_all
    show ?thesis
    proof (cases "Suc (length ?cs) \<le> limit")
      case True
      have "channelEvents c (recordEvent c limit e m) = sort_key ou_createdAt (jvals ?es1)"
        using False True es1(2) by (simp add: channelEvents_def recordEvent_get)
      moreover have "length (sort_key ou_createdAt (jvals ?es1)) \<le> limit" using True es1(2) by simp
      ultimately show ?thesis using False has sorted1 by (simp add: newest_short)
    next
      case over: False
      obtain x xs where s: "sort_key ou_createdAt (jvals ?es1) = x # xs"
        using es1(2) by (cases "sort_key ou_createdAt (jvals ?es1)") (metis length_0_conv length_map length_sort nat.distinct(1))+
      have oldest: "oldestId ?es1 = Some (ou_id x)"
        unfolding oldestId_def asc.js_sort_eq [of "jvals ?es1" ou_createdAt, simplified] s by simp
      have "x \<in> set (jvals ?es1)" using s by (metis list.set_intros(1) set_sort)
      then have "ou_id x \<noteq> []" using old e vals unfolding es1 by auto
      have "channelEvents c (recordEvent c limit e m) = sort_key ou_createdAt (jvals (jdel ?es1 (ou_id x)))"
        using False over es1(2) \<open>ou_id x \<noteq> []\<close>
        by (simp add: channelEvents_def recordEvent_get oldest truthy_def)
      also have "\<dots> = xs"
      proof (rule sort_delete_head [OF _ _ _ s])
        show "jwf ?es1" using wf by simp
        show "\<forall>x\<in>set ?es1. fst x = ou_id (snd x)" using keyed False by (simp add: jset_absent)
        show "inj_on ou_createdAt (set (jvals ?es1))" using inj unfolding es1 vals by simp
      qed
      also have "xs = newest limit (sort_key ou_createdAt (?cs @ [e]))"
      proof -
        have "length (x # xs) = Suc (length ?cs)" using es1(2) s by (metis length_map length_sort)
        then have "length xs = limit" using over short by simp
        then show ?thesis unfolding sorted1 s by (simp add: newest_Cons newest_short)
      qed
      finally show ?thesis using False has by simp
    qed
  qed
qed (simp add: channelEvents_def jget_or_def, simp add: observed_ok_def jget_or_def, rule observed_ok_record)

text \<open>
  The unread events of a channel converge: whatever the order and the repetitions in which events
  with distinct times arrive, the bounded map holds the newest \<open>limit\<close> of them and no other.
\<close>

theorem observed_events_converge:
  assumes "\<forall>e\<in>set es. ou_id e \<noteq> []" and "inj_on ou_id (set es)" and "inj_on ou_createdAt (set es)"
  shows "channelEvents c (fold (\<lambda>e m. snd (recordObservedUnreadEvent m c e limit)) es []) =
    newest limit (sort_key ou_createdAt (remdups es))"
proof -
  define known where "known i = find (\<lambda>e. ou_id e = i) es" for i
  have "known (ou_id e) = Some e" if "e \<in> set es" for e
  proof -
    have "find (\<lambda>x. ou_id x = ou_id e) es \<noteq> None" using that by (simp add: find_None_iff) blast
    then obtain x where "find (\<lambda>x. ou_id x = ou_id e) es = Some x" by blast
    with find_mem_Some [OF this] inj_onD [OF assms(2)] that show ?thesis by (auto simp: known_def)
  qed
  then have "\<forall>e\<in>set es. known (ou_id e) = Some e \<and> ou_id e \<noteq> []" using assms(1) by blast
  from unread.converges [OF this assms(3), of c limit] show ?thesis
    unfolding recordEvent_def .
qed

definition sample_observed :: "string \<Rightarrow> int \<Rightarrow> observed_event" where
  "sample_observed i t = makeObservedUnreadEvent i t None True None False"

theorem observed_events_converge_witness:
  "let a = sample_observed ''a'' 1; b = sample_observed ''b'' 2; c = sample_observed ''c'' 3 in
   channelEvents ''ch'' (fold (\<lambda>e m. snd (recordObservedUnreadEvent m ''ch'' e 2)) [b, c, a, b] []) = [b, c]"
proof -
  let ?a = "sample_observed ''a'' 1" and ?b = "sample_observed ''b'' 2" and ?c = "sample_observed ''c'' 3"
  have ids: "ou_id (sample_observed i t) = i" "ou_createdAt (sample_observed i t) = t" for i t
    by (simp_all add: sample_observed_def makeObservedUnreadEvent_def)
  have "channelEvents ''ch'' (fold (\<lambda>e m. snd (recordObservedUnreadEvent m ''ch'' e 2)) [?b, ?c, ?a, ?b] []) =
      newest 2 (sort_key ou_createdAt (remdups [?b, ?c, ?a, ?b]))"
    by (rule observed_events_converge) (auto simp: ids inj_on_def)
  moreover have "?a \<noteq> ?b" "?c \<noteq> ?a" "?c \<noteq> ?b" by (auto simp: ids dest: arg_cong [of _ _ ou_id])
  ultimately show ?thesis by (simp add: ids newest_def)
qed

subsection \<open>What the counts say\<close>

lemma fold_count: "fold (\<lambda>x n. if P x then n + 1 else n) xs (k :: nat) = k + length (filter P xs)"
  by (induction xs arbitrary: k) auto

lemma counts_filter:
  "countUnreadObservedEvents (Some m) r = length (filter (isUnreadAt r) (jvals m))"
  "countUnreadBadgeObservedEvents (Some m) r = length (filter (\<lambda>e. ou_countsTowardBadge e \<and> isUnreadAt r e) (jvals m))"
  "countUnreadAppBadgeObservedEvents (Some m) r = length (filter (\<lambda>e. ou_countsTowardAppBadge e \<and> isUnreadAt r e) (jvals m))"
  "countUnreadHighPriorityObservedEvents (Some m) r = length (filter (\<lambda>e. ou_highPriority e \<and> isUnreadAt r e) (jvals m))"
proof -
  have if_and: "(if \<not> P then n else if Q then n + 1 else n) = (if P \<and> Q then n + 1 else n)" for P Q and n :: nat by simp
  show "countUnreadObservedEvents (Some m) r = length (filter (isUnreadAt r) (jvals m))"
    "countUnreadBadgeObservedEvents (Some m) r = length (filter (\<lambda>e. ou_countsTowardBadge e \<and> isUnreadAt r e) (jvals m))"
    "countUnreadAppBadgeObservedEvents (Some m) r = length (filter (\<lambda>e. ou_countsTowardAppBadge e \<and> isUnreadAt r e) (jvals m))"
    "countUnreadHighPriorityObservedEvents (Some m) r = length (filter (\<lambda>e. ou_highPriority e \<and> isUnreadAt r e) (jvals m))"
    unfolding countUnreadObservedEvents_def countUnreadBadgeObservedEvents_def countUnreadAppBadgeObservedEvents_def
      countUnreadHighPriorityObservedEvents_def option.case if_and fold_count by simp_all
qed

text \<open>An event is unread when it is newer than each of its markers.\<close>

definition after :: "int \<Rightarrow> int option \<Rightarrow> bool" where
  "after x marker = (case marker of None \<Rightarrow> True | Some t \<Rightarrow> x > t)"

lemma after_maxReadAt: "after x (maxReadAt ms) \<longleftrightarrow> (\<forall>m\<in>set ms. after x m)"
proof -
  have "after x (foldl (\<lambda>latest marker. case marker of None \<Rightarrow> latest
      | Some m \<Rightarrow> (case latest of None \<Rightarrow> Some m | Some l \<Rightarrow> if m > l then Some m else Some l)) a ms) \<longleftrightarrow>
      after x a \<and> (\<forall>m\<in>set ms. after x m)" for a
  proof (induction ms arbitrary: a)
    case (Cons m ms)
    show ?case
      unfolding foldl_Cons Cons.IH by (cases m; cases a) (auto simp: after_def)
  qed simp
  from this [of None] show ?thesis by (simp add: maxReadAt_def after_def)
qed

lemma unread_iff:
  "isUnreadAt (readAtForObservedEvent m c) e \<longleftrightarrow>
     after (ou_createdAt e) (getEffectiveTimestamp m c) \<and>
     after (ou_createdAt e) (getOwnTimestamp m (''msg:'' @ ou_id e)) \<and>
     (case ou_rootId e of None \<Rightarrow> True | Some root \<Rightarrow> after (ou_createdAt e) (getOwnTimestamp m (''thread:'' @ root)))"
proof -
  have "isUnreadAt r e = after (ou_createdAt e) (r e)" for r by (simp add: isUnreadAt_def after_def)
  then show ?thesis
    by (simp add: readAtForObservedEvent_def observedUnreadEventReadAt_def after_maxReadAt split: option.splits)
qed

lemma effective_iff:
  "after x (getEffectiveTimestamp m c) \<longleftrightarrow>
     after x (getOwnTimestamp m c) \<and>
     (case Option.bind (rm_parentResolver m) (\<lambda>resolver. resolver c) of
        None \<Rightarrow> True | Some p \<Rightarrow> after x (getOwnTimestamp m p))"
  by (cases "rm_parentResolver m")
    (auto simp: getEffectiveTimestamp_def resolveEffectiveTimestamp_def getOwnTimestamp_def maxReadAt_def after_def
      split: option.splits)

lemma own_mark_after:
  assumes "0 < t"
  shows "after x (getOwnTimestamp (fst (snd (markContextRead to_iso k t m w))) k') \<longleftrightarrow>
    after x (getOwnTimestamp m k') \<and> (k' = k \<longrightarrow> x > t)"
  using assms unfolding own_after_mark
  by (auto simp: after_def getOwnTimestamp_def jget_or_def split: option.splits)

lemma mark_resolver: "rm_parentResolver (fst (snd (markContextRead to_iso k t m w))) = rm_parentResolver m"
  by (auto simp: markContextRead_def advanceContext_def split: sum.splits)

text \<open>
  Reading a thread clears exactly its own events: after a thread's marker is advanced to \<open>t\<close>, the
  unread events of a channel are those that were unread before, less the ones of that thread up to
  \<open>t\<close>; so the unread, badge and application-badge counts fall by exactly those.
\<close>

theorem reading_thread_clears_its_events:
  assumes "0 < t" and "c \<noteq> ''thread:'' @ root"
    and "Option.bind (rm_parentResolver m) (\<lambda>resolver. resolver c) \<noteq> Some (''thread:'' @ root)"
  shows "let m' = fst (snd (markContextRead to_iso (''thread:'' @ root) t m w));
      cleared = (\<lambda>e. ou_rootId e = Some root \<and> ou_createdAt e \<le> t);
      remain = filter (\<lambda>e. isUnreadAt (readAtForObservedEvent m c) e \<and> \<not> cleared e) (jvals es) in
    countUnreadObservedEvents (Some es) (readAtForObservedEvent m' c) = length remain \<and>
    countUnreadBadgeObservedEvents (Some es) (readAtForObservedEvent m' c) = length (filter ou_countsTowardBadge remain) \<and>
    countUnreadAppBadgeObservedEvents (Some es) (readAtForObservedEvent m' c) = length (filter ou_countsTowardAppBadge remain)"
proof -
  let ?m = "fst (snd (markContextRead to_iso (''thread:'' @ root) t m w))"
  have "isUnreadAt (readAtForObservedEvent ?m c) = (\<lambda>e. isUnreadAt (readAtForObservedEvent m c) e \<and>
      \<not> (ou_rootId e = Some root \<and> ou_createdAt e \<le> t))"
  proof
    fix e
    show "isUnreadAt (readAtForObservedEvent ?m c) e \<longleftrightarrow> isUnreadAt (readAtForObservedEvent m c) e \<and>
        \<not> (ou_rootId e = Some root \<and> ou_createdAt e \<le> t)"
      unfolding unread_iff effective_iff mark_resolver own_mark_after [OF assms(1)]
      using assms(2,3) by (auto split: option.splits)
  qed
  then show ?thesis by (simp add: counts_filter conj_commute)
qed

definition sample_unread :: observed_map where
  "sample_unread =
     [(''a'', makeObservedUnreadEvent ''a'' 5 (Some ''r'') False None True),
      (''b'', makeObservedUnreadEvent ''b'' 7 None True None False)]"

theorem reading_thread_clears_its_events_witness:
  "let m = fst (newReadStateManager sample_world ''pk'' ''u'' ''h'');
       m' = fst (snd (markContextRead show_int ''thread:r'' 6 m sample_world)) in
   countUnreadObservedEvents (Some sample_unread) (readAtForObservedEvent m ''ch'') = 2 \<and>
   countUnreadObservedEvents (Some sample_unread) (readAtForObservedEvent m' ''ch'') = 1"
proof -
  let ?m = "fst (newReadStateManager sample_world ''pk'' ''u'' ''h'')"
  have fresh: "getOwnTimestamp ?m k = None" "rm_parentResolver ?m = None" for k
    by (simp_all add: newReadStateManager_def case_prod_unfold getOwnTimestamp_def)
  have unread: "isUnreadAt (readAtForObservedEvent ?m ''ch'') e" for e
    unfolding unread_iff effective_iff fresh by (simp add: after_def split: option.splits)
  have keep: "filter (\<lambda>e. isUnreadAt (readAtForObservedEvent ?m ''ch'') e \<and> \<not> (ou_rootId e = Some ''r'' \<and> ou_createdAt e \<le> 6))
      (jvals sample_unread) = [makeObservedUnreadEvent ''b'' 7 None True None False]"
    by (simp add: unread sample_unread_def makeObservedUnreadEvent_def)
  have "countUnreadObservedEvents (Some sample_unread)
      (readAtForObservedEvent (fst (snd (markContextRead show_int (''thread:'' @ ''r'') 6 ?m sample_world))) ''ch'') = 1"
    using reading_thread_clears_its_events [of 6 "''ch''" "''r''" ?m show_int sample_world sample_unread]
    unfolding Let_def keep by (simp add: fresh)
  moreover have "countUnreadObservedEvents (Some sample_unread) (readAtForObservedEvent ?m ''ch'') = 2"
    by (simp add: counts_filter unread sample_unread_def)
  ultimately show ?thesis by simp
qed

subsection \<open>Where the divider goes\<close>

lemma fold_countUnread:
  "fold (\<lambda>m acc. if P m then countUnreadMessage m acc else acc) ms (a, n) =
     (case a of Some i \<Rightarrow> Some i | None \<Rightarrow> map_option tm_id (find P ms), n + length (filter P ms))"
  by (induction ms arbitrary: a n) (auto simp: countUnreadMessage_def split: option.splits)

definition unreadTopLevel :: "int option \<Rightarrow> string option \<Rightarrow> timeline_message \<Rightarrow> bool" where
  "unreadTopLevel frontier own m \<longleftrightarrow>
     \<not> truthy (tm_parentId m) \<and> \<not> isOwnMessage own m \<and> after (tm_createdAt m) frontier"

lemma channel_marker_find:
  "computeChannelUnreadMarker messages frontier False own =
     \<lparr>um_firstUnreadMessageId = map_option tm_id (find (unreadTopLevel frontier own) messages),
      um_unreadCount = length (filter (unreadTopLevel frontier own) messages)\<rparr>"
proof -
  have "fold (\<lambda>message acc.
        if truthy (tm_parentId message) then acc
        else if isOwnMessage own message then acc
        else if \<not> (case frontier of None \<Rightarrow> True | Some f \<Rightarrow> tm_createdAt message > f) then acc
        else countUnreadMessage message acc) messages (None, 0) =
      fold (\<lambda>m acc. if unreadTopLevel frontier own m then countUnreadMessage m acc else acc) messages (None, 0)"
    by (rule fold_cong) (auto simp: unreadTopLevel_def after_def)
  also have "\<dots> = (map_option tm_id (find (unreadTopLevel frontier own) messages),
      length (filter (unreadTopLevel frontier own) messages))"
    by (simp add: fold_countUnread)
  finally show ?thesis
    by (auto simp: computeChannelUnreadMarker_def EMPTY_MARKER_def find_None_iff)
qed

text \<open>
  The divider of a channel stands above the first unread message of someone else: everything before
  it is read, a reply or one's own, and the count is of the unread messages from there on.
\<close>

lemma channel_marker_split:
  assumes "um_firstUnreadMessageId (computeChannelUnreadMarker messages frontier False own) = Some i"
  shows "\<exists>pre m post. messages = pre @ m # post \<and> tm_id m = i \<and> unreadTopLevel frontier own m \<and>
    (\<forall>x\<in>set pre. \<not> unreadTopLevel frontier own x) \<and>
    um_unreadCount (computeChannelUnreadMarker messages frontier False own) =
      length (filter (unreadTopLevel frontier own) (m # post))"
proof -
  let ?P = "unreadTopLevel frontier own"
  obtain m where m: "find ?P messages = Some m" "tm_id m = i"
    using assms by (auto simp: channel_marker_find)
  then obtain k where k: "k < length messages" "?P (messages ! k)" "messages ! k = m" "\<forall>j<k. \<not> ?P (messages ! j)"
    by (auto simp: find_Some_iff)
  have split: "messages = take k messages @ m # drop (Suc k) messages" using id_take_nth_drop [OF k(1)] k(3) by simp
  have pre: "\<forall>x\<in>set (take k messages). \<not> ?P x" using k by (auto simp: in_set_conv_nth)
  have "filter ?P messages = filter ?P (m # drop (Suc k) messages)"
    using pre by (subst split) simp
  then show ?thesis using split m(2) k pre by (auto simp: channel_marker_find)
qed

lemma mapsEqual_iff: "jwf a \<Longrightarrow> jwf b \<Longrightarrow> mapsEqual a b \<longleftrightarrow> map_of a = map_of b"
proof
  assume wf: "jwf a" "jwf b"
  assume eq: "mapsEqual a b"
  then have "set a \<subseteq> set b" using wf by (auto simp: mapsEqual_def list_all_iff jget_in_set [symmetric])
  moreover have "card (set a) = card (set b)"
    using eq wf by (metis distinct_card distinct_map jwf_def mapsEqual_def)
  ultimately have "set a = set b" by (simp add: card_subset_eq)
  then show "map_of a = map_of b" using wf by (simp add: jwf_def map_of_inject_set)
next
  assume wf: "jwf a" "jwf b" and eq: "map_of a = map_of b"
  then have "set a = set b" by (simp add: jwf_def map_of_inject_set)
  then have "length a = length b" using wf by (metis distinct_card distinct_map jwf_def)
  then show "mapsEqual a b" using wf \<open>set a = set b\<close> by (auto simp: mapsEqual_def list_all_iff jwf_def)
qed

end
