(* ===== verification/Timeout.thy ===== *)
theory Timeout
  imports Json
begin

text \<open>
  Community timeouts (\<open>features/moderation/lib/timeout.ts\<close>, \<open>timeoutStore.ts\<close>): the composer learns
  that the member is timed out from the text of a send rejection, keeps the expiry in a store with
  listeners and shows a countdown. \<open>Date.now()\<close> is the argument \<open>nowMs\<close>; \<open>Number.parseInt\<close> is
  \<open>js_parseInt\<close>, with \<open>None\<close> for \<open>NaN\<close>. Milliseconds are exact integers, as the doubles of the source
  are for every expiry before the year 280000.
\<close>

subsection \<open>The rejection message\<close>

definition TIMEOUT_PREFIX :: string where
  "TIMEOUT_PREFIX = ''restricted: you are timed out until''"

definition TIMEOUT_PRESETS :: "(string \<times> int) list" where
  "TIMEOUT_PRESETS = [(''1 hour'', 60 * 60), (''24 hours'', 24 * 60 * 60), (''7 days'', 7 * 24 * 60 * 60)]"

definition timeoutExpiresAt :: "int \<Rightarrow> int \<Rightarrow> int" where
  "timeoutExpiresAt seconds nowMs = nowMs div 1000 + seconds"

definition js_digits :: "string \<Rightarrow> int option" where
  "js_digits s = (let ds = takeWhile is_digit s in if ds = [] then None else Some (int (nat_of_digits ds)))"

definition js_parseInt :: "string \<Rightarrow> int option" where
  "js_parseInt str =
     (case dropWhile js_space str of
        [] \<Rightarrow> None
      | c # rest \<Rightarrow>
          if c = CHR ''-'' then map_option uminus (js_digits rest)
          else if c = CHR ''+'' then js_digits rest
          else js_digits (c # rest))"

definition MAX_SAFE_INTEGER :: int where "MAX_SAFE_INTEGER = 2 ^ 53 - 1"

definition isSafeInteger :: "int \<Rightarrow> bool" where
  "isSafeInteger n \<longleftrightarrow> - MAX_SAFE_INTEGER \<le> n \<and> n \<le> MAX_SAFE_INTEGER"

record timeout_rejection =
  tr_expiresAtMs :: "int option"

definition parseTimeoutRejection :: "string option \<Rightarrow> timeout_rejection option" where
  "parseTimeoutRejection message =
     (if \<not> truthy message then None
      else
        let trimmed = js_trim (the message) in
        if \<not> startsWith trimmed TIMEOUT_PREFIX then None
        else
          let rest = js_trim (drop (length TIMEOUT_PREFIX) trimmed) in
          case js_parseInt rest of
            None \<Rightarrow> Some \<lparr>tr_expiresAtMs = None\<rparr>
          | Some seconds \<Rightarrow>
              if \<not> isSafeInteger seconds \<or> seconds \<le> 0 then Some \<lparr>tr_expiresAtMs = None\<rparr>
              else Some \<lparr>tr_expiresAtMs = Some (seconds * 1000)\<rparr>)"

definition isTimeoutActive :: "int option \<Rightarrow> int \<Rightarrow> bool" where
  "isTimeoutActive expiresAtMs nowMs = (case expiresAtMs of None \<Rightarrow> True | Some e \<Rightarrow> e > nowMs)"

definition js_ceil_div :: "int \<Rightarrow> int \<Rightarrow> int" where
  "js_ceil_div a b = - ((- a) div b)"

definition formatTimeoutRemaining :: "int option \<Rightarrow> int \<Rightarrow> string option" where
  "formatTimeoutRemaining expiresAtMs nowMs =
     (case expiresAtMs of
        None \<Rightarrow> None
      | Some e \<Rightarrow>
          (let totalSeconds = js_ceil_div (e - nowMs) 1000 in
           if totalSeconds \<le> 0 then None
           else
             let hours = totalSeconds div 3600;
                 minutes = (totalSeconds mod 3600) div 60;
                 seconds = totalSeconds mod 60
             in if hours > 0 then Some (show_int hours @ ''h '' @ show_int minutes @ ''m'')
                else if minutes > 0 then Some (show_int minutes @ ''m '' @ show_int seconds @ ''s'')
                else Some (show_int seconds @ ''s'')))"

subsection \<open>The store\<close>

record timeout_state =
  to_active :: bool
  to_expiresAtMs :: "int option"

record timeout_store =
  ms_expiresAtMs :: "int option"
  ms_active :: bool
  ms_listeners :: "nat list"
  ms_snapshot :: timeout_state
  ms_notified :: "nat list"

definition INACTIVE :: timeout_state where
  "INACTIVE = \<lparr>to_active = False, to_expiresAtMs = None\<rparr>"

definition emptyTimeoutStore :: timeout_store where
  "emptyTimeoutStore = \<lparr>ms_expiresAtMs = None, ms_active = False, ms_listeners = [],
     ms_snapshot = \<lparr>to_active = False, to_expiresAtMs = None\<rparr>, ms_notified = []\<rparr>"

definition emitTimeout :: "timeout_store \<Rightarrow> timeout_store" where
  "emitTimeout s =
     s\<lparr>ms_snapshot := \<lparr>to_active = ms_active s, to_expiresAtMs = ms_expiresAtMs s\<rparr>,
       ms_notified := ms_notified s @ ms_listeners s\<rparr>"

definition subscribeTimeout :: "nat \<Rightarrow> timeout_store \<Rightarrow> timeout_store" where
  "subscribeTimeout listener s = s\<lparr>ms_listeners := sadd (ms_listeners s) listener\<rparr>"

definition unsubscribeTimeout :: "nat \<Rightarrow> timeout_store \<Rightarrow> timeout_store" where
  "unsubscribeTimeout listener s = s\<lparr>ms_listeners := removeAll listener (ms_listeners s)\<rparr>"

definition recordTimeoutFromRejection :: "string option \<Rightarrow> timeout_store \<Rightarrow> bool \<times> timeout_store" where
  "recordTimeoutFromRejection message s =
     (case parseTimeoutRejection message of
        None \<Rightarrow> (False, s)
      | Some rejection \<Rightarrow>
          (True, emitTimeout (s\<lparr>ms_expiresAtMs := tr_expiresAtMs rejection, ms_active := True\<rparr>)))"

definition clearTimeoutState :: "timeout_store \<Rightarrow> timeout_store" where
  "clearTimeoutState s =
     (if \<not> ms_active s \<and> ms_expiresAtMs s = None then s
      else emitTimeout (s\<lparr>ms_expiresAtMs := None, ms_active := False\<rparr>))"

definition getTimeoutSnapshot :: "timeout_store \<Rightarrow> timeout_state" where
  "getTimeoutSnapshot s = ms_snapshot s"

definition currentState :: "timeout_state \<Rightarrow> int \<Rightarrow> timeout_state" where
  "currentState state nowMs =
     (if \<not> to_active state then INACTIVE
      else if \<not> isTimeoutActive (to_expiresAtMs state) nowMs then INACTIVE
      else state)"

subsection \<open>Parsing a rejection\<close>

lemma digit_not_space: "is_digit c \<Longrightarrow> \<not> js_space c"
  by (auto simp: is_digit_def js_space_def Let_def)

lemma js_trim_id:
  assumes "s \<noteq> []" and "\<not> js_space (hd s)" and "\<not> js_space (last s)"
  shows "js_trim s = s"
proof -
  have "dropWhile js_space s = s" using assms by (cases s) auto
  moreover have "dropWhile js_space (rev s) = rev s" using assms by (cases "rev s") (auto simp: last_rev [symmetric] hd_rev)
  ultimately show ?thesis by (simp add: js_trim_def)
qed

lemma js_trim_lead: "js_space c \<Longrightarrow> js_trim (c # s) = js_trim s"
  by (simp add: js_trim_def)

lemma parseInt_show_nat: "js_parseInt (show_nat n) = Some (int n)"
proof -
  obtain c cs where s: "show_nat n = c # cs" by (cases "show_nat n") auto
  have digits: "\<forall>c\<in>set (show_nat n). is_digit c" by (rule show_nat_digits)
  then have c: "is_digit c" "\<not> js_space c" "c \<noteq> CHR ''-''" "c \<noteq> CHR ''+''"
    by (auto simp: s digit_not_space) (auto simp: is_digit_def Let_def)
  have tw: "takeWhile is_digit cs = cs" using digits by (simp add: s takeWhile_eq_all_conv)
  show ?thesis
    using c nat_of_digits_show_nat [of n] by (simp add: js_parseInt_def s js_digits_def tw)
qed

lemma parse_relay_refusal:
  assumes "0 < n" and "int n \<le> MAX_SAFE_INTEGER"
  shows "parseTimeoutRejection (Some (TIMEOUT_PREFIX @ '' '' @ show_nat n)) = Some \<lparr>tr_expiresAtMs = Some (int n * 1000)\<rparr>"
proof -
  let ?msg = "TIMEOUT_PREFIX @ '' '' @ show_nat n"
  have digits: "is_digit (last (show_nat n))" "is_digit (hd (show_nat n))"
    using show_nat_digits [of n] by (simp_all add: last_in_set hd_in_set)
  have "js_trim ?msg = ?msg"
    using digit_not_space [OF digits(1)]
    by (intro js_trim_id) (simp, simp add: TIMEOUT_PREFIX_def js_space_def, simp)
  moreover have "js_trim (show_nat n) = show_nat n" using digits by (intro js_trim_id) (simp_all add: digit_not_space)
  then have "js_trim (drop (length TIMEOUT_PREFIX) ?msg) = show_nat n"
    by (simp add: js_trim_lead js_space_def)
  ultimately show ?thesis
    using assms by (simp add: parseTimeoutRejection_def truthy_def parseInt_show_nat isSafeInteger_def MAX_SAFE_INTEGER_def)
qed

subsection \<open>A timeout blocks until it expires\<close>

lemma js_ceil_div_pos: "0 < b \<Longrightarrow> 0 < js_ceil_div a b \<longleftrightarrow> 0 < a"
  by (simp add: js_ceil_div_def pos_imp_zdiv_neg_iff)

lemma remaining_iff: "formatTimeoutRemaining (Some e) nowMs \<noteq> None \<longleftrightarrow> nowMs < e"
  using js_ceil_div_pos [of 1000 "e - nowMs"] by (simp add: formatTimeoutRemaining_def not_le [symmetric])

text \<open>
  The relay's refusal is understood and enforced: after a send is refused with an expiry, the
  member is shown as timed out, with a countdown, exactly until that expiry; every listener is told;
  an accepted send lifts the block at once; and any message without the relay's prefix leaves the
  store as it was.
\<close>

theorem timeout_blocks_until_expiry:
  assumes "0 < n" and "int n \<le> MAX_SAFE_INTEGER"
  shows "let (recorded, s') = recordTimeoutFromRejection (Some (TIMEOUT_PREFIX @ '' '' @ show_nat n)) s;
      shown = currentState (getTimeoutSnapshot s') nowMs in
    recorded \<and> (to_active shown \<longleftrightarrow> nowMs < int n * 1000) \<and>
    (formatTimeoutRemaining (to_expiresAtMs shown) nowMs \<noteq> None \<longleftrightarrow> nowMs < int n * 1000) \<and>
    ms_notified s' = ms_notified s @ ms_listeners s \<and>
    currentState (getTimeoutSnapshot (clearTimeoutState s')) nowMs = INACTIVE \<and>
    (\<not> startsWith (js_trim other) TIMEOUT_PREFIX \<longrightarrow> recordTimeoutFromRejection (Some other) s = (False, s))"
proof -
  have recorded: "recordTimeoutFromRejection (Some (TIMEOUT_PREFIX @ '' '' @ show_nat n)) s =
      (True, emitTimeout (s\<lparr>ms_expiresAtMs := Some (int n * 1000), ms_active := True\<rparr>))"
    unfolding recordTimeoutFromRejection_def parse_relay_refusal [OF assms] by simp
  have "recordTimeoutFromRejection (Some other) s = (False, s)" if "\<not> startsWith (js_trim other) TIMEOUT_PREFIX"
    using that by (simp add: recordTimeoutFromRejection_def parseTimeoutRejection_def)
  then show ?thesis
    unfolding recorded Let_def prod.case using remaining_iff [of "int n * 1000" nowMs]
    by (simp add: getTimeoutSnapshot_def emitTimeout_def currentState_def isTimeoutActive_def INACTIVE_def
        clearTimeoutState_def formatTimeoutRemaining_def [of None])
qed

theorem timeout_blocks_until_expiry_witness:
  "to_active (currentState (getTimeoutSnapshot
     (snd (recordTimeoutFromRejection (Some (TIMEOUT_PREFIX @ '' '' @ show_nat 9)) emptyTimeoutStore))) 8999)"
proof -
  have "0 < (9 :: nat)" "int 9 \<le> MAX_SAFE_INTEGER" by (simp_all add: MAX_SAFE_INTEGER_def)
  from timeout_blocks_until_expiry [OF this, of emptyTimeoutStore 8999 "''other''"] show ?thesis
    by (simp add: case_prod_unfold)
qed

end
