(* ===== verification/Identity.thy ===== *)
theory Identity
  imports ThreadPanel
begin

text \<open>
  Who an event is from and what a member is called: the author of an event
  (\<open>shared/lib/authors.ts\<close>), the labels of members and of an agent's owner
  (\<open>features/profile/lib/identity.ts\<close>), the short form of a key (\<open>shared/lib/pubkey.ts\<close>) and the
  names a message mentions (\<open>shared/lib/resolveMentionNames.ts\<close>).

  The character between the two halves of a short key is U+2026, outside the code units the model
  keeps; it is the argument \<open>ell\<close> of every definition that shows a short key. A profile lookup is
  a map from lower-case keys to profiles.
\<close>

type_synonym profile_lookup = "(string, profile_summary) jsmap"

subsection \<open>Keys\<close>

definition hex_char :: "char \<Rightarrow> bool" where
  "hex_char c = (let n = of_char c :: nat in
     (48 \<le> n \<and> n \<le> 57) \<or> (65 \<le> n \<and> n \<le> 70) \<or> (97 \<le> n \<and> n \<le> 102))"

definition PUBKEY_HEX_RE :: "string \<Rightarrow> bool" where
  "PUBKEY_HEX_RE s = (length s = 64 \<and> list_all hex_char s)"

definition truncatePubkey :: "string \<Rightarrow> string \<Rightarrow> string" where
  "truncatePubkey ell pubkey =
     (if length pubkey \<le> 12 then pubkey
      else take 8 pubkey @ ell @ drop (length pubkey - 4) pubkey)"

subsection \<open>The author of an event\<close>

definition normalizeValidPubkey :: "string option \<Rightarrow> string option" where
  "normalizeValidPubkey pubkey =
     (if \<not> truthy pubkey then None
      else
        let normalized = normalizePubkey (the pubkey) in
        if PUBKEY_HEX_RE normalized then Some normalized else None)"

fun firstTagged :: "string \<Rightarrow> string list list \<Rightarrow> string option" where
  "firstTagged tagName [] = None"
| "firstTagged tagName (tag # tags) =
     (let taggedPubkey = (if jsat tag 0 = Some tagName then map_option toLowerCase (jsat tag 1) else None) in
      if truthy taggedPubkey \<and> PUBKEY_HEX_RE (the taggedPubkey) then taggedPubkey
      else firstTagged tagName tags)"

definition getTaggedPubkey :: "string list list \<Rightarrow> string \<Rightarrow> bool \<Rightarrow> string option" where
  "getTaggedPubkey tags tagName firstTagOnly =
     firstTagged tagName (if firstTagOnly then take 1 tags else tags)"

definition resolveEventAuthorPubkey ::
  "relay_event \<Rightarrow> bool \<Rightarrow> string option \<Rightarrow> bool \<Rightarrow> string" where
  "resolveEventAuthorPubkey event preferActorTag relaySelfPubkey requireChannelTagForPTags =
     (let signerPubkey = normalizePubkey (ev_pubkey event);
          normalizedRelaySelf = normalizeValidPubkey relaySelfPubkey
      in if \<not> truthy normalizedRelaySelf \<or> Some signerPubkey \<noteq> normalizedRelaySelf then signerPubkey
         else
           let fromActor = (if preferActorTag then getTaggedPubkey (ev_tags event) ''actor'' False else None);
               canUseAttributedPTag =
                 (\<not> requireChannelTagForPTags \<or> list_ex (\<lambda>tag. jsat tag 0 = Some ''h'') (ev_tags event));
               attributedPubkey =
                 (if \<not> truthy fromActor \<and> canUseAttributedPTag
                  then getTaggedPubkey (ev_tags event) ''p'' True else fromActor)
           in if \<not> truthy attributedPubkey then signerPubkey else the attributedPubkey)"

subsection \<open>Labels\<close>

definition profile_of :: "profile_lookup option \<Rightarrow> string \<Rightarrow> profile_summary option" where
  "profile_of profiles key = Option.bind profiles (\<lambda>lookup. jget lookup key)"

definition trimmed :: "string option \<Rightarrow> string option" where
  "trimmed s = map_option js_trim s"

definition profileLookupsEqual :: "profile_lookup \<Rightarrow> profile_lookup \<Rightarrow> bool" where
  "profileLookupsEqual a b =
     (length (jkeys a) = length (jkeys b) \<and>
      list_all (\<lambda>key.
          case (jget a key, jget b key) of
            (Some prev, Some nxt) \<Rightarrow>
              pr_displayName prev = pr_displayName nxt \<and> pr_name prev = pr_name nxt \<and>
              pr_avatarUrl prev = pr_avatarUrl nxt \<and> pr_nip05Handle prev = pr_nip05Handle nxt \<and>
              pr_ownerPubkey prev = pr_ownerPubkey nxt \<and> pr_isAgent prev = pr_isAgent nxt
          | _ \<Rightarrow> False)
        (jkeys a))"

definition getResolvedProfile :: "string \<Rightarrow> profile_lookup option \<Rightarrow> profile_summary option" where
  "getResolvedProfile pubkey profiles = profile_of profiles (normalizePubkey pubkey)"

record current_profile =
  cp_pubkey :: string
  cp_displayName :: "string option"
  cp_avatarUrl :: "string option"
  cp_nip05Handle :: "string option"

definition mergeCurrentProfileIntoLookup ::
  "profile_lookup option \<Rightarrow> current_profile option \<Rightarrow> profile_lookup option" where
  "mergeCurrentProfileIntoLookup profiles currentProfile =
     (case currentProfile of
        None \<Rightarrow> profiles
      | Some current \<Rightarrow>
          (let key = normalizePubkey (cp_pubkey current);
               known = profile_of profiles key
           in Some (jset (case profiles of Some lookup \<Rightarrow> lookup | None \<Rightarrow> []) key
                \<lparr>pr_displayName = cp_displayName current,
                 pr_name = Option.bind known pr_name,
                 pr_avatarUrl = cp_avatarUrl current,
                 pr_nip05Handle = cp_nip05Handle current,
                 pr_ownerPubkey = Option.bind known pr_ownerPubkey,
                 pr_isAgent = Option.bind known pr_isAgent\<rparr>)))"

definition resolveUserLabel ::
  "string \<Rightarrow> string \<Rightarrow> string option \<Rightarrow> string option \<Rightarrow> profile_lookup option \<Rightarrow> bool \<Rightarrow> string" where
  "resolveUserLabel ell pubkey currentAgentId fallbackName profiles preferResolvedSelfLabel =
     (if (case currentAgentId of None \<Rightarrow> False
          | Some agent \<Rightarrow> normalizePubkey agent = normalizePubkey pubkey) \<and> \<not> preferResolvedSelfLabel
      then ''You''
      else
        let profile = getResolvedProfile pubkey profiles;
            displayName = trimmed (Option.bind profile pr_displayName);
            nip05Handle = trimmed (Option.bind profile pr_nip05Handle);
            safeFallback = trimmed fallbackName
        in if truthy displayName then the displayName
           else if truthy nip05Handle then the nip05Handle
           else if truthy safeFallback then the safeFallback
           else truncatePubkey ell pubkey)"

definition ownsAuthorAgent :: "profile_summary option \<Rightarrow> string option \<Rightarrow> bool" where
  "ownsAuthorAgent profile currentAgentId =
     (truthy currentAgentId \<and> truthy (Option.bind profile pr_ownerPubkey) \<and>
      normalizePubkey (the (Option.bind profile pr_ownerPubkey)) = normalizePubkey (the currentAgentId))"

definition resolveUserSecondaryLabel :: "string \<Rightarrow> profile_lookup option \<Rightarrow> string option" where
  "resolveUserSecondaryLabel pubkey profiles =
     (let profile = getResolvedProfile pubkey profiles;
          displayName = trimmed (Option.bind profile pr_displayName);
          nip05Handle = trimmed (Option.bind profile pr_nip05Handle)
      in if truthy displayName \<and> truthy nip05Handle then nip05Handle else None)"

definition formatOwnerLabel ::
  "string \<Rightarrow> string option \<Rightarrow> string option \<Rightarrow> profile_lookup option \<Rightarrow> string option" where
  "formatOwnerLabel ell ownerPubkey currentAgentId ownerProfiles =
     (if \<not> truthy ownerPubkey then None
      else
        let normalizedOwnerPubkey = normalizePubkey (the ownerPubkey) in
        if truthy currentAgentId \<and> normalizedOwnerPubkey = normalizePubkey (the currentAgentId)
        then Some ''you''
        else
          let owner = profile_of ownerProfiles normalizedOwnerPubkey;
              displayName = trimmed (Option.bind owner pr_displayName);
              nip05Handle = trimmed (Option.bind owner pr_nip05Handle)
          in if truthy displayName then displayName
             else if truthy nip05Handle then nip05Handle
             else Some (truncatePubkey ell (the ownerPubkey)))"

subsection \<open>Mentions\<close>

definition getMentionTagPubkey :: "string list \<Rightarrow> string option" where
  "getMentionTagPubkey tag =
     (if (jsat tag 0 \<noteq> Some ''p'' \<and> jsat tag 0 \<noteq> Some ''mention'') \<or> \<not> truthy (jsat tag 1) then None
      else Some (toLowerCase (the (jsat tag 1))))"

definition nip05Local :: "string option \<Rightarrow> string option" where
  "nip05Local handle = map_option (\<lambda>h. js_trim (takeWhile (\<lambda>c. c \<noteq> CHR ''@'') (js_trim h))) handle"

definition collectProfileAliases :: "profile_summary option \<Rightarrow> string list" where
  "collectProfileAliases profile =
     (case profile of
        None \<Rightarrow> []
      | Some pr \<Rightarrow>
          (let displayName = trimmed (pr_displayName pr);
               name = trimmed (pr_name pr);
               local_part = nip05Local (pr_nip05Handle pr)
           in (if truthy displayName then [the displayName] else []) @
              (if truthy name then [the name] else []) @
              (if truthy local_part \<and> local_part \<noteq> Some ''_'' then [the local_part] else [])))"

definition addAlias ::
  "string \<Rightarrow> string \<Rightarrow> string list \<times> (string, string) jsmap \<Rightarrow> string list \<times> (string, string) jsmap" where
  "addAlias pubkey alias acc =
     (case acc of (names, pubkeysByName) \<Rightarrow>
        (sadd names alias, jset pubkeysByName (toLowerCase alias) pubkey))"

definition mentionStep ::
  "profile_lookup \<Rightarrow> string list \<Rightarrow> string list \<times> (string, string) jsmap \<Rightarrow> string list \<times> (string, string) jsmap" where
  "mentionStep profiles tag acc =
     (case getMentionTagPubkey tag of
        None \<Rightarrow> acc
      | Some pubkey \<Rightarrow>
          fold (addAlias pubkey) (collectProfileAliases (jget profiles pubkey)) acc)"

definition resolveMentionProps ::
  "string list list option \<Rightarrow> profile_lookup option \<Rightarrow> string list option \<times> (string, string) jsmap option" where
  "resolveMentionProps tags profiles =
     (case (profiles, tags) of
        (Some lookup, Some ts) \<Rightarrow>
          (case fold (mentionStep lookup) ts ([], []) of
             (names, pubkeysByName) \<Rightarrow>
               (if names = [] then None else Some names,
                if pubkeysByName = [] then None else Some pubkeysByName))
      | _ \<Rightarrow> (None, None))"

definition resolveMentionNames :: "string list list option \<Rightarrow> profile_lookup option \<Rightarrow> string list option" where
  "resolveMentionNames tags profiles = fst (resolveMentionProps tags profiles)"

definition resolveMentionPubkeysByName ::
  "string list list option \<Rightarrow> profile_lookup option \<Rightarrow> (string, string) jsmap option" where
  "resolveMentionPubkeysByName tags profiles = snd (resolveMentionProps tags profiles)"

subsection \<open>Laws\<close>

lemma firstTagged_SomeD:
  assumes "firstTagged name tags = Some p"
  shows "PUBKEY_HEX_RE p \<and> p \<noteq> [] \<and> (\<exists>tag\<in>set tags. jsat tag 0 = Some name \<and> map_option toLowerCase (jsat tag 1) = Some p)"
  using assms by (induction tags) (auto simp: truthy_def split: if_splits option.splits)

lemma take_1_conv: "take (Suc 0) xs = (case xs of [] \<Rightarrow> [] | x # _ \<Rightarrow> [x])"
  by (cases xs) simp_all

lemma author_of_other_signer:
  assumes "normalizeValidPubkey relaySelf \<noteq> Some (normalizePubkey (ev_pubkey event))"
  shows "resolveEventAuthorPubkey event prefer relaySelf require = normalizePubkey (ev_pubkey event)"
  using assms by (auto simp: resolveEventAuthorPubkey_def truthy_def)

lemma author_signer_or_tagged:
  "resolveEventAuthorPubkey event prefer relaySelf require = normalizePubkey (ev_pubkey event) \<or>
   normalizeValidPubkey relaySelf = Some (normalizePubkey (ev_pubkey event)) \<and>
   PUBKEY_HEX_RE (resolveEventAuthorPubkey event prefer relaySelf require) \<and>
   (\<exists>tag\<in>set (ev_tags event). jsat tag 0 \<in> {Some ''actor'', Some ''p''} \<and>
      map_option toLowerCase (jsat tag 1) = Some (resolveEventAuthorPubkey event prefer relaySelf require))"
proof (cases "resolveEventAuthorPubkey event prefer relaySelf require = normalizePubkey (ev_pubkey event)")
  case False
  define author where "author = resolveEventAuthorPubkey event prefer relaySelf require"
  have relay: "normalizeValidPubkey relaySelf = Some (normalizePubkey (ev_pubkey event))"
    using False author_of_other_signer by blast
  have "firstTagged ''actor'' (ev_tags event) = Some author \<or> firstTagged ''p'' (take 1 (ev_tags event)) = Some author"
    using False unfolding author_def resolveEventAuthorPubkey_def getTaggedPubkey_def Let_def
    by (auto simp: truthy_def split: if_splits option.splits)
  then have "PUBKEY_HEX_RE author \<and> (\<exists>tag\<in>set (ev_tags event). jsat tag 0 \<in> {Some ''actor'', Some ''p''} \<and>
      map_option toLowerCase (jsat tag 1) = Some author)"
    using firstTagged_SomeD [of "''actor''" "ev_tags event" author]
      firstTagged_SomeD [of "''p''" "take 1 (ev_tags event)" author] set_take_subset [of 1 "ev_tags event"]
    by fast
  with relay show ?thesis unfolding author_def by blast
qed simp

lemma profileLookupsEqual_iff:
  assumes "jwf a" and "jwf b"
  shows "profileLookupsEqual a b \<longleftrightarrow> (\<forall>key. jget a key = jget b key)"
proof -
  have same: "(case (x, y) of (Some prev, Some nxt) \<Rightarrow>
              pr_displayName prev = pr_displayName nxt \<and> pr_name prev = pr_name nxt \<and>
              pr_avatarUrl prev = pr_avatarUrl nxt \<and> pr_nip05Handle prev = pr_nip05Handle nxt \<and>
              pr_ownerPubkey prev = pr_ownerPubkey nxt \<and> pr_isAgent prev = pr_isAgent nxt
          | _ \<Rightarrow> False) \<longleftrightarrow> x = y \<and> x \<noteq> None" for x y :: "profile_summary option"
    by (cases x; cases y) auto
  have eq: "profileLookupsEqual a b \<longleftrightarrow>
      length (jkeys a) = length (jkeys b) \<and> (\<forall>key\<in>set (jkeys a). jget a key = jget b key)"
    unfolding profileLookupsEqual_def same list_all_iff by (auto simp: map_of_eq_None_iff)
  have lens: "length (jkeys m) = card (set (jkeys m))" if "jwf m" for m :: profile_lookup
    using that unfolding jwf_def by (metis distinct_card)
  show ?thesis
  proof
    assume h: "profileLookupsEqual a b"
    then have "set (jkeys a) \<subseteq> set (jkeys b)" unfolding eq by (metis map_of_eq_None_iff image_set subsetI)
    moreover have "card (set (jkeys a)) = card (set (jkeys b))" using h assms lens eq by metis
    ultimately have "set (jkeys a) = set (jkeys b)" by (simp add: card_subset_eq)
    then show "\<forall>key. jget a key = jget b key" using h unfolding eq by (metis map_of_eq_None_iff image_set)
  next
    assume h: "\<forall>key. jget a key = jget b key"
    then have "set (jkeys a) = set (jkeys b)" by (metis map_of_eq_None_iff image_set set_eqI)
    then show "profileLookupsEqual a b" unfolding eq using h assms lens by metis
  qed
qed

text \<open>Every name the renderer may turn into a chip resolves to a key.\<close>

definition names_resolve :: "string list \<times> (string, string) jsmap \<Rightarrow> bool" where
  "names_resolve acc \<longleftrightarrow> toLowerCase ` set (fst acc) = set (jkeys (snd acc))"

lemma addAlias_resolves: "names_resolve acc \<Longrightarrow> names_resolve (addAlias pubkey alias acc)"
  using jkeys_jset [of "toLowerCase alias" pubkey "snd acc"]
  by (cases acc) (simp add: names_resolve_def addAlias_def)

lemma mentionStep_resolves: "names_resolve acc \<Longrightarrow> names_resolve (mentionStep profiles tag acc)"
  unfolding mentionStep_def
  by (auto split: option.split intro: fold_invariant [where Q = "\<lambda>_. True"] addAlias_resolves)

lemma mention_names_resolve:
  "resolveMentionPubkeysByName tags profiles = None \<longleftrightarrow> resolveMentionNames tags profiles = None"
  "resolveMentionNames tags profiles = Some names \<Longrightarrow>
     \<exists>m. resolveMentionPubkeysByName tags profiles = Some m \<and> (\<forall>n\<in>set names. jget m (toLowerCase n) \<noteq> None)"
proof -
  have "names_resolve (fold (mentionStep lookup) ts ([], []))" for lookup ts
    by (rule fold_invariant [where Q = "\<lambda>_. True"]) (auto simp: mentionStep_resolves, simp add: names_resolve_def)
  then have inv: "toLowerCase ` set ns = set (jkeys m)" if "fold (mentionStep lookup) ts ([], []) = (ns, m)" for lookup ts ns m
    using that unfolding names_resolve_def by (metis fst_conv snd_conv)
  show "resolveMentionPubkeysByName tags profiles = None \<longleftrightarrow> resolveMentionNames tags profiles = None"
    unfolding resolveMentionPubkeysByName_def resolveMentionNames_def resolveMentionProps_def
    by (auto split: option.splits prod.splits dest!: inv)
  show "\<exists>m. resolveMentionPubkeysByName tags profiles = Some m \<and> (\<forall>n\<in>set names. jget m (toLowerCase n) \<noteq> None)"
    if "resolveMentionNames tags profiles = Some names"
    using that unfolding resolveMentionPubkeysByName_def resolveMentionNames_def resolveMentionProps_def
    by (force split: option.splits prod.splits if_splits dest!: inv simp: map_of_eq_None_iff)
qed

end
