(* ===== verification/Timeline.thy ===== *)
theory Timeline
  imports Identity Json
begin

text \<open>
  From the events of a channel to the rows of its timeline
  (\<open>features/messages/lib/formatTimelineMessages.ts\<close>): deletions, edits, reactions, authors and
  thread depths, the count of the rows a batch of events adds, and the keys whose profiles a
  surface has to fetch.

  The optional arguments of \<open>formatTimelineMessages\<close> are the fields of \<open>format_options\<close>. The clock
  text of \<open>Intl.DateTimeFormat\<close> (\<open>formatTime\<close>), \<open>String.localeCompare\<close> and the ellipsis of a short
  key are the arguments \<open>fmt\<close>, \<open>lcmp\<close> and \<open>ell\<close>. The caches that the closures of the function
  share are passed on from row to row.
\<close>

subsection \<open>Data\<close>

record channel_member =
  mb_pubkey :: string
  mb_role :: string
  mb_isAgent :: bool
  mb_joinedAt :: string
  mb_displayName :: "string option"

record format_options =
  fo_channel :: "channel option"
  fo_currentAgentId :: "string option"
  fo_currentUserAvatarUrl :: "string option"
  fo_profiles :: "profile_lookup option"
  fo_members :: "channel_member list option"
  fo_personaLookup :: "(string, string) jsmap option"
  fo_respondToLookup :: "(string, string) jsmap option"
  fo_eventAuthorityAgentId :: "string option"
  fo_ownerProfiles :: "profile_lookup option"

definition KIND_DELETION :: int where "KIND_DELETION = 5"
definition KIND_REACTION :: int where "KIND_REACTION = 7"
definition KIND_STREAM_MESSAGE :: int where "KIND_STREAM_MESSAGE = 9"
definition KIND_NIP29_DELETE_EVENT :: int where "KIND_NIP29_DELETE_EVENT = 9005"
definition KIND_STREAM_MESSAGE_V2 :: int where "KIND_STREAM_MESSAGE_V2 = 40002"
definition KIND_STREAM_MESSAGE_EDIT :: int where "KIND_STREAM_MESSAGE_EDIT = 40003"
definition KIND_STREAM_MESSAGE_DIFF :: int where "KIND_STREAM_MESSAGE_DIFF = 40008"
definition KIND_JOB_REQUEST :: int where "KIND_JOB_REQUEST = 43001"
definition KIND_JOB_ACCEPTED :: int where "KIND_JOB_ACCEPTED = 43002"
definition KIND_JOB_PROGRESS :: int where "KIND_JOB_PROGRESS = 43003"
definition KIND_JOB_RESULT :: int where "KIND_JOB_RESULT = 43004"
definition KIND_JOB_CANCEL :: int where "KIND_JOB_CANCEL = 43005"
definition KIND_JOB_ERROR :: int where "KIND_JOB_ERROR = 43006"

subsection \<open>Which events are rows\<close>

definition isTimelineContentEvent :: "relay_event \<Rightarrow> bool" where
  "isTimelineContentEvent event =
     (ev_kind event = KIND_STREAM_MESSAGE \<or>
      ev_kind event = KIND_STREAM_MESSAGE_V2 \<or>
      ev_kind event = KIND_STREAM_MESSAGE_DIFF \<or>
      ev_kind event = KIND_SYSTEM_MESSAGE \<or>
      ev_kind event = KIND_JOB_REQUEST \<or>
      ev_kind event = KIND_JOB_ACCEPTED \<or>
      ev_kind event = KIND_JOB_PROGRESS \<or>
      ev_kind event = KIND_JOB_RESULT \<or>
      ev_kind event = KIND_JOB_CANCEL \<or>
      ev_kind event = KIND_JOB_ERROR \<or>
      ev_kind event = KIND_HUDDLE_STARTED)"

definition HEX_RE :: "string \<Rightarrow> bool" where
  "HEX_RE s = (s \<noteq> [] \<and> list_all hex_char s)"

definition eventIdTag :: "string list \<Rightarrow> bool" where
  "eventIdTag tag =
     (jsat tag 0 = Some ''e'' \<and>
      (case jsat tag 1 of None \<Rightarrow> False | Some target \<Rightarrow> length target = 64 \<and> HEX_RE target))"

definition getDeletionTargets :: "string list list \<Rightarrow> string list" where
  "getDeletionTargets tags = map (\<lambda>tag. the (jsat tag 1)) (filter eventIdTag tags)"

definition isDeletion :: "relay_event \<Rightarrow> bool" where
  "isDeletion event = (ev_kind event = KIND_DELETION \<or> ev_kind event = KIND_NIP29_DELETE_EVENT)"

definition deletedEventIds :: "relay_event list \<Rightarrow> string list" where
  "deletedEventIds events =
     fold (\<lambda>event ids.
         if isDeletion event
         then fold (\<lambda>target ids. sadd ids target) (getDeletionTargets (ev_tags event)) ids
         else ids)
       events []"

definition countTopLevelTimelineRows :: "relay_event list \<Rightarrow> nat" where
  "countTopLevelTimelineRows events =
     (let deleted = deletedEventIds events in
      fold (\<lambda>event n.
          if \<not> isTimelineContentEvent event \<or> ev_id event \<in> set deleted then n
          else if tr_parentId (getThreadReference (ev_tags event)) = None \<or> isBroadcastReply (ev_tags event)
            then n + 1
          else n)
        events 0)"

definition getReactionTargetId :: "string list list \<Rightarrow> string option" where
  "getReactionTargetId tags =
     (case find eventIdTag (rev tags) of None \<Rightarrow> None | Some tag \<Rightarrow> jsat tag 1)"

subsection \<open>Edits\<close>

record message_edit =
  ed_content :: string
  ed_tags :: "string list list"
  ed_createdAt :: int

definition addEdit ::
  "string list \<Rightarrow> relay_event \<Rightarrow> (string, message_edit) jsmap \<Rightarrow> (string, message_edit) jsmap" where
  "addEdit deleted event edits =
     (if ev_kind event \<noteq> KIND_STREAM_MESSAGE_EDIT \<or> ev_id event \<in> set deleted then edits
      else
        case getReactionTargetId (ev_tags event) of
          None \<Rightarrow> edits
        | Some target \<Rightarrow>
            if target \<in> set deleted then edits
            else if (case jget edits target of
                       None \<Rightarrow> True
                     | Some existing \<Rightarrow> ev_created_at event > ed_createdAt existing)
              then jset edits target
                     \<lparr>ed_content = ev_content event, ed_tags = ev_tags event, ed_createdAt = ev_created_at event\<rparr>
            else edits)"

definition applyEditTagOverlay :: "string list list \<Rightarrow> string list list option \<Rightarrow> string list list" where
  "applyEditTagOverlay originalTags editTags =
     (case editTags of
        None \<Rightarrow> originalTags
      | Some edit \<Rightarrow>
          (let editEmoji = filter (\<lambda>t. jsat t 0 = Some ''emoji'') edit;
               kept = (if length editEmoji > 0
                       then (\<lambda>t. jsat t 0 \<noteq> Some ''imeta'' \<and> jsat t 0 \<noteq> Some ''emoji'')
                       else (\<lambda>t. jsat t 0 \<noteq> Some ''imeta''));
               baseFromOriginal = filter kept originalTags;
               overlaidFromEdit = filter (\<lambda>t. jsat t 0 = Some ''imeta'') edit
           in baseFromOriginal @ overlaidFromEdit @ editEmoji))"

subsection \<open>Reactions\<close>

record reaction_presence =
  rp_targetId :: string
  rp_actorPubkey :: string
  rp_emoji :: string
  rp_emojiUrl :: "string option"
  rp_createdAt :: int

text \<open>The author of an event in this file: the signer, or whom the relay attributes it to.\<close>

definition eventAuthor :: "string option \<Rightarrow> relay_event \<Rightarrow> string" where
  "eventAuthor authority event = resolveEventAuthorPubkey event True authority True"

definition reactionEmoji :: "relay_event \<Rightarrow> string" where
  "reactionEmoji event = (let emoji = js_trim (ev_content event) in if emoji = [] then ''+'' else emoji)"

definition reactionEmojiUrl :: "relay_event \<Rightarrow> string option" where
  "reactionEmojiUrl event =
     (let emoji = reactionEmoji event in
      if startsWith emoji '':'' \<and> last emoji = CHR '':'' then
        let shortcode = drop 1 (butlast emoji) in
        Option.bind
          (find (\<lambda>t. jsat t 0 = Some ''emoji'' \<and> jsat t 1 = Some shortcode \<and> truthy (jsat t 2)) (ev_tags event))
          (\<lambda>t. jsat t 2)
      else None)"

definition presenceKey :: "string \<Rightarrow> string \<Rightarrow> string \<Rightarrow> string" where
  "presenceKey target actorPubkey emoji = target @ '':'' @ actorPubkey @ '':'' @ emoji"

definition addReaction ::
  "string option \<Rightarrow> string list \<Rightarrow> relay_event \<Rightarrow> (string, reaction_presence) jsmap
   \<Rightarrow> (string, reaction_presence) jsmap" where
  "addReaction authority deleted event presence =
     (if ev_kind event \<noteq> KIND_REACTION \<or> ev_id event \<in> set deleted then presence
      else
        case getReactionTargetId (ev_tags event) of
          None \<Rightarrow> presence
        | Some target \<Rightarrow>
            if target \<in> set deleted then presence
            else
              let actorPubkey = toLowerCase (eventAuthor authority event);
                  emoji = reactionEmoji event;
                  key = presenceKey target actorPubkey emoji
              in jset presence key
                   \<lparr>rp_targetId = target, rp_actorPubkey = actorPubkey, rp_emoji = emoji,
                    rp_emojiUrl = reactionEmojiUrl event,
                    rp_createdAt = (case jget presence key of
                        Some prev \<Rightarrow> min (rp_createdAt prev) (ev_created_at event)
                      | None \<Rightarrow> ev_created_at event)\<rparr>)"

record reaction_accum =
  ra_pill :: timeline_reaction
  ra_earliestCreatedAt :: int

definition reactionUser ::
  "string \<Rightarrow> string option \<Rightarrow> profile_lookup option \<Rightarrow> string \<Rightarrow> reaction_user" where
  "reactionUser ell currentAgentIdLower profiles actorPubkey =
     (let profile = profile_of profiles actorPubkey;
          displayName = trimmed (Option.bind profile pr_displayName);
          nip05Handle = trimmed (Option.bind profile pr_nip05Handle)
      in \<lparr>ru_pubkey = actorPubkey,
          ru_displayName =
            (if truthy currentAgentIdLower \<and> currentAgentIdLower = Some actorPubkey then ''You''
             else if truthy displayName then the displayName
             else if truthy nip05Handle then the nip05Handle
             else truncatePubkey ell actorPubkey),
          ru_avatarUrl = Option.bind profile pr_avatarUrl\<rparr>)"

definition addToPill ::
  "string \<Rightarrow> string option \<Rightarrow> profile_lookup option \<Rightarrow> reaction_presence \<Rightarrow> reaction_accum option \<Rightarrow> reaction_accum" where
  "addToPill ell currentAgentIdLower profiles p known =
     (let existing = (case known of Some acc \<Rightarrow> acc
            | None \<Rightarrow>
                \<lparr>ra_pill = \<lparr>re_emoji = rp_emoji p, re_emojiUrl = rp_emojiUrl p, re_count = 0,
                   re_reactedByCurrentUser = Some False, re_users = []\<rparr>,
                 ra_earliestCreatedAt = rp_createdAt p\<rparr>);
          pill = ra_pill existing;
          mine = (truthy currentAgentIdLower \<and> currentAgentIdLower = Some (rp_actorPubkey p))
      in \<lparr>ra_pill = pill\<lparr>re_count := re_count pill + 1,
             re_reactedByCurrentUser := (if mine then Some True else re_reactedByCurrentUser pill),
             re_users := re_users pill @ [reactionUser ell currentAgentIdLower profiles (rp_actorPubkey p)]\<rparr>,
          ra_earliestCreatedAt =
            (if rp_createdAt p < ra_earliestCreatedAt existing then rp_createdAt p
             else ra_earliestCreatedAt existing)\<rparr>)"

definition groupReaction ::
  "string \<Rightarrow> string option \<Rightarrow> profile_lookup option \<Rightarrow> reaction_presence
   \<Rightarrow> (string, (string, reaction_accum) jsmap) jsmap \<Rightarrow> (string, (string, reaction_accum) jsmap) jsmap" where
  "groupReaction ell currentAgentIdLower profiles p byEvent =
     (let current = jget_or byEvent (rp_targetId p) [] in
      jset byEvent (rp_targetId p)
        (jset current (rp_emoji p)
          (addToPill ell currentAgentIdLower profiles p (jget current (rp_emoji p)))))"

definition comparePills :: "(string \<Rightarrow> string \<Rightarrow> int) \<Rightarrow> reaction_accum \<Rightarrow> reaction_accum \<Rightarrow> int" where
  "comparePills lcmp a b =
     (if ra_earliestCreatedAt a \<noteq> ra_earliestCreatedAt b
      then ra_earliestCreatedAt a - ra_earliestCreatedAt b
      else lcmp (re_emoji (ra_pill a)) (re_emoji (ra_pill b)))"

definition rowReactions ::
  "(string \<Rightarrow> string \<Rightarrow> int) \<Rightarrow> (string, (string, reaction_accum) jsmap) jsmap \<Rightarrow> string
   \<Rightarrow> timeline_reaction list option" where
  "rowReactions lcmp reactionsByEventId eventId =
     map_option (\<lambda>reactions. map ra_pill (js_sort (comparePills lcmp) (jvals reactions)))
       (jget reactionsByEventId eventId)"

subsection \<open>Authors\<close>

definition js_indexOf :: "'a list \<Rightarrow> 'a \<Rightarrow> nat option" where
  "js_indexOf xs x = find (\<lambda>i. xs ! i = x) [0..<length xs]"

definition formatMessageAuthor :: "string \<Rightarrow> format_options \<Rightarrow> relay_event \<Rightarrow> string" where
  "formatMessageAuthor ell opts event =
     (let authorPubkey = eventAuthor (fo_eventAuthorityAgentId opts) event;
          fallbackName =
            (case fo_channel opts of
               None \<Rightarrow> None
             | Some channel \<Rightarrow>
                 if ch_channelType channel = ''dm''
                 then Option.bind (js_indexOf (ch_participantPubkeys channel) authorPubkey)
                        (\<lambda>participantIndex. jsat (ch_participants channel) participantIndex)
                 else None)
      in resolveUserLabel ell authorPubkey (fo_currentAgentId opts) fallbackName (fo_profiles opts) True)"

definition getAuthorAvatarUrl ::
  "string \<Rightarrow> string option \<Rightarrow> string option \<Rightarrow> profile_lookup option \<Rightarrow> string option" where
  "getAuthorAvatarUrl authorPubkey currentAgentId currentUserAvatarUrl profiles =
     (if currentAgentId = Some authorPubkey then currentUserAvatarUrl
      else Option.bind (profile_of profiles (toLowerCase authorPubkey)) pr_avatarUrl)"

text \<open>The three maps that the closures fill as the rows are built.\<close>

record row_caches =
  rc_authorPubkeyByEventId :: "(string, string) jsmap"
  rc_authorLabelByEventId :: "(string, string) jsmap"
  rc_depthByEventId :: "(string, int) jsmap"

definition getAuthorLabel ::
  "string \<Rightarrow> format_options \<Rightarrow> relay_event \<Rightarrow> row_caches \<Rightarrow> string \<times> row_caches" where
  "getAuthorLabel ell opts event caches =
     (let cached = jget (rc_authorLabelByEventId caches) (ev_id event) in
      if truthy cached then (the cached, caches)
      else
        let authorPubkey = eventAuthor (fo_eventAuthorityAgentId opts) event;
            author = formatMessageAuthor ell opts event
        in (author,
            caches\<lparr>rc_authorPubkeyByEventId := jset (rc_authorPubkeyByEventId caches) (ev_id event) authorPubkey,
                   rc_authorLabelByEventId := jset (rc_authorLabelByEventId caches) (ev_id event) author\<rparr>))"

subsection \<open>Depths\<close>

text \<open>
  \<open>resolving\<close> is \<open>resolvingEventIds\<close>: the source adds the event before it asks for the depth of the
  parent and removes it after, so the set is an argument of the recursive call.
\<close>

function getDepth ::
  "(string, relay_event) jsmap \<Rightarrow> string list \<Rightarrow> relay_event \<Rightarrow> (string, int) jsmap
   \<Rightarrow> int \<times> (string, int) jsmap" where
  "getDepth eventsById resolving event depths =
     (case jget depths (ev_id event) of
        Some cached \<Rightarrow> (cached, depths)
      | None \<Rightarrow>
          if ev_id event \<in> set resolving then (0, depths)
          else
            let thread = getThreadReference (ev_tags event) in
            if \<not> truthy (tr_parentId thread) then (0, jset depths (ev_id event) 0)
            else
              case jget eventsById (the (tr_parentId thread)) of
                None \<Rightarrow>
                  let fallbackDepth =
                    (if truthy (tr_rootId thread) \<and> tr_rootId thread \<noteq> tr_parentId thread then 2 else 1)
                  in (fallbackDepth, jset depths (ev_id event) fallbackDepth)
              | Some parent \<Rightarrow>
                  case getDepth eventsById (sadd resolving (ev_id event)) parent depths of
                    (d, depths') \<Rightarrow> (d + 1, jset depths' (ev_id event) (d + 1)))"
  by pat_completeness auto

definition unresolved :: "(string, relay_event) jsmap \<Rightarrow> string list \<Rightarrow> relay_event \<Rightarrow> string set" where
  "unresolved eventsById resolving event =
     insert (ev_id event) (ev_id ` set (jvals eventsById)) - set resolving"

lemma unresolved_parent:
  assumes "jget eventsById k = Some parent" and "ev_id event \<notin> set resolving"
  shows "card (unresolved eventsById (sadd resolving (ev_id event)) parent) < card (unresolved eventsById resolving event)"
proof (rule psubset_card_mono)
  show "finite (unresolved eventsById resolving event)" by (simp add: unresolved_def)
  have "ev_id parent \<in> ev_id ` set (jvals eventsById)" using assms(1) by (force dest: map_of_SomeD)
  then have "unresolved eventsById (sadd resolving (ev_id event)) parent \<subseteq> unresolved eventsById resolving event - {ev_id event}"
    by (auto simp: unresolved_def)
  moreover have "ev_id event \<in> unresolved eventsById resolving event" using assms(2) by (simp add: unresolved_def)
  ultimately show "unresolved eventsById (sadd resolving (ev_id event)) parent \<subset> unresolved eventsById resolving event"
    by blast
qed

termination getDepth
  by (relation "measure (\<lambda>(eventsById, resolving, event, depths). card (unresolved eventsById resolving event))")
    (auto simp: unresolved_parent)

declare getDepth.simps [simp del]

subsection \<open>Rows\<close>

record row_tables =
  rt_editsByTargetId :: "(string, message_edit) jsmap"
  rt_eventsById :: "(string, relay_event) jsmap"
  rt_reactionsByEventId :: "(string, (string, reaction_accum) jsmap) jsmap"
  rt_roleByPubkey :: "(string, string) jsmap"

definition formatRow ::
  "string \<Rightarrow> (int \<Rightarrow> string) \<Rightarrow> (string \<Rightarrow> string \<Rightarrow> int) \<Rightarrow> format_options \<Rightarrow> row_tables \<Rightarrow> relay_event \<Rightarrow> row_caches
   \<Rightarrow> timeline_message \<times> row_caches" where
  "formatRow ell fmt lcmp opts tables event caches =
     (case getAuthorLabel ell opts event caches of (author, caches1) \<Rightarrow>
      case getDepth (rt_eventsById tables) [] event (rc_depthByEventId caches1) of (depth, depths) \<Rightarrow>
        let authorPubkey = (case jget (rc_authorPubkeyByEventId caches1) (ev_id event) of
              Some known \<Rightarrow> known
            | None \<Rightarrow> eventAuthor (fo_eventAuthorityAgentId opts) event);
            thread = getThreadReference (ev_tags event);
            edit = jget (rt_editsByTargetId tables) (ev_id event);
            role = jget (rt_roleByPubkey tables) (toLowerCase authorPubkey);
            authorProfile = profile_of (fo_profiles opts) (toLowerCase authorPubkey);
            isAgent = (role = Some ''bot'' \<or> Option.bind authorProfile pr_isAgent = Some True);
            ownerPubkey = (if isAgent then Option.bind authorProfile pr_ownerPubkey else None)
        in (\<lparr>tm_id = ev_id event,
             tm_renderKey = Some (case ev_localKey event of Some k \<Rightarrow> k | None \<Rightarrow> ev_id event),
             tm_createdAt = ev_created_at event,
             tm_pubkey = Some authorPubkey,
             tm_signerPubkey = Some (normalizePubkey (ev_pubkey event)),
             tm_author = author,
             tm_isAgent = Some isAgent,
             tm_ownerPubkey = ownerPubkey,
             tm_ownerLabel =
               (if isAgent then formatOwnerLabel ell ownerPubkey (fo_currentAgentId opts) (fo_ownerProfiles opts)
                else None),
             tm_avatarUrl =
               getAuthorAvatarUrl authorPubkey (fo_currentAgentId opts) (fo_currentUserAvatarUrl opts) (fo_profiles opts),
             tm_role = role,
             tm_personaDisplayName =
               (if role = Some ''bot''
                then Option.bind (fo_personaLookup opts) (\<lambda>lookup. jget lookup (toLowerCase authorPubkey)) else None),
             tm_respondTo =
               (if role = Some ''bot''
                then Option.bind (fo_respondToLookup opts) (\<lambda>lookup. jget lookup (toLowerCase authorPubkey)) else None),
             tm_time = fmt (ev_created_at event),
             tm_body = (case edit of Some e \<Rightarrow> ed_content e | None \<Rightarrow> ev_content event),
             tm_parentId = tr_parentId thread,
             tm_rootId = tr_rootId thread,
             tm_depth = depth,
             tm_accent = Some (fo_currentAgentId opts = Some authorPubkey),
             tm_pending = ev_pending event,
             tm_edited = Some (edit \<noteq> None),
             tm_highlighted = None,
             tm_kind = Some (ev_kind event),
             tm_tags = Some (applyEditTagOverlay (ev_tags event) (map_option ed_tags edit)),
             tm_reactions = rowReactions lcmp (rt_reactionsByEventId tables) (ev_id event)\<rparr>,
            caches1\<lparr>rc_depthByEventId := depths\<rparr>))"

fun formatRows ::
  "string \<Rightarrow> (int \<Rightarrow> string) \<Rightarrow> (string \<Rightarrow> string \<Rightarrow> int) \<Rightarrow> format_options \<Rightarrow> row_tables \<Rightarrow> relay_event list \<Rightarrow> row_caches
   \<Rightarrow> timeline_message list" where
  "formatRows ell fmt lcmp opts tables [] caches = []"
| "formatRows ell fmt lcmp opts tables (event # events) caches =
     (case formatRow ell fmt lcmp opts tables event caches of (row, caches1) \<Rightarrow>
        row # formatRows ell fmt lcmp opts tables events caches1)"

definition visibleEvents :: "relay_event list \<Rightarrow> relay_event list" where
  "visibleEvents events =
     filter (\<lambda>event. isTimelineContentEvent event \<and> ev_id event \<notin> set (deletedEventIds events)) events"

definition rowTables :: "string \<Rightarrow> format_options \<Rightarrow> relay_event list \<Rightarrow> row_tables" where
  "rowTables ell opts events =
     (let deleted = deletedEventIds events;
          reactionPresence = fold (addReaction (fo_eventAuthorityAgentId opts) deleted) events []
      in \<lparr>rt_editsByTargetId = fold (addEdit deleted) events [],
          rt_eventsById = jmap_of (map (\<lambda>event. (ev_id event, event)) (visibleEvents events)),
          rt_reactionsByEventId =
            fold (groupReaction ell (map_option toLowerCase (fo_currentAgentId opts)) (fo_profiles opts))
              (jvals reactionPresence) [],
          rt_roleByPubkey =
            (case fo_members opts of
               None \<Rightarrow> []
             | Some members \<Rightarrow> jmap_of (map (\<lambda>member. (toLowerCase (mb_pubkey member), mb_role member)) members))\<rparr>)"

definition formatTimelineMessages ::
  "string \<Rightarrow> (int \<Rightarrow> string) \<Rightarrow> (string \<Rightarrow> string \<Rightarrow> int) \<Rightarrow> format_options \<Rightarrow> relay_event list \<Rightarrow> timeline_message list" where
  "formatTimelineMessages ell fmt lcmp opts events =
     formatRows ell fmt lcmp opts (rowTables ell opts events) (visibleEvents events)
       \<lparr>rc_authorPubkeyByEventId = [], rc_authorLabelByEventId = [], rc_depthByEventId = []\<rparr>"

subsection \<open>Keys whose profiles a surface needs\<close>

definition jstring_field :: "(string \<times> jsval) list \<Rightarrow> string \<Rightarrow> string list" where
  "jstring_field obj name = (case jfield obj name of Some (JStr s) \<Rightarrow> [toLowerCase s] | _ \<Rightarrow> [])"

definition extractSystemMessagePubkeys :: "relay_event \<Rightarrow> string list" where
  "extractSystemMessagePubkeys event =
     (if ev_kind event \<noteq> KIND_SYSTEM_MESSAGE then []
      else
        case JSON_parse (ev_content event) of
          Some (JObj payload) \<Rightarrow> jstring_field payload ''actor'' @ jstring_field payload ''target''
        | _ \<Rightarrow> [])"

definition saddAll :: "string list \<Rightarrow> string list \<Rightarrow> string list" where
  "saddAll pubkeys s = fold (\<lambda>pk s. sadd s pk) pubkeys s"

definition collectReactionActorPubkeys :: "relay_event list \<Rightarrow> string option \<Rightarrow> string list" where
  "collectReactionActorPubkeys events authority =
     (let deleted =
        fold (\<lambda>event ids.
            if isDeletion event then saddAll (map toLowerCase (getDeletionTargets (ev_tags event))) ids else ids)
          events []
      in fold (\<lambda>event pubkeys.
             if ev_kind event \<noteq> KIND_REACTION \<or> toLowerCase (ev_id event) \<in> set deleted then pubkeys
             else sadd pubkeys (toLowerCase (eventAuthor authority event)))
           events [])"

definition collectMessageAuthorPubkeys :: "relay_event list \<Rightarrow> string option \<Rightarrow> string list" where
  "collectMessageAuthorPubkeys events authority =
     fold (\<lambda>event pubkeys.
         if \<not> isTimelineContentEvent event then pubkeys
         else if ev_kind event = KIND_SYSTEM_MESSAGE then saddAll (extractSystemMessagePubkeys event) pubkeys
         else sadd (sadd pubkeys (toLowerCase (ev_pubkey event))) (toLowerCase (eventAuthor authority event)))
       events []"

definition collectMessageMentionPubkeys :: "string list list option list \<Rightarrow> string list" where
  "collectMessageMentionPubkeys eventTags =
     fold (\<lambda>tags pubkeys.
         fold (\<lambda>tag pubkeys.
             case getMentionTagPubkey tag of None \<Rightarrow> pubkeys | Some pubkey \<Rightarrow> sadd pubkeys pubkey)
           (case tags of Some ts \<Rightarrow> ts | None \<Rightarrow> []) pubkeys)
       eventTags []"

definition collectMessageProfilePubkeys :: "relay_event list \<Rightarrow> string list" where
  "collectMessageProfilePubkeys events =
     saddAll (collectMessageAuthorPubkeys events None
        @ collectMessageMentionPubkeys (map (\<lambda>event. Some (ev_tags event)) events)
        @ collectReactionActorPubkeys events None) []"

subsection \<open>Deletions and rows\<close>

lemma set_deletedEventIds:
  "set (deletedEventIds events) =
     {target. \<exists>event\<in>set events. isDeletion event \<and> target \<in> set (getDeletionTargets (ev_tags event))}"
proof -
  have "set (fold (\<lambda>event ids.
         if isDeletion event
         then fold (\<lambda>target ids. sadd ids target) (getDeletionTargets (ev_tags event)) ids
         else ids) events ids) =
     set ids \<union> {target. \<exists>event\<in>set events. isDeletion event \<and> target \<in> set (getDeletionTargets (ev_tags event))}" for ids
    by (induction events arbitrary: ids) (auto simp: set_fold_sadd)
  then show ?thesis by (simp add: deletedEventIds_def)
qed

lemma content_kinds: "isTimelineContentEvent event \<longleftrightarrow> ev_kind event \<in> set CHANNEL_TIMELINE_CONTENT_KINDS"
  by (auto simp: isTimelineContentEvent_def CHANNEL_TIMELINE_CONTENT_KINDS_def KIND_STREAM_MESSAGE_def
      KIND_STREAM_MESSAGE_V2_def KIND_STREAM_MESSAGE_DIFF_def KIND_SYSTEM_MESSAGE_def KIND_JOB_REQUEST_def
      KIND_JOB_ACCEPTED_def KIND_JOB_PROGRESS_def KIND_JOB_RESULT_def KIND_JOB_CANCEL_def KIND_JOB_ERROR_def
      KIND_HUDDLE_STARTED_def)

lemma formatRow_fields [simp]:
  "tm_id (fst (formatRow ell fmt lcmp opts tables e c)) = ev_id e"
  "tm_createdAt (fst (formatRow ell fmt lcmp opts tables e c)) = ev_created_at e"
  "tm_signerPubkey (fst (formatRow ell fmt lcmp opts tables e c)) = Some (normalizePubkey (ev_pubkey e))"
  "tm_parentId (fst (formatRow ell fmt lcmp opts tables e c)) = tr_parentId (getThreadReference (ev_tags e))"
  "tm_rootId (fst (formatRow ell fmt lcmp opts tables e c)) = tr_rootId (getThreadReference (ev_tags e))"
  "tm_body (fst (formatRow ell fmt lcmp opts tables e c)) =
     (case jget (rt_editsByTargetId tables) (ev_id e) of Some ed \<Rightarrow> ed_content ed | None \<Rightarrow> ev_content e)"
  "tm_edited (fst (formatRow ell fmt lcmp opts tables e c)) = Some (jget (rt_editsByTargetId tables) (ev_id e) \<noteq> None)"
  "tm_tags (fst (formatRow ell fmt lcmp opts tables e c)) =
     Some (applyEditTagOverlay (ev_tags e) (map_option ed_tags (jget (rt_editsByTargetId tables) (ev_id e))))"
  "tm_reactions (fst (formatRow ell fmt lcmp opts tables e c)) = rowReactions lcmp (rt_reactionsByEventId tables) (ev_id e)"
  by (simp_all add: formatRow_def split: prod.split)

lemma formatRows_Cons:
  "formatRows ell fmt lcmp opts tables (e # es) c =
     fst (formatRow ell fmt lcmp opts tables e c) # formatRows ell fmt lcmp opts tables es (snd (formatRow ell fmt lcmp opts tables e c))"
  by (simp split: prod.split)

declare formatRows.simps(2) [simp del]

lemma formatRows_map:
  assumes "\<And>e c. f (fst (formatRow ell fmt lcmp opts tables e c)) = g e"
  shows "map f (formatRows ell fmt lcmp opts tables es c) = map g es"
  using assms by (induction es arbitrary: c) (simp_all add: formatRows_Cons)

lemma formatRows_mem:
  assumes "row \<in> set (formatRows ell fmt lcmp opts tables es c)"
  shows "\<exists>e\<in>set es. \<exists>c'. row = fst (formatRow ell fmt lcmp opts tables e c')"
  using assms by (induction es arbitrary: c) (auto simp: formatRows_Cons)

lemma overlay_other_tags:
  assumes "n \<noteq> ''imeta''" and "n \<noteq> ''emoji''"
  shows "filter (\<lambda>t. jsat t 0 = Some n) (applyEditTagOverlay tags edit) = filter (\<lambda>t. jsat t 0 = Some n) tags"
proof -
  have "filter (\<lambda>t. jsat t 0 = Some n) (filter (\<lambda>t. jsat t 0 = Some n') ts) = []" if "n' \<noteq> n" for n' and ts :: "string list list"
    using that by (auto simp: filter_empty_conv)
  moreover have "filter (\<lambda>t. jsat t 0 = Some n) (filter P ts) = filter (\<lambda>t. jsat t 0 = Some n) ts"
    if "\<And>t. jsat t 0 = Some n \<Longrightarrow> P t" for P and ts :: "string list list"
    using that by (auto simp: filter_filter intro!: filter_cong)
  ultimately show ?thesis using assms by (auto simp: applyEditTagOverlay_def split: option.split)
qed

lemma list_ex_filter: "list_ex P xs = (filter P xs \<noteq> [])"
  by (auto simp: list_ex_iff filter_empty_conv)

lemma isBroadcastReply_filter:
  "isBroadcastReply tags = list_ex (\<lambda>tag. jsat tag 1 = Some ''1'') (filter (\<lambda>tag. jsat tag 0 = Some ''broadcast'') tags)"
  by (auto simp: isBroadcastReply_def list_ex_iff)

lemma getThreadReference_filter:
  "getThreadReference tags = getThreadReference (filter (\<lambda>tag. jsat tag 0 = Some ''e'') tags)"
  by (simp add: getThreadReference_def getEventTags_def filter_filter conj_commute conj_left_commute cong: conj_cong)

lemma overlay_keeps_thread:
  "getThreadReference (applyEditTagOverlay tags edit) = getThreadReference tags"
  "isBroadcastReply (applyEditTagOverlay tags edit) = isBroadcastReply tags"
  using overlay_other_tags [of "''e''" tags edit] overlay_other_tags [of "''broadcast''" tags edit]
  by (simp_all add: isBroadcastReply_filter getThreadReference_filter [of "applyEditTagOverlay tags edit"]
      getThreadReference_filter [of tags])

text \<open>
  C29. The number of rows that the paging logic counts for a batch of events is the number of entries
  that the main timeline shows for it, edits, deletions, replies and broadcasts included.
\<close>

theorem counted_rows_are_shown:
  "countTopLevelTimelineRows events =
     length (buildMainTimelineEntries (formatTimelineMessages ell fmt lcmp opts events)
       unreadReplyIds relaySummaries profiles)"
proof -
  define top where "top e = (tr_parentId (getThreadReference (ev_tags e)) = None \<or> isBroadcastReply (ev_tags e))" for e :: relay_event
  define shown where "shown m = (tm_parentId m = None \<or>
      isBroadcastReply (case tm_tags m of Some tags \<Rightarrow> tags | None \<Rightarrow> []))" for m :: timeline_message
  define tables where "tables = rowTables ell opts events"
  have counted: "fold (\<lambda>event n. if \<not> isTimelineContentEvent event \<or> ev_id event \<in> D then n
      else if top event then n + 1 else n) es n =
      n + length (filter top (filter (\<lambda>e. isTimelineContentEvent e \<and> ev_id e \<notin> D) es))" for D es n
    by (induction es arbitrary: n) auto
  have "map shown (formatTimelineMessages ell fmt lcmp opts events) = map top (visibleEvents events)"
    unfolding formatTimelineMessages_def
    by (rule formatRows_map) (simp add: shown_def top_def overlay_keeps_thread)
  then have "length (filter id (map shown (formatTimelineMessages ell fmt lcmp opts events))) =
      length (filter id (map top (visibleEvents events)))" by simp
  then have "length (filter shown (formatTimelineMessages ell fmt lcmp opts events)) = length (filter top (visibleEvents events))"
    by (simp add: filter_map o_def)
  then show ?thesis
    using counted [of "set (deletedEventIds events)" events 0]
    unfolding countTopLevelTimelineRows_def buildMainTimelineEntries_def visibleEvents_def shown_def [abs_def] top_def
    by simp
qed

subsection \<open>The latest edit\<close>

definition liveEdit :: "string list \<Rightarrow> string \<Rightarrow> relay_event \<Rightarrow> bool" where
  "liveEdit deleted target event \<longleftrightarrow>
     ev_kind event = KIND_STREAM_MESSAGE_EDIT \<and> ev_id event \<notin> set deleted \<and> target \<notin> set deleted \<and>
     getReactionTargetId (ev_tags event) = Some target"

definition editOf :: "relay_event \<Rightarrow> message_edit" where
  "editOf e = \<lparr>ed_content = ev_content e, ed_tags = ev_tags e, ed_createdAt = ev_created_at e\<rparr>"

lemma jget_addEdit:
  "jget (addEdit deleted e m) t =
     (if liveEdit deleted t e \<and> (case jget m t of None \<Rightarrow> True | Some old \<Rightarrow> ed_createdAt old < ev_created_at e)
      then Some (editOf e) else jget m t)"
  by (auto simp: addEdit_def liveEdit_def editOf_def split: option.split)

lemma latest_edit:
  "case jget (fold (addEdit deleted) es []) t of
     None \<Rightarrow> \<forall>e\<in>set es. \<not> liveEdit deleted t e
   | Some ed \<Rightarrow> \<exists>e\<in>set es. liveEdit deleted t e \<and> ed = editOf e \<and>
       (\<forall>e'\<in>set es. liveEdit deleted t e' \<longrightarrow> ev_created_at e' \<le> ev_created_at e)"
proof (induction es rule: rev_induct)
  case (snoc e es)
  define m where "m = fold (addEdit deleted) es []"
  have step: "jget (fold (addEdit deleted) (es @ [e]) []) t = jget (addEdit deleted e m) t" by (simp add: m_def)
  have created: "ed_createdAt (editOf x) = ev_created_at x" for x by (simp add: editOf_def)
  show ?case
  proof (cases "jget m t")
    case None
    then show ?thesis using snoc.IH unfolding step jget_addEdit m_def [symmetric] by auto
  next
    case (Some old)
    then obtain o' where o': "o' \<in> set es" "liveEdit deleted t o'" "old = editOf o'"
      "\<forall>e'\<in>set es. liveEdit deleted t e' \<longrightarrow> ev_created_at e' \<le> ev_created_at o'"
      using snoc.IH unfolding m_def [symmetric] by auto
    show ?thesis
    proof (cases "liveEdit deleted t e \<and> ev_created_at o' < ev_created_at e")
      case True
      then show ?thesis using o' Some unfolding step jget_addEdit by (auto simp: created)
    next
      case False
      then have "jget (addEdit deleted e m) t = Some (editOf o')" using o' Some by (auto simp: jget_addEdit created)
      then show ?thesis unfolding step using o' False by (auto intro!: bexI [of _ o'])
    qed
  qed
qed simp

text \<open>
  C33. A row shows the latest edit of its message that has not been deleted, or the message itself
  when there is none; whatever the edit carries, the row's channel, thread, mention and other tags
  are those of the message, only attachments and custom emoji can change.
\<close>

theorem row_shows_latest_edit:
  assumes "row \<in> set (formatTimelineMessages ell fmt lcmp opts events)"
  shows "\<exists>event\<in>set events. ev_id event = tm_id row \<and> isTimelineContentEvent event \<and>
     tm_id row \<notin> set (deletedEventIds events) \<and>
     (if tm_edited row = Some True
      then \<exists>edit\<in>set events. liveEdit (deletedEventIds events) (tm_id row) edit \<and> tm_body row = ev_content edit \<and>
             (\<forall>other\<in>set events. liveEdit (deletedEventIds events) (tm_id row) other \<longrightarrow>
                ev_created_at other \<le> ev_created_at edit)
      else tm_body row = ev_content event \<and> tm_tags row = Some (ev_tags event) \<and>
           (\<forall>edit\<in>set events. \<not> liveEdit (deletedEventIds events) (tm_id row) edit)) \<and>
     (\<forall>n. n \<noteq> ''imeta'' \<and> n \<noteq> ''emoji'' \<longrightarrow>
        filter (\<lambda>tag. jsat tag 0 = Some n) (the (tm_tags row)) = filter (\<lambda>tag. jsat tag 0 = Some n) (ev_tags event))"
proof -
  define tables where "tables = rowTables ell opts events"
  define deleted where "deleted = deletedEventIds events"
  obtain event c where event: "event \<in> set (visibleEvents events)"
    and row: "row = fst (formatRow ell fmt lcmp opts tables event c)"
    using formatRows_mem assms unfolding formatTimelineMessages_def tables_def by blast
  have visible: "event \<in> set events" "isTimelineContentEvent event" "ev_id event \<notin> set deleted"
    using event by (auto simp: visibleEvents_def deleted_def)
  have edits: "rt_editsByTargetId tables = fold (addEdit deleted) events []"
    by (simp add: tables_def rowTables_def deleted_def)
  have content: "ed_content (editOf e) = ev_content e" for e by (simp add: editOf_def)
  note latest = latest_edit [where deleted = deleted and es = events and t = "ev_id event", folded edits]
  have shown: "if tm_edited row = Some True
      then \<exists>edit\<in>set events. liveEdit deleted (tm_id row) edit \<and> tm_body row = ev_content edit \<and>
             (\<forall>other\<in>set events. liveEdit deleted (tm_id row) other \<longrightarrow> ev_created_at other \<le> ev_created_at edit)
      else tm_body row = ev_content event \<and> tm_tags row = Some (ev_tags event) \<and>
           (\<forall>edit\<in>set events. \<not> liveEdit deleted (tm_id row) edit)"
    using latest unfolding row
    by (cases "jget (rt_editsByTargetId tables) (ev_id event)")
      (auto simp: content applyEditTagOverlay_def)
  have "filter (\<lambda>tag. jsat tag 0 = Some n) (the (tm_tags row)) = filter (\<lambda>tag. jsat tag 0 = Some n) (ev_tags event)"
    if "n \<noteq> ''imeta'' \<and> n \<noteq> ''emoji''" for n
    using that overlay_other_tags unfolding row by simp
  with shown visible show ?thesis unfolding deleted_def row
    by (intro bexI [of _ event]) simp_all
qed

subsection \<open>Depths of a thread\<close>

text \<open>The depth that a chain of visible parents gives an event.\<close>

inductive depth_of :: "(string, relay_event) jsmap \<Rightarrow> relay_event \<Rightarrow> int \<Rightarrow> bool" for eventsById where
  depth_top: "\<not> truthy (tr_parentId (getThreadReference (ev_tags e))) \<Longrightarrow> depth_of eventsById e 0"
| depth_orphan: "truthy (tr_parentId (getThreadReference (ev_tags e))) \<Longrightarrow>
     jget eventsById (the (tr_parentId (getThreadReference (ev_tags e)))) = None \<Longrightarrow>
     depth_of eventsById e
       (if truthy (tr_rootId (getThreadReference (ev_tags e))) \<and>
           tr_rootId (getThreadReference (ev_tags e)) \<noteq> tr_parentId (getThreadReference (ev_tags e)) then 2 else 1)"
| depth_reply: "truthy (tr_parentId (getThreadReference (ev_tags e))) \<Longrightarrow>
     jget eventsById (the (tr_parentId (getThreadReference (ev_tags e)))) = Some parent \<Longrightarrow>
     depth_of eventsById parent d \<Longrightarrow> depth_of eventsById e (d + 1)"

inductive_cases depth_ofE: "depth_of eventsById e d"

lemma depth_of_unique: "depth_of m e d \<Longrightarrow> depth_of m e d' \<Longrightarrow> d = d'"
proof (induction arbitrary: d' rule: depth_of.induct)
  case (depth_top e)
  then show ?case by (auto elim: depth_ofE)
next
  case (depth_orphan e)
  then show ?case by (auto elim: depth_ofE)
next
  case (depth_reply e parent d)
  from depth_reply.prems depth_reply.hyps obtain d1 where "depth_of m parent d1" "d' = d1 + 1"
    by (auto elim: depth_ofE)
  then show ?case using depth_reply.IH by simp
qed

definition depths_ok :: "(string, relay_event) jsmap \<Rightarrow> (string, int) jsmap \<Rightarrow> bool" where
  "depths_ok m c \<longleftrightarrow> (\<forall>k d. jget c k = Some d \<longrightarrow> (\<exists>e. jget m k = Some e \<and> depth_of m e d))"

lemma depths_okD: "depths_ok m c \<Longrightarrow> jget c k = Some d \<Longrightarrow> jget m k = Some e \<Longrightarrow> depth_of m e d"
  unfolding depths_ok_def by force

lemma depths_ok_jset: "depths_ok m c \<Longrightarrow> jget m k = Some e \<Longrightarrow> depth_of m e d \<Longrightarrow> depths_ok m (jset c k d)"
  unfolding depths_ok_def by simp

lemma getDepth_correct:
  assumes keyed: "\<And>k p. jget m k = Some p \<Longrightarrow> ev_id p = k"
    and rank: "\<And>e p. e \<in> set (jvals m) \<Longrightarrow> jget m (the (tr_parentId (getThreadReference (ev_tags e)))) = Some p \<Longrightarrow>
      truthy (tr_parentId (getThreadReference (ev_tags e))) \<Longrightarrow> rank (ev_id p) < (rank (ev_id e) :: nat)"
    and e: "jget m (ev_id e) = Some e" and free: "\<forall>r\<in>set resolving. rank (ev_id e) < rank r"
    and cache: "depths_ok m c"
  shows "depth_of m e (fst (getDepth m resolving e c)) \<and> depths_ok m (snd (getDepth m resolving e c))"
  using e free cache
proof (induction "rank (ev_id e)" arbitrary: e resolving c rule: less_induct)
  case less
  define ref where "ref = getThreadReference (ev_tags e)"
  have fresh: "ev_id e \<notin> set resolving" using less.prems(2) by auto
  show ?case
  proof (cases "jget c (ev_id e)")
    case (Some d)
    then show ?thesis using depths_okD [OF less.prems(3) Some less.prems(1)] less.prems(3)
      by (subst (1 2) getDepth.simps) simp
  next
    case none: None
    show ?thesis
    proof (cases "truthy (tr_parentId ref)")
      case False
      then show ?thesis using none fresh less.prems depth_top [of e m] depths_ok_jset
        unfolding ref_def by (subst (1 2) getDepth.simps) simp
    next
      case reply: True
      show ?thesis
      proof (cases "jget m (the (tr_parentId ref))")
        case None
        note orphan = depth_orphan [OF reply [unfolded ref_def] None [unfolded ref_def], folded ref_def]
        show ?thesis using none fresh reply None orphan depths_ok_jset [OF less.prems(3,1) orphan]
          by (subst (1 2) getDepth.simps) (simp add: ref_def [symmetric])
      next
        case (Some p)
        have below: "rank (ev_id p) < rank (ev_id e)"
          using rank [of e p] less.prems(1) Some reply unfolding ref_def by (force dest: map_of_SomeD)
        have p: "jget m (ev_id p) = Some p" using keyed Some by metis
        obtain d c' where rec: "getDepth m (sadd resolving (ev_id e)) p c = (d, c')" by fastforce
        have "\<forall>r\<in>set (sadd resolving (ev_id e)). rank (ev_id p) < rank r"
          using below less.prems(2) by (auto intro: less_trans)
        then have ih: "depth_of m p d \<and> depths_ok m c'"
          using less.hyps [OF below p _ less.prems(3)] rec by (metis fst_conv snd_conv)
        then have "depth_of m e (d + 1)"
          using depth_reply [of e m p d] reply Some unfolding ref_def by blast
        then show ?thesis using none fresh reply Some rec ih depths_ok_jset [of m c' "ev_id e" e "d + 1"] less.prems(1)
          by (subst (1 2) getDepth.simps) (simp add: ref_def [symmetric])
      qed
    qed
  qed
qed

lemma formatRow_depth:
  "tm_depth (fst (formatRow ell fmt lcmp opts tables e c)) = fst (getDepth (rt_eventsById tables) [] e (rc_depthByEventId c))"
  "rc_depthByEventId (snd (formatRow ell fmt lcmp opts tables e c)) = snd (getDepth (rt_eventsById tables) [] e (rc_depthByEventId c))"
proof -
  have "rc_depthByEventId (snd (getAuthorLabel ell opts e c)) = rc_depthByEventId c" by (simp add: getAuthorLabel_def)
  then show "tm_depth (fst (formatRow ell fmt lcmp opts tables e c)) = fst (getDepth (rt_eventsById tables) [] e (rc_depthByEventId c))"
    "rc_depthByEventId (snd (formatRow ell fmt lcmp opts tables e c)) = snd (getDepth (rt_eventsById tables) [] e (rc_depthByEventId c))"
    by (auto simp: formatRow_def split: prod.split)
qed

lemma formatRows_depth:
  assumes correct: "\<And>e c. e \<in> set es \<Longrightarrow> depths_ok (rt_eventsById tables) c \<Longrightarrow>
      depth_of (rt_eventsById tables) e (fst (getDepth (rt_eventsById tables) [] e c)) \<and>
      depths_ok (rt_eventsById tables) (snd (getDepth (rt_eventsById tables) [] e c))"
    and cache: "depths_ok (rt_eventsById tables) (rc_depthByEventId c)"
    and row: "row \<in> set (formatRows ell fmt lcmp opts tables es c)"
  shows "\<exists>e\<in>set es. \<exists>c'. row = fst (formatRow ell fmt lcmp opts tables e c') \<and> depth_of (rt_eventsById tables) e (tm_depth row)"
  using assms
proof (induction es arbitrary: c)
  case (Cons e es)
  have now: "depth_of (rt_eventsById tables) e (tm_depth (fst (formatRow ell fmt lcmp opts tables e c)))"
    "depths_ok (rt_eventsById tables) (rc_depthByEventId (snd (formatRow ell fmt lcmp opts tables e c)))"
    unfolding formatRow_depth using Cons.prems(1) [of e] Cons.prems(2) by auto
  show ?case
  proof (cases "row = fst (formatRow ell fmt lcmp opts tables e c)")
    case True
    then show ?thesis using now(1) by auto
  next
    case False
    then have "row \<in> set (formatRows ell fmt lcmp opts tables es (snd (formatRow ell fmt lcmp opts tables e c)))"
      using Cons.prems(3) by (simp add: formatRows_Cons)
    then show ?thesis using Cons.IH [OF _ now(2)] Cons.prems(1) by auto
  qed
qed simp

lemma eventsById_visible:
  assumes "distinct (map ev_id es)" and "e \<in> set es"
  shows "jget (jmap_of (map (\<lambda>e. (ev_id e, e)) es)) (ev_id e) = Some e"
  using assms by (simp add: jmap_of_distinct o_def map_of_eq_Some_iff)

lemma rowTables_eventsById [simp]:
  "rt_eventsById (rowTables ell opts events) = jmap_of (map (\<lambda>e. (ev_id e, e)) (visibleEvents events))"
  by (simp add: rowTables_def)

text \<open>
  When no visible event is its own ancestor, the depth of a row is 0 without a parent, one more
  than the depth of its parent's row when that is shown, and 1 or 2 for an orphan of an unseen parent
  (2 exactly when the thread has another root), whatever the order of the events.
\<close>

theorem row_depth_spec:
  assumes distinct: "distinct (map ev_id (visibleEvents events))"
    and rank: "\<forall>e\<in>set (visibleEvents events). \<forall>p\<in>set (visibleEvents events).
      tr_parentId (getThreadReference (ev_tags e)) = Some (ev_id p) \<longrightarrow> rank (ev_id p) < (rank (ev_id e) :: nat)"
    and row: "row \<in> set (formatTimelineMessages ell fmt lcmp opts events)"
  shows "(\<not> truthy (tm_parentId row) \<longrightarrow> tm_depth row = 0) \<and>
    (\<forall>parent\<in>set (formatTimelineMessages ell fmt lcmp opts events).
       truthy (tm_parentId row) \<and> tm_parentId row = Some (tm_id parent) \<longrightarrow> tm_depth row = tm_depth parent + 1) \<and>
    (truthy (tm_parentId row) \<and> the (tm_parentId row) \<notin> ev_id ` set (visibleEvents events) \<longrightarrow>
       tm_depth row = (if truthy (tm_rootId row) \<and> tm_rootId row \<noteq> tm_parentId row then 2 else 1))"
proof -
  define es where "es = visibleEvents events"
  define tables where "tables = rowTables ell opts events"
  define m where "m = jmap_of (map (\<lambda>e. (ev_id e, e)) es)"
  have tables: "rt_eventsById tables = m" by (simp add: tables_def m_def es_def)
  have known: "jget m (ev_id e) = Some e" if "e \<in> set es" for e
    using eventsById_visible distinct that unfolding m_def es_def by blast
  have found: "ev_id p = k \<and> p \<in> set es" if "jget m k = Some p" for k p
    using find_mem_Some [OF that [unfolded m_def jget_keyed]] by simp
  have vals: "e \<in> set es" if val: "e \<in> set (jvals m)" for e
  proof -
    obtain k where "(k, e) \<in> set m" using val by auto
    then have "jget m k = Some e" using jget_in_set [of m] by (simp add: m_def)
    then show ?thesis using found by blast
  qed
  have correct: "depth_of m e (fst (getDepth m [] e c)) \<and> depths_ok m (snd (getDepth m [] e c))"
    if "e \<in> set es" "depths_ok m c" for e c
  proof (rule getDepth_correct [where rank = rank])
    fix x p assume x: "x \<in> set (jvals m)" "jget m (the (tr_parentId (getThreadReference (ev_tags x)))) = Some p"
      "truthy (tr_parentId (getThreadReference (ev_tags x)))"
    then have "tr_parentId (getThreadReference (ev_tags x)) = Some (ev_id p)" using found
      by (force simp: truthy_def split: option.splits)
    then show "rank (ev_id p) < rank (ev_id x)" using rank vals [OF x(1)] found x(2) unfolding es_def by blast
  qed (use that known found in auto)
  have deep: "\<exists>e\<in>set es. ev_id e = tm_id r \<and> tm_parentId r = tr_parentId (getThreadReference (ev_tags e)) \<and>
      tm_rootId r = tr_rootId (getThreadReference (ev_tags e)) \<and> depth_of m e (tm_depth r)"
    if "r \<in> set (formatTimelineMessages ell fmt lcmp opts events)" for r
    using formatRows_depth [of es tables, unfolded tables, OF correct _ that [unfolded formatTimelineMessages_def, folded es_def tables_def]]
    by (force simp: depths_ok_def)
  obtain e where e: "e \<in> set es" "tm_parentId row = tr_parentId (getThreadReference (ev_tags e))"
      "tm_rootId row = tr_rootId (getThreadReference (ev_tags e))" "depth_of m e (tm_depth row)"
    using deep [OF row] by blast
  have "tm_depth row = tm_depth parent + 1"
    if "parent \<in> set (formatTimelineMessages ell fmt lcmp opts events)" "truthy (tm_parentId row)"
      "tm_parentId row = Some (tm_id parent)" for parent
    using deep [OF that(1)] that(2,3) e known depth_reply depth_of_unique by (metis option.sel)
  moreover have "\<not> truthy (tm_parentId row) \<Longrightarrow> tm_depth row = 0"
    using e depth_top depth_of_unique by metis
  moreover have "tm_depth row = (if truthy (tm_rootId row) \<and> tm_rootId row \<noteq> tm_parentId row then 2 else 1)"
    if orphan: "truthy (tm_parentId row)" "the (tm_parentId row) \<notin> ev_id ` set (visibleEvents events)"
  proof -
    have "jget m (the (tm_parentId row)) = None" using found orphan(2) unfolding es_def by (metis image_eqI not_Some_eq)
    then show ?thesis using depth_of_unique [OF e(4) depth_orphan] orphan(1) unfolding e(2,3) by blast
  qed
  ultimately show ?thesis by blast
qed

subsection \<open>Reactions\<close>

text \<open>An event of the channel that reacts to \<open>target\<close> with \<open>emoji\<close>, neither of them deleted.\<close>

definition reacts :: "string list \<Rightarrow> string \<Rightarrow> string \<Rightarrow> relay_event \<Rightarrow> bool" where
  "reacts deleted target emoji event \<longleftrightarrow>
     ev_kind event = KIND_REACTION \<and> ev_id event \<notin> set deleted \<and> target \<notin> set deleted \<and>
     getReactionTargetId (ev_tags event) = Some target \<and> reactionEmoji event = emoji"

definition reactionActor :: "string option \<Rightarrow> relay_event \<Rightarrow> string" where
  "reactionActor authority event = toLowerCase (eventAuthor authority event)"

definition reactors ::
  "string option \<Rightarrow> string list \<Rightarrow> relay_event list \<Rightarrow> string \<times> string \<times> string \<Rightarrow> relay_event set" where
  "reactors authority deleted es = (\<lambda>(target, actor, emoji).
     {e \<in> set es. reacts deleted target emoji e \<and> reactionActor authority e = actor})"

definition triple :: "reaction_presence \<Rightarrow> string \<times> string \<times> string" where
  "triple p = (rp_targetId p, rp_actorPubkey p, rp_emoji p)"

definition tripleKey :: "string \<times> string \<times> string \<Rightarrow> string" where
  "tripleKey = (\<lambda>(target, actor, emoji). presenceKey target actor emoji)"

definition plain :: "string \<Rightarrow> bool" where
  "plain s \<longleftrightarrow> CHR '':'' \<notin> set s"

lemma colon_split:
  "plain s \<Longrightarrow> plain t \<Longrightarrow> s @ CHR '':'' # u = t @ CHR '':'' # v \<Longrightarrow> s = t \<and> u = v"
proof (induction s arbitrary: t)
  case Nil
  then show ?case by (cases t) (auto simp: plain_def)
next
  case (Cons c s)
  then show ?case by (cases t) (auto simp: plain_def)
qed

lemma tripleKey_inj:
  assumes "plain (fst T)" "plain (fst (snd T))" "plain (fst T')" "plain (fst (snd T'))" "tripleKey T = tripleKey T'"
  shows "T = T'"
proof -
  obtain t a x where T: "T = (t, a, x)" by (cases T)
  obtain t' a' x' where T': "T' = (t', a', x')" by (cases T')
  have "t = t' \<and> a @ CHR '':'' # x = a' @ CHR '':'' # x'"
    using assms colon_split [of t t' "a @ CHR '':'' # x"] unfolding T T' by (simp add: tripleKey_def presenceKey_def)
  then show ?thesis using assms colon_split [of a a' x x'] unfolding T T' by simp
qed

lemma hex_plain: "list_all hex_char s \<Longrightarrow> plain s"
  by (auto simp: plain_def list_all_iff hex_char_def)

lemma target_plain: "getReactionTargetId tags = Some t \<Longrightarrow> plain t"
  by (auto simp: getReactionTargetId_def eventIdTag_def HEX_RE_def intro!: hex_plain
      split: option.splits dest!: find_mem_Some)

lemma toLowerCase_plain: "plain s \<Longrightarrow> plain (toLowerCase s)"
proof -
  have "c = CHR '':''" if "js_lower_char c = CHR '':''" for c
  proof (rule ccontr)
    assume "c \<noteq> CHR '':''"
    then have upper: "65 \<le> (of_char c :: nat) \<and> (of_char c :: nat) \<le> 222"
        "js_lower_char c = char_of ((of_char c :: nat) + 32)"
      using that by (auto simp: js_lower_char_def Let_def split: if_splits)
    have "(of_char (char_of ((of_char c :: nat) + 32)) :: nat) = 58" using that unfolding upper(2) by simp
    then show False using upper(1) by simp
  qed
  then show "plain s \<Longrightarrow> plain (toLowerCase s)" by (force simp: plain_def toLowerCase_def)
qed

lemma addReaction_cases:
  obtains (other) "\<And>target emoji. \<not> reacts deleted target emoji e" "addReaction authority deleted e m = m"
  | (reaction) target emoji key p where "reacts deleted target emoji e"
      "\<And>target' emoji'. reacts deleted target' emoji' e \<Longrightarrow> target' = target \<and> emoji' = emoji"
      "key = presenceKey target (reactionActor authority e) emoji"
      "addReaction authority deleted e m = jset m key p"
      "rp_targetId p = target" "rp_actorPubkey p = reactionActor authority e" "rp_emoji p = emoji"
      "rp_createdAt p = (case jget m key of Some prev \<Rightarrow> min (rp_createdAt prev) (ev_created_at e) | None \<Rightarrow> ev_created_at e)"
proof (cases "\<exists>target emoji. reacts deleted target emoji e")
  case False
  then have "addReaction authority deleted e m = m"
    by (auto simp: addReaction_def reacts_def split: option.split)
  with False other show thesis by blast
next
  case True
  then obtain target emoji where r: "reacts deleted target emoji e" by blast
  show thesis
    by (rule reaction [OF r, where p = "\<lparr>rp_targetId = target, rp_actorPubkey = reactionActor authority e, rp_emoji = emoji,
          rp_emojiUrl = reactionEmojiUrl e,
          rp_createdAt = (case jget m (presenceKey target (reactionActor authority e) emoji) of
             Some prev \<Rightarrow> min (rp_createdAt prev) (ev_created_at e) | None \<Rightarrow> ev_created_at e)\<rparr>"])
      (use r in \<open>auto simp: addReaction_def reacts_def reactionActor_def\<close>)
qed

lemma reactors_plain:
  assumes "\<forall>e\<in>set es. plain (reactionActor authority e)" and "reactors authority deleted es T \<noteq> {}"
  shows "plain (fst T) \<and> plain (fst (snd T))"
  using assms by (auto simp: reactors_def reacts_def target_plain split: prod.splits)

definition presence_ok :: "string option \<Rightarrow> string list \<Rightarrow> relay_event list \<Rightarrow> (string, reaction_presence) jsmap \<Rightarrow> bool" where
  "presence_ok authority deleted es m \<longleftrightarrow> jwf m \<and>
     (\<forall>k p. jget m k = Some p \<longrightarrow> k = tripleKey (triple p) \<and> reactors authority deleted es (triple p) \<noteq> {} \<and>
        rp_createdAt p = Min (ev_created_at ` reactors authority deleted es (triple p))) \<and>
     (\<forall>T. reactors authority deleted es T \<noteq> {} \<longrightarrow> jget m (tripleKey T) \<noteq> None)"

lemma reactors_snoc:
  "reactors authority deleted (es @ [e]) (target, actor, emoji) =
     (if reacts deleted target emoji e \<and> reactionActor authority e = actor
      then insert e (reactors authority deleted es (target, actor, emoji))
      else reactors authority deleted es (target, actor, emoji))"
  by (auto simp: reactors_def)

lemma finite_reactors [simp]: "finite (reactors authority deleted es T)"
  by (simp add: reactors_def split: prod.split)

lemma presence_step:
  assumes colons: "\<forall>x\<in>set (es @ [e]). plain (reactionActor authority x)" and ok: "presence_ok authority deleted es m"
  shows "presence_ok authority deleted (es @ [e]) (addReaction authority deleted e m)"
proof -
  define R where "R = reactors authority deleted es"
  define R' where "R' = reactors authority deleted (es @ [e])"
  have wf: "jwf m" and missing: "\<And>T. R T \<noteq> {} \<Longrightarrow> jget m (tripleKey T) \<noteq> None"
    and old: "\<And>k p. jget m k = Some p \<Longrightarrow> k = tripleKey (triple p) \<and> R (triple p) \<noteq> {} \<and>
        rp_createdAt p = Min (ev_created_at ` R (triple p))"
    using ok unfolding presence_ok_def R_def by blast+
  show ?thesis
  proof (cases rule: addReaction_cases [of deleted e authority m])
    case other
    then have "R' T = R T" for T unfolding R_def R'_def by (cases T) (simp add: reactors_snoc)
    then have "R' = R" by blast
    then show ?thesis using ok other(2) unfolding presence_ok_def R_def R'_def by simp
  next
    case (reaction target emoji key p)
    define T where "T = (target, reactionActor authority e, emoji)"
    have T: "triple p = T" "key = tripleKey T"
      using reaction(3,5-7) unfolding triple_def T_def tripleKey_def by (simp_all only: prod.case)
    have here: "R' T = insert e (R T)" using reaction(1) by (simp add: R_def R'_def T_def reactors_snoc)
    have there: "R' S = R S" if "S \<noteq> T" for S
    proof -
      obtain t a x where S: "S = (t, a, x)" by (cases S)
      have "\<not> (reacts deleted t x e \<and> reactionActor authority e = a)"
        using that reaction(2) unfolding S T_def by blast
      then show ?thesis unfolding R_def R'_def S reactors_snoc by argo
    qed
    have same: "S = T" if "R S \<noteq> {}" "tripleKey S = key" for S
    proof (rule tripleKey_inj)
      show "plain (fst S)" "plain (fst (snd S))"
        using reactors_plain [of es authority deleted S] colons that(1) unfolding R_def by auto
      show "plain (fst T)" "plain (fst (snd T))"
        using reactors_plain [OF colons, of deleted T] here unfolding R'_def by auto
    qed (use that(2) T(2) in simp)
    have at: "rp_createdAt p = Min (ev_created_at ` R' T)"
    proof (cases "jget m key")
      case None
      then have "R T = {}" using missing [of T] T(2) by auto
      then show ?thesis using reaction(8) None by (simp add: here)
    next
      case (Some prev)
      have "triple prev = T" using old [OF Some] same by metis
      then have "rp_createdAt prev = Min (ev_created_at ` R T)" "R T \<noteq> {}" using old [OF Some] by auto
      then show ?thesis using reaction(8) Some by (simp add: here R_def min.commute)
    qed
    have "k = tripleKey (triple q) \<and> R' (triple q) \<noteq> {} \<and> rp_createdAt q = Min (ev_created_at ` R' (triple q))"
      if "jget (jset m key p) k = Some q" for k q
    proof (cases "k = key")
      case True
      then show ?thesis using that T at here by auto
    next
      case False
      then have q: "jget m k = Some q" using that by simp
      have "triple q \<noteq> T" using old [OF q] False T(2) by auto
      then show ?thesis using old [OF q] there by simp
    qed
    moreover have "jget (jset m key p) (tripleKey S) \<noteq> None" if "R' S \<noteq> {}" for S
      using that missing [of S] there [of S] T(2) by auto
    ultimately show ?thesis using wf reaction(4) unfolding presence_ok_def R'_def by simp
  qed
qed

lemma presence_ok_fold:
  assumes "\<forall>x\<in>set es. plain (reactionActor authority x)"
  shows "presence_ok authority deleted es (fold (addReaction authority deleted) es [])"
  using assms
proof (induction es rule: rev_induct)
  case Nil
  then show ?case by (auto simp: presence_ok_def reactors_def)
next
  case (snoc e es)
  then show ?case using presence_step [OF snoc.prems] by simp
qed

text \<open>The pill of an emoji on a message collects the presences of that pair.\<close>

lemma groupReaction_get:
  "jget (jget_or (fold (groupReaction ell me profiles) ps G) t []) x =
     fold (\<lambda>p known. Some (addToPill ell me profiles p known))
       (filter (\<lambda>p. rp_targetId p = t \<and> rp_emoji p = x) ps) (jget (jget_or G t []) x)"
proof (induction ps arbitrary: G)
  case (Cons p ps)
  have "jget (jget_or (groupReaction ell me profiles p G) t []) x =
      (if rp_targetId p = t \<and> rp_emoji p = x then Some (addToPill ell me profiles p (jget (jget_or G t []) x))
       else jget (jget_or G t []) x)"
    by (auto simp: groupReaction_def jget_or_def)
  then show ?case using Cons.IH [of "groupReaction ell me profiles p G"] by simp
qed simp

lemma jset_not_Nil: "jset m k v \<noteq> []"
  by (cases m) auto

lemma groupReaction_wf:
  assumes "\<forall>t inner. jget G t = Some inner \<longrightarrow> jwf inner \<and> inner \<noteq> []"
  shows "\<forall>t inner. jget (fold (groupReaction ell me profiles) ps G) t = Some inner \<longrightarrow> jwf inner \<and> inner \<noteq> []"
  using assms
proof (induction ps arbitrary: G)
  case (Cons p ps)
  have "jwf (jget_or G (rp_targetId p) [])" using Cons.prems by (auto simp: jget_or_def split: option.split)
  then have "\<forall>t inner. jget (groupReaction ell me profiles p G) t = Some inner \<longrightarrow> jwf inner \<and> inner \<noteq> []"
    using Cons.prems by (simp add: groupReaction_def jset_not_Nil)
  from Cons.IH [OF this] show ?case by simp
qed simp

definition pill_ok :: "string \<Rightarrow> string option \<Rightarrow> profile_lookup option \<Rightarrow> reaction_presence list \<Rightarrow> reaction_accum \<Rightarrow> bool" where
  "pill_ok ell me profiles ps acc \<longleftrightarrow>
     re_emoji (ra_pill acc) = rp_emoji (hd ps) \<and> re_count (ra_pill acc) = int (length ps) \<and>
     re_users (ra_pill acc) = map (\<lambda>p. reactionUser ell me profiles (rp_actorPubkey p)) ps \<and>
     re_reactedByCurrentUser (ra_pill acc) = Some (truthy me \<and> the me \<in> rp_actorPubkey ` set ps) \<and>
     ra_earliestCreatedAt acc = Min (rp_createdAt ` set ps)"

lemma addToPill_first: "pill_ok ell me profiles [p] (addToPill ell me profiles p None)"
  by (auto simp: pill_ok_def addToPill_def truthy_def split: option.splits)

lemma addToPill_next:
  assumes "pill_ok ell me profiles ps acc" and "ps \<noteq> []"
  shows "pill_ok ell me profiles (ps @ [p]) (addToPill ell me profiles p (Some acc))"
proof -
  define low where "low = Min (rp_createdAt ` set ps)"
  have low: "Min (rp_createdAt ` set (ps @ [p])) = (if rp_createdAt p < low then rp_createdAt p else low)"
    using Min_insert [of "rp_createdAt ` set ps" "rp_createdAt p"] assms(2) unfolding low_def [symmetric] by simp
  show ?thesis using assms unfolding pill_ok_def low low_def [symmetric]
    by (cases me) (auto simp: addToPill_def truthy_def hd_append)
qed

lemma addToPill_fold:
  "ps \<noteq> [] \<Longrightarrow> \<exists>acc. fold (\<lambda>p known. Some (addToPill ell me profiles p known)) ps None = Some acc \<and>
     pill_ok ell me profiles ps acc"
proof (induction ps rule: rev_induct)
  case (snoc p ps)
  show ?case
  proof (cases "ps = []")
    case True
    then show ?thesis by (simp add: addToPill_first)
  next
    case False
    with snoc.IH obtain acc where "fold (\<lambda>p known. Some (addToPill ell me profiles p known)) ps None = Some acc"
      "pill_ok ell me profiles ps acc" by blast
    then show ?thesis using addToPill_next [OF _ False] by simp
  qed
qed simp

lemma sorted_js_sort:
  assumes "\<And>x y. cmp x y \<le> 0 \<Longrightarrow> f x \<le> (f y :: int)" and "\<And>x y. \<not> cmp x y \<le> 0 \<Longrightarrow> f y \<le> f x"
  shows "sorted (map f (js_sort cmp xs))"
proof -
  have insert: "sorted (map f ys) \<Longrightarrow> sorted (map f (js_insert cmp x ys))" for x ys
  proof (induction ys)
    case (Cons y ys)
    then show ?case using assms by (fastforce intro: order_trans)
  qed simp
  show ?thesis by (induction xs) (simp_all add: insert)
qed

lemma comparePills_sorted: "sorted (map ra_earliestCreatedAt (js_sort (comparePills lcmp) accs))"
  by (rule sorted_js_sort) (auto simp: comparePills_def split: if_splits)

lemma reactionActor_plain:
  assumes "plain (ev_pubkey e)"
  shows "plain (reactionActor authority e)"
proof -
  have "set (js_trim s) \<subseteq> set s" for s
    by (auto simp: js_trim_def dest!: set_dropWhileD)
  then have "plain (normalizePubkey (ev_pubkey e))"
    using assms unfolding normalizePubkey_def by (intro toLowerCase_plain) (auto simp: plain_def)
  moreover have "plain s" if "PUBKEY_HEX_RE s" for s
    using that hex_plain by (simp add: PUBKEY_HEX_RE_def)
  ultimately have "plain (eventAuthor authority e)"
    using author_signer_or_tagged [of e True authority True] unfolding eventAuthor_def by metis
  then show ?thesis unfolding reactionActor_def by (rule toLowerCase_plain)
qed

lemma presence_list:
  assumes colons: "\<forall>e\<in>set es. plain (reactionActor authority e)" and ok: "presence_ok authority deleted es m"
  shows "distinct (map triple (jvals m))"
    and "triple ` set (jvals m) = {T. reactors authority deleted es T \<noteq> {}}"
    and "p \<in> set (jvals m) \<Longrightarrow> rp_createdAt p = Min (ev_created_at ` reactors authority deleted es (triple p))"
proof -
  have wf: "jwf m" and found: "\<And>T. reactors authority deleted es T \<noteq> {} \<Longrightarrow> jget m (tripleKey T) \<noteq> None"
    and old: "\<And>k p. jget m k = Some p \<Longrightarrow> k = tripleKey (triple p) \<and> reactors authority deleted es (triple p) \<noteq> {} \<and>
        rp_createdAt p = Min (ev_created_at ` reactors authority deleted es (triple p))"
    using ok unfolding presence_ok_def by blast+
  have mem: "\<exists>k. jget m k = Some q" if "q \<in> set (jvals m)" for q
    using that jget_in_set [OF wf] by fastforce
  have "map tripleKey (map triple (jvals m)) = jkeys m"
    using old jget_in_set [OF wf] by fastforce
  then show "distinct (map triple (jvals m))" using wf unfolding jwf_def by (metis distinct_map)
  show "p \<in> set (jvals m) \<Longrightarrow> rp_createdAt p = Min (ev_created_at ` reactors authority deleted es (triple p))"
    using mem old by blast
  show "triple ` set (jvals m) = {T. reactors authority deleted es T \<noteq> {}}"
  proof (intro equalityI subsetI)
    show "T \<in> {T. reactors authority deleted es T \<noteq> {}}" if "T \<in> triple ` set (jvals m)" for T
      using that mem old by blast
  next
    fix T assume "T \<in> {T. reactors authority deleted es T \<noteq> {}}"
    then have T: "reactors authority deleted es T \<noteq> {}" by simp
    then obtain q where q: "jget m (tripleKey T) = Some q" using found by blast
    have "triple q = T"
      using tripleKey_inj reactors_plain [OF colons T] reactors_plain [OF colons, of deleted "triple q"] old [OF q] by metis
    moreover have "q \<in> set (jvals m)" using q jget_in_set [OF wf] by force
    ultimately show "T \<in> triple ` set (jvals m)" by blast
  qed
qed

lemma pill_presences:
  assumes colons: "\<forall>e\<in>set es. plain (reactionActor authority e)" and ok: "presence_ok authority deleted es m"
    and L: "L = filter (\<lambda>p. rp_targetId p = t \<and> rp_emoji p = x) (jvals m)"
    and E: "E = {e \<in> set es. reacts deleted t x e}"
  shows "distinct (map rp_actorPubkey L)" and "rp_actorPubkey ` set L = reactionActor authority ` E"
    and "L \<noteq> [] \<Longrightarrow> Min (rp_createdAt ` set L) = Min (ev_created_at ` E)"
proof -
  note list = presence_list [OF colons ok]
  have member: "p \<in> set L \<longleftrightarrow> p \<in> set (jvals m) \<and> triple p = (t, rp_actorPubkey p, x)" for p
    unfolding L triple_def by auto
  have "map triple L = map (\<lambda>a. (t, a, x)) (map rp_actorPubkey L)"
    using member by simp
  moreover have "distinct (map triple L)" using list(1) unfolding L by (rule distinct_map_filter)
  ultimately show "distinct (map rp_actorPubkey L)" by (simp add: distinct_map inj_on_def)
  have pair: "reactors authority deleted es (t, a, x) = {e \<in> E. reactionActor authority e = a}" for a
    unfolding E reactors_def by auto
  have some: "\<exists>p\<in>set L. rp_actorPubkey p = a" if "reactors authority deleted es (t, a, x) \<noteq> {}" for a
  proof -
    have "(t, a, x) \<in> triple ` set (jvals m)" using that list(2) by simp
    then show ?thesis unfolding L triple_def by auto
  qed
  have full: "reactors authority deleted es (t, rp_actorPubkey p, x) \<noteq> {}" if "p \<in> set L" for p
    using that member [of p] list(2) by (metis (mono_tags) image_eqI mem_Collect_eq)
  show "rp_actorPubkey ` set L = reactionActor authority ` E"
  proof (intro equalityI subsetI)
    fix a assume "a \<in> rp_actorPubkey ` set L"
    then obtain p where p: "p \<in> set L" "a = rp_actorPubkey p" by blast
    then obtain e where "e \<in> E" "reactionActor authority e = rp_actorPubkey p" using full [OF p(1)] unfolding pair by blast
    then show "a \<in> reactionActor authority ` E" using p(2) by (metis image_eqI)
  next
    fix a assume "a \<in> reactionActor authority ` E"
    then have "reactors authority deleted es (t, a, x) \<noteq> {}" unfolding pair by blast
    then show "a \<in> rp_actorPubkey ` set L" using some by blast
  qed
  have low: "rp_createdAt p = Min (ev_created_at ` {e \<in> E. reactionActor authority e = rp_actorPubkey p})" if "p \<in> set L" for p
    using list(3) [of p] that member [of p] pair by metis
  have fin: "finite E" unfolding E by simp
  assume ne: "L \<noteq> []"
  show "Min (rp_createdAt ` set L) = Min (ev_created_at ` E)"
  proof (rule sym, rule Min_eqI)
    show "finite (ev_created_at ` E)" using fin by simp
    show "Min (rp_createdAt ` set L) \<le> y" if "y \<in> ev_created_at ` E" for y
    proof -
      obtain e where e: "e \<in> E" "y = ev_created_at e" using \<open>y \<in> ev_created_at ` E\<close> by blast
      then obtain p where p: "p \<in> set L" "rp_actorPubkey p = reactionActor authority e"
        using some [of "reactionActor authority e"] unfolding pair by blast
      have "rp_createdAt p \<le> y" unfolding low [OF p(1)] e(2) using e(1) p(2) fin by (intro Min_le) auto
      moreover have "Min (rp_createdAt ` set L) \<le> rp_createdAt p" using p(1) by (intro Min_le) auto
      ultimately show ?thesis by linarith
    qed
    obtain p where p: "p \<in> set L" "Min (rp_createdAt ` set L) = rp_createdAt p"
      using Min_in [of "rp_createdAt ` set L"] ne by fastforce
    have "rp_createdAt p \<in> ev_created_at ` {e \<in> E. reactionActor authority e = rp_actorPubkey p}"
      unfolding low [OF p(1)] using full [OF p(1)] fin unfolding pair by (intro Min_in) auto
    then show "Min (rp_createdAt ` set L) \<in> ev_created_at ` E" unfolding p(2) by blast
  qed
qed

lemma grouped_pill:
  assumes colons: "\<forall>e\<in>set es. plain (reactionActor authority e)" and ok: "presence_ok authority deleted es m"
    and G: "G = fold (groupReaction ell me profiles) (jvals m) []"
    and E: "E = {e \<in> set es. reacts deleted t x e}"
  shows "jget (jget_or G t []) x = None \<longleftrightarrow> E = {}"
    and "jget (jget_or G t []) x = Some acc \<Longrightarrow>
      re_emoji (ra_pill acc) = x \<and> re_count (ra_pill acc) = int (card (reactionActor authority ` E)) \<and>
      distinct (map ru_pubkey (re_users (ra_pill acc))) \<and>
      ru_pubkey ` set (re_users (ra_pill acc)) = reactionActor authority ` E \<and>
      re_reactedByCurrentUser (ra_pill acc) = Some (truthy me \<and> the me \<in> reactionActor authority ` E) \<and>
      ra_earliestCreatedAt acc = Min (ev_created_at ` E)"
proof -
  define L where "L = filter (\<lambda>p. rp_targetId p = t \<and> rp_emoji p = x) (jvals m)"
  note L = pill_presences [OF colons ok L_def E]
  have get: "jget (jget_or G t []) x = fold (\<lambda>p known. Some (addToPill ell me profiles p known)) L None"
    unfolding G groupReaction_get L_def by (simp add: jget_or_def)
  have nil: "L = [] \<longleftrightarrow> E = {}" using L(2) by auto
  show "jget (jget_or G t []) x = None \<longleftrightarrow> E = {}"
    using get nil addToPill_fold [of L ell me profiles] by (cases "L = []") auto
  assume some: "jget (jget_or G t []) x = Some acc"
  then have ne: "L \<noteq> []" using get by auto
  then have pill: "pill_ok ell me profiles L acc" using addToPill_fold [OF ne, of ell me profiles] get some by auto
  have "hd L \<in> set L" using ne by simp
  then have "rp_emoji (hd L) = x" unfolding L_def by simp
  moreover have "ru_pubkey (reactionUser ell me profiles a) = a" for a by (simp add: reactionUser_def)
  then have users: "map ru_pubkey (re_users (ra_pill acc)) = map rp_actorPubkey L"
    using pill unfolding pill_ok_def by (simp add: o_def)
  moreover have "card (reactionActor authority ` E) = length L"
    using L(1,2) distinct_card [of "map rp_actorPubkey L"] by simp
  moreover have "ru_pubkey ` set (re_users (ra_pill acc)) = rp_actorPubkey ` set L"
    using arg_cong [OF users, of set] by simp
  moreover have "distinct (map ru_pubkey (re_users (ra_pill acc)))" using L(1) unfolding users .
  ultimately show "re_emoji (ra_pill acc) = x \<and> re_count (ra_pill acc) = int (card (reactionActor authority ` E)) \<and>
      distinct (map ru_pubkey (re_users (ra_pill acc))) \<and>
      ru_pubkey ` set (re_users (ra_pill acc)) = reactionActor authority ` E \<and>
      re_reactedByCurrentUser (ra_pill acc) = Some (truthy me \<and> the me \<in> reactionActor authority ` E) \<and>
      ra_earliestCreatedAt acc = Min (ev_created_at ` E)"
    using pill L(2) L(3) [OF ne] unfolding pill_ok_def by metis
qed

definition pills_ok :: "string option \<Rightarrow> string option \<Rightarrow> (string \<Rightarrow> relay_event set) \<Rightarrow> timeline_reaction list \<Rightarrow> bool" where
  "pills_ok authority me E pills \<longleftrightarrow>
     distinct (map re_emoji pills) \<and> re_emoji ` set pills = {x. E x \<noteq> {}} \<and>
     (\<forall>pill\<in>set pills.
        re_count pill = int (card (reactionActor authority ` E (re_emoji pill))) \<and>
        distinct (map ru_pubkey (re_users pill)) \<and>
        ru_pubkey ` set (re_users pill) = reactionActor authority ` E (re_emoji pill) \<and>
        re_reactedByCurrentUser pill = Some (truthy me \<and> the me \<in> reactionActor authority ` E (re_emoji pill))) \<and>
     sorted (map (\<lambda>pill. Min (ev_created_at ` E (re_emoji pill))) pills)"

lemma grouped_row:
  assumes colons: "\<forall>e\<in>set es. plain (reactionActor authority e)" and ok: "presence_ok authority deleted es m"
    and G: "G = fold (groupReaction ell me profiles) (jvals m) []"
    and E: "E = (\<lambda>x. {e \<in> set es. reacts deleted t x e})"
  shows "case rowReactions lcmp G t of None \<Rightarrow> \<forall>x. E x = {} | Some pills \<Rightarrow> pills_ok authority me E pills"
proof (cases "jget G t")
  case None
  have "E x = {}" for x
    using grouped_pill(1) [OF colons ok G, of "E x" t x] None unfolding E by (simp add: jget_or_def)
  with None show ?thesis by (simp add: rowReactions_def)
next
  case (Some inner)
  note pill = grouped_pill [OF colons ok G fun_cong [OF E]]
  have inner: "jget_or G t [] = inner" using Some by (simp add: jget_or_def)
  have wf: "jwf inner" using groupReaction_wf [of "[]" ell me profiles "jvals m", folded G] Some by simp
  have good: "re_emoji (ra_pill acc) = x \<and> re_count (ra_pill acc) = int (card (reactionActor authority ` E x)) \<and>
      distinct (map ru_pubkey (re_users (ra_pill acc))) \<and>
      ru_pubkey ` set (re_users (ra_pill acc)) = reactionActor authority ` E x \<and>
      re_reactedByCurrentUser (ra_pill acc) = Some (truthy me \<and> the me \<in> reactionActor authority ` E x) \<and>
      ra_earliestCreatedAt acc = Min (ev_created_at ` E x)" if "(x, acc) \<in> set inner" for x acc
    using pill(2) [of x acc] that jget_in_set [OF wf] unfolding inner by simp
  define accs where "accs = js_sort (comparePills lcmp) (jvals inner)"
  have mem: "\<exists>x. (x, acc) \<in> set inner" if "acc \<in> set accs" for acc using that unfolding accs_def by auto
  have keys: "map (\<lambda>acc. re_emoji (ra_pill acc)) (jvals inner) = jkeys inner" using good by auto
  then have "distinct (map (\<lambda>acc. re_emoji (ra_pill acc)) accs)"
    using wf distinct_map_js_sort [of "\<lambda>acc. re_emoji (ra_pill acc)" "comparePills lcmp" "jvals inner"]
    unfolding accs_def jwf_def by argo
  moreover have "(\<lambda>acc. re_emoji (ra_pill acc)) ` set accs = {x. E x \<noteq> {}}"
  proof -
    have "(\<lambda>acc. re_emoji (ra_pill acc)) ` set accs = set (jkeys inner)"
      using arg_cong [OF keys, of set] unfolding accs_def by (simp add: image_image)
    then show ?thesis using pill(1) unfolding inner by (auto simp: map_of_eq_None_iff)
  qed
  moreover have "map (\<lambda>acc. Min (ev_created_at ` E (re_emoji (ra_pill acc)))) accs = map ra_earliestCreatedAt accs"
    using good mem by (metis (mono_tags, lifting) map_cong)
  then have "sorted (map (\<lambda>acc. Min (ev_created_at ` E (re_emoji (ra_pill acc)))) accs)"
    using comparePills_sorted [of lcmp "jvals inner"] unfolding accs_def by argo
  moreover have "\<forall>pill\<in>set (map ra_pill accs).
        re_count pill = int (card (reactionActor authority ` E (re_emoji pill))) \<and>
        distinct (map ru_pubkey (re_users pill)) \<and>
        ru_pubkey ` set (re_users pill) = reactionActor authority ` E (re_emoji pill) \<and>
        re_reactedByCurrentUser pill = Some (truthy me \<and> the me \<in> reactionActor authority ` E (re_emoji pill))"
    using good mem by fastforce
  ultimately show ?thesis using Some
    unfolding rowReactions_def pills_ok_def by (simp add: accs_def [symmetric] o_def image_image)
qed

text \<open>
  C12. The reactions a row shows: there is one pill per emoji that some undeleted event reacts with, a
  pill counts each member once however often and in whatever order the events arrive, lists exactly
  the members who reacted, tells whether the viewer is one of them, and the pills are in the order of
  their first reaction; a row without a reaction has none. Keys of signers hold no colon.
\<close>

theorem reaction_pills_spec:
  assumes colons: "\<forall>event\<in>set events. plain (ev_pubkey event)"
    and row: "row \<in> set (formatTimelineMessages ell fmt lcmp opts events)"
  shows "case tm_reactions row of
      None \<Rightarrow> \<forall>event\<in>set events. \<forall>emoji. \<not> reacts (deletedEventIds events) (tm_id row) emoji event
    | Some pills \<Rightarrow>
        pills_ok (fo_eventAuthorityAgentId opts) (map_option toLowerCase (fo_currentAgentId opts))
          (\<lambda>emoji. {event \<in> set events. reacts (deletedEventIds events) (tm_id row) emoji event}) pills"
proof -
  define authority where "authority = fo_eventAuthorityAgentId opts"
  define deleted where "deleted = deletedEventIds events"
  obtain event c where row': "row = fst (formatRow ell fmt lcmp opts (rowTables ell opts events) event c)"
    using formatRows_mem row unfolding formatTimelineMessages_def by blast
  have plain: "\<forall>e\<in>set events. plain (reactionActor authority e)" using colons reactionActor_plain by blast
  have shown: "tm_reactions row = rowReactions lcmp (fold (groupReaction ell (map_option toLowerCase (fo_currentAgentId opts))
      (fo_profiles opts)) (jvals (fold (addReaction authority deleted) events [])) []) (tm_id row)"
    unfolding row' by (simp add: rowTables_def authority_def deleted_def)
  show ?thesis
    using grouped_row [OF plain presence_ok_fold [OF plain, of deleted] refl refl, where t = "tm_id row" and lcmp = lcmp
        and ell = ell and me = "map_option toLowerCase (fo_currentAgentId opts)" and profiles = "fo_profiles opts"]
    unfolding shown authority_def [symmetric] deleted_def [symmetric] by (rule option.case_cong [THEN iffD1, rotated -1]) auto
qed

subsection \<open>A sample channel\<close>

text \<open>
  A message with an edit, a deleted edit, two reactions of the same member with one emoji and one of
  another, and a reply to it.
\<close>

definition sample_options :: format_options where
  "sample_options = \<lparr>fo_channel = None, fo_currentAgentId = Some ''me'', fo_currentUserAvatarUrl = None,
     fo_profiles = None, fo_members = None, fo_personaLookup = None, fo_respondToLookup = None,
     fo_eventAuthorityAgentId = None, fo_ownerProfiles = None\<rparr>"

definition sample_id :: "char \<Rightarrow> string" where
  "sample_id c = replicate 64 c"

definition sample_relay_event :: "char \<Rightarrow> string \<Rightarrow> int \<Rightarrow> int \<Rightarrow> string list list \<Rightarrow> string \<Rightarrow> relay_event" where
  "sample_relay_event c author at k tags content =
     \<lparr>ev_id = sample_id c, ev_localKey = None, ev_pubkey = author, ev_created_at = at, ev_kind = k, ev_tags = tags,
      ev_content = content, ev_sig = [], ev_pending = None\<rparr>"

definition sample_channel :: "relay_event list" where
  "sample_channel =
     [sample_relay_event CHR ''a'' ''ann'' 10 9 [] ''helo'',
      sample_relay_event CHR ''b'' ''bob'' 11 9 [[''e'', sample_id CHR ''a'', [], ''reply'']] ''hi'',
      sample_relay_event CHR ''c'' ''ann'' 12 40003 [[''e'', sample_id CHR ''a'']] ''hello'',
      sample_relay_event CHR ''d'' ''ann'' 13 40003 [[''e'', sample_id CHR ''a'']] ''wrong'',
      sample_relay_event CHR ''e'' ''ann'' 14 5 [[''e'', sample_id CHR ''d'']] [],
      sample_relay_event CHR ''f'' ''bob'' 15 7 [[''e'', sample_id CHR ''a'']] ''+'',
      sample_relay_event CHR ''0'' ''bob'' 16 7 [[''e'', sample_id CHR ''a'']] [],
      sample_relay_event CHR ''1'' ''me'' 17 7 [[''e'', sample_id CHR ''a'']] ''+'']"

definition sample_compare :: "string \<Rightarrow> string \<Rightarrow> int" where
  "sample_compare a b = (if a = b then 0 else if a < b then - 1 else 1)"

abbreviation sample_rows :: "timeline_message list" where
  "sample_rows \<equiv> formatTimelineMessages ''..'' (\<lambda>_. []) sample_compare sample_options sample_channel"

lemma sample_rows_eval:
  "map (\<lambda>row. (tm_id row, tm_body row, tm_edited row, tm_parentId row, map_option (map re_count) (tm_reactions row))) sample_rows =
     [(sample_id CHR ''a'', ''hello'', Some True, None, Some [2]),
      (sample_id CHR ''b'', ''hi'', Some False, Some (sample_id CHR ''a''), None)]"
  by code_simp

lemma sample_rows_shape: "length sample_rows = 2 \<and> tm_id (sample_rows ! 0) = sample_id CHR ''a'' \<and>
    tm_edited (sample_rows ! 0) = Some True \<and> tm_parentId (sample_rows ! 1) = Some (sample_id CHR ''a'')"
proof -
  have len: "length sample_rows = 2" using arg_cong [OF sample_rows_eval, of length] by simp
  show ?thesis
    using len arg_cong [OF sample_rows_eval, of "\<lambda>xs. xs ! 0"] arg_cong [OF sample_rows_eval, of "\<lambda>xs. xs ! 1"]
    by simp
qed

lemma sample_rows_mem: "sample_rows ! 0 \<in> set sample_rows" "sample_rows ! 1 \<in> set sample_rows"
  using sample_rows_shape by simp_all

theorem row_shows_latest_edit_witness:
  "\<exists>edit\<in>set sample_channel. liveEdit (deletedEventIds sample_channel) (sample_id CHR ''a'') edit \<and>
     tm_body (sample_rows ! 0) = ev_content edit"
  using row_shows_latest_edit [OF sample_rows_mem(1)] sample_rows_shape by auto

theorem row_depth_spec_witness:
  "distinct (map ev_id (visibleEvents sample_channel)) \<and>
   tm_parentId (sample_rows ! 1) = Some (tm_id (sample_rows ! 0)) \<and>
   tm_depth (sample_rows ! 1) = tm_depth (sample_rows ! 0) + 1"
proof -
  have d: "distinct (map ev_id (visibleEvents sample_channel))" by code_simp
  have r: "\<forall>e\<in>set (visibleEvents sample_channel). \<forall>p\<in>set (visibleEvents sample_channel).
      tr_parentId (getThreadReference (ev_tags e)) = Some (ev_id p) \<longrightarrow>
      (if ev_id p = sample_id CHR ''a'' then 0 else 1 :: nat) < (if ev_id e = sample_id CHR ''a'' then 0 else 1)"
    by code_simp
  have parent: "tm_parentId (sample_rows ! 1) = Some (tm_id (sample_rows ! 0))" using sample_rows_shape by simp
  moreover have "truthy (tm_parentId (sample_rows ! 1))" using sample_rows_shape by (simp add: truthy_def sample_id_def)
  ultimately show ?thesis
    using d sample_rows_mem(1)
      row_depth_spec [OF d, of "\<lambda>i. if i = sample_id CHR ''a'' then 0 else 1", OF r sample_rows_mem(2)] by blast
qed

theorem reaction_pills_spec_witness:
  "case tm_reactions (sample_rows ! 0) of None \<Rightarrow> False
   | Some pills \<Rightarrow> pills_ok None (Some ''me'')
       (\<lambda>emoji. {event \<in> set sample_channel. reacts (deletedEventIds sample_channel) (sample_id CHR ''a'') emoji event}) pills"
proof -
  have p: "\<forall>event\<in>set sample_channel. plain (ev_pubkey event)" by code_simp
  have "tm_reactions (sample_rows ! 0) \<noteq> None"
    using arg_cong [OF sample_rows_eval, of "\<lambda>xs. xs ! 0"] sample_rows_shape by auto
  then show ?thesis
    using reaction_pills_spec [OF p sample_rows_mem(1)] sample_rows_shape
    by (auto simp: sample_options_def toLowerCase_def js_lower_char_def)
qed

end
