(* ===== verification/JsText.thy ===== *)
theory JsText
  imports Json
begin

text \<open>
  The text operations of JavaScript that the agent transcript uses: searching, splitting and joining
  strings, replacing runs of characters, lines, word boundaries, and the indented form of
  \<open>JSON.stringify\<close>. Each regular expression of the source is the scanner it denotes; the comment of
  its definition gives the expression.
\<close>

subsection \<open>Characters\<close>

definition newline :: char where "newline = CHR 0x0A"
definition carriage :: char where "carriage = CHR 0x0D"

definition word_char :: "char \<Rightarrow> bool" where
  "word_char c = (let n = of_char c :: nat in
     (48 \<le> n \<and> n \<le> 57) \<or> (65 \<le> n \<and> n \<le> 90) \<or> n = 95 \<or> (97 \<le> n \<and> n \<le> 122))"

definition lower_letter :: "char \<Rightarrow> bool" where
  "lower_letter c = (let n = of_char c :: nat in 97 \<le> n \<and> n \<le> 122)"

definition ascii_upper :: "char \<Rightarrow> char" where
  "ascii_upper c = (if lower_letter c then char_of ((of_char c :: nat) - 32) else c)"

definition starts_word :: "string \<Rightarrow> bool" where
  "starts_word s = (case s of [] \<Rightarrow> False | c # _ \<Rightarrow> word_char c)"

subsection \<open>Searching\<close>

fun indexOf :: "string \<Rightarrow> string \<Rightarrow> nat option" where
  "indexOf p [] = (if p = [] then Some 0 else None)"
| "indexOf p (c # s) = (if startsWith (c # s) p then Some 0 else map_option Suc (indexOf p s))"

fun lastIndexOf :: "string \<Rightarrow> string \<Rightarrow> nat option" where
  "lastIndexOf p [] = (if p = [] then Some 0 else None)"
| "lastIndexOf p (c # s) =
     (case lastIndexOf p s of
        Some i \<Rightarrow> Some (Suc i)
      | None \<Rightarrow> if startsWith (c # s) p then Some 0 else None)"

definition js_includes :: "string \<Rightarrow> string \<Rightarrow> bool" where
  "js_includes s p = (indexOf p s \<noteq> None)"

definition endsWith :: "string \<Rightarrow> string \<Rightarrow> bool" where
  "endsWith s p = startsWith (rev s) (rev p)"

text \<open>\<open>/\bphrase\b/.test(s)\<close> for a phrase that begins and ends with a word character.\<close>

fun test_phrase_from :: "bool \<Rightarrow> string \<Rightarrow> string \<Rightarrow> bool" where
  "test_phrase_from inWord p [] = False"
| "test_phrase_from inWord p (c # s) =
     ((\<not> inWord \<and> startsWith (c # s) p \<and> \<not> starts_word (drop (length p) (c # s))) \<or>
      test_phrase_from (word_char c) p s)"

definition test_phrase :: "string \<Rightarrow> string \<Rightarrow> bool" where
  "test_phrase p s = test_phrase_from False p s"

subsection \<open>Splitting, joining and replacing\<close>

fun joinWith :: "string \<Rightarrow> string list \<Rightarrow> string" where
  "joinWith sep [] = []"
| "joinWith sep [x] = x"
| "joinWith sep (x # y # xs) = x @ sep @ joinWith sep (y # xs)"

text \<open>\<open>s.split(/[...]/)\<close> for a class of characters.\<close>

fun splitChars :: "(char \<Rightarrow> bool) \<Rightarrow> string \<Rightarrow> string list" where
  "splitChars P [] = [[]]"
| "splitChars P (c # s) =
     (if P c then [] # splitChars P s
      else case splitChars P s of [] \<Rightarrow> [[c]] | l # ls \<Rightarrow> (c # l) # ls)"

text \<open>\<open>s.replace(/[...]+/g, rep)\<close>.\<close>

function replaceRuns :: "(char \<Rightarrow> bool) \<Rightarrow> string \<Rightarrow> string \<Rightarrow> string" where
  "replaceRuns P rep [] = []"
| "replaceRuns P rep (c # s) =
     (if P c then rep @ replaceRuns P rep (dropWhile P s) else c # replaceRuns P rep s)"
  by pat_completeness auto

termination replaceRuns
  by (relation "measure (\<lambda>(P, rep, s). length s)") (auto simp: le_imp_less_Suc length_dropWhile_le)

text \<open>\<open>s.split(/[...]+/)\<close>.\<close>

definition splitRuns :: "(char \<Rightarrow> bool) \<Rightarrow> string \<Rightarrow> string list" where
  "splitRuns P s =
     (case filter P s of [] \<Rightarrow> [s] | c # _ \<Rightarrow> splitChars P (replaceRuns P [c] s))"

text \<open>\<open>s.split(/\r?\n/)\<close>.\<close>

fun splitLines :: "string \<Rightarrow> string list" where
  "splitLines [] = [[]]"
| "splitLines (c # s) =
     (if c = newline then [] # splitLines s
      else if c = carriage \<and> startsWith s [newline] then [] # splitLines (tl s)
      else case splitLines s of [] \<Rightarrow> [[c]] | l # ls \<Rightarrow> (c # l) # ls)"

definition stripChars :: "(char \<Rightarrow> bool) \<Rightarrow> string \<Rightarrow> string" where
  "stripChars P s = rev (dropWhile P (rev (dropWhile P s)))"

definition removePrefix :: "string \<Rightarrow> string \<Rightarrow> string" where
  "removePrefix p s = (if startsWith s p then drop (length p) s else s)"

text \<open>\<open>s.replace(/\b\w/g, c => c.toUpperCase())\<close>.\<close>

fun upperWords_from :: "bool \<Rightarrow> string \<Rightarrow> string" where
  "upperWords_from inWord [] = []"
| "upperWords_from inWord (c # s) =
     (if word_char c \<and> \<not> inWord then ascii_upper c else c) # upperWords_from (word_char c) s"

text \<open>
  \<open>toUpperCase\<close> of one character; U+00B5 and U+00FF, whose upper case is no code unit below 256, are
  left as they are.
\<close>

definition js_upper_char :: "char \<Rightarrow> string" where
  "js_upper_char c = (let n = of_char c :: nat in
     if (97 \<le> n \<and> n \<le> 122) \<or> (224 \<le> n \<and> n \<le> 254 \<and> n \<noteq> 247) then [char_of (n - 32)]
     else if n = 223 then ''SS'' else [c])"

definition upperFirst :: "string \<Rightarrow> string" where
  "upperFirst s = (case s of [] \<Rightarrow> [] | c # cs \<Rightarrow> js_upper_char c @ cs)"

definition dash_or_underscore :: "char \<Rightarrow> bool" where
  "dash_or_underscore c = (c = CHR ''-'' \<or> c = CHR ''_'')"

definition titleCase :: "string \<Rightarrow> string" where
  "titleCase value =
     upperWords_from False
       (js_trim (replaceRuns js_space '' '' (replaceRuns dash_or_underscore '' '' value)))"

subsection \<open>Values of unknown type\<close>

text \<open>
  \<open>asRecord\<close> of an array is the array, which has none of the named fields that the callers read.
\<close>

definition asRecord :: "jsval option \<Rightarrow> (string \<times> jsval) list" where
  "asRecord value = (case value of Some (JObj fields) \<Rightarrow> fields | _ \<Rightarrow> [])"

definition asString :: "jsval option \<Rightarrow> string option" where
  "asString value = (case value of Some (JStr s) \<Rightarrow> Some s | _ \<Rightarrow> None)"

definition orElse :: "'a option \<Rightarrow> 'a option \<Rightarrow> 'a option" where
  "orElse x y = (case x of None \<Rightarrow> y | Some _ \<Rightarrow> x)"

definition getToolString :: "(string \<times> jsval) list \<Rightarrow> string list \<Rightarrow> string option" where
  "getToolString args keys =
     map_option js_trim
       (Option.bind (find (\<lambda>key. case jfield args key of Some (JStr s) \<Rightarrow> js_trim s \<noteq> [] | _ \<Rightarrow> False) keys)
         (\<lambda>key. asString (jfield args key)))"

fun getToolStringList :: "(string \<times> jsval) list \<Rightarrow> string list \<Rightarrow> string list" where
  "getToolStringList args [] = []"
| "getToolStringList args (key # keys) =
     (case jfield args key of
        Some (JStr s) \<Rightarrow> if js_trim s \<noteq> [] then [js_trim s] else getToolStringList args keys
      | Some (JArr items) \<Rightarrow>
          concat (map (\<lambda>item. case item of JStr s \<Rightarrow> if js_trim s \<noteq> [] then [s] else [] | _ \<Rightarrow> []) items)
      | _ \<Rightarrow> getToolStringList args keys)"

subsection \<open>Indented JSON\<close>

text \<open>\<open>JSON.stringify(value, null, 2)\<close>; an empty array or object prints without a line break.\<close>

definition indent :: "nat \<Rightarrow> string" where
  "indent n = newline # replicate (2 * n) CHR '' ''"

fun stringify2 :: "nat \<Rightarrow> jsval \<Rightarrow> string" where
  "stringify2 n (JArr vs) =
     (if vs = [] then ''[]''
      else ''['' @ joinWith '','' (map (\<lambda>v. indent (Suc n) @ stringify2 (Suc n) v) vs) @ indent n @ '']'')"
| "stringify2 n (JObj kvs) =
     (if kvs = [] then ''{}''
      else ''{'' @ joinWith '',''
          (map (\<lambda>(k, v). indent (Suc n) @ json_quote k @ '': '' @ stringify2 (Suc n) v) kvs) @ indent n @ ''}'')"
| "stringify2 n v = stringify v"

subsection \<open>Laws\<close>

lemma startsWith_Nil [simp]: "startsWith s []"
  by (simp add: startsWith_def)

lemma indexOf_Some:
  "indexOf p s = Some i \<Longrightarrow> startsWith (drop i s) p \<and> i \<le> length s \<and> (\<forall>j<i. \<not> startsWith (drop j s) p)"
proof (induction s arbitrary: i)
  case (Cons c s)
  then show ?case by (cases i) (auto split: if_splits simp: less_Suc_eq_0_disj)
qed (auto split: if_splits)

lemma indexOf_None: "indexOf p s = None \<Longrightarrow> \<not> startsWith (drop j s) p"
proof (induction s arbitrary: j)
  case Nil
  then show ?case by (auto simp: startsWith_def split: if_splits)
next
  case (Cons c s)
  then show ?case by (cases j) (auto split: if_splits)
qed

lemma js_includes_iff: "js_includes s p \<longleftrightarrow> (\<exists>a b. s = a @ p @ b)"
proof
  assume "js_includes s p"
  then obtain i where "indexOf p s = Some i" by (auto simp: js_includes_def)
  then obtain b where "drop i s = p @ b" using indexOf_Some by (metis startsWith_iff)
  then show "\<exists>a b. s = a @ p @ b" by (metis append_take_drop_id)
next
  assume "\<exists>a b. s = a @ p @ b"
  then obtain a b where "s = a @ p @ b" by blast
  then have "startsWith (drop (length a) s) p" by simp
  then show "js_includes s p" using indexOf_None unfolding js_includes_def by blast
qed

text \<open>The marker stands at the end of \<open>a\<close> and not earlier, or at the start of \<open>b\<close> and not later.\<close>

definition first_here :: "string \<Rightarrow> string \<Rightarrow> bool" where
  "first_here p a \<longleftrightarrow> \<not> js_includes (a @ butlast p) p"

definition last_here :: "string \<Rightarrow> string \<Rightarrow> bool" where
  "last_here p b \<longleftrightarrow> \<not> js_includes (tl p @ b) p"

lemma indexOf_first:
  assumes "p \<noteq> []" and "first_here p a"
  shows "indexOf p (a @ p @ b) = Some (length a)"
  using assms(2)
proof (induction a)
  case Nil
  then show ?case using assms(1) by (cases p) (auto simp: startsWith_def)
next
  case (Cons c a)
  have "\<not> startsWith (c # a @ p @ b) p"
  proof
    assume "startsWith (c # a @ p @ b) p"
    moreover have "c # a @ p @ b = (c # a @ butlast p) @ last p # b" using assms(1) by simp
    ultimately have "take (length p) ((c # a @ butlast p) @ last p # b) = p"
      unfolding startsWith_def by metis
    moreover have "length p \<le> length (c # a @ butlast p)" using assms(1) by (cases p) auto
    ultimately have "startsWith (c # a @ butlast p) p"
      unfolding startsWith_def by (metis append_eq_conv_conj append_take_drop_id take_append take_take min.absorb1)
    then have "js_includes (c # a @ butlast p) p" unfolding startsWith_iff js_includes_iff by (metis append_Nil)
    then show False using Cons.prems by (simp add: first_here_def)
  qed
  moreover have "first_here p a"
    using Cons.prems unfolding first_here_def js_includes_iff by (metis append_Cons)
  ultimately show ?case using Cons.IH by simp
qed

lemma lastIndexOf_None: "p \<noteq> [] \<Longrightarrow> lastIndexOf p s = None \<longleftrightarrow> \<not> js_includes s p"
  by (induction s) (auto simp: js_includes_def split: option.splits)

lemma lastIndexOf_last:
  assumes "p \<noteq> []" and "last_here p b"
  shows "lastIndexOf p (a @ p @ b) = Some (length a)"
proof (induction a)
  case Nil
  obtain c q where p: "p = c # q" using assms(1) by (cases p) auto
  have "lastIndexOf p (q @ b) = None" using assms lastIndexOf_None [OF assms(1), of "q @ b"] by (simp add: last_here_def p)
  then show ?case by (simp add: p startsWith_def)
qed simp

lemma js_trim_strip:
  assumes s: "js_trim s = s" and t: "list_all js_space t"
  shows "js_trim (s @ t) = s"
proof (cases "dropWhile js_space s = []")
  case True
  then have "s = []" using s unfolding js_trim_def by (metis True dropWhile.simps(1) rev.simps(1))
  moreover have "dropWhile js_space t = []" using t by (simp add: list_all_iff dropWhile_eq_Nil_conv)
  ultimately show ?thesis unfolding js_trim_def by (simp only: append_Nil list.simps dropWhile.simps rev.simps)
next
  case False
  then have "dropWhile js_space (s @ t) = dropWhile js_space s @ t" by (auto simp: dropWhile_append dropWhile_eq_Nil_conv)
  moreover have "dropWhile js_space (rev t @ u) = dropWhile js_space u" for u
    using t unfolding list_all_iff by (intro dropWhile_append2) simp
  ultimately show ?thesis using s by (simp add: js_trim_def)
qed

end
