(* ===== verification/ToolCatalog.thy ===== *)
theory ToolCatalog
  imports JsText
begin

text \<open>
  The names of tools (\<open>features/agents/ui/agentSessionToolCatalog.ts\<close>): the catalogue of the
  workspace's own tools, the normal form of a tool's name, and the tool that a free-form title means.
  An icon is the name of its component.
\<close>

subsection \<open>Status\<close>

datatype tool_status = Executing | Completed | Failed | Pending

definition normalizeToolStatus :: "string \<Rightarrow> tool_status" where
  "normalizeToolStatus status =
     (let normalized = toLowerCase status in
      if js_includes normalized ''complete'' \<or> js_includes normalized ''success'' \<or> normalized = ''done''
      then Completed
      else if js_includes normalized ''fail'' \<or> js_includes normalized ''error'' then Failed
      else if js_includes normalized ''pending'' then Pending
      else Executing)"

record status_display =
  sd_label :: string
  sd_icon :: string
  sd_state :: string
  sd_variant :: string

definition getToolStatusDisplay :: "tool_status \<Rightarrow> bool \<Rightarrow> status_display" where
  "getToolStatusDisplay status isError =
     (if isError \<or> status = Failed
      then \<lparr>sd_label = ''Error'', sd_icon = ''XCircle'', sd_state = ''output-error'', sd_variant = ''destructive''\<rparr>
      else if status = Completed
      then \<lparr>sd_label = ''Done'', sd_icon = ''CheckCircle2'', sd_state = ''output-available'', sd_variant = ''secondary''\<rparr>
      else if status = Pending
      then \<lparr>sd_label = ''Pending'', sd_icon = ''CircleDot'', sd_state = ''input-streaming'', sd_variant = ''secondary''\<rparr>
      else \<lparr>sd_label = ''Running'', sd_icon = ''Clock3'', sd_state = ''input-available'', sd_variant = ''secondary''\<rparr>)"

subsection \<open>The catalogue\<close>

definition BUZZ_READ_TOOLS :: "string list" where
  "BUZZ_READ_TOOLS =
     [''get_messages'', ''get_channel_history'', ''get_thread'', ''search'', ''get_feed'', ''get_reactions'',
      ''list_channels'', ''get_channel'', ''get_users'', ''get_presence'', ''list_channel_members'', ''list_dms'',
      ''get_canvas'', ''list_workflows'', ''get_workflow_runs'', ''get_event'', ''get_user_notes'',
      ''get_contact_list'']"

definition BUZZ_WRITE_TOOLS :: "string list" where
  "BUZZ_WRITE_TOOLS =
     [''send_message'', ''send_diff_message'', ''edit_message'', ''delete_message'', ''add_reaction'',
      ''remove_reaction'', ''join_channel'', ''leave_channel'', ''update_channel'', ''set_channel_topic'',
      ''set_channel_purpose'', ''open_dm'', ''set_profile'', ''set_presence'', ''trigger_workflow'',
      ''approve_step'', ''create_channel'', ''archive_channel'', ''unarchive_channel'', ''add_channel_member'',
      ''remove_channel_member'', ''add_dm_member'', ''hide_dm'', ''set_canvas'', ''create_workflow'',
      ''update_workflow'', ''delete_workflow'', ''set_channel_add_policy'', ''vote_on_post'', ''publish_note'',
      ''set_contact_list'']"

definition BUZZ_TOOL_NAMES :: "string list" where
  "BUZZ_TOOL_NAMES = BUZZ_READ_TOOLS @ BUZZ_WRITE_TOOLS"

definition BUZZ_TOOL_NAMES_BY_LENGTH :: "string list" where
  "BUZZ_TOOL_NAMES_BY_LENGTH =
     js_sort (\<lambda>left right. int (length right) - int (length left)) BUZZ_TOOL_NAMES"

definition BUZZ_TOOL_TITLE_ALIASES :: "(string \<times> string) list" where
  "BUZZ_TOOL_TITLE_ALIASES =
     [(''sending message to channel'', ''send_message''),
      (''retrieving recent messages from channel'', ''get_messages''),
      (''getting channel details'', ''get_channel''),
      (''getting user information'', ''get_users''),
      (''searching relay history'', ''search''),
      (''getting thread'', ''get_thread''),
      (''adding reaction'', ''add_reaction''),
      (''removing reaction'', ''remove_reaction'')]"

subsection \<open>Names\<close>

definition name_char :: "char \<Rightarrow> bool" where
  "name_char c = (lower_letter c \<or> is_digit c \<or> c = CHR ''_'')"

definition normalizeToolNameText :: "string \<Rightarrow> string" where
  "normalizeToolNameText value =
     stripChars (\<lambda>c. c = CHR ''_'')
       (replaceRuns (\<lambda>c. c = CHR ''_'') ''_''
         (replaceRuns (\<lambda>c. \<not> name_char c) ''_'' (toLowerCase (js_trim value))))"

definition findBuzzToolAlias :: "string \<Rightarrow> string option" where
  "findBuzzToolAlias value =
     (let normalizedPhrase =
        replaceRuns js_space '' '' (replaceRuns dash_or_underscore '' '' (toLowerCase (js_trim value)))
      in map_option snd (find (\<lambda>(pattern, name). test_phrase pattern normalizedPhrase) BUZZ_TOOL_TITLE_ALIASES))"

definition findBuzzToolName :: "string \<Rightarrow> bool \<Rightarrow> string option" where
  "findBuzzToolName value includeShortNames =
     (case findBuzzToolAlias value of
        Some alias \<Rightarrow> Some alias
      | None \<Rightarrow>
          (let normalized = normalizeToolNameText value in
           find (\<lambda>name. (includeShortNames \<or> length name \<ge> 8) \<and> js_includes normalized name)
             BUZZ_TOOL_NAMES_BY_LENGTH))"

text \<open>The first match of \<open>/[a-z][a-z0-9_]+/\<close>.\<close>

fun firstName :: "string \<Rightarrow> string option" where
  "firstName [] = None"
| "firstName (c # s) =
     (if lower_letter c \<and> takeWhile name_char s \<noteq> [] then Some (c # takeWhile name_char s) else firstName s)"

definition normalizeToolName :: "string \<Rightarrow> string" where
  "normalizeToolName title =
     (case findBuzzToolName title True of
        Some knownName \<Rightarrow> knownName
      | None \<Rightarrow>
          (let normalized = removePrefix ''buzz_'' (normalizeToolNameText title) in
           case firstName normalized of Some name \<Rightarrow> name | None \<Rightarrow> normalized))"

definition isGenericToolTitle :: "string \<Rightarrow> bool" where
  "isGenericToolTitle value =
     (normalizeToolNameText value \<in>
        set [[], ''tool'', ''tool_call'', ''mcp_tool_call'', ''unknown'', ''read'', ''write'', ''execute'', ''completed''])"

definition formatToolTitle :: "string \<Rightarrow> string option \<Rightarrow> string" where
  "formatToolTitle toolName fallbackTitle =
     (let name = normalizeToolName toolName in
      if name \<in> set BUZZ_READ_TOOLS \<or> name \<in> set BUZZ_WRITE_TOOLS
      then joinWith '' '' (map upperFirst (splitChars (\<lambda>c. c = CHR ''_'') name))
      else if truthy fallbackTitle \<and> \<not> isGenericToolTitle (the fallbackTitle) then the fallbackTitle
      else toolName)"

subsection \<open>What a workspace tool does\<close>

datatype activity_tone = ToneRead | ToneWrite | ToneAdmin | ToneNeutral

record buzz_tool_info =
  bt_icon :: string
  bt_label :: string
  bt_tone :: activity_tone

definition infoForName :: "string \<Rightarrow> buzz_tool_info option" where
  "infoForName name =
     (let isRead = (name \<in> set BUZZ_READ_TOOLS);
          isWrite = (name \<in> set BUZZ_WRITE_TOOLS)
      in
      if \<not> isRead \<and> \<not> isWrite then None
      else if js_includes name ''workflow'' \<or> name = ''approve_step''
      then Some \<lparr>bt_icon = ''Workflow'',
             bt_label = (if isRead then ''Reads workflow state from tic-tac-toe.''
                         else ''Updates workflow state in tic-tac-toe.''),
             bt_tone = (if isWrite then ToneWrite else ToneRead)\<rparr>
      else if js_includes name ''channel'' \<or> js_includes name ''messages'' \<or> name = ''get_thread''
      then Some \<lparr>bt_icon = ''Hash'',
             bt_label = (if isRead then ''Reads channel context from the x0x workspace.''
                         else ''Changes channel state in the x0x workspace.''),
             bt_tone = (if isWrite then ToneWrite else ToneRead)\<rparr>
      else if js_includes name ''user'' \<or> js_includes name ''member'' \<or> js_includes name ''presence''
      then Some \<lparr>bt_icon = ''Users'',
             bt_label = (if isRead then ''Reads x0x identity or presence data.''
                         else ''Updates x0x identity or membership data.''),
             bt_tone = (if isWrite then ToneWrite else ToneAdmin)\<rparr>
      else if js_includes name ''search'' \<or> name = ''get_feed''
      then Some \<lparr>bt_icon = ''Search'', bt_label = ''Searches x0x workspace history.'', bt_tone = ToneRead\<rparr>
      else if startsWith name ''send_'' \<or> js_includes name ''reaction'' \<or> name = ''publish_note''
      then Some \<lparr>bt_icon = ''Send'', bt_label = ''Publishes x0x workspace activity.'', bt_tone = ToneWrite\<rparr>
      else Some \<lparr>bt_icon = ''MessageSquare'',
             bt_label = (if isRead then ''Reads from tic-tac-toe.'' else ''Writes to tic-tac-toe.''),
             bt_tone = (if isWrite then ToneWrite else ToneRead)\<rparr>)"

definition getBuzzToolInfo :: "string \<Rightarrow> buzz_tool_info option" where
  "getBuzzToolInfo title = infoForName (normalizeToolName title)"

subsection \<open>The normal form of a name\<close>

abbreviation under :: "char \<Rightarrow> bool" where "under c \<equiv> c = CHR ''_''"

definition normal_name :: "string \<Rightarrow> bool" where
  "normal_name s \<longleftrightarrow> list_all name_char s \<and> successively (\<lambda>a b. \<not> (under a \<and> under b)) s \<and>
     (s \<noteq> [] \<longrightarrow> \<not> under (hd s) \<and> \<not> under (last s))"

lemma set_replaceRuns: "set (replaceRuns P rep s) \<subseteq> set rep \<union> {c \<in> set s. \<not> P c}"
proof (induction P rep s rule: replaceRuns.induct)
  case (2 P rep c s)
  then show ?case using set_dropWhileD [of _ P s] by (auto split: if_splits)
qed simp

lemma hd_replaceRuns_under:
  "\<not> P c \<Longrightarrow> replaceRuns P [c] s \<noteq> [] \<Longrightarrow> s \<noteq> [] \<Longrightarrow> hd (replaceRuns P [c] s) = (if P (hd s) then c else hd s)"
  by (cases s) auto

lemma replaceRuns_Nil [simp]: "rep \<noteq> [] \<Longrightarrow> replaceRuns P rep s = [] \<longleftrightarrow> s = []"
  by (cases s) auto

lemma collapse_successively: "successively (\<lambda>a b. \<not> (under a \<and> under b)) (replaceRuns under ''_'' s)"
proof (induction under "''_''" s rule: replaceRuns.induct)
  case (2 c s)
  have head: "\<not> under (hd (replaceRuns under ''_'' (dropWhile under s)))" if "dropWhile under s \<noteq> []"
    using that hd_dropWhile [OF that] by (cases "dropWhile under s") auto
  show ?case using 2 head by (auto simp: successively_Cons)
qed simp

lemma collapse_id: "successively (\<lambda>a b. \<not> (under a \<and> under b)) s \<Longrightarrow> replaceRuns under ''_'' s = s"
proof (induction s)
  case (Cons c s)
  then have "dropWhile under s = s" if "under c" using that by (cases s) (auto simp: successively_Cons)
  with Cons show ?case by (auto simp: successively_Cons)
qed simp

lemma replaceRuns_id: "list_all (\<lambda>c. \<not> P c) s \<Longrightarrow> replaceRuns P rep s = s"
  by (induction s) auto

lemma stripChars_split: "\<exists>a b. s = a @ stripChars P s @ b"
proof -
  have "\<exists>a. t = a @ dropWhile P t" for t by (metis takeWhile_dropWhile_id)
  then obtain a b where "s = a @ dropWhile P s" "rev (dropWhile P s) = b @ dropWhile P (rev (dropWhile P s))" by metis
  then show ?thesis unfolding stripChars_def by (metis append.assoc rev_append rev_rev_ident)
qed

lemma stripChars_ends:
  assumes "stripChars P s \<noteq> []"
  shows "\<not> P (hd (stripChars P s))" and "\<not> P (last (stripChars P s))"
proof -
  define t where "t = dropWhile P s"
  have t: "stripChars P s = rev (dropWhile P (rev t))" by (simp add: stripChars_def t_def)
  have ne: "dropWhile P (rev t) \<noteq> []" using assms unfolding t by simp
  show "\<not> P (last (stripChars P s))" unfolding t using hd_dropWhile [OF ne] by (simp add: last_rev)
  have "t \<noteq> []" using ne by auto
  then have "\<not> P (hd t)" unfolding t_def using hd_dropWhile by blast
  moreover have "\<exists>b. t = stripChars P s @ b" unfolding t
    by (metis rev_append rev_rev_ident takeWhile_dropWhile_id)
  then have "hd (stripChars P s) = hd t" using assms by (metis hd_append2)
  ultimately show "\<not> P (hd (stripChars P s))" by simp
qed

lemma stripChars_id: "s = [] \<or> (\<not> P (hd s) \<and> \<not> P (last s)) \<Longrightarrow> stripChars P s = s"
proof -
  have "dropWhile P t = t" if "t = [] \<or> \<not> P (hd t)" for t using that by (cases t) auto
  moreover have "hd (rev s) = last s" by (simp add: hd_rev)
  ultimately show "s = [] \<or> (\<not> P (hd s) \<and> \<not> P (last s)) \<Longrightarrow> stripChars P s = s"
    unfolding stripChars_def by (metis rev_is_Nil_conv rev_rev_ident)
qed

lemma normalizeToolNameText_normal_form: "normal_name (normalizeToolNameText s)"
proof -
  define t where "t = replaceRuns under ''_'' (replaceRuns (\<lambda>c. \<not> name_char c) ''_'' (toLowerCase (js_trim s)))"
  have res: "normalizeToolNameText s = stripChars under t" by (simp add: normalizeToolNameText_def t_def)
  obtain a b where t: "t = a @ stripChars under t @ b" using stripChars_split by blast
  have "name_char CHR ''_''" by (simp add: name_char_def)
  then have "list_all name_char t"
    using set_replaceRuns [of under "''_''"] set_replaceRuns [of "\<lambda>c. \<not> name_char c" "''_''" "toLowerCase (js_trim s)"]
    unfolding t_def list_all_iff by fastforce
  then have "list_all name_char (stripChars under t)" using t by (metis list_all_append)
  moreover have "successively (\<lambda>a b. \<not> (under a \<and> under b)) t" unfolding t_def by (rule collapse_successively)
  then have "successively (\<lambda>a b. \<not> (under a \<and> under b)) (stripChars under t)"
    using t by (metis successively_append_iff)
  ultimately show ?thesis using stripChars_ends [of under t] unfolding normal_name_def res by blast
qed

lemma name_char_lower: "name_char c \<Longrightarrow> js_lower_char c = c"
  by (auto simp: name_char_def lower_letter_def is_digit_def js_lower_char_def)

lemma name_char_space: "name_char c \<Longrightarrow> \<not> js_space c"
  by (auto simp: name_char_def lower_letter_def is_digit_def js_space_def)

lemma normal_text:
  assumes "normal_name s"
  shows "js_trim s = s" and "toLowerCase s = s"
proof -
  have chars: "list_all name_char s" using assms by (simp add: normal_name_def)
  then show "toLowerCase s = s" by (simp add: toLowerCase_def list_all_iff name_char_lower map_idI)
  have "js_trim s = stripChars js_space s" by (simp add: js_trim_def stripChars_def)
  then show "js_trim s = s"
    using chars stripChars_id [of s js_space] unfolding list_all_iff by (metis hd_in_set last_in_set name_char_space)
qed

lemma normalizeToolNameText_id:
  assumes "normal_name s"
  shows "normalizeToolNameText s = s"
proof -
  have "replaceRuns (\<lambda>c. \<not> name_char c) ''_'' s = s"
    using assms by (intro replaceRuns_id) (simp add: list_all_iff normal_name_def)
  then show ?thesis
    using assms normal_text [OF assms] collapse_id [of s] stripChars_id [of s under]
    by (auto simp: normalizeToolNameText_def normal_name_def)
qed

subsection \<open>Known tools\<close>

lemma names_by_length: "sorted (map (\<lambda>n. - int (length n)) BUZZ_TOOL_NAMES_BY_LENGTH)"
  using desc.js_sort_sorted [where f = "\<lambda>n. int (length n)" and xs = BUZZ_TOOL_NAMES]
  by (simp add: BUZZ_TOOL_NAMES_BY_LENGTH_def)

lemma find_longest:
  assumes "sorted (map (\<lambda>n. - int (length n)) ns)" and "find P ns = Some n" and "n' \<in> set ns" and "P n'"
  shows "length n' \<le> length n"
  using assms by (induction ns) (auto split: if_splits)

lemma findBuzzToolName_SomeD:
  assumes "findBuzzToolName value True = Some n" and "findBuzzToolAlias value = None"
  shows "n \<in> set BUZZ_TOOL_NAMES \<and> js_includes (normalizeToolNameText value) n \<and>
    (\<forall>n'\<in>set BUZZ_TOOL_NAMES. js_includes (normalizeToolNameText value) n' \<longrightarrow> length n' \<le> length n)"
proof -
  have f: "find (\<lambda>name. js_includes (normalizeToolNameText value) name) BUZZ_TOOL_NAMES_BY_LENGTH = Some n"
    using assms by (simp add: findBuzzToolName_def)
  have names: "set BUZZ_TOOL_NAMES_BY_LENGTH = set BUZZ_TOOL_NAMES" by (simp add: BUZZ_TOOL_NAMES_BY_LENGTH_def)
  show ?thesis using find_mem_Some [OF f] find_longest [OF names_by_length f] unfolding names by blast
qed

lemma known_name_found:
  assumes "n \<in> set BUZZ_TOOL_NAMES" and "normal_name n" and "findBuzzToolAlias n = None"
  shows "findBuzzToolName n True = Some n"
proof -
  have self: "js_includes n n" by (simp add: js_includes_iff) (metis append_Nil append_Nil2)
  have names: "set BUZZ_TOOL_NAMES_BY_LENGTH = set BUZZ_TOOL_NAMES" by (simp add: BUZZ_TOOL_NAMES_BY_LENGTH_def)
  have "findBuzzToolName n True \<noteq> None"
    using assms self names by (auto simp: findBuzzToolName_def normalizeToolNameText_id find_None_iff)
  then obtain m where m: "findBuzzToolName n True = Some m" by blast
  have inc: "js_includes n m" and len: "length n \<le> length m"
    using findBuzzToolName_SomeD [OF m assms(3)] assms(1) self by (simp_all add: normalizeToolNameText_id [OF assms(2)])
  obtain a b where "n = a @ m @ b" using inc unfolding js_includes_iff by blast
  with len m show ?thesis by simp
qed

text \<open>The titles of the aliases all speak of something in progress; no name of the catalogue does.\<close>

lemma replaceRuns_single:
  "successively (\<lambda>a b. \<not> (P a \<and> P b)) s \<Longrightarrow> replaceRuns P [c] s = map (\<lambda>x. if P x then c else x) s"
proof (induction s)
  case (Cons x s)
  then have "dropWhile P s = s" if "P x" using that by (cases s) (auto simp: successively_Cons)
  with Cons show ?case by (auto simp: successively_Cons)
qed simp

lemma test_phrase_includes: "test_phrase_from w p s \<Longrightarrow> js_includes s p"
proof (induction s arbitrary: w)
  case (Cons c s)
  then show ?case by (auto simp: js_includes_def split: option.splits)
qed simp

lemma alias_patterns: "(pattern, name) \<in> set BUZZ_TOOL_TITLE_ALIASES \<Longrightarrow> js_includes pattern ''ing ''"
  by (auto simp: BUZZ_TOOL_TITLE_ALIASES_def js_includes_def startsWith_def)

lemma map_split3:
  assumes "map f n = u @ p @ v"
  shows "\<exists>a x b. n = a @ x @ b \<and> map f x = p"
proof (intro exI conjI)
  show "n = take (length u) n @ take (length p) (drop (length u) n) @ drop (length p) (drop (length u) n)"
    by (simp only: append_take_drop_id)
  show "map f (take (length p) (drop (length u) n)) = p"
    using assms by (simp add: take_map [symmetric] drop_map [symmetric])
qed

lemma no_alias:
  assumes "normal_name n" and "\<not> js_includes n ''ing_''"
  shows "findBuzzToolAlias n = None"
proof (rule ccontr)
  define f where "f c = (if under c then CHR '' '' else c)" for c
  have chars: "\<forall>c\<in>set n. name_char c" and single: "successively (\<lambda>a b. \<not> (under a \<and> under b)) n"
    using assms(1) by (simp_all add: normal_name_def list_all_iff)
  have plain: "dash_or_underscore c = under c" "f c = CHR '' '' \<longleftrightarrow> under c" "js_space (f c) = under c"
    if "c \<in> set n" for c
    using chars that name_char_space [of c] by (auto simp: dash_or_underscore_def name_char_def lower_letter_def
        is_digit_def f_def js_space_def)
  have "successively (\<lambda>a b. \<not> (dash_or_underscore a \<and> dash_or_underscore b)) n"
    using single by (rule successively_mono) (simp_all add: plain)
  then have "replaceRuns dash_or_underscore '' '' n = map (\<lambda>c. if dash_or_underscore c then CHR '' '' else c) n"
    by (rule replaceRuns_single)
  also have "\<dots> = map f n" using plain(1) by (simp add: f_def)
  finally have one: "replaceRuns dash_or_underscore '' '' n = map f n" .
  have "successively (\<lambda>a b. \<not> (js_space a \<and> js_space b)) (map f n)"
    unfolding successively_map using single by (rule successively_mono) (simp_all add: plain)
  then have "replaceRuns js_space '' '' (map f n) = map (\<lambda>c. if js_space c then CHR '' '' else c) (map f n)"
    by (rule replaceRuns_single)
  also have "\<dots> = map f n" using plain(2,3) by (auto simp: f_def)
  finally have phrase: "replaceRuns js_space '' '' (replaceRuns dash_or_underscore '' '' (toLowerCase (js_trim n))) = map f n"
    using normal_text [OF assms(1)] one by simp
  assume "findBuzzToolAlias n \<noteq> None"
  then obtain pattern name where "(pattern, name) \<in> set BUZZ_TOOL_TITLE_ALIASES" "test_phrase pattern (map f n)"
    unfolding findBuzzToolAlias_def phrase Let_def by (auto dest: find_mem_Some)
  then have "js_includes (map f n) pattern" "js_includes pattern ''ing ''"
    using test_phrase_includes alias_patterns unfolding test_phrase_def by blast+
  then obtain u v u' v' where "map f n = u @ pattern @ v" "pattern = u' @ ''ing '' @ v'" unfolding js_includes_iff by blast
  then have "map f n = (u @ u') @ ''ing '' @ (v' @ v)" by simp
  then obtain a x b where n: "n = a @ x @ b" and x: "map f x = ''ing ''" using map_split3 by metis
  have letter: "c = d" if "f c = d" "d \<noteq> CHR '' ''" for c d using that by (simp add: f_def split: if_splits)
  obtain c1 c2 c3 c4 where cs: "x = [c1, c2, c3, c4]" "f c1 = CHR ''i''" "f c2 = CHR ''n''" "f c3 = CHR ''g''" "f c4 = CHR '' ''"
    using x by (auto simp: map_eq_Cons_conv)
  have "under c4" using plain(2) [of c4] n cs by simp
  then have "x = ''ing_''" using cs letter [of c1] letter [of c2] letter [of c3] by simp
  with n assms(2) show False unfolding js_includes_iff by blast
qed

lemma catalogue_chars: "list_all normal_name BUZZ_TOOL_NAMES"
  by code_simp

lemma catalogue_states: "list_all (\<lambda>n. \<not> js_includes n ''ing_'') BUZZ_TOOL_NAMES"
  by code_simp

lemma catalogue_shape: "n \<in> set BUZZ_TOOL_NAMES \<Longrightarrow> normal_name n \<and> findBuzzToolAlias n = None"
  using catalogue_chars catalogue_states no_alias by (simp add: list_all_iff)

lemma catalogue_normal: "n \<in> set BUZZ_TOOL_NAMES \<Longrightarrow> normalizeToolName n = n"
  using catalogue_shape [of n] known_name_found [of n] by (simp add: normalizeToolName_def)

lemma info_write: "map (map_option bt_tone \<circ> infoForName) BUZZ_WRITE_TOOLS = replicate (length BUZZ_WRITE_TOOLS) (Some ToneWrite)"
  by code_simp

lemma info_read: "filter (\<lambda>n. map_option bt_tone (infoForName n) \<noteq> Some ToneRead) BUZZ_READ_TOOLS =
    [''get_reactions'', ''get_users'', ''get_presence'', ''get_user_notes'']"
  by code_simp

lemma info_reactions: "infoForName ''get_reactions'' =
    Some \<lparr>bt_icon = ''Send'', bt_label = ''Publishes x0x workspace activity.'', bt_tone = ToneWrite\<rparr>"
  by code_simp

text \<open>
  The normal form of names and the catalogue fit together: normalising gives lower-case words
  joined by single underscores and changes no such name, so every catalogued tool is found under
  its own name; a title that is no alias means the longest catalogued name it contains; and every
  write tool is described as writing. The tools that read are described as reading but for four,
  among them \<open>get_reactions\<close>, which is described as publishing.
\<close>

theorem catalogue_names:
  "normal_name (normalizeToolNameText title) \<and>
   (normal_name title \<longrightarrow> normalizeToolNameText title = title) \<and>
   map normalizeToolName BUZZ_TOOL_NAMES = BUZZ_TOOL_NAMES \<and>
   (findBuzzToolAlias title = None \<and> findBuzzToolName title True = Some name \<longrightarrow>
      name \<in> set BUZZ_TOOL_NAMES \<and> js_includes (normalizeToolNameText title) name \<and>
      (\<forall>other\<in>set BUZZ_TOOL_NAMES. js_includes (normalizeToolNameText title) other \<longrightarrow> length other \<le> length name)) \<and>
   map (\<lambda>n. map_option bt_tone (getBuzzToolInfo n)) BUZZ_WRITE_TOOLS = replicate (length BUZZ_WRITE_TOOLS) (Some ToneWrite) \<and>
   filter (\<lambda>n. map_option bt_tone (getBuzzToolInfo n) \<noteq> Some ToneRead) BUZZ_READ_TOOLS =
     [''get_reactions'', ''get_users'', ''get_presence'', ''get_user_notes''] \<and>
   map_option bt_label (getBuzzToolInfo ''get_reactions'') = Some ''Publishes x0x workspace activity.''"
proof -
  have names: "normalizeToolName n = n" if "n \<in> set BUZZ_READ_TOOLS \<union> set BUZZ_WRITE_TOOLS" for n
    using catalogue_normal [of n] that by (auto simp: BUZZ_TOOL_NAMES_def)
  have "map normalizeToolName BUZZ_TOOL_NAMES = BUZZ_TOOL_NAMES" using catalogue_normal by (simp add: map_idI)
  moreover have "map (\<lambda>n. map_option bt_tone (getBuzzToolInfo n)) BUZZ_WRITE_TOOLS =
      map (map_option bt_tone \<circ> infoForName) BUZZ_WRITE_TOOLS"
    using names by (simp add: getBuzzToolInfo_def)
  moreover have "filter (\<lambda>n. map_option bt_tone (getBuzzToolInfo n) \<noteq> Some ToneRead) BUZZ_READ_TOOLS =
      filter (\<lambda>n. map_option bt_tone (infoForName n) \<noteq> Some ToneRead) BUZZ_READ_TOOLS"
    using names by (intro filter_cong) (simp_all add: getBuzzToolInfo_def)
  moreover have "getBuzzToolInfo ''get_reactions'' = infoForName ''get_reactions''"
    unfolding getBuzzToolInfo_def by (subst names) (simp_all add: BUZZ_READ_TOOLS_def)
  ultimately show ?thesis
    using findBuzzToolName_SomeD [of title name] info_write info_read info_reactions
    by (simp add: normalizeToolNameText_normal_form normalizeToolNameText_id)
qed

theorem catalogue_names_witness:
  "normalizeToolNameText ''get_thread'' = ''get_thread''"
proof -
  have "normal_name ''get_thread''" by code_simp
  then show ?thesis using catalogue_names [of "''get_thread''"] by blast
qed

end
