(* ===== verification/ToolClassifier.thy ===== *)
theory ToolClassifier
  imports ToolCatalog
begin

text \<open>
  What a tool call is (\<open>features/agents/ui/agentSessionToolClassifier.ts\<close>): the skill, developer and
  workspace tools by name, and the workspace command line inside a shell command, found by splitting
  the command into tokens.
\<close>

subsection \<open>Descriptors\<close>

datatype render_class =
    RMessage | RRelayOp | RFileEdit | RFileRead | RSkillRead | RImage | RShell | RStatus | RThought
  | RPlan | RPermission | RError | RGeneric | RRawRail | RSuppressed

record activity_action =
  ac_verb :: string
  ac_object :: "string option"

record activity_descriptor =
  ad_renderClass :: render_class
  ad_label :: string
  ad_preview :: "string option"
  ad_action :: "activity_action option"
  ad_tone :: "activity_tone option"
  ad_operation :: "string option"
  ad_object :: "string option"
  ad_source :: "string option"
  ad_groupKey :: "string option"
  ad_reason :: "string option"

record classification_input =
  ci_title :: string
  ci_toolName :: string
  ci_buzzToolName :: "string option"
  ci_args :: "(string \<times> jsval) list"
  ci_result :: string
  ci_isError :: bool

definition describe ::
  "render_class \<Rightarrow> string \<Rightarrow> string option \<Rightarrow> string \<Rightarrow> string option \<Rightarrow> string \<Rightarrow> string \<Rightarrow> activity_descriptor" where
  "describe renderClass label preview verb object source groupKey =
     \<lparr>ad_renderClass = renderClass, ad_label = label, ad_preview = preview,
      ad_action = Some \<lparr>ac_verb = verb, ac_object = object\<rparr>, ad_tone = None, ad_operation = None, ad_object = None,
      ad_source = Some source, ad_groupKey = Some groupKey, ad_reason = None\<rparr>"

definition renderClassLabel :: "render_class \<Rightarrow> string" where
  "renderClassLabel renderClass =
     (case renderClass of
        RMessage \<Rightarrow> ''Message'' | RRelayOp \<Rightarrow> ''x0x workspace op'' | RFileEdit \<Rightarrow> ''File edit''
      | RFileRead \<Rightarrow> ''File read'' | RSkillRead \<Rightarrow> ''Skill read'' | RImage \<Rightarrow> ''Image''
      | RShell \<Rightarrow> ''Shell command'' | RStatus \<Rightarrow> ''Status'' | RThought \<Rightarrow> ''Thought'' | RPlan \<Rightarrow> ''Plan''
      | RPermission \<Rightarrow> ''Permission'' | RError \<Rightarrow> ''Error'' | RGeneric \<Rightarrow> ''Tool''
      | RRawRail \<Rightarrow> ''Raw event'' | RSuppressed \<Rightarrow> ''Suppressed'')"

subsection \<open>Shell commands\<close>

record tokenizer =
  tz_tokens :: "string list"
  tz_current :: string
  tz_quote :: "char option"
  tz_escaping :: bool

definition pushCurrent :: "tokenizer \<Rightarrow> tokenizer" where
  "pushCurrent t =
     (if length (tz_current t) > 0
      then t\<lparr>tz_tokens := tz_tokens t @ [tz_current t], tz_current := []\<rparr> else t)"

definition separator_char :: "char \<Rightarrow> bool" where
  "separator_char c = (c = CHR ''|'' \<or> c = CHR '';'' \<or> c = CHR ''&'')"

definition single_quote :: char where "single_quote = CHR 0x27"
definition double_quote :: char where "double_quote = CHR 0x22"
definition backslash :: char where "backslash = CHR 0x5C"

definition tokenStep :: "char \<Rightarrow> tokenizer \<Rightarrow> tokenizer" where
  "tokenStep c t =
     (if tz_escaping t then t\<lparr>tz_current := tz_current t @ [c], tz_escaping := False\<rparr>
      else if c = backslash \<and> tz_quote t \<noteq> Some single_quote then t\<lparr>tz_escaping := True\<rparr>
      else if tz_quote t \<noteq> None then
        (if tz_quote t = Some c then t\<lparr>tz_quote := None\<rparr> else t\<lparr>tz_current := tz_current t @ [c]\<rparr>)
      else if c = single_quote \<or> c = double_quote then t\<lparr>tz_quote := Some c\<rparr>
      else if js_space c then pushCurrent t
      else if separator_char c then
        (let t1 = pushCurrent t in t1\<lparr>tz_tokens := tz_tokens t1 @ [[c]]\<rparr>)
      else t\<lparr>tz_current := tz_current t @ [c]\<rparr>)"

definition tokenizeShellCommand :: "string \<Rightarrow> string list" where
  "tokenizeShellCommand command =
     (let t = fold tokenStep command \<lparr>tz_tokens = [], tz_current = [], tz_quote = None, tz_escaping = False\<rparr>;
          t1 = (if tz_escaping t then t\<lparr>tz_current := tz_current t @ [backslash]\<rparr> else t)
      in tz_tokens (pushCurrent t1))"

definition isCommandSeparator :: "string \<Rightarrow> bool" where
  "isCommandSeparator token = (token = ''|'' \<or> token = '';'' \<or> token = ''&'')"

definition isBuzzExecutable :: "string \<Rightarrow> bool" where
  "isBuzzExecutable token =
     (token = ''buzz'' \<or> last (splitChars (\<lambda>c. c = backslash \<or> c = CHR ''/'') token) = ''buzz'')"

definition BUZZ_CLI_GROUPS :: "string list" where
  "BUZZ_CLI_GROUPS =
     [''messages'', ''channels'', ''dms'', ''reactions'', ''canvas'', ''feed'', ''users'', ''workflows'', ''social'',
      ''repos'', ''upload'', ''mem'', ''notes'', ''patches'', ''pr'', ''issues'', ''emoji'', ''pack'']"

definition BUZZ_CLI_ADMIN_VERBS :: "string list" where
  "BUZZ_CLI_ADMIN_VERBS =
     [''archive'', ''unarchive'', ''create'', ''delete'', ''remove'', ''add-channel-member'',
      ''remove-channel-member'', ''set-channel-add-policy'']"

definition BUZZ_CLI_READ_VERBS :: "string list" where
  "BUZZ_CLI_READ_VERBS = [''get'', ''list'', ''thread'', ''search'', ''members'', ''runs'', ''notes'']"

text \<open>The inner loop of \<open>findBuzzCommand\<close> breaks, returns null, or finds the index of the grp.\<close>

datatype group_search = GroupBreak | GroupNull | GroupAt nat

function findGroup :: "string list \<Rightarrow> nat \<Rightarrow> group_search" where
  "findGroup tokens j =
     (if j \<ge> length tokens then GroupBreak
      else if isCommandSeparator (tokens ! j) then GroupBreak
      else if startsWith (tokens ! j) ''-'' then
        (if \<not> js_includes (tokens ! j) ''='' \<and>
            (case jsat tokens (j + 1) of None \<Rightarrow> False | Some nxt \<Rightarrow> \<not> startsWith nxt ''-'')
         then findGroup tokens (j + 2) else findGroup tokens (j + 1))
      else if tokens ! j \<notin> set BUZZ_CLI_GROUPS then findGroup tokens (j + 1)
      else if \<not> truthy (jsat tokens (j + 1)) \<or> isCommandSeparator (the (jsat tokens (j + 1))) then GroupNull
      else GroupAt j)"
  by pat_completeness auto

termination findGroup
  by (relation "measure (\<lambda>(tokens, j). length tokens - j)") auto

declare findGroup.simps [simp del]

record buzz_command_range =
  br_buzzIndex :: nat
  br_groupIndex :: nat
  br_verbIndex :: nat

function findBuzzCommand_from :: "string list \<Rightarrow> nat \<Rightarrow> buzz_command_range option" where
  "findBuzzCommand_from tokens i =
     (if i \<ge> length tokens then None
      else if \<not> isBuzzExecutable (tokens ! i) then findBuzzCommand_from tokens (i + 1)
      else
        case findGroup tokens (i + 1) of
          GroupBreak \<Rightarrow> findBuzzCommand_from tokens (i + 1)
        | GroupNull \<Rightarrow> None
        | GroupAt j \<Rightarrow> Some \<lparr>br_buzzIndex = i, br_groupIndex = j, br_verbIndex = j + 1\<rparr>)"
  by pat_completeness auto

termination findBuzzCommand_from
  by (relation "measure (\<lambda>(tokens, i). length tokens - i)") auto

declare findBuzzCommand_from.simps [simp del]

definition findBuzzCommand :: "string list \<Rightarrow> buzz_command_range option" where
  "findBuzzCommand tokens = findBuzzCommand_from tokens 0"

text \<open>\<open>getFlagValue(tokens, start, flag)\<close> over the tokens from \<open>start\<close> on.\<close>

fun flagValue :: "string \<Rightarrow> string list \<Rightarrow> string option" where
  "flagValue flag [] = None"
| "flagValue flag (token # tokens) =
     (if isCommandSeparator token then None
      else if token = flag then
        (case tokens of
           [] \<Rightarrow> None
         | nxt # _ \<Rightarrow> if nxt \<noteq> [] \<and> \<not> isCommandSeparator nxt then Some nxt else None)
      else if startsWith token (flag @ ''='') then Some (drop (length flag + 1) token)
      else flagValue flag tokens)"

definition getFlagValue :: "string list \<Rightarrow> nat \<Rightarrow> string \<Rightarrow> string option" where
  "getFlagValue tokens start flag = flagValue flag (drop start tokens)"

definition extractBuzzCliInlineContent :: "string list \<Rightarrow> buzz_command_range \<Rightarrow> string option" where
  "extractBuzzCliInlineContent tokens rng =
     (let content = getFlagValue tokens (br_verbIndex rng + 1) ''--content'' in
      if \<not> truthy content \<or> content = Some ''-'' then None
      else if js_includes (the content) ''$'' \<or> js_includes (the content) ''`'' then None
      else content)"

definition extractBuzzCliObjectPreview :: "string list \<Rightarrow> buzz_command_range \<Rightarrow> string option" where
  "extractBuzzCliObjectPreview tokens rng =
     (let flag = getFlagValue tokens (br_verbIndex rng + 1);
          flagPreview = orElse (flag ''--channel'') (orElse (flag ''--event'') (orElse (flag ''--query'')
             (orElse (flag ''--name'') (flag ''--file''))));
          nxt = jsat tokens (br_verbIndex rng + 1)
      in if truthy flagPreview then flagPreview
         else if truthy nxt \<and> \<not> isCommandSeparator (the nxt) \<and> \<not> startsWith (the nxt) ''-'' then nxt
         else None)"

subsection \<open>Workspace operations\<close>

definition isBuzzMessageSend :: "string \<Rightarrow> bool" where
  "isBuzzMessageSend operation = (operation = ''send_message'' \<or> operation = ''messages_send'')"

definition buzzOperationVerbToken :: "string \<Rightarrow> string" where
  "buzzOperationVerbToken operation =
     (if js_includes operation ''.''
      then (case jsat (splitChars (\<lambda>c. c = CHR ''.'') operation) 1 of Some verb \<Rightarrow> verb | None \<Rightarrow> ''run'')
      else (case jsat (splitChars (\<lambda>c. c = CHR ''_'') operation) 0 of Some verb \<Rightarrow> verb | None \<Rightarrow> ''run''))"

definition buzzOperationVerb :: "string \<Rightarrow> activity_tone \<Rightarrow> string" where
  "buzzOperationVerb verb tone =
     (if verb = ''add'' then ''Added''
      else if verb = ''archive'' then ''Archived''
      else if verb = ''create'' then ''Created''
      else if verb = ''delete'' then ''Deleted''
      else if verb = ''get'' \<or> verb = ''list'' \<or> verb = ''members'' then ''Read''
      else if verb = ''remove'' then ''Removed''
      else if verb = ''runs'' then ''Read''
      else if verb = ''search'' then ''Searched''
      else if verb = ''send'' then ''Sent''
      else if verb = ''thread'' then ''Read''
      else if verb = ''unarchive'' then ''Unarchived''
      else if tone = ToneRead then ''Read''
      else ''Updated'')"

definition OPERATION_VERBS :: "string list" where
  "OPERATION_VERBS =
     [''add'', ''approve'', ''archive'', ''create'', ''delete'', ''edit'', ''get'', ''hide'', ''join'', ''leave'', ''list'',
      ''open'', ''publish'', ''remove'', ''search'', ''send'', ''set'', ''trigger'', ''unarchive'', ''update'', ''vote'']"

definition buzzOperationObject :: "string \<Rightarrow> string" where
  "buzzOperationObject operation =
     (let spaced = (\<lambda>s. if s = [] then ''x0x'' else replaceRuns dash_or_underscore '' '' s) in
      if isBuzzMessageSend operation then ''message''
      else if js_includes operation ''.'' then spaced (hd (splitChars (\<lambda>c. c = CHR ''.'') operation))
      else
        spaced (case find (\<lambda>verb. startsWith operation (verb @ ''_'')) OPERATION_VERBS of
                  Some verb \<Rightarrow> drop (length verb + 1) operation
                | None \<Rightarrow> operation))"

definition actionForBuzzOperation :: "string \<Rightarrow> string option \<Rightarrow> activity_tone \<Rightarrow> activity_action" where
  "actionForBuzzOperation operation object tone =
     \<lparr>ac_verb = buzzOperationVerb (buzzOperationVerbToken operation) tone,
      ac_object = Some (case object of Some obj \<Rightarrow> obj | None \<Rightarrow> buzzOperationObject operation)\<rparr>"

definition buzzCliTone :: "string \<Rightarrow> string \<Rightarrow> activity_tone" where
  "buzzCliTone grp verb =
     (if verb \<in> set BUZZ_CLI_ADMIN_VERBS then ToneAdmin
      else if verb \<in> set BUZZ_CLI_READ_VERBS then ToneRead
      else if grp = ''feed'' \<and> verb = ''get'' then ToneRead
      else ToneWrite)"

definition nonempty :: "string \<Rightarrow> bool" where "nonempty s = (s \<noteq> [])"

definition titleForBuzzCli :: "string \<Rightarrow> string \<Rightarrow> string" where
  "titleForBuzzCli grp verb =
     (if grp = ''messages'' \<and> verb = ''send'' then ''Send Message''
      else joinWith '' '' (filter nonempty
             (map (\<lambda>part. joinWith '' '' (map upperFirst (filter nonempty (splitRuns dash_or_underscore part))))
               [grp, verb])))"

definition parseBuzzCliCommand :: "string \<Rightarrow> activity_descriptor option" where
  "parseBuzzCliCommand command =
     (let tokens = tokenizeShellCommand command in
      case findBuzzCommand tokens of
        None \<Rightarrow> None
      | Some rng \<Rightarrow>
          (let grp = tokens ! br_groupIndex rng;
               verb = (case jsat tokens (br_verbIndex rng) of Some v \<Rightarrow> v | None \<Rightarrow> ''run'');
               operation = grp @ ''.'' @ verb;
               isSend = (grp = ''messages'' \<and> verb = ''send'');
               preview = (if isSend then extractBuzzCliInlineContent tokens rng
                          else extractBuzzCliObjectPreview tokens rng);
               tone = buzzCliTone grp verb
           in Some
             \<lparr>ad_renderClass = (if isSend then RMessage else RRelayOp), ad_label = titleForBuzzCli grp verb,
              ad_preview = preview, ad_action = Some (actionForBuzzOperation operation preview tone),
              ad_tone = Some tone, ad_operation = Some operation, ad_object = preview, ad_source = Some ''shell'',
              ad_groupKey = Some (''buzz-cli:'' @ operation), ad_reason = None\<rparr>))"

subsection \<open>Developer tools\<close>

datatype developer_tool_kind =
    DevShell | DevReadFile | DevViewImage | DevStrReplace | DevTodo | DevStopHook | DevPostCompactHook | DevMcp

definition DEVELOPER_TOOL_BASES :: "string list" where
  "DEVELOPER_TOOL_BASES =
     [''shell'', ''read_file'', ''view_image'', ''str_replace'', ''todo'', ''stop'', ''postcompact'']"

definition classifyDeveloperToolName :: "string option \<Rightarrow> developer_tool_kind option" where
  "classifyDeveloperToolName value =
     (if \<not> truthy value then None
      else
        let normalized = normalizeToolNameText (the value);
            base = removePrefix ''buzz_dev_mcp_'' normalized
        in if base = ''shell'' \<or> endsWith normalized ''_shell'' then Some DevShell
           else if base = ''read_file'' \<or> endsWith normalized ''_read_file'' then Some DevReadFile
           else if base = ''view_image'' \<or> endsWith normalized ''_view_image'' then Some DevViewImage
           else if base = ''str_replace'' \<or> endsWith normalized ''_str_replace'' then Some DevStrReplace
           else if base = ''todo'' then Some DevTodo
           else if base = ''stop'' then Some DevStopHook
           else if base = ''postcompact'' then Some DevPostCompactHook
           else if base \<in> set DEVELOPER_TOOL_BASES \<or> js_includes normalized ''buzz_dev_mcp'' then Some DevMcp
           else None)"

definition resolveDeveloperToolKind :: "classification_input \<Rightarrow> developer_tool_kind option" where
  "resolveDeveloperToolKind input =
     orElse (classifyDeveloperToolName (Some (ci_toolName input)))
       (orElse (classifyDeveloperToolName (Some (ci_title input)))
         (classifyDeveloperToolName (ci_buzzToolName input)))"

definition genericPreview :: "classification_input \<Rightarrow> string option" where
  "genericPreview input =
     orElse (getToolString (ci_args input)
         [''command'', ''path'', ''source'', ''query'', ''name'', ''content'', ''message''])
       (if ci_title input \<noteq> [] then Some (ci_title input) else None)"

definition basenameOrUrl :: "string \<Rightarrow> string" where
  "basenameOrUrl source =
     (let trimmed = js_trim source in
      if startsWith trimmed ''data:image/'' \<or> startsWith trimmed ''http://'' \<or> startsWith trimmed ''https://''
      then trimmed
      else last (splitChars (\<lambda>c. c = CHR ''/'' \<or> c = backslash) trimmed))"

definition getTodoPreview :: "(string \<times> jsval) list \<Rightarrow> string" where
  "getTodoPreview args =
     (case jfield args ''todos'' of
        Some (JArr todos) \<Rightarrow>
          (case todos of
             [] \<Rightarrow> ''empty list''
           | first # _ \<Rightarrow>
               (case getToolString (asRecord (Some first)) [''text''] of
                  Some firstText \<Rightarrow>
                    if length todos > 1 then firstText @ '' (+'' @ show_nat (length todos - 1) @ '')'' else firstText
                | None \<Rightarrow> show_nat (length todos) @ '' item'' @ (if length todos = 1 then [] else ''s'')))
      | _ \<Rightarrow> ''todo list'')"

definition orText :: "string option \<Rightarrow> string \<Rightarrow> string option" where
  "orText s fallback = Some (case s of Some t \<Rightarrow> t | None \<Rightarrow> fallback)"

definition classifyDeveloperHarnessTool :: "classification_input \<Rightarrow> activity_descriptor option" where
  "classifyDeveloperHarnessTool input =
     (case resolveDeveloperToolKind input of
        None \<Rightarrow> None
      | Some DevShell \<Rightarrow>
          (let command = getToolString (ci_args input) [''command''];
               buzzCli = (if truthy command then parseBuzzCliCommand (the command) else None)
           in case buzzCli of
                Some descriptor \<Rightarrow> Some descriptor
              | None \<Rightarrow> Some (describe RShell ''Ran command'' command ''Ran'' (orText command ''command'') ''harness'' ''shell:command''))
      | Some DevReadFile \<Rightarrow>
          (let path = getToolString (ci_args input) [''path''] in
           Some (describe RFileRead ''Read file'' path ''Read'' (orText path ''file'') ''harness'' ''read_file''))
      | Some DevViewImage \<Rightarrow>
          (let image = map_option basenameOrUrl (getToolString (ci_args input) [''source'']) in
           Some (describe RImage ''Viewed image'' image ''Viewed'' (orText image ''image'') ''harness'' ''view_image''))
      | Some DevStrReplace \<Rightarrow>
          (let path = getToolString (ci_args input) [''path''] in
           Some (describe RFileEdit ''Edited file'' path ''Edited'' (orText path ''file'') ''harness'' ''file-edit:str_replace''))
      | Some DevTodo \<Rightarrow>
          (let preview = Some (getTodoPreview (ci_args input)) in
           Some (describe RPlan ''Updated todos'' preview ''Updated'' preview ''harness'' ''plan:todo''))
      | Some DevStopHook \<Rightarrow>
          Some (describe RSuppressed ''Checked todos'' None ''Checked'' (Some ''todos'') ''harness'' ''suppressed:stop-hook'')
      | Some DevPostCompactHook \<Rightarrow>
          Some (describe RStatus ''Context compacted'' None ''Compacted'' (Some ''context'') ''harness'' ''status:post-compact'')
      | Some DevMcp \<Rightarrow>
          (let preview = genericPreview input in
           Some (describe RGeneric ''Ran tool'' preview ''Ran'' (orText preview ''tool'') ''harness'' ''generic:dev-mcp'')))"

subsection \<open>The other providers\<close>

definition classifyLoadSkillTool :: "classification_input \<Rightarrow> activity_descriptor option" where
  "classifyLoadSkillTool input =
     (if \<not> list_ex (\<lambda>value. truthy value \<and> normalizeToolNameText (the value) = ''load_skill'')
            [Some (ci_toolName input), Some (ci_title input), ci_buzzToolName input]
      then None
      else
        let skillRef = getToolString (ci_args input) [''name''];
            isSupportingFile = (case skillRef of Some r \<Rightarrow> js_includes r ''/'' | None \<Rightarrow> False)
        in Some (describe RSkillRead (if isSupportingFile then ''Read skill file'' else ''Read skill'') skillRef ''Read''
             (orText skillRef ''skill'') ''harness'' (if isSupportingFile then ''skill:load-file'' else ''skill:load'')))"

definition extractBuzzToolPreview :: "(string \<times> jsval) list \<Rightarrow> string option" where
  "extractBuzzToolPreview args =
     (let content = getToolString args [''content'', ''message'', ''text'', ''body''];
          query = getToolString args [''query'', ''search''];
          channelId = getToolString args [''channel_id'', ''channelId''];
          workflowId = getToolString args [''workflow_id'', ''workflowId''];
          pubkeys = getToolStringList args [''pubkeys'', ''pubkey'']
      in if truthy content then content
         else if truthy query then query
         else if truthy channelId then channelId
         else if truthy workflowId then workflowId
         else if length pubkeys = 1 then Some (hd pubkeys)
         else if length pubkeys > 1 then Some (show_nat (length pubkeys) @ '' users'')
         else getToolString args [''event_id'', ''eventId'', ''name''])"

definition classifyBuzzTool :: "classification_input \<Rightarrow> activity_descriptor option" where
  "classifyBuzzTool input =
     (case find (\<lambda>value. truthy value \<and> getBuzzToolInfo (the value) \<noteq> None)
             [ci_buzzToolName input, Some (ci_toolName input), Some (ci_title input)] of
        Some (Some name) \<Rightarrow>
          (case getBuzzToolInfo name of
             None \<Rightarrow> None
           | Some info \<Rightarrow>
               (let operation = normalizeToolNameText name;
                    preview = extractBuzzToolPreview (ci_args input)
                in Some
                  \<lparr>ad_renderClass = (if isBuzzMessageSend operation then RMessage else RRelayOp),
                   ad_label = formatToolTitle name (Some (ci_title input)), ad_preview = preview,
                   ad_action = Some (actionForBuzzOperation operation preview (bt_tone info)),
                   ad_tone = Some (bt_tone info), ad_operation = Some operation, ad_object = preview,
                   ad_source = Some ''mcp'', ad_groupKey = Some (''buzz:'' @ operation), ad_reason = None\<rparr>))
      | _ \<Rightarrow> None)"

definition genericDescriptor :: "classification_input \<Rightarrow> activity_descriptor" where
  "genericDescriptor input =
     (let preview = genericPreview input in
      describe RGeneric ''Ran tool'' preview ''Ran'' (orText preview ''tool'') ''fallback''
        (''generic:'' @ normalizeToolNameText (if ci_toolName input \<noteq> [] then ci_toolName input else ci_title input)))"

definition markFailed :: "classification_input \<Rightarrow> activity_descriptor \<Rightarrow> activity_descriptor" where
  "markFailed input descriptor =
     (if ci_isError input \<or> ad_renderClass descriptor = RError
      then descriptor\<lparr>ad_renderClass := RError,
             ad_label := (if endsWith (ad_label descriptor) ''failed'' then ad_label descriptor
                          else ad_label descriptor @ '' failed'')\<rparr>
      else descriptor)"

definition classifyTool :: "classification_input \<Rightarrow> activity_descriptor" where
  "classifyTool input =
     (case orElse (classifyLoadSkillTool input)
             (orElse (classifyDeveloperHarnessTool input) (classifyBuzzTool input)) of
        Some descriptor \<Rightarrow> markFailed input descriptor
      | None \<Rightarrow> genericDescriptor input)"

subsection \<open>Tokens\<close>

text \<open>A word in single quotes, as a shell reads it, and a command of quoted words.\<close>

definition quoteWord :: "string \<Rightarrow> string" where
  "quoteWord w = single_quote # w @ [single_quote]"

definition quotable :: "string \<Rightarrow> bool" where
  "quotable w \<longleftrightarrow> w \<noteq> [] \<and> single_quote \<notin> set w"

lemma quote_chars [simp]:
  "single_quote \<noteq> backslash" "double_quote \<noteq> backslash" "\<not> js_space single_quote" "single_quote \<noteq> double_quote"
  "js_space CHR '' ''" "CHR '' '' \<noteq> backslash" "CHR '' '' \<noteq> single_quote" "CHR '' '' \<noteq> double_quote"
  by (simp_all add: single_quote_def double_quote_def backslash_def js_space_def)

lemma tokens_in_quote:
  assumes "single_quote \<notin> set w"
  shows "fold tokenStep w \<lparr>tz_tokens = ts, tz_current = cur, tz_quote = Some single_quote, tz_escaping = False\<rparr> =
    \<lparr>tz_tokens = ts, tz_current = cur @ w, tz_quote = Some single_quote, tz_escaping = False\<rparr>"
  using assms
proof (induction w arbitrary: cur)
  case (Cons c w)
  then show ?case using Cons.IH [of "cur @ [c]"] by (auto simp: tokenStep_def)
qed simp

lemma tokens_quoteWord:
  assumes "quotable w"
  shows "fold tokenStep (quoteWord w) \<lparr>tz_tokens = ts, tz_current = [], tz_quote = None, tz_escaping = False\<rparr> =
    \<lparr>tz_tokens = ts, tz_current = w, tz_quote = None, tz_escaping = False\<rparr>"
  using assms tokens_in_quote [of w ts "[]"] by (simp add: quoteWord_def quotable_def) (simp add: tokenStep_def)

lemma tokens_joined:
  assumes "list_all quotable ws" and "ws \<noteq> []"
  shows "fold tokenStep (joinWith '' '' (map quoteWord ws))
      \<lparr>tz_tokens = ts, tz_current = [], tz_quote = None, tz_escaping = False\<rparr> =
    \<lparr>tz_tokens = ts @ butlast ws, tz_current = last ws, tz_quote = None, tz_escaping = False\<rparr>"
  using assms
proof (induction ws arbitrary: ts)
  case (Cons w ws)
  show ?case
  proof (cases ws)
    case Nil
    then show ?thesis using Cons.prems by (simp add: tokens_quoteWord)
  next
    case (Cons v vs)
    have "tokenStep CHR '' '' \<lparr>tz_tokens = ts, tz_current = w, tz_quote = None, tz_escaping = False\<rparr> =
        \<lparr>tz_tokens = ts @ [w], tz_current = [], tz_quote = None, tz_escaping = False\<rparr>"
      using Cons.prems by (simp add: tokenStep_def pushCurrent_def quotable_def)
    then show ?thesis
      using Cons.IH [of "ts @ [w]"] Cons.prems Cons by (simp add: tokens_quoteWord)
  qed
qed simp

lemma tokenize_words:
  assumes "list_all quotable ws"
  shows "tokenizeShellCommand (joinWith '' '' (map quoteWord ws)) = ws"
proof (cases "ws = []")
  case False
  have "last ws \<noteq> []" using assms False by (simp add: list_all_iff quotable_def)
  then show ?thesis using tokens_joined [OF assms False, of "[]"] False
    by (simp add: tokenizeShellCommand_def pushCurrent_def)
qed (simp add: tokenizeShellCommand_def pushCurrent_def)

text \<open>
  A command of quoted words splits into exactly these words: blanks, backslashes, double quotes
  and command separators inside the quotes belong to the word, whatever they are. Words have to be
  non-empty: the splitter drops an empty argument.
\<close>

theorem tokenize_quoted_words:
  assumes "list_all quotable ws"
  shows "tokenizeShellCommand (joinWith '' '' (map quoteWord ws)) = ws"
  using assms by (rule tokenize_words)

theorem tokenize_quoted_words_witness:
  "tokenizeShellCommand (joinWith '' '' (map quoteWord [''buzz'', ''a b; c''])) = [''buzz'', ''a b; c'']"
proof -
  have "list_all quotable [''buzz'', ''a b; c'']" by (simp add: quotable_def single_quote_def)
  then show ?thesis by (rule tokenize_quoted_words)
qed

text \<open>The tokens of a message sent from the command line.\<close>

definition sendWords :: "string \<Rightarrow> string list" where
  "sendWords content = [''buzz'', ''messages'', ''send'', ''--content'', content]"

lemma send_found: "findBuzzCommand (sendWords content) = Some \<lparr>br_buzzIndex = 0, br_groupIndex = 1, br_verbIndex = 2\<rparr>"
proof -
  have "findGroup (sendWords content) 1 = GroupAt 1"
    by (subst findGroup.simps)
      (simp add: sendWords_def isCommandSeparator_def startsWith_def BUZZ_CLI_GROUPS_def truthy_def jsat_def)
  then show ?thesis unfolding findBuzzCommand_def
    by (subst findBuzzCommand_from.simps) (simp add: sendWords_def isBuzzExecutable_def)
qed

lemma send_flag:
  "content \<noteq> [] \<Longrightarrow> \<not> isCommandSeparator content \<Longrightarrow> getFlagValue (sendWords content) 3 ''--content'' = Some content"
  by (simp add: getFlagValue_def sendWords_def isCommandSeparator_def)

lemma cli_empty_argument:
  "map_option ad_preview (parseBuzzCliCommand (''buzz messages send --content '' @ quoteWord [] @ '' --channel general'')) =
     Some (Some ''--channel'')"
  by code_simp

lemma cli_send_object:
  "map_option (map_option ac_object \<circ> ad_action) (parseBuzzCliCommand ''buzz messages send'') = Some (Some (Some ''messages''))"
  by code_simp

text \<open>
  A message sent from the command line with a quoted text is shown as a message with exactly that
  text, unless the text is a lone separator or dash or holds a character the shell would expand.
  An empty text is not an empty preview: its argument vanishes and the next word is shown, and a
  message whose text is not on the command line acts on \<open>messages\<close>, not on a \<open>message\<close>.
\<close>

theorem cli_send_preview:
  assumes "quotable content" and "\<not> isCommandSeparator content" and "content \<noteq> ''-''"
    and "\<not> js_includes content ''$''" and "\<not> js_includes content ''`''"
  shows "map_option ad_preview (parseBuzzCliCommand (joinWith '' '' (map quoteWord (sendWords content)))) = Some (Some content) \<and>
    map_option ad_renderClass (parseBuzzCliCommand (joinWith '' '' (map quoteWord (sendWords content)))) = Some RMessage \<and>
    map_option ad_preview (parseBuzzCliCommand (''buzz messages send --content '' @ quoteWord [] @ '' --channel general'')) =
      Some (Some ''--channel'') \<and>
    map_option (map_option ac_object \<circ> ad_action) (parseBuzzCliCommand ''buzz messages send'') = Some (Some (Some ''messages''))"
proof -
  have "list_all quotable (sendWords content)" using assms(1) by (simp add: sendWords_def quotable_def single_quote_def)
  then have tokens: "tokenizeShellCommand (joinWith '' '' (map quoteWord (sendWords content))) = sendWords content"
    by (rule tokenize_words)
  have "extractBuzzCliInlineContent (sendWords content) \<lparr>br_buzzIndex = 0, br_groupIndex = 1, br_verbIndex = 2\<rparr> = Some content"
    using assms send_flag [of content]
    by (simp add: extractBuzzCliInlineContent_def quotable_def truthy_def eval_nat_numeral)
  moreover have "sendWords content ! 1 = ''messages''" "jsat (sendWords content) 2 = Some ''send''"
    by (simp_all add: sendWords_def)
  ultimately show ?thesis
    using cli_empty_argument cli_send_object unfolding parseBuzzCliCommand_def tokens by (simp add: send_found)
qed

theorem cli_send_preview_witness:
  "map_option ad_preview (parseBuzzCliCommand (joinWith '' '' (map quoteWord (sendWords ''it; works'')))) = Some (Some ''it; works'')"
proof -
  have "quotable ''it; works''" "\<not> isCommandSeparator ''it; works''" "''it; works'' \<noteq> ''-''"
    "\<not> js_includes ''it; works'' ''$''" "\<not> js_includes ''it; works'' ''`''"
    by code_simp+
  then show ?thesis using cli_send_preview [of "''it; works''"] by blast
qed

subsection \<open>Failed tools\<close>

lemma describe_class [simp]: "ad_renderClass (describe c l p v obj s g) = c"
  by (simp add: describe_def)

lemma cli_class: "parseBuzzCliCommand command = Some d \<Longrightarrow> ad_renderClass d \<noteq> RError"
  by (auto simp: parseBuzzCliCommand_def split: option.splits if_splits)

lemma provider_class:
  "classifyLoadSkillTool input = Some d \<Longrightarrow> ad_renderClass d \<noteq> RError"
  "classifyDeveloperHarnessTool input = Some d \<Longrightarrow> ad_renderClass d \<noteq> RError"
  "classifyBuzzTool input = Some d \<Longrightarrow> ad_renderClass d \<noteq> RError"
  by (auto simp: classifyLoadSkillTool_def classifyDeveloperHarnessTool_def classifyBuzzTool_def cli_class
      split: option.splits developer_tool_kind.splits if_splits)

text \<open>
  A call is shown as an error exactly when it failed and a provider knows the tool; its label then
  says so. A failed call of a tool that no provider knows keeps the class and the label of a
  successful one.
\<close>

theorem failed_tools_marked:
  "(ad_renderClass (classifyTool input) = RError \<longleftrightarrow>
      ci_isError input \<and>
      (classifyLoadSkillTool input \<noteq> None \<or> classifyDeveloperHarnessTool input \<noteq> None \<or> classifyBuzzTool input \<noteq> None)) \<and>
   (ad_renderClass (classifyTool input) = RError \<longrightarrow> endsWith (ad_label (classifyTool input)) ''failed'') \<and>
   (classifyLoadSkillTool input = None \<and> classifyDeveloperHarnessTool input = None \<and> classifyBuzzTool input = None \<longrightarrow>
      ad_renderClass (classifyTool input) = RGeneric \<and> ad_label (classifyTool input) = ''Ran tool'')"
proof -
  have ends: "endsWith (s @ '' failed'') ''failed''" for s by (simp add: endsWith_def startsWith_def)
  define d where "d = orElse (classifyLoadSkillTool input) (orElse (classifyDeveloperHarnessTool input) (classifyBuzzTool input))"
  have known: "d \<noteq> None \<longleftrightarrow> classifyLoadSkillTool input \<noteq> None \<or> classifyDeveloperHarnessTool input \<noteq> None \<or> classifyBuzzTool input \<noteq> None"
    by (auto simp: d_def orElse_def split: option.splits)
  have cls: "ad_renderClass x \<noteq> RError" if "d = Some x" for x
    using that provider_class by (auto simp: d_def orElse_def split: option.splits)
  have res: "classifyTool input = (case d of Some x \<Rightarrow> markFailed input x | None \<Rightarrow> genericDescriptor input)"
    by (simp add: classifyTool_def d_def)
  show ?thesis
  proof (cases d)
    case None
    then show ?thesis using known unfolding res by (auto simp: genericDescriptor_def) (simp_all add: describe_def)
  next
    case (Some x)
    then show ?thesis using known cls [OF Some] ends unfolding res by (auto simp: markFailed_def)
  qed
qed

theorem failed_tools_marked_witness:
  "ad_renderClass (classifyTool \<lparr>ci_title = ''x'', ci_toolName = ''shell'', ci_buzzToolName = None, ci_args = [],
      ci_result = [], ci_isError = True\<rparr>) = RError"
proof -
  have "classifyDeveloperHarnessTool \<lparr>ci_title = ''x'', ci_toolName = ''shell'', ci_buzzToolName = None, ci_args = [],
      ci_result = [], ci_isError = True\<rparr> \<noteq> None"
    by code_simp
  then show ?thesis using failed_tools_marked [of "\<lparr>ci_title = ''x'', ci_toolName = ''shell'', ci_buzzToolName = None, ci_args = [],
      ci_result = [], ci_isError = True\<rparr>"] by simp
qed

end
