(* ===== verification/Prompts.thy ===== *)
theory Prompts
  imports ToolClassifier Observer
begin

text \<open>
  Reading the payloads of an agent's frames
  (\<open>features/agents/ui/agentSessionTranscriptHelpers.ts\<close>): the text of content blocks, prompts and
  their sections, plans, the identity of a tool call; and the copy shown for an error
  (\<open>features/agents/lib/friendlyAgentLastError.ts\<close>).

  The em dash in some fixed texts of the source is U+2014, outside the code units the model keeps; it
  is the argument \<open>dash\<close>. \<open>Number(x)\<close> of a JSON value is the argument \<open>number\<close>: a number, or \<open>JNull\<close>
  for a result that is not finite.
\<close>

record prompt_section =
  ps_title :: string
  ps_body :: string

abbreviation nl :: string where "nl \<equiv> [newline]"

subsection \<open>Text of blocks\<close>

lemma jfield_size: "jfield obj key = Some v \<Longrightarrow> size v < size (JObj obj)"
proof -
  assume "jfield obj key = Some v"
  then have "(key, v) \<in> set obj" by (simp add: jfield_def map_of_SomeD)
  then show ?thesis by (induction obj) (auto simp: size_prod_simp)
qed

function (sequential) extractBlockText :: "jsval \<Rightarrow> string" where
  "extractBlockText (JStr s) = s"
| "extractBlockText (JArr vs) = joinWith nl (map extractBlockText vs)"
| "extractBlockText (JObj rcd) =
     (let nestedText =
            (case jfield rcd ''content'' of
               Some (JArr vs) \<Rightarrow> extractBlockText (JArr vs)
             | Some (JObj obj) \<Rightarrow> extractBlockText (JObj obj)
             | _ \<Rightarrow> []);
          rawOutputText =
            (case jfield rcd ''rawOutput'' of
               None \<Rightarrow> [] | Some JNull \<Rightarrow> [] | Some (JStr s) \<Rightarrow> s | Some v \<Rightarrow> stringify2 0 v);
          directText = orElse (asString (jfield rcd ''text'')) (asString (jfield rcd ''content''))
      in if truthy directText then the directText
         else if nestedText \<noteq> [] then nestedText
         else rawOutputText)"
| "extractBlockText v = []"
  by pat_completeness auto

termination extractBlockText
proof (relation "measure size")
  show "wf (measure (size :: jsval \<Rightarrow> nat))" by simp
  show "(v, JArr vs) \<in> measure size" if "v \<in> set vs" for v vs
    using that by (induction vs) auto
qed (auto dest: jfield_size)

definition blockText :: "jsval option \<Rightarrow> string" where
  "blockText value = (case value of None \<Rightarrow> [] | Some v \<Rightarrow> extractBlockText v)"

definition extractContentText :: "jsval option \<Rightarrow> string" where
  "extractContentText value =
     (case value of
        Some (JStr s) \<Rightarrow> s
      | Some (JArr vs) \<Rightarrow> joinWith nl (map extractBlockText vs)
      | _ \<Rightarrow> blockText value)"

definition extractPromptText :: "(string \<times> jsval) list \<Rightarrow> string" where
  "extractPromptText payload =
     (case jfield (asRecord (jfield payload ''params'')) ''prompt'' of
        Some (JArr prompt) \<Rightarrow> joinWith nl (filter nonempty (map extractBlockText prompt))
      | _ \<Rightarrow> [])"

subsection \<open>Sections of a prompt\<close>

text \<open>The title of a line that matches \<open>/^\[([^\]]+)]\s*$/\<close>.\<close>

definition sectionHeader :: "string \<Rightarrow> string option" where
  "sectionHeader line =
     (case line of
        [] \<Rightarrow> None
      | c # rest \<Rightarrow>
          (let title = takeWhile (\<lambda>x. x \<noteq> CHR '']'') rest;
               after = dropWhile (\<lambda>x. x \<noteq> CHR '']'') rest
           in if c = CHR ''['' \<and> title \<noteq> [] \<and> after \<noteq> [] \<and> list_all js_space (tl after) then Some title else None))"

record section_scan =
  ss_sections :: "prompt_section list"
  ss_current :: "prompt_section option"
  ss_preamble :: "string list"

definition closeSection :: "section_scan \<Rightarrow> prompt_section list" where
  "closeSection s =
     (case ss_current s of
        Some cur \<Rightarrow> ss_sections s @ [\<lparr>ps_title = ps_title cur, ps_body = js_trim (ps_body cur)\<rparr>]
      | None \<Rightarrow>
          (let body = js_trim (joinWith nl (ss_preamble s)) in
           if body \<noteq> [] then ss_sections s @ [\<lparr>ps_title = ''Prompt'', ps_body = body\<rparr>] else ss_sections s))"

definition scanLine :: "string \<Rightarrow> section_scan \<Rightarrow> section_scan" where
  "scanLine line s =
     (case sectionHeader line of
        Some title \<Rightarrow> s\<lparr>ss_sections := closeSection s, ss_current := Some \<lparr>ps_title = title, ps_body = []\<rparr>\<rparr>
      | None \<Rightarrow>
          (case ss_current s of
             Some cur \<Rightarrow>
               s\<lparr>ss_current := Some (cur\<lparr>ps_body := ps_body cur @ (if ps_body cur \<noteq> [] then nl @ line else line)\<rparr>)\<rparr>
           | None \<Rightarrow> s\<lparr>ss_preamble := ss_preamble s @ [line]\<rparr>))"

definition parsePromptSections :: "string \<Rightarrow> prompt_section list" where
  "parsePromptSections prompt =
     closeSection (fold scanLine (splitLines prompt) \<lparr>ss_sections = [], ss_current = None, ss_preamble = []\<rparr>)"

definition EVENT_CONTENT_BOUNDARY_RE :: "string \<Rightarrow> bool" where
  "EVENT_CONTENT_BOUNDARY_RE line =
     list_ex (startsWith line) [''Event ID:'', ''Channel:'', ''Kind:'', ''From:'', ''Time:'', ''Tags:'', ''Parsed:'']"

text \<open>\<open>/^--- Event \d+\b/\<close>.\<close>

definition EVENT_BLOCK_BOUNDARY_RE :: "string \<Rightarrow> bool" where
  "EVENT_BLOCK_BOUNDARY_RE line =
     (startsWith line ''--- Event '' \<and>
      (let rest = drop 10 line in
       takeWhile is_digit rest \<noteq> [] \<and> \<not> starts_word (dropWhile is_digit rest)))"

definition line_end :: "char \<Rightarrow> bool" where
  "line_end c = (c = newline \<or> c = carriage)"

text \<open>\<open>/^Content:\s?(.*)$/\<close>; the dot matches no line end.\<close>

definition contentLine :: "string \<Rightarrow> string option" where
  "contentLine line =
     (if \<not> startsWith line ''Content:'' then None
      else
        let rest = drop 8 line;
            body = (case rest of c # cs \<Rightarrow> if js_space c then cs else rest | [] \<Rightarrow> [])
        in if list_ex line_end body then None else Some body)"

fun extractContents :: "string list \<Rightarrow> string list" where
  "extractContents [] = []"
| "extractContents (line # lines) =
     (case contentLine line of
        None \<Rightarrow> extractContents lines
      | Some first \<Rightarrow>
          (let rest = takeWhile (\<lambda>l. \<not> EVENT_CONTENT_BOUNDARY_RE l \<and> \<not> EVENT_BLOCK_BOUNDARY_RE l) lines;
               content = js_trim (joinWith nl (first # rest))
           in (if content \<noteq> [] then [content] else []) @ extractContents lines))"

definition extractEventContent :: "string \<Rightarrow> string" where
  "extractEventContent body = joinWith (nl @ nl) (extractContents (splitLines body))"

text \<open>\<open>\s*([0-9a-fA-F]{64})\<close>, with a word boundary after it when \<open>closed\<close>.\<close>

definition ascii_hex :: "char \<Rightarrow> bool" where
  "ascii_hex c = (let n = of_char c :: nat in
     (48 \<le> n \<and> n \<le> 57) \<or> (65 \<le> n \<and> n \<le> 70) \<or> (97 \<le> n \<and> n \<le> 102))"

definition hexAt :: "bool \<Rightarrow> string \<Rightarrow> string option" where
  "hexAt closed s =
     (let t = dropWhile js_space s in
      if length (take 64 t) = 64 \<and> list_all ascii_hex (take 64 t) \<and> (closed \<longrightarrow> \<not> starts_word (drop 64 t))
      then Some (take 64 t) else None)"

text \<open>The last \<open>\bhex:\<close> of a line that a key follows, as the greedy \<open>.*\<close> finds it.\<close>

fun lastHex :: "bool \<Rightarrow> string \<Rightarrow> string option" where
  "lastHex inWord [] = None"
| "lastHex inWord (c # s) =
     orElse (if line_end c then None else lastHex (word_char c) s)
       (if \<not> inWord \<and> startsWith (c # s) ''hex:'' then hexAt False (drop 4 (c # s)) else None)"

text \<open>The first match at the beginning of a line.\<close>

fun matchLines :: "(string \<Rightarrow> string option) \<Rightarrow> bool \<Rightarrow> string \<Rightarrow> string option" where
  "matchLines f atStart [] = (if atStart then f [] else None)"
| "matchLines f atStart (c # s) =
     orElse (if atStart then f (c # s) else None) (matchLines f (line_end c) s)"

definition extractEventAuthorPubkey :: "string \<Rightarrow> string option" where
  "extractEventAuthorPubkey body =
     map_option toLowerCase
       (matchLines (\<lambda>s. if startsWith s ''From:'' then lastHex False (drop 5 s) else None) True body)"

definition extractEventId :: "string \<Rightarrow> string option" where
  "extractEventId body =
     map_option toLowerCase
       (matchLines (\<lambda>s. if startsWith s ''Event ID:'' then hexAt True (drop 9 s) else None) True body)"

record parsed_prompt =
  pp_sections :: "prompt_section list"
  pp_userText :: string
  pp_userTitle :: string
  pp_userPubkey :: "string option"
  pp_userEventId :: "string option"

definition parsePromptText :: "string \<Rightarrow> parsed_prompt" where
  "parsePromptText prompt =
     (let sections = filter (\<lambda>s. length (js_trim (ps_body s)) > 0) (parsePromptSections prompt) in
      if sections = []
      then \<lparr>pp_sections = [], pp_userText = js_trim prompt, pp_userTitle = ''Prompt'', pp_userPubkey = None,
            pp_userEventId = None\<rparr>
      else
        let eventSection = find (\<lambda>section. startsWith (toLowerCase (ps_title section)) ''buzz event'') sections;
            eventKind = map_option (\<lambda>section.
                js_trim (joinWith '':'' (tl (splitChars (\<lambda>c. c = CHR '':'') (ps_title section))))) eventSection
        in \<lparr>pp_sections = sections,
            pp_userText = (case eventSection of Some section \<Rightarrow> extractEventContent (ps_body section) | None \<Rightarrow> []),
            pp_userTitle = (if truthy eventKind then titleCase (the eventKind) else ''tic-tac-toe event''),
            pp_userPubkey = Option.bind eventSection (\<lambda>section. extractEventAuthorPubkey (ps_body section)),
            pp_userEventId = Option.bind eventSection (\<lambda>section. extractEventId (ps_body section))\<rparr>)"

subsection \<open>Sections of the system prompt\<close>

text \<open>One frame at the end of the text: alone, or after the last blank line that precedes its header.\<close>

definition extractFrame :: "string \<Rightarrow> string \<Rightarrow> string option \<times> string" where
  "extractFrame header remainder =
     (if startsWith remainder (header @ nl) then (Some (js_trim (drop (length header + 1) remainder)), [])
      else
        let marker = nl @ nl @ header @ nl in
        case lastIndexOf marker remainder of
          None \<Rightarrow> (None, remainder)
        | Some at \<Rightarrow> (Some (js_trim (drop (at + length marker) remainder)), take at remainder))"

definition CANVAS_HEADER :: string where "CANVAS_HEADER = ''[Channel Canvas]''"

definition CORE_HEADER :: "string \<Rightarrow> string" where
  "CORE_HEADER dash = ''[Agent Memory '' @ dash @ '' core]''"

definition TEAM_DELIMITER :: string where
  "TEAM_DELIMITER = nl @ nl @ ''---'' @ nl @ ''# Team Instructions'' @ nl"

definition splitSystemBody :: "string \<Rightarrow> string \<times> string option" where
  "splitSystemBody raw =
     (case lastIndexOf TEAM_DELIMITER raw of
        None \<Rightarrow> (js_trim raw, None)
      | Some at \<Rightarrow>
          (js_trim (take at raw),
           let team = js_trim (drop (at + length TEAM_DELIMITER) raw) in if team = [] then None else Some team))"

definition sectionIf :: "string \<Rightarrow> string option \<Rightarrow> prompt_section list" where
  "sectionIf title body = (if truthy body then [\<lparr>ps_title = title, ps_body = the body\<rparr>] else [])"

definition systemSections :: "string \<Rightarrow> prompt_section list" where
  "systemSections raw =
     (case splitSystemBody raw of (systemBody, teamBody) \<Rightarrow>
        sectionIf ''System'' (Some systemBody) @ sectionIf ''Team Instructions'' teamBody)"

definition SYSTEM_MARKER :: string where "SYSTEM_MARKER = nl @ ''[System]'' @ nl"

definition baseAndSystemSections :: "string \<Rightarrow> prompt_section list" where
  "baseAndSystemSections baseAndSystem =
     (if baseAndSystem = [] then []
      else if startsWith baseAndSystem (''[System]'' @ nl) then systemSections (drop 9 baseAndSystem)
      else
        let at = indexOf SYSTEM_MARKER baseAndSystem;
            head = (case at of None \<Rightarrow> baseAndSystem | Some i \<Rightarrow> take i baseAndSystem);
            baseBody = js_trim (removePrefix (''[Base]'' @ nl) head)
        in sectionIf ''Base'' (Some baseBody) @
           (case at of None \<Rightarrow> [] | Some i \<Rightarrow> systemSections (drop (i + length SYSTEM_MARKER) baseAndSystem)))"

definition parseSystemPromptSections :: "string \<Rightarrow> string \<Rightarrow> prompt_section list" where
  "parseSystemPromptSections dash systemPrompt =
     (case extractFrame CANVAS_HEADER systemPrompt of (canvasBody, remainder) \<Rightarrow>
      case extractFrame (CORE_HEADER dash) remainder of (coreBody, baseAndSystem) \<Rightarrow>
        baseAndSystemSections baseAndSystem @ sectionIf ''Core Memory'' coreBody @
        sectionIf ''Channel Canvas'' canvasBody)"

subsection \<open>Plans and tool calls\<close>

definition formatPlanEntry :: "(string \<times> jsval) list \<Rightarrow> string" where
  "formatPlanEntry entry =
     (let content = asString (jfield entry ''content'') in
      if \<not> truthy content then []
      else
        let checkbox = (if jfield entry ''status'' = Some (JStr ''completed'') then ''[x]'' else ''[ ]'');
            suffix = (if jfield entry ''status'' = Some (JStr ''in_progress'') then '' (in progress)'' else [])
        in ''- '' @ checkbox @ '' '' @ the content @ suffix)"

definition extractPlanText :: "(string \<times> jsval) list \<Rightarrow> string" where
  "extractPlanText update =
     (case jfield update ''entries'' of
        Some (JArr entries) \<Rightarrow>
          joinWith nl (filter nonempty (map (\<lambda>entry. formatPlanEntry (asRecord (Some entry))) entries))
      | _ \<Rightarrow>
          (let contentText = extractContentText (jfield update ''content'') in
           if contentText \<noteq> [] then contentText else stringify2 0 (JObj update)))"

fun firstObject :: "jsval option list \<Rightarrow> (string \<times> jsval) list" where
  "firstObject [] = []"
| "firstObject (candidate # candidates) =
     (case candidate of Some (JObj obj) \<Rightarrow> obj | _ \<Rightarrow> firstObject candidates)"

definition extractToolArgs :: "(string \<times> jsval) list \<Rightarrow> (string \<times> jsval) list" where
  "extractToolArgs update =
     firstObject (map (jfield update) [''args'', ''arguments'', ''input'', ''rawInput''])"

definition collectToolNameCandidates :: "(string \<times> jsval) list \<Rightarrow> string list" where
  "collectToolNameCandidates update =
     (let args = extractToolArgs update;
          tool = asRecord (jfield update ''tool'');
          input = asRecord (jfield update ''input'');
          rawInput = asRecord (jfield update ''rawInput'');
          candidates =
            map (jfield update) [''toolName'', ''tool_name'', ''name'', ''title'', ''kind''] @
            map (jfield tool) [''name'', ''toolName''] @
            map (jfield args) [''toolName'', ''tool_name'', ''name'', ''method''] @
            map (jfield input) [''toolName'', ''tool_name'', ''name''] @
            map (jfield rawInput) [''toolName'', ''tool_name'', ''name'']
      in concat (map (\<lambda>candidate.
           case asString candidate of Some value \<Rightarrow> if value \<noteq> [] then [value] else [] | None \<Rightarrow> []) candidates))"

record tool_identity =
  ty_title :: string
  ty_toolName :: string
  ty_buzzToolName :: "string option"

definition extractToolIdentity :: "(string \<times> jsval) list \<Rightarrow> tool_identity" where
  "extractToolIdentity update =
     (let candidates = collectToolNameCandidates update;
          knownName = Option.bind (find truthy (map (\<lambda>candidate. findBuzzToolName candidate True) candidates)) (\<lambda>x. x);
          firstSpecific = find (\<lambda>candidate. \<not> isGenericToolTitle candidate) candidates;
          title = (case orElse (asString (jfield update ''title'')) (orElse knownName firstSpecific) of
                     Some t \<Rightarrow> t | None \<Rightarrow> ''Tool call'')
      in \<lparr>ty_title = title,
          ty_toolName = (case knownName of
              Some name \<Rightarrow> name
            | None \<Rightarrow> normalizeToolName (case firstSpecific of Some s \<Rightarrow> s | None \<Rightarrow> title)),
          ty_buzzToolName = knownName\<rparr>)"

definition extractToolResult :: "(string \<times> jsval) list \<Rightarrow> string" where
  "extractToolResult update =
     (let contentText = extractContentText (jfield update ''content'') in
      if contentText \<noteq> [] then contentText else blockText (jfield update ''rawOutput''))"

definition extractTriggeringEventIds :: "jsval \<Rightarrow> string list" where
  "extractTriggeringEventIds payload =
     (case jfield (asRecord (Some payload)) ''triggeringEventIds'' of
        Some (JArr ids) \<Rightarrow> concat (map (\<lambda>i. case i of JStr s \<Rightarrow> [s] | _ \<Rightarrow> []) ids)
      | _ \<Rightarrow> [])"

definition describeTurnStarted :: "jsval \<Rightarrow> string" where
  "describeTurnStarted payload =
     (let ids = extractTriggeringEventIds payload in
      if length ids > 0
      then ''Triggered by '' @ (if length ids = 1 then ''1 event'' else show_nat (length ids) @ '' events'') @ ''.''
      else [])"

definition describeSessionResolved :: "jsval \<Rightarrow> string" where
  "describeSessionResolved payload =
     (if jfield (asRecord (Some payload)) ''isNewSession'' = Some (JBool True) then ''New session created.'' else [])"

definition describeRawEvent :: "observer_event \<Rightarrow> string" where
  "describeRawEvent event =
     (let payload = asRecord (Some (oe_payload event));
          rpc_method = asString (jfield payload ''method'')
      in if rpc_method = Some ''session/update''
         then
           (let update = asRecord (jfield (asRecord (jfield payload ''params'')) ''update'') in
            case asString (jfield update ''sessionUpdate'') of Some u \<Rightarrow> u | None \<Rightarrow> ''session/update'')
         else (case rpc_method of Some m \<Rightarrow> m | None \<Rightarrow> oe_kind event))"

subsection \<open>Errors in plain words\<close>

datatype error_severity = Denied | Generic

record friendly_error =
  fe_severity :: error_severity
  fe_copy :: string

definition COMPUTE_ACCESS_DENIED_COPY :: "string \<Rightarrow> string" where
  "COMPUTE_ACCESS_DENIED_COPY dash =
     ''Community access denied this agent '' @ dash @ '' check its community membership.''"

definition MODEL_NOT_FOUND_COPY :: "string \<Rightarrow> string" where
  "MODEL_NOT_FOUND_COPY dash =
     ''The configured model is not available '' @ dash @
     '' open agent settings and select a different one from the dropdown.''"

definition CLI_ACP_INTERNAL_ERROR_COPY :: "string \<Rightarrow> string" where
  "CLI_ACP_INTERNAL_ERROR_COPY dash =
     ''The agent'' @ [single_quote] @
     ''s harness reported an internal error. For Codex agents this can mean the configured model isn'' @ [single_quote] @
     ''t supported by your installed codex-acp '' @ dash @
     '' check the model in `~/.codex/config.toml` or upgrade the adapter (`brew upgrade codex-acp`).''"

definition BARE_INTERNAL_ERROR :: string where "BARE_INTERNAL_ERROR = ''Internal error''"

definition ERROR_PREFIX :: string where "ERROR_PREFIX = ''Agent reported error (code ''"

text \<open>\<open>/^Agent reported error \(code (-?\d+)\): /\<close>.\<close>

definition recoverEmbeddedCode :: "string \<Rightarrow> (int \<times> string) option" where
  "recoverEmbeddedCode trimmed =
     (if \<not> startsWith trimmed ERROR_PREFIX then None
      else
        let rest = drop (length ERROR_PREFIX) trimmed;
            neg = startsWith rest ''-'';
            digits = (if neg then tl rest else rest);
            ds = takeWhile is_digit digits;
            after = dropWhile is_digit digits
        in if ds \<noteq> [] \<and> startsWith after ''): ''
           then Some (if neg then - int (nat_of_digits ds) else int (nat_of_digits ds), drop 3 after)
           else None)"

definition friendlyAgentLastError :: "string \<Rightarrow> string option \<Rightarrow> jsval option \<Rightarrow> friendly_error option" where
  "friendlyAgentLastError dash raw code =
     (case raw of
        None \<Rightarrow> None
      | Some r \<Rightarrow>
          (let trimmed = js_trim r in
           if trimmed = [] then None
           else
             let embedded = recoverEmbeddedCode trimmed;
                 effectiveCode = (case code of
                     Some (JNum i) \<Rightarrow> Some (JNum i)
                   | Some (JFrac lit) \<Rightarrow> Some (JFrac lit)
                   | _ \<Rightarrow> map_option (JNum \<circ> fst) embedded)
             in case effectiveCode of
                  Some c \<Rightarrow>
                    if c = JNum (- 32001) then Some \<lparr>fe_severity = Denied, fe_copy = COMPUTE_ACCESS_DENIED_COPY dash\<rparr>
                    else if c = JNum (- 32002) then Some \<lparr>fe_severity = Denied, fe_copy = MODEL_NOT_FOUND_COPY dash\<rparr>
                    else if c = JNum (- 32603) then
                      (let remainder = (case embedded of Some (_, rest) \<Rightarrow> rest | None \<Rightarrow> trimmed) in
                       if remainder = BARE_INTERNAL_ERROR
                       then Some \<lparr>fe_severity = Generic, fe_copy = CLI_ACP_INTERNAL_ERROR_COPY dash\<rparr>
                       else Some \<lparr>fe_severity = Generic, fe_copy = remainder\<rparr>)
                    else Some \<lparr>fe_severity = Generic, fe_copy = trimmed\<rparr>
                | None \<Rightarrow>
                    if startsWith trimmed ''Agent reported error: llm auth:'' \<or> startsWith trimmed ''llm auth:''
                    then Some \<lparr>fe_severity = Denied, fe_copy = COMPUTE_ACCESS_DENIED_COPY dash\<rparr>
                    else Some \<lparr>fe_severity = Generic, fe_copy = trimmed\<rparr>))"

definition friendlyTurnErrorCopy :: "string \<Rightarrow> (jsval \<Rightarrow> jsval) \<Rightarrow> string \<Rightarrow> jsval option \<Rightarrow> string" where
  "friendlyTurnErrorCopy dash number raw code =
     (let safe = (case code of None \<Rightarrow> None | Some JNull \<Rightarrow> None | Some v \<Rightarrow> Some (number v)) in
      case friendlyAgentLastError dash (Some raw) safe of Some e \<Rightarrow> fe_copy e | None \<Rightarrow> raw)"

subsection \<open>The framed system prompt\<close>

text \<open>
  What the harness writes, as the comment of \<open>parseSystemPromptSections\<close> gives it: the frames in order, a
  blank line between them, each left out when absent, and the team instructions behind the persona.
\<close>

definition appendFrame :: "string \<Rightarrow> string \<Rightarrow> string option \<Rightarrow> string" where
  "appendFrame front header body =
     (case body of
        None \<Rightarrow> front
      | Some b \<Rightarrow> (if front = [] then [] else front @ nl @ nl) @ header @ nl @ b)"

definition composePersona :: "string \<times> string option \<Rightarrow> string" where
  "composePersona system =
     (case system of (persona, team) \<Rightarrow> persona @ (case team of None \<Rightarrow> [] | Some t \<Rightarrow> TEAM_DELIMITER @ t))"

definition composeBaseAndSystem :: "string option \<Rightarrow> (string \<times> string option) option \<Rightarrow> string" where
  "composeBaseAndSystem base system =
     appendFrame (appendFrame [] ''[Base]'' base) ''[System]'' (map_option composePersona system)"

definition composeSystemPrompt ::
  "string \<Rightarrow> string option \<Rightarrow> (string \<times> string option) option \<Rightarrow> string option \<Rightarrow> string option \<Rightarrow> string" where
  "composeSystemPrompt dash base system core canvas =
     appendFrame (appendFrame (composeBaseAndSystem base system) (CORE_HEADER dash) core) CANVAS_HEADER canvas"

text \<open>The sections a prompt is framed from.\<close>

definition promptSections ::
  "string option \<Rightarrow> (string \<times> string option) option \<Rightarrow> string option \<Rightarrow> string option \<Rightarrow> prompt_section list" where
  "promptSections base system core canvas =
     sectionIf ''Base'' base @ sectionIf ''System'' (map_option fst system) @
     sectionIf ''Team Instructions'' (Option.bind system snd) @ sectionIf ''Core Memory'' core @
     sectionIf ''Channel Canvas'' canvas"

definition trimmed_text :: "string \<Rightarrow> bool" where
  "trimmed_text s \<longleftrightarrow> s \<noteq> [] \<and> js_trim s = s"

text \<open>
  A text can be found behind its delimiter when it does not repeat the delimiter; when there is none, the
  text in front must not hold the delimiter.
\<close>

definition separable :: "string \<Rightarrow> string \<Rightarrow> string option \<Rightarrow> bool" where
  "separable delimiter front body \<longleftrightarrow>
     (case body of
        None \<Rightarrow> \<not> js_includes front delimiter
      | Some b \<Rightarrow> trimmed_text b \<and> last_here delimiter b)"

definition base_ok :: "string option \<Rightarrow> bool \<Rightarrow> bool" where
  "base_ok base systemFollows \<longleftrightarrow>
     (case base of
        None \<Rightarrow> True
      | Some b \<Rightarrow> trimmed_text b \<and>
          (if systemFollows then first_here SYSTEM_MARKER (''[Base]'' @ nl @ b @ nl)
           else \<not> js_includes (''[Base]'' @ nl @ b) SYSTEM_MARKER))"

definition system_ok :: "(string \<times> string option) option \<Rightarrow> bool" where
  "system_ok system \<longleftrightarrow>
     (case system of None \<Rightarrow> True | Some (persona, team) \<Rightarrow> trimmed_text persona \<and> separable TEAM_DELIMITER persona team)"

lemma newline_space [simp]: "js_space newline"
  by (simp add: newline_def js_space_def)

lemma extractFrame_last:
  assumes "\<not> startsWith s (header @ nl)" and "s = a @ (nl @ nl @ header @ nl) @ b"
    and "last_here (nl @ nl @ header @ nl) b" and "trimmed_text b"
  shows "extractFrame header s = (Some b, a)"
proof -
  define marker where "marker = nl @ nl @ header @ nl"
  have s: "s = a @ marker @ b" using assms(2) by (simp add: marker_def)
  have "lastIndexOf marker s = Some (length a)"
    unfolding s by (rule lastIndexOf_last) (use assms(3) in \<open>simp_all add: marker_def\<close>)
  moreover have "drop (length a + length marker) s = b" "take (length a) s = a" unfolding s by simp_all
  ultimately show ?thesis using assms(1,4) unfolding extractFrame_def trimmed_text_def marker_def [symmetric]
    by simp
qed

lemma extractFrame_append:
  assumes "separable (nl @ nl @ header @ nl) front body" and "\<And>t. front = [] \<or> \<not> startsWith (front @ t) (header @ nl)"
    and "header \<noteq> []"
  shows "extractFrame header (appendFrame front header body) = (body, front)"
proof (cases body)
  case None
  have "\<not> startsWith front (header @ nl)" using assms(2) [of "[]"] assms(3) by (auto simp: startsWith_def)
  moreover have "lastIndexOf (nl @ nl @ header @ nl) front = None"
    using None assms(1) lastIndexOf_None [of "nl @ nl @ header @ nl" front] by (simp add: separable_def)
  ultimately show ?thesis using None by (simp add: appendFrame_def extractFrame_def)
next
  case (Some b)
  then have b: "trimmed_text b" "last_here (nl @ nl @ header @ nl) b" using assms(1) by (simp_all add: separable_def)
  show ?thesis
  proof (cases "front = []")
    case True
    then show ?thesis using Some b(1) by (simp add: appendFrame_def extractFrame_def trimmed_text_def startsWith_def)
  next
    case False
    have "appendFrame front header body = front @ (nl @ nl @ header @ nl) @ b" using Some False by (simp add: appendFrame_def)
    then show ?thesis using extractFrame_last [OF _ _ b(2,1)] assms(2) [of "(nl @ nl @ header @ nl) @ b"] False Some by metis
  qed
qed

lemma sectionIf_ok: "trimmed_text b \<Longrightarrow> sectionIf title (Some b) = [\<lparr>ps_title = title, ps_body = b\<rparr>]"
  "sectionIf title None = []"
  by (simp_all add: sectionIf_def truthy_def trimmed_text_def)

lemma systemSections_persona:
  assumes "system_ok (Some (persona, team))"
  shows "systemSections (composePersona (persona, team)) = sectionIf ''System'' (Some persona) @ sectionIf ''Team Instructions'' team"
proof -
  have ok: "trimmed_text persona" "separable TEAM_DELIMITER persona team" and "TEAM_DELIMITER \<noteq> []"
    using assms by (simp_all add: system_ok_def TEAM_DELIMITER_def)
  then have "(case team of
      None \<Rightarrow> lastIndexOf TEAM_DELIMITER persona = None
    | Some t \<Rightarrow> lastIndexOf TEAM_DELIMITER (persona @ TEAM_DELIMITER @ t) = Some (length persona))"
    by (auto simp: separable_def lastIndexOf_None intro: lastIndexOf_last split: option.splits)
  then show ?thesis using ok
    by (cases team) (simp_all add: composePersona_def systemSections_def splitSystemBody_def sectionIf_def truthy_def
        trimmed_text_def separable_def)
qed

lemma baseAndSystem_framed:
  assumes "trimmed_text base" and "first_here SYSTEM_MARKER (''[Base]'' @ nl @ base @ nl)"
  shows "baseAndSystemSections ((''[Base]'' @ nl @ base @ nl) @ SYSTEM_MARKER @ raw) =
    \<lparr>ps_title = ''Base'', ps_body = base\<rparr> # systemSections raw"
proof -
  define a where "a = ''[Base]'' @ nl @ base @ nl"
  have "SYSTEM_MARKER \<noteq> []" by (simp add: SYSTEM_MARKER_def)
  then have at: "indexOf SYSTEM_MARKER (a @ SYSTEM_MARKER @ raw) = Some (length a)"
    using assms(2) unfolding a_def by (rule indexOf_first)
  have head: "removePrefix (''[Base]'' @ nl) a = base @ nl" by (simp add: removePrefix_def a_def startsWith_def)
  have "js_trim (base @ nl) = base" using assms(1) js_trim_strip [of base nl] by (simp add: trimmed_text_def)
  moreover have "\<not> startsWith (a @ SYSTEM_MARKER @ raw) (''[System]'' @ nl)" "a @ SYSTEM_MARKER @ raw \<noteq> []"
    by (simp_all add: a_def startsWith_def)
  ultimately show ?thesis
    using at head assms(1) unfolding baseAndSystemSections_def a_def [symmetric]
    by (simp add: sectionIf_def truthy_def trimmed_text_def)
qed

lemma baseAndSystem_sections:
  assumes "base_ok base (system \<noteq> None)" and "system_ok system"
  shows "baseAndSystemSections (composeBaseAndSystem base system) =
    sectionIf ''Base'' base @ sectionIf ''System'' (map_option fst system) @
    sectionIf ''Team Instructions'' (Option.bind system snd)"
proof (cases base)
  case None
  show ?thesis
  proof (cases system)
    case (Some ps)
    obtain persona team where ps: "ps = (persona, team)" by (cases ps)
    have "composeBaseAndSystem base system = ''[System]'' @ nl @ composePersona (persona, team)"
      using None Some ps by (simp add: composeBaseAndSystem_def appendFrame_def)
    then show ?thesis using None Some ps assms(2) systemSections_persona [of persona team]
      by (simp add: baseAndSystemSections_def startsWith_def sectionIf_ok(2))
  qed (simp add: None composeBaseAndSystem_def appendFrame_def baseAndSystemSections_def sectionIf_ok(2))
next
  case (Some b)
  then have b: "trimmed_text b" "removePrefix (''[Base]'' @ nl) (''[Base]'' @ nl @ b) = b"
    using assms(1) by (simp_all add: base_ok_def removePrefix_def startsWith_def)
  show ?thesis
  proof (cases system)
    case None
    then have "indexOf SYSTEM_MARKER (''[Base]'' @ nl @ b) = None" using assms(1) Some by (simp add: base_ok_def js_includes_def)
    then show ?thesis using Some None b
      by (simp add: composeBaseAndSystem_def appendFrame_def baseAndSystemSections_def startsWith_def sectionIf_ok trimmed_text_def)
  next
    case (Some ps)
    obtain persona team where ps: "ps = (persona, team)" by (cases ps)
    have "first_here SYSTEM_MARKER (''[Base]'' @ nl @ b @ nl)" using assms(1) \<open>base = Some b\<close> Some by (simp add: base_ok_def)
    note framed = baseAndSystem_framed [OF b(1) this, of "composePersona (persona, team)"]
    have "composeBaseAndSystem base system = (''[Base]'' @ nl @ b @ nl) @ SYSTEM_MARKER @ composePersona (persona, team)"
      using \<open>base = Some b\<close> Some ps by (simp add: composeBaseAndSystem_def appendFrame_def SYSTEM_MARKER_def)
    then show ?thesis using framed systemSections_persona [of persona team] assms(2) \<open>base = Some b\<close> Some ps b(1)
      by (simp add: sectionIf_ok(1))
  qed
qed

text \<open>
  The framing itself is ambiguous: a persona that quotes the frame of a section that is left out gives the
  same text as a prompt with that section, so no parser can tell them apart.
\<close>

lemma omitted_section_ambiguous:
  "composeSystemPrompt dash base (Some (persona @ (nl @ nl @ CANVAS_HEADER @ nl) @ quoted, None)) None None =
     composeSystemPrompt dash base (Some (persona, None)) None (Some quoted)"
  "composeSystemPrompt dash base (Some (persona @ TEAM_DELIMITER @ quoted, None)) core canvas =
     composeSystemPrompt dash base (Some (persona, Some quoted)) core canvas"
  by (auto simp: composeSystemPrompt_def composeBaseAndSystem_def appendFrame_def composePersona_def split: option.splits)

lemma compose_starts:
  "front = composeBaseAndSystem base system \<Longrightarrow> front = [] \<or> \<not> startsWith (front @ t) (CORE_HEADER dash @ nl)"
  "front = appendFrame (composeBaseAndSystem base system) (CORE_HEADER dash) core \<Longrightarrow>
     front = [] \<or> \<not> startsWith (front @ t) (CANVAS_HEADER @ nl)"
  by (auto simp: composeBaseAndSystem_def appendFrame_def CORE_HEADER_def CANVAS_HEADER_def startsWith_def split: option.splits)



end
