(* ===== verification/Transcript.thy ===== *)
theory Transcript
  imports Prompts
begin

text \<open>
  The transcript of an agent's session (\<open>features/agents/ui/agentSessionTranscript.ts\<close>): the reducer
  that turns each observer frame into new or changed items of the feed.

  The fields that every variant of \<open>TranscriptItem\<close> has are the record \<open>transcript_item\<close>, the rest is
  its \<open>ti_variant\<close>. A draft is the state with the flag \<open>changed\<close>; the lazy copies that the draft makes
  before it writes are not visible in values. The key of a turn is written as text already
  (\<open>event.turnId ?? event.seq\<close> in a template). A numeric JSON-RPC id is taken as finite.

  Arguments stand for what the model does not compute: \<open>dash\<close> (U+2014), \<open>number\<close> (\<open>Number(x)\<close>) and
  \<open>fixed4\<close> (\<open>x.toFixed(4)\<close>).

  The reducer throws in one place, on a \<open>null\<close> among the options of a configuration update; the
  value is then \<open>None\<close>.
\<close>

subsection \<open>Data\<close>

datatype message_role = AssistantRole | UserRole

datatype lifecycle_class = LStatus | LPermission | LError

record tool_fields =
  tf_renderClass :: render_class
  tf_descriptor :: activity_descriptor
  tf_toolName :: string
  tf_buzzToolName :: "string option"
  tf_status :: tool_status
  tf_args :: "(string \<times> jsval) list"
  tf_result :: string
  tf_isError :: bool
  tf_startedAt :: string
  tf_completedAt :: "string option"

record message_fields =
  mf_role :: message_role
  mf_text :: string
  mf_messageId :: "string option"
  mf_authorPubkey :: "string option"

record lifecycle_fields =
  lf_renderClass :: lifecycle_class
  lf_text :: string
  lf_outcome :: "string option"
  lf_descriptor :: "activity_descriptor option"

record plan_fields =
  pf_text :: string
  pf_isUpdate :: bool
  pf_targetId :: "string option"

datatype item_variant =
    MessageItem message_fields
  | ThoughtItem string
  | PlanItem plan_fields
  | LifecycleItem lifecycle_fields
  | MetadataItem "prompt_section list"
  | ToolItem tool_fields

record transcript_item =
  ti_id :: string
  ti_title :: string
  ti_timestamp :: string
  ti_acpSource :: "string option"
  ti_channelId :: "string option"
  ti_turnId :: "string option"
  ti_sessionId :: "string option"
  ti_variant :: item_variant

record pending_permission =
  pe_itemId :: string
  pe_optionNames :: "(string, string) jsmap"

record transcript_state =
  ts_items :: "transcript_item list"
  ts_itemsById :: "(string, transcript_item) jsmap"
  ts_activeMessageKey :: "(string, string) jsmap"
  ts_sealedKeys :: "string list"
  ts_triggeringEventIdsByTurn :: "(string, string list) jsmap"
  ts_pendingPermissions :: "(string, pending_permission) jsmap"
  ts_continuationSeq :: nat
  ts_latestSessionId :: "string option"

record transcript_draft = transcript_state +
  td_changed :: bool

definition createEmptyTranscriptState :: transcript_state where
  "createEmptyTranscriptState =
     \<lparr>ts_items = [], ts_itemsById = [], ts_activeMessageKey = [], ts_sealedKeys = [],
      ts_triggeringEventIdsByTurn = [], ts_pendingPermissions = [], ts_continuationSeq = 0,
      ts_latestSessionId = None\<rparr>"

definition draftFrom :: "transcript_state \<Rightarrow> transcript_draft" where
  "draftFrom state = transcript_state.extend state (transcript_draft.fields False)"

subsection \<open>The draft\<close>

fun replaceFirst :: "string \<Rightarrow> transcript_item \<Rightarrow> transcript_item list \<Rightarrow> transcript_item list" where
  "replaceFirst key updated [] = []"
| "replaceFirst key updated (it # items) =
     (if ti_id it = key then updated # items else it # replaceFirst key updated items)"

definition replaceItem :: "string \<Rightarrow> transcript_item \<Rightarrow> transcript_draft \<Rightarrow> transcript_draft" where
  "replaceItem key updated d =
     d\<lparr>ts_items := replaceFirst key updated (ts_items d),
       ts_itemsById := jset (ts_itemsById d) key updated, td_changed := True\<rparr>"

definition pushItem :: "transcript_item \<Rightarrow> transcript_draft \<Rightarrow> transcript_draft" where
  "pushItem item d =
     d\<lparr>ts_items := ts_items d @ [item],
       ts_itemsById := jset (ts_itemsById d) (ti_id item) item, td_changed := True\<rparr>"

definition sealOpenMessages :: "transcript_draft \<Rightarrow> transcript_draft" where
  "sealOpenMessages d =
     d\<lparr>ts_sealedKeys := fold (\<lambda>currentKey s. sadd s currentKey) (jvals (ts_activeMessageKey d)) (ts_sealedKeys d)\<rparr>"

definition turnMapKey :: "string \<Rightarrow> string option \<Rightarrow> string" where
  "turnMapKey channelKey turnKey = channelKey @ '':'' @ (case turnKey of Some t \<Rightarrow> t | None \<Rightarrow> ''unknown'')"

definition rememberTriggeringEventIds ::
  "string \<Rightarrow> string option \<Rightarrow> string list \<Rightarrow> transcript_draft \<Rightarrow> transcript_draft" where
  "rememberTriggeringEventIds channelKey turnKey ids d =
     (if length ids = 0 then d
      else d\<lparr>ts_triggeringEventIdsByTurn :=
               jset (ts_triggeringEventIdsByTurn d) (turnMapKey channelKey turnKey) ids\<rparr>)"

text \<open>\<open>/^[0-9a-fA-F]{64}$/\<close>.\<close>

definition maybeNostrEventId :: "string option \<Rightarrow> string option" where
  "maybeNostrEventId i =
     (case i of Some s \<Rightarrow> if length s = 64 \<and> list_all ascii_hex s then Some s else None | None \<Rightarrow> None)"

definition getSingleTriggeringEventId :: "string \<Rightarrow> string option \<Rightarrow> transcript_draft \<Rightarrow> string option" where
  "getSingleTriggeringEventId channelKey turnKey d =
     (case jget (ts_triggeringEventIdsByTurn d) (turnMapKey channelKey turnKey) of
        Some ids \<Rightarrow> if length ids = 1 then maybeNostrEventId (Some (ids ! 0)) else None
      | None \<Rightarrow> None)"

subsection \<open>Reading payloads\<close>

definition stringifyPayload :: "jsval \<Rightarrow> string" where
  "stringifyPayload value = stringify2 0 value"

record permission_request =
  pq_title :: string
  pq_text :: string
  pq_optionNames :: "(string, string) jsmap"
  pq_descriptor :: activity_descriptor

definition addOptionName :: "jsval \<Rightarrow> (string, string) jsmap \<Rightarrow> (string, string) jsmap" where
  "addOptionName option names =
     (let optionId = asString (jfield (asRecord (Some option)) ''optionId'');
          kind = asString (jfield (asRecord (Some option)) ''kind'')
      in if truthy optionId \<and> truthy kind then jset names (the optionId) (the kind) else names)"

definition describePermissionRequest :: "(string \<times> jsval) list \<Rightarrow> permission_request" where
  "describePermissionRequest payload =
     (let params = asRecord (jfield payload ''params'');
          title = (case orElse (asString (jfield params ''title''))
                     (orElse (asString (jfield params ''message'')) (asString (jfield params ''reason''))) of
                     Some t \<Rightarrow> t | None \<Rightarrow> ''Permission requested'');
          toolCallId = orElse (asString (jfield params ''toolCallId'')) (asString (jfield params ''tool_call_id''));
          given = (case jfield params ''options'' of Some (JArr os) \<Rightarrow> os | _ \<Rightarrow> []);
          options = concat (map (\<lambda>option.
            let rcd = asRecord (Some option);
                name = orElse (asString (jfield rcd ''name''))
                         (orElse (asString (jfield rcd ''kind'')) (asString (jfield rcd ''optionId'')))
            in if truthy name then [the name] else []) given);
          detail = (if title \<noteq> ''Permission requested'' then [title] else []) @
                   (if truthy toolCallId then [''Tool call: '' @ the toolCallId] else []) @
                   (if length options > 0 then [''Options: '' @ joinWith '', '' options] else [])
      in \<lparr>pq_title = title, pq_text = joinWith nl detail, pq_optionNames = fold addOptionName given [],
          pq_descriptor =
            \<lparr>ad_renderClass = RPermission, ad_label = ''Permission requested'', ad_preview = Some title,
             ad_action = Some \<lparr>ac_verb = ''Requested'', ac_object = Some title\<rparr>, ad_tone = Some ToneAdmin,
             ad_operation = Some ''session/request_permission'', ad_object = Some title, ad_source = Some ''acp'',
             ad_groupKey = Some ''permission:request'', ad_reason = None\<rparr>\<rparr>)"

definition describePermissionOutcome :: "string \<Rightarrow> string option \<Rightarrow> (string, string) jsmap \<Rightarrow> string" where
  "describePermissionOutcome outcome optionId optionNames =
     (if outcome = ''cancelled'' then ''Cancelled''
      else if outcome = ''selected'' \<and> truthy optionId
      then
        let kind = (case jget optionNames (the optionId) of Some k \<Rightarrow> k | None \<Rightarrow> the optionId)
        in (if startsWith kind ''reject'' then ''Denied'' else ''Approved'') @ '' ('' @ kind @ '')''
      else outcome)"

definition jsonRpcId :: "jsval option \<Rightarrow> string option" where
  "jsonRpcId value =
     (case value of
        Some (JStr s) \<Rightarrow> Some (stringify (JStr s))
      | Some (JNum i) \<Rightarrow> Some (stringify (JNum i))
      | Some (JFrac lit) \<Rightarrow> Some (stringify (JFrac lit))
      | _ \<Rightarrow> None)"

record freeform_status =
  fs_statusType :: string
  fs_title :: string
  fs_text :: string

definition describeFreeformStatus :: "(string \<times> jsval) list \<Rightarrow> freeform_status option" where
  "describeFreeformStatus payload =
     (let statusType = orElse (asString (jfield payload ''type'')) (asString (jfield payload ''status''));
          title = orElse (asString (jfield payload ''title''))
                    (if truthy statusType then Some (titleCase (the statusType)) else None);
          body = orElse (asString (jfield payload ''text'')) (asString (jfield payload ''message''))
      in if \<not> truthy title \<or> \<not> truthy body then None
         else Some \<lparr>fs_statusType = (case statusType of Some t \<Rightarrow> t | None \<Rightarrow> toLowerCase (the title)),
                    fs_title = the title, fs_text = the body\<rparr>)"

definition rawPayloadTitle :: "jsval \<Rightarrow> string" where
  "rawPayloadTitle payload =
     (case orElse (asString (jfield (asRecord (Some payload)) ''method''))
             (asString (jfield (asRecord (Some payload)) ''type'')) of
        Some t \<Rightarrow> t | None \<Rightarrow> ''raw_json_rpc'')"

subsection \<open>Creating and changing items\<close>

record item_context =
  ic_channelId :: "string option"
  ic_turnId :: "string option"
  ic_sessionId :: "string option"

definition newItem ::
  "string \<Rightarrow> string \<Rightarrow> string \<Rightarrow> item_context \<Rightarrow> string option \<Rightarrow> item_variant \<Rightarrow> transcript_item" where
  "newItem key title timestamp ctx acpSource variant =
     \<lparr>ti_id = key, ti_title = title, ti_timestamp = timestamp, ti_acpSource = acpSource,
      ti_channelId = ic_channelId ctx, ti_turnId = ic_turnId ctx, ti_sessionId = ic_sessionId ctx,
      ti_variant = variant\<rparr>"

text \<open>The fields that every update of an existing item rewrites.\<close>

definition refresh :: "item_context \<Rightarrow> string option \<Rightarrow> transcript_item \<Rightarrow> transcript_item" where
  "refresh ctx acpSource existing =
     existing\<lparr>ti_channelId := ic_channelId ctx,
              ti_turnId := orElse (ic_turnId ctx) (ti_turnId existing),
              ti_sessionId := orElse (ic_sessionId ctx) (ti_sessionId existing),
              ti_acpSource := orElse acpSource (ti_acpSource existing)\<rparr>"

definition openMessage :: "string \<Rightarrow> transcript_draft \<Rightarrow> (string \<times> transcript_item \<times> message_fields) option" where
  "openMessage key d =
     (case jget (ts_activeMessageKey d) key of
        None \<Rightarrow> None
      | Some currentKey \<Rightarrow>
          if currentKey = [] \<or> currentKey \<in> set (ts_sealedKeys d) then None
          else
            case jget (ts_itemsById d) currentKey of
              None \<Rightarrow> None
            | Some existing \<Rightarrow>
                (case ti_variant existing of
                   MessageItem m \<Rightarrow> Some (currentKey, existing, m)
                 | _ \<Rightarrow> None))"

definition upsertMessage ::
  "string \<Rightarrow> message_role \<Rightarrow> string \<Rightarrow> string \<Rightarrow> string \<Rightarrow> item_context \<Rightarrow> string option \<Rightarrow> string option \<Rightarrow>
   string option \<Rightarrow> transcript_draft \<Rightarrow> transcript_draft" where
  "upsertMessage key role title body timestamp ctx authorPubkey acpSource messageId d =
     (case openMessage key d of
        Some (currentKey, existing, m) \<Rightarrow>
          replaceItem currentKey
            ((refresh ctx acpSource existing)
               \<lparr>ti_variant := MessageItem
                  (m\<lparr>mf_text := mf_text m @ body,
                     mf_authorPubkey := orElse authorPubkey (mf_authorPubkey m),
                     mf_messageId := orElse messageId (mf_messageId m)\<rparr>)\<rparr>) d
      | None \<Rightarrow>
          (let continuationSeq = Suc (ts_continuationSeq d);
               newKey = (if truthy (jget (ts_activeMessageKey d) key)
                         then key @ '':c'' @ show_nat continuationSeq else key);
               d1 = pushItem (newItem newKey title timestamp ctx acpSource
                      (MessageItem \<lparr>mf_role = role, mf_text = body, mf_messageId = messageId,
                                    mf_authorPubkey = authorPubkey\<rparr>))
                      (d\<lparr>ts_continuationSeq := continuationSeq\<rparr>)
           in d1\<lparr>ts_activeMessageKey := jset (ts_activeMessageKey d1) key newKey\<rparr>))"

definition joinLifecycleText :: "string \<Rightarrow> string \<Rightarrow> string" where
  "joinLifecycleText existing next_text =
     (if existing = [] then next_text else if next_text = [] then existing else existing @ nl @ next_text)"

text \<open>The item under a key, when it is of the wanted variant.\<close>

definition existingLifecycle :: "string \<Rightarrow> transcript_draft \<Rightarrow> (transcript_item \<times> lifecycle_fields) option" where
  "existingLifecycle key d =
     (case jget (ts_itemsById d) key of
        Some it \<Rightarrow> (case ti_variant it of LifecycleItem f \<Rightarrow> Some (it, f) | _ \<Rightarrow> None)
      | None \<Rightarrow> None)"

definition upsertLifecycleItem ::
  "string \<Rightarrow> lifecycle_class \<Rightarrow> string \<Rightarrow> string \<Rightarrow> string \<Rightarrow> item_context \<Rightarrow> string option \<Rightarrow>
   activity_descriptor option \<Rightarrow> transcript_draft \<Rightarrow> transcript_draft" where
  "upsertLifecycleItem key renderClass title body timestamp ctx acpSource descriptor d =
     (case existingLifecycle key d of
        Some (existing, f) \<Rightarrow>
          replaceItem key
            ((refresh ctx acpSource existing)
               \<lparr>ti_title := title,
                ti_variant := LifecycleItem
                  (f\<lparr>lf_renderClass := renderClass, lf_text := joinLifecycleText (lf_text f) body,
                     lf_descriptor := orElse descriptor (lf_descriptor f)\<rparr>)\<rparr>) d
      | None \<Rightarrow>
          pushItem (newItem key title timestamp ctx acpSource
              (LifecycleItem \<lparr>lf_renderClass = renderClass, lf_text = body, lf_outcome = None,
                              lf_descriptor = descriptor\<rparr>))
            (sealOpenMessages d))"

definition replaceLifecycleItem ::
  "string \<Rightarrow> lifecycle_class \<Rightarrow> string \<Rightarrow> string \<Rightarrow> string \<Rightarrow> item_context \<Rightarrow> string option \<Rightarrow>
   transcript_draft \<Rightarrow> transcript_draft" where
  "replaceLifecycleItem key renderClass title body timestamp ctx acpSource d =
     (case existingLifecycle key d of
        Some (existing, f) \<Rightarrow>
          replaceItem key
            ((refresh ctx acpSource existing)
               \<lparr>ti_title := title, ti_variant := LifecycleItem (f\<lparr>lf_renderClass := renderClass, lf_text := body\<rparr>)\<rparr>) d
      | None \<Rightarrow>
          pushItem (newItem key title timestamp ctx acpSource
              (LifecycleItem \<lparr>lf_renderClass = renderClass, lf_text = body, lf_outcome = None, lf_descriptor = None\<rparr>))
            (sealOpenMessages d))"

datatype text_item = ThoughtText | LifecycleText

definition upsertTextItem ::
  "string \<Rightarrow> text_item \<Rightarrow> string \<Rightarrow> string \<Rightarrow> string \<Rightarrow> item_context \<Rightarrow> string option \<Rightarrow>
   transcript_draft \<Rightarrow> transcript_draft" where
  "upsertTextItem key variant title body timestamp ctx acpSource d =
     (case (variant, map_option (\<lambda>it. (it, ti_variant it)) (jget (ts_itemsById d) key)) of
        (ThoughtText, Some (existing, ThoughtItem t)) \<Rightarrow>
          replaceItem key ((refresh ctx acpSource existing)\<lparr>ti_variant := ThoughtItem (t @ body)\<rparr>) d
      | (LifecycleText, Some (existing, LifecycleItem f)) \<Rightarrow>
          replaceItem key
            ((refresh ctx acpSource existing)
               \<lparr>ti_variant := LifecycleItem (f\<lparr>lf_text := joinLifecycleText (lf_text f) body\<rparr>)\<rparr>) d
      | (ThoughtText, _) \<Rightarrow>
          pushItem (newItem key title timestamp ctx acpSource (ThoughtItem body)) (sealOpenMessages d)
      | (LifecycleText, _) \<Rightarrow>
          upsertLifecycleItem key (if js_includes (toLowerCase title) ''error'' then LError else LStatus)
            title body timestamp ctx acpSource None (sealOpenMessages d))"

text \<open>The matches of \<open>/\[[ xX]\]/g\<close>, as their middle characters.\<close>

fun taskMatches :: "string \<Rightarrow> char list" where
  "taskMatches (a # b # c # s) =
     (if a = CHR ''['' \<and> (b = CHR '' '' \<or> b = CHR ''x'' \<or> b = CHR ''X'') \<and> c = CHR '']''
      then b # taskMatches s else taskMatches (b # c # s))"
| "taskMatches s = []"

text \<open>\<open>/^\s*(?:[-*]|\d+[.)])\s+\S/\<close>.\<close>

definition stepLine :: "string \<Rightarrow> bool" where
  "stepLine line =
     (let rest = dropWhile js_space line;
          digits = takeWhile is_digit rest;
          afterDigits = dropWhile is_digit rest;
          after =
            (if rest \<noteq> [] \<and> (hd rest = CHR ''-'' \<or> hd rest = CHR ''*'') then tl rest
             else if digits \<noteq> [] \<and> afterDigits \<noteq> [] \<and> (hd afterDigits = CHR ''.'' \<or> hd afterDigits = CHR '')'')
             then tl afterDigits else [])
      in after \<noteq> [] \<and> js_space (hd after) \<and> dropWhile js_space after \<noteq> [])"

definition summarizePlanUpdate :: "string \<Rightarrow> string" where
  "summarizePlanUpdate body =
     (let tasks = taskMatches body in
      if length tasks > 0
      then show_nat (length (filter (\<lambda>c. js_lower_char c = CHR ''x'') tasks)) @ ''/'' @ show_nat (length tasks) @
           '' complete''
      else
        let stepCount = length (filter stepLine (splitLines body)) in
        if stepCount > 0 then show_nat stepCount @ '' step'' @ (if stepCount = 1 then [] else ''s'') else [])"

definition upsertPlan ::
  "string \<Rightarrow> string \<Rightarrow> string \<Rightarrow> string \<Rightarrow> item_context \<Rightarrow> string option \<Rightarrow> string option \<Rightarrow>
   transcript_draft \<Rightarrow> transcript_draft" where
  "upsertPlan key title body timestamp ctx acpSource updateMarkerId d =
     (case map_option (\<lambda>it. (it, ti_variant it)) (jget (ts_itemsById d) key) of
        Some (existing, PlanItem p) \<Rightarrow>
          (let d1 = replaceItem key ((refresh ctx acpSource existing)\<lparr>ti_variant := PlanItem (p\<lparr>pf_text := body\<rparr>)\<rparr>) d
           in if pf_text p \<noteq> body
              then pushItem (newItem
                     (case updateMarkerId of Some m \<Rightarrow> m | None \<Rightarrow> key @ '':update:'' @ timestamp)
                     ''Plan updated'' timestamp ctx acpSource
                     (PlanItem \<lparr>pf_text = summarizePlanUpdate body, pf_isUpdate = True, pf_targetId = Some key\<rparr>)) d1
              else d1)
      | _ \<Rightarrow>
          pushItem (newItem key title timestamp ctx acpSource
              (PlanItem \<lparr>pf_text = body, pf_isUpdate = False, pf_targetId = None\<rparr>))
            (sealOpenMessages d))"

definition upsertMetadata ::
  "string \<Rightarrow> string \<Rightarrow> prompt_section list \<Rightarrow> string \<Rightarrow> item_context \<Rightarrow> string option \<Rightarrow>
   transcript_draft \<Rightarrow> transcript_draft" where
  "upsertMetadata key title sections timestamp ctx acpSource d =
     (case map_option (\<lambda>it. (it, ti_variant it)) (jget (ts_itemsById d) key) of
        Some (existing, MetadataItem _) \<Rightarrow>
          replaceItem key ((refresh ctx acpSource existing)\<lparr>ti_variant := MetadataItem sections\<rparr>) d
      | _ \<Rightarrow>
          pushItem (newItem key title timestamp ctx acpSource (MetadataItem sections)) (sealOpenMessages d))"

definition isTerminalToolStatus :: "tool_status \<Rightarrow> bool" where
  "isTerminalToolStatus status = (status = Completed \<or> status = Failed)"

definition mergeToolStatus :: "tool_status \<Rightarrow> tool_status \<Rightarrow> tool_status" where
  "mergeToolStatus existing next_status =
     (if isTerminalToolStatus existing \<and> \<not> isTerminalToolStatus next_status then existing else next_status)"

text \<open>The fields of a tool item after an update.\<close>

definition mergeTool ::
  "string \<Rightarrow> string \<Rightarrow> string option \<Rightarrow> tool_status \<Rightarrow> (string \<times> jsval) list \<Rightarrow> string \<Rightarrow> bool \<Rightarrow> string \<Rightarrow>
   string \<Rightarrow> tool_fields \<Rightarrow> string \<times> tool_fields" where
  "mergeTool title toolName canonicalBuzzToolName status args result isError timestamp existingTitle f =
     (let updatedTitle = (if \<not> isGenericToolTitle title then title else existingTitle);
          (updatedToolName, updatedBuzzToolName) =
            (if truthy canonicalBuzzToolName then (the canonicalBuzzToolName, canonicalBuzzToolName)
             else if \<not> truthy (tf_buzzToolName f) \<and> \<not> isGenericToolTitle toolName then (toolName, tf_buzzToolName f)
             else (tf_toolName f, tf_buzzToolName f));
          mergedStatus = mergeToolStatus (tf_status f) status;
          updatedArgs = (if length args > 0 then args else tf_args f);
          updatedResult = (if result \<noteq> [] then result else tf_result f);
          updatedIsError = (isError \<or> tf_isError f);
          descriptor = classifyTool
            \<lparr>ci_title = updatedTitle, ci_toolName = updatedToolName, ci_buzzToolName = updatedBuzzToolName,
             ci_args = updatedArgs, ci_result = updatedResult, ci_isError = updatedIsError \<or> mergedStatus = Failed\<rparr>
      in (updatedTitle,
          f\<lparr>tf_renderClass := ad_renderClass descriptor, tf_descriptor := descriptor,
            tf_toolName := updatedToolName, tf_buzzToolName := updatedBuzzToolName, tf_status := mergedStatus,
            tf_args := updatedArgs, tf_result := updatedResult, tf_isError := updatedIsError,
            tf_completedAt := (if isTerminalToolStatus mergedStatus \<and> tf_completedAt f = None
                               then Some timestamp else tf_completedAt f)\<rparr>))"

definition upsertTool ::
  "string \<Rightarrow> string \<Rightarrow> string \<Rightarrow> string option \<Rightarrow> tool_status \<Rightarrow> (string \<times> jsval) list \<Rightarrow> string \<Rightarrow> bool \<Rightarrow>
   string \<Rightarrow> item_context \<Rightarrow> string option \<Rightarrow> transcript_draft \<Rightarrow> transcript_draft" where
  "upsertTool key title toolName buzzToolName status args result isError timestamp ctx acpSource d =
     (let canonicalBuzzToolName = orElse buzzToolName (findBuzzToolName toolName True) in
      case map_option (\<lambda>it. (it, ti_variant it)) (jget (ts_itemsById d) key) of
        Some (existing, ToolItem f) \<Rightarrow>
          (case mergeTool title toolName canonicalBuzzToolName status args result isError timestamp
                  (ti_title existing) f of
             (updatedTitle, f') \<Rightarrow>
               replaceItem key ((refresh ctx acpSource existing)\<lparr>ti_title := updatedTitle, ti_variant := ToolItem f'\<rparr>) d)
      | _ \<Rightarrow>
          (let resolvedToolName = (case canonicalBuzzToolName of Some n \<Rightarrow> n | None \<Rightarrow> toolName);
               descriptor = classifyTool
                 \<lparr>ci_title = title, ci_toolName = resolvedToolName, ci_buzzToolName = canonicalBuzzToolName,
                  ci_args = args, ci_result = result, ci_isError = isError \<or> status = Failed\<rparr>
           in pushItem (newItem key title timestamp ctx acpSource
                (ToolItem \<lparr>tf_renderClass = ad_renderClass descriptor, tf_descriptor = descriptor,
                   tf_toolName = resolvedToolName, tf_buzzToolName = canonicalBuzzToolName, tf_status = status,
                   tf_args = args, tf_result = result, tf_isError = isError, tf_startedAt = timestamp,
                   tf_completedAt = (if isTerminalToolStatus status then Some timestamp else None)\<rparr>))
                (sealOpenMessages d)))"

subsection \<open>One frame\<close>

definition turnOrSeq :: "observer_event \<Rightarrow> string" where
  "turnOrSeq event = (case oe_turnId event of Some t \<Rightarrow> t | None \<Rightarrow> show_int (oe_seq event))"

definition channelKey :: "observer_event \<Rightarrow> string" where
  "channelKey event = (case oe_channelId event of Some c \<Rightarrow> c | None \<Rightarrow> ''global'')"

text \<open>The identifier of an item, its parts joined by colons.\<close>

definition itemKey :: "string \<Rightarrow> string \<Rightarrow> string \<Rightarrow> string" where
  "itemKey prefix ch key = prefix @ '':'' @ ch @ '':'' @ key"

definition showFreeformStatus ::
  "observer_event \<Rightarrow> item_context \<Rightarrow> (string \<times> jsval) list \<Rightarrow> transcript_draft \<Rightarrow> transcript_draft" where
  "showFreeformStatus event ctx payload d =
     (case describeFreeformStatus payload of
        None \<Rightarrow> d
      | Some status \<Rightarrow>
          upsertLifecycleItem (itemKey ''status'' (channelKey event) (turnOrSeq event) @ '':'' @ fs_statusType status)
            LStatus (fs_title status) (fs_text status) (oe_timestamp event) ctx (Some (fs_statusType status)) None d)"

definition showPermissionRequest ::
  "observer_event \<Rightarrow> item_context \<Rightarrow> (string \<times> jsval) list \<Rightarrow> transcript_draft \<Rightarrow> transcript_draft" where
  "showPermissionRequest event ctx payload d =
     (let request = describePermissionRequest payload;
          itemId = itemKey ''permission'' (channelKey event) (turnOrSeq event);
          d1 = upsertLifecycleItem itemId LPermission ''Permission requested'' (pq_text request)
                 (oe_timestamp event) ctx (Some ''permission_request'') (Some (pq_descriptor request)) d;
          requestId = jsonRpcId (jfield payload ''id'')
      in if truthy requestId
         then d1\<lparr>ts_pendingPermissions := jset (ts_pendingPermissions d1) (the requestId)
                   \<lparr>pe_itemId = itemId, pe_optionNames = pq_optionNames request\<rparr>\<rparr>
         else d1)"

definition showPermissionResponse :: "(string \<times> jsval) list \<Rightarrow> transcript_draft \<Rightarrow> transcript_draft" where
  "showPermissionResponse payload d =
     (let responseId = jsonRpcId (jfield payload ''id'');
          result = asRecord (jfield (asRecord (jfield payload ''result'')) ''outcome'');
          outcomeKind = asString (jfield result ''outcome'')
      in case (if truthy responseId then jget (ts_pendingPermissions d) (the responseId) else None) of
           None \<Rightarrow> d
         | Some pending \<Rightarrow>
             if \<not> truthy outcomeKind then d
             else
               let optionId = asString (jfield result ''optionId'');
                   outcomeText = describePermissionOutcome (the outcomeKind) optionId (pe_optionNames pending)
               in case existingLifecycle (pe_itemId pending) d of
                    None \<Rightarrow> d
                  | Some (existing, f) \<Rightarrow>
                      (let d1 = replaceItem (pe_itemId pending)
                             (existing\<lparr>ti_variant := LifecycleItem (f\<lparr>lf_outcome := Some outcomeText\<rparr>)\<rparr>) d
                       in d1\<lparr>ts_pendingPermissions := jdel (ts_pendingPermissions d1) (the responseId)\<rparr>))"

definition showPromptSections ::
  "string \<Rightarrow> string \<Rightarrow> observer_event \<Rightarrow> item_context \<Rightarrow> parsed_prompt \<Rightarrow> transcript_draft \<Rightarrow> transcript_draft" where
  "showPromptSections prefix acpSource event ctx parsedPrompt d =
     (if length (pp_sections parsedPrompt) > 0
      then upsertMetadata (itemKey prefix (channelKey event) (turnOrSeq event)) ''Prompt context''
             (pp_sections parsedPrompt) (oe_timestamp event) ctx (Some acpSource) d
      else d)"

definition showPrompt ::
  "observer_event \<Rightarrow> item_context \<Rightarrow> (string \<times> jsval) list \<Rightarrow> transcript_draft \<Rightarrow> transcript_draft" where
  "showPrompt event ctx payload d =
     (let promptText = extractPromptText payload in
      if promptText = [] then d
      else
        let parsedPrompt = parsePromptText promptText;
            d1 = (if pp_userText parsedPrompt \<noteq> []
                  then upsertMessage (itemKey ''prompt'' (channelKey event) (turnOrSeq event)) UserRole
                         (pp_userTitle parsedPrompt) (pp_userText parsedPrompt) (oe_timestamp event) ctx
                         (pp_userPubkey parsedPrompt) (Some ''session/prompt:user'')
                         (orElse (pp_userEventId parsedPrompt)
                            (getSingleTriggeringEventId (channelKey event) (Some (turnOrSeq event)) d)) d
                  else d)
        in showPromptSections ''prompt-context'' ''session/prompt:context'' event ctx parsedPrompt d1)"

definition showSteer ::
  "observer_event \<Rightarrow> item_context \<Rightarrow> (string \<times> jsval) list \<Rightarrow> transcript_draft \<Rightarrow> transcript_draft" where
  "showSteer event ctx payload d =
     (let promptText = extractPromptText payload in
      if promptText = [] then d
      else
        let parsedPrompt = parsePromptText promptText;
            d1 = (if pp_userText parsedPrompt \<noteq> []
                  then upsertMessage (itemKey ''steer'' (channelKey event) (turnOrSeq event)) UserRole
                         (pp_userTitle parsedPrompt) (pp_userText parsedPrompt) (oe_timestamp event) ctx
                         (pp_userPubkey parsedPrompt) (Some ''session/steer:user'')
                         (pp_userEventId parsedPrompt) d
                  else d)
        in showPromptSections ''steer-context'' ''session/steer:context'' event ctx parsedPrompt d1)"

definition showSessionNew ::
  "string \<Rightarrow> observer_event \<Rightarrow> item_context \<Rightarrow> (string \<times> jsval) list \<Rightarrow> transcript_draft \<Rightarrow> transcript_draft" where
  "showSessionNew dash event ctx payload d =
     (let systemPrompt = asString (jfield (asRecord (jfield payload ''params'')) ''systemPrompt'') in
      if \<not> truthy systemPrompt then d
      else
        let sections = parseSystemPromptSections dash (the systemPrompt) in
        if length sections > 0
        then upsertMetadata
               (itemKey ''system-prompt'' (channelKey event) (show_int (oe_seq event)) @ '':'' @ oe_timestamp event)
               ''System prompt'' sections (oe_timestamp event) (ctx\<lparr>ic_turnId := None\<rparr>) (Some ''session/new'') d
        else d)"

definition showTool ::
  "string \<Rightarrow> tool_status \<Rightarrow> bool \<Rightarrow> observer_event \<Rightarrow> item_context \<Rightarrow> (string \<times> jsval) list \<Rightarrow>
   transcript_draft \<Rightarrow> transcript_draft" where
  "showTool updateType status isError event ctx update d =
     (let toolId = (case asString (jfield update ''toolCallId'') of
                      Some t \<Rightarrow> t | None \<Rightarrow> ''tool:'' @ show_int (oe_seq event));
          identity = extractToolIdentity update
      in upsertTool (itemKey ''tool'' (channelKey event) toolId) (ty_title identity) (ty_toolName identity)
           (ty_buzzToolName identity) status (extractToolArgs update) (extractToolResult update) isError
           (oe_timestamp event) ctx (Some updateType) d)"

definition isJsNumber :: "jsval option \<Rightarrow> bool" where
  "isJsNumber v = (case v of Some (JNum _) \<Rightarrow> True | Some (JFrac _) \<Rightarrow> True | _ \<Rightarrow> False)"

definition usageText :: "(jsval \<Rightarrow> string) \<Rightarrow> (string \<times> jsval) list \<Rightarrow> string option" where
  "usageText fixed4 update =
     (if isJsNumber (jfield update ''used'') \<and> isJsNumber (jfield update ''size'')
      then
        let costRecord = asRecord (jfield update ''cost'');
            costCurrency = asString (jfield costRecord ''currency'');
            costStr = (if isJsNumber (jfield costRecord ''amount'') \<and> truthy costCurrency
                       then '' ($'' @ fixed4 (the (jfield costRecord ''amount'')) @ '' '' @ the costCurrency @ '')''
                       else [])
        in Some (''Tokens: '' @ stringify (the (jfield update ''used'')) @ ''/'' @
                 stringify (the (jfield update ''size'')) @ costStr)
      else None)"

text \<open>Reading a field of \<open>null\<close> throws.\<close>

definition configOption :: "jsval \<Rightarrow> string option" where
  "configOption opt =
     (if opt = JNull then None
      else
        let rcd = asRecord (Some opt);
            name = (case orElse (asString (jfield rcd ''name'')) (asString (jfield rcd ''id'')) of
                      Some n \<Rightarrow> n | None \<Rightarrow> ''?'');
            val = (case asString (jfield rcd ''currentValue'') of
                     Some v \<Rightarrow> v
                   | None \<Rightarrow> (case jfield rcd ''value'' of
                       Some (JBool b) \<Rightarrow> (if b then ''true'' else ''false'') | _ \<Rightarrow> []))
        in Some (if val \<noteq> [] then name @ '' = '' @ val else name))"

definition configText :: "(string \<times> jsval) list \<Rightarrow> string option" where
  "configText update =
     (let opts = (case jfield update ''configOptions'' of Some (JArr os) \<Rightarrow> os | _ \<Rightarrow> []) in
      if list_ex (\<lambda>opt. configOption opt = None) opts then None
      else Some (joinWith '', '' (map (the \<circ> configOption) opts)))"

definition frameUpdate :: "observer_event \<Rightarrow> (string \<times> jsval) list" where
  "frameUpdate event =
     asRecord (jfield (asRecord (jfield (asRecord (Some (oe_payload event))) ''params'')) ''update'')"

definition updateKey :: "observer_event \<Rightarrow> string" where
  "updateKey event =
     (case orElse (oe_turnId event) (oe_sessionId event) of Some t \<Rightarrow> t | None \<Rightarrow> ''unknown'')"

definition messageKey :: "observer_event \<Rightarrow> string" where
  "messageKey event =
     (case asString (jfield (frameUpdate event) ''messageId'') of Some m \<Rightarrow> m | None \<Rightarrow> updateKey event)"

definition showUserChunk ::
  "observer_event \<Rightarrow> item_context \<Rightarrow> (string \<times> jsval) list \<Rightarrow> transcript_draft \<Rightarrow> transcript_draft" where
  "showUserChunk event ctx update d =
     (if jhas (ts_itemsById d) (itemKey ''steer'' (channelKey event) (turnOrSeq event)) then d
      else upsertMessage (itemKey ''user'' (channelKey event) (messageKey event)) UserRole ''User''
             (extractContentText (jfield update ''content'')) (oe_timestamp event) ctx
             (asString (jfield update ''authorPubkey'')) (Some ''user_message_chunk'')
             (maybeNostrEventId (asString (jfield update ''messageId''))) d)"

definition showSessionUpdate ::
  "(jsval \<Rightarrow> string) \<Rightarrow> observer_event \<Rightarrow> item_context \<Rightarrow> transcript_draft \<Rightarrow> transcript_draft option" where
  "showSessionUpdate fixed4 event ctx d =
     (let update = frameUpdate event;
          ch = channelKey event;
          time = oe_timestamp event;
          updateType = (case asString (jfield update ''sessionUpdate'') of Some u \<Rightarrow> u | None \<Rightarrow> ''unknown'');
          status = asString (jfield update ''status'')
      in if updateType = ''agent_message_chunk''
         then Some (upsertMessage (itemKey ''assistant'' ch (messageKey event)) AssistantRole ''Assistant''
                (extractContentText (jfield update ''content'')) time ctx None (Some updateType) None d)
         else if updateType = ''user_message_chunk'' then Some (showUserChunk event ctx update d)
         else if updateType = ''agent_thought_chunk''
         then Some (upsertTextItem (itemKey ''thinking'' ch (messageKey event)) ThoughtText ''Thinking''
                (extractContentText (jfield update ''content'')) time ctx (Some updateType) d)
         else if updateType = ''tool_call''
         then Some (showTool updateType (normalizeToolStatus (case status of Some s \<Rightarrow> s | None \<Rightarrow> ''executing''))
                False event ctx update d)
         else if updateType = ''tool_call_update''
         then
           (let next_status = normalizeToolStatus (case status of Some s \<Rightarrow> s | None \<Rightarrow> ''completed'') in
            Some (showTool updateType next_status (next_status = Failed) event ctx update d))
         else if updateType = ''plan''
         then Some (upsertPlan (itemKey ''plan'' ch (updateKey event)) ''Plan'' (extractPlanText update) time ctx
                (Some updateType)
                (Some (itemKey ''plan-update'' ch (updateKey event) @ '':'' @ show_int (oe_seq event))) d)
         else if updateType = ''current_mode_update''
         then
           (let mode = asString (jfield update ''currentModeId'') in
            Some (if truthy mode
              then upsertLifecycleItem (itemKey ''mode'' ch (updateKey event)) LStatus ''Mode'' (the mode) time ctx
                     (Some updateType) None d
              else d))
         else if updateType = ''usage_update''
         then Some (case usageText fixed4 update of
                  None \<Rightarrow> d
                | Some body \<Rightarrow>
                    replaceLifecycleItem (itemKey ''usage'' ch (updateKey event)) LStatus ''Usage'' body time ctx
                      (Some updateType) d)
         else if updateType = ''available_commands_update''
         then
           (let cmds = (case jfield update ''availableCommands'' of Some (JArr cs) \<Rightarrow> cs | _ \<Rightarrow> []) in
            Some (upsertLifecycleItem (itemKey ''commands'' ch (updateKey event)) LStatus ''Commands''
              (''Commands available: '' @ show_nat (length cmds)) time ctx (Some updateType) None d))
         else if updateType = ''config_option_update''
         then
           (case configText update of
              None \<Rightarrow> None
            | Some opts \<Rightarrow>
                Some (if opts \<noteq> []
                  then upsertLifecycleItem (itemKey ''config'' ch (updateKey event)) LStatus ''Config'' opts time
                         ctx (Some updateType) None d
                  else d))
         else Some (showFreeformStatus event ctx (asRecord (Some (oe_payload event))) d))"

definition showAcpFrame ::
  "string \<Rightarrow> (jsval \<Rightarrow> string) \<Rightarrow> observer_event \<Rightarrow> item_context \<Rightarrow> transcript_draft \<Rightarrow> transcript_draft option" where
  "showAcpFrame dash fixed4 event ctx d =
     (let payload = asRecord (Some (oe_payload event));
          rpc_method = asString (jfield payload ''method'');
          outgoing = (oe_kind event = ''acp_write'')
      in if rpc_method = Some ''session/request_permission'' then Some (showPermissionRequest event ctx payload d)
         else if outgoing \<and> \<not> truthy rpc_method then Some (showPermissionResponse payload d)
         else if outgoing \<and> rpc_method = Some ''session/prompt'' then Some (showPrompt event ctx payload d)
         else if outgoing \<and> rpc_method = Some ''session/new'' then Some (showSessionNew dash event ctx payload d)
         else if outgoing \<and> rpc_method = Some ''_goose/unstable/session/steer'' then Some (showSteer event ctx payload d)
         else if oe_kind event = ''acp_read'' \<and> rpc_method = Some ''session/update''
         then showSessionUpdate fixed4 event ctx d
         else Some (showFreeformStatus event ctx payload d))"

definition turnErrorText :: "string \<Rightarrow> (jsval \<Rightarrow> jsval) \<Rightarrow> jsval \<Rightarrow> string" where
  "turnErrorText dash number body =
     (let payload = asRecord (Some body);
          outcome = (case asString (jfield payload ''outcome'') of Some t \<Rightarrow> t | None \<Rightarrow> ''error'');
          error = (case asString (jfield payload ''error'') of Some t \<Rightarrow> t | None \<Rightarrow> ''Unknown error'')
      in outcome @ '': '' @ friendlyTurnErrorCopy dash number error (jfield payload ''code''))"

definition showFrame ::
  "string \<Rightarrow> (jsval \<Rightarrow> jsval) \<Rightarrow> (jsval \<Rightarrow> string) \<Rightarrow> observer_event \<Rightarrow> item_context \<Rightarrow>
   transcript_draft \<Rightarrow> transcript_draft option" where
  "showFrame dash number fixed4 event ctx d =
     (let kind = oe_kind event;
          ch = channelKey event;
          time = oe_timestamp event;
          body = oe_payload event
      in if kind = ''raw_json_rpc''
         then Some (upsertMetadata (itemKey ''raw-json-rpc'' ch (show_int (oe_seq event))) ''Raw ACP payload''
                [\<lparr>ps_title = rawPayloadTitle body, ps_body = stringifyPayload body\<rparr>] time ctx (Some kind) d)
         else if kind = ''turn_started''
         then Some (upsertTextItem (itemKey ''turn'' ch (turnOrSeq event)) LifecycleText ''Turn started''
                (describeTurnStarted body) time ctx (Some kind)
                (rememberTriggeringEventIds ch (Some (turnOrSeq event)) (extractTriggeringEventIds body) d))
         else if kind = ''session_resolved''
         then Some (upsertTextItem (itemKey ''session'' ch (turnOrSeq event)) LifecycleText ''Session ready''
                (describeSessionResolved body) time ctx (Some kind) d)
         else if kind = ''acp_parse_error''
         then Some (upsertTextItem (itemKey ''parse-error'' ch (show_int (oe_seq event))) LifecycleText
                ''Wire parse error'' (extractBlockText body) time ctx (Some kind) d)
         else if kind = ''turn_error'' \<or> kind = ''agent_panic''
         then Some (upsertTextItem (itemKey kind ch (turnOrSeq event)) LifecycleText
                (if kind = ''agent_panic'' then ''Agent error (crash)'' else ''Turn error'')
                (turnErrorText dash number body) time ctx (Some kind) d)
         else if kind = ''acp_read'' \<or> kind = ''acp_write'' then showAcpFrame dash fixed4 event ctx d
         else Some d)"

definition enterSession :: "observer_event \<Rightarrow> transcript_draft \<Rightarrow> transcript_draft" where
  "enterSession event d =
     (if truthy (oe_sessionId event) \<and> oe_sessionId event \<noteq> ts_latestSessionId d
      then d\<lparr>ts_latestSessionId := oe_sessionId event\<rparr> else d)"

definition eventContext :: "observer_event \<Rightarrow> transcript_draft \<Rightarrow> item_context" where
  "eventContext event d =
     \<lparr>ic_channelId = oe_channelId event, ic_turnId = oe_turnId event,
      ic_sessionId = orElse (oe_sessionId event) (ts_latestSessionId d)\<rparr>"

definition finishDraft :: "transcript_state \<Rightarrow> transcript_draft \<Rightarrow> transcript_state" where
  "finishDraft state d =
     (if \<not> td_changed d \<and> ts_latestSessionId d = ts_latestSessionId state then state
      else transcript_state.truncate d)"

definition processTranscriptEvent ::
  "string \<Rightarrow> (jsval \<Rightarrow> jsval) \<Rightarrow> (jsval \<Rightarrow> string) \<Rightarrow> transcript_state \<Rightarrow> observer_event \<Rightarrow> transcript_state option" where
  "processTranscriptEvent dash number fixed4 state event =
     (let d = enterSession event (draftFrom state) in
      map_option (finishDraft state) (showFrame dash number fixed4 event (eventContext event d) d))"

abbreviation transcriptAfter ::
  "string \<Rightarrow> (jsval \<Rightarrow> jsval) \<Rightarrow> (jsval \<Rightarrow> string) \<Rightarrow> observer_event list \<Rightarrow> transcript_state option" where
  "transcriptAfter dash number fixed4 events \<equiv>
     buildTranscriptState (processTranscriptEvent dash number fixed4) createEmptyTranscriptState events"

definition buildTranscript ::
  "string \<Rightarrow> (jsval \<Rightarrow> jsval) \<Rightarrow> (jsval \<Rightarrow> string) \<Rightarrow> observer_event list \<Rightarrow> transcript_item list option" where
  "buildTranscript dash number fixed4 events = map_option ts_items (transcriptAfter dash number fixed4 events)"

end
