(* ===== verification/TranscriptOrder.thy ===== *)
theory TranscriptOrder
  imports Transcript
begin

text \<open>
  What a frame may do to a transcript. The relation \<open>moves\<close> is the abstract machine behind the reducer:
  a draft changes an item in place, adds an item after closing the open messages, adds the marker of
  a plan update, or says a chunk of a message. Every frame is a sequence of such moves
  (\<open>showFrame_moves\<close>), so invariants and orderings are proved once per move.
\<close>

subsection \<open>Kinds of items\<close>

datatype item_kind = KMessage | KThought | KPlan | KLifecycle | KMetadata | KTool

fun kindOf :: "item_variant \<Rightarrow> item_kind" where
  "kindOf (MessageItem _) = KMessage"
| "kindOf (ThoughtItem _) = KThought"
| "kindOf (PlanItem _) = KPlan"
| "kindOf (LifecycleItem _) = KLifecycle"
| "kindOf (MetadataItem _) = KMetadata"
| "kindOf (ToolItem _) = KTool"

definition keyPrefix :: "string \<Rightarrow> string" where
  "keyPrefix key = takeWhile (\<lambda>c. c \<noteq> CHR '':'') key"

definition MESSAGE_PREFIXES :: "string list" where
  "MESSAGE_PREFIXES = [''prompt'', ''steer'', ''assistant'', ''user'']"

definition prefixKind :: "string \<Rightarrow> item_kind" where
  "prefixKind p =
     (if p \<in> set MESSAGE_PREFIXES then KMessage
      else if p = ''thinking'' then KThought
      else if p = ''plan'' \<or> p = ''plan-update'' then KPlan
      else if p \<in> {''raw-json-rpc'', ''prompt-context'', ''steer-context'', ''system-prompt''} then KMetadata
      else if p = ''tool'' then KTool
      else KLifecycle)"

abbreviation keyKind :: "string \<Rightarrow> item_kind" where
  "keyKind key \<equiv> prefixKind (keyPrefix key)"

abbreviation itemKind :: "transcript_item \<Rightarrow> item_kind" where
  "itemKind it \<equiv> kindOf (ti_variant it)"

abbreviation isMessage :: "transcript_item \<Rightarrow> bool" where
  "isMessage it \<equiv> itemKind it = KMessage"

definition isMarker :: "transcript_item \<Rightarrow> bool" where
  "isMarker it = (keyPrefix (ti_id it) = ''plan-update'')"

lemma kindOf_cases:
  "kindOf v = KMessage \<longleftrightarrow> (\<exists>m. v = MessageItem m)" "kindOf v = KThought \<longleftrightarrow> (\<exists>t. v = ThoughtItem t)"
  "kindOf v = KPlan \<longleftrightarrow> (\<exists>p. v = PlanItem p)" "kindOf v = KLifecycle \<longleftrightarrow> (\<exists>f. v = LifecycleItem f)"
  "kindOf v = KMetadata \<longleftrightarrow> (\<exists>ss. v = MetadataItem ss)" "kindOf v = KTool \<longleftrightarrow> (\<exists>f. v = ToolItem f)"
  by (cases v; simp)+

lemma keyPrefix_itemKey [simp]: "CHR '':'' \<notin> set p \<Longrightarrow> keyPrefix (itemKey p ch k) = p"
  by (auto simp: keyPrefix_def itemKey_def takeWhile_append2 takeWhile_tail)

lemma keyPrefix_append:
  "CHR '':'' \<notin> set p \<Longrightarrow> keyPrefix (itemKey p ch k @ t) = p"
  by (auto simp: keyPrefix_def itemKey_def takeWhile_append2 takeWhile_tail)

lemma keyPrefix_continued: "CHR '':'' \<in> set key \<Longrightarrow> keyPrefix (key @ t) = keyPrefix key"
  by (auto simp: keyPrefix_def takeWhile_append1)

lemma colon_itemKey [simp]: "CHR '':'' \<in> set (itemKey p ch k)"
  by (simp add: itemKey_def)

lemma prefixKind_simps [simp]:
  "prefixKind ''prompt'' = KMessage" "prefixKind ''steer'' = KMessage" "prefixKind ''assistant'' = KMessage"
  "prefixKind ''user'' = KMessage" "prefixKind ''thinking'' = KThought" "prefixKind ''plan'' = KPlan"
  "prefixKind ''plan-update'' = KPlan" "prefixKind ''raw-json-rpc'' = KMetadata"
  "prefixKind ''prompt-context'' = KMetadata" "prefixKind ''steer-context'' = KMetadata"
  "prefixKind ''system-prompt'' = KMetadata" "prefixKind ''tool'' = KTool"
  "prefixKind ''turn'' = KLifecycle" "prefixKind ''session'' = KLifecycle" "prefixKind ''parse-error'' = KLifecycle"
  "prefixKind ''turn_error'' = KLifecycle" "prefixKind ''agent_panic'' = KLifecycle"
  "prefixKind ''permission'' = KLifecycle" "prefixKind ''mode'' = KLifecycle" "prefixKind ''usage'' = KLifecycle"
  "prefixKind ''commands'' = KLifecycle" "prefixKind ''config'' = KLifecycle" "prefixKind ''status'' = KLifecycle"
  by (simp_all add: prefixKind_def MESSAGE_PREFIXES_def)

lemma prefixKind_message: "prefixKind p = KMessage \<Longrightarrow> p \<noteq> ''plan-update''"
  by auto

subsection \<open>Elementary changes of a draft\<close>

lemma draft_fields [simp]:
  "ts_items (replaceItem k u d) = replaceFirst k u (ts_items d)"
  "ts_itemsById (replaceItem k u d) = jset (ts_itemsById d) k u"
  "ts_activeMessageKey (replaceItem k u d) = ts_activeMessageKey d"
  "ts_sealedKeys (replaceItem k u d) = ts_sealedKeys d"
  "ts_continuationSeq (replaceItem k u d) = ts_continuationSeq d"
  "ts_pendingPermissions (replaceItem k u d) = ts_pendingPermissions d"
  "ts_items (pushItem it d) = ts_items d @ [it]"
  "ts_itemsById (pushItem it d) = jset (ts_itemsById d) (ti_id it) it"
  "ts_activeMessageKey (pushItem it d) = ts_activeMessageKey d"
  "ts_sealedKeys (pushItem it d) = ts_sealedKeys d"
  "ts_continuationSeq (pushItem it d) = ts_continuationSeq d"
  "ts_pendingPermissions (pushItem it d) = ts_pendingPermissions d"
  "ts_items (sealOpenMessages d) = ts_items d"
  "ts_itemsById (sealOpenMessages d) = ts_itemsById d"
  "ts_activeMessageKey (sealOpenMessages d) = ts_activeMessageKey d"
  "set (ts_sealedKeys (sealOpenMessages d)) = set (jvals (ts_activeMessageKey d)) \<union> set (ts_sealedKeys d)"
  "ts_continuationSeq (sealOpenMessages d) = ts_continuationSeq d"
  "ts_pendingPermissions (sealOpenMessages d) = ts_pendingPermissions d"
  by (simp_all add: replaceItem_def pushItem_def sealOpenMessages_def set_fold_sadd)

lemma newItem_fields [simp]:
  "ti_id (newItem k t ts c a v) = k" "ti_variant (newItem k t ts c a v) = v" "ti_timestamp (newItem k t ts c a v) = ts"
  by (simp_all add: newItem_def)

lemma refresh_fields [simp]:
  "ti_id (refresh c a it) = ti_id it" "ti_variant (refresh c a it) = ti_variant it"
  "ti_timestamp (refresh c a it) = ti_timestamp it"
  by (simp_all add: refresh_def)

lemma sealOpenMessages_twice [simp]: "sealOpenMessages (sealOpenMessages d) = sealOpenMessages d"
proof -
  have "fold (\<lambda>k s. sadd s k) ks s = s" if "set ks \<subseteq> set s" for ks s :: "string list"
    using that by (induction ks arbitrary: s) (auto simp: sadd_def)
  moreover have "set (jvals (ts_activeMessageKey d)) \<subseteq> set (ts_sealedKeys (sealOpenMessages d))" by simp
  ultimately show ?thesis by (simp add: sealOpenMessages_def)
qed

text \<open>What a frame can do to the items, in order: a message chunk under a key, or a plan marker.\<close>

datatype move_label = Chunk string string | Marker string

text \<open>How the variant of an item may change; a tool call only moves forward.\<close>

definition tool_forward :: "tool_fields \<Rightarrow> tool_fields \<Rightarrow> bool" where
  "tool_forward f f' \<longleftrightarrow>
     tf_startedAt f' = tf_startedAt f \<and> (tf_isError f \<longrightarrow> tf_isError f') \<and>
     (isTerminalToolStatus (tf_status f) \<longrightarrow> isTerminalToolStatus (tf_status f')) \<and>
     (tf_completedAt f \<noteq> None \<longrightarrow> tf_completedAt f' = tf_completedAt f) \<and>
     (tf_completedAt f' \<noteq> None \<longleftrightarrow> tf_completedAt f \<noteq> None \<or> isTerminalToolStatus (tf_status f'))"

definition evolves :: "item_variant \<Rightarrow> item_variant \<Rightarrow> bool" where
  "evolves v v' \<longleftrightarrow> kindOf v' = kindOf v \<and> kindOf v \<noteq> KMessage \<and>
     (\<forall>f f'. v = ToolItem f \<longrightarrow> v' = ToolItem f' \<longrightarrow> tool_forward f f')"

definition sameItems :: "'a transcript_state_scheme \<Rightarrow> 'b transcript_state_scheme \<Rightarrow> bool" where
  "sameItems d d' \<longleftrightarrow> ts_items d' = ts_items d \<and> ts_itemsById d' = ts_itemsById d \<and>
     ts_activeMessageKey d' = ts_activeMessageKey d \<and> ts_sealedKeys d' = ts_sealedKeys d \<and>
     ts_continuationSeq d' = ts_continuationSeq d"

inductive moves :: "transcript_draft \<Rightarrow> move_label list \<Rightarrow> transcript_draft \<Rightarrow> bool" where
  stay: "sameItems d d' \<Longrightarrow> td_changed d' = td_changed d \<Longrightarrow> moves d [] d'"
| change: "jget (ts_itemsById d) key = Some it \<Longrightarrow> ti_id it' = ti_id it \<Longrightarrow> ti_timestamp it' = ti_timestamp it \<Longrightarrow>
    evolves (ti_variant it) (ti_variant it') \<Longrightarrow> moves d [] (replaceItem key it' d)"
| add: "itemKind it = keyKind (ti_id it) \<Longrightarrow> \<not> isMessage it \<Longrightarrow> \<not> isMarker it \<Longrightarrow>
    (\<And>old. jget (ts_itemsById d) (ti_id it) = Some old \<Longrightarrow> itemKind old \<noteq> itemKind it) \<Longrightarrow>
    (\<And>f. ti_variant it = ToolItem f \<Longrightarrow> tf_completedAt f \<noteq> None \<longleftrightarrow> isTerminalToolStatus (tf_status f)) \<Longrightarrow>
    moves d [] (pushItem it (sealOpenMessages d))"
| mark: "itemKind it = KPlan \<Longrightarrow> isMarker it \<Longrightarrow> moves d [Marker (ti_id it)] (pushItem it d)"
| say: "keyKind key = KMessage \<Longrightarrow> CHR '':'' \<in> set key \<Longrightarrow>
    moves d [Chunk key body] (upsertMessage key role title body time ctx author source messageId d)"
| both: "moves d ls d1 \<Longrightarrow> moves d1 ls' d2 \<Longrightarrow> moves d (ls @ ls') d2"

lemma moves_then: "moves d ls d1 \<Longrightarrow> moves d1 [] d2 \<Longrightarrow> moves d ls d2"
  using moves.both [of d ls d1 "[]" d2] by simp

lemma moves_refl: "moves d [] d"
  by (rule moves.stay) (simp_all add: sameItems_def)

lemma moves_pending: "moves d ls d' \<Longrightarrow> moves d ls (d'\<lparr>ts_pendingPermissions := m\<rparr>)"
  by (erule moves_then) (rule moves.stay, simp_all add: sameItems_def)

lemma evolves_lifecycle [simp]: "evolves (LifecycleItem f) (LifecycleItem f')"
  and evolves_plan [simp]: "evolves (PlanItem p) (PlanItem p')"
  and evolves_metadata [simp]: "evolves (MetadataItem ss) (MetadataItem ss')"
  and evolves_thought [simp]: "evolves (ThoughtItem t) (ThoughtItem t')"
  and evolves_tool [simp]: "evolves (ToolItem g) (ToolItem g') \<longleftrightarrow> tool_forward g g'"
  by (simp_all add: evolves_def)

lemma existingLifecycle_SomeD:
  "existingLifecycle key d = Some (it, f) \<Longrightarrow> jget (ts_itemsById d) key = Some it \<and> ti_variant it = LifecycleItem f"
  by (auto simp: existingLifecycle_def split: option.splits item_variant.splits)

lemma existingLifecycle_NoneD:
  "existingLifecycle key d = None \<Longrightarrow> jget (ts_itemsById d) key = Some old \<Longrightarrow> itemKind old \<noteq> KLifecycle"
  by (auto simp: existingLifecycle_def split: option.splits item_variant.splits)

lemma add_item:
  assumes "kindOf v = keyKind key" and "kindOf v \<noteq> KMessage" and "keyPrefix key \<noteq> ''plan-update''"
    and "\<And>old. jget (ts_itemsById d) key = Some old \<Longrightarrow> itemKind old \<noteq> kindOf v"
    and "\<And>f. v = ToolItem f \<Longrightarrow> tf_completedAt f \<noteq> None \<longleftrightarrow> isTerminalToolStatus (tf_status f)"
  shows "moves d [] (pushItem (newItem key title time ctx source v) (sealOpenMessages d))"
  by (rule moves.add) (use assms in \<open>simp_all add: isMarker_def\<close>)

lemma lifecycle_not_marker: "keyKind key = KLifecycle \<Longrightarrow> keyPrefix key \<noteq> ''plan-update''"
  by auto

lemma add_lifecycle:
  assumes "existingLifecycle key d = None" and "keyKind key = KLifecycle"
  shows "moves d [] (pushItem (newItem key title time ctx source (LifecycleItem f)) (sealOpenMessages d))"
  by (rule add_item) (use assms existingLifecycle_NoneD lifecycle_not_marker in auto)

lemma upsertLifecycleItem_moves:
  assumes "keyKind key = KLifecycle"
  shows "moves d [] (upsertLifecycleItem key c title body time ctx source descriptor d)"
proof (cases "existingLifecycle key d")
  case None
  then show ?thesis using add_lifecycle [OF None assms] by (simp add: upsertLifecycleItem_def)
next
  case (Some e)
  then show ?thesis
    by (cases e) (auto simp: upsertLifecycleItem_def intro!: moves.change dest!: existingLifecycle_SomeD)
qed

lemma replaceLifecycleItem_moves:
  assumes "keyKind key = KLifecycle"
  shows "moves d [] (replaceLifecycleItem key c title body time ctx source d)"
proof (cases "existingLifecycle key d")
  case None
  then show ?thesis using add_lifecycle [OF None assms] by (simp add: replaceLifecycleItem_def)
next
  case (Some e)
  then show ?thesis
    by (cases e) (auto simp: replaceLifecycleItem_def intro!: moves.change dest!: existingLifecycle_SomeD)
qed

lemma upsertTextItem_lifecycle:
  assumes "keyKind key = KLifecycle"
  shows "moves d [] (upsertTextItem key LifecycleText title body time ctx source d)"
proof (cases "existingLifecycle key d")
  case (Some e)
  then obtain it f where "jget (ts_itemsById d) key = Some it" "ti_variant it = LifecycleItem f"
    by (cases e) (auto dest!: existingLifecycle_SomeD)
  then show ?thesis by (auto simp: upsertTextItem_def intro!: moves.change)
next
  case None
  then have "upsertTextItem key LifecycleText title body time ctx source d =
      upsertLifecycleItem key (if js_includes (toLowerCase title) ''error'' then LError else LStatus)
        title body time ctx source None (sealOpenMessages d)"
    by (auto simp: upsertTextItem_def existingLifecycle_def split: option.splits item_variant.splits)
  moreover have "existingLifecycle key (sealOpenMessages d) = None" using None by (simp add: existingLifecycle_def)
  ultimately show ?thesis using add_lifecycle [OF None assms] by (simp only: upsertLifecycleItem_def option.case sealOpenMessages_twice)
qed

lemma upsertTextItem_thought:
  assumes "keyKind key = KThought"
  shows "moves d [] (upsertTextItem key ThoughtText title body time ctx source d)"
proof (cases "\<exists>it t. jget (ts_itemsById d) key = Some it \<and> ti_variant it = ThoughtItem t")
  case True
  then show ?thesis by (auto simp: upsertTextItem_def intro!: moves.change)
next
  case False
  then have "upsertTextItem key ThoughtText title body time ctx source d =
      pushItem (newItem key title time ctx source (ThoughtItem body)) (sealOpenMessages d)"
    by (auto simp: upsertTextItem_def split: option.splits item_variant.splits)
  moreover have "keyPrefix key \<noteq> ''plan-update''" using assms by auto
  ultimately show ?thesis using False assms by (auto simp: kindOf_cases intro!: add_item)
qed

lemma upsertMetadata_moves:
  assumes "keyKind key = KMetadata"
  shows "moves d [] (upsertMetadata key title sections time ctx source d)"
proof (cases "\<exists>it ss. jget (ts_itemsById d) key = Some it \<and> ti_variant it = MetadataItem ss")
  case True
  then show ?thesis by (auto simp: upsertMetadata_def intro!: moves.change)
next
  case False
  then have "upsertMetadata key title sections time ctx source d =
      pushItem (newItem key title time ctx source (MetadataItem sections)) (sealOpenMessages d)"
    by (auto simp: upsertMetadata_def split: option.splits item_variant.splits)
  moreover have "keyPrefix key \<noteq> ''plan-update''" using assms by auto
  ultimately show ?thesis using False assms by (auto simp: kindOf_cases intro!: add_item)
qed

lemma mergeTool_fields:
  defines "merged \<equiv> \<lambda>title name canonical status args result isError time t f.
    snd (mergeTool title name canonical status args result isError time t f)"
  shows "tf_startedAt (merged title name canonical status args result isError time t f) = tf_startedAt f"
    and "tf_isError (merged title name canonical status args result isError time t f) = (isError \<or> tf_isError f)"
    and "tf_status (merged title name canonical status args result isError time t f) = mergeToolStatus (tf_status f) status"
    and "tf_completedAt (merged title name canonical status args result isError time t f) =
      (if isTerminalToolStatus (mergeToolStatus (tf_status f) status) \<and> tf_completedAt f = None
       then Some time else tf_completedAt f)"
  unfolding merged_def mergeTool_def Let_def split_beta snd_conv by (simp_all split del: if_split)

lemma mergeTool_forward: "tool_forward f (snd (mergeTool title name canonical status args result isError time t f))"
  unfolding tool_forward_def mergeTool_fields by (simp add: mergeToolStatus_def)

lemma upsertTool_new:
  assumes "\<not> (\<exists>it f. jget (ts_itemsById d) key = Some it \<and> ti_variant it = ToolItem f)"
  shows "\<exists>v. (tf_completedAt v \<noteq> None \<longleftrightarrow> isTerminalToolStatus (tf_status v)) \<and>
    upsertTool key title name buzz status args result isError time ctx source d =
      pushItem (newItem key title time ctx source (ToolItem v)) (sealOpenMessages d)"
proof -
  define canonical where "canonical = orElse buzz (findBuzzToolName name True)"
  define resolved where "resolved = (case canonical of Some n \<Rightarrow> n | None \<Rightarrow> name)"
  define descriptor where "descriptor = classifyTool
     \<lparr>ci_title = title, ci_toolName = resolved, ci_buzzToolName = canonical, ci_args = args, ci_result = result,
      ci_isError = isError \<or> status = Failed\<rparr>"
  define v where "v = \<lparr>tf_renderClass = ad_renderClass descriptor, tf_descriptor = descriptor, tf_toolName = resolved,
     tf_buzzToolName = canonical, tf_status = status, tf_args = args, tf_result = result, tf_isError = isError,
     tf_startedAt = time, tf_completedAt = (if isTerminalToolStatus status then Some time else None)\<rparr>"
  have "upsertTool key title name buzz status args result isError time ctx source d =
      pushItem (newItem key title time ctx source (ToolItem v)) (sealOpenMessages d)"
    unfolding upsertTool_def Let_def canonical_def [symmetric] resolved_def [symmetric] descriptor_def [symmetric]
      v_def [symmetric] using assms
    by (cases "jget (ts_itemsById d) key"; cases "ti_variant (the (jget (ts_itemsById d) key))"; simp)
  moreover have "tf_completedAt v \<noteq> None \<longleftrightarrow> isTerminalToolStatus (tf_status v)" by (simp add: v_def)
  ultimately show ?thesis by blast
qed

lemma upsertTool_moves:
  assumes "keyKind key = KTool"
  shows "moves d [] (upsertTool key title name buzz status args result isError time ctx source d)"
proof (cases "\<exists>it f. jget (ts_itemsById d) key = Some it \<and> ti_variant it = ToolItem f")
  case True
  then obtain it f where it: "jget (ts_itemsById d) key = Some it" "ti_variant it = ToolItem f" by blast
  define merged where "merged = mergeTool title name (orElse buzz (findBuzzToolName name True)) status args result
    isError time (ti_title it) f"
  have "upsertTool key title name buzz status args result isError time ctx source d =
      replaceItem key ((refresh ctx source it)\<lparr>ti_title := fst merged, ti_variant := ToolItem (snd merged)\<rparr>) d"
    using it by (simp add: upsertTool_def merged_def split: prod.split)
  moreover have "tool_forward f (snd merged)" unfolding merged_def by (rule mergeTool_forward)
  ultimately show ?thesis by (simp add: moves.change [OF it(1)] it(2))
next
  case False
  obtain v where v: "tf_completedAt v \<noteq> None \<longleftrightarrow> isTerminalToolStatus (tf_status v)"
    "upsertTool key title name buzz status args result isError time ctx source d =
      pushItem (newItem key title time ctx source (ToolItem v)) (sealOpenMessages d)"
    using False upsertTool_new by blast
  have "keyPrefix key \<noteq> ''plan-update''" using assms by auto
  then show ?thesis unfolding v(2) by (intro add_item) (use False assms v(1) in \<open>auto simp: kindOf_cases\<close>)
qed

lemma upsertPlan_moves:
  assumes "keyPrefix key = ''plan''" and "keyPrefix m = ''plan-update''"
  shows "\<exists>ls. moves d ls (upsertPlan key title body time ctx source (Some m) d) \<and> (ls = [] \<or> ls = [Marker m])"
proof (cases "\<exists>it p. jget (ts_itemsById d) key = Some it \<and> ti_variant it = PlanItem p")
  case True
  then obtain it p where it: "jget (ts_itemsById d) key = Some it" "ti_variant it = PlanItem p" by blast
  define d1 where "d1 = replaceItem key ((refresh ctx source it)\<lparr>ti_variant := PlanItem (p\<lparr>pf_text := body\<rparr>)\<rparr>) d"
  have first: "moves d [] d1" unfolding d1_def by (rule moves.change [OF it(1)]) (simp_all add: it(2))
  define new where "new = newItem m ''Plan updated'' time ctx source
     (PlanItem \<lparr>pf_text = summarizePlanUpdate body, pf_isUpdate = True, pf_targetId = Some key\<rparr>)"
  have "moves d1 [Marker m] (pushItem new d1)"
    using moves.mark [of new d1] assms(2) by (simp add: new_def isMarker_def)
  then have "moves d [Marker m] (pushItem new d1)" using moves.both [OF first] by fastforce
  then show ?thesis using first it unfolding upsertPlan_def d1_def new_def by (auto split: if_splits)
next
  case False
  then have "upsertPlan key title body time ctx source (Some m) d =
      pushItem (newItem key title time ctx source
        (PlanItem \<lparr>pf_text = body, pf_isUpdate = False, pf_targetId = None\<rparr>)) (sealOpenMessages d)"
    by (auto simp: upsertPlan_def split: option.splits item_variant.splits)
  then have "moves d [] (upsertPlan key title body time ctx source (Some m) d)"
    using False assms by (auto simp: kindOf_cases intro!: add_item)
  then show ?thesis by blast
qed

subsection \<open>What one frame does\<close>

definition frameMethod :: "observer_event \<Rightarrow> string option" where
  "frameMethod event = asString (jfield (asRecord (Some (oe_payload event))) ''method'')"

definition isUpdateFrame :: "string \<Rightarrow> observer_event \<Rightarrow> bool" where
  "isUpdateFrame u event \<longleftrightarrow> oe_kind event = ''acp_read'' \<and> frameMethod event = Some ''session/update'' \<and>
     asString (jfield (frameUpdate event) ''sessionUpdate'') = Some u"

definition agentChunkKey :: "observer_event \<Rightarrow> string" where
  "agentChunkKey event = itemKey ''assistant'' (channelKey event) (messageKey event)"

definition chunkText :: "observer_event \<Rightarrow> string" where
  "chunkText event = extractContentText (jfield (frameUpdate event) ''content'')"

definition planMarkerId :: "observer_event \<Rightarrow> string" where
  "planMarkerId event = itemKey ''plan-update'' (channelKey event) (updateKey event) @ '':'' @ show_int (oe_seq event)"

inductive frameLabels :: "observer_event \<Rightarrow> move_label list \<Rightarrow> bool" where
  none: "\<not> isUpdateFrame ''agent_message_chunk'' event \<Longrightarrow> frameLabels event []"
| agent: "isUpdateFrame ''agent_message_chunk'' event \<Longrightarrow> frameLabels event [Chunk (agentChunkKey event) (chunkText event)]"
| user: "\<not> isUpdateFrame ''agent_message_chunk'' event \<Longrightarrow> p \<in> {''prompt'', ''steer'', ''user''} \<Longrightarrow>
    k \<in> {turnOrSeq event, messageKey event} \<Longrightarrow> frameLabels event [Chunk (itemKey p (channelKey event) k) body]"
| marker: "\<not> isUpdateFrame ''agent_message_chunk'' event \<Longrightarrow> frameLabels event [Marker (planMarkerId event)]"

definition frameMoves :: "observer_event \<Rightarrow> transcript_draft \<Rightarrow> transcript_draft \<Rightarrow> bool" where
  "frameMoves event d d' \<longleftrightarrow> (\<exists>ls. moves d ls d' \<and> frameLabels event ls)"

lemma frameMoves_quiet:
  "moves d [] d' \<Longrightarrow> \<not> isUpdateFrame ''agent_message_chunk'' event \<Longrightarrow> frameMoves event d d'"
  unfolding frameMoves_def using frameLabels.none by blast

lemma user_message_moves:
  assumes "\<not> isUpdateFrame ''agent_message_chunk'' event" and "p \<in> {''prompt'', ''steer'', ''user''}"
    and "k \<in> {turnOrSeq event, messageKey event}"
  shows "\<exists>ls. moves d ls (upsertMessage (itemKey p (channelKey event) k) role title body time ctx author source mid d) \<and>
    frameLabels event ls"
proof -
  have "keyKind (itemKey p (channelKey event) k) = KMessage" using assms(2) by auto
  then show ?thesis using moves.say colon_itemKey frameLabels.user [OF assms] by blast
qed

lemma showPromptSections_moves:
  assumes "prefixKind prefix = KMetadata" and "CHR '':'' \<notin> set prefix"
  shows "moves d [] (showPromptSections prefix source event ctx pp d)"
  unfolding showPromptSections_def using assms by (simp add: upsertMetadata_moves moves_refl)

lemma showFreeformStatus_moves: "moves d [] (showFreeformStatus event ctx payload d)"
  unfolding showFreeformStatus_def
  by (auto simp: moves_refl keyPrefix_append intro!: upsertLifecycleItem_moves split: option.split)

lemma showPermissionRequest_moves: "moves d [] (showPermissionRequest event ctx payload d)"
  unfolding showPermissionRequest_def Let_def
  by (auto intro!: moves_pending upsertLifecycleItem_moves)

lemma showPermissionResponse_moves: "moves d [] (showPermissionResponse payload d)"
proof (cases "showPermissionResponse payload d = d")
  case False
  then obtain key it f v m where it: "existingLifecycle key d = Some (it, f)" and
    d': "showPermissionResponse payload d =
      (replaceItem key (it\<lparr>ti_variant := LifecycleItem v\<rparr>) d)\<lparr>ts_pendingPermissions := m\<rparr>"
    unfolding showPermissionResponse_def Let_def by (auto split: option.splits if_splits)
  have "moves d [] (replaceItem key (it\<lparr>ti_variant := LifecycleItem v\<rparr>) d)"
    using existingLifecycle_SomeD [OF it] by (auto intro!: moves.change)
  then show ?thesis unfolding d' by (rule moves_pending)
qed (simp add: moves_refl)

lemma user_frame_moves:
  assumes "\<not> isUpdateFrame ''agent_message_chunk'' event" and "p \<in> {''prompt'', ''steer'', ''user''}"
    and "k \<in> {turnOrSeq event, messageKey event}"
  shows "frameMoves event d (if b
    then upsertMessage (itemKey p (channelKey event) k) role title body time ctx author source mid d else d)"
  using user_message_moves [OF assms] frameMoves_quiet [OF moves_refl assms(1)] by (simp add: frameMoves_def)

lemma prompt_frame_moves:
  assumes "\<not> isUpdateFrame ''agent_message_chunk'' event" and "p \<in> {''prompt'', ''steer''}"
    and "prefixKind prefix = KMetadata" and "CHR '':'' \<notin> set prefix"
  shows "frameMoves event d (showPromptSections prefix src event ctx pp (if b
    then upsertMessage (itemKey p (channelKey event) (turnOrSeq event)) role title body time ctx author source mid d
    else d))"
proof -
  define d1 where "d1 = (if b
    then upsertMessage (itemKey p (channelKey event) (turnOrSeq event)) role title body time ctx author source mid d
    else d)"
  have "frameMoves event d d1" unfolding d1_def by (rule user_frame_moves [OF assms(1)]) (use assms(2) in auto)
  then obtain ls where "moves d ls d1" "frameLabels event ls" by (auto simp: frameMoves_def)
  then show ?thesis using moves_then [OF _ showPromptSections_moves [OF assms(3,4)]]
    unfolding frameMoves_def d1_def [symmetric] by blast
qed

lemma showPrompt_moves:
  assumes "\<not> isUpdateFrame ''agent_message_chunk'' event"
  shows "frameMoves event d (showPrompt event ctx payload d)"
  unfolding showPrompt_def Let_def
  using prompt_frame_moves [OF assms, of "''prompt''" "''prompt-context''"] frameMoves_quiet [OF moves_refl assms] by simp

lemma showSteer_moves:
  assumes "\<not> isUpdateFrame ''agent_message_chunk'' event"
  shows "frameMoves event d (showSteer event ctx payload d)"
  unfolding showSteer_def Let_def
  using prompt_frame_moves [OF assms, of "''steer''" "''steer-context''"] frameMoves_quiet [OF moves_refl assms] by simp

lemma showSessionNew_moves: "moves d [] (showSessionNew dash event ctx payload d)"
  unfolding showSessionNew_def Let_def
  by (auto simp: moves_refl keyPrefix_append intro!: upsertMetadata_moves)

lemma showTool_moves: "moves d [] (showTool u status err event ctx update d)"
  unfolding showTool_def Let_def by (intro upsertTool_moves) simp

lemma showUserChunk_moves:
  assumes "\<not> isUpdateFrame ''agent_message_chunk'' event"
  shows "frameMoves event d (showUserChunk event ctx update d)"
  unfolding showUserChunk_def if_not_P
  using user_frame_moves [OF assms, of "''user''" "messageKey event" d True] frameMoves_quiet [OF moves_refl assms] by simp

lemma showSessionUpdate_moves:
  assumes "oe_kind event = ''acp_read''" and "frameMethod event = Some ''session/update''"
    and "showSessionUpdate fixed4 event ctx d = Some d'"
  shows "frameMoves event d d'"
proof -
  define u where "u = (case asString (jfield (frameUpdate event) ''sessionUpdate'') of Some u \<Rightarrow> u | None \<Rightarrow> ''unknown'')"
  have chunk: "isUpdateFrame ''agent_message_chunk'' event \<longleftrightarrow> u = ''agent_message_chunk''"
    using assms(1,2) by (auto simp: isUpdateFrame_def u_def split: option.splits)
  note d' = assms(3) [unfolded showSessionUpdate_def Let_def u_def [symmetric]]
  have lifecycle: "moves d [] (upsertLifecycleItem (itemKey p ch k) c title body time ctx source ds d)"
    if "p \<in> {''mode'', ''commands'', ''config''}" for p ch k c title body time source ds
    using that by (auto intro!: upsertLifecycleItem_moves)
  consider "u = ''agent_message_chunk''" | "u = ''user_message_chunk''" | "u = ''plan''"
    | "u \<noteq> ''agent_message_chunk''" "moves d [] d'"
  proof (cases "u \<in> {''agent_message_chunk'', ''user_message_chunk'', ''plan''}")
    case False
    then have "moves d [] d'" using d'
      by (auto simp: moves_refl showTool_moves showFreeformStatus_moves upsertTextItem_thought lifecycle
          replaceLifecycleItem_moves split: if_splits option.splits)
    then show ?thesis using False that(4) by blast
  qed (use that in blast)
  then show ?thesis
  proof cases
    case 1
    have "keyKind (agentChunkKey event) = KMessage" "CHR '':'' \<in> set (agentChunkKey event)"
      by (simp_all add: agentChunkKey_def)
    then have "moves d [Chunk (agentChunkKey event) (chunkText event)] d'"
      using d' 1 moves.say unfolding agentChunkKey_def chunkText_def by auto
    then show ?thesis using frameLabels.agent [of event] 1 chunk unfolding frameMoves_def by blast
  next
    case 2
    then show ?thesis using d' showUserChunk_moves [of event d ctx "frameUpdate event"] chunk by simp
  next
    case 3
    have "keyPrefix (planMarkerId event) = ''plan-update''" by (simp add: planMarkerId_def keyPrefix_append)
    moreover have "d' = upsertPlan (itemKey ''plan'' (channelKey event) (updateKey event)) ''Plan''
        (extractPlanText (frameUpdate event)) (oe_timestamp event) ctx (Some ''plan'') (Some (planMarkerId event)) d"
      using 3 d' by (simp add: planMarkerId_def)
    moreover have "keyPrefix (itemKey ''plan'' (channelKey event) (updateKey event)) = ''plan''" by simp
    ultimately obtain ls where "moves d ls d'" "ls = [] \<or> ls = [Marker (planMarkerId event)]"
      using upsertPlan_moves by blast
    then show ?thesis using 3 chunk frameLabels.none [of event] frameLabels.marker [of event]
      unfolding frameMoves_def by auto
  next
    case 4
    then show ?thesis using frameMoves_quiet chunk by blast
  qed
qed

lemma showAcpFrame_moves:
  assumes "showAcpFrame dash fixed4 event ctx d = Some d'"
  shows "frameMoves event d d'"
proof (cases "oe_kind event = ''acp_read'' \<and> frameMethod event = Some ''session/update''")
  case True
  then show ?thesis using assms showSessionUpdate_moves by (auto simp: showAcpFrame_def frameMethod_def)
next
  case False
  then have quiet: "\<not> isUpdateFrame ''agent_message_chunk'' event" by (auto simp: isUpdateFrame_def)
  have "\<not> (oe_kind event = ''acp_read'' \<and>
      asString (jfield (asRecord (Some (oe_payload event))) ''method'') = Some ''session/update'')"
    using False by (simp add: frameMethod_def)
  then show ?thesis using assms unfolding showAcpFrame_def Let_def
    by (auto simp: showPrompt_moves [OF quiet] showSteer_moves [OF quiet] frameMoves_quiet [OF _ quiet]
        showPermissionRequest_moves showPermissionResponse_moves showSessionNew_moves showFreeformStatus_moves
        split: if_splits)
qed

lemma showFrame_moves:
  assumes "showFrame dash number fixed4 event ctx d = Some d'"
  shows "frameMoves event d d'"
proof (cases "oe_kind event = ''acp_read'' \<or> oe_kind event = ''acp_write''")
  case True
  then have "showAcpFrame dash fixed4 event ctx d = Some d'" using assms by (auto simp: showFrame_def)
  then show ?thesis by (rule showAcpFrame_moves)
next
  case False
  then have quiet: "\<not> isUpdateFrame ''agent_message_chunk'' event" by (auto simp: isUpdateFrame_def)
  have remember: "moves d [] (rememberTriggeringEventIds c t ids d)" for c t ids
    by (rule moves.stay) (simp_all add: rememberTriggeringEventIds_def sameItems_def)
  have turn: "moves d [] (upsertTextItem (itemKey ''turn'' ch k) LifecycleText title body time ctx source
      (rememberTriggeringEventIds c t ids d))" for ch k title body time source c t ids
    by (rule moves_then [OF remember], rule upsertTextItem_lifecycle) simp
  have "moves d [] d'"
    using assms False unfolding showFrame_def Let_def
    by (auto simp: upsertMetadata_moves upsertTextItem_lifecycle moves_refl turn split: if_splits)
  then show ?thesis using frameMoves_quiet [OF _ quiet] by blast
qed

lemma upsertMessage_changed [simp]: "td_changed (upsertMessage key role title body time ctx author source mid d)"
  by (simp add: upsertMessage_def replaceItem_def pushItem_def split: option.split)

lemma moves_changed: "moves d ls d' \<Longrightarrow> (td_changed d \<longrightarrow> td_changed d') \<and> (td_changed d' \<or> sameItems d d')"
  by (induction rule: moves.induct) (auto simp: replaceItem_def pushItem_def sameItems_def)

lemma processTranscriptEvent_moves:
  assumes "processTranscriptEvent dash number fixed4 s event = Some s'"
  obtains d ls d' where "sameItems s d" "moves d ls d'" "frameLabels event ls" "sameItems d' s'"
proof -
  define d where "d = enterSession event (draftFrom s)"
  obtain d' where d': "showFrame dash number fixed4 event (eventContext event d) d = Some d'" "s' = finishDraft s d'"
    using assms by (auto simp: processTranscriptEvent_def d_def)
  obtain ls where ls: "moves d ls d'" "frameLabels event ls" using showFrame_moves [OF d'(1)] by (auto simp: frameMoves_def)
  have same: "sameItems s d" by (simp add: d_def enterSession_def draftFrom_def sameItems_def transcript_state.defs)
  moreover have "sameItems d' s'"
  proof (cases "td_changed d'")
    case True
    then show ?thesis by (simp add: d'(2) finishDraft_def sameItems_def transcript_state.defs)
  next
    case False
    then have "sameItems d d'" using moves_changed [OF ls(1)] by blast
    then show ?thesis using same by (simp add: d'(2) finishDraft_def sameItems_def transcript_state.defs)
  qed
  ultimately show ?thesis using that ls by blast
qed

lemma transcriptAfter_snoc:
  "transcriptAfter dash number fixed4 (es @ [e]) =
     Option.bind (transcriptAfter dash number fixed4 es) (\<lambda>s. processTranscriptEvent dash number fixed4 s e)"
  by (rule buildTranscriptState_snoc)

text \<open>Every property of the empty transcript that no change of a draft breaks holds in every transcript.\<close>

lemma transcript_induct [consumes 1, case_names Empty Frame]:
  assumes "transcriptAfter dash number fixed4 es = Some s"
    and "P [] createEmptyTranscriptState"
    and "\<And>es e s d ls d' s'. transcriptAfter dash number fixed4 es = Some s \<Longrightarrow> P es s \<Longrightarrow> sameItems s d \<Longrightarrow> moves d ls d' \<Longrightarrow>
      frameLabels e ls \<Longrightarrow> sameItems d' s' \<Longrightarrow> P (es @ [e]) s'"
  shows "P es s"
  using assms(1)
proof (induction es arbitrary: s rule: rev_induct)
  case Nil
  then show ?case using assms(2) by simp
next
  case (snoc e es)
  then obtain s0 where s0: "transcriptAfter dash number fixed4 es = Some s0"
    "processTranscriptEvent dash number fixed4 s0 e = Some s"
    unfolding transcriptAfter_snoc by (cases "transcriptAfter dash number fixed4 es") auto
  then show ?case using processTranscriptEvent_moves [OF s0(2)] snoc.IH [OF s0(1)] assms(3) by metis
qed

subsection \<open>Invariants of the transcript\<close>

abbreviation itemIds :: "'a transcript_state_scheme \<Rightarrow> string list" where
  "itemIds s \<equiv> map ti_id (ts_items s)"

definition tool_wf :: "item_variant \<Rightarrow> bool" where
  "tool_wf v \<longleftrightarrow> (\<forall>f. v = ToolItem f \<longrightarrow> (tf_completedAt f \<noteq> None \<longleftrightarrow> isTerminalToolStatus (tf_status f)))"

definition items_wf :: "'a transcript_state_scheme \<Rightarrow> bool" where
  "items_wf s \<longleftrightarrow>
     (\<forall>k it. jget (ts_itemsById s) k = Some it \<longrightarrow> ti_id it = k \<and> it \<in> set (ts_items s)) \<and>
     (\<forall>it\<in>set (ts_items s). jget (ts_itemsById s) (ti_id it) \<noteq> None \<and> itemKind it = keyKind (ti_id it) \<and>
        tool_wf (ti_variant it))"

definition repeatable :: "string \<Rightarrow> bool" where
  "repeatable k \<longleftrightarrow> keyKind k = KMessage \<or> keyPrefix k = ''plan-update''"

definition ids_unique :: "'a transcript_state_scheme \<Rightarrow> bool" where
  "ids_unique s \<longleftrightarrow> distinct (filter (\<lambda>k. \<not> repeatable k) (itemIds s))"

definition active_wf :: "'a transcript_state_scheme \<Rightarrow> bool" where
  "active_wf s \<longleftrightarrow> jwf (ts_activeMessageKey s) \<and>
     (\<forall>k ck. jget (ts_activeMessageKey s) k = Some ck \<longrightarrow> ck \<noteq> [] \<and> keyKind ck = KMessage \<and> ck \<in> set (itemIds s)) \<and>
     (\<forall>k\<in>set (itemIds s). keyKind k = KMessage \<longrightarrow> k \<notin> set (ts_sealedKeys s) \<longrightarrow>
        k \<in> set (jvals (ts_activeMessageKey s)))"

definition order_wf :: "'a transcript_state_scheme \<Rightarrow> bool" where
  "order_wf s \<longleftrightarrow>
     (\<forall>a k b. itemIds s = a @ k # b \<longrightarrow> keyKind k = KMessage \<longrightarrow> k \<notin> set (ts_sealedKeys s) \<longrightarrow>
        (\<forall>x\<in>set b. repeatable x))"

definition transcript_wf :: "'a transcript_state_scheme \<Rightarrow> bool" where
  "transcript_wf s \<longleftrightarrow> items_wf s \<and> ids_unique s \<and> active_wf s \<and> order_wf s"

lemma transcript_wf_same: "sameItems s s' \<Longrightarrow> transcript_wf s' \<longleftrightarrow> transcript_wf s"
  by (simp add: sameItems_def transcript_wf_def items_wf_def ids_unique_def active_wf_def order_wf_def)

lemma transcript_wf_empty: "transcript_wf createEmptyTranscriptState"
  by (simp add: transcript_wf_def items_wf_def ids_unique_def active_wf_def order_wf_def createEmptyTranscriptState_def)

lemma ids_replaceFirst [simp]: "ti_id u = k \<Longrightarrow> map ti_id (replaceFirst k u items) = map ti_id items"
  by (induction items) auto

lemma set_replaceFirst:
  "set (replaceFirst k u items) \<subseteq> insert u (set items)"
  "x \<in> set items \<Longrightarrow> ti_id x \<noteq> k \<Longrightarrow> x \<in> set (replaceFirst k u items)"
  "k \<in> ti_id ` set items \<Longrightarrow> u \<in> set (replaceFirst k u items)"
  by (induction items) auto

lemma items_wf_replace:
  assumes "items_wf d" and "jget (ts_itemsById d) key = Some it" and "ti_id it' = ti_id it"
    and "itemKind it' = itemKind it" and "tool_wf (ti_variant it')"
  shows "items_wf (replaceItem key it' d)"
proof -
  have key: "ti_id it = key" "it \<in> set (ts_items d)" "itemKind it = keyKind key"
    using assms(1,2) by (auto simp: items_wf_def)
  then have "it' \<in> set (replaceFirst key it' (ts_items d))" by (intro set_replaceFirst(3)) force
  then have "ti_id x = k \<and> x \<in> set (ts_items (replaceItem key it' d))"
    if "jget (ts_itemsById (replaceItem key it' d)) k = Some x" for k x
    using that assms(1,3) key(1) by (auto simp: items_wf_def set_replaceFirst(2) split: if_splits)
  moreover have "jget (ts_itemsById (replaceItem key it' d)) (ti_id x) \<noteq> None \<and> itemKind x = keyKind (ti_id x) \<and>
      tool_wf (ti_variant x)" if "x \<in> set (ts_items (replaceItem key it' d))" for x
  proof -
    have "x = it' \<or> x \<in> set (ts_items d)" using that set_replaceFirst(1) [of key it' "ts_items d"] by auto
    then show ?thesis using assms key by (auto simp: items_wf_def)
  qed
  ultimately show ?thesis unfolding items_wf_def by blast
qed

lemma items_wf_push:
  assumes "items_wf d" and "itemKind it = keyKind (ti_id it)" and "tool_wf (ti_variant it)"
  shows "items_wf (pushItem it d)"
  using assms unfolding items_wf_def by (auto split: if_splits)

lemma append_eq_snoc_cases:
  assumes "xs @ [x] = a @ k # b"
  obtains "a = xs" "k = x" "b = []" | b' where "xs = a @ k # b'" "b = b' @ [x]"
  using assms by (cases b rule: rev_cases) auto

lemma order_wf_push_repeatable:
  assumes "order_wf d" and "repeatable (ti_id it)" and "ts_items d' = ts_items d @ [it]"
    and "ts_sealedKeys d' = ts_sealedKeys d"
  shows "order_wf d'"
  unfolding order_wf_def
proof (intro allI impI)
  fix a k b
  assume "itemIds d' = a @ k # b" and *: "keyKind k = KMessage" "k \<notin> set (ts_sealedKeys d')"
  then have "itemIds d @ [ti_id it] = a @ k # b" using assms(3) by simp
  then show "\<forall>x\<in>set b. repeatable x"
    by (cases rule: append_eq_snoc_cases) (use assms * in \<open>auto simp: order_wf_def\<close>)
qed

lemma order_wf_push_sealed:
  assumes "active_wf d" and "keyKind (ti_id it) \<noteq> KMessage"
  shows "order_wf (pushItem it (sealOpenMessages d))"
  unfolding order_wf_def
proof (intro allI impI)
  fix a k b
  assume "itemIds (pushItem it (sealOpenMessages d)) = a @ k # b" and k: "keyKind k = KMessage"
    "k \<notin> set (ts_sealedKeys (pushItem it (sealOpenMessages d)))"
  then have "itemIds d @ [ti_id it] = a @ k # b" by simp
  then show "\<forall>x\<in>set b. repeatable x"
    by (cases rule: append_eq_snoc_cases) (use assms k in \<open>auto simp: active_wf_def\<close>)
qed

lemma openMessage_SomeD:
  "openMessage key d = Some (ck, it, m) \<Longrightarrow>
     jget (ts_activeMessageKey d) key = Some ck \<and> ck \<notin> set (ts_sealedKeys d) \<and>
     jget (ts_itemsById d) ck = Some it \<and> ti_variant it = MessageItem m"
  by (auto simp: openMessage_def split: option.splits if_splits item_variant.splits)

lemma openMessage_NoneD:
  assumes "transcript_wf d" and "openMessage key d = None" and "jget (ts_activeMessageKey d) key = Some ck"
  shows "ck \<in> set (ts_sealedKeys d)"
proof -
  have ck: "ck \<noteq> []" "keyKind ck = KMessage" "ck \<in> set (itemIds d)"
    using assms(1,3) by (auto simp: transcript_wf_def active_wf_def)
  then obtain it where "jget (ts_itemsById d) ck = Some it" "itemKind it = KMessage"
    using assms(1) unfolding transcript_wf_def items_wf_def by fastforce
  then show ?thesis using assms(2,3) ck(1) by (auto simp: openMessage_def kindOf_cases split: if_splits)
qed

lemma filter_unrepeatable_push:
  assumes "ids_unique d" and "items_wf d" and "repeatable (ti_id it) \<or> jget (ts_itemsById d) (ti_id it) = None"
  shows "ids_unique (pushItem it d)"
proof -
  have "ti_id it \<notin> set (itemIds d)" if "jget (ts_itemsById d) (ti_id it) = None"
    using that assms(2) unfolding items_wf_def by fastforce
  then show ?thesis using assms by (auto simp: ids_unique_def)
qed

lemma active_wf_push:
  assumes "active_wf d" and "keyKind (ti_id it) \<noteq> KMessage" and "set (ts_sealedKeys d) \<subseteq> set (ts_sealedKeys d')"
    and "ts_activeMessageKey d' = ts_activeMessageKey d" and "ts_items d' = ts_items d @ [it]"
  shows "active_wf d'"
  using assms unfolding active_wf_def by auto

lemma jvals_ran: "jwf m \<Longrightarrow> set (jvals m) = {x. \<exists>k. jget m k = Some x}"
  by (simp add: jwf_def ran_distinct [symmetric] ran_def)

lemma jvals_jset: "jwf m \<Longrightarrow> set (jvals (jset m k v)) = insert v {x. \<exists>k'. k' \<noteq> k \<and> jget m k' = Some x}"
  by (subst jvals_ran) auto

lemma active_wf_message:
  assumes "transcript_wf d" and "openMessage key d = None" and "keyKind newKey = KMessage" and "newKey \<noteq> []"
    and "ts_sealedKeys d' = ts_sealedKeys d" and "ti_id it = newKey"
    and "ts_activeMessageKey d' = jset (ts_activeMessageKey d) key newKey" and "ts_items d' = ts_items d @ [it]"
  shows "active_wf d'"
proof -
  have wf: "active_wf d" using assms(1) by (simp add: transcript_wf_def)
  then have "jwf (ts_activeMessageKey d)" by (simp add: active_wf_def)
  note vals = jvals_jset [OF this, of key newKey]
  have "k \<in> set (jvals (ts_activeMessageKey d'))"
    if k: "k \<in> set (itemIds d)" "keyKind k = KMessage" "k \<notin> set (ts_sealedKeys d)" for k
  proof -
    have "k \<in> set (jvals (ts_activeMessageKey d))" using wf k by (auto simp: active_wf_def)
    then obtain k0 where "jget (ts_activeMessageKey d) k0 = Some k"
      using jvals_ran [OF \<open>jwf (ts_activeMessageKey d)\<close>] by blast
    moreover from this have "k0 \<noteq> key" using openMessage_NoneD [OF assms(1,2), of k] k(3) by blast
    ultimately show ?thesis unfolding assms(7) vals by blast
  qed
  moreover have "newKey \<in> set (jvals (ts_activeMessageKey d'))" unfolding assms(7) vals by simp
  ultimately show ?thesis using wf assms(3-8) unfolding active_wf_def vals by auto
qed

lemma upsertMessage_open:
  assumes "openMessage key d = Some (ck, it, m)"
  obtains it' m' where "upsertMessage key role title body time ctx author source mid d = replaceItem ck it' d"
    and "ti_id it' = ti_id it" and "ti_timestamp it' = ti_timestamp it" and "ti_variant it' = MessageItem m'"
    and "mf_text m' = mf_text m @ body" and "mf_role m' = mf_role m"
  using assms by (simp add: upsertMessage_def)

definition continuedKey :: "string \<Rightarrow> 'a transcript_state_scheme \<Rightarrow> string" where
  "continuedKey key d = (if truthy (jget (ts_activeMessageKey d) key)
     then key @ '':c'' @ show_nat (Suc (ts_continuationSeq d)) else key)"

lemma upsertMessage_new:
  assumes "openMessage key d = None"
  obtains it d' where "upsertMessage key role title body time ctx author source mid d = d'"
    and "ti_id it = continuedKey key d" and "ti_variant it = MessageItem \<lparr>mf_role = role, mf_text = body,
      mf_messageId = mid, mf_authorPubkey = author\<rparr>"
    and "ts_items d' = ts_items d @ [it]" and "ts_itemsById d' = jset (ts_itemsById d) (ti_id it) it"
    and "ts_activeMessageKey d' = jset (ts_activeMessageKey d) key (ti_id it)"
    and "ts_sealedKeys d' = ts_sealedKeys d" and "ts_continuationSeq d' = Suc (ts_continuationSeq d)"
proof (rule that [OF refl])
  define it where "it = newItem (continuedKey key d) title time ctx source
    (MessageItem \<lparr>mf_role = role, mf_text = body, mf_messageId = mid, mf_authorPubkey = author\<rparr>)"
  show "ti_id it = continuedKey key d" by (simp add: it_def)
  show "ti_variant it = MessageItem \<lparr>mf_role = role, mf_text = body, mf_messageId = mid, mf_authorPubkey = author\<rparr>"
    by (simp add: it_def)
  have new: "upsertMessage key role title body time ctx author source mid d =
      (pushItem it (d\<lparr>ts_continuationSeq := Suc (ts_continuationSeq d)\<rparr>))
        \<lparr>ts_activeMessageKey := jset (ts_activeMessageKey d) key (continuedKey key d)\<rparr>"
    using assms by (simp add: upsertMessage_def it_def continuedKey_def)
  let ?d' = "upsertMessage key role title body time ctx author source mid d"
  show "ts_items ?d' = ts_items d @ [it]" "ts_itemsById ?d' = jset (ts_itemsById d) (ti_id it) it"
    "ts_activeMessageKey ?d' = jset (ts_activeMessageKey d) key (ti_id it)"
    "ts_sealedKeys ?d' = ts_sealedKeys d" "ts_continuationSeq ?d' = Suc (ts_continuationSeq d)"
    unfolding new by (simp_all add: it_def)
qed

lemma keyKind_continued: "keyKind key = KMessage \<Longrightarrow> CHR '':'' \<in> set key \<Longrightarrow> keyKind (continuedKey key d) = KMessage"
  by (auto simp: continuedKey_def keyPrefix_continued)

lemma transcript_wf_replace:
  assumes "transcript_wf d" and "items_wf (replaceItem ck it' d)" and "ti_id it' = ck"
  shows "transcript_wf (replaceItem ck it' d)"
proof -
  have ids: "itemIds (replaceItem ck it' d) = itemIds d" using assms(3) by simp
  have "ids_unique (replaceItem ck it' d) = ids_unique d" "active_wf (replaceItem ck it' d) = active_wf d"
    "order_wf (replaceItem ck it' d) = order_wf d"
    unfolding ids_unique_def active_wf_def order_wf_def ids by simp_all
  then show ?thesis using assms(1,2) by (simp add: transcript_wf_def)
qed

lemma transcript_wf_message:
  assumes "transcript_wf d" and "keyKind key = KMessage" and "CHR '':'' \<in> set key"
  shows "transcript_wf (upsertMessage key role title body time ctx author source mid d)"
proof (cases "openMessage key d")
  case None
  obtain it d' where it: "upsertMessage key role title body time ctx author source mid d = d'"
    "ti_id it = continuedKey key d" "ti_variant it = MessageItem \<lparr>mf_role = role, mf_text = body,
      mf_messageId = mid, mf_authorPubkey = author\<rparr>"
    "ts_items d' = ts_items d @ [it]" "ts_itemsById d' = jset (ts_itemsById d) (ti_id it) it"
    "ts_activeMessageKey d' = jset (ts_activeMessageKey d) key (ti_id it)" "ts_sealedKeys d' = ts_sealedKeys d"
    using upsertMessage_new [OF None] by metis
  have kind: "keyKind (ti_id it) = KMessage" "ti_id it \<noteq> []"
    using keyKind_continued [OF assms(2,3), of d] assms(3) unfolding it(2) by (auto simp: continuedKey_def)
  have "items_wf (pushItem it d)"
    using assms(1) kind(1) by (intro items_wf_push) (simp_all add: transcript_wf_def it(3) tool_wf_def)
  moreover have "ids_unique (pushItem it d)"
    using assms(1) kind(1) by (intro filter_unrepeatable_push) (simp_all add: transcript_wf_def repeatable_def)
  moreover have "active_wf d'" using active_wf_message [OF assms(1) None kind it(7) refl it(6) it(4)] .
  moreover have "order_wf d'"
    by (rule order_wf_push_repeatable [of d it]) (use assms(1) kind(1) it(4,7) in \<open>simp_all add: transcript_wf_def repeatable_def\<close>)
  moreover have "items_wf d' = items_wf (pushItem it d)" "ids_unique d' = ids_unique (pushItem it d)"
    unfolding items_wf_def ids_unique_def it(4,5) draft_fields by (rule refl)+
  ultimately show ?thesis unfolding it(1) transcript_wf_def by blast
next
  case (Some found)
  then obtain ck old m where o: "openMessage key d = Some (ck, old, m)" by (cases found) auto
  obtain it' m' where new: "upsertMessage key role title body time ctx author source mid d = replaceItem ck it' d"
    "ti_id it' = ti_id old" "ti_variant it' = MessageItem m'" using upsertMessage_open [OF o] by metis
  have "items_wf (replaceItem ck it' d)"
    using assms(1) openMessage_SomeD [OF o] new
    by (intro items_wf_replace [of d ck old]) (simp_all add: transcript_wf_def tool_wf_def)
  moreover have "ti_id it' = ck" using assms(1) openMessage_SomeD [OF o] new(2) by (auto simp: transcript_wf_def items_wf_def)
  ultimately show ?thesis unfolding new(1) using transcript_wf_replace [OF assms(1)] by blast
qed

lemma evolves_wf: "evolves v v' \<Longrightarrow> kindOf v' = kindOf v \<and> (tool_wf v \<longrightarrow> tool_wf v')"
  by (cases v; cases v') (auto simp: evolves_def tool_wf_def tool_forward_def)

lemma transcript_wf_moves: "moves d ls d' \<Longrightarrow> transcript_wf d \<Longrightarrow> transcript_wf d'"
proof (induction rule: moves.induct)
  case (stay d d')
  then show ?case using transcript_wf_same by blast
next
  case (change d key it it')
  have key: "ti_id it = key" "it \<in> set (ts_items d)" using change.prems change.hyps(1) by (auto simp: transcript_wf_def items_wf_def)
  have "tool_wf (ti_variant it)" using change.prems key(2) by (auto simp: transcript_wf_def items_wf_def)
  then have "tool_wf (ti_variant it')" "itemKind it' = itemKind it"
    using evolves_wf [OF change.hyps(4)] by simp_all
  then have "items_wf (replaceItem key it' d)"
    using items_wf_replace change.hyps(1,2) change.prems unfolding transcript_wf_def by blast
  then show ?case using transcript_wf_replace [OF change.prems] change.hyps(2) key(1) by simp
next
  case (add it d)
  have wf: "items_wf d" "ids_unique d" "active_wf d" using add.prems by (simp_all add: transcript_wf_def)
  have "jget (ts_itemsById d) (ti_id it) = None"
  proof (rule ccontr)
    assume "jget (ts_itemsById d) (ti_id it) \<noteq> None"
    then obtain old where old: "jget (ts_itemsById d) (ti_id it) = Some old" by blast
    then have "itemKind old = keyKind (ti_id it)" using wf(1) by (auto simp: items_wf_def)
    then show False using add.hyps(1,4) old by simp
  qed
  then have "ids_unique (pushItem it (sealOpenMessages d))"
    using wf by (intro filter_unrepeatable_push) (simp_all add: ids_unique_def items_wf_def)
  moreover have "items_wf (pushItem it (sealOpenMessages d))"
    using wf add.hyps(1,5) by (intro items_wf_push) (simp_all add: items_wf_def tool_wf_def)
  moreover have "keyKind (ti_id it) \<noteq> KMessage" using add.hyps(1,2) by simp
  then have "active_wf (pushItem it (sealOpenMessages d))" "order_wf (pushItem it (sealOpenMessages d))"
    using active_wf_push [OF wf(3), of it "pushItem it (sealOpenMessages d)"] order_wf_push_sealed [OF wf(3)] by simp_all
  ultimately show ?case by (simp add: transcript_wf_def)
next
  case (mark it d)
  have kind: "keyKind (ti_id it) = KPlan" "repeatable (ti_id it)" using mark.hyps by (simp_all add: isMarker_def repeatable_def)
  have "items_wf (pushItem it d)"
    using mark kind by (intro items_wf_push) (auto simp: transcript_wf_def tool_wf_def)
  moreover have "ids_unique (pushItem it d)" "active_wf (pushItem it d)" "order_wf (pushItem it d)"
    using filter_unrepeatable_push [of d it] active_wf_push [of d it "pushItem it d"]
      order_wf_push_repeatable [of d it "pushItem it d"] mark.prems kind by (simp_all add: transcript_wf_def)
  ultimately show ?case by (simp add: transcript_wf_def)
qed (auto intro: transcript_wf_message)

lemma transcript_kinds: "transcript_wf s \<Longrightarrow> it \<in> set (ts_items s) \<Longrightarrow> itemKind it = keyKind (ti_id it)"
  by (simp add: transcript_wf_def items_wf_def)

lemma transcript_wf_after: "transcriptAfter dash number fixed4 es = Some s \<Longrightarrow> transcript_wf s"
proof (induction rule: transcript_induct)
  case Empty
  show ?case by (rule transcript_wf_empty)
next
  case (Frame es e s d ls d' s')
  then show ?case using transcript_wf_same transcript_wf_moves by metis
qed

subsection \<open>Items stay where they are\<close>

definition tool_progress :: "tool_fields \<Rightarrow> tool_fields \<Rightarrow> bool" where
  "tool_progress f f' \<longleftrightarrow>
     tf_startedAt f' = tf_startedAt f \<and> (tf_isError f \<longrightarrow> tf_isError f') \<and>
     (isTerminalToolStatus (tf_status f) \<longrightarrow> isTerminalToolStatus (tf_status f')) \<and>
     (tf_completedAt f \<noteq> None \<longrightarrow> tf_completedAt f' = tf_completedAt f)"

definition item_forward :: "transcript_item \<Rightarrow> transcript_item \<Rightarrow> bool" where
  "item_forward it it' \<longleftrightarrow> ti_id it' = ti_id it \<and> ti_timestamp it' = ti_timestamp it \<and> itemKind it' = itemKind it \<and>
     (\<forall>f f'. ti_variant it = ToolItem f \<longrightarrow> ti_variant it' = ToolItem f' \<longrightarrow> tool_progress f f')"

definition items_forward :: "'a transcript_state_scheme \<Rightarrow> 'b transcript_state_scheme \<Rightarrow> bool" where
  "items_forward s s' \<longleftrightarrow> (\<exists>new. itemIds s' = itemIds s @ new) \<and>
     (\<forall>i<length (ts_items s). \<not> repeatable (ti_id (ts_items s ! i)) \<longrightarrow> item_forward (ts_items s ! i) (ts_items s' ! i))"

lemma tool_progress_trans: "tool_progress f g \<Longrightarrow> tool_progress g h \<Longrightarrow> tool_progress f h"
  by (auto simp: tool_progress_def)

lemma item_forward_refl: "item_forward it it"
  by (auto simp: item_forward_def tool_progress_def)

lemma item_forward_trans: "item_forward x y \<Longrightarrow> item_forward y z \<Longrightarrow> item_forward x z"
proof -
  assume "item_forward x y" "item_forward y z"
  moreover from this have "tool_progress f h" if "ti_variant x = ToolItem f" "ti_variant z = ToolItem h" for f h
  proof -
    have "itemKind y = KTool" using \<open>item_forward x y\<close> that(1) by (simp add: item_forward_def)
    then obtain g where "ti_variant y = ToolItem g" by (auto simp: kindOf_cases)
    then show ?thesis using that \<open>item_forward x y\<close> \<open>item_forward y z\<close> tool_progress_trans
      unfolding item_forward_def by blast
  qed
  ultimately show ?thesis unfolding item_forward_def by simp
qed

lemma items_forward_length: "items_forward s s' \<Longrightarrow> length (ts_items s) \<le> length (ts_items s')"
  by (auto simp: items_forward_def dest!: arg_cong [where f = length])

lemma items_forward_id:
  "items_forward s s' \<Longrightarrow> i < length (ts_items s) \<Longrightarrow> ti_id (ts_items s' ! i) = ti_id (ts_items s ! i)"
proof -
  assume fwd: "items_forward s s'" and i: "i < length (ts_items s)"
  then obtain new where "itemIds s' = itemIds s @ new" by (auto simp: items_forward_def)
  then have "itemIds s' ! i = itemIds s ! i" using i by (simp add: nth_append)
  then show ?thesis using i items_forward_length [OF fwd] by simp
qed

lemma items_forward_refl: "ts_items s' = ts_items s \<Longrightarrow> items_forward s s'"
  by (simp add: items_forward_def item_forward_refl)

lemma items_forward_trans:
  assumes "items_forward s t" and "items_forward t u"
  shows "items_forward s u"
proof -
  have "item_forward (ts_items s ! i) (ts_items u ! i)"
    if i: "i < length (ts_items s)" "\<not> repeatable (ti_id (ts_items s ! i))" for i
  proof -
    have "item_forward (ts_items s ! i) (ts_items t ! i)" using assms(1) i by (simp add: items_forward_def)
    moreover have "item_forward (ts_items t ! i) (ts_items u ! i)"
      using assms(2) i items_forward_length [OF assms(1)] items_forward_id [OF assms(1) i(1)] by (simp add: items_forward_def)
    ultimately show ?thesis by (rule item_forward_trans)
  qed
  moreover have "\<exists>new. itemIds u = itemIds s @ new" using assms by (auto simp: items_forward_def)
  ultimately show ?thesis by (simp add: items_forward_def)
qed

lemma items_forward_push: "ts_items d' = ts_items d @ [it] \<Longrightarrow> items_forward d d'"
  by (simp add: items_forward_def nth_append item_forward_refl)

lemma nth_replaceFirst:
  "i < length items \<Longrightarrow> replaceFirst k u items ! i = items ! i \<or> (replaceFirst k u items ! i = u \<and> ti_id (items ! i) = k)"
  by (induction items arbitrary: i) (auto simp: nth_Cons split: nat.splits)

lemma unique_item:
  assumes "ids_unique s" and "x \<in> set (ts_items s)" "y \<in> set (ts_items s)" and "ti_id x = ti_id y" "\<not> repeatable (ti_id y)"
  shows "x = y"
proof -
  have "distinct (map ti_id (filter (\<lambda>it. \<not> repeatable (ti_id it)) (ts_items s)))"
    using assms(1) by (simp add: ids_unique_def filter_map comp_def)
  then show ?thesis using assms(2-5) by (auto simp: distinct_map inj_on_def)
qed

lemma items_forward_replace:
  assumes "ti_id u = k" and "\<And>x. x \<in> set (ts_items d) \<Longrightarrow> ti_id x = k \<Longrightarrow> \<not> repeatable k \<Longrightarrow> item_forward x u"
  shows "items_forward d (replaceItem k u d)"
proof -
  have "item_forward (ts_items d ! i) (replaceFirst k u (ts_items d) ! i)"
    if i: "i < length (ts_items d)" "\<not> repeatable (ti_id (ts_items d ! i))" for i
    using nth_replaceFirst [OF i(1), of k u]
  proof
    assume "replaceFirst k u (ts_items d) ! i = u \<and> ti_id (ts_items d ! i) = k"
    then show ?thesis using assms(2) [of "ts_items d ! i"] i by simp
  qed (simp add: item_forward_refl)
  then show ?thesis using assms(1) by (simp add: items_forward_def)
qed

lemma evolves_progress: "evolves v v' \<Longrightarrow> \<forall>f f'. v = ToolItem f \<longrightarrow> v' = ToolItem f' \<longrightarrow> tool_progress f f'"
  unfolding evolves_def tool_forward_def tool_progress_def by blast

lemma moves_forward: "moves d ls d' \<Longrightarrow> transcript_wf d \<Longrightarrow> items_forward d d'"
proof (induction rule: moves.induct)
  case (change d key it it')
  have it: "ti_id it = key" "it \<in> set (ts_items d)" using change.prems change.hyps(1) by (auto simp: transcript_wf_def items_wf_def)
  have "item_forward it it'"
    unfolding item_forward_def using change.hyps(2,3) evolves_wf [OF change.hyps(4)] evolves_progress [OF change.hyps(4)] by blast
  moreover have "x = it" if "x \<in> set (ts_items d)" "ti_id x = key" "\<not> repeatable key" for x
    using unique_item [of d x it] change.prems it that unfolding transcript_wf_def by blast
  moreover have "ti_id it' = key" using change.hyps(2) it(1) by simp
  ultimately show ?case using items_forward_replace [of it' key d] by blast
next
  case (say key d body role title time ctx author source messageId)
  show ?case
  proof (cases "openMessage key d")
    case None
    then show ?thesis using upsertMessage_new [OF None] items_forward_push by metis
  next
    case (Some found)
    then obtain ck old m where o: "openMessage key d = Some (ck, old, m)" by (cases found) auto
    note od = openMessage_SomeD [OF o]
    have "repeatable ck" "ti_id old = ck"
      using od say.prems by (auto simp: repeatable_def transcript_wf_def active_wf_def items_wf_def)
    then show ?thesis using upsertMessage_open [OF o] items_forward_replace [of _ ck d] by metis
  qed
next
  case (both d ls d1 ls' d2)
  then show ?case using transcript_wf_moves items_forward_trans by blast
qed (auto simp: sameItems_def intro: items_forward_refl items_forward_push)

lemma items_forward_cong:
  "sameItems s d \<Longrightarrow> sameItems d' s' \<Longrightarrow> items_forward s s' \<longleftrightarrow> items_forward d d'"
  by (simp add: items_forward_def sameItems_def)

lemma process_forward:
  assumes "transcript_wf s" and "processTranscriptEvent dash number fixed4 s e = Some s'"
  shows "items_forward s s'"
  using assms processTranscriptEvent_moves [OF assms(2)] moves_forward items_forward_cong transcript_wf_same by metis

lemma transcriptAfter_append:
  "transcriptAfter dash number fixed4 (es @ es') = Some s' \<Longrightarrow> \<exists>s. transcriptAfter dash number fixed4 es = Some s"
proof (induction es' arbitrary: s' rule: rev_induct)
  case (snoc e es')
  then have "Option.bind (transcriptAfter dash number fixed4 (es @ es'))
      (\<lambda>s. processTranscriptEvent dash number fixed4 s e) = Some s'"
    using transcriptAfter_snoc [of dash number fixed4 "es @ es'" e] by simp
  then show ?case using snoc.IH by (cases "transcriptAfter dash number fixed4 (es @ es')") auto
qed simp

lemma transcript_forward:
  assumes "transcriptAfter dash number fixed4 es = Some s" and "transcriptAfter dash number fixed4 (es @ es') = Some s'"
  shows "items_forward s s'"
  using assms(2)
proof (induction es' arbitrary: s' rule: rev_induct)
  case Nil
  then show ?case using assms(1) by (simp add: items_forward_refl)
next
  case (snoc e es')
  then have "Option.bind (transcriptAfter dash number fixed4 (es @ es'))
      (\<lambda>s. processTranscriptEvent dash number fixed4 s e) = Some s'"
    using transcriptAfter_snoc [of dash number fixed4 "es @ es'" e] by simp
  then obtain t where t: "transcriptAfter dash number fixed4 (es @ es') = Some t"
    "processTranscriptEvent dash number fixed4 t e = Some s'"
    by (cases "transcriptAfter dash number fixed4 (es @ es')") auto
  then show ?case using snoc.IH [OF t(1)] process_forward [OF transcript_wf_after [OF t(1)] t(2)] items_forward_trans by blast
qed

subsection \<open>Only the open end of the feed grows\<close>

definition grows_at_end :: "'a transcript_state_scheme \<Rightarrow> 'b transcript_state_scheme \<Rightarrow> bool" where
  "grows_at_end s s' \<longleftrightarrow>
     (\<forall>i j. i < j \<longrightarrow> j < length (ts_items s) \<longrightarrow> keyKind (ti_id (ts_items s ! i)) = KMessage \<longrightarrow>
        ts_items s' ! i \<noteq> ts_items s ! i \<longrightarrow> repeatable (ti_id (ts_items s ! j)))"

lemma grows_push: "ts_items s' = ts_items s @ [it] \<Longrightarrow> grows_at_end s s'"
  by (auto simp: grows_at_end_def nth_append)

lemma grows_replace:
  assumes "\<And>i j. i < j \<Longrightarrow> j < length (ts_items d) \<Longrightarrow> ti_id (ts_items d ! i) = key \<Longrightarrow> keyKind key = KMessage \<Longrightarrow>
      repeatable (ti_id (ts_items d ! j))"
  shows "grows_at_end d (replaceItem key u d)"
  unfolding grows_at_end_def
proof (intro allI impI)
  fix i j
  assume ij: "i < j" "j < length (ts_items d)" "keyKind (ti_id (ts_items d ! i)) = KMessage"
    and "ts_items (replaceItem key u d) ! i \<noteq> ts_items d ! i"
  then have "ti_id (ts_items d ! i) = key" using nth_replaceFirst [of i "ts_items d" key u] by auto
  then show "repeatable (ti_id (ts_items d ! j))" using assms ij by metis
qed

lemma order_wf_nth:
  assumes "order_wf s" and "i < j" and "j < length (ts_items s)" and "keyKind (ti_id (ts_items s ! i)) = KMessage"
    and "ti_id (ts_items s ! i) \<notin> set (ts_sealedKeys s)"
  shows "repeatable (ti_id (ts_items s ! j))"
proof -
  have "itemIds s = take i (itemIds s) @ itemIds s ! i # drop (Suc i) (itemIds s)"
    using assms(2,3) by (intro id_take_nth_drop) simp
  then have "\<forall>x\<in>set (drop (Suc i) (itemIds s)). repeatable x" using assms unfolding order_wf_def by (metis length_map nth_map order.strict_trans)
  moreover have "itemIds s ! j \<in> set (drop (Suc i) (itemIds s))"
    using assms(2,3) by (auto simp: set_conv_nth drop_map intro!: exI [of _ "j - Suc i"])
  ultimately show ?thesis using assms(3) by simp
qed

lemma grows_trans:
  assumes "grows_at_end s t" and "grows_at_end t u" and "items_forward s t"
  shows "grows_at_end s u"
  unfolding grows_at_end_def
proof (intro allI impI)
  fix i j
  assume ij: "i < j" "j < length (ts_items s)" "keyKind (ti_id (ts_items s ! i)) = KMessage"
    and ne: "ts_items u ! i \<noteq> ts_items s ! i"
  have ids: "ti_id (ts_items t ! i) = ti_id (ts_items s ! i)" "ti_id (ts_items t ! j) = ti_id (ts_items s ! j)"
    "j < length (ts_items t)"
    using items_forward_id [OF assms(3)] items_forward_length [OF assms(3)] ij by simp_all
  show "repeatable (ti_id (ts_items s ! j))"
  proof (cases "ts_items t ! i = ts_items s ! i")
    case True
    then show ?thesis using assms(2) ij ne ids unfolding grows_at_end_def by metis
  next
    case False
    then show ?thesis using assms(1) ij unfolding grows_at_end_def by metis
  qed
qed

lemma moves_grow: "moves d ls d' \<Longrightarrow> transcript_wf d \<Longrightarrow> grows_at_end d d'"
proof (induction rule: moves.induct)
  case (stay d d')
  then show ?case by (simp add: sameItems_def grows_at_end_def)
next
  case (change d key it it')
  have "itemKind it = keyKind key" using change.prems change.hyps(1) by (auto simp: transcript_wf_def items_wf_def)
  moreover have "itemKind it \<noteq> KMessage" using change.hyps(4) unfolding evolves_def by blast
  ultimately show ?case by (intro grows_replace) simp
next
  case (say key d body role title time ctx author source messageId)
  show ?case
  proof (cases "openMessage key d")
    case None
    then show ?thesis using upsertMessage_new [OF None] grows_push by metis
  next
    case (Some found)
    then obtain ck old m where o: "openMessage key d = Some (ck, old, m)" by (cases found) auto
    have "ck \<notin> set (ts_sealedKeys d)" using openMessage_SomeD [OF o] by blast
    moreover have "order_wf d" using say.prems by (simp add: transcript_wf_def)
    ultimately have "grows_at_end d (replaceItem ck u d)" for u
      using order_wf_nth [of d] by (intro grows_replace) blast
    then show ?thesis using upsertMessage_open [OF o] by metis
  qed
next
  case (both d ls d1 ls' d2)
  then show ?case using transcript_wf_moves grows_trans moves_forward by blast
qed (auto intro: grows_push)

lemma process_grows:
  assumes "transcript_wf s" and "processTranscriptEvent dash number fixed4 s e = Some s'"
  shows "grows_at_end s s'"
proof -
  obtain d ls d' where m: "sameItems s d" "moves d ls d'" "sameItems d' s'" using processTranscriptEvent_moves [OF assms(2)] .
  then have "grows_at_end d d'" using moves_grow transcript_wf_same assms(1) by metis
  then show ?thesis using m by (simp add: grows_at_end_def sameItems_def)
qed

text \<open>
  C5. Items of the feed are never removed, reordered or renamed, and a message grows only while it is
  open: a frame changes a message only if every item after it is a message or the marker of a plan
  update. What an agent writes after a tool call, a thought, a status, an error, a permission
  request or a first plan is therefore shown after it; only other messages and plan markers do not
  end a message.
\<close>

theorem transcript_grows_at_end:
  assumes "transcriptAfter dash number fixed4 es = Some s" and "processTranscriptEvent dash number fixed4 s e = Some s'"
  shows "(\<exists>new. map ti_id (ts_items s') = map ti_id (ts_items s) @ new) \<and>
    (i < j \<longrightarrow> j < length (ts_items s) \<longrightarrow> isMessage (ts_items s ! i) \<longrightarrow> ts_items s' ! i \<noteq> ts_items s ! i \<longrightarrow>
       isMessage (ts_items s ! j) \<or> (\<exists>p. ti_variant (ts_items s ! j) = PlanItem p) \<and> isMarker (ts_items s ! j))"
proof -
  note wf = transcript_wf_after [OF assms(1)]
  note kinds = transcript_kinds [OF wf]
  have "isMessage (ts_items s ! j) \<or> (\<exists>p. ti_variant (ts_items s ! j) = PlanItem p) \<and> isMarker (ts_items s ! j)"
    if "i < j" "j < length (ts_items s)" "isMessage (ts_items s ! i)" "ts_items s' ! i \<noteq> ts_items s ! i"
  proof -
    have "repeatable (ti_id (ts_items s ! j))"
      using process_grows [OF wf assms(2)] that kinds [of "ts_items s ! i"] unfolding grows_at_end_def by simp
    then show ?thesis using kinds [of "ts_items s ! j"] that(2) by (auto simp: repeatable_def isMarker_def kindOf_cases(3) [symmetric])
  qed
  then show ?thesis using process_forward [OF wf assms(2)] by (auto simp: items_forward_def)
qed

text \<open>Frames for the witnesses: a chunk of a message, and a call of a tool.\<close>

definition updateFrame :: "int \<Rightarrow> (string \<times> jsval) list \<Rightarrow> observer_event" where
  "updateFrame n update =
     \<lparr>oe_seq = n, oe_timestamp = show_int n, oe_kind = ''acp_read'', oe_agentIndex = None, oe_channelId = Some ''c'',
      oe_sessionId = Some ''s'', oe_turnId = Some ''t'', oe_startedAt = None,
      oe_payload = JObj [(''method'', JStr ''session/update''), (''params'', JObj [(''update'', JObj update)])]\<rparr>"

definition chunkFrame :: "int \<Rightarrow> string \<Rightarrow> observer_event" where
  "chunkFrame n body = updateFrame n [(''sessionUpdate'', JStr ''agent_message_chunk''), (''content'', JStr body)]"

definition toolFrame :: "int \<Rightarrow> string \<Rightarrow> observer_event" where
  "toolFrame n status = updateFrame n [(''sessionUpdate'', JStr ''tool_call_update''), (''toolCallId'', JStr ''x''),
     (''status'', JStr status), (''title'', JStr ''shell'')]"

definition thoughtFrame :: "int \<Rightarrow> observer_event" where
  "thoughtFrame n = updateFrame n [(''sessionUpdate'', JStr ''agent_thought_chunk''), (''content'', JStr ''hm'')]"

theorem transcript_grows_at_end_witness:
  "\<exists>s s'. transcriptAfter [] id stringify [chunkFrame 1 ''a'', thoughtFrame 2] = Some s \<and>
     processTranscriptEvent [] id stringify s (chunkFrame 3 ''b'') = Some s' \<and>
     (\<exists>new. map ti_id (ts_items s') = [''assistant:c:t'', ''thinking:c:t''] @ new)"
proof -
  have "map_option (\<lambda>s. (map ti_id (ts_items s), processTranscriptEvent [] id stringify s (chunkFrame 3 ''b'') = None))
      (transcriptAfter [] id stringify [chunkFrame 1 ''a'', thoughtFrame 2]) =
    Some ([''assistant:c:t'', ''thinking:c:t''], False)" by code_simp
  then obtain s s' where s: "transcriptAfter [] id stringify [chunkFrame 1 ''a'', thoughtFrame 2] = Some s"
    "map ti_id (ts_items s) = [''assistant:c:t'', ''thinking:c:t'']"
    and s': "processTranscriptEvent [] id stringify s (chunkFrame 3 ''b'') = Some s'" by auto
  show ?thesis using s s' transcript_grows_at_end [OF s(1) s', of 0 1] by auto
qed

subsection \<open>Tool calls\<close>

text \<open>
  A tool call keeps its place, its identifier and the time it started. Once finished it stays
  finished, with the time at which it first was; once in error it stays in error; and it has a
  finishing time exactly when its status says so.
\<close>

theorem tool_calls_progress:
  assumes "transcriptAfter dash number fixed4 es = Some s" and "transcriptAfter dash number fixed4 (es @ es') = Some s'"
    and "i < length (ts_items s)" and "ti_variant (ts_items s ! i) = ToolItem f"
  shows "\<exists>f'. ti_id (ts_items s' ! i) = ti_id (ts_items s ! i) \<and> ti_timestamp (ts_items s' ! i) = ti_timestamp (ts_items s ! i) \<and>
    ti_variant (ts_items s' ! i) = ToolItem f' \<and> tf_startedAt f' = tf_startedAt f \<and> (tf_isError f \<longrightarrow> tf_isError f') \<and>
    (isTerminalToolStatus (tf_status f) \<longrightarrow> isTerminalToolStatus (tf_status f')) \<and>
    (tf_completedAt f \<noteq> None \<longrightarrow> tf_completedAt f' = tf_completedAt f) \<and>
    (tf_completedAt f' \<noteq> None \<longleftrightarrow> isTerminalToolStatus (tf_status f'))"
proof -
  note fwd = transcript_forward [OF assms(1,2)]
  have "keyKind (ti_id (ts_items s ! i)) = KTool"
    using transcript_kinds [OF transcript_wf_after [OF assms(1)], of "ts_items s ! i"] assms(3,4) by simp
  then have "\<not> repeatable (ti_id (ts_items s ! i))" by (auto simp: repeatable_def)
  then have it: "item_forward (ts_items s ! i) (ts_items s' ! i)" using fwd assms(3) by (simp add: items_forward_def)
  then have "itemKind (ts_items s' ! i) = KTool" using assms(4) by (simp add: item_forward_def)
  then obtain f' where f': "ti_variant (ts_items s' ! i) = ToolItem f'" by (auto simp: kindOf_cases)
  have "ts_items s' ! i \<in> set (ts_items s')" using items_forward_length [OF fwd] assms(3) by simp
  then have "tool_wf (ToolItem f')"
    using transcript_wf_after [OF assms(2)] f' unfolding transcript_wf_def items_wf_def by metis
  have "tool_progress f f'" using it assms(4) f' unfolding item_forward_def by blast
  then have "tf_startedAt f' = tf_startedAt f \<and> (tf_isError f \<longrightarrow> tf_isError f') \<and>
      (isTerminalToolStatus (tf_status f) \<longrightarrow> isTerminalToolStatus (tf_status f')) \<and>
      (tf_completedAt f \<noteq> None \<longrightarrow> tf_completedAt f' = tf_completedAt f)" unfolding tool_progress_def .
  moreover have "tf_completedAt f' \<noteq> None \<longleftrightarrow> isTerminalToolStatus (tf_status f')"
    using \<open>tool_wf (ToolItem f')\<close> unfolding tool_wf_def by blast
  ultimately show ?thesis using it f' unfolding item_forward_def by blast
qed

theorem tool_calls_progress_witness:
  "\<exists>s' f'. transcriptAfter [] id stringify ([toolFrame 1 ''failed''] @ [chunkFrame 2 ''b'']) = Some s' \<and>
     ti_variant (ts_items s' ! 0) = ToolItem f' \<and> tf_completedAt f' = Some ''1''"
proof -
  have "map_option (\<lambda>s. (length (ts_items s), case ti_variant (ts_items s ! 0) of ToolItem f \<Rightarrow> tf_completedAt f | _ \<Rightarrow> None,
      processTranscriptEvent [] id stringify s (chunkFrame 2 ''b'') = None))
      (transcriptAfter [] id stringify [toolFrame 1 ''failed'']) = Some (1, Some ''1'', False)" by code_simp
  then obtain s s' where s: "transcriptAfter [] id stringify [toolFrame 1 ''failed''] = Some s" "length (ts_items s) = 1"
    and v: "(case ti_variant (ts_items s ! 0) of ToolItem f \<Rightarrow> tf_completedAt f | _ \<Rightarrow> None) = Some ''1''"
    and s': "processTranscriptEvent [] id stringify s (chunkFrame 2 ''b'') = Some s'" by auto
  obtain f where f: "ti_variant (ts_items s ! 0) = ToolItem f" "tf_completedAt f = Some ''1''"
    using v by (cases "ti_variant (ts_items s ! 0)") simp_all
  have "transcriptAfter [] id stringify ([toolFrame 1 ''failed''] @ [chunkFrame 2 ''b'']) = Some s'"
    unfolding transcriptAfter_snoc using s s' by simp
  then show ?thesis using tool_calls_progress [OF s(1) _ _ f(1), of "[chunkFrame 2 ''b'']" s'] f(2) s(2) by auto
qed

end
