(* ===== verification/TranscriptPermissions.thy ===== *)
theory TranscriptPermissions
  imports TranscriptOrder
begin

text \<open>
  Permission requests and their answers. A request is remembered under its JSON-RPC id until the answer
  with that id arrives; the answer's outcome is written on the item of the request.
\<close>

subsection \<open>Frames about a request\<close>

definition framePayload :: "observer_event \<Rightarrow> (string \<times> jsval) list" where
  "framePayload e = asRecord (Some (oe_payload e))"

definition frameRpcId :: "observer_event \<Rightarrow> string option" where
  "frameRpcId e = jsonRpcId (jfield (framePayload e) ''id'')"

definition requestFrame :: "string \<Rightarrow> observer_event \<Rightarrow> bool" where
  "requestFrame r e \<longleftrightarrow> (oe_kind e = ''acp_read'' \<or> oe_kind e = ''acp_write'') \<and>
     frameMethod e = Some ''session/request_permission'' \<and> frameRpcId e = Some r"

definition responseFrame :: "string \<Rightarrow> observer_event \<Rightarrow> bool" where
  "responseFrame r e \<longleftrightarrow> oe_kind e = ''acp_write'' \<and> \<not> truthy (frameMethod e) \<and> frameRpcId e = Some r"

definition permissionItemId :: "observer_event \<Rightarrow> string" where
  "permissionItemId e = itemKey ''permission'' (channelKey e) (turnOrSeq e)"

definition answerRecord :: "observer_event \<Rightarrow> (string \<times> jsval) list" where
  "answerRecord e = asRecord (jfield (asRecord (jfield (framePayload e) ''result'')) ''outcome'')"

subsection \<open>What keeps the pending requests\<close>

lemma pending_upserts [simp]:
  "ts_pendingPermissions (upsertMessage k r t b ti c a s m d) = ts_pendingPermissions d"
  "ts_pendingPermissions (upsertLifecycleItem k rc t b ti c s ds d) = ts_pendingPermissions d"
  "ts_pendingPermissions (replaceLifecycleItem k rc t b ti c s d) = ts_pendingPermissions d"
  "ts_pendingPermissions (upsertMetadata k t ss ti c s d) = ts_pendingPermissions d"
  "ts_pendingPermissions (upsertPlan k t b ti c s m d) = ts_pendingPermissions d"
  by (simp_all add: upsertMessage_def upsertLifecycleItem_def replaceLifecycleItem_def upsertMetadata_def upsertPlan_def
      split: option.split item_variant.split)

lemma pending_text [simp]: "ts_pendingPermissions (upsertTextItem k v t b ti c s d) = ts_pendingPermissions d"
  by (auto simp: upsertTextItem_def split: option.split item_variant.split text_item.split)

lemma pending_tool [simp]:
  "ts_pendingPermissions (upsertTool k t n bn st as rs err ti c s d) = ts_pendingPermissions d"
  unfolding upsertTool_def Let_def by (auto split: option.split item_variant.split prod.split)

lemma pending_shows [simp]:
  "ts_pendingPermissions (showFreeformStatus e c p d) = ts_pendingPermissions d"
  "ts_pendingPermissions (showPromptSections x y e c pp d) = ts_pendingPermissions d"
  "ts_pendingPermissions (showPrompt e c p d) = ts_pendingPermissions d"
  "ts_pendingPermissions (showSteer e c p d) = ts_pendingPermissions d"
  "ts_pendingPermissions (showSessionNew dash e c p d) = ts_pendingPermissions d"
  "ts_pendingPermissions (showTool u st err e c p d) = ts_pendingPermissions d"
  "ts_pendingPermissions (showUserChunk e c p d) = ts_pendingPermissions d"
  "ts_pendingPermissions (rememberTriggeringEventIds c' t ids d) = ts_pendingPermissions d"
  "ts_pendingPermissions (enterSession e d) = ts_pendingPermissions d"
  by (simp_all add: showFreeformStatus_def showPromptSections_def showPrompt_def showSteer_def showSessionNew_def
      showTool_def showUserChunk_def rememberTriggeringEventIds_def enterSession_def split: option.split)

lemma pending_update:
  "showSessionUpdate fixed4 e c d = Some d' \<Longrightarrow> ts_pendingPermissions d' = ts_pendingPermissions d"
  unfolding showSessionUpdate_def Let_def by (auto split: if_splits option.splits)

lemma pending_request:
  "jget (ts_pendingPermissions (showPermissionRequest e c p d)) r =
     (if truthy (jsonRpcId (jfield p ''id'')) \<and> jsonRpcId (jfield p ''id'') = Some r
      then Some \<lparr>pe_itemId = permissionItemId e, pe_optionNames = pq_optionNames (describePermissionRequest p)\<rparr>
      else jget (ts_pendingPermissions d) r)"
  unfolding showPermissionRequest_def Let_def permissionItemId_def by (auto simp: truthy_def split: option.splits)

lemma pending_response:
  "jsonRpcId (jfield p ''id'') \<noteq> Some r \<Longrightarrow>
     jget (ts_pendingPermissions (showPermissionResponse p d)) r = jget (ts_pendingPermissions d) r"
  unfolding showPermissionResponse_def Let_def by (auto simp: truthy_def split: option.splits)

lemma pending_frame:
  assumes "showFrame dash number fixed4 e c d = Some d'" and "\<not> requestFrame r e" and "\<not> responseFrame r e"
  shows "jget (ts_pendingPermissions d') r = jget (ts_pendingPermissions d) r"
proof (cases "oe_kind e = ''acp_read'' \<or> oe_kind e = ''acp_write''")
  case True
  then have "showAcpFrame dash fixed4 e c d = Some d'" using assms(1) by (auto simp: showFrame_def)
  then show ?thesis using assms(2,3) True pending_update [of fixed4 e c d d']
    unfolding showAcpFrame_def Let_def requestFrame_def responseFrame_def frameMethod_def frameRpcId_def framePayload_def
    by (auto simp: pending_request pending_response split: if_splits)
next
  case False
  then show ?thesis using assms(1) unfolding showFrame_def Let_def by (auto split: if_splits)
qed

lemma draft_pending [simp]: "ts_pendingPermissions (draftFrom s) = ts_pendingPermissions s"
  by (simp add: draftFrom_def transcript_state.defs)

lemma draft_items [simp]:
  "ts_items (enterSession e (draftFrom s)) = ts_items s" "ts_itemsById (enterSession e (draftFrom s)) = ts_itemsById s"
  by (simp_all add: enterSession_def draftFrom_def transcript_state.defs)

lemma process_unfold:
  assumes "processTranscriptEvent dash number fixed4 s e = Some s'"
  obtains d d' where "d = enterSession e (draftFrom s)" "showFrame dash number fixed4 e (eventContext e d) d = Some d'"
    "s' = finishDraft s d'"
  using assms by (auto simp: processTranscriptEvent_def)

lemma process_pending:
  assumes "processTranscriptEvent dash number fixed4 s e = Some s'" and "\<not> requestFrame r e" and "\<not> responseFrame r e"
  shows "jget (ts_pendingPermissions s') r = jget (ts_pendingPermissions s) r"
proof -
  obtain d d' where d: "d = enterSession e (draftFrom s)" "showFrame dash number fixed4 e (eventContext e d) d = Some d'"
    "s' = finishDraft s d'" using process_unfold [OF assms(1)] .
  then show ?thesis using pending_frame [OF d(2) assms(2,3)] by (simp add: finishDraft_def transcript_state.defs)
qed

subsection \<open>A request and its answer\<close>

lemma finish_changed: "td_changed d \<Longrightarrow> finishDraft s d = transcript_state.truncate d"
  by (simp add: finishDraft_def)

lemma upsertLifecycle_item:
  assumes "transcript_wf d"
  shows "key \<in> set (itemIds (upsertLifecycleItem key rc t b ti c s ds d))"
proof (cases "existingLifecycle key d")
  case (Some found)
  then obtain it f where it: "existingLifecycle key d = Some (it, f)" by (cases found) auto
  then have "ti_id it = key" "it \<in> set (ts_items d)"
    using existingLifecycle_SomeD [OF it] assms by (auto simp: transcript_wf_def items_wf_def)
  then have "key \<in> set (itemIds d)" by auto
  moreover have "itemIds (upsertLifecycleItem key rc t b ti c s ds d) = itemIds d"
    using it \<open>ti_id it = key\<close> by (simp add: upsertLifecycleItem_def)
  ultimately show ?thesis by simp
qed (simp add: upsertLifecycleItem_def)

lemma upsertLifecycle_changed [simp]: "td_changed (upsertLifecycleItem key rc t b ti c s ds d)"
  by (simp add: upsertLifecycleItem_def replaceItem_def pushItem_def split: option.split)

lemma request_changed [simp]: "td_changed (showPermissionRequest e c p d)"
  unfolding showPermissionRequest_def Let_def by simp

lemma request_processed:
  assumes "processTranscriptEvent dash number fixed4 s e = Some s'" and "requestFrame r e" and "r \<noteq> []"
    and "transcript_wf s"
  shows "jget (ts_pendingPermissions s') r =
      Some \<lparr>pe_itemId = permissionItemId e, pe_optionNames = pq_optionNames (describePermissionRequest (framePayload e))\<rparr>"
    and "permissionItemId e \<in> set (itemIds s')"
proof -
  obtain d d' where d: "d = enterSession e (draftFrom s)" "showFrame dash number fixed4 e (eventContext e d) d = Some d'"
    "s' = finishDraft s d'" using process_unfold [OF assms(1)] .
  have d': "d' = showPermissionRequest e (eventContext e d) (framePayload e) d"
    using d(2) assms(2) unfolding showFrame_def showAcpFrame_def Let_def requestFrame_def frameMethod_def framePayload_def
    by auto
  have s': "s' = transcript_state.truncate d'" unfolding d(3) by (rule finish_changed) (simp add: d')
  show "jget (ts_pendingPermissions s') r =
      Some \<lparr>pe_itemId = permissionItemId e, pe_optionNames = pq_optionNames (describePermissionRequest (framePayload e))\<rparr>"
    using assms(2,3) by (simp add: s' d' transcript_state.defs pending_request requestFrame_def frameRpcId_def truthy_def)
  have "sameItems s d" by (simp add: d(1) enterSession_def draftFrom_def sameItems_def transcript_state.defs)
  then have "transcript_wf d" using transcript_wf_same assms(4) by blast
  then have "permissionItemId e \<in> set (itemIds d')"
    using upsertLifecycle_item unfolding d' showPermissionRequest_def Let_def permissionItemId_def by simp
  then show "permissionItemId e \<in> set (itemIds s')" by (simp add: s' transcript_state.defs)
qed

lemma replaceFirst_nth:
  "k \<in> ti_id ` set items \<Longrightarrow> \<exists>i<length items. ti_id (items ! i) = k \<and> replaceFirst k u items = items[i := u]"
proof (induction items)
  case (Cons it items)
  show ?case
  proof (cases "ti_id it = k")
    case True
    then show ?thesis by (intro exI [of _ 0]) simp
  next
    case False
    then obtain i where "i < length items" "ti_id (items ! i) = k" "replaceFirst k u items = items[i := u]"
      using Cons by auto
    then show ?thesis using False by (intro exI [of _ "Suc i"]) simp
  qed
qed simp

lemma response_processed:
  assumes "processTranscriptEvent dash number fixed4 s e = Some s'" and "transcript_wf s" and "responseFrame r e" and "r \<noteq> []"
    and "asString (jfield (answerRecord e) ''outcome'') = Some outcome" and "outcome \<noteq> []"
    and "jget (ts_pendingPermissions s) r = Some p" and "pe_itemId p \<in> set (itemIds s)"
    and "keyPrefix (pe_itemId p) = ''permission''"
  shows "\<exists>i f. i < length (ts_items s) \<and> ti_id (ts_items s ! i) = pe_itemId p \<and> ti_variant (ts_items s ! i) = LifecycleItem f \<and>
    ts_items s' = (ts_items s)[i := (ts_items s ! i)\<lparr>ti_variant := LifecycleItem (f\<lparr>lf_outcome :=
      Some (describePermissionOutcome outcome (asString (jfield (answerRecord e) ''optionId'')) (pe_optionNames p))\<rparr>)\<rparr>] \<and>
    jget (ts_pendingPermissions s') r = None"
proof -
  obtain d d' where d: "d = enterSession e (draftFrom s)" "showFrame dash number fixed4 e (eventContext e d) d = Some d'"
    "s' = finishDraft s d'" using process_unfold [OF assms(1)] .
  have d': "d' = showPermissionResponse (framePayload e) d"
    using d(2) assms(3) unfolding showFrame_def showAcpFrame_def Let_def responseFrame_def frameMethod_def framePayload_def
    by (auto simp: truthy_def split: option.splits if_splits)
  obtain it where it: "jget (ts_itemsById s) (pe_itemId p) = Some it" "ti_id it = pe_itemId p" "it \<in> set (ts_items s)"
    using assms(2,8) unfolding transcript_wf_def items_wf_def by fastforce
  then have "itemKind it = KLifecycle" using transcript_kinds [OF assms(2), of it] assms(9) by simp
  then obtain f where f: "ti_variant it = LifecycleItem f" by (auto simp: kindOf_cases)
  define u where "u = it\<lparr>ti_variant := LifecycleItem (f\<lparr>lf_outcome :=
      Some (describePermissionOutcome outcome (asString (jfield (answerRecord e) ''optionId'')) (pe_optionNames p))\<rparr>)\<rparr>"
  have "existingLifecycle (pe_itemId p) d = Some (it, f)" using it(1) f by (simp add: existingLifecycle_def d(1))
  then have d'': "d' = (replaceItem (pe_itemId p) u d)\<lparr>ts_pendingPermissions := jdel (ts_pendingPermissions d) r\<rparr>"
    using assms(3-7) unfolding d' showPermissionResponse_def Let_def responseFrame_def frameRpcId_def answerRecord_def u_def
    by (simp add: truthy_def d(1))
  have s': "s' = transcript_state.truncate d'" unfolding d(3) by (rule finish_changed) (simp add: d'' replaceItem_def)
  obtain i where i: "i < length (ts_items s)" "ti_id (ts_items s ! i) = pe_itemId p"
    "replaceFirst (pe_itemId p) u (ts_items s) = (ts_items s)[i := u]"
    using replaceFirst_nth [of "pe_itemId p" "ts_items s" u] assms(8) by auto
  have "\<not> repeatable (pe_itemId p)" using assms(9) by (simp add: repeatable_def)
  then have "ts_items s ! i = it" using unique_item [of s "ts_items s ! i" it] assms(2) i(1,2) it(2,3)
    by (simp add: transcript_wf_def)
  then show ?thesis using i f by (intro exI [of _ i] exI [of _ f]) (simp add: s' d'' transcript_state.defs d(1) u_def)
qed

lemma pending_until:
  assumes "transcriptAfter dash number fixed4 (es @ es') = Some s" and "transcriptAfter dash number fixed4 es = Some s0"
    and "list_all (\<lambda>e. \<not> requestFrame r e \<and> \<not> responseFrame r e) es'"
  shows "jget (ts_pendingPermissions s) r = jget (ts_pendingPermissions s0) r"
  using assms(1,3)
proof (induction es' arbitrary: s rule: rev_induct)
  case Nil
  then show ?case using assms(2) by simp
next
  case (snoc e es')
  then have "Option.bind (transcriptAfter dash number fixed4 (es @ es')) (\<lambda>t. processTranscriptEvent dash number fixed4 t e) = Some s"
    using transcriptAfter_snoc [of dash number fixed4 "es @ es'" e] by simp
  then obtain t where "transcriptAfter dash number fixed4 (es @ es') = Some t" "processTranscriptEvent dash number fixed4 t e = Some s"
    by (cases "transcriptAfter dash number fixed4 (es @ es')") auto
  then show ?case using snoc.IH snoc.prems(2) process_pending by simp
qed

text \<open>
  The answer to a permission request is recorded on the item of the request with the same JSON-RPC
  id, whatever came in between, and changes nothing else in the feed; the option it names is
  described by the kind under which the request offered it. The request is then no longer pending,
  so a repeated answer changes nothing.
\<close>

theorem permission_outcome_recorded:
  assumes "transcriptAfter dash number fixed4 (es @ [request] @ es') = Some s" and "requestFrame r request" and "r \<noteq> []"
    and "list_all (\<lambda>e. \<not> requestFrame r e \<and> \<not> responseFrame r e) es'"
    and "responseFrame r answer" and "asString (jfield (answerRecord answer) ''outcome'') = Some outcome" and "outcome \<noteq> []"
    and "processTranscriptEvent dash number fixed4 s answer = Some s'"
  shows "\<exists>i f. i < length (ts_items s) \<and> ti_id (ts_items s ! i) = permissionItemId request \<and>
    ti_variant (ts_items s ! i) = LifecycleItem f \<and>
    ts_items s' = (ts_items s)[i := (ts_items s ! i)\<lparr>ti_variant := LifecycleItem (f\<lparr>lf_outcome :=
      Some (describePermissionOutcome outcome (asString (jfield (answerRecord answer) ''optionId''))
        (pq_optionNames (describePermissionRequest (framePayload request))))\<rparr>)\<rparr>] \<and>
    jget (ts_pendingPermissions s') r = None"
proof -
  obtain s1 where s1: "transcriptAfter dash number fixed4 (es @ [request]) = Some s1"
    using transcriptAfter_append [of dash number fixed4 "es @ [request]" es'] assms(1) by auto
  then obtain s0 where s0: "transcriptAfter dash number fixed4 es = Some s0"
    "processTranscriptEvent dash number fixed4 s0 request = Some s1"
    unfolding transcriptAfter_snoc by (cases "transcriptAfter dash number fixed4 es") auto
  note asked = request_processed [OF s0(2) assms(2,3) transcript_wf_after [OF s0(1)]]
  have whole: "transcriptAfter dash number fixed4 ((es @ [request]) @ es') = Some s" using assms(1) by simp
  have "jget (ts_pendingPermissions s) r = Some \<lparr>pe_itemId = permissionItemId request,
      pe_optionNames = pq_optionNames (describePermissionRequest (framePayload request))\<rparr>"
    using pending_until [OF whole s1 assms(4)] asked(1) by simp
  moreover obtain new where "itemIds s = itemIds s1 @ new"
    using transcript_forward [OF s1 whole] by (auto simp: items_forward_def)
  then have "permissionItemId request \<in> set (itemIds s)" using asked(2) by (metis UnI1 set_append)
  moreover have "keyPrefix (permissionItemId request) = ''permission''" by (simp add: permissionItemId_def)
  ultimately show ?thesis
    using response_processed [OF assms(8) transcript_wf_after [OF assms(1)] assms(5,3,6,7)] by simp
qed

text \<open>Two answers: the request offered the option \<open>o1\<close> as a rejection.\<close>

definition askFrame :: observer_event where
  "askFrame = (updateFrame 1 [])\<lparr>oe_payload := JObj [(''method'', JStr ''session/request_permission''), (''id'', JNum 7),
     (''params'', JObj [(''title'', JStr ''Run''), (''options'', JArr [JObj [(''optionId'', JStr ''o1''), (''kind'', JStr ''reject_once'')]])])]\<rparr>"

definition answerFrame :: observer_event where
  "answerFrame = (updateFrame 3 [])\<lparr>oe_kind := ''acp_write'', oe_payload := JObj [(''id'', JNum 7),
     (''result'', JObj [(''outcome'', JObj [(''outcome'', JStr ''selected''), (''optionId'', JStr ''o1'')])])]\<rparr>"

theorem permission_outcome_recorded_witness:
  "\<exists>s s' i f. transcriptAfter [] id stringify ([] @ [askFrame] @ [thoughtFrame 2]) = Some s \<and>
     processTranscriptEvent [] id stringify s answerFrame = Some s' \<and>
     ts_items s' = (ts_items s)[i := (ts_items s ! i)\<lparr>ti_variant := LifecycleItem (f\<lparr>lf_outcome := Some ''Denied (reject_once)''\<rparr>)\<rparr>]"
proof -
  have "map_option (\<lambda>s. processTranscriptEvent [] id stringify s answerFrame = None)
      (transcriptAfter [] id stringify ([] @ [askFrame] @ [thoughtFrame 2])) = Some False" by code_simp
  then obtain s s' where s: "transcriptAfter [] id stringify ([] @ [askFrame] @ [thoughtFrame 2]) = Some s"
    "processTranscriptEvent [] id stringify s answerFrame = Some s'" by auto
  have frames: "requestFrame ''7'' askFrame" "''7'' \<noteq> []"
    "list_all (\<lambda>e. \<not> requestFrame ''7'' e \<and> \<not> responseFrame ''7'' e) [thoughtFrame 2]" "responseFrame ''7'' answerFrame"
    "asString (jfield (answerRecord answerFrame) ''outcome'') = Some ''selected''" "''selected'' \<noteq> []"
    by code_simp+
  have "describePermissionOutcome ''selected'' (asString (jfield (answerRecord answerFrame) ''optionId''))
      (pq_optionNames (describePermissionRequest (framePayload askFrame))) = ''Denied (reject_once)''" by code_simp
  then show ?thesis using permission_outcome_recorded [OF s(1) frames s(2)] s by auto
qed

end
