(* ===== verification/TranscriptText.thy ===== *)
theory TranscriptText
  imports TranscriptOrder
begin

text \<open>
  No text is lost: the segments of a message, in the order of the feed, spell the chunks of the message
  in the order of their frames; and the identifiers of the items are distinct, so that the index
  \<open>itemsById\<close> and the list \<open>items\<close> agree. Both hold for identifiers without colons, with which the
  keys of the transcript are built.
\<close>

subsection \<open>Keys\<close>

abbreviation colon :: char where "colon \<equiv> CHR '':''"

definition colon_free :: "string \<Rightarrow> bool" where
  "colon_free s \<longleftrightarrow> colon \<notin> set s"

definition shaped :: "string \<Rightarrow> bool" where
  "shaped key \<longleftrightarrow> (\<exists>p ch k. key = itemKey p ch k \<and> colon_free p \<and> colon_free ch \<and> colon_free k)"

lemma shaped_itemKey: "colon_free p \<Longrightarrow> colon_free ch \<Longrightarrow> colon_free k \<Longrightarrow> shaped (itemKey p ch k)"
  unfolding shaped_def by blast

definition segmentOf :: "string \<Rightarrow> string \<Rightarrow> bool" where
  "segmentOf key k = (k = key \<or> startsWith k (key @ '':c''))"

definition opt_colon_free :: "string option \<Rightarrow> bool" where
  "opt_colon_free x = (case x of None \<Rightarrow> True | Some s \<Rightarrow> colon_free s)"

definition plain_frame :: "observer_event \<Rightarrow> bool" where
  "plain_frame e \<longleftrightarrow> opt_colon_free (oe_channelId e) \<and> opt_colon_free (oe_turnId e) \<and> opt_colon_free (oe_sessionId e) \<and>
     opt_colon_free (asString (jfield (frameUpdate e) ''messageId''))"

lemma colon_free_show_nat [simp]: "colon_free (show_nat n)"
  using show_nat_digits [of n] by (force simp: colon_free_def is_digit_def)

lemma colon_free_show_int [simp]: "colon_free (show_int i)"
  using colon_free_show_nat unfolding colon_free_def show_int_def by auto

lemma show_nat_inject: "show_nat m = show_nat n \<longleftrightarrow> m = n"
  by (metis nat_of_digits_show_nat)

lemma show_int_inject: "show_int i = show_int j \<longleftrightarrow> i = j"
proof -
  have "is_digit (hd (show_nat n))" for n
    using show_nat_digits [of n] hd_in_set [OF show_nat_nonempty] by blast
  moreover have "\<not> is_digit CHR ''-''" by (simp add: is_digit_def)
  ultimately have "hd (show_nat n) \<noteq> CHR ''-''" for n by metis
  then have "show_nat m \<noteq> CHR ''-'' # cs" for m cs by (metis list.sel(1))
  then show ?thesis unfolding show_int_def by (auto simp: show_nat_inject) (metis)
qed

lemma last_colon_inject:
  assumes "a @ colon # u = b @ colon # v" and "colon_free u" and "colon_free v"
  shows "a = b \<and> u = v"
proof -
  have "rev (a @ colon # u) = rev (b @ colon # v)" using assms(1) by simp
  then have eq: "rev u @ colon # rev a = rev v @ colon # rev b" by simp
  have "takeWhile (\<lambda>c. c \<noteq> colon) (rev w @ colon # r) = rev w" if "colon_free w" for w r
    using that by (simp add: colon_free_def takeWhile_tail takeWhile_eq_all_conv takeWhile_append)
  then have "rev u = rev v" using eq assms(2,3) by metis
  then show ?thesis using eq by simp
qed

definition colons :: "string \<Rightarrow> nat" where
  "colons s = length (filter (\<lambda>c. c = colon) s)"

lemma colons_append [simp]: "colons (a @ b) = colons a + colons b"
  by (simp add: colons_def)

lemma colons_Cons [simp]: "colons (c # s) = (if c = colon then Suc (colons s) else colons s)"
  by (simp add: colons_def)

lemma colons_0: "colons s = 0 \<longleftrightarrow> colon_free s"
  by (auto simp: colons_def colon_free_def filter_empty_conv)

lemma colons_shaped: "shaped key \<Longrightarrow> colons key = 2"
  by (auto simp: shaped_def itemKey_def colons_0 [symmetric])

lemma segment_shaped:
  assumes "shaped key" and "shaped key'"
  shows "segmentOf key key' \<longleftrightarrow> key' = key"
    and "segmentOf key (key' @ '':c'' @ show_nat n) \<longleftrightarrow> key' = key"
proof -
  have "\<not> startsWith key' (key @ '':c'')"
    using colons_shaped [OF assms(1)] colons_shaped [OF assms(2)] by (auto simp: startsWith_iff)
  then show "segmentOf key key' \<longleftrightarrow> key' = key" by (auto simp: segmentOf_def)
  have "key' = key" if rest: "key' @ '':c'' @ show_nat n = (key @ '':c'') @ r" for r
  proof -
    have "colons (key' @ '':c'' @ show_nat n) = colons ((key @ '':c'') @ r)" using rest by simp
    then have "colons r = 0"
      using colons_shaped [OF assms(1)] colons_shaped [OF assms(2)] colons_0 [of "show_nat n"] by simp
    then have "colon_free (CHR ''c'' # r)" "colon_free (CHR ''c'' # show_nat n)"
      by (simp_all add: colons_0 [symmetric]) (simp add: colons_0)
    then show ?thesis using last_colon_inject [of key' "CHR ''c'' # show_nat n" key "CHR ''c'' # r"] rest by simp
  qed
  moreover have "key' @ '':c'' @ show_nat n \<noteq> key"
    using colons_shaped [OF assms(1)] colons_shaped [OF assms(2)] by auto
  ultimately show "segmentOf key (key' @ '':c'' @ show_nat n) \<longleftrightarrow> key' = key"
    by (auto simp: segmentOf_def startsWith_iff)
qed

lemma segmentOf_prefix: "colon \<in> set key \<Longrightarrow> segmentOf key k \<Longrightarrow> keyPrefix k = keyPrefix key"
  by (auto simp: segmentOf_def startsWith_iff keyPrefix_continued)

lemma shaped_colon: "shaped key \<Longrightarrow> colon \<in> set key"
  by (auto simp: shaped_def)

lemma colon_free_simps [simp]: "colon_free ''global''" "colon_free ''unknown''"
  by (simp_all add: colon_free_def)

lemma plain_frame_parts:
  assumes "plain_frame e"
  shows "colon_free (channelKey e)" and "colon_free (turnOrSeq e)" and "colon_free (messageKey e)"
  using assms by (auto simp: plain_frame_def opt_colon_free_def channelKey_def turnOrSeq_def messageKey_def updateKey_def
      orElse_def split: option.splits)

definition label_ok :: "move_label \<Rightarrow> bool" where
  "label_ok l = (case l of Chunk key _ \<Rightarrow> shaped key \<and> keyKind key = KMessage | Marker m \<Rightarrow> keyPrefix m = ''plan-update'')"

lemma frameLabels_ok: "frameLabels e ls \<Longrightarrow> plain_frame e \<Longrightarrow> list_all label_ok ls"
proof (induction rule: frameLabels.induct)
  case (agent event)
  have "shaped (agentChunkKey event)"
    unfolding agentChunkKey_def using plain_frame_parts [OF agent.prems] by (intro shaped_itemKey) (simp_all add: colon_free_def)
  then show ?case by (simp add: label_ok_def agentChunkKey_def)
next
  case (user event p k body)
  moreover have "shaped (itemKey p (channelKey event) k)"
    using user plain_frame_parts [OF user.prems] by (intro shaped_itemKey) (auto simp: colon_free_def)
  ultimately show ?case by (auto simp: label_ok_def)
next
  case (marker event)
  show ?case by (simp add: label_ok_def planMarkerId_def keyPrefix_append)
qed simp

subsection \<open>Messages and their segments\<close>

definition isMessageId :: "string \<Rightarrow> bool" where
  "isMessageId k \<longleftrightarrow> keyKind k = KMessage"

definition message_wf :: "'a transcript_state_scheme \<Rightarrow> bool" where
  "message_wf s \<longleftrightarrow>
     (\<forall>k ck. jget (ts_activeMessageKey s) k = Some ck \<longrightarrow> shaped k \<and> isMessageId k \<and>
        (ck = k \<or> (\<exists>n. ck = k @ '':c'' @ show_nat n)) \<and> (\<exists>pre. filter (segmentOf k) (itemIds s) = pre @ [ck])) \<and>
     (\<forall>x\<in>set (itemIds s). isMessageId x \<longrightarrow> (\<exists>k. jget (ts_activeMessageKey s) k \<noteq> None \<and>
        (x = k \<or> (\<exists>n\<le>ts_continuationSeq s. x = k @ '':c'' @ show_nat n)))) \<and>
     distinct (filter isMessageId (itemIds s))"

lemma message_wf_same: "sameItems s s' \<Longrightarrow> message_wf s' \<longleftrightarrow> message_wf s"
  by (simp add: message_wf_def sameItems_def)

lemma message_wf_empty: "message_wf createEmptyTranscriptState"
  by (simp add: message_wf_def createEmptyTranscriptState_def)

fun itemText :: "transcript_item \<Rightarrow> string" where
  "itemText it = (case ti_variant it of MessageItem m \<Rightarrow> mf_text m | _ \<Rightarrow> [])"

definition messageText :: "string \<Rightarrow> transcript_item list \<Rightarrow> string" where
  "messageText key items = concat (map itemText (filter (\<lambda>it. segmentOf key (ti_id it)) items))"

fun labelText :: "string \<Rightarrow> move_label \<Rightarrow> string" where
  "labelText key (Chunk k body) = (if k = key then body else [])"
| "labelText key (Marker m) = []"

lemma message_wf_ids:
  assumes "message_wf d" and "itemIds d' = itemIds d" and "ts_activeMessageKey d' = ts_activeMessageKey d"
    and "ts_continuationSeq d' = ts_continuationSeq d"
  shows "message_wf d'"
  using assms unfolding message_wf_def by simp

lemma message_wf_push:
  assumes "message_wf d" and "ts_items d' = ts_items d @ [it]" and "\<not> isMessageId (ti_id it)"
    and "ts_activeMessageKey d' = ts_activeMessageKey d" and "ts_continuationSeq d' = ts_continuationSeq d"
  shows "message_wf d'"
proof -
  have "\<not> segmentOf k (ti_id it)" if "shaped k" "isMessageId k" for k
    using segmentOf_prefix [OF shaped_colon [OF that(1)], of "ti_id it"] that(2) assms(3) by (auto simp: isMessageId_def)
  then show ?thesis using assms unfolding message_wf_def by auto
qed

lemma filter_replaceFirst:
  assumes "ti_id u = k"
  shows "filter (\<lambda>it. P (ti_id it)) (replaceFirst k u items) =
    (if P k then replaceFirst k u (filter (\<lambda>it. P (ti_id it)) items) else filter (\<lambda>it. P (ti_id it)) items)"
  using assms by (induction items) auto

lemma replaceFirst_last: "k \<notin> ti_id ` set xs \<Longrightarrow> ti_id x = k \<Longrightarrow> replaceFirst k u (xs @ [x]) = xs @ [u]"
  by (induction xs) auto

lemma replaceFirst_text:
  "(\<And>x. x \<in> set items \<Longrightarrow> ti_id x = k \<Longrightarrow> itemText x = itemText u) \<Longrightarrow>
     map itemText (replaceFirst k u items) = map itemText items"
  by (induction items) auto

lemma messageText_replace:
  assumes "ti_id u = k" and "\<And>x. x \<in> set items \<Longrightarrow> ti_id x = k \<Longrightarrow> itemText x = itemText u"
  shows "messageText key (replaceFirst k u items) = messageText key items"
  using assms replaceFirst_text [of "filter (\<lambda>it. segmentOf key (ti_id it)) items" k u]
  unfolding messageText_def filter_replaceFirst [OF assms(1), of "segmentOf key"] by (auto simp del: itemText.simps)

lemma messageText_push:
  "messageText key (items @ [it]) = messageText key items @ (if segmentOf key (ti_id it) then itemText it else [])"
  by (simp add: messageText_def)

text \<open>A chunk on an open message extends its last segment.\<close>

lemma messageText_open:
  assumes "filter (segmentOf key) (map ti_id items) = pre @ [ck]" and "ck \<notin> set pre" and "segmentOf key ck"
    and "ti_id u = ck" and "\<And>x. x \<in> set items \<Longrightarrow> ti_id x = ck \<Longrightarrow> itemText u = itemText x @ body"
  shows "messageText key (replaceFirst ck u items) = messageText key items @ body"
proof -
  let ?seg = "filter (\<lambda>it. segmentOf key (ti_id it)) items"
  have "map ti_id ?seg = pre @ [ck]" using assms(1) by (simp add: filter_map comp_def)
  then obtain xs x where x: "?seg = xs @ [x]" "map ti_id xs = pre" "ti_id x = ck"
    by (auto simp: map_eq_append_conv)
  then have "replaceFirst ck u ?seg = xs @ [u]" using replaceFirst_last [of ck xs x u] assms(2) by auto
  moreover have "x \<in> set items" using x(1) by (metis filter_is_subset in_set_conv_decomp subsetD)
  then have "itemText u = itemText x @ body" using assms(5) x(3) by blast
  ultimately show ?thesis using x(1) assms(3,4)
    unfolding messageText_def filter_replaceFirst [OF assms(4), of "segmentOf key"] by (simp del: itemText.simps)
qed

lemma segments_distinct:
  assumes "message_wf d" and "shaped key" and "isMessageId key"
  shows "distinct (filter (segmentOf key) (itemIds d))"
proof -
  have "filter (segmentOf key) (itemIds d) = filter (segmentOf key) (filter isMessageId (itemIds d))"
    using segmentOf_prefix [OF shaped_colon [OF assms(2)]] assms(3) by (auto simp: isMessageId_def intro!: filter_cong)
  then show ?thesis using assms(1) by (metis message_wf_def distinct_filter)
qed

lemma message_unique:
  assumes "message_wf d" and "x \<in> set (ts_items d)" "y \<in> set (ts_items d)" and "ti_id x = ti_id y" "isMessageId (ti_id y)"
  shows "x = y"
proof -
  have "distinct (map ti_id (filter (\<lambda>it. isMessageId (ti_id it)) (ts_items d)))"
    using assms(1) by (simp add: message_wf_def filter_map comp_def)
  then show ?thesis using assms(2-5) by (auto simp: distinct_map inj_on_def)
qed

lemma say_open:
  assumes wf: "transcript_wf d" "message_wf d" and o: "openMessage key d = Some (ck, old, m)"
    and new: "ti_id it' = ti_id old" "ti_variant it' = MessageItem m'" "mf_text m' = mf_text m @ body" and K: "shaped K"
  shows "message_wf (replaceItem ck it' d) \<and>
    messageText K (ts_items (replaceItem ck it' d)) = messageText K (ts_items d) @ (if key = K then body else [])"
proof -
  note od = openMessage_SomeD [OF o]
  have old: "ti_id old = ck" "old \<in> set (ts_items d)" using od wf(1) by (auto simp: transcript_wf_def items_wf_def)
  have key: "shaped key" "isMessageId key" "ck = key \<or> (\<exists>n. ck = key @ '':c'' @ show_nat n)"
    using od wf(2) by (auto simp: message_wf_def)
  obtain pre where pre: "filter (segmentOf key) (itemIds d) = pre @ [ck]" using od wf(2) by (auto simp: message_wf_def)
  have it': "ti_id it' = ck" using new(1) old(1) by simp
  have "message_wf (replaceItem ck it' d)" by (rule message_wf_ids [OF wf(2)]) (simp_all add: it')
  moreover have "messageText K (replaceFirst ck it' (ts_items d)) = messageText K (ts_items d) @ (if key = K then body else [])"
  proof (cases "key = K")
    case True
    have "ck \<notin> set pre" using segments_distinct [OF wf(2) key(1,2)] pre by simp
    moreover have "ck \<in> set (filter (segmentOf key) (itemIds d))" unfolding pre by simp
    then have "segmentOf key ck" by simp
    moreover have "isMessageId ck" using od wf(1) by (auto simp: transcript_wf_def active_wf_def isMessageId_def)
    then have "itemText it' = itemText x @ body" if "x \<in> set (ts_items d)" "ti_id x = ck" for x
      using message_unique [OF wf(2) that(1) old(2)] that(2) old(1) od new(2,3) by auto
    ultimately show ?thesis using messageText_open [OF pre _ _ it'] True by simp
  next
    case False
    then have "\<not> segmentOf K ck" using key(3) segment_shaped [OF K key(1)] by auto
    then show ?thesis using False unfolding messageText_def filter_replaceFirst [OF it', of "segmentOf K"] by simp
  qed
  ultimately show ?thesis by simp
qed

lemma continuedKey_cases:
  assumes "transcript_wf d"
  shows "continuedKey key d = (if jget (ts_activeMessageKey d) key = None then key
    else key @ '':c'' @ show_nat (Suc (ts_continuationSeq d)))"
  using assms by (auto simp: continuedKey_def truthy_def transcript_wf_def active_wf_def split: option.splits)

lemma continuedKey_fresh:
  assumes wf: "transcript_wf d" "message_wf d" and key: "shaped key"
  shows "isMessageId (continuedKey key d) \<Longrightarrow> continuedKey key d \<notin> set (itemIds d)"
proof
  assume m: "isMessageId (continuedKey key d)" and "continuedKey key d \<in> set (itemIds d)"
  then obtain k where k: "jget (ts_activeMessageKey d) k \<noteq> None"
    "continuedKey key d = k \<or> (\<exists>n\<le>ts_continuationSeq d. continuedKey key d = k @ '':c'' @ show_nat n)"
    using wf(2) unfolding message_wf_def by blast
  have "shaped k" using k(1) wf(2) unfolding message_wf_def by blast
  note seg = segment_shaped [OF key \<open>shaped k\<close>] segment_shaped [OF \<open>shaped k\<close> key]
  have two: "colons key = 2" "colons k = 2" using colons_shaped key \<open>shaped k\<close> by auto
  show False
  proof (cases "jget (ts_activeMessageKey d) key = None")
    case True
    then have "key = k \<or> (\<exists>n. key = k @ '':c'' @ show_nat n)" using k(2) continuedKey_cases [OF wf(1), of key] by auto
    then show False using True k(1) two by auto
  next
    case False
    then have c: "continuedKey key d = key @ '':c'' @ show_nat (Suc (ts_continuationSeq d))"
      using continuedKey_cases [OF wf(1), of key] by simp
    then obtain n where "n \<le> ts_continuationSeq d"
      "key @ '':c'' @ show_nat (Suc (ts_continuationSeq d)) = k @ '':c'' @ show_nat n"
      using k(2) two by auto
    moreover have "colon_free (CHR ''c'' # show_nat n)" for n by (simp add: colons_0 [symmetric]) (simp add: colons_0)
    ultimately have "show_nat (Suc (ts_continuationSeq d)) = show_nat n"
      using last_colon_inject [of key "CHR ''c'' # show_nat (Suc (ts_continuationSeq d))" k "CHR ''c'' # show_nat n"] by simp
    then show False using \<open>n \<le> ts_continuationSeq d\<close> by (simp add: show_nat_inject)
  qed
qed

lemma segmentOf_continued:
  assumes "transcript_wf d" and "shaped key" and "shaped K"
  shows "segmentOf K (continuedKey key d) \<longleftrightarrow> key = K"
  using continuedKey_cases [OF assms(1), of key] segment_shaped [OF assms(3,2)] by auto

lemma say_new:
  assumes wf: "transcript_wf d" "message_wf d" and key: "shaped key" "isMessageId key"
    and it: "ti_id it = continuedKey key d" "ts_items d' = ts_items d @ [it]"
    and d': "ts_activeMessageKey d' = jset (ts_activeMessageKey d) key (ti_id it)"
      "ts_continuationSeq d' = Suc (ts_continuationSeq d)"
  shows "message_wf d'"
proof -
  have msg: "isMessageId (ti_id it)"
    using keyKind_continued key shaped_colon [OF key(1)] unfolding it(1) isMessageId_def by blast
  have fresh: "ti_id it \<notin> set (itemIds d)" using continuedKey_fresh [OF wf key(1)] msg it(1) by simp
  have own: "ti_id it = key \<or> (\<exists>n. ti_id it = key @ '':c'' @ show_nat n)"
    using continuedKey_cases [OF wf(1), of key] it(1) by auto
  have ids: "itemIds d' = itemIds d @ [ti_id it]" using it(2) by simp
  have "shaped k \<and> isMessageId k \<and> (ck = k \<or> (\<exists>n. ck = k @ '':c'' @ show_nat n)) \<and>
      (\<exists>pre. filter (segmentOf k) (itemIds d') = pre @ [ck])"
    if "jget (ts_activeMessageKey d') k = Some ck" for k ck
  proof (cases "k = key")
    case True
    then show ?thesis using that key own d'(1) segmentOf_continued [OF wf(1) key(1) key(1)] it(1) unfolding ids by simp
  next
    case False
    then have "shaped k \<and> isMessageId k \<and> (ck = k \<or> (\<exists>n. ck = k @ '':c'' @ show_nat n)) \<and>
      (\<exists>pre. filter (segmentOf k) (itemIds d) = pre @ [ck])" using that d'(1) wf(2) by (simp add: message_wf_def)
    then show ?thesis using False segmentOf_continued [OF wf(1) key(1)] it(1) unfolding ids by auto
  qed
  moreover have "\<exists>k. jget (ts_activeMessageKey d') k \<noteq> None \<and>
      (x = k \<or> (\<exists>n\<le>ts_continuationSeq d'. x = k @ '':c'' @ show_nat n))"
    if x: "x \<in> set (itemIds d')" "isMessageId x" for x
  proof (cases "x = ti_id it")
    case True
    then show ?thesis using continuedKey_cases [OF wf(1), of key] it(1) d' by (intro exI [of _ key]) auto
  next
    case False
    then have "x \<in> set (itemIds d)" using x(1) unfolding ids by auto
    then obtain k n where "jget (ts_activeMessageKey d) k \<noteq> None"
      "x = k \<or> (n \<le> ts_continuationSeq d \<and> x = k @ '':c'' @ show_nat n)"
      using x(2) wf(2) unfolding message_wf_def by blast
    then show ?thesis using d' by (intro exI [of _ k]) (auto intro: le_SucI)
  qed
  moreover have "distinct (filter isMessageId (itemIds d'))" using wf(2) fresh unfolding ids by (simp add: message_wf_def)
  ultimately show ?thesis unfolding message_wf_def by blast
qed

lemma say_text:
  assumes wf: "transcript_wf d" "message_wf d" and key: "shaped key" "isMessageId key" and K: "shaped K"
    and d'_def: "d' = upsertMessage key role title body time ctx author source mid d"
  shows "message_wf d' \<and> messageText K (ts_items d') = messageText K (ts_items d) @ (if key = K then body else [])"
proof (cases "openMessage key d")
  case None
  obtain it where it: "ti_id it = continuedKey key d"
    "ti_variant it = MessageItem \<lparr>mf_role = role, mf_text = body, mf_messageId = mid, mf_authorPubkey = author\<rparr>"
    "ts_items d' = ts_items d @ [it]" "ts_activeMessageKey d' = jset (ts_activeMessageKey d) key (ti_id it)"
    "ts_continuationSeq d' = Suc (ts_continuationSeq d)"
    unfolding d'_def using upsertMessage_new [OF None] by metis
  then show ?thesis using say_new [OF wf key it(1,3,4,5)] segmentOf_continued [OF wf(1) key(1) K]
    by (simp add: messageText_push)
next
  case (Some found)
  then obtain ck old m where o: "openMessage key d = Some (ck, old, m)" by (cases found) auto
  obtain it' m' where "d' = replaceItem ck it' d" "ti_id it' = ti_id old" "ti_variant it' = MessageItem m'"
    "mf_text m' = mf_text m @ body"
    unfolding d'_def using upsertMessage_open [OF o] by metis
  then show ?thesis using say_open [OF wf o _ _ _ K] by simp
qed

lemma itemText_other: "itemKind it \<noteq> KMessage \<Longrightarrow> itemText it = []"
  by (cases "ti_variant it") auto

lemma moves_text:
  "moves d ls d' \<Longrightarrow> transcript_wf d \<Longrightarrow> message_wf d \<Longrightarrow> list_all label_ok ls \<Longrightarrow> shaped K \<Longrightarrow>
     message_wf d' \<and> messageText K (ts_items d') = messageText K (ts_items d) @ concat (map (labelText K) ls)"
proof (induction rule: moves.induct)
  case (stay d d')
  then show ?case using message_wf_same [of d d'] by (simp add: sameItems_def)
next
  case (change d key it it')
  have it: "ti_id it = key" "itemKind it = keyKind key"
    using change.prems(1) change.hyps(1) by (auto simp: transcript_wf_def items_wf_def)
  have kinds: "itemKind it' = itemKind it" "itemKind it \<noteq> KMessage"
    using change.hyps(4) unfolding evolves_def by blast+
  have "itemText x = itemText it'" if "x \<in> set (ts_items d)" "ti_id x = key" for x
    using transcript_kinds [OF change.prems(1) that(1)] that(2) it(2) kinds itemText_other by metis
  then show ?case using it(1) change.hyps(2) messageText_replace [of it' key "ts_items d" K]
      message_wf_ids [OF change.prems(2), of "replaceItem key it' d"] by simp
next
  case (add it d)
  have "\<not> isMessageId (ti_id it)" using add.hyps(1,2) by (simp add: isMessageId_def)
  then show ?case using message_wf_push [OF add.prems(2), of "pushItem it (sealOpenMessages d)" it] add.hyps(2)
    by (simp add: messageText_push itemText_other del: itemText.simps)
next
  case (mark it d)
  have "\<not> isMessageId (ti_id it)" using mark.hyps by (simp add: isMessageId_def isMarker_def)
  then show ?case using message_wf_push [OF mark.prems(2), of "pushItem it d" it] mark.hyps(1)
    by (simp add: messageText_push itemText_other del: itemText.simps)
next
  case (say key d body role title time ctx author source messageId)
  have "shaped key" "isMessageId key" using say.prems(3) by (simp_all add: label_ok_def isMessageId_def)
  then show ?case using say_text [OF say.prems(1,2) _ _ say.prems(4) refl] by simp
next
  case (both d ls d1 ls' d2)
  then show ?case using transcript_wf_moves by simp
qed

lemma labels_text:
  assumes "frameLabels e ls" and "plain_frame e" and "colon_free ch" and "colon_free m"
  defines "K \<equiv> itemKey ''assistant'' ch m"
  shows "concat (map (labelText K) ls) =
    (if isUpdateFrame ''agent_message_chunk'' e \<and> agentChunkKey e = K then chunkText e else [])"
  using assms(1)
proof cases
  case (user p k body)
  have "keyPrefix (itemKey p (channelKey e) k) = p" "keyPrefix K = ''assistant''" using user(3) by (auto simp: K_def)
  then have "itemKey p (channelKey e) k \<noteq> K" using user(3) by auto
  then show ?thesis using user by simp
qed auto

lemma transcript_text:
  assumes "transcriptAfter dash number fixed4 es = Some s" and "list_all plain_frame es" and "colon_free ch" and "colon_free m"
  defines "K \<equiv> itemKey ''assistant'' ch m"
  shows "message_wf s \<and> messageText K (ts_items s) =
    concat (map chunkText (filter (\<lambda>e. isUpdateFrame ''agent_message_chunk'' e \<and> agentChunkKey e = K) es))"
  using assms(1,2)
proof (induction rule: transcript_induct)
  case Empty
  show ?case using message_wf_empty by (simp add: messageText_def) (simp add: createEmptyTranscriptState_def)
next
  case (Frame es e s d ls d' s')
  have K: "shaped K" unfolding K_def using assms(3,4) by (intro shaped_itemKey) (simp_all add: colon_free_def)
  have plain: "plain_frame e" "list_all plain_frame es" using Frame.prems by simp_all
  have "transcript_wf d" "message_wf d" using Frame.hyps(1,2) Frame.IH [OF plain(2)] transcript_wf_after transcript_wf_same
      message_wf_same by blast+
  then have "message_wf d' \<and> messageText K (ts_items d') = messageText K (ts_items d) @ concat (map (labelText K) ls)"
    using moves_text [OF Frame.hyps(3)] frameLabels_ok [OF Frame.hyps(4) plain(1)] K by blast
  moreover have "ts_items d = ts_items s" "ts_items s' = ts_items d'" using Frame.hyps(2,5) by (simp_all add: sameItems_def)
  moreover have "message_wf s' = message_wf d'" by (rule message_wf_same [OF Frame.hyps(5)])
  ultimately show ?case using Frame.IH [OF plain(2)] labels_text [OF Frame.hyps(4) plain(1) assms(3,4)]
    unfolding K_def by simp
qed

text \<open>
  C3. No text of an agent's message is lost, duplicated or reordered: the segments of the message, in
  the order of the feed, concatenate to the chunks of the message in the order of their frames,
  whatever other frames (tool calls, thoughts, prompts, other messages) are in between.
\<close>

theorem message_text_complete:
  assumes "buildTranscript dash number fixed4 es = Some items" and "list_all plain_frame es"
    and "colon_free ch" and "colon_free m"
  shows "concat (map itemText (filter (\<lambda>it. segmentOf (itemKey ''assistant'' ch m) (ti_id it)) items)) =
    concat (map chunkText (filter (\<lambda>e. isUpdateFrame ''agent_message_chunk'' e \<and> channelKey e = ch \<and> messageKey e = m) es))"
proof -
  obtain s where s: "transcriptAfter dash number fixed4 es = Some s" "items = ts_items s"
    using assms(1) by (auto simp: buildTranscript_def)
  have "agentChunkKey e = itemKey ''assistant'' ch m \<longleftrightarrow> channelKey e = ch \<and> messageKey e = m" if "e \<in> set es" for e
  proof -
    have "plain_frame e" using that assms(2) by (simp add: list_all_iff)
    then show ?thesis using last_colon_inject [of "''assistant:'' @ channelKey e" "messageKey e" "''assistant:'' @ ch" m]
        plain_frame_parts [of e] assms(4) by (auto simp: agentChunkKey_def itemKey_def)
  qed
  then have "filter (\<lambda>e. isUpdateFrame ''agent_message_chunk'' e \<and> agentChunkKey e = itemKey ''assistant'' ch m) es =
      filter (\<lambda>e. isUpdateFrame ''agent_message_chunk'' e \<and> channelKey e = ch \<and> messageKey e = m) es"
    by (intro filter_cong) auto
  then show ?thesis using transcript_text [OF s(1) assms(2-4)] unfolding messageText_def s(2) by simp
qed

theorem message_text_complete_witness:
  "concat (map itemText (filter (\<lambda>it. segmentOf (itemKey ''assistant'' ''c'' ''t'') (ti_id it))
     (the (buildTranscript [] id stringify [chunkFrame 1 ''a'', thoughtFrame 2, chunkFrame 3 ''b''])))) = ''ab''"
proof -
  have "buildTranscript [] id stringify [chunkFrame 1 ''a'', thoughtFrame 2, chunkFrame 3 ''b''] \<noteq> None" by code_simp
  then obtain items where "buildTranscript [] id stringify [chunkFrame 1 ''a'', thoughtFrame 2, chunkFrame 3 ''b''] = Some items"
    by blast
  moreover have "list_all plain_frame [chunkFrame 1 ''a'', thoughtFrame 2, chunkFrame 3 ''b'']" "colon_free ''c''" "colon_free ''t''"
    by code_simp+
  moreover have "concat (map chunkText (filter (\<lambda>e. isUpdateFrame ''agent_message_chunk'' e \<and> channelKey e = ''c'' \<and> messageKey e = ''t'')
      [chunkFrame 1 ''a'', thoughtFrame 2, chunkFrame 3 ''b''])) = ''ab''" by code_simp
  ultimately show ?thesis
    using message_text_complete [of "[]" id stringify "[chunkFrame 1 ''a'', thoughtFrame 2, chunkFrame 3 ''b'']" items "''c''" "''t''"]
    by (simp del: itemText.simps)
qed

subsection \<open>Distinct identifiers\<close>

abbreviation isMarkerId :: "string \<Rightarrow> bool" where
  "isMarkerId k \<equiv> keyPrefix k = ''plan-update''"

fun markerIds :: "move_label list \<Rightarrow> string list" where
  "markerIds [] = []"
| "markerIds (Chunk k b # ls) = markerIds ls"
| "markerIds (Marker m # ls) = m # markerIds ls"

lemma markerIds_append [simp]: "markerIds (ls @ ls') = markerIds ls @ markerIds ls'"
  by (induction ls rule: markerIds.induct) auto

lemma moves_markers:
  "moves d ls d' \<Longrightarrow> transcript_wf d \<Longrightarrow> filter isMarkerId (itemIds d') = filter isMarkerId (itemIds d) @ markerIds ls"
proof (induction rule: moves.induct)
  case (stay d d')
  then show ?case by (simp add: sameItems_def)
next
  case (change d key it it')
  have "ti_id it' = key" using change.prems change.hyps(1,2) by (auto simp: transcript_wf_def items_wf_def)
  then show ?case by simp
next
  case (say key d body role title time ctx author source messageId)
  show ?case
  proof (cases "openMessage key d")
    case None
    have "\<not> isMarkerId (continuedKey key d)" using keyKind_continued [OF say.hyps, of d] prefixKind_message by blast
    then show ?thesis using upsertMessage_new [OF None, of role title body time ctx author source messageId] by force
  next
    case (Some found)
    then obtain ck old m where o: "openMessage key d = Some (ck, old, m)" by (cases found) auto
    have "ti_id old = ck" using openMessage_SomeD [OF o] say.prems by (auto simp: transcript_wf_def items_wf_def)
    then show ?thesis using upsertMessage_open [OF o, of role title body time ctx author source messageId] by force
  qed
next
  case (both d ls d1 ls' d2)
  then show ?case using transcript_wf_moves by simp
qed (auto simp: isMarker_def)

lemma planMarkerId_seq: "planMarkerId e = planMarkerId e' \<Longrightarrow> oe_seq e = oe_seq e'"
  using last_colon_inject [of _ "show_int (oe_seq e)" _ "show_int (oe_seq e')"] by (auto simp: planMarkerId_def show_int_inject)

lemma transcript_markers:
  assumes "transcriptAfter dash number fixed4 es = Some s" and "distinct (map oe_seq es)"
  shows "\<exists>fs. filter isMarkerId (itemIds s) = map planMarkerId fs \<and> set fs \<subseteq> set es \<and> distinct (map oe_seq fs)"
  using assms
proof (induction rule: transcript_induct)
  case Empty
  show ?case by (auto simp: createEmptyTranscriptState_def)
next
  case (Frame es e s d ls d' s')
  then obtain fs where fs: "filter isMarkerId (itemIds s) = map planMarkerId fs" "set fs \<subseteq> set es" "distinct (map oe_seq fs)" by auto
  have "filter isMarkerId (itemIds s') = filter isMarkerId (itemIds s) @ markerIds ls"
    using moves_markers [OF Frame.hyps(3)] Frame.hyps(1,2,5) transcript_wf_after transcript_wf_same [of s d]
    by (simp add: sameItems_def)
  moreover have "markerIds ls = [] \<or> markerIds ls = map planMarkerId [e]" using Frame.hyps(4) by cases simp_all
  ultimately consider "filter isMarkerId (itemIds s') = map planMarkerId fs"
    | "filter isMarkerId (itemIds s') = map planMarkerId (fs @ [e])" using fs(1) by auto
  then show ?case
  proof cases
    case 1
    then show ?thesis using fs by auto
  next
    case 2
    have "oe_seq e \<notin> oe_seq ` set fs" using fs(2) Frame.prems by auto
    then show ?thesis using 2 fs by (intro exI [of _ "fs @ [e]"]) auto
  qed
qed

lemma distinct_filters: "distinct (filter P xs) \<Longrightarrow> distinct (filter (\<lambda>x. \<not> P x) xs) \<Longrightarrow> distinct xs"
  by (induction xs) (auto split: if_splits)

lemma distinct_itemIds:
  assumes "transcriptAfter dash number fixed4 es = Some s" and "list_all plain_frame es" and "distinct (map oe_seq es)"
  shows "distinct (itemIds s)"
proof -
  note wf = transcript_wf_after [OF assms(1)]
  have "distinct (filter isMarkerId (itemIds s))"
  proof -
    obtain fs where fs: "filter isMarkerId (itemIds s) = map planMarkerId fs" "distinct (map oe_seq fs)"
      using transcript_markers [OF assms(1,3)] by blast
    have "inj_on planMarkerId (set fs)"
      using fs(2) planMarkerId_seq unfolding distinct_map by (meson inj_onI inj_onD)
    then show ?thesis unfolding fs(1) using fs(2) by (simp add: distinct_map)
  qed
  moreover have "distinct (filter isMessageId (itemIds s))"
    using transcript_text [OF assms(1,2), of "[]" "[]"] by (simp add: message_wf_def colon_free_def)
  moreover have "filter isMessageId (filter repeatable ids) = filter isMessageId ids"
    "filter (\<lambda>k. \<not> isMessageId k) (filter repeatable ids) = filter isMarkerId ids" for ids
    by (induction ids) (auto simp: repeatable_def isMessageId_def)
  ultimately have "distinct (filter repeatable (itemIds s))"
    using distinct_filters [where P = isMessageId and xs = "filter repeatable (itemIds s)"] by simp
  moreover have "distinct (filter (\<lambda>k. \<not> repeatable k) (itemIds s))" using wf by (simp add: transcript_wf_def ids_unique_def)
  ultimately show ?thesis by (rule distinct_filters)
qed

text \<open>
  When the frames have distinct sequence numbers, the identifiers of the items are distinct, and the
  index \<open>itemsById\<close> holds exactly the items of the feed under their identifiers.
\<close>

theorem transcript_ids_distinct:
  assumes "transcriptAfter dash number fixed4 es = Some s" and "list_all plain_frame es" and "distinct (map oe_seq es)"
  shows "distinct (map ti_id (ts_items s)) \<and>
    (jget (ts_itemsById s) k = Some it \<longleftrightarrow> it \<in> set (ts_items s) \<and> ti_id it = k)"
proof -
  note wf = transcript_wf_after [OF assms(1)] and d = distinct_itemIds [OF assms]
  have "jget (ts_itemsById s) k = Some it" if here: "it \<in> set (ts_items s)" "ti_id it = k"
  proof -
    obtain it2 where "jget (ts_itemsById s) k = Some it2" "ti_id it2 = k" "it2 \<in> set (ts_items s)"
      using wf here unfolding transcript_wf_def items_wf_def by blast
    then show ?thesis using d here by (auto simp: distinct_map inj_on_def)
  qed
  moreover have "it \<in> set (ts_items s) \<and> ti_id it = k" if "jget (ts_itemsById s) k = Some it"
    using wf that by (simp add: transcript_wf_def items_wf_def)
  ultimately show ?thesis using d by blast
qed

theorem transcript_ids_distinct_witness:
  "\<exists>s. transcriptAfter [] id stringify [chunkFrame 1 ''a'', thoughtFrame 2, chunkFrame 3 ''b''] = Some s \<and>
     distinct (map ti_id (ts_items s)) \<and> length (ts_items s) = 3"
proof -
  have "map_option (length \<circ> ts_items) (transcriptAfter [] id stringify [chunkFrame 1 ''a'', thoughtFrame 2, chunkFrame 3 ''b'']) = Some 3"
    by code_simp
  then obtain s where s: "transcriptAfter [] id stringify [chunkFrame 1 ''a'', thoughtFrame 2, chunkFrame 3 ''b''] = Some s"
    "length (ts_items s) = 3" by auto
  have plain: "list_all plain_frame [chunkFrame 1 ''a'', thoughtFrame 2, chunkFrame 3 ''b'']"
    "distinct (map oe_seq [chunkFrame 1 ''a'', thoughtFrame 2, chunkFrame 3 ''b''])" by code_simp+
  show ?thesis using s conjunct1 [OF transcript_ids_distinct [OF s(1) plain]] by (intro exI [of _ s] conjI)
qed

subsection \<open>Frames that throw\<close>

definition nullOption :: "observer_event \<Rightarrow> bool" where
  "nullOption e = (case jfield (frameUpdate e) ''configOptions'' of Some (JArr os) \<Rightarrow> JNull \<in> set os | _ \<Rightarrow> False)"

lemma configText_None: "configText (frameUpdate e) = None \<longleftrightarrow> nullOption e"
  by (auto simp: configText_def nullOption_def configOption_def list_ex_iff split: option.splits jsval.splits)

lemma showSessionUpdate_None:
  "showSessionUpdate fixed4 e c d = None \<longleftrightarrow>
     asString (jfield (frameUpdate e) ''sessionUpdate'') = Some ''config_option_update'' \<and> nullOption e"
proof -
  define u where "u = (case asString (jfield (frameUpdate e) ''sessionUpdate'') of Some u \<Rightarrow> u | None \<Rightarrow> ''unknown'')"
  have "asString (jfield (frameUpdate e) ''sessionUpdate'') = Some ''config_option_update'' \<longleftrightarrow> u = ''config_option_update''"
    by (auto simp: u_def split: option.splits)
  moreover have "showSessionUpdate fixed4 e c d = None \<longleftrightarrow> u = ''config_option_update'' \<and> configText (frameUpdate e) = None"
    unfolding showSessionUpdate_def Let_def u_def [symmetric] by (simp split: option.split)
  ultimately show ?thesis by (simp add: configText_None)
qed

lemma process_None:
  "processTranscriptEvent dash number fixed4 s e = None \<longleftrightarrow> isUpdateFrame ''config_option_update'' e \<and> nullOption e"
proof -
  have "showAcpFrame dash fixed4 e c d = None \<longleftrightarrow>
      oe_kind e = ''acp_read'' \<and> frameMethod e = Some ''session/update'' \<and> showSessionUpdate fixed4 e c d = None" for c d
    unfolding showAcpFrame_def Let_def frameMethod_def by auto
  then have "showFrame dash number fixed4 e c d = None \<longleftrightarrow>
      oe_kind e = ''acp_read'' \<and> frameMethod e = Some ''session/update'' \<and> showSessionUpdate fixed4 e c d = None" for c d
    unfolding showFrame_def Let_def by auto
  then show ?thesis by (auto simp: processTranscriptEvent_def showSessionUpdate_None isUpdateFrame_def)
qed

lemma transcript_None:
  "transcriptAfter dash number fixed4 es = None \<longleftrightarrow>
     list_ex (\<lambda>e. isUpdateFrame ''config_option_update'' e \<and> nullOption e) es"
proof (induction es rule: rev_induct)
  case (snoc e es)
  then show ?case unfolding transcriptAfter_snoc
    by (cases "transcriptAfter dash number fixed4 es") (auto simp: process_None)
qed simp

text \<open>
  The reducer is total but for one error: it throws exactly on an update of the configuration that
  lists \<open>null\<close> among its options. One such frame, wherever it is in the history, makes the whole
  transcript unavailable.
\<close>

theorem transcript_throws_iff:
  "(processTranscriptEvent dash number fixed4 s e = None \<longleftrightarrow> isUpdateFrame ''config_option_update'' e \<and> nullOption e) \<and>
   (buildTranscript dash number fixed4 es = None \<longleftrightarrow>
      list_ex (\<lambda>e. isUpdateFrame ''config_option_update'' e \<and> nullOption e) es)"
  using process_None [of dash number fixed4 s e] transcript_None [of dash number fixed4 es] by (simp add: buildTranscript_def)

end
