(* ===== verification/Grouping.thy ===== *)
theory Grouping
  imports TranscriptText
begin

text \<open>
  The blocks that show a transcript (\<open>features/agents/ui/agentSessionTranscriptGrouping.ts\<close>): the items
  of the feed are cut into runs of one session, the items of a run are bundled by turn, and the tool
  calls of a turn are collapsed into summaries.

  A \<open>Set\<close> of objects that marks the items a turn has used up is object identity: removing from a list
  the first item found is \<open>removeFirst\<close>. The run that the splitting loop writes to is the last
  one of its list. Every tool item of the reducer carries its descriptor and its render class, so the
  fallbacks for items without them never apply.
\<close>

subsection \<open>Data\<close>

datatype summary_variant = SameKind | MixedRun

datatype tool_run_summary =
  ToolRunSummary (sm_id: string) (sm_label: string) (sm_count: nat) (sm_items: "transcript_item list")
    (sm_renderClass: "render_class option") (sm_variant: summary_variant)
    (sm_segments: "child_segment list option") (sm_timestamp: string)
and child_segment = ChildItem transcript_item | ChildSummary tool_run_summary

datatype turn_segment =
    SegItem transcript_item
  | SegSummary tool_run_summary
  | SegSetup "transcript_item list"
  | SegPrompt transcript_item "transcript_item option" "transcript_item list"

datatype label_state = CurrentSession | MostRecentSession | EarlierSession

record session_boundary =
  sb_sessionId :: string
  sb_sessionStartTimestamp :: string
  sb_labelState :: label_state
  sb_runIndex :: nat
  sb_firstItemId :: string

datatype display_block =
    SingleBlock transcript_item
  | TurnBlock string "turn_segment list"
  | BoundaryBlock session_boundary

subsection \<open>Kinds of items\<close>

definition isUserMessage :: "string \<Rightarrow> transcript_item \<Rightarrow> bool" where
  "isUserMessage source item =
     ((case ti_variant item of MessageItem m \<Rightarrow> mf_role m = UserRole | _ \<Rightarrow> False) \<and>
      ti_acpSource item = Some source)"

definition isUserPrompt :: "transcript_item \<Rightarrow> bool" where
  "isUserPrompt item = isUserMessage ''session/prompt:user'' item"

definition isSteerPrompt :: "transcript_item \<Rightarrow> bool" where
  "isSteerPrompt item = isUserMessage ''session/steer:user'' item"

definition isMetadataFrom :: "string \<Rightarrow> transcript_item \<Rightarrow> bool" where
  "isMetadataFrom source item =
     ((case ti_variant item of MetadataItem _ \<Rightarrow> True | _ \<Rightarrow> False) \<and> ti_acpSource item = Some source)"

definition isPromptContext :: "transcript_item \<Rightarrow> bool" where
  "isPromptContext item = isMetadataFrom ''session/prompt:context'' item"

definition isSteerContext :: "transcript_item \<Rightarrow> bool" where
  "isSteerContext item = isMetadataFrom ''session/steer:context'' item"

definition isSystemPrompt :: "transcript_item \<Rightarrow> bool" where
  "isSystemPrompt item = isMetadataFrom ''session/new'' item"

definition isSetupLifecycle :: "transcript_item \<Rightarrow> bool" where
  "isSetupLifecycle item =
     ((case ti_variant item of LifecycleItem _ \<Rightarrow> True | _ \<Rightarrow> False) \<and>
      (ti_acpSource item = Some ''turn_started'' \<or> ti_acpSource item = Some ''session_resolved''))"

definition getRenderClass :: "transcript_item \<Rightarrow> render_class" where
  "getRenderClass item =
     (case ti_variant item of
        MessageItem _ \<Rightarrow> RMessage
      | ThoughtItem _ \<Rightarrow> RThought
      | PlanItem _ \<Rightarrow> RPlan
      | LifecycleItem f \<Rightarrow>
          (case lf_renderClass f of LStatus \<Rightarrow> RStatus | LPermission \<Rightarrow> RPermission | LError \<Rightarrow> RError)
      | MetadataItem _ \<Rightarrow> RRawRail
      | ToolItem f \<Rightarrow> tf_renderClass f)"

fun renderClassName :: "render_class \<Rightarrow> string" where
  "renderClassName RMessage = ''message''"
| "renderClassName RRelayOp = ''relay-op''"
| "renderClassName RFileEdit = ''file-edit''"
| "renderClassName RFileRead = ''file-read''"
| "renderClassName RSkillRead = ''skill-read''"
| "renderClassName RImage = ''image''"
| "renderClassName RShell = ''shell''"
| "renderClassName RStatus = ''status''"
| "renderClassName RThought = ''thought''"
| "renderClassName RPlan = ''plan''"
| "renderClassName RPermission = ''permission''"
| "renderClassName RError = ''error''"
| "renderClassName RGeneric = ''generic''"
| "renderClassName RRawRail = ''raw-rail''"
| "renderClassName RSuppressed = ''suppressed''"

definition GROUPING_ELIGIBLE_RENDER_CLASSES :: "render_class list" where
  "GROUPING_ELIGIBLE_RENDER_CLASSES =
     [RFileRead, RSkillRead, RShell, RRelayOp, RFileEdit, RImage, RPlan, RGeneric]"

definition isGroupingEligible :: "transcript_item \<Rightarrow> bool" where
  "isGroupingEligible item =
     (case ti_variant item of
        ToolItem f \<Rightarrow> \<not> tf_isError f \<and> getRenderClass item \<in> set GROUPING_ELIGIBLE_RENDER_CLASSES
      | _ \<Rightarrow> False)"

definition sameKindKey :: "transcript_item \<Rightarrow> string option" where
  "sameKindKey item =
     (if \<not> isGroupingEligible item then None
      else
        case ti_variant item of
          ToolItem f \<Rightarrow>
            (case ad_groupKey (tf_descriptor f) of
               Some k \<Rightarrow> Some k | None \<Rightarrow> Some (renderClassName (getRenderClass item)))
        | _ \<Rightarrow> None)"

definition sameKindLabel :: "transcript_item \<Rightarrow> nat \<Rightarrow> string" where
  "sameKindLabel item num =
     (case ti_variant item of
        ToolItem f \<Rightarrow>
          (let renderClass = getRenderClass item in
           if renderClass = RFileEdit then ''Edited '' @ show_nat num @ '' file'' @ (if num = 1 then [] else ''s'')
           else if renderClass = RFileRead then ''Read '' @ show_nat num @ '' files''
           else if renderClass = RSkillRead then ''Read '' @ show_nat num @ '' skill'' @ (if num = 1 then [] else ''s'')
           else if renderClass = RShell then ''Ran '' @ show_nat num @ '' commands''
           else if renderClass = RRelayOp then ''Ran '' @ show_nat num @ '' x0x workspace ops''
           else ad_label (tf_descriptor f) @ '' '' @ [CHR 0xD7] @ show_nat num)
      | _ \<Rightarrow> show_nat num @ '' items'')"

definition minimumSummaryRunLength :: "transcript_item \<Rightarrow> nat" where
  "minimumSummaryRunLength item = (if getRenderClass item = RFileEdit then 2 else 3)"

subsection \<open>Collapsing the tool calls of a turn\<close>

text \<open>The inner loops of the two passes: the run that starts the list, and what follows it.\<close>

fun takeSameKind :: "string \<Rightarrow> turn_segment list \<Rightarrow> transcript_item list \<times> turn_segment list" where
  "takeSameKind key [] = ([], [])"
| "takeSameKind key (segment # rest) =
     (case segment of
        SegItem item \<Rightarrow>
          if sameKindKey item = Some key
          then case takeSameKind key rest of (run, later) \<Rightarrow> (item # run, later)
          else ([], segment # rest)
      | _ \<Rightarrow> ([], segment # rest))"

definition sameKindSummary :: "string \<Rightarrow> transcript_item list \<Rightarrow> tool_run_summary" where
  "sameKindSummary key run =
     ToolRunSummary (''summary:'' @ key @ '':'' @ ti_id (hd run)) (sameKindLabel (hd run) (length run))
       (length run) run (Some (getRenderClass (hd run))) SameKind None (ti_timestamp (hd run))"

lemma length_takeSameKind: "length (snd (takeSameKind key segments)) \<le> length segments"
  by (induction segments) (auto split: turn_segment.splits prod.splits)

function groupSameKindSegments :: "turn_segment list \<Rightarrow> turn_segment list" where
  "groupSameKindSegments [] = []"
| "groupSameKindSegments (segment # rest) =
     (case segment of
        SegItem item \<Rightarrow>
          if \<not> truthy (sameKindKey item) then segment # groupSameKindSegments rest
          else
            let key = the (sameKindKey item);
                run = item # fst (takeSameKind key rest);
                later = snd (takeSameKind key rest)
            in if length run \<ge> minimumSummaryRunLength item
               then SegSummary (sameKindSummary key run) # groupSameKindSegments later
               else map SegItem run @ groupSameKindSegments later
      | _ \<Rightarrow> segment # groupSameKindSegments rest)"
  by pat_completeness auto
termination
  by (relation "measure length") (auto simp: less_Suc_eq_le length_takeSameKind)

definition MIXED_RUN_MINIMUM_SEGMENTS :: nat where
  "MIXED_RUN_MINIMUM_SEGMENTS = 2"

definition isBurstParticipant :: "turn_segment \<Rightarrow> bool" where
  "isBurstParticipant segment =
     (case segment of
        SegItem item \<Rightarrow> isGroupingEligible item
      | SegSummary summary \<Rightarrow> sm_variant summary = SameKind
      | _ \<Rightarrow> False)"

text \<open>The items that a row of a turn shows; the same cases as in \<open>flattenDisplayBlocks\<close>.\<close>

fun segmentItems :: "turn_segment \<Rightarrow> transcript_item list" where
  "segmentItems (SegItem item) = [item]"
| "segmentItems (SegSummary summary) = sm_items summary"
| "segmentItems (SegSetup items) = items"
| "segmentItems (SegPrompt user context setup) =
     user # setup @ (case context of Some c \<Rightarrow> [c] | None \<Rightarrow> [])"

definition mixedSummary :: "transcript_item list \<Rightarrow> tool_run_summary" where
  "mixedSummary items =
     ToolRunSummary (''summary:mixed:'' @ ti_id (hd items)) (''Ran '' @ show_nat (length items) @ '' tool calls'')
       (length items) items None MixedRun (Some (map ChildItem items)) (ti_timestamp (hd items))"

function groupMixedToolRuns :: "turn_segment list \<Rightarrow> turn_segment list" where
  "groupMixedToolRuns [] = []"
| "groupMixedToolRuns (segment # rest) =
     (if \<not> isBurstParticipant segment then segment # groupMixedToolRuns rest
      else
        let run = segment # takeWhile isBurstParticipant rest;
            later = dropWhile isBurstParticipant rest
        in if length run \<ge> MIXED_RUN_MINIMUM_SEGMENTS
           then SegSummary (mixedSummary (concat (map segmentItems run))) # groupMixedToolRuns later
           else run @ groupMixedToolRuns later)"
  by pat_completeness auto
termination
  by (relation "measure length") (auto simp: less_Suc_eq_le length_dropWhile_le)

definition groupToolSegments :: "turn_segment list \<Rightarrow> turn_segment list" where
  "groupToolSegments segments = groupMixedToolRuns (groupSameKindSegments segments)"

subsection \<open>The rows of a turn\<close>

fun removeFirst :: "('a \<Rightarrow> bool) \<Rightarrow> 'a list \<Rightarrow> 'a list" where
  "removeFirst P [] = []"
| "removeFirst P (x # xs) = (if P x then xs else x # removeFirst P xs)"

fun activitySegments :: "transcript_item list \<Rightarrow> transcript_item list \<Rightarrow> turn_segment list" where
  "activitySegments [] pendingSteerContexts = map SegItem pendingSteerContexts"
| "activitySegments (item # activity) pendingSteerContexts =
     (if isSteerPrompt item
      then
        (case pendingSteerContexts of
           [] \<Rightarrow> SegPrompt item None [] # activitySegments activity []
         | context # contexts \<Rightarrow> SegPrompt item (Some context) [] # activitySegments activity contexts)
      else SegItem item # activitySegments activity pendingSteerContexts)"

definition classifyTurnItems :: "transcript_item list \<Rightarrow> turn_segment list" where
  "classifyTurnItems items =
     (let setupLifecycle = filter isSetupLifecycle items;
          promptContext = find isPromptContext items;
          steerContexts = filter isSteerContext items;
          activity = filter (\<lambda>item. \<not> isSetupLifecycle item \<and> \<not> isSteerContext item)
            (removeFirst isPromptContext (removeFirst isUserPrompt items));
          segments = activitySegments activity steerContexts
      in case find isUserPrompt items of
           None \<Rightarrow> groupToolSegments segments
         | Some userPrompt \<Rightarrow> groupToolSegments (SegPrompt userPrompt promptContext setupLifecycle # segments))"

subsection \<open>Runs of one session\<close>

record session_run =
  sr_sessionId :: string
  sr_items :: "transcript_item list"

record run_split =
  rs_runs :: "session_run list"
  rs_preSessionBuffer :: "transcript_item list"
  rs_pendingNewRunBuffer :: "transcript_item list option"

definition pushToCurrentRun :: "transcript_item list \<Rightarrow> run_split \<Rightarrow> run_split" where
  "pushToCurrentRun items s =
     s\<lparr>rs_runs := butlast (rs_runs s) @
        [(last (rs_runs s))\<lparr>sr_items := sr_items (last (rs_runs s)) @ items\<rparr>]\<rparr>"

definition openRun :: "string \<Rightarrow> transcript_item list \<Rightarrow> run_split \<Rightarrow> run_split" where
  "openRun sessionId items s = s\<lparr>rs_runs := rs_runs s @ [\<lparr>sr_sessionId = sessionId, sr_items = items\<rparr>]\<rparr>"

definition pendingItems :: "run_split \<Rightarrow> transcript_item list" where
  "pendingItems s = (case rs_pendingNewRunBuffer s of Some p \<Rightarrow> p | None \<Rightarrow> [])"

definition splitStep :: "transcript_item \<Rightarrow> run_split \<Rightarrow> run_split" where
  "splitStep item s =
     (let noRun = (rs_runs s = []) in
      case ti_sessionId item of
        None \<Rightarrow>
          if noRun then s\<lparr>rs_preSessionBuffer := rs_preSessionBuffer s @ [item]\<rparr>
          else if rs_pendingNewRunBuffer s \<noteq> None
          then s\<lparr>rs_pendingNewRunBuffer := Some (pendingItems s @ [item])\<rparr>
          else pushToCurrentRun [item] s
      | Some sessionId \<Rightarrow>
          if isSystemPrompt item \<and> \<not> noRun
          then s\<lparr>rs_pendingNewRunBuffer := Some (pendingItems s @ [item])\<rparr>
          else
            pushToCurrentRun [item]
              (if noRun \<or> sessionId \<noteq> sr_sessionId (last (rs_runs s))
               then
                 if noRun \<and> length (rs_preSessionBuffer s) > 0
                 then (openRun sessionId (rs_preSessionBuffer s) s)\<lparr>rs_preSessionBuffer := []\<rparr>
                 else (openRun sessionId (pendingItems s) s)\<lparr>rs_pendingNewRunBuffer := None\<rparr>
               else if rs_pendingNewRunBuffer s \<noteq> None
               then (pushToCurrentRun (pendingItems s) s)\<lparr>rs_pendingNewRunBuffer := None\<rparr>
               else s))"

definition startSplit :: run_split where
  "startSplit = \<lparr>rs_runs = [], rs_preSessionBuffer = [], rs_pendingNewRunBuffer = None\<rparr>"

definition finishSplit :: "run_split \<Rightarrow> session_run list" where
  "finishSplit s =
     (if rs_runs s = []
      then
        if length (rs_preSessionBuffer s) > 0
        then [\<lparr>sr_sessionId = ''unknown'', sr_items = rs_preSessionBuffer s\<rparr>] else []
      else if rs_pendingNewRunBuffer s \<noteq> None then rs_runs (pushToCurrentRun (pendingItems s) s)
      else rs_runs s)"

definition splitIntoSessionRuns :: "transcript_item list \<Rightarrow> session_run list" where
  "splitIntoSessionRuns items = finishSplit (fold splitStep items startSplit)"

subsection \<open>Blocks\<close>

datatype display_entry = SingleEntry transcript_item | TurnEntry string

record run_display =
  rd_displayOrder :: "display_entry list"
  rd_turnBuckets :: "(string, transcript_item list) jsmap"
  rd_openBatch :: "transcript_item list option"
  rd_pendingForTurn :: "(string, transcript_item list) jsmap"

definition sealBatch :: "string \<Rightarrow> run_display \<Rightarrow> run_display" where
  "sealBatch turnId r =
     (case rd_openBatch r of
        None \<Rightarrow> r
      | Some openBatch \<Rightarrow>
          r\<lparr>rd_pendingForTurn :=
              jset (rd_pendingForTurn r) turnId (jget_or (rd_pendingForTurn r) turnId [] @ openBatch),
            rd_openBatch := None\<rparr>)"

definition addToBucket :: "string \<Rightarrow> transcript_item \<Rightarrow> run_display \<Rightarrow> run_display" where
  "addToBucket turnId item r =
     r\<lparr>rd_displayOrder :=
         (if jhas (rd_turnBuckets r) turnId then rd_displayOrder r else rd_displayOrder r @ [TurnEntry turnId]),
       rd_turnBuckets := jset (rd_turnBuckets r) turnId (jget_or (rd_turnBuckets r) turnId [] @ [item])\<rparr>"

definition displayStep :: "transcript_item \<Rightarrow> run_display \<Rightarrow> run_display" where
  "displayStep item r =
     (if \<not> truthy (ti_turnId item)
      then
        (case rd_openBatch r of
           Some openBatch \<Rightarrow> r\<lparr>rd_openBatch := Some (openBatch @ [item])\<rparr>
         | None \<Rightarrow>
             if isSystemPrompt item then r\<lparr>rd_openBatch := Some [item]\<rparr>
             else r\<lparr>rd_displayOrder := rd_displayOrder r @ [SingleEntry item]\<rparr>)
      else addToBucket (the (ti_turnId item)) item (sealBatch (the (ti_turnId item)) r))"

definition startDisplay :: run_display where
  "startDisplay = \<lparr>rd_displayOrder = [], rd_turnBuckets = [], rd_openBatch = None, rd_pendingForTurn = []\<rparr>"

definition turnBlocks :: "string \<Rightarrow> transcript_item list \<Rightarrow> transcript_item list \<Rightarrow> display_block list" where
  "turnBlocks turnId beforeTurn items =
     map SingleBlock beforeTurn @
     (let segments = classifyTurnItems items in if length segments > 0 then [TurnBlock turnId segments] else [])"

fun entryBlocks :: "run_display \<Rightarrow> display_entry \<Rightarrow> display_block list" where
  "entryBlocks r (SingleEntry item) = [SingleBlock item]"
| "entryBlocks r (TurnEntry turnId) =
     (let items = jget_or (rd_turnBuckets r) turnId [] in
      if length items = 0 then [] else turnBlocks turnId (jget_or (rd_pendingForTurn r) turnId []) items)"

definition buildBlocksForRun :: "transcript_item list \<Rightarrow> display_block list" where
  "buildBlocksForRun items =
     (let r = fold displayStep items startDisplay in
      concat (map (entryBlocks r) (rd_displayOrder r)) @
      (case rd_openBatch r of Some openBatch \<Rightarrow> map SingleBlock openBatch | None \<Rightarrow> []))"

definition boundaryFor :: "string option \<Rightarrow> bool \<Rightarrow> nat \<Rightarrow> session_run \<Rightarrow> session_boundary" where
  "boundaryFor latestLiveSessionId isNewestRun i run =
     \<lparr>sb_sessionId = sr_sessionId run,
      sb_sessionStartTimestamp =
        (case find (\<lambda>it. ti_timestamp it \<noteq> []) (sr_items run) of
           Some firstItem \<Rightarrow> ti_timestamp firstItem | None \<Rightarrow> ''1970-01-01T00:00:00.000Z''),
      sb_labelState =
        (if isNewestRun \<and> latestLiveSessionId = Some (sr_sessionId run) then CurrentSession
         else if isNewestRun then MostRecentSession else EarlierSession),
      sb_runIndex = i,
      sb_firstItemId = (case sr_items run of [] \<Rightarrow> sr_sessionId run | it # _ \<Rightarrow> ti_id it)\<rparr>"

definition runBlocks :: "string option \<Rightarrow> nat \<Rightarrow> nat \<Rightarrow> session_run \<Rightarrow> display_block list" where
  "runBlocks latestLiveSessionId runCount i run =
     (if i > 0 then [BoundaryBlock (boundaryFor latestLiveSessionId (i = runCount - 1) i run)] else []) @
     buildBlocksForRun (sr_items run)"

definition buildTranscriptDisplayBlocks :: "transcript_item list \<Rightarrow> string option \<Rightarrow> display_block list" where
  "buildTranscriptDisplayBlocks items latestLiveSessionId =
     (let sessionRuns = splitIntoSessionRuns items in
      if length sessionRuns \<le> 1
      then buildBlocksForRun (case sessionRuns of [] \<Rightarrow> [] | run # _ \<Rightarrow> sr_items run)
      else concat (map (\<lambda>(i, run). runBlocks latestLiveSessionId (length sessionRuns) i run)
             (enumerate 0 sessionRuns)))"

fun blockItems :: "display_block \<Rightarrow> transcript_item list" where
  "blockItems (SingleBlock item) = [item]"
| "blockItems (BoundaryBlock b) = []"
| "blockItems (TurnBlock turnId segments) = concat (map segmentItems segments)"

definition flattenDisplayBlocks :: "display_block list \<Rightarrow> transcript_item list" where
  "flattenDisplayBlocks blocks = concat (map blockItems blocks)"

fun getDisplayBlockKey :: "display_block \<Rightarrow> string" where
  "getDisplayBlockKey (SingleBlock item) = ti_id item"
| "getDisplayBlockKey (BoundaryBlock b) = ''session-boundary:'' @ sb_sessionId b @ '':'' @ sb_firstItemId b"
| "getDisplayBlockKey (TurnBlock turnId segments) = ''turn:'' @ turnId"

definition deriveTranscriptBlockIds ::
  "string \<Rightarrow> (jsval \<Rightarrow> jsval) \<Rightarrow> (jsval \<Rightarrow> string) \<Rightarrow> observer_event list \<Rightarrow> string list option" where
  "deriveTranscriptBlockIds dash number fixed4 events =
     map_option (\<lambda>s. map getDisplayBlockKey (buildTranscriptDisplayBlocks (ts_items s) None))
       (transcriptAfter dash number fixed4 events)"

subsection \<open>Labels of a collapsed setup row\<close>

definition formatTurnSetupLabel :: "transcript_item list \<Rightarrow> string" where
  "formatTurnSetupLabel items = joinWith [CHR 32, CHR 0xB7, CHR 32] (map ti_title items)"

definition turnSetupTimestamp :: "(string \<Rightarrow> int option) \<Rightarrow> transcript_item list \<Rightarrow> string option" where
  "turnSetupTimestamp dp items =
     (case items of
        [] \<Rightarrow> None
      | first # _ \<Rightarrow>
          Some (fold (\<lambda>item earliest.
              case (dp (ti_timestamp item), dp earliest) of
                (Some a, Some b) \<Rightarrow> if a < b then ti_timestamp item else earliest
              | _ \<Rightarrow> earliest) items (ti_timestamp first)))"

definition lifecycleText :: "transcript_item \<Rightarrow> string" where
  "lifecycleText item = (case ti_variant item of LifecycleItem f \<Rightarrow> lf_text f | _ \<Rightarrow> [])"

definition turnSetupDetail :: "transcript_item list \<Rightarrow> string option" where
  "turnSetupDetail items =
     (let details = filter (\<lambda>t. length t > 0) (map (js_trim \<circ> lifecycleText) items) in
      if length details = 0 then None else Some (joinWith '' '' details))"

end
