(* ===== verification/GroupingRows.thy ===== *)
theory GroupingRows
  imports Grouping
begin

text \<open>
  The rows of a turn. Collapsing tool calls keeps every item in its place, puts only successful tool
  calls into summaries and leaves no two neighbours that could still be collapsed; a turn shows its
  prompt with setup and context first, then its activity in order.
\<close>

subsection \<open>Collapsing\<close>

definition segmentsItems :: "turn_segment list \<Rightarrow> transcript_item list" where
  "segmentsItems segments = concat (map segmentItems segments)"

lemma segmentsItems_simps [simp]:
  "segmentsItems [] = []"
  "segmentsItems (s # ss) = segmentItems s @ segmentsItems ss"
  "segmentsItems (ss @ ss') = segmentsItems ss @ segmentsItems ss'"
  by (simp_all add: segmentsItems_def)

lemma segmentsItems_map_SegItem [simp]: "segmentsItems (map SegItem items) = items"
  by (induction items) auto

lemma takeSameKind_split:
  "map SegItem (fst (takeSameKind key segments)) @ snd (takeSameKind key segments) = segments"
  by (induction segments) (auto split: turn_segment.splits prod.splits)

lemma takeSameKind_key: "item \<in> set (fst (takeSameKind key segments)) \<Longrightarrow> sameKindKey item = Some key"
  by (induction segments) (auto split: turn_segment.splits prod.splits if_splits)

lemma segmentsItems_takeSameKind:
  "fst (takeSameKind key segments) @ segmentsItems (snd (takeSameKind key segments)) = segmentsItems segments"
  using arg_cong [OF takeSameKind_split [of key segments], of segmentsItems] by simp

lemma sm_sameKindSummary [simp]:
  "sm_items (sameKindSummary key run) = run" "sm_variant (sameKindSummary key run) = SameKind"
  "sm_count (sameKindSummary key run) = length run"
  by (simp_all add: sameKindSummary_def)

lemma sm_mixedSummary [simp]:
  "sm_items (mixedSummary items) = items" "sm_variant (mixedSummary items) = MixedRun"
  "sm_count (mixedSummary items) = length items"
  by (simp_all add: mixedSummary_def)

lemma segmentsItems_groupSameKind: "segmentsItems (groupSameKindSegments segments) = segmentsItems segments"
  by (induction segments rule: groupSameKindSegments.induct)
    (auto simp: Let_def segmentsItems_takeSameKind split: turn_segment.splits)

lemma segmentsItems_takeWhile: "segmentsItems (takeWhile P ss) @ segmentsItems (dropWhile P ss) = segmentsItems ss"
  by (simp flip: segmentsItems_simps(3))

lemma segmentsItems_groupMixed: "segmentsItems (groupMixedToolRuns segments) = segmentsItems segments"
  by (induction segments rule: groupMixedToolRuns.induct)
    (auto simp: Let_def segmentsItems_takeWhile segmentsItems_def [symmetric])

lemma segmentsItems_group [simp]: "segmentsItems (groupToolSegments segments) = segmentsItems segments"
  by (simp add: groupToolSegments_def segmentsItems_groupMixed segmentsItems_groupSameKind)

text \<open>The rows that no summary may swallow.\<close>

definition staysVisible :: "turn_segment \<Rightarrow> bool" where
  "staysVisible segment =
     (case segment of SegItem item \<Rightarrow> \<not> isGroupingEligible item | SegSummary _ \<Rightarrow> False | _ \<Rightarrow> True)"

lemma staysVisible_simps [simp]:
  "staysVisible (SegItem item) = (\<not> isGroupingEligible item)" "\<not> staysVisible (SegSummary sm)"
  "staysVisible (SegSetup items)" "staysVisible (SegPrompt u c su)"
  by (simp_all add: staysVisible_def)

lemma isBurstParticipant_simps [simp]:
  "isBurstParticipant (SegItem item) = isGroupingEligible item"
  "isBurstParticipant (SegSummary sm) = (sm_variant sm = SameKind)"
  "\<not> isBurstParticipant (SegSetup items)" "\<not> isBurstParticipant (SegPrompt u c su)"
  by (simp_all add: isBurstParticipant_def)

lemma burst_not_visible: "isBurstParticipant s \<Longrightarrow> \<not> staysVisible s"
  by (cases s) auto

lemma sameKindKey_eligible: "sameKindKey item = Some key \<Longrightarrow> isGroupingEligible item"
  by (auto simp: sameKindKey_def split: if_splits)

lemma filter_takeSameKind:
  "filter staysVisible (snd (takeSameKind key segments)) = filter staysVisible segments"
  by (induction segments) (auto split: turn_segment.splits prod.splits dest: sameKindKey_eligible)

lemma filter_map_SegItem:
  "list_all isGroupingEligible items \<Longrightarrow> filter staysVisible (map SegItem items) = []"
  by (induction items) auto

lemma run_eligible:
  assumes "truthy (sameKindKey item)"
  shows "list_all isGroupingEligible (item # fst (takeSameKind (the (sameKindKey item)) rest))"
  using assms by (auto simp: list_all_iff truthy_def split: option.splits dest!: takeSameKind_key sameKindKey_eligible)

lemma visible_groupSameKind: "filter staysVisible (groupSameKindSegments segments) = filter staysVisible segments"
proof (induction segments rule: groupSameKindSegments.induct)
  case (2 segment rest)
  show ?case
  proof (cases segment)
    case (SegItem item)
    show ?thesis
    proof (cases "truthy (sameKindKey item)")
      case True
      then show ?thesis
        using 2(2,3) [OF SegItem] filter_map_SegItem [OF run_eligible [OF True]] run_eligible [OF True, of rest] SegItem
        by (auto simp: Let_def filter_takeSameKind)
    qed (use 2 SegItem in auto)
  qed (use 2 in auto)
qed simp

lemma filter_dropWhile_burst: "filter staysVisible (dropWhile isBurstParticipant ss) = filter staysVisible ss"
  by (induction ss) (auto dest: burst_not_visible)

lemma filter_takeWhile_burst: "filter staysVisible (takeWhile isBurstParticipant ss) = []"
  by (induction ss) (auto dest: burst_not_visible)

lemma visible_groupMixed: "filter staysVisible (groupMixedToolRuns segments) =
    filter staysVisible (filter (\<lambda>s. \<not> isBurstParticipant s) segments)"
proof (induction segments rule: groupMixedToolRuns.induct)
  case (2 segment rest)
  have *: "filter staysVisible (filter (\<lambda>s. \<not> isBurstParticipant s) (dropWhile isBurstParticipant rest)) =
      filter staysVisible (filter (\<lambda>s. \<not> isBurstParticipant s) rest)"
    by (induction rest) auto
  show ?case
    using 2 * burst_not_visible [of segment] by (auto simp: Let_def filter_takeWhile_burst)
qed simp

lemma visible_group: "filter staysVisible (groupToolSegments segments) = filter staysVisible segments"
proof -
  have "filter staysVisible (filter (\<lambda>s. \<not> isBurstParticipant s) ss) = filter staysVisible ss" for ss
    by (induction ss) (auto dest: burst_not_visible)
  then show ?thesis by (simp only: groupToolSegments_def visible_groupMixed visible_groupSameKind)
qed

subsection \<open>Summaries\<close>

definition summary_ok :: "tool_run_summary \<Rightarrow> bool" where
  "summary_ok sm \<longleftrightarrow>
     sm_count sm = length (sm_items sm) \<and> 2 \<le> sm_count sm \<and> list_all isGroupingEligible (sm_items sm) \<and>
     (case sm_variant sm of
        SameKind \<Rightarrow> list_all (\<lambda>item. sameKindKey item = sameKindKey (hd (sm_items sm))) (sm_items sm)
      | MixedRun \<Rightarrow> sm_segments sm = Some (map ChildItem (sm_items sm)))"

definition segment_ok :: "turn_segment \<Rightarrow> bool" where
  "segment_ok segment = (case segment of SegSummary sm \<Rightarrow> summary_ok sm | _ \<Rightarrow> True)"

lemma segment_ok_simps [simp]:
  "segment_ok (SegItem item)" "segment_ok (SegSetup items)" "segment_ok (SegPrompt u c su)"
  "segment_ok (SegSummary sm) = summary_ok sm"
  by (simp_all add: segment_ok_def)

lemma list_all_takeSameKind:
  "list_all P segments \<Longrightarrow> list_all P (snd (takeSameKind key segments))"
  by (induction segments) (auto split: turn_segment.splits prod.splits)

lemma sameKindSummary_ok:
  assumes "truthy (sameKindKey item)" and "minimumSummaryRunLength item \<le> length run"
    and "run = item # fst (takeSameKind (the (sameKindKey item)) rest)"
  shows "summary_ok (sameKindSummary (the (sameKindKey item)) run)"
proof -
  have "\<forall>it\<in>set run. sameKindKey it = sameKindKey item"
    using assms(1,3) by (auto simp: truthy_def split: option.splits dest!: takeSameKind_key)
  moreover have "2 \<le> length run" using assms(2) by (auto simp: minimumSummaryRunLength_def split: if_splits)
  ultimately show ?thesis using run_eligible [OF assms(1), of rest] assms(3)
    by (simp add: summary_ok_def list_all_iff)
qed

lemma groupSameKind_ok: "list_all segment_ok segments \<Longrightarrow> list_all segment_ok (groupSameKindSegments segments)"
proof (induction segments rule: groupSameKindSegments.induct)
  case (2 segment rest)
  have later: "list_all segment_ok (snd (takeSameKind key rest))" for key
    using "2.prems" list_all_takeSameKind by simp
  have items: "list_all segment_ok (map SegItem its)" for its by (induction its) auto
  show ?case
  proof (cases segment)
    case (SegItem item)
    then show ?thesis
      using 2 later items sameKindSummary_ok [of item _ rest] by (auto simp: Let_def)
  qed (use 2 in auto)
qed simp

lemma burst_items_ok:
  assumes "isBurstParticipant s" and "segment_ok s"
  shows "list_all isGroupingEligible (segmentItems s)" and "1 \<le> length (segmentItems s)"
  using assms by (cases s; auto simp: summary_ok_def)+

lemma bursts_items_ok:
  assumes "list_all isBurstParticipant ss" and "list_all segment_ok ss"
  shows "list_all isGroupingEligible (segmentsItems ss) \<and> length ss \<le> length (segmentsItems ss)"
  using assms by (induction ss) (auto dest: burst_items_ok)

lemma mixedSummary_ok:
  assumes "list_all isBurstParticipant ss" and "list_all segment_ok ss" and "2 \<le> length ss"
  shows "summary_ok (mixedSummary (segmentsItems ss))"
  using bursts_items_ok [OF assms(1,2)] assms(3) by (auto simp: summary_ok_def mixedSummary_def)

lemma list_all_takeWhile [simp]: "list_all P (takeWhile P xs)"
  by (induction xs) auto

lemma list_all_takeWhileI: "list_all Q xs \<Longrightarrow> list_all Q (takeWhile P xs)"
  by (induction xs) auto

lemma list_all_dropWhileI: "list_all Q xs \<Longrightarrow> list_all Q (dropWhile P xs)"
  by (induction xs) auto

lemma groupMixed_ok: "list_all segment_ok segments \<Longrightarrow> list_all segment_ok (groupMixedToolRuns segments)"
proof (induction segments rule: groupMixedToolRuns.induct)
  case (2 segment rest)
  show ?case
  proof (cases "isBurstParticipant segment")
    case True
    let ?run = "segment # takeWhile isBurstParticipant rest"
    have run: "list_all isBurstParticipant ?run" "list_all segment_ok ?run"
      and later: "list_all segment_ok (dropWhile isBurstParticipant rest)"
      using True 2(4) by (auto intro: list_all_takeWhileI list_all_dropWhileI)
    have ih: "list_all segment_ok (groupMixedToolRuns (dropWhile isBurstParticipant rest))"
      using 2(2,3) True later by (cases "MIXED_RUN_MINIMUM_SEGMENTS \<le> length ?run") auto
    show ?thesis using True run ih mixedSummary_ok [OF run]
      by (auto simp: Let_def MIXED_RUN_MINIMUM_SEGMENTS_def segmentsItems_def)
  qed (use 2 in auto)
qed simp

text \<open>Nothing is left to collapse.\<close>

definition separated :: "turn_segment list \<Rightarrow> bool" where
  "separated segments = successively (\<lambda>a b. \<not> (isBurstParticipant a \<and> isBurstParticipant b)) segments"

lemma groupMixed_hd:
  "segments = [] \<or> \<not> isBurstParticipant (hd segments) \<Longrightarrow>
   groupMixedToolRuns segments = [] \<or> \<not> isBurstParticipant (hd (groupMixedToolRuns segments))"
  by (cases segments) auto

lemma hd_dropWhile_burst: "dropWhile P xs = [] \<or> \<not> P (hd (dropWhile P xs))"
  using hd_dropWhile by blast

lemma groupMixed_separated: "separated (groupMixedToolRuns segments)"
proof (induction segments rule: groupMixedToolRuns.induct)
  case (2 segment rest)
  let ?later = "dropWhile isBurstParticipant rest"
  have hd: "groupMixedToolRuns ?later = [] \<or> \<not> isBurstParticipant (hd (groupMixedToolRuns ?later))"
    by (rule groupMixed_hd [OF hd_dropWhile_burst])
  show ?case
  proof (cases "isBurstParticipant segment")
    case True
    then show ?thesis using 2(2,3) hd
      by (cases "takeWhile isBurstParticipant rest")
        (auto simp: Let_def MIXED_RUN_MINIMUM_SEGMENTS_def separated_def successively_Cons)
  qed (use 2 in \<open>auto simp: separated_def successively_Cons\<close>)
qed (simp add: separated_def)

subsection \<open>The rows of a turn\<close>

named_theorems item_kinds \<open>the kinds of items that a turn bundles exclude each other\<close>

lemma kinds_exclusive [item_kinds]:
  "isUserPrompt item \<Longrightarrow> \<not> isPromptContext item" "isUserPrompt item \<Longrightarrow> \<not> isSetupLifecycle item"
  "isUserPrompt item \<Longrightarrow> \<not> isSteerContext item" "isPromptContext item \<Longrightarrow> \<not> isSetupLifecycle item"
  "isPromptContext item \<Longrightarrow> \<not> isSteerContext item" "isSetupLifecycle item \<Longrightarrow> \<not> isSteerContext item"
  "isSteerPrompt item \<Longrightarrow> \<not> isUserPrompt item" "isSteerPrompt item \<Longrightarrow> \<not> isPromptContext item"
  "isSteerPrompt item \<Longrightarrow> \<not> isSetupLifecycle item" "isSteerPrompt item \<Longrightarrow> \<not> isSteerContext item"
  by (auto simp: isUserPrompt_def isPromptContext_def isSetupLifecycle_def isSteerContext_def isSteerPrompt_def
      isUserMessage_def isMetadataFrom_def split: item_variant.splits)

lemma kinds_not_eligible [item_kinds]:
  "isUserPrompt item \<Longrightarrow> \<not> isGroupingEligible item" "isPromptContext item \<Longrightarrow> \<not> isGroupingEligible item"
  "isSetupLifecycle item \<Longrightarrow> \<not> isGroupingEligible item" "isSteerContext item \<Longrightarrow> \<not> isGroupingEligible item"
  by (auto simp: isUserPrompt_def isPromptContext_def isSetupLifecycle_def isSteerContext_def isUserMessage_def
      isMetadataFrom_def isGroupingEligible_def split: item_variant.splits)

definition turnActivity :: "transcript_item \<Rightarrow> bool" where
  "turnActivity item \<longleftrightarrow>
     \<not> isUserPrompt item \<and> \<not> isPromptContext item \<and> \<not> isSetupLifecycle item \<and> \<not> isSteerContext item"

lemma mset_removeFirst:
  "mset xs = mset (removeFirst P xs) + (case find P xs of Some x \<Rightarrow> {#x#} | None \<Rightarrow> {#})"
  by (induction xs) (auto split: option.splits)

lemma filter_removeFirst: "(\<And>x. P x \<Longrightarrow> \<not> Q x) \<Longrightarrow> filter Q (removeFirst P xs) = filter Q xs"
  by (induction xs) auto

lemma find_removeFirst: "(\<And>x. P x \<Longrightarrow> \<not> Q x) \<Longrightarrow> find Q (removeFirst P xs) = find Q xs"
  by (induction xs) auto

lemma mset_filter_split:
  assumes "\<And>x. P x \<Longrightarrow> \<not> Q x"
  shows "mset xs = mset (filter (\<lambda>x. \<not> P x \<and> \<not> Q x) xs) + mset (filter P xs) + mset (filter Q xs)"
  using assms by (induction xs) auto

definition turnRest :: "transcript_item list \<Rightarrow> transcript_item list" where
  "turnRest items =
     filter (\<lambda>item. \<not> isSetupLifecycle item \<and> \<not> isSteerContext item)
       (removeFirst isPromptContext (removeFirst isUserPrompt items))"

lemma turnRest_activity: "filter turnActivity (turnRest items) = filter turnActivity items"
proof -
  have "filter turnActivity (turnRest items) = filter turnActivity (removeFirst isPromptContext (removeFirst isUserPrompt items))"
    unfolding turnRest_def by (auto simp: turnActivity_def intro: filter_cong)
  then show ?thesis by (simp add: filter_removeFirst turnActivity_def)
qed

lemma mset_turnRest:
  "mset items = mset (turnRest items) + mset (filter isSetupLifecycle items) + mset (filter isSteerContext items)
     + (case find isPromptContext items of Some x \<Rightarrow> {#x#} | None \<Rightarrow> {#})
     + (case find isUserPrompt items of Some x \<Rightarrow> {#x#} | None \<Rightarrow> {#})"
proof -
  let ?u = "removeFirst isUserPrompt items" and ?c = "removeFirst isPromptContext (removeFirst isUserPrompt items)"
  have "mset ?c = mset (turnRest items) + mset (filter isSetupLifecycle items) + mset (filter isSteerContext items)"
    using mset_filter_split [of isSetupLifecycle isSteerContext ?c]
    by (simp add: turnRest_def item_kinds filter_removeFirst)
  then show ?thesis
    using mset_removeFirst [of items isUserPrompt] mset_removeFirst [of ?u isPromptContext]
    by (simp add: item_kinds find_removeFirst ac_simps)
qed

lemma mset_activitySegments: "mset (segmentsItems (activitySegments activity contexts)) = mset activity + mset contexts"
  by (induction activity contexts rule: activitySegments.induct) (auto split: list.splits)

lemma activitySegments_order:
  "list_all (\<lambda>c. \<not> turnActivity c) contexts \<Longrightarrow>
   filter turnActivity (segmentsItems (activitySegments activity contexts)) = filter turnActivity activity"
proof (induction activity contexts rule: activitySegments.induct)
  case (1 contexts)
  then show ?case by (induction contexts) auto
qed (auto split: list.splits)

lemma activitySegments_item:
  "item \<in> set activity \<Longrightarrow> \<not> isSteerPrompt item \<Longrightarrow> SegItem item \<in> set (activitySegments activity contexts)"
  by (induction activity contexts rule: activitySegments.induct) (auto split: list.splits)

lemma activitySegments_ok: "list_all segment_ok (activitySegments activity contexts)"
proof (induction activity contexts rule: activitySegments.induct)
  case (1 contexts)
  then show ?case by (induction contexts) auto
qed (auto split: list.splits)

definition promptRow :: "transcript_item list \<Rightarrow> turn_segment list" where
  "promptRow items =
     (case find isUserPrompt items of
        None \<Rightarrow> []
      | Some userPrompt \<Rightarrow> [SegPrompt userPrompt (find isPromptContext items) (filter isSetupLifecycle items)])"

lemma classifyTurnItems_rows:
  "classifyTurnItems items =
     promptRow items @ groupToolSegments (activitySegments (turnRest items) (filter isSteerContext items))"
  by (auto simp: classifyTurnItems_def promptRow_def turnRest_def Let_def groupToolSegments_def split: option.splits)

lemma promptRow_activity: "filter turnActivity (segmentsItems (promptRow items)) = []"
proof -
  have "filter turnActivity (filter isSetupLifecycle items) = []" by (auto simp: turnActivity_def filter_empty_conv)
  then show ?thesis
    by (auto simp: promptRow_def turnActivity_def split: option.splits dest!: find_mem_Some)
qed

lemma classifyTurnItems_activity:
  "filter turnActivity (segmentsItems (classifyTurnItems items)) = filter turnActivity items"
proof -
  have "list_all (\<lambda>c. \<not> turnActivity c) (filter isSteerContext items)"
    by (auto simp: turnActivity_def list_all_iff)
  then show ?thesis
    by (simp add: classifyTurnItems_rows promptRow_activity activitySegments_order turnRest_activity)
qed

lemma classifyTurnItems_ok: "list_all segment_ok (classifyTurnItems items) \<and> separated (classifyTurnItems items)"
proof -
  let ?segs = "activitySegments (turnRest items) (filter isSteerContext items)"
  have "list_all segment_ok (groupToolSegments ?segs)" "separated (groupToolSegments ?segs)"
    by (simp_all add: groupToolSegments_def groupMixed_ok groupSameKind_ok activitySegments_ok groupMixed_separated)
  then show ?thesis
    by (auto simp: classifyTurnItems_rows promptRow_def separated_def successively_Cons split: option.splits)
qed

lemma classifyTurnItems_visible:
  assumes "item \<in> set items" and "turnActivity item" and "\<not> isSteerPrompt item" and "\<not> isGroupingEligible item"
  shows "SegItem item \<in> set (classifyTurnItems items)"
proof -
  let ?segs = "activitySegments (turnRest items) (filter isSteerContext items)"
  have "item \<in> set (filter turnActivity (turnRest items))" unfolding turnRest_activity using assms(1,2) by simp
  then have "SegItem item \<in> set ?segs" using assms(3) activitySegments_item by simp
  then have "SegItem item \<in> set (filter staysVisible (groupToolSegments ?segs))"
    unfolding visible_group using assms(4) by simp
  then show ?thesis unfolding classifyTurnItems_rows by simp
qed

text \<open>What a turn does not show: without a prompt to carry them, its setup and its prompt context.\<close>

definition hiddenInTurn :: "transcript_item list \<Rightarrow> transcript_item list" where
  "hiddenInTurn items =
     (case find isUserPrompt items of
        Some _ \<Rightarrow> []
      | None \<Rightarrow>
          filter isSetupLifecycle items @ (case find isPromptContext items of Some c \<Rightarrow> [c] | None \<Rightarrow> []))"

lemma mset_classifyTurnItems:
  "mset (segmentsItems (classifyTurnItems items)) + mset (hiddenInTurn items) = mset items"
  by (subst (3) mset_turnRest)
    (auto simp: classifyTurnItems_rows promptRow_def hiddenInTurn_def mset_activitySegments split: option.splits)

text \<open>A tool call that did not fail; its summary may hide it.\<close>

definition successfulTool :: "transcript_item \<Rightarrow> bool" where
  "successfulTool item = (case ti_variant item of ToolItem f \<Rightarrow> \<not> tf_isError f | _ \<Rightarrow> False)"

lemma eligible_successful: "isGroupingEligible item \<Longrightarrow> successfulTool item"
  by (simp add: isGroupingEligible_def successfulTool_def split: item_variant.splits)

text \<open>
  C8. The rows of a turn. The user's prompt, with the prompt context and the setup entries of the turn,
  is the first row. What the agent did follows in its order, steering messages included. A summary
  holds at least two tool calls, all successful and of a groupable kind, and counts them; of one kind
  when it says so. No two rows that could be collapsed are left next to each other. Every message,
  thought, plan, permission, error and failed tool call has a row of its own.
\<close>

theorem turn_rows_spec:
  "take (length (promptRow items)) (classifyTurnItems items) = promptRow items \<and>
   filter turnActivity (concat (map segmentItems (classifyTurnItems items))) = filter turnActivity items \<and>
   list_all segment_ok (classifyTurnItems items) \<and> separated (classifyTurnItems items) \<and>
   {item \<in> set items. turnActivity item \<and> \<not> isSteerPrompt item \<and> \<not> (isGroupingEligible item \<and> successfulTool item)} \<subseteq>
     {item. SegItem item \<in> set (classifyTurnItems items)}"
  using eligible_successful classifyTurnItems_activity [of items] classifyTurnItems_ok [of items] classifyTurnItems_visible [of _ items]
  by (auto simp: classifyTurnItems_rows segmentsItems_def)

end
