(* ===== verification/GroupingRuns.thy ===== *)
theory GroupingRuns
  imports Grouping
begin

text \<open>
  The runs of one session (\<open>splitIntoSessionRuns\<close>): a partition of the feed into consecutive pieces,
  each of one session, with the marker of a restart at the head of the session it starts.
\<close>

subsection \<open>The invariant of the splitting loop\<close>

text \<open>A marker that a new session starts; the source recognises it only with a session id.\<close>

definition isMarker :: "transcript_item \<Rightarrow> bool" where
  "isMarker item \<longleftrightarrow> isSystemPrompt item \<and> ti_sessionId item \<noteq> None"

definition belongsTo :: "string \<Rightarrow> transcript_item \<Rightarrow> bool" where
  "belongsTo sessionId item \<longleftrightarrow>
     (case ti_sessionId item of None \<Rightarrow> True | Some i \<Rightarrow> i = sessionId \<or> isSystemPrompt item)"

text \<open>A run does not end with the marker of the next one; a marker may only open the session itself.\<close>

definition endsBeforeMarker :: "session_run \<Rightarrow> bool" where
  "endsBeforeMarker run \<longleftrightarrow>
     (if isMarker (last (sr_items run))
      then list_all (\<lambda>item. ti_sessionId item = None) (butlast (sr_items run)) else True)"

definition run_ok :: "session_run \<Rightarrow> bool" where
  "run_ok run \<longleftrightarrow> sr_items run \<noteq> [] \<and> list_all (belongsTo (sr_sessionId run)) (sr_items run)"

abbreviation differentSessions :: "session_run list \<Rightarrow> bool" where
  "differentSessions runs \<equiv> successively (\<lambda>r r'. sr_sessionId r \<noteq> sr_sessionId r') runs"

definition runsItems :: "session_run list \<Rightarrow> transcript_item list" where
  "runsItems runs = concat (map sr_items runs)"

lemma runsItems_simps [simp]:
  "runsItems [] = []" "runsItems (r # rs) = sr_items r @ runsItems rs"
  "runsItems (rs @ rs') = runsItems rs @ runsItems rs'"
  by (simp_all add: runsItems_def)

definition split_wf :: "transcript_item list \<Rightarrow> run_split \<Rightarrow> bool" where
  "split_wf items s \<longleftrightarrow>
     (if rs_runs s = []
      then rs_preSessionBuffer s = items \<and> list_all (\<lambda>item. ti_sessionId item = None) items \<and>
           rs_pendingNewRunBuffer s = None
      else rs_preSessionBuffer s = [] \<and> runsItems (rs_runs s) @ pendingItems s = items \<and>
           list_all run_ok (rs_runs s) \<and> list_all endsBeforeMarker (rs_runs s) \<and>
           differentSessions (rs_runs s) \<and>
           list_all (\<lambda>item. ti_sessionId item = None \<or> isSystemPrompt item) (pendingItems s))"

lemma pendingItems_simps [simp]:
  "pendingItems (s\<lparr>rs_pendingNewRunBuffer := Some p\<rparr>) = p"
  "pendingItems (s\<lparr>rs_pendingNewRunBuffer := None\<rparr>) = []"
  "pendingItems (s\<lparr>rs_runs := rs\<rparr>) = pendingItems s"
  "pendingItems (s\<lparr>rs_preSessionBuffer := pre\<rparr>) = pendingItems s"
  by (simp_all add: pendingItems_def)

lemma run_split_fields [simp]:
  "rs_runs (openRun i its s) = rs_runs s @ [\<lparr>sr_sessionId = i, sr_items = its\<rparr>]"
  "rs_preSessionBuffer (openRun i its s) = rs_preSessionBuffer s"
  "rs_pendingNewRunBuffer (openRun i its s) = rs_pendingNewRunBuffer s"
  "rs_preSessionBuffer (pushToCurrentRun its s) = rs_preSessionBuffer s"
  "rs_pendingNewRunBuffer (pushToCurrentRun its s) = rs_pendingNewRunBuffer s"
  "pendingItems (openRun i its s) = pendingItems s"
  "pendingItems (pushToCurrentRun its s) = pendingItems s"
  by (simp_all add: openRun_def pushToCurrentRun_def)

lemma runs_pushToCurrentRun:
  "rs_runs s = rs @ [r] \<Longrightarrow> rs_runs (pushToCurrentRun its s) = rs @ [r\<lparr>sr_items := sr_items r @ its\<rparr>]"
  by (simp add: pushToCurrentRun_def)

lemma runs_nonempty: obtains "rs_runs s = []" | rs r where "rs_runs s = rs @ [r]"
  by (cases "rs_runs s" rule: rev_cases) auto

lemma differentSessions_snoc:
  "differentSessions (rs @ [r]) \<longleftrightarrow>
     differentSessions rs \<and> (rs = [] \<or> sr_sessionId (last rs) \<noteq> sr_sessionId r)"
  by (auto simp: successively_append_iff)

lemma belongs_pending:
  "list_all (\<lambda>item. ti_sessionId item = None \<or> isSystemPrompt item) p \<Longrightarrow> list_all (belongsTo i) p"
  by (auto simp: belongsTo_def list_all_iff split: option.splits)

lemma split_wf_start: "split_wf [] startSplit"
  by (simp add: split_wf_def startSplit_def)

lemma split_wf_first:
  assumes "split_wf items s" and "rs_runs s = []"
  shows "split_wf (items @ [item]) (splitStep item s)"
proof (cases "ti_sessionId item")
  case None
  then show ?thesis using assms by (simp add: split_wf_def splitStep_def)
next
  case (Some i)
  let ?r = "\<lparr>sr_sessionId = i, sr_items = items @ [item]\<rparr>"
  have pre: "list_all (\<lambda>item. ti_sessionId item = None) items" "rs_preSessionBuffer s = items"
    "rs_pendingNewRunBuffer s = None" using assms by (simp_all add: split_wf_def)
  have st: "rs_runs (splitStep item s) = [?r]" "rs_preSessionBuffer (splitStep item s) = []"
    "pendingItems (splitStep item s) = []"
    using Some assms(2) pre by (auto simp: splitStep_def Let_def pendingItems_def pushToCurrentRun_def)
  have "run_ok ?r" using pre(1) Some by (auto simp: run_ok_def belongsTo_def list_all_iff)
  moreover have "endsBeforeMarker ?r" using pre(1) by (simp add: endsBeforeMarker_def)
  ultimately show ?thesis using st by (simp add: split_wf_def)
qed

lemma split_wf_next:
  assumes "split_wf items s" and "rs_runs s = rs @ [r]"
  shows "split_wf (items @ [item]) (splitStep item s)"
proof -
  let ?p = "pendingItems s"
  have wf: "rs_preSessionBuffer s = []" "items = runsItems rs @ sr_items r @ ?p" "list_all run_ok rs" "run_ok r"
    "list_all endsBeforeMarker rs" "endsBeforeMarker r" "differentSessions (rs @ [r])"
    "list_all (\<lambda>item. ti_sessionId item = None \<or> isSystemPrompt item) ?p"
    using assms by (auto simp: split_wf_def)
  note facts = wf assms(2) belongs_pending [OF wf(8)]
  consider (parked) "ti_sessionId item = None \<and> rs_pendingNewRunBuffer s \<noteq> None \<or> isMarker item"
    | (gap) "ti_sessionId item = None" "rs_pendingNewRunBuffer s = None"
    | (same) "ti_sessionId item = Some (sr_sessionId r)" "\<not> isSystemPrompt item"
    | (other) i where "ti_sessionId item = Some i" "i \<noteq> sr_sessionId r" "\<not> isSystemPrompt item"
    by (cases "ti_sessionId item"; cases "isSystemPrompt item"; auto simp: isMarker_def)
  then show ?thesis
  proof cases
    case parked
    then have "splitStep item s = s\<lparr>rs_pendingNewRunBuffer := Some (?p @ [item])\<rparr>"
      using assms(2) by (auto simp: splitStep_def Let_def isMarker_def)
    then show ?thesis using facts parked by (auto simp: split_wf_def isMarker_def)
  next
    case gap
    let ?r = "r\<lparr>sr_items := sr_items r @ [item]\<rparr>"
    have "splitStep item s = pushToCurrentRun [item] s" using assms(2) gap by (simp add: splitStep_def)
    moreover have "?p = []" using gap by (simp add: pendingItems_def)
    moreover have "run_ok ?r" "endsBeforeMarker ?r"
      using wf(4) gap by (simp_all add: run_ok_def belongsTo_def endsBeforeMarker_def isMarker_def)
    ultimately show ?thesis using facts
      by (simp add: split_wf_def runs_pushToCurrentRun differentSessions_snoc)
  next
    case same
    let ?r = "r\<lparr>sr_items := sr_items r @ ?p @ [item]\<rparr>"
    have "rs_runs (splitStep item s) = rs @ [?r]" "pendingItems (splitStep item s) = []"
      "rs_preSessionBuffer (splitStep item s) = []"
      using assms(2) same wf(1)
      by (auto simp: splitStep_def Let_def runs_pushToCurrentRun pushToCurrentRun_def pendingItems_def split: option.splits)
    moreover have "run_ok ?r" "endsBeforeMarker ?r"
      using wf(4) same belongs_pending [OF wf(8)] by (simp_all add: run_ok_def belongsTo_def endsBeforeMarker_def isMarker_def)
    ultimately show ?thesis using facts by (simp add: split_wf_def differentSessions_snoc)
  next
    case other
    let ?r = "\<lparr>sr_sessionId = i, sr_items = ?p @ [item]\<rparr>"
    have "rs_runs (splitStep item s) = rs @ [r, ?r]" "pendingItems (splitStep item s) = []"
      "rs_preSessionBuffer (splitStep item s) = []"
      using assms(2) other wf(1) by (auto simp: splitStep_def Let_def pushToCurrentRun_def butlast_append)
    moreover have "run_ok ?r" "endsBeforeMarker ?r"
      using other belongs_pending [OF wf(8)] by (simp_all add: run_ok_def belongsTo_def endsBeforeMarker_def isMarker_def)
    moreover have "differentSessions ((rs @ [r]) @ [?r])" using wf(7) other by (simp only: differentSessions_snoc) simp
    ultimately show ?thesis using facts by (simp add: split_wf_def)
  qed
qed

lemma split_wf_step: "split_wf items s \<Longrightarrow> split_wf (items @ [item]) (splitStep item s)"
  by (cases s rule: runs_nonempty) (auto intro: split_wf_first split_wf_next)

lemma split_wf_fold: "split_wf items (fold splitStep items startSplit)"
  by (induction items rule: rev_induct) (simp_all add: split_wf_start split_wf_step)

subsection \<open>The runs\<close>

lemma finishSplit_spec:
  assumes "split_wf items s"
  shows "runsItems (finishSplit s) = items" and "list_all run_ok (finishSplit s)"
    and "differentSessions (finishSplit s)" and "list_all endsBeforeMarker (butlast (finishSplit s))"
proof -
  have "runsItems (finishSplit s) = items \<and> list_all run_ok (finishSplit s) \<and> differentSessions (finishSplit s) \<and>
    list_all endsBeforeMarker (butlast (finishSplit s))"
  proof (cases s rule: runs_nonempty)
    case 1
    then show ?thesis using assms
      by (auto simp: finishSplit_def split_wf_def run_ok_def belongsTo_def list_all_iff)
  next
    case (2 rs r)
    then show ?thesis using assms
      by (auto simp: finishSplit_def split_wf_def runs_pushToCurrentRun differentSessions_snoc run_ok_def
          pendingItems_def belongs_pending)
  qed
  then show "runsItems (finishSplit s) = items" and "list_all run_ok (finishSplit s)"
    and "differentSessions (finishSplit s)" and "list_all endsBeforeMarker (butlast (finishSplit s))" by simp_all
qed

lemmas session_runs = finishSplit_spec [OF split_wf_fold, folded splitIntoSessionRuns_def]

text \<open>
  Cutting a feed into session runs loses and reorders nothing: the runs put one after the other are
  the feed. No run is empty, neighbours belong to different sessions, and an item with a session id is
  in a run of that session unless it is a system prompt. A run followed by another one does not end
  with a system prompt, unless that is the very item that named its session: the system prompt of a
  restart is shown below the boundary of the session it starts.
\<close>

theorem session_runs_spec:
  "concat (map sr_items (splitIntoSessionRuns items)) = items \<and>
   list_all run_ok (splitIntoSessionRuns items) \<and>
   successively (\<lambda>r r'. sr_sessionId r \<noteq> sr_sessionId r') (splitIntoSessionRuns items) \<and>
   list_all endsBeforeMarker (butlast (splitIntoSessionRuns items))"
  using session_runs [of items] by (simp add: runsItems_def)

subsection \<open>Older items in front\<close>

text \<open>Two states of the loop that differ by runs in front stay so.\<close>

definition extends :: "session_run list \<Rightarrow> run_split \<Rightarrow> run_split \<Rightarrow> bool" where
  "extends older s' s \<longleftrightarrow> rs_runs s \<noteq> [] \<and> s' = s\<lparr>rs_runs := older @ rs_runs s\<rparr>"

lemma extends_push: "extends older s' s \<Longrightarrow> extends older (pushToCurrentRun its s') (pushToCurrentRun its s)"
  by (cases s rule: runs_nonempty) (auto simp: extends_def pushToCurrentRun_def butlast_append)

lemma extends_step: "extends older s' s \<Longrightarrow> extends older (splitStep item s') (splitStep item s)"
proof -
  assume ext: "extends older s' s"
  have "extends older (openRun i (pendingItems s') s') (openRun i (pendingItems s) s)" for i
    using ext by (simp add: extends_def openRun_def)
  moreover have upd: "extends older (x\<lparr>rs_pendingNewRunBuffer := p\<rparr>) (y\<lparr>rs_pendingNewRunBuffer := p\<rparr>)"
    if "extends older x y" for x y p using that by (auto simp: extends_def)
  moreover have "rs_runs s' \<noteq> []" "rs_runs s \<noteq> []" "last (rs_runs s') = last (rs_runs s)" "pendingItems s' = pendingItems s"
    "rs_pendingNewRunBuffer s' = rs_pendingNewRunBuffer s" using ext by (auto simp: extends_def)
  ultimately show ?thesis
    using ext by (auto simp: splitStep_def Let_def intro!: extends_push upd split: option.splits)
qed

lemma extends_finish: "extends older s' s \<Longrightarrow> finishSplit s' = older @ finishSplit s"
  by (cases s rule: runs_nonempty) (auto simp: finishSplit_def extends_def pushToCurrentRun_def butlast_append)

lemma extends_fold: "extends older s' s \<Longrightarrow> finishSplit (fold splitStep items s') = older @ finishSplit (fold splitStep items s)"
  by (induction items arbitrary: s' s) (auto simp: extends_finish extends_step)

text \<open>An ordinary item of a session closes the buffers and is in the current run.\<close>

lemma after_regular:
  assumes "ti_sessionId item = Some i" and "\<not> isSystemPrompt item"
  shows "rs_runs (splitStep item s) \<noteq> [] \<and> sr_sessionId (last (rs_runs (splitStep item s))) = i"
    and "split_wf items s \<Longrightarrow> rs_pendingNewRunBuffer (splitStep item s) = None"
  using assms by (cases s rule: runs_nonempty; auto simp: splitStep_def Let_def pushToCurrentRun_def split_wf_def)+

text \<open>
  An ordinary item names its session. A stretch of the feed ends in a session when only items without
  a session follow its last ordinary item, and a restart is announced by a marker and what is parked behind it.
\<close>

definition ordinaryIn :: "string \<Rightarrow> transcript_item \<Rightarrow> bool" where
  "ordinaryIn i item \<longleftrightarrow> ti_sessionId item = Some i \<and> \<not> isSystemPrompt item"

definition endsIn :: "string \<Rightarrow> transcript_item list \<Rightarrow> bool" where
  "endsIn i items \<longleftrightarrow>
     (case dropWhile (\<lambda>item. ti_sessionId item = None) (rev items) of [] \<Rightarrow> False | item # _ \<Rightarrow> ordinaryIn i item)"

definition announcesRestart :: "transcript_item list \<Rightarrow> bool" where
  "announcesRestart parked \<longleftrightarrow>
     (case parked of [] \<Rightarrow> True | item # _ \<Rightarrow> isMarker item) \<and>
     list_all (\<lambda>item. ti_sessionId item = None \<or> isSystemPrompt item) parked"

lemma endsInE:
  assumes "endsIn i items"
  obtains before item gap where "items = before @ item # gap" and "ordinaryIn i item"
    and "list_all (\<lambda>item. ti_sessionId item = None) gap"
proof -
  let ?none = "\<lambda>item. ti_sessionId item = None"
  obtain item before where drop: "dropWhile ?none (rev items) = item # before" and item: "ordinaryIn i item"
    using assms by (auto simp: endsIn_def split: list.splits)
  have "rev items = takeWhile ?none (rev items) @ item # before" using drop by (metis takeWhile_dropWhile_id)
  then have "items = rev before @ item # rev (takeWhile ?none (rev items))"
    by (metis rev.simps(2) rev_append rev_rev_ident append_assoc append_Cons append_Nil)
  moreover have "list_all ?none (rev (takeWhile ?none (rev items)))"
    by (auto simp: list_all_iff dest: set_takeWhileD)
  ultimately show ?thesis using item that by blast
qed

lemma gap_steps:
  assumes "list_all (\<lambda>item. ti_sessionId item = None) gap" and "rs_runs s \<noteq> []"
    and "sr_sessionId (last (rs_runs s)) = i" and "rs_pendingNewRunBuffer s = None"
  shows "rs_runs (fold splitStep gap s) \<noteq> [] \<and> sr_sessionId (last (rs_runs (fold splitStep gap s))) = i \<and>
    rs_pendingNewRunBuffer (fold splitStep gap s) = None"
  using assms
proof (induction gap arbitrary: s)
  case (Cons item gap)
  have "splitStep item s = pushToCurrentRun [item] s" using Cons.prems by (simp add: splitStep_def)
  then show ?case using Cons by (cases s rule: runs_nonempty) (simp_all add: runs_pushToCurrentRun)
qed simp

lemma endsIn_state:
  assumes "endsIn i items"
  shows "rs_runs (fold splitStep (older @ items) startSplit) \<noteq> []"
    and "sr_sessionId (last (rs_runs (fold splitStep (older @ items) startSplit))) = i"
    and "rs_pendingNewRunBuffer (fold splitStep (older @ items) startSplit) = None"
    and "rs_preSessionBuffer (fold splitStep (older @ items) startSplit) = []"
proof -
  obtain before item gap where items: "items = before @ item # gap" "ordinaryIn i item"
    "list_all (\<lambda>item. ti_sessionId item = None) gap" using assms by (rule endsInE)
  let ?s = "splitStep item (fold splitStep (older @ before) startSplit)"
  have "rs_runs ?s \<noteq> []" "sr_sessionId (last (rs_runs ?s)) = i" "rs_pendingNewRunBuffer ?s = None"
    using items(2) after_regular [of item i] split_wf_fold [of "older @ before"] by (auto simp: ordinaryIn_def)
  then show runs: "rs_runs (fold splitStep (older @ items) startSplit) \<noteq> []"
    and "sr_sessionId (last (rs_runs (fold splitStep (older @ items) startSplit))) = i"
    and "rs_pendingNewRunBuffer (fold splitStep (older @ items) startSplit) = None"
    using gap_steps [OF items(3), of ?s] items(1) by simp_all
  then show "rs_preSessionBuffer (fold splitStep (older @ items) startSplit) = []"
    using split_wf_fold [of "older @ items"] by (simp add: split_wf_def)
qed

lemma parked_steps:
  assumes "list_all (\<lambda>item. ti_sessionId item = None \<or> isSystemPrompt item) parked" and "rs_runs s \<noteq> []"
    and "rs_pendingNewRunBuffer s = Some p"
  shows "fold splitStep parked s = s\<lparr>rs_pendingNewRunBuffer := Some (p @ parked)\<rparr>"
  using assms
proof (induction parked arbitrary: s p)
  case (Cons item parked)
  then have "splitStep item s = s\<lparr>rs_pendingNewRunBuffer := Some (p @ [item])\<rparr>"
    by (auto simp: splitStep_def Let_def pendingItems_def split: option.splits)
  then show ?case using Cons.prems Cons.IH [of "s\<lparr>rs_pendingNewRunBuffer := Some (p @ [item])\<rparr>" "p @ [item]"] by simp
qed simp

lemma restart_steps:
  assumes "announcesRestart parked" and "rs_runs s \<noteq> []" and "rs_pendingNewRunBuffer s = None"
  shows "fold splitStep parked s = s\<lparr>rs_pendingNewRunBuffer := (if parked = [] then None else Some parked)\<rparr>"
proof (cases parked)
  case (Cons item later)
  then have "splitStep item s = s\<lparr>rs_pendingNewRunBuffer := Some [item]\<rparr>"
    using assms by (auto simp: announcesRestart_def isMarker_def splitStep_def Let_def pendingItems_def)
  then show ?thesis
    using Cons assms parked_steps [of later "s\<lparr>rs_pendingNewRunBuffer := Some [item]\<rparr>" "[item]"]
    by (simp add: announcesRestart_def)
qed (use assms in simp)

text \<open>The runs from the session change on: they are the same whatever the feed holds before it.\<close>

definition runsFrom :: "string \<Rightarrow> transcript_item list \<Rightarrow> transcript_item list \<Rightarrow> session_run list" where
  "runsFrom j opening newer =
     finishSplit (fold splitStep newer (startSplit\<lparr>rs_runs := [\<lparr>sr_sessionId = j, sr_items = opening\<rparr>]\<rparr>))"

lemma splitIntoSessionRuns_change:
  assumes "endsIn i shown" and "announcesRestart parked" and "ordinaryIn j n1" and "i \<noteq> j"
  shows "splitIntoSessionRuns (older @ shown @ parked @ n1 # newer) =
    splitIntoSessionRuns (older @ shown) @ runsFrom j (parked @ [n1]) newer"
proof -
  let ?s = "fold splitStep (older @ shown) startSplit"
  let ?base = "startSplit\<lparr>rs_runs := [\<lparr>sr_sessionId = j, sr_items = parked @ [n1]\<rparr>]\<rparr>"
  note s = endsIn_state [OF assms(1), of older]
  have "extends (rs_runs ?s) (splitStep n1 (fold splitStep parked ?s)) ?base"
    unfolding restart_steps [OF assms(2) s(1,3)]
    using s assms(3,4)
    by (cases ?s rule: runs_nonempty) (auto simp: extends_def ordinaryIn_def splitStep_def startSplit_def Let_def pushToCurrentRun_def
        openRun_def pendingItems_def butlast_append)
  then have "splitIntoSessionRuns (older @ shown @ parked @ n1 # newer) = rs_runs ?s @ runsFrom j (parked @ [n1]) newer"
    by (simp add: splitIntoSessionRuns_def extends_fold runsFrom_def)
  moreover have "rs_runs ?s = splitIntoSessionRuns (older @ shown)"
    using s by (simp add: splitIntoSessionRuns_def finishSplit_def)
  ultimately show ?thesis by simp
qed

lemma runsFrom_alone: "ordinaryIn j n1 \<Longrightarrow> runsFrom j [n1] newer = splitIntoSessionRuns (n1 # newer)"
  by (simp add: runsFrom_def splitIntoSessionRuns_def splitStep_def startSplit_def ordinaryIn_def Let_def openRun_def
      pushToCurrentRun_def pendingItems_def)

definition opensWith :: "string \<Rightarrow> transcript_item \<Rightarrow> session_run list \<Rightarrow> bool" where
  "opensWith j first runs \<longleftrightarrow> (\<exists>its later. runs = \<lparr>sr_sessionId = j, sr_items = first # its\<rparr> # later)"

lemma opensWith_push: "opensWith j first (rs_runs s) \<Longrightarrow> opensWith j first (rs_runs (pushToCurrentRun its s))"
  by (cases s rule: runs_nonempty) (auto simp: opensWith_def runs_pushToCurrentRun append_eq_Cons_conv)

lemma opensWith_step: "opensWith j first (rs_runs s) \<Longrightarrow> opensWith j first (rs_runs (splitStep item s))"
proof -
  assume opens: "opensWith j first (rs_runs s)"
  then have ne: "rs_runs s \<noteq> []" by (auto simp: opensWith_def)
  have opened: "opensWith j first (rs_runs (openRun i its s))" for i its using opens by (auto simp: opensWith_def)
  show ?thesis
    using opens opened ne by (auto simp: splitStep_def Let_def intro!: opensWith_push split: option.splits)
qed

lemma opensWith_runsFrom: "opensWith j first (runsFrom j (first # its) newer)"
proof -
  have "opensWith j first (rs_runs (fold splitStep newer s))" if "opensWith j first (rs_runs s)" for s
    using that by (induction newer arbitrary: s) (simp_all add: opensWith_step)
  then have "opensWith j first (rs_runs (fold splitStep newer (startSplit\<lparr>rs_runs := [\<lparr>sr_sessionId = j, sr_items = first # its\<rparr>]\<rparr>)))"
    by (simp add: opensWith_def)
  then show ?thesis unfolding runsFrom_def finishSplit_def by (auto simp: Let_def opensWith_push split: option.splits)
      (auto simp: opensWith_def)
qed

end
