(* ===== verification/GroupingBlocks.thy ===== *)
theory GroupingBlocks
  imports GroupingRows GroupingRuns
begin

text \<open>
  The blocks of a feed: which items they show, and how their keys change when older history is put
  in front.
\<close>

subsection \<open>The buckets of a run\<close>

definition turnIds :: "transcript_item list \<Rightarrow> string list" where
  "turnIds items =
     fold (\<lambda>item ts. if truthy (ti_turnId item) then sadd ts (the (ti_turnId item)) else ts) items []"

definition turnItems :: "string \<Rightarrow> transcript_item list \<Rightarrow> transcript_item list" where
  "turnItems t items = filter (\<lambda>item. ti_turnId item = Some t) items"

lemma turnIds_snoc:
  "turnIds (items @ [item]) =
     (if truthy (ti_turnId item) then sadd (turnIds items) (the (ti_turnId item)) else turnIds items)"
  by (simp add: turnIds_def)

lemma distinct_turnIds [simp]: "distinct (turnIds items)"
  by (induction items rule: rev_induct) (simp_all add: turnIds_snoc turnIds_def [of "[]"])

lemma set_turnIds: "set (turnIds items) = {t. t \<noteq> [] \<and> (\<exists>item\<in>set items. ti_turnId item = Some t)}"
  by (induction items rule: rev_induct) (auto simp: turnIds_snoc turnIds_def [of "[]"] truthy_def split: option.splits)

lemma turnItems_simps [simp]:
  "turnItems t [] = []"
  "turnItems t (items @ [item]) = (if ti_turnId item = Some t then turnItems t items @ [item] else turnItems t items)"
  by (simp_all add: turnItems_def)

lemma turnItems_absent: "t \<noteq> [] \<Longrightarrow> t \<notin> set (turnIds items) \<Longrightarrow> turnItems t items = []"
  by (auto simp: set_turnIds turnItems_def filter_empty_conv)

lemma mset_jset_append:
  "mset (concat (jvals (jset m k (jget_or m k [] @ xs)))) = mset (concat (jvals m)) + mset xs"
  by (induction m) (auto simp: jget_or_def)

definition turnEntries :: "display_entry list \<Rightarrow> string list" where
  "turnEntries es = concat (map (\<lambda>e. case e of TurnEntry t \<Rightarrow> [t] | SingleEntry _ \<Rightarrow> []) es)"

definition singleEntries :: "display_entry list \<Rightarrow> transcript_item list" where
  "singleEntries es = concat (map (\<lambda>e. case e of TurnEntry _ \<Rightarrow> [] | SingleEntry it \<Rightarrow> [it]) es)"

lemma entries_simps [simp]:
  "turnEntries [] = []" "singleEntries [] = []"
  "turnEntries (es @ es') = turnEntries es @ turnEntries es'" "singleEntries (es @ es') = singleEntries es @ singleEntries es'"
  "turnEntries (TurnEntry t # es) = t # turnEntries es" "singleEntries (TurnEntry t # es) = singleEntries es"
  "turnEntries (SingleEntry it # es) = turnEntries es" "singleEntries (SingleEntry it # es) = it # singleEntries es"
  by (simp_all add: turnEntries_def singleEntries_def)

definition batchItems :: "run_display \<Rightarrow> transcript_item list" where
  "batchItems r = (case rd_openBatch r of Some b \<Rightarrow> b | None \<Rightarrow> [])"

definition buckets :: "transcript_item list \<Rightarrow> (string, transcript_item list) jsmap" where
  "buckets items = map (\<lambda>t. (t, turnItems t items)) (turnIds items)"

definition display_wf :: "transcript_item list \<Rightarrow> run_display \<Rightarrow> bool" where
  "display_wf items r \<longleftrightarrow>
     rd_turnBuckets r = buckets items \<and> turnEntries (rd_displayOrder r) = turnIds items \<and>
     jwf (rd_pendingForTurn r) \<and> set (jkeys (rd_pendingForTurn r)) \<subseteq> set (turnIds items) \<and>
     mset items = mset (singleEntries (rd_displayOrder r)) + mset (concat (jvals (rd_turnBuckets r))) +
       mset (concat (jvals (rd_pendingForTurn r))) + mset (batchItems r)"

lemma buckets_snoc:
  assumes "ti_turnId item = Some t" and "t \<noteq> []"
  shows "buckets (items @ [item]) = jset (buckets items) t (jget_or (buckets items) t [] @ [item])"
proof -
  have others: "map (\<lambda>t'. (t', turnItems t' (items @ [item]))) ts = map (\<lambda>t'. (t', turnItems t' items)) ts"
    if "t \<notin> set ts" for ts using that assms by auto
  show ?thesis
  proof (cases "t \<in> set (turnIds items)")
    case True
    then show ?thesis using assms
      by (auto simp: buckets_def turnIds_snoc sadd_def jset_keys jget_keys jget_or_def truthy_def)
  next
    case False
    then have "\<not> jhas (buckets items) t" by (simp add: buckets_def jhas_iff comp_def)
    then show ?thesis using assms False others [OF False] turnItems_absent [OF assms(2) False]
      by (simp add: buckets_def turnIds_snoc sadd_def jset_absent jget_or_def jget_keys truthy_def)
  qed
qed

lemma display_wf_turn:
  assumes "display_wf items r" and "ti_turnId item = Some t" and "t \<noteq> []"
  shows "display_wf (items @ [item]) (addToBucket t item (sealBatch t r))"
proof -
  let ?r = "sealBatch t r"
  have seal: "rd_turnBuckets ?r = rd_turnBuckets r" "rd_displayOrder ?r = rd_displayOrder r" "batchItems ?r = []"
    "jwf (rd_pendingForTurn ?r)"
    "mset (concat (jvals (rd_pendingForTurn ?r))) = mset (concat (jvals (rd_pendingForTurn r))) + mset (batchItems r)"
    using assms(1)
    by (auto simp: sealBatch_def display_wf_def batchItems_def mset_jset_append split: option.splits)
  have keys: "set (jkeys (rd_pendingForTurn ?r)) \<subseteq> insert t (set (turnIds items))"
  proof (cases "rd_openBatch r")
    case (Some b)
    then have "set (jkeys (rd_pendingForTurn ?r)) = insert t (set (jkeys (rd_pendingForTurn r)))"
      by (simp add: sealBatch_def jkeys_jset del: set_map)
    then show ?thesis using assms(1) unfolding display_wf_def by blast
  qed (use assms(1) in \<open>auto simp: sealBatch_def display_wf_def\<close>)
  have "mset (concat (jvals (rd_turnBuckets (addToBucket t item ?r)))) = add_mset item (mset (concat (jvals (rd_turnBuckets r))))"
    by (simp add: addToBucket_def seal(1) mset_jset_append)
  moreover have "jhas (rd_turnBuckets r) t \<longleftrightarrow> t \<in> set (turnIds items)"
    using assms(1) by (simp add: display_wf_def buckets_def jhas_iff comp_def)
  ultimately show ?thesis
    using assms seal keys
    by (auto simp: display_wf_def addToBucket_def buckets_snoc turnIds_snoc sadd_def truthy_def batchItems_def)
qed

lemma display_wf_step: "display_wf items r \<Longrightarrow> display_wf (items @ [item]) (displayStep item r)"
proof (cases "truthy (ti_turnId item)")
  case True
  then show "display_wf items r \<Longrightarrow> ?thesis"
    by (auto simp: displayStep_def truthy_def split: option.splits intro: display_wf_turn)
next
  case False
  have "buckets (items @ [item]) = buckets items"
    using False by (auto simp: buckets_def turnIds_snoc set_turnIds truthy_def split: option.splits)
  then show "display_wf items r \<Longrightarrow> ?thesis"
    using False by (auto simp: display_wf_def displayStep_def turnIds_snoc batchItems_def split: option.splits)
qed

lemma display_wf_start: "display_wf [] startDisplay"
  by (simp add: display_wf_def startDisplay_def buckets_def turnIds_def batchItems_def)

lemma display_wf_fold: "display_wf items (fold displayStep items startDisplay)"
  by (induction items rule: rev_induct) (simp_all add: display_wf_step display_wf_start)

subsection \<open>What the blocks show\<close>

lemma flattenDisplayBlocks_simps [simp]:
  "flattenDisplayBlocks [] = []"
  "flattenDisplayBlocks (b # bs) = blockItems b @ flattenDisplayBlocks bs"
  "flattenDisplayBlocks (bs @ bs') = flattenDisplayBlocks bs @ flattenDisplayBlocks bs'"
  "flattenDisplayBlocks (map SingleBlock items) = items"
  by (induction items) (simp_all add: flattenDisplayBlocks_def)

definition hiddenItems :: "transcript_item list \<Rightarrow> transcript_item list" where
  "hiddenItems items = concat (map (\<lambda>t. hiddenInTurn (turnItems t items)) (turnIds items))"

lemma flatten_turnBlocks:
  "mset (flattenDisplayBlocks (turnBlocks t before items)) + mset (hiddenInTurn items) = mset before + mset items"
  using mset_classifyTurnItems [of items] by (auto simp: turnBlocks_def Let_def segmentsItems_def)

lemma flatten_entries:
  assumes "rd_turnBuckets r = buckets items" and "set (turnEntries es) \<subseteq> set (turnIds items)"
  shows "mset (flattenDisplayBlocks (concat (map (entryBlocks r) es))) +
      mset (concat (map (\<lambda>t. hiddenInTurn (turnItems t items)) (turnEntries es))) =
    mset (singleEntries es) + mset (concat (map (\<lambda>t. jget_or (rd_pendingForTurn r) t []) (turnEntries es))) +
      mset (concat (map (\<lambda>t. turnItems t items) (turnEntries es)))"
  using assms(2)
proof (induction es)
  case (Cons e es)
  show ?case
  proof (cases e)
    case (TurnEntry t)
    have t: "t \<in> set (turnIds items)" using Cons.prems TurnEntry by simp
    have ne: "turnItems t items \<noteq> []" using t by (auto simp: set_turnIds turnItems_def filter_empty_conv)
    have "entryBlocks r e = turnBlocks t (jget_or (rd_pendingForTurn r) t []) (turnItems t items)"
      using t ne assms(1) TurnEntry by (simp add: buckets_def jget_or_def jget_keys)
    then have eq: "flattenDisplayBlocks (concat (map (entryBlocks r) (e # es))) =
        flattenDisplayBlocks (turnBlocks t (jget_or (rd_pendingForTurn r) t []) (turnItems t items)) @
        flattenDisplayBlocks (concat (map (entryBlocks r) es))" by (simp only: list.map concat.simps flattenDisplayBlocks_simps)
    have ih: "set (turnEntries es) \<subseteq> set (turnIds items)" using Cons.prems TurnEntry by simp
    show ?thesis
      using arg_cong2 [OF flatten_turnBlocks [of t "jget_or (rd_pendingForTurn r) t []" "turnItems t items"] Cons.IH [OF ih],
          of "(+)"] TurnEntry
      unfolding eq by (simp add: add_ac)
  qed (use Cons in simp)
qed simp

lemma mset_concat_distinct: "distinct ts \<Longrightarrow> mset (concat (map f ts)) = (\<Sum>t\<in>set ts. mset (f t))"
  by (induction ts) auto

lemma mset_pending_keys:
  fixes m :: "(string, transcript_item list) jsmap"
  assumes "jwf m" and "distinct ts" and "set (jkeys m) \<subseteq> set ts"
  shows "mset (concat (map (\<lambda>t. jget_or m t []) ts)) = mset (concat (jvals m))"
proof -
  have "mset (concat (map (\<lambda>t. jget_or m t []) ts)) = (\<Sum>t\<in>set ts. mset (jget_or m t []))"
    by (rule mset_concat_distinct [OF assms(2)])
  also have "\<dots> = (\<Sum>t\<in>set (jkeys m). mset (jget_or m t []))"
    using assms(3) by (intro sum.mono_neutral_right) (auto simp: jget_or_def dest: map_of_SomeD split: option.splits intro: rev_image_eqI)
  also have "\<dots> = mset (concat (map (\<lambda>t. jget_or m t []) (jkeys m)))"
    by (rule mset_concat_distinct [symmetric]) (use assms(1) in \<open>simp add: jwf_def\<close>)
  also have "map (\<lambda>t. jget_or m t []) (jkeys m) = jvals m"
    using assms(1) by (auto simp: jget_or_def jwf_def intro!: map_cong dest: map_of_is_SomeI)
  finally show ?thesis .
qed

lemma mset_buildBlocksForRun:
  "mset (flattenDisplayBlocks (buildBlocksForRun items)) + mset (hiddenItems items) = mset items"
proof -
  let ?r = "fold displayStep items startDisplay"
  have wf: "display_wf items ?r" by (rule display_wf_fold)
  then have b: "rd_turnBuckets ?r = buckets items" "turnEntries (rd_displayOrder ?r) = turnIds items"
    by (simp_all add: display_wf_def)
  have "flattenDisplayBlocks (buildBlocksForRun items) =
      flattenDisplayBlocks (concat (map (entryBlocks ?r) (rd_displayOrder ?r))) @ batchItems ?r"
    by (auto simp: buildBlocksForRun_def Let_def batchItems_def split: option.splits)
  moreover have "mset (concat (map (\<lambda>t. jget_or (rd_pendingForTurn ?r) t []) (turnIds items))) =
      mset (concat (jvals (rd_pendingForTurn ?r)))"
    using wf by (intro mset_pending_keys) (simp_all add: display_wf_def)
  moreover have "jvals (rd_turnBuckets ?r) = map (\<lambda>t. turnItems t items) (turnIds items)"
    by (simp add: b buckets_def comp_def)
  ultimately show ?thesis
    using flatten_entries [OF b(1), of "rd_displayOrder ?r"] wf by (simp add: b(2) hiddenItems_def display_wf_def)
qed

text \<open>The blocks of all runs, boundaries apart.\<close>

definition hiddenInFeed :: "transcript_item list \<Rightarrow> transcript_item list" where
  "hiddenInFeed items = concat (map (hiddenItems \<circ> sr_items) (splitIntoSessionRuns items))"

lemma flatten_runBlocks: "flattenDisplayBlocks (runBlocks live n i run) = flattenDisplayBlocks (buildBlocksForRun (sr_items run))"
  by (simp add: runBlocks_def)

lemma flatten_runs:
  "flattenDisplayBlocks (concat (map (\<lambda>(i, run). runBlocks live n i run) (enumerate k runs))) =
   concat (map (\<lambda>run. flattenDisplayBlocks (buildBlocksForRun (sr_items run))) runs)"
  by (induction runs arbitrary: k) (simp_all add: flatten_runBlocks)

lemma buildBlocksForRun_Nil [simp]: "buildBlocksForRun [] = []"
  by (simp add: buildBlocksForRun_def startDisplay_def)

lemma flatten_buildTranscriptDisplayBlocks:
  "flattenDisplayBlocks (buildTranscriptDisplayBlocks items live) =
   concat (map (\<lambda>run. flattenDisplayBlocks (buildBlocksForRun (sr_items run))) (splitIntoSessionRuns items))"
  by (cases "splitIntoSessionRuns items")
    (auto simp: buildTranscriptDisplayBlocks_def Let_def flatten_runs flatten_runBlocks)

lemma mset_display_blocks:
  "mset (flattenDisplayBlocks (buildTranscriptDisplayBlocks items live)) + mset (hiddenInFeed items) = mset items"
proof -
  have "mset (concat (map (\<lambda>run. flattenDisplayBlocks (buildBlocksForRun (sr_items run))) runs)) +
      mset (concat (map (hiddenItems \<circ> sr_items) runs)) = mset (runsItems runs)" for runs
  proof (induction runs)
    case (Cons run runs)
    show ?case using arg_cong2 [OF mset_buildBlocksForRun [of "sr_items run"] Cons.IH, of "(+)"] by (simp add: add_ac)
  qed simp
  from this [of "splitIntoSessionRuns items"] show ?thesis
    by (simp only: flatten_buildTranscriptDisplayBlocks hiddenInFeed_def session_runs(1))
qed

lemma hiddenInFeed_kinds: "it \<in> set (hiddenInFeed items) \<Longrightarrow> isSetupLifecycle it \<or> isPromptContext it"
  by (auto simp: hiddenInFeed_def hiddenItems_def hiddenInTurn_def split: option.splits dest!: find_mem_Some find_mem_Some [OF sym])

text \<open>
  C7. The blocks of a feed show every item exactly once, apart from the items that are hidden on
  purpose: in a turn of a session run without a user prompt, the setup entries and the prompt context.
\<close>

theorem display_blocks_complete:
  "mset (flattenDisplayBlocks (buildTranscriptDisplayBlocks items live)) + mset (hiddenInFeed items) = mset items \<and>
   mset (filter (\<lambda>it. \<not> isSetupLifecycle it \<and> \<not> isPromptContext it)
     (flattenDisplayBlocks (buildTranscriptDisplayBlocks items live))) =
   mset (filter (\<lambda>it. \<not> isSetupLifecycle it \<and> \<not> isPromptContext it) items)"
proof (intro conjI)
  let ?P = "\<lambda>it. \<not> isSetupLifecycle it \<and> \<not> isPromptContext it"
  have "filter ?P (hiddenInFeed items) = []" using hiddenInFeed_kinds by (auto simp: filter_empty_conv)
  then have "mset (filter ?P (flattenDisplayBlocks (buildTranscriptDisplayBlocks items live))) =
      filter_mset ?P (mset (flattenDisplayBlocks (buildTranscriptDisplayBlocks items live)) + mset (hiddenInFeed items))"
    by (simp flip: mset_filter)
  then show "mset (filter ?P (flattenDisplayBlocks (buildTranscriptDisplayBlocks items live))) = mset (filter ?P items)"
    by (simp add: mset_display_blocks)
qed (rule mset_display_blocks)

text \<open>
  C6. From the frames of an agent to its screen: when the frames have distinct sequence numbers, the
  blocks show no item twice, and show exactly the items of the transcript that are not hidden on purpose.
\<close>

theorem feed_shows_items_once:
  assumes "transcriptAfter dash number fixed4 es = Some s" and "list_all plain_frame es" and "distinct (map oe_seq es)"
  shows "distinct (map ti_id (flattenDisplayBlocks (buildTranscriptDisplayBlocks (ts_items s) live))) \<and>
    set (flattenDisplayBlocks (buildTranscriptDisplayBlocks (ts_items s) live)) =
      set (ts_items s) - set (hiddenInFeed (ts_items s))"
proof -
  let ?f = "flattenDisplayBlocks (buildTranscriptDisplayBlocks (ts_items s) live)" and ?h = "hiddenInFeed (ts_items s)"
  have eq: "mset (?f @ ?h) = mset (ts_items s)" using mset_display_blocks [of "ts_items s" live] by simp
  have "distinct (map ti_id (?f @ ?h))"
    using distinct_itemIds [OF assms] mset_map [of ti_id "?f @ ?h"] mset_map [of ti_id "ts_items s"] eq
    by (metis mset_eq_imp_distinct_iff)
  then have "distinct (map ti_id ?f)" "set ?f \<inter> set ?h = {}" by auto
  then show ?thesis using mset_eq_setD [OF eq] by auto
qed

theorem feed_shows_items_once_witness:
  "\<exists>s. transcriptAfter [] id stringify [chunkFrame 1 ''a'', thoughtFrame 2, chunkFrame 3 ''b''] = Some s \<and>
     distinct (map ti_id (flattenDisplayBlocks (buildTranscriptDisplayBlocks (ts_items s) None)))"
proof -
  have "\<not> Option.is_none (transcriptAfter [] id stringify [chunkFrame 1 ''a'', thoughtFrame 2, chunkFrame 3 ''b''])"
    by code_simp
  then obtain s where s: "transcriptAfter [] id stringify [chunkFrame 1 ''a'', thoughtFrame 2, chunkFrame 3 ''b''] = Some s"
    by (auto simp: Option.is_none_def)
  have plain: "list_all plain_frame [chunkFrame 1 ''a'', thoughtFrame 2, chunkFrame 3 ''b'']"
    "distinct (map oe_seq [chunkFrame 1 ''a'', thoughtFrame 2, chunkFrame 3 ''b''])" by code_simp+
  show ?thesis using s conjunct1 [OF feed_shows_items_once [OF s plain]] by (intro exI [of _ s] conjI)
qed

subsection \<open>Keys\<close>

definition boundaryKey :: "session_run \<Rightarrow> string" where
  "boundaryKey run =
     ''session-boundary:'' @ sr_sessionId run @ '':'' @
     (case sr_items run of [] \<Rightarrow> sr_sessionId run | it # _ \<Rightarrow> ti_id it)"

definition runKeys :: "session_run \<Rightarrow> string list" where
  "runKeys run = map getDisplayBlockKey (buildBlocksForRun (sr_items run))"

lemma keys_runBlocks:
  "map getDisplayBlockKey (runBlocks live n i run) = (if i > 0 then [boundaryKey run] else []) @ runKeys run"
  by (simp add: runBlocks_def boundaryFor_def boundaryKey_def runKeys_def)

lemma keys_later_runs:
  "k > 0 \<Longrightarrow> map getDisplayBlockKey (concat (map (\<lambda>(i, run). runBlocks live n i run) (enumerate k runs))) =
   concat (map (\<lambda>run. boundaryKey run # runKeys run) runs)"
  by (induction runs arbitrary: k) (simp_all add: keys_runBlocks)

definition feedKeys :: "session_run list \<Rightarrow> string list" where
  "feedKeys runs =
     (case runs of [] \<Rightarrow> [] | run # later \<Rightarrow> runKeys run @ concat (map (\<lambda>run. boundaryKey run # runKeys run) later))"

lemma keys_buildTranscriptDisplayBlocks:
  "map getDisplayBlockKey (buildTranscriptDisplayBlocks items live) = feedKeys (splitIntoSessionRuns items)"
proof (cases "splitIntoSessionRuns items")
  case (Cons run later)
  then show ?thesis
    by (cases later)
      (auto simp: buildTranscriptDisplayBlocks_def Let_def feedKeys_def keys_runBlocks keys_later_runs [simplified] runKeys_def)
qed (simp add: buildTranscriptDisplayBlocks_def feedKeys_def)

lemma feedKeys_append:
  "rs \<noteq> [] \<Longrightarrow> rs' \<noteq> [] \<Longrightarrow> feedKeys (rs @ rs') = feedKeys rs @ boundaryKey (hd rs') # feedKeys rs'"
  by (auto simp: feedKeys_def neq_Nil_conv)

text \<open>
  C9. Loading older history leaves the reader's place alone from every change of session on. Take a feed
  that ends in one session (only items without a session id follow its last ordinary item), then
  what announces a restart (nothing, or a marker \<open>session/new\<close> with all markers and items without session
  that follow), then an ordinary item of another session. Whatever older items come in front of it, the keys are those
  of the feed before the change, then one boundary named after the new session and its first item, then the
  keys of what follows, which do not depend on the older items; without a marker they are the keys of the
  rest shown alone. So when the change of session is on screen already, everything from its boundary on
  keeps its key. Items without session at the top of the shown feed, as in the first turn of a session,
  belong to the older session once older history is loaded: they are then the end of the feed before the change.
\<close>

theorem prepending_keeps_keys:
  assumes "endsIn i before" and "announcesRestart parked" and "ordinaryIn j n1" and "i \<noteq> j"
  shows "\<exists>rest.
    (\<forall>older live. map getDisplayBlockKey (buildTranscriptDisplayBlocks (older @ before @ parked @ n1 # newer) live) =
      map getDisplayBlockKey (buildTranscriptDisplayBlocks (older @ before) live) @
      (''session-boundary:'' @ j @ '':'' @ ti_id (hd (parked @ [n1]))) # rest) \<and>
    (parked = [] \<longrightarrow> (\<forall>live. rest = map getDisplayBlockKey (buildTranscriptDisplayBlocks (n1 # newer) live)))"
proof -
  let ?runs = "runsFrom j (parked @ [n1]) newer"
  obtain first others where first: "parked @ [n1] = first # others" by (cases parked) auto
  obtain its later where runs: "?runs = \<lparr>sr_sessionId = j, sr_items = first # its\<rparr> # later"
    using opensWith_runsFrom [of j first others newer] first by (auto simp: opensWith_def)
  have front: "splitIntoSessionRuns (older @ before) \<noteq> []" for older
    using endsIn_state(1) [OF assms(1), of older] session_runs(1) [of "older @ before"] assms(1)
    by (auto simp: endsIn_def)
  have "feedKeys (splitIntoSessionRuns (older @ before @ parked @ n1 # newer)) =
      feedKeys (splitIntoSessionRuns (older @ before)) @ boundaryKey (hd ?runs) # feedKeys ?runs" for older
    unfolding splitIntoSessionRuns_change [OF assms] using front [of older] runs by (simp add: feedKeys_append)
  moreover have "boundaryKey (hd ?runs) = ''session-boundary:'' @ j @ '':'' @ ti_id (hd (parked @ [n1]))"
    unfolding runs by (simp add: first boundaryKey_def)
  moreover have "parked = [] \<Longrightarrow> ?runs = splitIntoSessionRuns (n1 # newer)" using runsFrom_alone [OF assms(3)] by simp
  ultimately show ?thesis unfolding keys_buildTranscriptDisplayBlocks by (intro exI [of _ "feedKeys ?runs"]) auto
qed

definition sampleItem :: "string \<Rightarrow> string \<Rightarrow> string option \<Rightarrow> transcript_item" where
  "sampleItem key session turn =
     \<lparr>ti_id = key, ti_title = [], ti_timestamp = ''t'', ti_acpSource = None, ti_channelId = None, ti_turnId = turn,
      ti_sessionId = Some session, ti_variant = ThoughtItem ''x''\<rparr>"

definition sampleMarker :: "string \<Rightarrow> string \<Rightarrow> transcript_item" where
  "sampleMarker key session =
     (sampleItem key session None)\<lparr>ti_acpSource := Some ''session/new'', ti_variant := MetadataItem []\<rparr>"

text \<open>
  A feed whose very first item is a marker is the exception: alone, the marker is a run of its own, and
  with older items in front it opens the next session, whose boundary is then named after the marker.
\<close>

lemma leading_marker_renames_boundary:
  "map getDisplayBlockKey (buildTranscriptDisplayBlocks [sampleMarker ''m'' ''s1'', sampleItem ''b'' ''s2'' None] None) =
     [''m'', ''session-boundary:s2:b'', ''b'']"
  "map getDisplayBlockKey (buildTranscriptDisplayBlocks
     ([sampleItem ''a'' ''s1'' None] @ [sampleMarker ''m'' ''s1'', sampleItem ''b'' ''s2'' None]) None) =
     [''a'', ''session-boundary:s2:m'', ''m'', ''b'']"
  by code_simp+

text \<open>A restart on screen, with its marker, before and after an older session is loaded.\<close>

theorem prepending_keeps_keys_witness:
  "map getDisplayBlockKey (buildTranscriptDisplayBlocks
     ([] @ [sampleItem ''a'' ''s1'' None] @ [sampleMarker ''m'' ''s1''] @ [sampleItem ''b'' ''s2'' (Some ''t'')]) None) =
     [''a'', ''session-boundary:s2:m'', ''m'', ''turn:t''] \<and>
   map getDisplayBlockKey (buildTranscriptDisplayBlocks
     ([sampleItem ''z'' ''s0'' None] @ [sampleItem ''a'' ''s1'' None] @ [sampleMarker ''m'' ''s1''] @ [sampleItem ''b'' ''s2'' (Some ''t'')]) None) =
     [''z'', ''session-boundary:s1:a'', ''a'', ''session-boundary:s2:m'', ''m'', ''turn:t'']"
proof -
  let ?z = "sampleItem ''z'' ''s0'' None" and ?a = "sampleItem ''a'' ''s1'' None" and ?m = "sampleMarker ''m'' ''s1''"
    and ?b = "sampleItem ''b'' ''s2'' (Some ''t'')"
  have ok: "endsIn ''s1'' [?a]" "announcesRestart [?m]" "ordinaryIn ''s2'' ?b" "''s1'' \<noteq> ''s2''" by code_simp+
  have alone: "map getDisplayBlockKey (buildTranscriptDisplayBlocks ([] @ [?a] @ [?m] @ [?b]) None) =
      [''a'', ''session-boundary:s2:m'', ''m'', ''turn:t'']"
    "map getDisplayBlockKey (buildTranscriptDisplayBlocks ([] @ [?a]) None) = [''a'']"
    "map getDisplayBlockKey (buildTranscriptDisplayBlocks ([?z] @ [?a]) None) = [''z'', ''session-boundary:s1:a'', ''a'']"
    "''session-boundary:'' @ ''s2'' @ '':'' @ ti_id (hd ([?m] @ [?b])) = ''session-boundary:s2:m''" by code_simp+
  obtain rest where rest: "map getDisplayBlockKey (buildTranscriptDisplayBlocks (older @ [?a] @ [?m] @ [?b]) None) =
      map getDisplayBlockKey (buildTranscriptDisplayBlocks (older @ [?a]) None) @
      (''session-boundary:'' @ ''s2'' @ '':'' @ ti_id (hd ([?m] @ [?b]))) # rest" for older
    using prepending_keeps_keys [OF ok, of "[]"] by blast
  have "rest = [''m'', ''turn:t'']" using rest [of "[]"] alone by simp
  then show ?thesis using rest [of "[?z]"] alone by simp
qed

end
