(* ===== verification/Flags.thy ===== *)
theory Flags
  imports Complex_Main JsText LocalStorage
begin

text \<open>
  Preferences of the sidebar that live in local storage, and the two stores of channel flags:
  mutes (\<open>features/sidebar/lib/channelMutesStorage.ts\<close>, \<open>useChannelMutes.ts\<close>) and stars
  (\<open>channelStarsStorage.ts\<close>, \<open>useChannelStars.ts\<close>), which are the same code up to the name of the flag.

  The state of a hook is the pair of its React state and the storage. The updater given to \<open>setStore\<close>
  writes the new store and keeps the old one when the write throws. An entry of a flag store is the
  object that was parsed, with whatever other fields it has.

  The value of a number literal with a fraction or an exponent is the argument \<open>dbl\<close>.
\<close>

subsection \<open>Numbers\<close>

text \<open>The numbers of JSON: rationals and, for literals out of range, the infinities.\<close>

datatype js_number = NegInfinity | Finite rat | PosInfinity

instantiation js_number :: linorder
begin

fun less_eq_js_number :: "js_number \<Rightarrow> js_number \<Rightarrow> bool" where
  "less_eq_js_number NegInfinity y = True"
| "less_eq_js_number (Finite a) (Finite b) = (a \<le> b)"
| "less_eq_js_number (Finite a) y = (y = PosInfinity)"
| "less_eq_js_number PosInfinity y = (y = PosInfinity)"

definition less_js_number :: "js_number \<Rightarrow> js_number \<Rightarrow> bool" where
  "less_js_number x y = (x \<le> y \<and> \<not> y \<le> x)"

instance
proof
  fix x y z :: js_number
  show "x < y \<longleftrightarrow> x \<le> y \<and> \<not> y \<le> x" by (rule less_js_number_def)
  show "x \<le> x" by (cases x) auto
  show "x \<le> y \<Longrightarrow> y \<le> z \<Longrightarrow> x \<le> z" by (cases x; cases y; cases z) auto
  show "x \<le> y \<Longrightarrow> y \<le> x \<Longrightarrow> x = y" by (cases x; cases y) auto
  show "x \<le> y \<or> y \<le> x" by (cases x; cases y) auto
qed

end

definition jsNumber :: "(string \<Rightarrow> js_number) \<Rightarrow> jsval \<Rightarrow> js_number option" where
  "jsNumber dbl v =
     (case v of JNum i \<Rightarrow> Some (Finite (of_int i)) | JFrac lit \<Rightarrow> Some (dbl lit) | _ \<Rightarrow> None)"

text \<open>The value of \<open>v\<close>, when \<open>v\<close> is a number.\<close>

definition numberValue :: "(string \<Rightarrow> js_number) \<Rightarrow> jsval \<Rightarrow> js_number" where
  "numberValue dbl v = (case jsNumber dbl v of Some n \<Rightarrow> n | None \<Rightarrow> Finite 0)"

definition isVersion1 :: "(string \<Rightarrow> js_number) \<Rightarrow> jsval option \<Rightarrow> bool" where
  "isVersion1 dbl v = (case v of Some w \<Rightarrow> jsNumber dbl w = Some (Finite 1) | None \<Rightarrow> False)"

subsection \<open>Stores kept in local storage\<close>

text \<open>One call of a hook: \<open>setStore (prev => ...)\<close> with a write that may fail.\<close>

definition updateStore ::
  "('a \<Rightarrow> local_storage \<Rightarrow> local_storage option) \<Rightarrow> ('a \<Rightarrow> 'a) \<Rightarrow> 'a \<times> local_storage \<Rightarrow> 'a \<times> local_storage" where
  "updateStore save f h =
     (case h of (prev, ls) \<Rightarrow>
        let next_store = f prev in
        case save next_store ls of Some ls' \<Rightarrow> (next_store, ls') | None \<Rightarrow> (prev, ls))"

text \<open>
  What the hooks rely on: a saved store is loaded again, in the normal form of the parser. Then every
  sequence of calls leaves the storage in step with the state, whichever writes fail.
\<close>

locale persisted_store =
  fixes load :: "local_storage \<Rightarrow> 'a"
    and save :: "'a \<Rightarrow> local_storage \<Rightarrow> local_storage option"
    and norm :: "'a \<Rightarrow> 'a"
    and ok :: "'a \<Rightarrow> bool"
  assumes load_saved: "ok st \<Longrightarrow> save st ls = Some ls' \<Longrightarrow> load ls' = norm st"
begin

definition in_step :: "'a \<times> local_storage \<Rightarrow> bool" where
  "in_step h \<longleftrightarrow> ok (fst h) \<and> load (snd h) = norm (fst h)"

lemma in_step_update:
  assumes "in_step h" and "\<And>st. ok st \<Longrightarrow> ok (f st)"
  shows "in_step (updateStore save f h)"
proof (cases h)
  case (Pair st ls)
  then show ?thesis using assms load_saved [of "f st" ls]
    by (auto simp: in_step_def updateStore_def Let_def split: option.splits)
qed

lemma in_step_updates:
  assumes "in_step h" and "\<And>f st. f \<in> set fs \<Longrightarrow> ok st \<Longrightarrow> ok (f st)"
  shows "in_step (fold (updateStore save) fs h)"
  using assms
proof (induction fs arbitrary: h)
  case (Cons f fs)
  have "in_step (updateStore save f h)" using Cons.prems by (intro in_step_update) auto
  then show ?case using Cons by simp
qed simp

lemma update_cases:
  "updateStore save f h = h \<or> fst (updateStore save f h) = f (fst h) \<and> save (f (fst h)) (snd h) = Some (snd (updateStore save f h))"
  by (cases h) (auto simp: updateStore_def Let_def split: option.splits)

end

subsection \<open>Flag stores\<close>

type_synonym flag_store = "(string, jsval) jsmap"

definition isFlagEntry :: "(string \<Rightarrow> js_number) \<Rightarrow> string \<Rightarrow> jsval \<Rightarrow> bool" where
  "isFlagEntry dbl flag v =
     (case v of
        JObj entry \<Rightarrow>
          (case (jfield entry flag, jfield entry ''updatedAt'') of
             (Some (JBool _), Some u) \<Rightarrow>
               (case jsNumber dbl u of Some (Finite r) \<Rightarrow> r \<ge> 0 | _ \<Rightarrow> False)
           | _ \<Rightarrow> False)
      | _ \<Rightarrow> False)"

definition parseFlagPayload :: "(string \<Rightarrow> js_number) \<Rightarrow> string \<Rightarrow> jsval \<Rightarrow> flag_store option" where
  "parseFlagPayload dbl flag json =
     (case json of
        JObj obj \<Rightarrow>
          if \<not> isVersion1 dbl (jfield obj ''version'') then None
          else
            (case jfield obj ''channels'' of
               Some (JObj channels) \<Rightarrow> Some (filter (\<lambda>(k, v). isFlagEntry dbl flag v) channels)
             | _ \<Rightarrow> Some [])
      | _ \<Rightarrow> None)"

definition readFlagStore :: "(string \<Rightarrow> js_number) \<Rightarrow> string \<Rightarrow> string \<Rightarrow> local_storage \<Rightarrow> flag_store" where
  "readFlagStore dbl flag key ls =
     (if \<not> truthy (getItem ls key) then []
      else
        case JSON_parse (the (getItem ls key)) of
          None \<Rightarrow> []
        | Some parsed \<Rightarrow> (case parseFlagPayload dbl flag parsed of Some s \<Rightarrow> s | None \<Rightarrow> []))"

definition flagStoreJson :: "flag_store \<Rightarrow> jsval" where
  "flagStoreJson store = JObj [(''version'', JNum 1), (''channels'', JObj store)]"

definition writeFlagStore :: "string \<Rightarrow> flag_store \<Rightarrow> local_storage \<Rightarrow> local_storage option" where
  "writeFlagStore key store ls = setItem ls key (stringify (flagStoreJson store))"

definition updatedAt :: "(string \<Rightarrow> js_number) \<Rightarrow> jsval \<Rightarrow> js_number" where
  "updatedAt dbl v = (case jfield (asRecord (Some v)) ''updatedAt'' of Some u \<Rightarrow> numberValue dbl u | None \<Rightarrow> Finite 0)"

definition mergeEntry :: "(string \<Rightarrow> js_number) \<Rightarrow> jsval option \<Rightarrow> jsval option \<Rightarrow> jsval option" where
  "mergeEntry dbl l r =
     (case (l, r) of
        (Some a, Some b) \<Rightarrow> Some (if updatedAt dbl a \<ge> updatedAt dbl b then a else b)
      | _ \<Rightarrow> orElse l r)"

definition mergeStores :: "(string \<Rightarrow> js_number) \<Rightarrow> flag_store \<Rightarrow> flag_store \<Rightarrow> flag_store" where
  "mergeStores dbl local remote =
     (let allIds = fold (\<lambda>i s. sadd s i) (jkeys local @ jkeys remote) [] in
      concat (map (\<lambda>i. case mergeEntry dbl (jget local i) (jget remote i) of Some e \<Rightarrow> [(i, e)] | None \<Rightarrow> []) allIds))"

definition flagSet :: "string \<Rightarrow> jsval \<Rightarrow> bool" where
  "flagSet flag v = (jfield (asRecord (Some v)) flag = Some (JBool True))"

definition flaggedChannelIds :: "string \<Rightarrow> flag_store \<Rightarrow> string list" where
  "flaggedChannelIds flag store = map fst (filter (\<lambda>(k, v). flagSet flag v) store)"

definition flagEntry :: "string \<Rightarrow> bool \<Rightarrow> int \<Rightarrow> jsval" where
  "flagEntry flag b now = JObj [(flag, JBool b), (''updatedAt'', JNum (now div 1000))]"

definition setFlagState ::
  "string \<Rightarrow> (string \<Rightarrow> string) \<Rightarrow> string option \<Rightarrow> string \<Rightarrow> bool \<Rightarrow> int \<Rightarrow> flag_store \<times> local_storage \<Rightarrow>
   flag_store \<times> local_storage" where
  "setFlagState flag key pubkey channelId b now h =
     (if \<not> truthy pubkey then h
      else updateStore (writeFlagStore (key (the pubkey))) (\<lambda>prev. jset prev channelId (flagEntry flag b now)) h)"

definition openFlags ::
  "(string \<Rightarrow> js_number) \<Rightarrow> string \<Rightarrow> (string \<Rightarrow> string) \<Rightarrow> string option \<Rightarrow> local_storage \<Rightarrow> flag_store \<times> local_storage" where
  "openFlags dbl flag key pubkey ls =
     (if truthy pubkey then readFlagStore dbl flag (key (the pubkey)) ls else [], ls)"

subsection \<open>Mutes and stars\<close>

definition muteStorageKey :: "string \<Rightarrow> string" where
  "muteStorageKey pubkey = ''buzz-channel-mutes.v1:'' @ pubkey"

definition parseMutePayload :: "(string \<Rightarrow> js_number) \<Rightarrow> jsval \<Rightarrow> flag_store option" where
  "parseMutePayload dbl json = parseFlagPayload dbl ''muted'' json"

definition readChannelMutesStore :: "(string \<Rightarrow> js_number) \<Rightarrow> string \<Rightarrow> local_storage \<Rightarrow> flag_store" where
  "readChannelMutesStore dbl pubkey ls = readFlagStore dbl ''muted'' (muteStorageKey pubkey) ls"

definition writeChannelMutesStore :: "string \<Rightarrow> flag_store \<Rightarrow> local_storage \<Rightarrow> local_storage option" where
  "writeChannelMutesStore pubkey store ls = writeFlagStore (muteStorageKey pubkey) store ls"

definition mutedChannelIdsFromStore :: "flag_store \<Rightarrow> string list" where
  "mutedChannelIdsFromStore store = flaggedChannelIds ''muted'' store"

definition useChannelMutes ::
  "(string \<Rightarrow> js_number) \<Rightarrow> string option \<Rightarrow> local_storage \<Rightarrow> flag_store \<times> local_storage" where
  "useChannelMutes dbl pubkey ls = openFlags dbl ''muted'' muteStorageKey pubkey ls"

definition setMuteState ::
  "string option \<Rightarrow> string \<Rightarrow> bool \<Rightarrow> int \<Rightarrow> flag_store \<times> local_storage \<Rightarrow> flag_store \<times> local_storage" where
  "setMuteState pubkey channelId muted now h = setFlagState ''muted'' muteStorageKey pubkey channelId muted now h"

definition starStorageKey :: "string \<Rightarrow> string" where
  "starStorageKey pubkey = ''buzz-channel-stars.v1:'' @ pubkey"

definition parseStarPayload :: "(string \<Rightarrow> js_number) \<Rightarrow> jsval \<Rightarrow> flag_store option" where
  "parseStarPayload dbl json = parseFlagPayload dbl ''starred'' json"

definition readChannelStarsStore :: "(string \<Rightarrow> js_number) \<Rightarrow> string \<Rightarrow> local_storage \<Rightarrow> flag_store" where
  "readChannelStarsStore dbl pubkey ls = readFlagStore dbl ''starred'' (starStorageKey pubkey) ls"

definition writeChannelStarsStore :: "string \<Rightarrow> flag_store \<Rightarrow> local_storage \<Rightarrow> local_storage option" where
  "writeChannelStarsStore pubkey store ls = writeFlagStore (starStorageKey pubkey) store ls"

definition starredChannelIdsFromStore :: "flag_store \<Rightarrow> string list" where
  "starredChannelIdsFromStore store = flaggedChannelIds ''starred'' store"

definition useChannelStars ::
  "(string \<Rightarrow> js_number) \<Rightarrow> string option \<Rightarrow> local_storage \<Rightarrow> flag_store \<times> local_storage" where
  "useChannelStars dbl pubkey ls = openFlags dbl ''starred'' starStorageKey pubkey ls"

definition setStarState ::
  "string option \<Rightarrow> string \<Rightarrow> bool \<Rightarrow> int \<Rightarrow> flag_store \<times> local_storage \<Rightarrow> flag_store \<times> local_storage" where
  "setStarState pubkey channelId starred now h = setFlagState ''starred'' starStorageKey pubkey channelId starred now h"

subsection \<open>Reloading\<close>

definition flags_ok :: "(string \<Rightarrow> js_number) \<Rightarrow> string \<Rightarrow> flag_store \<Rightarrow> bool" where
  "flags_ok dbl flag store \<longleftrightarrow>
     jwf store \<and> list_all (\<lambda>(k, v). isFlagEntry dbl flag v \<and> wf_json v) store"

lemma getItem_setItem_same: "setItem ls key v = Some ls' \<Longrightarrow> getItem ls' key = Some v"
  by (auto simp: setItem_def getItem_def Let_def split: if_splits)

lemma isVersion1_one [simp]: "isVersion1 dbl (Some (JNum 1))"
  by (simp add: isVersion1_def jsNumber_def)

lemma stringify_obj_nonempty [simp]: "stringify (JObj kvs) \<noteq> []"
  by simp

lemma read_written_flags:
  assumes "flags_ok dbl flag store" and "writeFlagStore key store ls = Some ls'"
  shows "readFlagStore dbl flag key ls' = store"
proof -
  have "wf_json (flagStoreJson store)"
    using assms(1) by (auto simp: flags_ok_def flagStoreJson_def jwf_def list_all_iff)
  then have parse: "JSON_parse (stringify (flagStoreJson store)) = Some (flagStoreJson store)" by (rule json_roundtrip)
  have get: "getItem ls' key = Some (stringify (flagStoreJson store))"
    using assms(2) getItem_setItem_same by (simp add: writeFlagStore_def)
  have keep: "filter (\<lambda>(k, v). isFlagEntry dbl flag v) store = store"
    using assms(1) by (auto simp: flags_ok_def list_all_iff intro: filter_True)
  show ?thesis
    unfolding readFlagStore_def get option.sel parse using keep
    by (simp add: truthy_def flagStoreJson_def parseFlagPayload_def jfield_def)
qed

lemma flags_ok_jset:
  "flags_ok dbl flag store \<Longrightarrow> flag \<noteq> ''updatedAt'' \<Longrightarrow> 0 \<le> now \<Longrightarrow> flags_ok dbl flag (jset store c (flagEntry flag b now))"
proof -
  assume ok: "flags_ok dbl flag store" and ne: "flag \<noteq> ''updatedAt''" and now: "0 \<le> now"
  have "isFlagEntry dbl flag (flagEntry flag b now)" "wf_json (flagEntry flag b now)"
    using ne now by (simp_all add: isFlagEntry_def flagEntry_def jfield_def jsNumber_def)
  moreover have "set (jset store c v) \<subseteq> insert (c, v) (set store)" for v
    by (induction store) auto
  ultimately show ?thesis using ok unfolding flags_ok_def list_all_iff by (auto dest!: subsetD)
qed

interpretation mutes: persisted_store "readChannelMutesStore dbl pubkey" "writeChannelMutesStore pubkey" id "flags_ok dbl ''muted''"
  for dbl pubkey
  by unfold_locales (simp add: readChannelMutesStore_def writeChannelMutesStore_def read_written_flags)

interpretation stars: persisted_store "readChannelStarsStore dbl pubkey" "writeChannelStarsStore pubkey" id "flags_ok dbl ''starred''"
  for dbl pubkey
  by unfold_locales (simp add: readChannelStarsStore_def writeChannelStarsStore_def read_written_flags)

lemma setMuteState_update:
  "pubkey \<noteq> [] \<Longrightarrow> setMuteState (Some pubkey) c b now =
     updateStore (writeChannelMutesStore pubkey) (\<lambda>prev. jset prev c (flagEntry ''muted'' b now))"
  by (simp add: setMuteState_def setFlagState_def truthy_def writeChannelMutesStore_def [abs_def] fun_eq_iff)

lemma mutedChannelIds_jset:
  assumes "jwf st"
  shows "c' \<in> set (mutedChannelIdsFromStore (jset st c (flagEntry ''muted'' b now))) \<longleftrightarrow>
    (if c' = c then b else c' \<in> set (mutedChannelIdsFromStore st))"
proof -
  have mem: "c' \<in> set (mutedChannelIdsFromStore m) \<longleftrightarrow> (\<exists>v. jget m c' = Some v \<and> flagSet ''muted'' v)" if "jwf m" for m c'
    using that by (force simp: mutedChannelIdsFromStore_def flaggedChannelIds_def jget_in_set)
  show ?thesis
    by (simp add: mem assms) (simp add: flagSet_def flagEntry_def asRecord_def jfield_def)
qed

text \<open>
  Muting survives a restart. Whatever calls are made, and whichever of their writes the storage
  refuses, the store read back from the storage is the one on the screen. A further call either
  changes nothing, when its write is refused, or mutes or unmutes exactly its channel.
\<close>

theorem mutes_survive_reload:
  assumes "pubkey \<noteq> []" and "flags_ok dbl ''muted'' (readChannelMutesStore dbl pubkey ls)"
    and "list_all (\<lambda>(c, b, now). 0 \<le> now) calls"
    and "fold (\<lambda>(c, b, now). setMuteState (Some pubkey) c b now) calls (useChannelMutes dbl (Some pubkey) ls) = (st, ls')"
  shows "readChannelMutesStore dbl pubkey ls' = st \<and>
    (let (st2, ls2) = setMuteState (Some pubkey) c b now (st, ls') in
     if writeChannelMutesStore pubkey (jset st c (flagEntry ''muted'' b now)) ls' = None then st2 = st \<and> ls2 = ls'
     else set (mutedChannelIdsFromStore st2) =
       (if b then insert c (set (mutedChannelIdsFromStore st)) else set (mutedChannelIdsFromStore st) - {c}))"
proof -
  let ?f = "\<lambda>(c, b, now) prev. jset prev c (flagEntry ''muted'' b now)"
  have "fold (\<lambda>(c, b, now). setMuteState (Some pubkey) c b now) calls =
      fold (updateStore (writeChannelMutesStore pubkey)) (map ?f calls)"
    unfolding fold_map by (intro arg_cong2 [of _ _ _ _ fold]) (auto simp: setMuteState_update [OF assms(1)])
  moreover have "mutes.in_step dbl pubkey (useChannelMutes dbl (Some pubkey) ls)"
    using assms(1,2)
    by (simp add: mutes.in_step_def useChannelMutes_def openFlags_def truthy_def readChannelMutesStore_def)
  moreover have "flags_ok dbl ''muted'' (f prev)" if "f \<in> set (map ?f calls)" "flags_ok dbl ''muted'' prev" for f prev
    using that assms(3) by (auto simp: list_all_iff intro!: flags_ok_jset)
  ultimately have step: "mutes.in_step dbl pubkey (st, ls')"
    using mutes.in_step_updates [of dbl pubkey "useChannelMutes dbl (Some pubkey) ls" "map ?f calls"] assms(4) by metis
  then have "jwf st" by (simp add: mutes.in_step_def flags_ok_def)
  then show ?thesis
    using step by (auto simp: mutes.in_step_def setMuteState_update [OF assms(1)] updateStore_def Let_def mutedChannelIds_jset
        split: option.splits if_splits)
qed

definition emptyStorage :: local_storage where
  "emptyStorage = \<lparr>st_items = [], st_quota = 200, st_warned = False, st_toasts = 0\<rparr>"

definition sampleMutes :: "flag_store \<times> local_storage" where
  "sampleMutes =
     fold (\<lambda>(c, b, now). setMuteState (Some ''p'') c b now) [(''a'', True, 5000), (''b'', True, 6000), (''a'', False, 7000)]
       (useChannelMutes (\<lambda>_. Finite 0) (Some ''p'') emptyStorage)"

theorem mutes_survive_reload_witness:
  "readChannelMutesStore (\<lambda>_. Finite 0) ''p'' (snd sampleMutes) = fst sampleMutes \<and>
   mutedChannelIdsFromStore (fst sampleMutes) = [''b'']"
proof -
  have ids: "mutedChannelIdsFromStore (fst sampleMutes) = [''b'']" by code_simp
  have ok: "''p'' \<noteq> []" "flags_ok (\<lambda>_. Finite 0) ''muted'' (readChannelMutesStore (\<lambda>_. Finite 0) ''p'' emptyStorage)"
    "list_all (\<lambda>(c, b, now). 0 \<le> now) [(''a'', True, 5000), (''b'', True, 6000), (''a'', False, 7000 :: int)]"
    by code_simp+
  have run: "fold (\<lambda>(c, b, now). setMuteState (Some ''p'') c b now) [(''a'', True, 5000), (''b'', True, 6000), (''a'', False, 7000)]
      (useChannelMutes (\<lambda>_. Finite 0) (Some ''p'') emptyStorage) = (fst sampleMutes, snd sampleMutes)"
    by (simp only: sampleMutes_def prod.collapse)
  show ?thesis using mutes_survive_reload [OF ok run] ids by blast
qed

subsection \<open>Merging\<close>

lemma mergeEntry_None [simp]: "mergeEntry dbl None r = r" "mergeEntry dbl l None = l"
  by (simp_all add: mergeEntry_def orElse_def split: option.splits)

lemma jget_mergeStores: "jget (mergeStores dbl local remote) i = mergeEntry dbl (jget local i) (jget remote i)"
proof -
  have *: "map_of (concat (map (\<lambda>i. case g i of Some e \<Rightarrow> [(i, e)] | None \<Rightarrow> []) ids)) i =
      (if i \<in> set ids then g i else None)" for g :: "string \<Rightarrow> jsval option" and ids
    by (induction ids) (auto split: option.splits)
  have "mergeEntry dbl (jget local i) (jget remote i) = None" if "i \<notin> set (jkeys local @ jkeys remote)"
  proof -
    have "jget local i = None" "jget remote i = None" using that by (simp_all add: map_of_eq_None_iff)
    then show ?thesis by simp
  qed
  then show ?thesis
    unfolding mergeStores_def Let_def * by (auto simp: set_fold_sadd)
qed

text \<open>The stores of several devices, merged as they arrive.\<close>

definition mergeAll :: "(string \<Rightarrow> js_number) \<Rightarrow> flag_store list \<Rightarrow> flag_store" where
  "mergeAll dbl stores = fold (\<lambda>remote local. mergeStores dbl local remote) stores []"

definition unambiguous :: "(string \<Rightarrow> js_number) \<Rightarrow> flag_store list \<Rightarrow> bool" where
  "unambiguous dbl stores \<longleftrightarrow>
     (\<forall>s\<in>set stores. \<forall>s'\<in>set stores. \<forall>i a b. jget s i = Some a \<longrightarrow> jget s' i = Some b \<longrightarrow>
        updatedAt dbl a = updatedAt dbl b \<longrightarrow> a = b)"

lemma mergeAll_snoc: "mergeAll dbl (stores @ [s]) = mergeStores dbl (mergeAll dbl stores) s"
  by (simp add: mergeAll_def)

definition latestOf :: "(string \<Rightarrow> js_number) \<Rightarrow> flag_store list \<Rightarrow> string \<Rightarrow> jsval option \<Rightarrow> bool" where
  "latestOf dbl stores i e \<longleftrightarrow>
     (case e of
        None \<Rightarrow> \<forall>s\<in>set stores. jget s i = None
      | Some a \<Rightarrow> (\<exists>s\<in>set stores. jget s i = Some a) \<and>
          (\<forall>s\<in>set stores. \<forall>b. jget s i = Some b \<longrightarrow> updatedAt dbl b \<le> updatedAt dbl a))"

lemma mergeAll_latest: "latestOf dbl stores i (jget (mergeAll dbl stores) i)"
proof (induction stores rule: rev_induct)
  case (snoc s stores)
  show ?case
  proof (cases "jget (mergeAll dbl stores) i")
    case None
    then show ?thesis using snoc by (auto simp: mergeAll_snoc jget_mergeStores latestOf_def split: option.splits)
  next
    case (Some a)
    then show ?thesis using snoc
      by (cases "jget s i") (auto simp: mergeAll_snoc jget_mergeStores mergeEntry_def latestOf_def orElse_def intro: order_trans)
  qed
qed (simp add: mergeAll_def latestOf_def)

lemma latestOf_unique:
  assumes "latestOf dbl stores i e" and "latestOf dbl stores i e'" and "unambiguous dbl stores"
  shows "e = e'"
proof (cases e)
  case None
  then show ?thesis using assms(1,2) by (cases e') (auto simp: latestOf_def)
next
  case (Some a)
  then obtain s where s: "s \<in> set stores" "jget s i = Some a" using assms(1) by (auto simp: latestOf_def)
  obtain a' where a': "e' = Some a'" using assms(2) s by (cases e') (auto simp: latestOf_def)
  then obtain s' where s': "s' \<in> set stores" "jget s' i = Some a'" using assms(2) by (auto simp: latestOf_def)
  have "updatedAt dbl a = updatedAt dbl a'"
    using assms(1,2) Some a' s s' by (auto simp: latestOf_def intro: antisym)
  then show ?thesis using assms(3) s s' Some a' unfolding unambiguous_def by blast
qed

text \<open>
  Merging flags converges: when no two devices hold different entries with the same time for one
  channel, the stores of the devices merged in any order and with any repetitions agree on every
  channel, and what they agree on is an entry with the latest time.
\<close>

theorem merging_flags_converges:
  assumes "set stores = set stores'" and "unambiguous dbl stores"
  shows "jget (mergeAll dbl stores) i = jget (mergeAll dbl stores') i \<and>
    latestOf dbl stores i (jget (mergeAll dbl stores) i)"
proof -
  have "latestOf dbl stores i (jget (mergeAll dbl stores') i)"
    using mergeAll_latest [of dbl stores' i] by (simp only: latestOf_def assms(1))
  then show ?thesis using mergeAll_latest latestOf_unique [OF _ _ assms(2)] by blast
qed

theorem merging_flags_converges_witness:
  "jget (mergeAll (\<lambda>_. Finite 0) [[(''a'', flagEntry ''muted'' True 5000)], [(''a'', flagEntry ''muted'' False 7000)]]) ''a'' =
     Some (flagEntry ''muted'' False 7000) \<and>
   jget (mergeAll (\<lambda>_. Finite 0) [[(''a'', flagEntry ''muted'' False 7000)], [(''a'', flagEntry ''muted'' True 5000)]]) ''a'' =
     Some (flagEntry ''muted'' False 7000)"
proof -
  let ?s = "[(''a'', flagEntry ''muted'' True 5000)]" and ?t = "[(''a'', flagEntry ''muted'' False 7000)]"
  have un: "unambiguous (\<lambda>_. Finite 0) [?s, ?t]"
    by (auto simp: unambiguous_def updatedAt_def flagEntry_def asRecord_def jfield_def numberValue_def jsNumber_def split: if_splits)
  have "jget (mergeAll (\<lambda>_. Finite 0) [?s, ?t]) ''a'' = Some (flagEntry ''muted'' False 7000)" by code_simp
  moreover have "set [?s, ?t] = set [?t, ?s]" by auto
  ultimately show ?thesis using merging_flags_converges [OF _ un, of "[?t, ?s]" "''a''"] by metis
qed

end
