(* ===== verification/Sections.thy ===== *)
theory Sections
  imports Flags
begin

text \<open>
  The sections into which a member sorts channels (\<open>features/sidebar/lib/channelSectionsStorage.ts\<close>,
  \<open>channelSectionsHelpers.ts\<close> and the operations of \<open>useChannelSections.ts\<close>), with the key that scopes
  them to a relay (\<open>normalizeRelayUrl\<close> of \<open>features/profile/lib/selfProfileStorage.ts\<close>).

  The order of a section is the number as it was parsed. \<open>crypto.randomUUID\<close> is an argument of
  \<open>createSection\<close>; \<open>incr\<close> is the number one above a literal that is not an integer.
\<close>

subsection \<open>Keys\<close>

definition normalizeRelayUrl :: "string \<Rightarrow> string" where
  "normalizeRelayUrl relayUrl =
     toLowerCase (rev (dropWhile (\<lambda>c. c = CHR ''/'') (rev (js_trim relayUrl))))"

definition uriUnreserved :: "char \<Rightarrow> bool" where
  "uriUnreserved c =
     (let n = of_char c :: nat in
      48 \<le> n \<and> n \<le> 57 \<or> 65 \<le> n \<and> n \<le> 90 \<or> 97 \<le> n \<and> n \<le> 122 \<or>
      n \<in> {33, 39, 40, 41, 42, 45, 46, 95, 126})"

definition upperHex :: "nat \<Rightarrow> char" where
  "upperHex n = char_of (if n < 10 then 48 + n else 55 + n)"

definition percentByte :: "nat \<Rightarrow> string" where
  "percentByte n = [CHR ''%'', upperHex (n div 16), upperHex (n mod 16)]"

definition encodeUriChar :: "char \<Rightarrow> string" where
  "encodeUriChar c =
     (let n = of_char c :: nat in
      if uriUnreserved c then [c]
      else if n < 128 then percentByte n
      else percentByte (192 + n div 64) @ percentByte (128 + n mod 64))"

definition encodeURIComponent :: "string \<Rightarrow> string" where
  "encodeURIComponent s = concat (map encodeUriChar s)"

definition scopedKey :: "string \<Rightarrow> string \<Rightarrow> string option \<Rightarrow> string" where
  "scopedKey prefix pubkey relayUrl =
     (if \<not> truthy relayUrl then prefix @ '':'' @ pubkey
      else prefix @ '':'' @ pubkey @ '':'' @ encodeURIComponent (normalizeRelayUrl (the relayUrl)))"

definition sectionStorageKey :: "string \<Rightarrow> string option \<Rightarrow> string" where
  "sectionStorageKey pubkey relayUrl = scopedKey ''buzz-channel-sections.v1'' pubkey relayUrl"

subsection \<open>The store\<close>

record channel_section =
  sc_id :: string
  sc_name :: string
  sc_icon :: "string option"
  sc_order :: jsval

record section_store =
  ss_sections :: "channel_section list"
  ss_assignments :: "(string, string) jsmap"

definition DEFAULT_SECTIONS :: section_store where
  "DEFAULT_SECTIONS = \<lparr>ss_sections = [], ss_assignments = []\<rparr>"

definition stripOrphanedAssignments :: "section_store \<Rightarrow> section_store" where
  "stripOrphanedAssignments store =
     store\<lparr>ss_assignments := filter (\<lambda>(c, sid). sid \<in> set (map sc_id (ss_sections store))) (ss_assignments store)\<rparr>"

definition isNumberValue :: "jsval option \<Rightarrow> bool" where
  "isNumberValue v = (case v of Some (JNum _) \<Rightarrow> True | Some (JFrac _) \<Rightarrow> True | _ \<Rightarrow> False)"

definition trimIcon :: "string option \<Rightarrow> string option" where
  "trimIcon icon =
     (case icon of Some i \<Rightarrow> if length (js_trim i) > 0 then Some (js_trim i) else None | None \<Rightarrow> None)"

definition parseSection :: "jsval \<Rightarrow> channel_section list" where
  "parseSection entry =
     (let section = asRecord (Some entry);
          i = asString (jfield section ''id'');
          name = asString (jfield section ''name'')
      in if i = None \<or> name = None \<or> \<not> isNumberValue (jfield section ''order'') then []
         else [\<lparr>sc_id = the i, sc_name = the name, sc_icon = trimIcon (asString (jfield section ''icon'')),
                sc_order = the (jfield section ''order'')\<rparr>])"

definition parseAssignment :: "string \<times> jsval \<Rightarrow> (string \<times> string) list" where
  "parseAssignment entry = (case snd entry of JStr s \<Rightarrow> [(fst entry, s)] | _ \<Rightarrow> [])"

definition parseChannelSectionPayload :: "jsval \<Rightarrow> section_store option" where
  "parseChannelSectionPayload json =
     (let obj = asRecord (Some json);
          sections = (case jfield obj ''sections'' of Some (JArr es) \<Rightarrow> concat (map parseSection es) | _ \<Rightarrow> []);
          assignments = concat (map parseAssignment (asRecord (jfield obj ''assignments'')))
      in case json of
           JObj _ \<Rightarrow> Some (stripOrphanedAssignments \<lparr>ss_sections = sections, ss_assignments = assignments\<rparr>)
         | JArr _ \<Rightarrow> Some (stripOrphanedAssignments \<lparr>ss_sections = sections, ss_assignments = assignments\<rparr>)
         | _ \<Rightarrow> None)"

definition parseRaw :: "(string \<Rightarrow> js_number) \<Rightarrow> string option \<Rightarrow> section_store option" where
  "parseRaw dbl raw =
     (if \<not> truthy raw then None
      else
        case JSON_parse (the raw) of
          None \<Rightarrow> None
        | Some parsed \<Rightarrow>
            if \<not> isVersion1 dbl (jfield (asRecord (Some parsed)) ''version'') then None
            else parseChannelSectionPayload parsed)"

definition sectionJson :: "channel_section \<Rightarrow> jsval" where
  "sectionJson s =
     JObj ([(''id'', JStr (sc_id s)), (''name'', JStr (sc_name s))] @
       (case sc_icon s of Some i \<Rightarrow> [(''icon'', JStr i)] | None \<Rightarrow> []) @ [(''order'', sc_order s)])"

definition sectionStoreJson :: "section_store \<Rightarrow> jsval" where
  "sectionStoreJson store =
     JObj [(''version'', JNum 1), (''sections'', JArr (map sectionJson (ss_sections store))),
           (''assignments'', JObj (map (\<lambda>(c, sid). (c, JStr sid)) (ss_assignments store)))]"

definition writeChannelSectionsStore ::
  "string \<Rightarrow> string option \<Rightarrow> section_store \<Rightarrow> local_storage \<Rightarrow> local_storage option" where
  "writeChannelSectionsStore pubkey relayUrl store ls =
     setItem ls (sectionStorageKey pubkey relayUrl) (stringify (sectionStoreJson store))"

definition readChannelSectionsStore ::
  "(string \<Rightarrow> js_number) \<Rightarrow> string \<Rightarrow> string option \<Rightarrow> local_storage \<Rightarrow> section_store \<times> local_storage" where
  "readChannelSectionsStore dbl pubkey relayUrl ls =
     (let key = sectionStorageKey pubkey relayUrl;
          legacyKey = sectionStorageKey pubkey None
      in case getItem ls key of
           Some raw \<Rightarrow> (case parseRaw dbl (Some raw) of Some s \<Rightarrow> s | None \<Rightarrow> DEFAULT_SECTIONS, ls)
         | None \<Rightarrow>
             if truthy relayUrl
             then
               (case parseRaw dbl (getItem ls legacyKey) of
                  Some migrated \<Rightarrow>
                    if length (ss_sections migrated) > 0
                    then
                      (migrated,
                       case setItem ls key (stringify (sectionStoreJson migrated)) of
                         Some ls' \<Rightarrow> removeItem ls' legacyKey
                       | None \<Rightarrow> ls)
                    else (DEFAULT_SECTIONS, ls)
                | None \<Rightarrow> (DEFAULT_SECTIONS, ls))
             else (DEFAULT_SECTIONS, ls))"

subsection \<open>Operations\<close>

definition compareOrder :: "(string \<Rightarrow> js_number) \<Rightarrow> channel_section \<Rightarrow> channel_section \<Rightarrow> int" where
  "compareOrder dbl a b =
     (let x = numberValue dbl (sc_order a); y = numberValue dbl (sc_order b) in
      if x < y then -1 else if y < x then 1 else 0)"

definition sortedSections :: "(string \<Rightarrow> js_number) \<Rightarrow> section_store \<Rightarrow> channel_section list" where
  "sortedSections dbl store = js_sort (compareOrder dbl) (ss_sections store)"

datatype direction = Up | Down

definition neighborIndex :: "direction \<Rightarrow> nat \<Rightarrow> nat \<Rightarrow> nat option" where
  "neighborIndex direction i n =
     (case direction of
        Up \<Rightarrow> if i = 0 then None else Some (i - 1)
      | Down \<Rightarrow> if i + 1 \<ge> n then None else Some (i + 1))"

definition swapOrders :: "channel_section \<Rightarrow> channel_section \<Rightarrow> channel_section \<Rightarrow> channel_section" where
  "swapOrders target neighbor s =
     (if sc_id s = sc_id target then s\<lparr>sc_order := sc_order neighbor\<rparr>
      else if sc_id s = sc_id neighbor then s\<lparr>sc_order := sc_order target\<rparr> else s)"

definition swapSectionOrder ::
  "(string \<Rightarrow> js_number) \<Rightarrow> section_store \<Rightarrow> string \<Rightarrow> direction \<Rightarrow> section_store option" where
  "swapSectionOrder dbl prev sectionId direction =
     (case find (\<lambda>s. sc_id s = sectionId) (ss_sections prev) of
        None \<Rightarrow> None
      | Some target \<Rightarrow>
          (let sorted = sortedSections dbl prev in
           case Option.bind (findIndex (\<lambda>s. sc_id s = sectionId) sorted)
                  (\<lambda>idx. neighborIndex direction idx (length sorted)) of
             None \<Rightarrow> None
           | Some neighborIdx \<Rightarrow>
               Some (prev\<lparr>ss_sections := map (swapOrders target (sorted ! neighborIdx)) (ss_sections prev)\<rparr>)))"

text \<open>\<open>Math.max\<close> of the orders, or \<open>-1\<close>.\<close>

definition maxOrder :: "(string \<Rightarrow> js_number) \<Rightarrow> channel_section list \<Rightarrow> jsval" where
  "maxOrder dbl sections =
     (case map sc_order sections of
        [] \<Rightarrow> JNum (-1)
      | first # rest \<Rightarrow> fold (\<lambda>x m. if numberValue dbl m < numberValue dbl x then x else m) rest first)"

definition plusOne :: "(string \<Rightarrow> jsval) \<Rightarrow> jsval \<Rightarrow> jsval" where
  "plusOne incr v = (case v of JNum i \<Rightarrow> JNum (i + 1) | JFrac lit \<Rightarrow> incr lit | _ \<Rightarrow> v)"

definition iconIfAny :: "string option \<Rightarrow> string option" where
  "iconIfAny icon = (if truthy icon then icon else None)"

datatype section_call =
    CreateSection string string "string option"
  | RenameSection string string "string option"
  | DeleteSection string
  | MoveSection string direction
  | ReorderSections "string list"
  | AssignChannel string string
  | UnassignChannel string

definition createSection ::
  "(string \<Rightarrow> js_number) \<Rightarrow> (string \<Rightarrow> jsval) \<Rightarrow> string \<Rightarrow> string option \<Rightarrow> string \<Rightarrow> string \<Rightarrow> string option \<Rightarrow>
   section_store \<times> local_storage \<Rightarrow> section_store \<times> local_storage" where
  "createSection dbl incr pubkey relayUrl uuid name icon h =
     (case readChannelSectionsStore dbl pubkey relayUrl (snd h) of
        (prev, ls) \<Rightarrow>
          (let section = \<lparr>sc_id = uuid, sc_name = name, sc_icon = iconIfAny icon,
                          sc_order = plusOne incr (maxOrder dbl (ss_sections prev))\<rparr>
           in updateStore (writeChannelSectionsStore pubkey relayUrl)
                (\<lambda>current. current\<lparr>ss_sections := ss_sections current @ [section]\<rparr>) (fst h, ls)))"

definition renameSection :: "string \<Rightarrow> string \<Rightarrow> string option \<Rightarrow> section_store \<Rightarrow> section_store" where
  "renameSection sectionId newName icon prev =
     prev\<lparr>ss_sections := map (\<lambda>s. if sc_id s = sectionId
            then s\<lparr>sc_name := newName, sc_icon := iconIfAny icon\<rparr> else s) (ss_sections prev)\<rparr>"

definition deleteSection :: "string \<Rightarrow> section_store \<Rightarrow> section_store" where
  "deleteSection sectionId prev =
     prev\<lparr>ss_sections := filter (\<lambda>s. sc_id s \<noteq> sectionId) (ss_sections prev),
          ss_assignments := filter (\<lambda>(c, sid). sid \<noteq> sectionId) (ss_assignments prev)\<rparr>"

definition reorderSections :: "string list \<Rightarrow> section_store \<Rightarrow> section_store" where
  "reorderSections orderedIds prev =
     prev\<lparr>ss_sections := map (\<lambda>s. case findIndex (\<lambda>i. i = sc_id s) orderedIds of
            None \<Rightarrow> s | Some newOrder \<Rightarrow> s\<lparr>sc_order := JNum (int newOrder)\<rparr>) (ss_sections prev)\<rparr>"

definition assignChannel :: "string \<Rightarrow> string \<Rightarrow> section_store \<Rightarrow> section_store" where
  "assignChannel channelId sectionId prev =
     prev\<lparr>ss_assignments := jset (ss_assignments prev) channelId sectionId\<rparr>"

definition unassignChannel :: "string \<Rightarrow> section_store \<Rightarrow> section_store" where
  "unassignChannel channelId prev = prev\<lparr>ss_assignments := jdel (ss_assignments prev) channelId\<rparr>"

definition moveSection ::
  "(string \<Rightarrow> js_number) \<Rightarrow> string \<Rightarrow> string option \<Rightarrow> string \<Rightarrow> direction \<Rightarrow>
   section_store \<times> local_storage \<Rightarrow> section_store \<times> local_storage" where
  "moveSection dbl pubkey relayUrl sectionId direction h =
     (case swapSectionOrder dbl (fst h) sectionId direction of
        None \<Rightarrow> h
      | Some next_store \<Rightarrow> updateStore (writeChannelSectionsStore pubkey relayUrl) (\<lambda>_. next_store) h)"

text \<open>A call of the hook; without a pubkey nothing happens.\<close>

definition sectionCall ::
  "(string \<Rightarrow> js_number) \<Rightarrow> (string \<Rightarrow> jsval) \<Rightarrow> string option \<Rightarrow> string option \<Rightarrow> section_call \<Rightarrow>
   section_store \<times> local_storage \<Rightarrow> section_store \<times> local_storage" where
  "sectionCall dbl incr pubkey relayUrl call h =
     (if \<not> truthy pubkey then h
      else
        let update = updateStore (writeChannelSectionsStore (the pubkey) relayUrl) in
        case call of
          CreateSection uuid name icon \<Rightarrow> createSection dbl incr (the pubkey) relayUrl uuid name icon h
        | RenameSection sid name icon \<Rightarrow> update (renameSection sid name icon) h
        | DeleteSection sid \<Rightarrow> update (deleteSection sid) h
        | MoveSection sid direction \<Rightarrow> moveSection dbl (the pubkey) relayUrl sid direction h
        | ReorderSections orderedIds \<Rightarrow> update (reorderSections orderedIds) h
        | AssignChannel channelId sid \<Rightarrow> update (assignChannel channelId sid) h
        | UnassignChannel channelId \<Rightarrow> update (unassignChannel channelId) h)"

definition useChannelSections ::
  "(string \<Rightarrow> js_number) \<Rightarrow> string option \<Rightarrow> string option \<Rightarrow> local_storage \<Rightarrow> section_store \<times> local_storage" where
  "useChannelSections dbl pubkey relayUrl ls =
     (if \<not> truthy pubkey then (DEFAULT_SECTIONS, ls) else readChannelSectionsStore dbl (the pubkey) relayUrl ls)"

end
