(* ===== verification/SectionsReload.thy ===== *)
theory SectionsReload
  imports Sections
begin

text \<open>
  What a reload of the sections shows, and how moving and reordering change the order on the screen.
\<close>

subsection \<open>Printing and parsing\<close>

definition normalSection :: "channel_section \<Rightarrow> channel_section" where
  "normalSection s = s\<lparr>sc_icon := trimIcon (sc_icon s)\<rparr>"

definition normalSections :: "section_store \<Rightarrow> section_store" where
  "normalSections store = stripOrphanedAssignments (store\<lparr>ss_sections := map normalSection (ss_sections store)\<rparr>)"

definition isJNum :: "jsval \<Rightarrow> bool" where
  "isJNum v = (case v of JNum _ \<Rightarrow> True | _ \<Rightarrow> False)"

definition sections_ok :: "section_store \<Rightarrow> bool" where
  "sections_ok store \<longleftrightarrow> jwf (ss_assignments store) \<and> list_all (\<lambda>s. isJNum (sc_order s)) (ss_sections store)"

lemma parse_sectionJson: "isJNum (sc_order s) \<Longrightarrow> parseSection (sectionJson s) = [normalSection s]"
  by (cases "sc_icon s"; cases "sc_order s")
    (auto simp: parseSection_def sectionJson_def Let_def asRecord_def asString_def jfield_def isNumberValue_def
      normalSection_def trimIcon_def isJNum_def)

lemma parse_sectionJsons:
  "list_all (\<lambda>s. isJNum (sc_order s)) ss \<Longrightarrow> concat (map parseSection (map sectionJson ss)) = map normalSection ss"
  by (induction ss) (auto simp: parse_sectionJson)

lemma parse_assignments: "concat (map parseAssignment (map (\<lambda>(c, sid). (c, JStr sid)) as)) = as"
  by (induction as) (auto simp: parseAssignment_def)

lemma wf_sectionStoreJson: "sections_ok store \<Longrightarrow> wf_json (sectionStoreJson store)"
proof -
  assume ok: "sections_ok store"
  have "wf_json (sectionJson s)" if "isJNum (sc_order s)" for s
    using that by (cases "sc_icon s"; cases "sc_order s") (auto simp: sectionJson_def isJNum_def)
  then have "list_all wf_json (map sectionJson (ss_sections store))"
    using ok by (auto simp: sections_ok_def list_all_iff)
  moreover have "map fst (map (\<lambda>(c, sid). (c, JStr sid)) as) = map fst as"
    "list_all (\<lambda>(k, v). wf_json v) (map (\<lambda>(c, sid). (c, JStr sid)) as)" for as :: "(string, string) jsmap"
    by (induction as) auto
  ultimately show ?thesis using ok
    by (simp add: sectionStoreJson_def sections_ok_def jwf_def del: map_map)
qed

lemma parseRaw_printed:
  assumes "sections_ok store"
  shows "parseRaw dbl (Some (stringify (sectionStoreJson store))) = Some (normalSections store)"
proof -
  have ne: "stringify (sectionStoreJson store) \<noteq> []" by (simp add: sectionStoreJson_def)
  have "list_all (\<lambda>s. isJNum (sc_order s)) (ss_sections store)" using assms by (simp add: sections_ok_def)
  from parse_sectionJsons [OF this] parse_assignments [of "ss_assignments store"]
  have "parseChannelSectionPayload (sectionStoreJson store) = Some (normalSections store)"
    by (simp add: parseChannelSectionPayload_def sectionStoreJson_def Let_def asRecord_def jfield_def normalSections_def
        del: map_map)
      (simp add: stripOrphanedAssignments_def)
  moreover have "isVersion1 dbl (jfield (asRecord (Some (sectionStoreJson store))) ''version'')"
    by (simp add: sectionStoreJson_def asRecord_def jfield_def)
  ultimately show ?thesis
    unfolding parseRaw_def option.sel json_roundtrip [OF wf_sectionStoreJson [OF assms]] using ne
    by (simp add: truthy_def)
qed

lemma read_written_sections:
  assumes "sections_ok store" and "writeChannelSectionsStore pubkey relayUrl store ls = Some ls'"
  shows "readChannelSectionsStore dbl pubkey relayUrl ls' = (normalSections store, ls')"
  using assms getItem_setItem_same
  by (simp add: readChannelSectionsStore_def writeChannelSectionsStore_def Let_def parseRaw_printed)

interpretation sections: persisted_store "\<lambda>ls. fst (readChannelSectionsStore dbl pubkey relayUrl ls)"
    "writeChannelSectionsStore pubkey relayUrl" normalSections sections_ok
  for dbl pubkey relayUrl
  by unfold_locales (simp add: read_written_sections)

subsection \<open>Normal forms\<close>

lemma trimIcon_idem [simp]: "trimIcon (trimIcon i) = trimIcon i"
  by (simp add: trimIcon_def split: option.splits)

lemma normalSection_idem [simp]: "normalSection (normalSection s) = normalSection s"
  by (simp add: normalSection_def)

lemma normalSection_id [simp]: "sc_id (normalSection s) = sc_id s" "sc_order (normalSection s) = sc_order s"
  by (simp_all add: normalSection_def)

lemma stripOrphanedAssignments_idem [simp]:
  "stripOrphanedAssignments (stripOrphanedAssignments st) = stripOrphanedAssignments st"
  by (simp add: stripOrphanedAssignments_def)

lemma sections_strip [simp]: "ss_sections (stripOrphanedAssignments st) = ss_sections st"
  by (simp add: stripOrphanedAssignments_def)

lemma normal_strip:
  "list_all (\<lambda>s. normalSection s = s) (ss_sections st) \<Longrightarrow> normalSections (stripOrphanedAssignments st) = stripOrphanedAssignments st"
proof -
  assume "list_all (\<lambda>s. normalSection s = s) (ss_sections st)"
  then have "map normalSection (ss_sections st) = ss_sections st" by (induction "ss_sections st") (auto simp: list_all_iff map_idI)
  then have "(stripOrphanedAssignments st)\<lparr>ss_sections := map normalSection (ss_sections (stripOrphanedAssignments st))\<rparr> =
      stripOrphanedAssignments st" by (simp add: stripOrphanedAssignments_def)
  then show ?thesis by (simp only: normalSections_def stripOrphanedAssignments_idem)
qed

lemma parseSection_normal: "s \<in> set (parseSection e) \<Longrightarrow> normalSection s = s"
  by (auto simp: parseSection_def Let_def normalSection_def split: if_splits)

lemma parseRaw_normal: "parseRaw dbl raw = Some st \<Longrightarrow> normalSections st = st"
  by (auto simp: parseRaw_def parseChannelSectionPayload_def Let_def list_all_iff split: if_splits option.splits jsval.splits
      dest: parseSection_normal intro!: normal_strip)

lemma normal_DEFAULT [simp]: "normalSections DEFAULT_SECTIONS = DEFAULT_SECTIONS"
  by (simp add: normalSections_def DEFAULT_SECTIONS_def stripOrphanedAssignments_def)

lemma read_normal: "normalSections (fst (readChannelSectionsStore dbl pubkey relayUrl ls)) = fst (readChannelSectionsStore dbl pubkey relayUrl ls)"
  by (auto simp: readChannelSectionsStore_def Let_def parseRaw_normal split: option.splits)

lemma normal_idem [simp]: "normalSections (normalSections st) = normalSections st"
  unfolding normalSections_def [of st] by (rule normal_strip) (simp add: list_all_iff)

lemma sectionStorageKey_scoped: "truthy relayUrl \<Longrightarrow> sectionStorageKey pubkey relayUrl \<noteq> sectionStorageKey pubkey None"
  by (simp add: sectionStorageKey_def scopedKey_def truthy_def)

text \<open>Reading twice is reading once, also when the first read migrates the legacy key.\<close>

lemma read_again:
  assumes "sections_ok (fst (readChannelSectionsStore dbl pubkey relayUrl ls))"
  shows "fst (readChannelSectionsStore dbl pubkey relayUrl (snd (readChannelSectionsStore dbl pubkey relayUrl ls))) =
    fst (readChannelSectionsStore dbl pubkey relayUrl ls)"
proof -
  let ?key = "sectionStorageKey pubkey relayUrl" and ?r = "readChannelSectionsStore dbl pubkey relayUrl ls"
  have "snd ?r = ls \<or> (\<exists>ls'. truthy relayUrl \<and> writeChannelSectionsStore pubkey relayUrl (fst ?r) ls = Some ls' \<and>
      snd ?r = removeItem ls' (sectionStorageKey pubkey None))"
    by (auto simp: readChannelSectionsStore_def Let_def writeChannelSectionsStore_def split: option.splits)
  then show ?thesis
  proof
    assume "\<exists>ls'. truthy relayUrl \<and> writeChannelSectionsStore pubkey relayUrl (fst ?r) ls = Some ls' \<and>
      snd ?r = removeItem ls' (sectionStorageKey pubkey None)"
    then obtain ls' where ls': "truthy relayUrl" "writeChannelSectionsStore pubkey relayUrl (fst ?r) ls = Some ls'"
      "snd ?r = removeItem ls' (sectionStorageKey pubkey None)" by blast
    have "getItem (snd ?r) ?key = Some (stringify (sectionStoreJson (fst ?r)))"
      using ls' getItem_setItem_same sectionStorageKey_scoped [OF ls'(1), of pubkey]
      by (simp add: writeChannelSectionsStore_def getItem_def removeItem_def)
    then show ?thesis
      using parseRaw_printed [OF assms] read_normal [of dbl pubkey relayUrl ls]
      by (simp add: readChannelSectionsStore_def Let_def)
  qed simp
qed

subsection \<open>Every call keeps the storage in step\<close>

lemma isJNum_maxOrder: "list_all (\<lambda>s. isJNum (sc_order s)) ss \<Longrightarrow> isJNum (maxOrder dbl ss)"
proof -
  have "isJNum m \<Longrightarrow> list_all isJNum xs \<Longrightarrow> isJNum (fold (\<lambda>x m. if numberValue dbl m < numberValue dbl x then x else m) xs m)" for xs m
    by (induction xs arbitrary: m) auto
  then show "list_all (\<lambda>s. isJNum (sc_order s)) ss \<Longrightarrow> ?thesis"
    by (cases ss) (auto simp: maxOrder_def isJNum_def list_all_iff)
qed

lemma isJNum_plusOne: "isJNum v \<Longrightarrow> isJNum (plusOne incr v)"
  by (auto simp: isJNum_def plusOne_def split: jsval.splits)

lemma sections_ok_normal: "sections_ok st \<Longrightarrow> sections_ok (normalSections st)"
  by (simp add: sections_ok_def normalSections_def stripOrphanedAssignments_def list_all_iff)

lemma neighborIndex_less: "neighborIndex direction i n = Some j \<Longrightarrow> i < n \<Longrightarrow> j < n \<and> j \<noteq> i"
  by (auto simp: neighborIndex_def split: direction.splits if_splits)

lemma sections_ok_ops:
  assumes "sections_ok st"
  shows "sections_ok (renameSection sid name icon st)" "sections_ok (deleteSection sid st)"
    "sections_ok (reorderSections ids st)" "sections_ok (assignChannel c sid st)" "sections_ok (unassignChannel c st)"
  using assms
  by (auto simp: sections_ok_def renameSection_def deleteSection_def reorderSections_def assignChannel_def
      unassignChannel_def list_all_iff isJNum_def split: option.splits)

lemma sections_ok_swap:
  assumes "sections_ok st" and "swapSectionOrder dbl st sid direction = Some st'"
  shows "sections_ok st'"
proof -
  obtain target idx ni where t: "target \<in> set (ss_sections st)"
    and ni: "findIndex (\<lambda>s. sc_id s = sid) (sortedSections dbl st) = Some idx"
      "neighborIndex direction idx (length (sortedSections dbl st)) = Some ni"
    and st': "st' = st\<lparr>ss_sections := map (swapOrders target (sortedSections dbl st ! ni)) (ss_sections st)\<rparr>"
    using assms(2) by (auto simp: swapSectionOrder_def Let_def split: option.splits bind_splits dest: find_mem_Some)
  have "ni < length (sortedSections dbl st)" using neighborIndex_less [OF ni(2)] findIndex_Some [OF ni(1)] by blast
  then have "sortedSections dbl st ! ni \<in> set (sortedSections dbl st)" by (rule nth_mem)
  then have "sortedSections dbl st ! ni \<in> set (ss_sections st)" by (simp only: sortedSections_def set_js_sort)
  then show ?thesis using assms(1) t by (auto simp: st' sections_ok_def swapOrders_def list_all_iff)
qed

lemma in_step_create:
  assumes "sections.in_step dbl pubkey relayUrl h"
  shows "sections.in_step dbl pubkey relayUrl (createSection dbl incr pubkey relayUrl uuid name icon h)"
proof -
  obtain prev ls where read: "readChannelSectionsStore dbl pubkey relayUrl (snd h) = (prev, ls)" by fastforce
  have prev: "prev = normalSections (fst h)" "sections_ok (fst h)"
    using assms read by (simp_all add: sections.in_step_def)
  then have ok: "sections_ok prev" using sections_ok_normal by simp
  then have "sections.in_step dbl pubkey relayUrl (fst h, ls)"
    using read_again [of dbl pubkey relayUrl "snd h"] prev by (simp add: read sections.in_step_def)
  moreover have "isJNum (plusOne incr (maxOrder dbl (ss_sections prev)))"
    using ok by (intro isJNum_plusOne isJNum_maxOrder) (simp add: sections_ok_def)
  ultimately show ?thesis
    unfolding createSection_def read
    by (simp only: prod.case Let_def, intro sections.in_step_update) (auto simp: sections_ok_def)
qed

lemma in_step_call:
  assumes "sections.in_step dbl pubkey relayUrl h" and "pubkey \<noteq> []"
  shows "sections.in_step dbl pubkey relayUrl (sectionCall dbl incr (Some pubkey) relayUrl call h)"
proof (cases call)
  case (MoveSection sid direction)
  then show ?thesis
    using assms sections_ok_swap [of "fst h" dbl sid direction]
    by (auto simp: sectionCall_def truthy_def moveSection_def sections.in_step_def [of _ _ _ h] Let_def split: option.splits
        intro: sections.in_step_update [OF assms(1)])
qed (use assms in \<open>auto simp: sectionCall_def truthy_def Let_def
       intro!: in_step_create sections.in_step_update sections_ok_ops\<close>)

lemma in_step_calls:
  "sections.in_step dbl pubkey relayUrl h \<Longrightarrow> pubkey \<noteq> [] \<Longrightarrow>
   sections.in_step dbl pubkey relayUrl (fold (sectionCall dbl incr (Some pubkey) relayUrl) calls h)"
  by (induction calls arbitrary: h) (simp_all add: in_step_call)

text \<open>
  C25. Sections survive a restart. Whatever calls are made after opening the sections of a community,
  and whichever of their writes the storage refuses, reading the storage again gives what is on the
  screen, up to the blanks around icons and assignments to sections that are gone. This holds also
  when opening migrates the sections of the legacy key.
\<close>

theorem sections_survive_reload:
  assumes "pubkey \<noteq> []" and "sections_ok (fst (readChannelSectionsStore dbl pubkey relayUrl ls))"
    and "fold (sectionCall dbl incr (Some pubkey) relayUrl) calls (useChannelSections dbl (Some pubkey) relayUrl ls) = (st, ls')"
  shows "fst (useChannelSections dbl (Some pubkey) relayUrl ls') = normalSections st"
proof -
  have "sections.in_step dbl pubkey relayUrl (useChannelSections dbl (Some pubkey) relayUrl ls)"
    using assms(1,2) read_again [OF assms(2)]
    by (simp add: sections.in_step_def useChannelSections_def truthy_def read_normal)
  from in_step_calls [OF this assms(1), of incr calls] show ?thesis
    using assms(1) unfolding assms(3) by (simp add: sections.in_step_def useChannelSections_def truthy_def)
qed

definition sampleLegacy :: local_storage where
  "sampleLegacy =
     \<lparr>st_items = [(''buzz-channel-sections.v1:p'',
        stringify (JObj [(''version'', JNum 1),
          (''sections'', JArr [JObj [(''id'', JStr ''x''), (''name'', JStr ''X''), (''order'', JNum 0)]]),
          (''assignments'', JObj [(''c'', JStr ''x'')])]))],
      st_quota = 500, st_warned = False, st_toasts = 0\<rparr>"

definition sampleSections :: "section_store \<times> local_storage" where
  "sampleSections =
     fold (sectionCall (\<lambda>_. Finite 0) (\<lambda>_. JNum 0) (Some ''p'') (Some ''wss://r/''))
       [CreateSection ''y'' ''Y'' None, MoveSection ''x'' Down, AssignChannel ''d'' ''y'']
       (useChannelSections (\<lambda>_. Finite 0) (Some ''p'') (Some ''wss://r/'') sampleLegacy)"

theorem sections_survive_reload_witness:
  "fst (useChannelSections (\<lambda>_. Finite 0) (Some ''p'') (Some ''wss://r/'') (snd sampleSections)) =
     normalSections (fst sampleSections) \<and>
   map sc_id (sortedSections (\<lambda>_. Finite 0) (fst sampleSections)) = [''y'', ''x''] \<and>
   getItem (snd sampleSections) ''buzz-channel-sections.v1:p'' = None"
proof -
  have run: "map sc_id (sortedSections (\<lambda>_. Finite 0) (fst sampleSections)) = [''y'', ''x''] \<and>
      getItem (snd sampleSections) ''buzz-channel-sections.v1:p'' = None" by code_simp
  have ok: "''p'' \<noteq> []" "sections_ok (fst (readChannelSectionsStore (\<lambda>_. Finite 0) ''p'' (Some ''wss://r/'') sampleLegacy))"
    by code_simp+
  have "fold (sectionCall (\<lambda>_. Finite 0) (\<lambda>_. JNum 0) (Some ''p'') (Some ''wss://r/''))
       [CreateSection ''y'' ''Y'' None, MoveSection ''x'' Down, AssignChannel ''d'' ''y'']
       (useChannelSections (\<lambda>_. Finite 0) (Some ''p'') (Some ''wss://r/'') sampleLegacy) = (fst sampleSections, snd sampleSections)"
    by (simp only: sampleSections_def prod.collapse)
  from sections_survive_reload [OF ok this] run show ?thesis by blast
qed

end
