(* ===== verification/SectionsOrder.thy ===== *)
theory SectionsOrder
  imports SectionsReload
begin

text \<open>
  The order of the sections on the screen: moving a section exchanges it with its neighbour, dragging
  shows the given order, and the sections of different relays never share a key.
\<close>

subsection \<open>Moving\<close>

definition orderOf :: "(string \<Rightarrow> js_number) \<Rightarrow> channel_section \<Rightarrow> js_number" where
  "orderOf dbl s = numberValue dbl (sc_order s)"

interpretation by_order: keyed_comparator "compareOrder dbl" "orderOf dbl" "\<lambda>_. True" for dbl
  by unfold_locales (auto simp: compareOrder_def orderOf_def Let_def)

lemma sortedSections_key: "sortedSections dbl st = sort_key (orderOf dbl) (ss_sections st)"
  by (simp add: sortedSections_def by_order.js_sort_eq)

lemma sort_key_candidate:
  assumes "mset ys = mset xs" and "sorted (map k ys)" and "distinct (map k ys)"
  shows "sort_key k xs = ys"
proof -
  have "inj_on k (set xs)" using assms(1,3) mset_eq_setD [OF assms(1)] by (simp add: distinct_map)
  then show ?thesis using sort_key_inj_key_eq [of xs ys k] assms by simp
qed

lemma distinct_map_sort_key [simp]: "distinct (map f (sort_key k xs)) = distinct (map f xs)"
  by (simp add: distinct_map)

lemma find_distinct:
  "distinct (map f xs) \<Longrightarrow> x \<in> set xs \<Longrightarrow> find (\<lambda>s. f s = f x) xs = Some x"
  by (induction xs) (auto simp: image_iff)

lemma swapOrders_id [simp]: "sc_id (swapOrders a b s) = sc_id s"
  by (simp add: swapOrders_def)

lemma orderOf_swapOrders:
  "orderOf dbl (swapOrders a b s) =
     (if sc_id s = sc_id a then orderOf dbl b else if sc_id s = sc_id b then orderOf dbl a else orderOf dbl s)"
  by (simp add: swapOrders_def orderOf_def)

text \<open>Exchanging the orders of two sections exchanges their places.\<close>

lemma sort_swapped:
  assumes "distinct (map sc_id S)" and "distinct (map (orderOf dbl) S)" and "L = sort_key (orderOf dbl) S"
    and "i < length L" and "j < length L" and "i \<noteq> j"
  shows "map sc_id (sort_key (orderOf dbl) (map (swapOrders (L ! i) (L ! j)) S)) =
    (map sc_id L)[i := sc_id (L ! j), j := sc_id (L ! i)]"
proof -
  let ?f = "swapOrders (L ! i) (L ! j)" and ?k = "orderOf dbl"
  define L' where "L' = (map ?f L)[i := ?f (L ! j), j := ?f (L ! i)]"
  have perm: "mset L = mset S" using assms(3) by simp
  have ids: "distinct (map sc_id L)" "distinct (map ?k L)" and srt: "sorted (map ?k L)"
    using assms(1-3) by simp_all
  have "mset L' = mset (map ?f L)"
    using mset_swap [of j "map ?f L" i] assms(4,5) by (simp add: L'_def)
  then have mset: "mset L' = mset (map ?f S)" by (simp add: perm [symmetric])
  have same: "L ! m = L ! n \<longleftrightarrow> sc_id (L ! m) = sc_id (L ! n)" "sc_id (L ! m) = sc_id (L ! n) \<longleftrightarrow> m = n"
    if "m < length L" "n < length L" for m n
    using that ids(1) nth_eq_iff_index_eq [OF ids(1), of m n] by auto
  have "map ?k L' = map ?k L"
  proof (rule nth_equalityI)
    fix n assume "n < length (map ?k L')"
    then have n: "n < length L" by (simp add: L'_def)
    show "map ?k L' ! n = map ?k L ! n"
      using n assms(4-6) same(2)
      by (cases "n = i"; cases "n = j") (simp_all add: L'_def nth_list_update orderOf_swapOrders)
  qed (simp add: L'_def)
  then have "sort_key ?k (map ?f S) = L'" using sort_key_candidate [OF mset] ids(2) srt by metis
  moreover have "map sc_id L' = (map sc_id L)[i := sc_id (L ! j), j := sc_id (L ! i)]"
    by (simp add: L'_def map_update comp_def)
  ultimately show ?thesis by simp
qed

lemma swapSectionOrder_nth:
  assumes "distinct (map sc_id (ss_sections st))" and "i < length (sortedSections dbl st)"
  shows "swapSectionOrder dbl st (sc_id (sortedSections dbl st ! i)) direction =
    map_option (\<lambda>j. st\<lparr>ss_sections := map (swapOrders (sortedSections dbl st ! i) (sortedSections dbl st ! j)) (ss_sections st)\<rparr>)
      (neighborIndex direction i (length (sortedSections dbl st)))"
proof -
  let ?L = "sortedSections dbl st"
  have "?L ! i \<in> set (ss_sections st)" using nth_mem [OF assms(2)] by (simp add: sortedSections_key)
  then have found: "find (\<lambda>s. sc_id s = sc_id (?L ! i)) (ss_sections st) = Some (?L ! i)"
    by (rule find_distinct [OF assms(1)])
  have "distinct (map sc_id ?L)" using assms(1) by (simp add: sortedSections_key)
  then have "findIndex (\<lambda>s. sc_id s = sc_id (?L ! i)) ?L = Some i"
    using findIndex_nth [of "map sc_id ?L" i] assms(2) by (simp add: findIndex_map [of sc_id])
  then show ?thesis using found by (simp add: swapSectionOrder_def Let_def split: option.split)
qed

lemma swap_at_index:
  assumes "distinct (map sc_id (ss_sections st))" and "distinct (map (\<lambda>s. numberValue dbl (sc_order s)) (ss_sections st))"
    and "i < length (ss_sections st)"
  shows "(case neighborIndex direction i (length (ss_sections st)) of
      None \<Rightarrow> swapSectionOrder dbl st (map sc_id (sortedSections dbl st) ! i) direction = None
    | Some j \<Rightarrow> \<exists>st'. swapSectionOrder dbl st (map sc_id (sortedSections dbl st) ! i) direction = Some st' \<and>
        map sc_id (sortedSections dbl st') =
          (map sc_id (sortedSections dbl st))
            [i := map sc_id (sortedSections dbl st) ! j, j := map sc_id (sortedSections dbl st) ! i] \<and>
        ss_assignments st' = ss_assignments st)"
proof -
  let ?L = "sortedSections dbl st"
  have L: "?L = sort_key (orderOf dbl) (ss_sections st)" by (rule sortedSections_key)
  have i: "i < length ?L" using assms(3) by (simp add: L)
  note swap = swapSectionOrder_nth [OF assms(1) i, of direction]
  show ?thesis
  proof (cases "neighborIndex direction i (length (ss_sections st))")
    case None
    then show ?thesis using i swap by (simp add: L)
  next
    case (Some j)
    have j: "j < length ?L" "i \<noteq> j" using neighborIndex_less [OF Some assms(3)] by (auto simp: L)
    let ?st = "st\<lparr>ss_sections := map (swapOrders (?L ! i) (?L ! j)) (ss_sections st)\<rparr>"
    have "swapSectionOrder dbl st (sc_id (?L ! i)) direction = Some ?st" using Some swap by (simp add: L)
    moreover have "map sc_id (sortedSections dbl ?st) = (map sc_id ?L)[i := sc_id (?L ! j), j := sc_id (?L ! i)]"
      using sort_swapped [OF assms(1) _ L i j(1,2)] assms(2) by (simp add: sortedSections_key orderOf_def [abs_def])
    ultimately show ?thesis using Some i j by simp
  qed
qed

lemma list_update_pair: "(before @ [a, b] @ after)[length before := b, Suc (length before) := a] = before @ [b, a] @ after"
  by (simp add: list_update_append)

lemma swapOrders_sym: "sc_id t \<noteq> sc_id n \<Longrightarrow> swapOrders t n = swapOrders n t"
  by (auto simp: swapOrders_def fun_eq_iff)

text \<open>
  C26. Moving a section exchanges it with its neighbour on the screen, as long as all sections have
  different ids and orders. Where the screen shows \<open>a\<close> directly above \<open>b\<close>, moving \<open>b\<close> up and moving \<open>a\<close>
  down have the same result: the screen shows \<open>b\<close> above \<open>a\<close>, everything else as before, and assignments
  stay. The first section does not move up, the last not down, and nothing happens for an unknown id.
\<close>

theorem moving_a_section:
  assumes "distinct (map sc_id (ss_sections st))" and "distinct (map (\<lambda>s. numberValue dbl (sc_order s)) (ss_sections st))"
  shows "(map sc_id (sortedSections dbl st) = before @ [a, b] @ after \<longrightarrow>
      (\<exists>st'. swapSectionOrder dbl st b Up = Some st' \<and> swapSectionOrder dbl st a Down = Some st' \<and>
        map sc_id (sortedSections dbl st') = before @ [b, a] @ after \<and> ss_assignments st' = ss_assignments st)) \<and>
    (map sc_id (sortedSections dbl st) = a # after \<longrightarrow> swapSectionOrder dbl st a Up = None) \<and>
    (map sc_id (sortedSections dbl st) = before @ [b] \<longrightarrow> swapSectionOrder dbl st b Down = None) \<and>
    (c \<notin> set (map sc_id (sortedSections dbl st)) \<longrightarrow> swapSectionOrder dbl st c direction = None)"
proof -
  let ?ids = "map sc_id (sortedSections dbl st)"
  have len: "length ?ids = length (ss_sections st)" by (simp add: sortedSections_key)
  have dist: "distinct ?ids" using assms(1) by (simp add: sortedSections_key)
  note at = swap_at_index [OF assms]
  have "\<exists>st'. swapSectionOrder dbl st b Up = Some st' \<and> swapSectionOrder dbl st a Down = Some st' \<and>
        map sc_id (sortedSections dbl st') = before @ [b, a] @ after \<and> ss_assignments st' = ss_assignments st"
    if ids: "?ids = before @ [a, b] @ after"
  proof -
    let ?n = "length before"
    have n: "?n < length (ss_sections st)" "Suc ?n < length (ss_sections st)" using arg_cong [OF ids, of length] len by simp_all
    have nth: "?ids ! ?n = a" "?ids ! Suc ?n = b" unfolding ids by (simp_all add: nth_append)
    have "a \<noteq> b" using dist unfolding ids by auto
    obtain st1 where st1: "swapSectionOrder dbl st b Up = Some st1"
      "map sc_id (sortedSections dbl st1) = ?ids[Suc ?n := a, ?n := b]" "ss_assignments st1 = ss_assignments st"
      using at [OF n(2), of Up] unfolding nth neighborIndex_def by (auto simp: nth)
    obtain st2 where st2: "swapSectionOrder dbl st a Down = Some st2" using at [OF n(1), of Down] n(2) unfolding nth neighborIndex_def by auto
    have L: "?n < length (sortedSections dbl st)" "Suc ?n < length (sortedSections dbl st)" using n len by simp_all
    have "st1 = st2"
      using st1(1) st2 \<open>a \<noteq> b\<close> nth L swapSectionOrder_nth [OF assms(1) L(2), of Up] swapSectionOrder_nth [OF assms(1) L(1), of Down]
        swapOrders_sym [of "sortedSections dbl st ! ?n" "sortedSections dbl st ! Suc ?n"]
      by (simp add: neighborIndex_def)
    moreover have "?ids[Suc ?n := a, ?n := b] = (before @ [a, b] @ after)[?n := b, Suc ?n := a]"
      unfolding ids by (rule list_update_swap) simp
    then have "map sc_id (sortedSections dbl st1) = before @ [b, a] @ after" unfolding st1(2) by (simp only: list_update_pair)
    ultimately show ?thesis using st1(1,3) st2 by blast
  qed
  moreover have "swapSectionOrder dbl st a Up = None" if "?ids = a # after"
  proof -
    have "0 < length (ss_sections st)" using arg_cong [OF that, of length] len by (simp del: length_greater_0_conv)
    from at [OF this, of Up] that show ?thesis by (auto simp: neighborIndex_def)
  qed
  moreover have "swapSectionOrder dbl st b Down = None" if "?ids = before @ [b]"
  proof -
    have n: "length (ss_sections st) = Suc (length before)" using arg_cong [OF that, of length] len by simp
    then have "swapSectionOrder dbl st (?ids ! length before) Down = None"
      using at [of "length before" Down] by (simp add: neighborIndex_def)
    then show ?thesis unfolding that by simp
  qed
  moreover have "swapSectionOrder dbl st c direction = None" if "c \<notin> set ?ids"
  proof -
    have "find (\<lambda>s. sc_id s = c) (ss_sections st) = None" using that by (auto simp: find_None_iff sortedSections_key)
    then show ?thesis by (simp add: swapSectionOrder_def)
  qed
  ultimately show ?thesis by blast
qed

definition sampleSection :: "string \<Rightarrow> int \<Rightarrow> channel_section" where
  "sampleSection i n = \<lparr>sc_id = i, sc_name = i, sc_icon = None, sc_order = JNum n\<rparr>"

definition sampleStore :: section_store where
  "sampleStore = \<lparr>ss_sections = [sampleSection ''b'' 5, sampleSection ''a'' 2, sampleSection ''c'' 9], ss_assignments = []\<rparr>"

theorem moving_a_section_witness:
  "\<exists>st'. swapSectionOrder (\<lambda>_. Finite 0) sampleStore ''a'' Down = Some st' \<and>
     map sc_id (sortedSections (\<lambda>_. Finite 0) st') = [''b'', ''a'', ''c'']"
proof -
  have ok: "distinct (map sc_id (ss_sections sampleStore))"
    "distinct (map (\<lambda>s. numberValue (\<lambda>_. Finite 0) (sc_order s)) (ss_sections sampleStore))" by code_simp+
  have "map sc_id (sortedSections (\<lambda>_. Finite 0) sampleStore) = [] @ [''a'', ''b''] @ [''c'']" by code_simp
  from moving_a_section [OF ok, THEN conjunct1, rule_format, OF this] show ?thesis by auto
qed

subsection \<open>Reordering\<close>

lemma of_int_order [simp]: "orderOf dbl (s\<lparr>sc_order := JNum n\<rparr>) = Finite (of_int n)"
  by (simp add: orderOf_def numberValue_def jsNumber_def)

lemma mset_by_id:
  assumes "distinct (map sc_id S)" and "distinct ids" and "set ids = set (map sc_id S)"
  shows "mset (map (\<lambda>i. the (find (\<lambda>s. sc_id s = i) S)) ids) = mset S"
proof -
  let ?g = "\<lambda>i. the (find (\<lambda>s. sc_id s = i) S)"
  have "mset ids = mset (map sc_id S)"
    by (rule set_eq_iff_mset_eq_distinct [THEN iffD1, OF assms(2,1,3)])
  then have "mset (map ?g ids) = mset (map ?g (map sc_id S))" by (metis mset_map)
  also have "map ?g (map sc_id S) = S"
    using find_distinct [OF assms(1)] by (auto intro!: map_idI)
  finally show ?thesis .
qed

text \<open>
  Dragging shows the given order: reordering by a list that names every section once puts the
  sections on the screen in the order of the list, whatever their orders were.
\<close>

theorem reordering_shows_given_order:
  assumes "distinct (map sc_id (ss_sections st))" and "distinct orderedIds"
    and "set orderedIds = set (map sc_id (ss_sections st))"
  shows "map sc_id (sortedSections dbl (reorderSections orderedIds st)) = orderedIds"
proof -
  let ?S = "ss_sections st" and ?k = "orderOf dbl"
  define g where "g s = (case findIndex (\<lambda>i. i = sc_id s) orderedIds of
      None \<Rightarrow> s | Some n \<Rightarrow> s\<lparr>sc_order := JNum (int n)\<rparr>)" for s :: channel_section
  define by_id where "by_id i = the (find (\<lambda>s. sc_id s = i) ?S)" for i
  have by_id: "sc_id (by_id i) = i" if i: "i \<in> set orderedIds" for i
  proof -
    obtain s where "s \<in> set ?S" "sc_id s = i" using i assms(3) by auto
    then show ?thesis using find_distinct [OF assms(1), of s] by (simp add: by_id_def)
  qed
  let ?ys = "map (g \<circ> by_id) orderedIds"
  have place: "g (by_id (orderedIds ! n)) = (by_id (orderedIds ! n))\<lparr>sc_order := JNum (int n)\<rparr>" if "n < length orderedIds" for n
    using that findIndex_nth [OF assms(2) that] by_id [OF nth_mem [OF that]] by (simp add: g_def)
  have keys: "map ?k ?ys = map (\<lambda>n. Finite (of_nat n)) [0..<length orderedIds]"
    by (rule nth_equalityI) (simp_all add: place)
  have "sorted (map ?k ?ys)" "distinct (map ?k ?ys)"
    unfolding keys by (auto simp: sorted_iff_nth_mono distinct_map inj_on_def)
  moreover have "mset ?ys = mset (map g ?S)"
  proof -
    have "mset (map by_id orderedIds) = mset ?S" using mset_by_id [OF assms] unfolding by_id_def [abs_def] .
    then show ?thesis by (simp only: map_map [symmetric] mset_map [of g])
  qed
  ultimately have "sort_key ?k (map g ?S) = ?ys" using sort_key_candidate [of ?ys "map g ?S" ?k] by blast
  moreover have "ss_sections (reorderSections orderedIds st) = map g ?S"
    by (simp add: reorderSections_def g_def [abs_def])
  moreover have "map sc_id ?ys = orderedIds"
    by (rule nth_equalityI) (simp_all add: place by_id)
  ultimately show ?thesis by (simp add: sortedSections_key)
qed

theorem reordering_shows_given_order_witness:
  "map sc_id (sortedSections (\<lambda>_. Finite 0) (reorderSections [''c'', ''a'', ''b''] sampleStore)) = [''c'', ''a'', ''b'']"
  by (rule reordering_shows_given_order) (code_simp, code_simp, auto simp: sampleStore_def sampleSection_def)

subsection \<open>Keys of relays\<close>

text \<open>The inverse of \<open>encodeURIComponent\<close>.\<close>

definition hexValue :: "char \<Rightarrow> nat" where
  "hexValue c = (let n = of_char c in if n < 58 then n - 48 else n - 55)"

fun decodeUri :: "string \<Rightarrow> string" where
  "decodeUri [] = []"
| "decodeUri (c # s) =
     (if c = CHR ''%''
      then
        (case s of
           a # b # rest \<Rightarrow>
             (let n = 16 * hexValue a + hexValue b in
              if n < 128 then char_of n # decodeUri rest
              else
                (case rest of
                   _ # x # y # rest' \<Rightarrow>
                     char_of ((n - 192) * 64 + (16 * hexValue x + hexValue y - 128)) # decodeUri rest'
                 | _ \<Rightarrow> []))
         | _ \<Rightarrow> [])
      else c # decodeUri s)"

lemma hexValue_upperHex [simp]: "k < 16 \<Longrightarrow> hexValue (upperHex k) = k"
  by (auto simp: hexValue_def upperHex_def Let_def)

lemma decode_encodeUriChar: "decodeUri (encodeUriChar c @ s) = c # decodeUri s"
proof -
  define n where "n = (of_char c :: nat)"
  have n: "n < 256" "char_of n = c" by (simp_all add: n_def)
  consider "uriUnreserved c" | "\<not> uriUnreserved c" "n < 128" | "\<not> uriUnreserved c" "128 \<le> n" by linarith
  then show ?thesis
  proof cases
    case 1
    then have "c \<noteq> CHR ''%''" by (auto simp: uriUnreserved_def)
    then show ?thesis using 1 by (simp add: encodeUriChar_def)
  next
    case 2
    then show ?thesis using n by (simp add: encodeUriChar_def percentByte_def n_def [symmetric] Let_def)
  next
    case 3
    have d: "n div 64 = 2 \<or> n div 64 = 3" using 3 n(1) by auto
    have "(192 + n div 64) div 16 = 12" "(192 + n div 64) mod 16 = n div 64" using d by auto
    moreover have "16 * ((128 + n mod 64) div 16) + (128 + n mod 64) mod 16 = 128 + n mod 64" by simp
    moreover have "(128 + n mod 64) div 16 < 16" "(128 + n mod 64) mod 16 < 16"
      using mod_less_divisor [of 64 n] by auto
    moreover have "n div 64 * 64 + n mod 64 = n" by simp
    ultimately show ?thesis using 3 n d
      by (simp add: encodeUriChar_def percentByte_def n_def [symmetric] Let_def)
  qed
qed

lemma decode_encode: "decodeUri (encodeURIComponent s) = s"
  by (induction s) (simp_all add: encodeURIComponent_def decode_encodeUriChar)

lemma encode_inj: "encodeURIComponent s = encodeURIComponent t \<longleftrightarrow> s = t"
  by (metis decode_encode)

text \<open>
  Communities do not share their sections: two storage keys of relays are the same exactly for the
  same member and relay addresses that differ only in blanks at the ends, trailing slashes and case,
  as long as member names hold no colon. No scoped key is a legacy key.
\<close>

theorem relay_keys_separate:
  assumes "CHR '':'' \<notin> set pubkey" and "CHR '':'' \<notin> set pubkey'" and "relayUrl \<noteq> []" and "relayUrl' \<noteq> []"
  shows "(sectionStorageKey pubkey (Some relayUrl) = sectionStorageKey pubkey' (Some relayUrl') \<longleftrightarrow>
      pubkey = pubkey' \<and> normalizeRelayUrl relayUrl = normalizeRelayUrl relayUrl') \<and>
    sectionStorageKey pubkey (Some relayUrl) \<noteq> sectionStorageKey pubkey' None"
proof -
  have split: "p @ CHR '':'' # x = p' @ CHR '':'' # y \<longleftrightarrow> p = p' \<and> x = y"
    if "CHR '':'' \<notin> set p" "CHR '':'' \<notin> set p'" for p p' x y
    using that
  proof (induction p arbitrary: p')
    case Nil
    then show ?case by (cases p') auto
  next
    case (Cons a p)
    then show ?case by (cases p') auto
  qed
  have "p @ CHR '':'' # x \<noteq> p'" if "CHR '':'' \<notin> set p'" for p p' x using that by auto
  then show ?thesis using assms split [OF assms(1,2)]
    by (simp add: sectionStorageKey_def scopedKey_def truthy_def encode_inj)
qed

theorem relay_keys_separate_witness:
  "sectionStorageKey ''p'' (Some ''wss://A/'') = sectionStorageKey ''p'' (Some ''wss://a'') \<and>
   sectionStorageKey ''p'' (Some ''wss://a'') \<noteq> sectionStorageKey ''p'' (Some ''wss://b'')"
proof -
  have p: "CHR '':'' \<notin> set ''p''" by simp
  have "normalizeRelayUrl ''wss://A/'' = normalizeRelayUrl ''wss://a''"
    "normalizeRelayUrl ''wss://a'' \<noteq> normalizeRelayUrl ''wss://b''" by code_simp+
  then show ?thesis
    using relay_keys_separate [OF p p, of "''wss://A/''" "''wss://a''"] relay_keys_separate [OF p p, of "''wss://a''" "''wss://b''"]
    by simp
qed

end
