(* ===== verification/SidebarSort.thy ===== *)
theory SidebarSort
  imports RelayEvents SectionsReload
begin

text \<open>
  How the sidebar orders the channels of a group (\<open>features/sidebar/lib/channelSortPreference.ts\<close>,
  \<open>dmSidebarSort.ts\<close>, and the operations of \<open>useChannelSortPreference.ts\<close>).
  \<open>String.localeCompare\<close> is the argument \<open>lcmp\<close>, \<open>Date.parse\<close> the argument \<open>dp\<close>.
\<close>

subsection \<open>Preferences\<close>

datatype sort_mode = Alpha | Recent

type_synonym sort_store = "(string, sort_mode) jsmap"

definition DEFAULT_SORT_MODE :: sort_mode where
  "DEFAULT_SORT_MODE = Alpha"

definition sectionSortGroupKey :: "string \<Rightarrow> string" where
  "sectionSortGroupKey sectionId = ''section:'' @ sectionId"

definition sortStorageKey :: "string \<Rightarrow> string option \<Rightarrow> string" where
  "sortStorageKey pubkey relayUrl = scopedKey ''buzz-channel-sort.v1'' pubkey relayUrl"

definition stripOrphanedSectionModes :: "sort_store \<Rightarrow> string list \<Rightarrow> sort_store" where
  "stripOrphanedSectionModes store liveSectionIds =
     filter (\<lambda>(key, mode). \<not> startsWith key ''section:'' \<or> key \<in> set (map sectionSortGroupKey liveSectionIds)) store"

definition parseSortMode :: "string \<times> jsval \<Rightarrow> (string \<times> sort_mode) list" where
  "parseSortMode entry =
     (if snd entry = JStr ''alpha'' then [(fst entry, Alpha)]
      else if snd entry = JStr ''recent'' then [(fst entry, Recent)] else [])"

definition parseChannelSortPayload :: "(string \<Rightarrow> js_number) \<Rightarrow> jsval \<Rightarrow> sort_store option" where
  "parseChannelSortPayload dbl json =
     (case json of
        JObj obj \<Rightarrow>
          if \<not> isVersion1 dbl (jfield obj ''version'') then None
          else Some (concat (map parseSortMode (asRecord (jfield obj ''groups''))))
      | _ \<Rightarrow> None)"

definition readChannelSortStore ::
  "(string \<Rightarrow> js_number) \<Rightarrow> string \<Rightarrow> string option \<Rightarrow> local_storage \<Rightarrow> sort_store" where
  "readChannelSortStore dbl pubkey relayUrl ls =
     (let raw = getItem ls (sortStorageKey pubkey relayUrl) in
      if \<not> truthy raw then []
      else
        case Option.bind (JSON_parse (the raw)) (parseChannelSortPayload dbl) of Some s \<Rightarrow> s | None \<Rightarrow> [])"

definition sortModeName :: "sort_mode \<Rightarrow> string" where
  "sortModeName mode = (case mode of Alpha \<Rightarrow> ''alpha'' | Recent \<Rightarrow> ''recent'')"

definition sortStoreJson :: "sort_store \<Rightarrow> jsval" where
  "sortStoreJson store =
     JObj [(''version'', JNum 1), (''groups'', JObj (map (\<lambda>(k, m). (k, JStr (sortModeName m))) store))]"

definition writeChannelSortStore ::
  "string \<Rightarrow> string option \<Rightarrow> sort_store \<Rightarrow> local_storage \<Rightarrow> local_storage option" where
  "writeChannelSortStore pubkey relayUrl store ls =
     setItem ls (sortStorageKey pubkey relayUrl) (stringify (sortStoreJson store))"

definition sortModeForGroup :: "sort_store \<Rightarrow> string \<Rightarrow> sort_mode" where
  "sortModeForGroup store groupKey = jget_or store groupKey DEFAULT_SORT_MODE"

definition withSortMode :: "string list option \<Rightarrow> string \<Rightarrow> sort_mode \<Rightarrow> sort_store \<Rightarrow> sort_store" where
  "withSortMode liveSectionIds groupKey mode prev =
     (let withUpdate = jset prev groupKey mode in
      case liveSectionIds of Some ids \<Rightarrow> stripOrphanedSectionModes withUpdate ids | None \<Rightarrow> withUpdate)"

definition setSortModeFor ::
  "string option \<Rightarrow> string option \<Rightarrow> string list option \<Rightarrow> string \<Rightarrow> sort_mode \<Rightarrow> sort_store \<times> local_storage \<Rightarrow>
   sort_store \<times> local_storage" where
  "setSortModeFor pubkey relayUrl liveSectionIds groupKey mode h =
     (if \<not> truthy pubkey then h
      else updateStore (writeChannelSortStore (the pubkey) relayUrl) (withSortMode liveSectionIds groupKey mode) h)"

definition useChannelSortPreference ::
  "(string \<Rightarrow> js_number) \<Rightarrow> string option \<Rightarrow> string option \<Rightarrow> local_storage \<Rightarrow> sort_store \<times> local_storage" where
  "useChannelSortPreference dbl pubkey relayUrl ls =
     (if truthy pubkey then readChannelSortStore dbl (the pubkey) relayUrl ls else [], ls)"

subsection \<open>Sorting\<close>

definition channelRecencyMs :: "(string \<Rightarrow> int option) \<Rightarrow> channel \<Rightarrow> int option" where
  "channelRecencyMs dp c = (if \<not> truthy (ch_lastMessageAt c) then None else dp (the (ch_lastMessageAt c)))"

definition compareChannelsByName :: "(string \<Rightarrow> string \<Rightarrow> int) \<Rightarrow> channel \<Rightarrow> channel \<Rightarrow> int" where
  "compareChannelsByName lcmp left right =
     (let byName = lcmp (ch_name left) (ch_name right) in
      if byName \<noteq> 0 then byName else lcmp (ch_id left) (ch_id right))"

definition compareByRecency ::
  "(string \<Rightarrow> int option) \<Rightarrow> (channel \<Rightarrow> channel \<Rightarrow> int) \<Rightarrow> channel \<Rightarrow> channel \<Rightarrow> int" where
  "compareByRecency dp otherwise_cmp left right =
     (case (channelRecencyMs dp left, channelRecencyMs dp right) of
        (Some leftMs, Some rightMs) \<Rightarrow> if leftMs \<noteq> rightMs then rightMs - leftMs else otherwise_cmp left right
      | (Some _, None) \<Rightarrow> -1
      | (None, Some _) \<Rightarrow> 1
      | (None, None) \<Rightarrow> otherwise_cmp left right)"

definition sortChannelsForSidebar ::
  "(string \<Rightarrow> int option) \<Rightarrow> (string \<Rightarrow> string \<Rightarrow> int) \<Rightarrow> channel list \<Rightarrow> sort_mode \<Rightarrow> channel list" where
  "sortChannelsForSidebar dp lcmp channels mode =
     (if mode = Alpha then js_sort (compareChannelsByName lcmp) channels
      else js_sort (compareByRecency dp (compareChannelsByName lcmp)) channels)"

definition compareDmChannelsByLabel ::
  "(string \<Rightarrow> string \<Rightarrow> int) \<Rightarrow> (string, string) jsmap \<Rightarrow> channel \<Rightarrow> channel \<Rightarrow> int" where
  "compareDmChannelsByLabel lcmp channelLabels left right =
     (let byLabel = lcmp (jget_or channelLabels (ch_id left) (ch_name left))
                         (jget_or channelLabels (ch_id right) (ch_name right))
      in if byLabel \<noteq> 0 then byLabel else lcmp (ch_id left) (ch_id right))"

definition sortDmChannelsByLabel ::
  "(string \<Rightarrow> string \<Rightarrow> int) \<Rightarrow> channel list \<Rightarrow> (string, string) jsmap \<Rightarrow> channel list" where
  "sortDmChannelsByLabel lcmp channels channelLabels = js_sort (compareDmChannelsByLabel lcmp channelLabels) channels"

definition sortDmChannelsForSidebar ::
  "(string \<Rightarrow> int option) \<Rightarrow> (string \<Rightarrow> string \<Rightarrow> int) \<Rightarrow> channel list \<Rightarrow> (string, string) jsmap \<Rightarrow> sort_mode \<Rightarrow> channel list" where
  "sortDmChannelsForSidebar dp lcmp channels channelLabels mode =
     (if mode = Alpha then sortDmChannelsByLabel lcmp channels channelLabels
      else js_sort (compareByRecency dp (compareDmChannelsByLabel lcmp channelLabels)) channels)"

subsection \<open>The order of a group\<close>

text \<open>A collation: \<open>localeCompare\<close> compares by a rank of strings.\<close>

definition collates :: "(string \<Rightarrow> string \<Rightarrow> int) \<Rightarrow> (string \<Rightarrow> 'k::linorder) \<Rightarrow> bool" where
  "collates lcmp rank \<longleftrightarrow> (\<forall>a b. (lcmp a b < 0 \<longleftrightarrow> rank a < rank b) \<and> (lcmp a b = 0 \<longleftrightarrow> rank a = rank b))"

definition recencyKey :: "(string \<Rightarrow> int option) \<Rightarrow> sort_mode \<Rightarrow> channel \<Rightarrow> int \<times> int" where
  "recencyKey dp mode c =
     (case mode of Alpha \<Rightarrow> (0, 0)
      | Recent \<Rightarrow> (case channelRecencyMs dp c of Some ms \<Rightarrow> (0, - ms) | None \<Rightarrow> (1, 0)))"

definition groupKeyOf ::
  "(string \<Rightarrow> int option) \<Rightarrow> sort_mode \<Rightarrow> (string \<Rightarrow> 'k::linorder) \<Rightarrow> (channel \<Rightarrow> string) \<Rightarrow> channel \<Rightarrow> (int \<times> int) \<times> 'k \<times> 'k" where
  "groupKeyOf dp mode rank label c = (recencyKey dp mode c, rank (label c), rank (ch_id c))"

definition groupCompare ::
  "(string \<Rightarrow> int option) \<Rightarrow> (string \<Rightarrow> string \<Rightarrow> int) \<Rightarrow> sort_mode \<Rightarrow> (channel \<Rightarrow> string) \<Rightarrow> channel \<Rightarrow> channel \<Rightarrow> int" where
  "groupCompare dp lcmp mode label =
     (let byLabel = (\<lambda>left right. let c = lcmp (label left) (label right) in
            if c \<noteq> 0 then c else lcmp (ch_id left) (ch_id right))
      in if mode = Alpha then byLabel else compareByRecency dp byLabel)"

lemma groupCompare_key:
  assumes "collates lcmp rank"
  shows "groupCompare dp lcmp mode label x y \<le> 0 \<longleftrightarrow>
    groupKeyOf dp mode rank label x \<le> groupKeyOf dp mode rank label y"
proof -
  have cmp: "lcmp a b < 0 \<longleftrightarrow> rank a < rank b" "lcmp a b = 0 \<longleftrightarrow> rank a = rank b" for a b
    using assms by (auto simp: collates_def)
  have le: "lcmp a b \<le> 0 \<longleftrightarrow> rank a \<le> rank b" for a b using cmp [of a b] by (auto simp: le_less)
  show ?thesis
    by (cases mode; cases "channelRecencyMs dp x"; cases "channelRecencyMs dp y";
        cases "rank (label x) = rank (label y)")
      (auto simp: groupCompare_def compareByRecency_def groupKeyOf_def recencyKey_def Let_def cmp le less_le)
qed

lemma sort_groupCompare:
  assumes "collates lcmp rank"
  shows "js_sort (groupCompare dp lcmp mode label) channels = sort_key (groupKeyOf dp mode rank label) channels"
proof -
  have "keyed_comparator (groupCompare dp lcmp mode label) (groupKeyOf dp mode rank label) (\<lambda>_. True)"
    by unfold_locales (rule groupCompare_key [OF assms])
  from keyed_comparator.js_sort_eq [OF this] show ?thesis by simp
qed

lemma sidebar_group:
  "sortChannelsForSidebar dp lcmp channels mode = js_sort (groupCompare dp lcmp mode ch_name) channels"
  "sortDmChannelsForSidebar dp lcmp channels labels mode =
     js_sort (groupCompare dp lcmp mode (\<lambda>c. jget_or labels (ch_id c) (ch_name c))) channels"
  by (simp_all add: sortChannelsForSidebar_def sortDmChannelsForSidebar_def sortDmChannelsByLabel_def groupCompare_def
      compareChannelsByName_def [abs_def] compareDmChannelsByLabel_def [abs_def] Let_def)

text \<open>
  The order of the sidebar. For any collation of \<open>localeCompare\<close>, a group shows exactly its channels:
  by name and then id in alphabetical mode; in recent mode those with a readable time of their last
  message first, newest on top, and the others after them by name. Direct messages follow the same
  order with their labels as names.
\<close>

theorem sidebar_order:
  assumes "collates lcmp rank"
  shows "mset (sortChannelsForSidebar dp lcmp channels mode) = mset channels \<and>
    sorted (map (groupKeyOf dp mode rank ch_name) (sortChannelsForSidebar dp lcmp channels mode)) \<and>
    mset (sortDmChannelsForSidebar dp lcmp channels labels mode) = mset channels \<and>
    sorted (map (groupKeyOf dp mode rank (\<lambda>c. jget_or labels (ch_id c) (ch_name c)))
      (sortDmChannelsForSidebar dp lcmp channels labels mode))"
  by (simp add: sidebar_group sort_groupCompare [OF assms])

definition sampleChannel :: "string \<Rightarrow> string option \<Rightarrow> channel" where
  "sampleChannel name seen =
     \<lparr>ch_id = name, ch_name = name, ch_channelType = ''stream'', ch_visibility = ''public'', ch_description = [],
      ch_topic = None, ch_purpose = None, ch_memberCount = 1, ch_memberPubkeys = [], ch_lastMessageAt = seen,
      ch_archivedAt = None, ch_participants = [], ch_participantPubkeys = [], ch_isMember = True,
      ch_ttlSeconds = None, ch_ttlDeadline = None\<rparr>"

definition byLength :: "string \<Rightarrow> string \<Rightarrow> int" where
  "byLength a b = int (length a) - int (length b)"

theorem sidebar_order_witness:
  "sorted (map (groupKeyOf (\<lambda>t. Some (int (length t))) Recent length ch_name)
     (sortChannelsForSidebar (\<lambda>t. Some (int (length t))) byLength
       [sampleChannel ''aa'' None, sampleChannel ''b'' (Some ''1''), sampleChannel ''c'' (Some ''12'')] Recent))"
proof -
  have "collates byLength length" by (auto simp: collates_def byLength_def)
  from sidebar_order [OF this] show ?thesis by blast
qed

subsection \<open>Reloading the preferences\<close>

lemma parse_sortStoreJson:
  "parseChannelSortPayload dbl (sortStoreJson store) = Some store"
proof -
  have "concat (map parseSortMode (map (\<lambda>(k, m). (k, JStr (sortModeName m))) s)) = s" for s :: sort_store
    by (induction s) (auto simp: parseSortMode_def sortModeName_def split: sort_mode.splits)
  then show ?thesis
    by (simp add: parseChannelSortPayload_def sortStoreJson_def jfield_def asRecord_def del: map_map)
qed

interpretation sort_modes: persisted_store "readChannelSortStore dbl pubkey relayUrl" "writeChannelSortStore pubkey relayUrl" id jwf
  for dbl pubkey relayUrl
proof unfold_locales
  fix store ls ls'
  assume wf: "jwf store" and written: "writeChannelSortStore pubkey relayUrl store ls = Some ls'"
  have "map fst (map (\<lambda>(k, m). (k, JStr (sortModeName m))) s) = map fst s"
    "list_all (\<lambda>(k, v). wf_json v) (map (\<lambda>(k, m). (k, JStr (sortModeName m))) s)" for s :: sort_store
    by (induction s) auto
  then have "wf_json (sortStoreJson store)" using wf by (simp add: sortStoreJson_def jwf_def del: map_map)
  then have "JSON_parse (stringify (sortStoreJson store)) = Some (sortStoreJson store)" by (rule json_roundtrip)
  moreover have "getItem ls' (sortStorageKey pubkey relayUrl) = Some (stringify (sortStoreJson store))"
    using written getItem_setItem_same by (simp add: writeChannelSortStore_def)
  moreover have "stringify (sortStoreJson store) \<noteq> []" by (simp add: sortStoreJson_def)
  ultimately show "readChannelSortStore dbl pubkey relayUrl ls' = id store"
    by (simp add: readChannelSortStore_def Let_def truthy_def parse_sortStoreJson)
qed

end
