(* ===== verification/Notifications.thy ===== *)
theory Notifications
  imports RelayEvents ReadState
begin

text \<open>
  Which events notify and what the home badge counts (\<open>features/notifications/lib\<close>:
  \<open>shouldNotify.ts\<close>, \<open>notificationFormat.ts\<close>, \<open>feed.ts\<close> and \<open>homeBadge.ts\<close>). A set that the caller
  passes is a list; the readers of the read state are function arguments.
\<close>

subsection \<open>Events\<close>

definition hasMentionForEvent :: "relay_event \<Rightarrow> string \<Rightarrow> bool" where
  "hasMentionForEvent event currentAgentId =
     (length currentAgentId > 0 \<and>
      list_ex (\<lambda>tag. jsat tag 0 = Some ''p'' \<and> map_option toLowerCase (jsat tag 1) = Some currentAgentId) (ev_tags event))"

record notify_options =
  no_participatedRootIds :: "string list"
  no_followedRootIds :: "string list"
  no_authoredRootIds :: "string list"
  no_mutedRootIds :: "string list option"
  no_mutedChannelIds :: "string list option"
  no_channelId :: "string option"

definition orEmpty :: "'a list option \<Rightarrow> 'a list" where
  "orEmpty xs = (case xs of Some ys \<Rightarrow> ys | None \<Rightarrow> [])"

definition inSet :: "string option \<Rightarrow> string list \<Rightarrow> bool" where
  "inSet x xs = (case x of Some y \<Rightarrow> y \<in> set xs | None \<Rightarrow> False)"

definition shouldNotifyForEvent :: "relay_event \<Rightarrow> string \<Rightarrow> notify_options \<Rightarrow> bool" where
  "shouldNotifyForEvent event currentAgentId options =
     (let reference = getThreadReference (ev_tags event);
          rootId = tr_rootId reference
      in if isBroadcastReply (ev_tags event) then True
         else if hasMentionForEvent event currentAgentId then True
         else if inSet (no_channelId options) (orEmpty (no_mutedChannelIds options)) then False
         else if tr_parentId reference = None then True
         else if inSet rootId (orEmpty (no_mutedRootIds options)) then False
         else if inSet rootId (no_participatedRootIds options) then True
         else if inSet rootId (no_followedRootIds options) then True
         else if inSet rootId (no_authoredRootIds options) then True
         else False)"

definition isHighPriorityEventForUser :: "relay_event \<Rightarrow> string \<Rightarrow> bool" where
  "isHighPriorityEventForUser event currentAgentId =
     (if length currentAgentId > 0 \<and>
         list_ex (\<lambda>tag. jsat tag 0 = Some ''p'' \<and> map_option toLowerCase (jsat tag 1) = Some currentAgentId) (ev_tags event)
      then True
      else if isBroadcastReply (ev_tags event) then True
      else False)"

subsection \<open>Texts\<close>

definition NOTIFICATION_BODY_MAX_LENGTH :: nat where
  "NOTIFICATION_BODY_MAX_LENGTH = 140"

definition resolveNotificationChannelLabel :: "string option \<Rightarrow> (string \<times> string option) list \<Rightarrow> string option" where
  "resolveNotificationChannelLabel channelId channels =
     (if \<not> truthy channelId then None
      else
        let name = map_option js_trim (Option.bind (find (\<lambda>c. fst c = the channelId) channels) snd)
        in if truthy name then Some (''#'' @ the name) else None)"

definition trimEnd :: "string \<Rightarrow> string" where
  "trimEnd s = rev (dropWhile js_space (rev s))"

definition truncateNotificationBody :: "string \<Rightarrow> string \<Rightarrow> string" where
  "truncateNotificationBody content fallback =
     (let trimmedText = js_trim content in
      if length trimmedText = 0 then fallback
      else if length trimmedText \<le> NOTIFICATION_BODY_MAX_LENGTH then trimmedText
      else trimEnd (take (NOTIFICATION_BODY_MAX_LENGTH - 3) trimmedText) @ ''...'')"

definition formatNotificationTitle :: "string \<Rightarrow> string option \<Rightarrow> string" where
  "formatNotificationTitle prefix channelLabel =
     (if truthy channelLabel then prefix @ '' in '' @ the channelLabel else prefix)"

subsection \<open>The home feed\<close>

datatype feed_category = CatMention | CatNeedsAction | CatActivity | CatAgentActivity

record feed_item =
  fi_id :: string
  fi_kind :: int
  fi_pubkey :: string
  fi_content :: string
  fi_createdAt :: int
  fi_channelId :: "string option"
  fi_channelName :: string
  fi_channelType :: "string option"
  fi_tags :: "string list list"
  fi_category :: feed_category

record home_feed =
  hf_mentions :: "feed_item list"
  hf_needsAction :: "feed_item list"
  hf_activity :: "feed_item list"
  hf_agentActivity :: "feed_item list"

record notification_channel =
  nc_id :: string
  nc_name :: string
  nc_channelType :: string

definition enrichFeedItemChannel :: "feed_item \<Rightarrow> notification_channel list \<Rightarrow> feed_item" where
  "enrichFeedItemChannel item channels =
     (let needsName = (js_trim (fi_channelName item) = []);
          needsType = (fi_channelType item = None)
      in if \<not> truthy (fi_channelId item) \<or> (\<not> needsName \<and> \<not> needsType) then item
         else
           case find (\<lambda>candidate. nc_id candidate = the (fi_channelId item)) channels of
             None \<Rightarrow> item
           | Some channel \<Rightarrow>
               item\<lparr>fi_channelName := (if needsName then nc_name channel else fi_channelName item),
                    fi_channelType := (if needsType then Some (nc_channelType channel) else fi_channelType item)\<rparr>)"

definition notificationTitle :: "feed_item \<Rightarrow> string option \<Rightarrow> string" where
  "notificationTitle item senderName =
     (let channelLabel =
            (if fi_channelType item \<noteq> Some ''dm'' \<and> js_trim (fi_channelName item) \<noteq> []
             then Some (''#'' @ js_trim (fi_channelName item)) else None);
          sender = (if truthy senderName then senderName else None)
      in if fi_channelType item = Some ''dm''
         then (case sender of Some s \<Rightarrow> s | None \<Rightarrow> ''Direct message'')
         else if fi_category item = CatMention
         then formatNotificationTitle (case sender of Some s \<Rightarrow> s @ '' mentioned you'' | None \<Rightarrow> ''@Mention'') channelLabel
         else if fi_kind item = 46010
         then formatNotificationTitle (case sender of Some s \<Rightarrow> s @ '' requested approval'' | None \<Rightarrow> ''Approval Requested'')
                channelLabel
         else formatNotificationTitle (case sender of Some s \<Rightarrow> s | None \<Rightarrow> ''Needs Action'') channelLabel)"

definition notificationBody :: "feed_item \<Rightarrow> string" where
  "notificationBody item =
     truncateNotificationBody (fi_content item)
       (if fi_kind item = 46010 then ''A workflow is waiting for your approval.''
        else ''Something in tic-tac-toe needs your attention.'')"

definition collectHomeAlertItems :: "home_feed \<Rightarrow> feed_item list" where
  "collectHomeAlertItems feed = hf_mentions feed @ hf_needsAction feed"

definition eligibleFeedNotificationItems ::
  "home_feed \<Rightarrow> bool \<Rightarrow> bool \<Rightarrow> notification_channel list \<Rightarrow> feed_item list" where
  "eligibleFeedNotificationItems feed mentions needsAction channels =
     js_sort (\<lambda>left right. fi_createdAt left - fi_createdAt right)
       ((if mentions
         then filter (\<lambda>item. fi_channelType item \<noteq> Some ''dm'')
                (map (\<lambda>item. enrichFeedItemChannel item channels) (hf_mentions feed))
         else []) @
        (if needsAction then map (\<lambda>item. enrichFeedItemChannel item channels) (hf_needsAction feed) else []))"

subsection \<open>The home badge\<close>

fun dedupeFrom :: "string list \<Rightarrow> feed_item list \<Rightarrow> feed_item list" where
  "dedupeFrom seen [] = []"
| "dedupeFrom seen (item # items) =
     (if fi_id item \<in> set seen then dedupeFrom seen items
      else item # dedupeFrom (sadd seen (fi_id item)) items)"

definition dedupeFeedItemsById :: "feed_item list \<Rightarrow> feed_item list" where
  "dedupeFeedItemsById items = dedupeFrom [] items"

definition buildHomeBadgeFeedItems :: "home_feed option \<Rightarrow> feed_item list \<Rightarrow> string list \<Rightarrow> feed_item list" where
  "buildHomeBadgeFeedItems feed extraInboxItems localUnreadFeedIds =
     dedupeFeedItemsById
       (case feed of
          None \<Rightarrow> extraInboxItems
        | Some f \<Rightarrow>
            hf_mentions f @ hf_needsAction f @ extraInboxItems @
            (if length localUnreadFeedIds > 0
             then filter (\<lambda>item. fi_id item \<in> set localUnreadFeedIds) (hf_activity f) @
                  filter (\<lambda>item. fi_id item \<in> set localUnreadFeedIds) (hf_agentActivity f)
             else []))"

definition shouldCountTowardHomeBadgeSubtotal :: "feed_item \<Rightarrow> string list \<Rightarrow> bool \<Rightarrow> bool" where
  "shouldCountTowardHomeBadgeSubtotal item highPriorityChannelIds forceHomeCount =
     (if forceHomeCount then True
      else if \<not> inSet (fi_channelId item) highPriorityChannelIds then True
      else
        let isThreadedReply = (tr_parentId (getThreadReference (fi_tags item)) \<noteq> None \<and> \<not> isBroadcastReply (fi_tags item))
        in isThreadedReply \<and> fi_channelType item \<noteq> Some ''dm'')"

definition feedItemThreadRootId :: "feed_item \<Rightarrow> string option" where
  "feedItemThreadRootId item =
     (if isThreadReply (fi_tags item) then tr_rootId (getThreadReference (fi_tags item)) else None)"

record home_readers =
  hr_getChannelReadAt :: "string \<Rightarrow> int option"
  hr_getMessageReadAt :: "(string \<Rightarrow> int option) option"
  hr_getThreadReadAt :: "string \<Rightarrow> string option \<Rightarrow> int option"

definition resolveHomeBadgeFeedItemReadAt :: "feed_item \<Rightarrow> home_readers \<Rightarrow> int option" where
  "resolveHomeBadgeFeedItemReadAt item readers =
     (let threadRootId = feedItemThreadRootId item in
      maxReadAt
        ((if truthy (fi_channelId item) \<and> \<not> truthy threadRootId
          then [hr_getChannelReadAt readers (the (fi_channelId item))] else []) @
         (if truthy threadRootId
          then [hr_getThreadReadAt readers (the threadRootId) (fi_channelId item),
                Option.bind (hr_getMessageReadAt readers) (\<lambda>get. get (fi_id item))]
          else [])))"

definition isHomeBadgeFeedItemUnread :: "feed_item \<Rightarrow> home_readers \<Rightarrow> bool \<Rightarrow> string list \<Rightarrow> bool" where
  "isHomeBadgeFeedItemUnread item readers isLocallyUnread seenFeedIdSet =
     (if isLocallyUnread then True
      else
        case resolveHomeBadgeFeedItemReadAt item readers of
          Some readAt \<Rightarrow> fi_createdAt item > readAt
        | None \<Rightarrow> fi_id item \<notin> set seenFeedIdSet)"

subsection \<open>When an event notifies\<close>

lemma parent_has_root: "tr_parentId (getThreadReference tags) \<noteq> None \<Longrightarrow> tr_rootId (getThreadReference tags) \<noteq> None"
  by (auto simp: getThreadReference_def Let_def split: option.splits if_splits)

lemma highPriority_iff: "isHighPriorityEventForUser e agent \<longleftrightarrow> hasMentionForEvent e agent \<or> isBroadcastReply (ev_tags e)"
  by (simp add: isHighPriorityEventForUser_def hasMentionForEvent_def)

text \<open>
  An event notifies exactly when it is a broadcast or mentions the member, whatever is muted, or
  its channel is not muted and it is either no reply or a reply in a thread that is not muted and that
  the member takes part in, follows or started. So a muted channel or thread silences everything but
  high priority events, which always notify.
\<close>

theorem notifies_iff:
  "shouldNotifyForEvent e agent options \<longleftrightarrow>
     isHighPriorityEventForUser e agent \<or>
     \<not> inSet (no_channelId options) (orEmpty (no_mutedChannelIds options)) \<and>
     (tr_parentId (getThreadReference (ev_tags e)) = None \<or>
      the (tr_rootId (getThreadReference (ev_tags e))) \<in>
        set (no_participatedRootIds options) \<union> set (no_followedRootIds options) \<union> set (no_authoredRootIds options)
        - set (orEmpty (no_mutedRootIds options)))"
  using parent_has_root [of "ev_tags e"]
  by (auto simp: shouldNotifyForEvent_def highPriority_iff Let_def inSet_def split: option.splits)

text \<open>
  The body of a notification is never empty and at most 140 characters long; a text that fits is
  shown whole, a longer one by a prefix of it and three dots.
\<close>

theorem notification_body_bounds:
  "notificationBody item \<noteq> [] \<and> length (notificationBody item) \<le> 140 \<and>
   (let content = js_trim (fi_content item) in
    if content = [] then True
    else if length content \<le> 140 then notificationBody item = content
    else \<exists>n\<le>137. notificationBody item = take n content @ ''...'')"
proof -
  have "\<exists>n\<le>k. trimEnd (take k s) = take n s" for k s
  proof -
    have "\<exists>m. trimEnd t = take m t" for t
      unfolding trimEnd_def dropWhile_eq_drop [of js_space "rev t"] rev_drop rev_rev_ident by blast
    then obtain m where "trimEnd (take k s) = take m (take k s)" by blast
    then show ?thesis by (intro exI [of _ "min m k"]) (simp add: min.commute)
  qed
  from this [of 137 "js_trim (fi_content item)"] obtain n where
    "n \<le> 137" "trimEnd (take 137 (js_trim (fi_content item))) = take n (js_trim (fi_content item))" by blast
  then show ?thesis
    by (auto simp: notificationBody_def truncateNotificationBody_def NOTIFICATION_BODY_MAX_LENGTH_def Let_def)
qed

end
