(* ===== verification/Inbox.thy ===== *)
theory Inbox
  imports Notifications Identity
begin

text \<open>
  The inbox of the home view (\<open>features/home/lib/inbox.ts\<close>): the items of the home feed grouped into
  conversations, newest first. What depends on the time zone and the locale is the argument
  \<open>cal\<close>, a record with the local start of a day, the year and the formatters; \<open>ell\<close> is the ellipsis
  of shortened keys, \<open>now\<close> the current time in milliseconds.
\<close>

subsection \<open>Data\<close>

record calendar =
  cal_startOfDay :: "int \<Rightarrow> int"
  cal_getFullYear :: "int \<Rightarrow> int"
  cal_listTime :: "int \<Rightarrow> string"
  cal_fullTime :: "int \<Rightarrow> string"
  cal_shortDate :: "int \<Rightarrow> string"
  cal_shortDateWithYear :: "int \<Rightarrow> string"
  cal_weekday :: "int \<Rightarrow> string"

record inbox_item =
  in_avatarUrl :: "string option"
  in_conversationId :: string
  in_id :: string
  in_item :: feed_item
  in_categories :: "feed_category list"
  in_categoryLabel :: string
  in_channelLabel :: "string option"
  in_fullTimestampLabel :: string
  in_groupItems :: "feed_item list"
  in_isActionRequired :: bool
  in_latestActivityAt :: int
  in_mentionNames :: "string list"
  in_mentionPubkeysByName :: "(string, string) jsmap option"
  in_preview :: string
  in_senderLabel :: string
  in_subject :: string
  in_timestampLabel :: string

record inbox_group =
  ig_label :: string
  ig_items :: "inbox_item list"

record thread_group =
  tg_items :: "feed_item list"
  tg_latestActivityAt :: int
  tg_rootItem :: "feed_item option"

record type_label =
  tl_text :: string
  tl_channelLabel :: "string option"

subsection \<open>Texts\<close>

text \<open>\<open>Math.round\<close> of a number of days.\<close>

definition diffInDays :: "calendar \<Rightarrow> int \<Rightarrow> int \<Rightarrow> int" where
  "diffInDays cal from_ms to_ms =
     (2 * (cal_startOfDay cal from_ms - cal_startOfDay cal to_ms) + 86400000) div (2 * 86400000)"

definition feedHeadline :: "feed_item \<Rightarrow> string" where
  "feedHeadline item =
     (let kind = fi_kind item in
      if kind = 40007 then ''Reminder''
      else if kind = 43001 then ''Job requested''
      else if kind = 43002 then ''Job accepted''
      else if kind = 43003 then ''Progress update''
      else if kind = 43004 then ''Job result''
      else if kind = 43005 then ''Job cancelled''
      else if kind = 43006 then ''Job failed''
      else if kind = 46010 then ''Approval requested''
      else if fi_category item = CatMention then ''Mention''
      else if fi_category item = CatAgentActivity then ''Agent update''
      else ''Channel update'')"

definition feedPreview :: "feed_item \<Rightarrow> string" where
  "feedPreview item =
     (let content = js_trim (fi_content item) in
      if length content > 0 then content
      else if fi_kind item = 46010 then ''A workflow is waiting for approval.''
      else if fi_kind item = 40007 then ''A reminder is waiting for you.''
      else ''No additional details were attached to this event.'')"

definition categoryLabelFor :: "feed_category \<Rightarrow> string" where
  "categoryLabelFor category =
     (if category = CatNeedsAction then ''Needs Action''
      else if category = CatMention then ''Mention''
      else if category = CatAgentActivity then ''Agent update''
      else ''Activity'')"

definition isThreadActivityItem :: "feed_item \<Rightarrow> bool" where
  "isThreadActivityItem item =
     (if fi_category item \<noteq> CatActivity then False
      else tr_parentId (getThreadReference (fi_tags item)) \<noteq> None \<and> \<not> isBroadcastReply (fi_tags item))"

definition resolveItemChannel ::
  "feed_item \<Rightarrow> (string, notification_channel) jsmap \<Rightarrow> string option \<times> string option" where
  "resolveItemChannel item channelById =
     (let channel = (if truthy (fi_channelId item) then jget channelById (the (fi_channelId item)) else None);
          own = js_trim (fi_channelName item);
          known = map_option (js_trim \<circ> nc_name) channel
      in (if own \<noteq> [] then Some own else if truthy known then known else None,
          case fi_channelType item of Some t \<Rightarrow> Some t | None \<Rightarrow> map_option nc_channelType channel))"

definition resolveGroupChannel ::
  "feed_item \<Rightarrow> feed_item list \<Rightarrow> (string, notification_channel) jsmap \<Rightarrow> string option \<times> string option" where
  "resolveGroupChannel primaryItem groupItems channelById =
     (case find (\<lambda>(name, channelType). truthy name \<or> truthy channelType)
             (map (\<lambda>candidate. resolveItemChannel candidate channelById) (primaryItem # groupItems)) of
        Some channel \<Rightarrow> channel
      | None \<Rightarrow> resolveItemChannel primaryItem channelById)"

definition getInboxTypeLabel :: "inbox_item \<Rightarrow> type_label" where
  "getInboxTypeLabel item =
     (let channelName = in_channelLabel item;
          label = (\<lambda>withChannel alone. \<lparr>tl_text = (if truthy channelName then withChannel else alone),
                                        tl_channelLabel = channelName\<rparr>)
      in if fi_channelType (in_item item) = Some ''dm''
         then \<lparr>tl_text = (if in_senderLabel item \<noteq> [] then ''DM from '' @ in_senderLabel item else ''DM''),
               tl_channelLabel = None\<rparr>
         else if fi_category (in_item item) = CatMention then label ''Mentioned in'' ''Mentioned''
         else if fi_category (in_item item) = CatNeedsAction then label ''Needs action in'' ''Needs action''
         else if isThreadActivityItem (in_item item) then label ''Thread in'' ''Thread''
         else label (feedHeadline (in_item item) @ '' in'') (feedHeadline (in_item item)))"

definition formatInboxTypeLabel :: "inbox_item \<Rightarrow> string" where
  "formatInboxTypeLabel item =
     (let label = getInboxTypeLabel item in
      if truthy (tl_channelLabel label) then tl_text label @ '' #'' @ the (tl_channelLabel label) else tl_text label)"

fun categoryPriority :: "feed_category \<Rightarrow> int" where
  "categoryPriority CatNeedsAction = 0"
| "categoryPriority CatMention = 1"
| "categoryPriority CatAgentActivity = 2"
| "categoryPriority CatActivity = 3"

definition getInboxConversationId :: "string list list \<Rightarrow> string \<Rightarrow> string" where
  "getInboxConversationId tags eventId =
     (let thread = getThreadReference tags in
      case tr_rootId thread of
        Some r \<Rightarrow> r
      | None \<Rightarrow> (case tr_parentId thread of Some p \<Rightarrow> p | None \<Rightarrow> eventId))"

definition getInboxThreadKey :: "feed_item \<Rightarrow> string" where
  "getInboxThreadKey item = getInboxConversationId (fi_tags item) (fi_id item)"

definition formatInboxTimestamp :: "calendar \<Rightarrow> int \<Rightarrow> int \<Rightarrow> string" where
  "formatInboxTimestamp cal now unixSeconds =
     (let date = unixSeconds * 1000;
          dayDiff = diffInDays cal now date
      in if dayDiff = 0 then cal_listTime cal date
         else if dayDiff = 1 then ''Yesterday''
         else if cal_getFullYear cal now = cal_getFullYear cal date then cal_shortDate cal date
         else cal_shortDateWithYear cal date)"

definition formatInboxFullTimestamp :: "calendar \<Rightarrow> int \<Rightarrow> string" where
  "formatInboxFullTimestamp cal unixSeconds = cal_fullTime cal (unixSeconds * 1000)"

definition relayEventFromFeedItem :: "feed_item \<Rightarrow> relay_event" where
  "relayEventFromFeedItem item =
     \<lparr>ev_id = fi_id item, ev_localKey = None, ev_pubkey = fi_pubkey item, ev_created_at = fi_createdAt item,
      ev_kind = fi_kind item, ev_tags = fi_tags item, ev_content = fi_content item, ev_sig = [], ev_pending = None\<rparr>"

subsection \<open>Groups\<close>

definition groupLabel :: "calendar \<Rightarrow> int \<Rightarrow> inbox_item \<Rightarrow> string" where
  "groupLabel cal now item =
     (let date = in_latestActivityAt item * 1000;
          dayDiff = diffInDays cal now date
      in if dayDiff = 0 then ''Today''
         else if dayDiff = 1 then ''Yesterday''
         else if dayDiff < 7 then cal_weekday cal date
         else cal_shortDateWithYear cal date)"

definition groupInboxItems :: "calendar \<Rightarrow> int \<Rightarrow> inbox_item list \<Rightarrow> inbox_group list" where
  "groupInboxItems cal now items =
     map (\<lambda>(label, groupedItems). \<lparr>ig_label = label, ig_items = groupedItems\<rparr>)
       (fold (\<lambda>item groups. let label = groupLabel cal now item in
          jset groups label (jget_or groups label [] @ [item])) items [])"

definition addToThreadGroup :: "feed_item \<Rightarrow> thread_group \<Rightarrow> thread_group" where
  "addToThreadGroup item g =
     \<lparr>tg_items = tg_items g @ [item],
      tg_latestActivityAt = max (tg_latestActivityAt g) (fi_createdAt item),
      tg_rootItem = (if fi_id item = getInboxThreadKey item then Some item else tg_rootItem g)\<rparr>"

definition emptyThreadGroup :: thread_group where
  "emptyThreadGroup = \<lparr>tg_items = [], tg_latestActivityAt = 0, tg_rootItem = None\<rparr>"

definition threadGroups :: "feed_item list \<Rightarrow> (string, thread_group) jsmap" where
  "threadGroups feedItems =
     fold (\<lambda>item groups. let threadKey = getInboxThreadKey item in
        jset groups threadKey (addToThreadGroup item (jget_or groups threadKey emptyThreadGroup))) feedItems []"

definition inboxFeedItems :: "home_feed \<Rightarrow> feed_item list" where
  "inboxFeedItems feed =
     map (\<lambda>item. item\<lparr>fi_category := CatMention\<rparr>) (hf_mentions feed) @
     map (\<lambda>item. item\<lparr>fi_category := CatNeedsAction\<rparr>) (hf_needsAction feed) @
     map (\<lambda>item. item\<lparr>fi_category := CatActivity\<rparr>) (hf_activity feed) @
     map (\<lambda>item. item\<lparr>fi_category := CatAgentActivity\<rparr>) (hf_agentActivity feed)"

text \<open>The reduction that keeps the first of the newest items.\<close>

fun latestItem :: "feed_item list \<Rightarrow> feed_item option" where
  "latestItem [] = None"
| "latestItem (item # items) =
     Some (fold (\<lambda>current latest. if fi_createdAt current > fi_createdAt latest then current else latest) items item)"

definition groupCategories :: "feed_item list \<Rightarrow> feed_category list" where
  "groupCategories items =
     js_sort (\<lambda>left right. categoryPriority left - categoryPriority right)
       (fold (\<lambda>c s. sadd s c) (map fi_category items) [])"

definition inboxRow ::
  "string \<Rightarrow> calendar \<Rightarrow> int \<Rightarrow> (string, notification_channel) jsmap \<Rightarrow> string option \<Rightarrow> profile_lookup option \<Rightarrow>
   string \<Rightarrow> thread_group \<Rightarrow> feed_item \<Rightarrow> inbox_item" where
  "inboxRow ell cal now channelById currentAgentId profiles conversationId g item =
     (let categories = groupCategories (tg_items g);
          mentionProps = resolveMentionProps (Some (fi_tags item)) profiles;
          groupChannel = resolveGroupChannel item (tg_items g) channelById;
          channelLabel = fst groupChannel;
          displayItem = item\<lparr>fi_channelName := (case channelLabel of Some n \<Rightarrow> n | None \<Rightarrow> fi_channelName item),
                             fi_channelType := (case fi_channelType item of Some t \<Rightarrow> Some t | None \<Rightarrow> snd groupChannel)\<rparr>
      in \<lparr>in_avatarUrl = Option.bind profiles (\<lambda>lookup.
            Option.bind (jget lookup (toLowerCase (fi_pubkey item))) pr_avatarUrl),
          in_conversationId = conversationId,
          in_id = fi_id item,
          in_item = displayItem,
          in_categories = categories,
          in_categoryLabel = categoryLabelFor (case categories of c # _ \<Rightarrow> c | [] \<Rightarrow> fi_category item),
          in_channelLabel = channelLabel,
          in_fullTimestampLabel = formatInboxFullTimestamp cal (fi_createdAt item),
          in_groupItems = tg_items g,
          in_isActionRequired = (CatNeedsAction \<in> set categories),
          in_latestActivityAt = tg_latestActivityAt g,
          in_mentionNames = (case fst mentionProps of Some ns \<Rightarrow> ns | None \<Rightarrow> []),
          in_mentionPubkeysByName = snd mentionProps,
          in_preview = feedPreview item,
          in_senderLabel = resolveUserLabel ell (fi_pubkey item) currentAgentId None profiles True,
          in_subject = feedHeadline item,
          in_timestampLabel = formatInboxTimestamp cal now (tg_latestActivityAt g)\<rparr>)"

definition buildInboxItems ::
  "string \<Rightarrow> calendar \<Rightarrow> int \<Rightarrow> notification_channel list option \<Rightarrow> string option \<Rightarrow> home_feed option \<Rightarrow>
   profile_lookup option \<Rightarrow> inbox_item list" where
  "buildInboxItems ell cal now channels currentAgentId feed profiles =
     (case feed of
        None \<Rightarrow> []
      | Some f \<Rightarrow>
          (let channelById = jmap_of (map (\<lambda>c. (nc_id c, c)) (orEmpty channels));
               groups = js_sort (\<lambda>left right. tg_latestActivityAt (snd right) - tg_latestActivityAt (snd left))
                          (threadGroups (inboxFeedItems f))
           in concat (map (\<lambda>(conversationId, g).
                case latestItem (tg_items g) of
                  None \<Rightarrow> []
                | Some item \<Rightarrow>
                    [inboxRow ell cal now channelById currentAgentId profiles conversationId g item]) groups)))"

subsection \<open>Conversations\<close>

lemma tg_items_fold: "tg_items (fold addToThreadGroup xs g) = tg_items g @ xs"
  by (induction xs arbitrary: g) (auto simp: addToThreadGroup_def)

lemma tg_latest_fold: "tg_latestActivityAt (fold addToThreadGroup xs g) = fold max (map fi_createdAt xs) (tg_latestActivityAt g)"
  by (induction xs arbitrary: g) (auto simp: addToThreadGroup_def max.commute)

definition conversation :: "feed_item list \<Rightarrow> string \<Rightarrow> thread_group" where
  "conversation items key = fold addToThreadGroup (filter (\<lambda>item. getInboxThreadKey item = key) items) emptyThreadGroup"

definition conversationKeys :: "feed_item list \<Rightarrow> string list" where
  "conversationKeys items = fold (\<lambda>item s. sadd s (getInboxThreadKey item)) items []"

lemma threadGroups_eq: "threadGroups items = map (\<lambda>key. (key, conversation items key)) (conversationKeys items)"
  unfolding threadGroups_def Let_def conversation_def conversationKeys_def by (rule fold_group)

lemma conversation_items: "tg_items (conversation items key) = filter (\<lambda>item. getInboxThreadKey item = key) items"
  by (simp add: conversation_def tg_items_fold emptyThreadGroup_def)

lemma fold_max_eq: "fold max xs (m :: int) = Max (insert m (set xs))"
  using Max.set_eq_fold [of m xs] by simp

lemma conversation_latest:
  "tg_latestActivityAt (conversation items key) =
     Max (insert 0 (fi_createdAt ` {item \<in> set items. getInboxThreadKey item = key}))"
  by (simp add: conversation_def tg_latest_fold emptyThreadGroup_def fold_max_eq)

lemma latestItem_newest:
  assumes "latestItem items = Some item"
  shows "item \<in> set items \<and> (\<forall>other\<in>set items. fi_createdAt other \<le> fi_createdAt item)"
proof -
  have "fold (\<lambda>c l. if fi_createdAt c > fi_createdAt l then c else l) xs x \<in> insert x (set xs) \<and>
      (\<forall>y\<in>insert x (set xs). fi_createdAt y \<le> fi_createdAt (fold (\<lambda>c l. if fi_createdAt c > fi_createdAt l then c else l) xs x))"
    for xs and x :: feed_item
  proof (induction xs arbitrary: x)
    case (Cons y xs)
    show ?case using Cons [of x] Cons [of y] by (auto intro: order_trans)
  qed simp
  then show ?thesis using assms by (cases items) auto
qed

lemma set_groupCategories: "set (groupCategories items) = fi_category ` set items"
  by (simp add: groupCategories_def set_fold_sadd)

definition row_ok :: "feed_item list \<Rightarrow> inbox_item \<Rightarrow> bool" where
  "row_ok items row \<longleftrightarrow>
     in_groupItems row = filter (\<lambda>item. getInboxThreadKey item = in_conversationId row) items \<and>
     in_latestActivityAt row = Max (insert 0 (fi_createdAt ` set (in_groupItems row))) \<and>
     (\<exists>item\<in>set (in_groupItems row). in_id row = fi_id item \<and>
        (\<forall>other\<in>set (in_groupItems row). fi_createdAt other \<le> fi_createdAt item)) \<and>
     (in_isActionRequired row \<longleftrightarrow> (\<exists>item\<in>set (in_groupItems row). fi_category item = CatNeedsAction))"

lemma inboxRow_fields [simp]:
  "in_conversationId (inboxRow ell cal now ch agent profiles key g item) = key"
  "in_id (inboxRow ell cal now ch agent profiles key g item) = fi_id item"
  "in_groupItems (inboxRow ell cal now ch agent profiles key g item) = tg_items g"
  "in_latestActivityAt (inboxRow ell cal now ch agent profiles key g item) = tg_latestActivityAt g"
  "in_isActionRequired (inboxRow ell cal now ch agent profiles key g item) = (CatNeedsAction \<in> fi_category ` set (tg_items g))"
  by (simp_all add: inboxRow_def Let_def set_groupCategories)

lemma inboxRow_ok:
  assumes "latestItem (tg_items (conversation items key)) = Some item"
  shows "row_ok items (inboxRow ell cal now ch agent profiles key (conversation items key) item)"
proof -
  have "set (filter (\<lambda>item. getInboxThreadKey item = key) items) = {item \<in> set items. getInboxThreadKey item = key}" by simp
  then show ?thesis
    using latestItem_newest [OF assms]
    unfolding row_ok_def inboxRow_fields conversation_latest conversation_items by (auto simp: image_iff)
qed

definition byActivity :: "feed_item list \<Rightarrow> string list" where
  "byActivity items = sort_key (\<lambda>key. - tg_latestActivityAt (conversation items key)) (conversationKeys items)"

lemma sorted_groups:
  "js_sort (\<lambda>left right. tg_latestActivityAt (snd right) - tg_latestActivityAt (snd left)) (threadGroups items) =
   map (\<lambda>key. (key, conversation items key)) (byActivity items)"
proof -
  let ?cmp = "\<lambda>l r. tg_latestActivityAt (conversation items r) - tg_latestActivityAt (conversation items l)"
  have "keyed_comparator ?cmp (\<lambda>key. - tg_latestActivityAt (conversation items key)) (\<lambda>_. True)"
    by unfold_locales auto
  from keyed_comparator.js_sort_eq [OF this]
  have "js_sort ?cmp (conversationKeys items) = byActivity items" by (simp add: byActivity_def)
  moreover have "js_sort (\<lambda>left right. tg_latestActivityAt (snd right) - tg_latestActivityAt (snd left))
      (map (\<lambda>key. (key, conversation items key)) keys) = map (\<lambda>key. (key, conversation items key)) (js_sort ?cmp keys)" for keys
    by (rule js_sort_map) simp
  ultimately show ?thesis by (simp add: threadGroups_eq)
qed

lemma conversation_latestItem:
  "key \<in> set (conversationKeys items) \<Longrightarrow> \<exists>item. latestItem (tg_items (conversation items key)) = Some item"
proof -
  assume "key \<in> set (conversationKeys items)"
  then have "tg_items (conversation items key) \<noteq> []"
    by (auto simp: conversationKeys_def keys_fold_sadd conversation_items filter_empty_conv)
  then show ?thesis by (cases "tg_items (conversation items key)") auto
qed

lemma buildInboxItems_rows:
  "buildInboxItems ell cal now channels agent (Some feed) profiles =
   map (\<lambda>key. inboxRow ell cal now (jmap_of (map (\<lambda>c. (nc_id c, c)) (orEmpty channels))) agent profiles key
        (conversation (inboxFeedItems feed) key) (the (latestItem (tg_items (conversation (inboxFeedItems feed) key)))))
     (byActivity (inboxFeedItems feed))"
proof -
  let ?items = "inboxFeedItems feed"
  have "concat (map (\<lambda>(key, g). case latestItem (tg_items g) of None \<Rightarrow> [] | Some item \<Rightarrow> [f key g item])
      (map (\<lambda>key. (key, conversation ?items key)) keys)) =
    map (\<lambda>key. f key (conversation ?items key) (the (latestItem (tg_items (conversation ?items key))))) keys"
    if "set keys \<subseteq> set (conversationKeys ?items)" for keys and f :: "string \<Rightarrow> thread_group \<Rightarrow> feed_item \<Rightarrow> inbox_item"
    using that
  proof (induction keys)
    case (Cons key keys)
    then show ?case using conversation_latestItem [of key ?items] by auto
  qed simp
  then show ?thesis by (simp add: buildInboxItems_def sorted_groups Let_def byActivity_def)
qed

text \<open>
  C27. The inbox groups the home feed into conversations without losing, repeating or reordering an
  item: there is one row per conversation, its items are those of the feed in their order, its time is
  the latest of them, the item it shows is a newest one, and it asks for action exactly when one of
  them does. Rows are sorted by time, newest first.
\<close>

theorem inbox_conversations:
  "distinct (map in_conversationId (buildInboxItems ell cal now channels agent (Some feed) profiles)) \<and>
   in_conversationId ` set (buildInboxItems ell cal now channels agent (Some feed) profiles) =
     getInboxThreadKey ` set (inboxFeedItems feed) \<and>
   list_all (row_ok (inboxFeedItems feed)) (buildInboxItems ell cal now channels agent (Some feed) profiles) \<and>
   sorted (map (\<lambda>row. - in_latestActivityAt row) (buildInboxItems ell cal now channels agent (Some feed) profiles))"
proof -
  let ?items = "inboxFeedItems feed"
  have "distinct (byActivity ?items)" "set (byActivity ?items) = getInboxThreadKey ` set ?items"
    by (simp_all add: byActivity_def conversationKeys_def keys_fold_sadd)
  moreover have "set (byActivity ?items) \<subseteq> set (conversationKeys ?items)" by (simp add: byActivity_def)
  moreover have "sorted (map (\<lambda>key. - tg_latestActivityAt (conversation ?items key)) (byActivity ?items))"
    by (simp add: byActivity_def)
  ultimately show ?thesis
    unfolding buildInboxItems_rows
    by (auto simp: comp_def image_image list_all_iff intro!: inboxRow_ok dest!: subsetD conversation_latestItem)
qed

text \<open>
  The days of the inbox: each day heading appears once, and under it the rows with that heading in
  their order.
\<close>

theorem inbox_days:
  "distinct (map ig_label (groupInboxItems cal now rows)) \<and>
   ig_label ` set (groupInboxItems cal now rows) = groupLabel cal now ` set rows \<and>
   list_all (\<lambda>g. ig_items g = filter (\<lambda>row. groupLabel cal now row = ig_label g) rows) (groupInboxItems cal now rows)"
proof -
  have app: "fold (\<lambda>x ys. ys @ [x]) xs ys = ys @ xs" for xs ys :: "inbox_item list"
    by (induction xs arbitrary: ys) auto
  have "groupInboxItems cal now rows =
      map (\<lambda>label. \<lparr>ig_label = label, ig_items = filter (\<lambda>row. groupLabel cal now row = label) rows\<rparr>)
        (fold (\<lambda>row s. sadd s (groupLabel cal now row)) rows [])"
    unfolding groupInboxItems_def Let_def
    using fold_group [of "groupLabel cal now" "\<lambda>x ys. ys @ [x]" "[]" rows] by (simp add: app)
  then show ?thesis by (simp add: comp_def keys_fold_sadd image_image list_all_iff)
qed

end
