(* ===== verification/DateFormat.thy ===== *)
theory DateFormat
  imports JsText
begin

text \<open>
  The dates of the message timeline (\<open>features/messages/lib/dateFormatters.ts\<close>) and the window in
  which consecutive messages of one author are shown as one
  (\<open>features/messages/lib/messageGrouping.ts\<close>). What JavaScript's \<open>Date\<close> and \<open>Intl.DateTimeFormat\<close>
  compute from the time zone and the locale is the argument \<open>lt\<close>: functions of an instant in
  milliseconds. Times of messages are Unix seconds.
\<close>

subsection \<open>Local time\<close>

record local_time =
  lt_getFullYear :: "int \<Rightarrow> int"
  lt_getMonth :: "int \<Rightarrow> int"
  lt_getDate :: "int \<Rightarrow> int"
  lt_startOfDay :: "int \<Rightarrow> int"
  lt_dayBefore :: "int \<Rightarrow> int"
  lt_clock :: "int \<Rightarrow> string"
  lt_fullDateTime :: "int \<Rightarrow> string"
  lt_weekday :: "int \<Rightarrow> string"
  lt_longMonth :: "int \<Rightarrow> string"
  lt_shortMonth :: "int \<Rightarrow> string"

definition isSameDayDate :: "local_time \<Rightarrow> int \<Rightarrow> int \<Rightarrow> bool" where
  "isSameDayDate lt a b \<longleftrightarrow>
     lt_getFullYear lt a = lt_getFullYear lt b \<and>
     lt_getMonth lt a = lt_getMonth lt b \<and>
     lt_getDate lt a = lt_getDate lt b"

definition isSameDay :: "local_time \<Rightarrow> int \<Rightarrow> int \<Rightarrow> bool" where
  "isSameDay lt a b = isSameDayDate lt (a * 1000) (b * 1000)"

definition startOfLocalDaySeconds :: "local_time \<Rightarrow> int \<Rightarrow> int" where
  "startOfLocalDaySeconds lt unixSeconds = lt_startOfDay lt (unixSeconds * 1000) div 1000"

subsection \<open>Labels\<close>

definition formatTime :: "local_time \<Rightarrow> int \<Rightarrow> string" where
  "formatTime lt unixSeconds = lt_clock lt (unixSeconds * 1000)"

text \<open>The expression is \<open>[\s\u00a0\u202f]*(?:AM|PM)$\<close>, ignoring case.\<close>

definition formatTimeWithoutDayPeriod :: "string \<Rightarrow> string" where
  "formatTimeWithoutDayPeriod time =
     (let k = length time - 2;
          suffix = toLowerCase (drop k time)
      in js_trim (if 2 \<le> length time \<and> (suffix = ''am'' \<or> suffix = ''pm'')
                  then rev (dropWhile js_space (rev (take k time))) else time))"

definition formatFullDateTime :: "local_time \<Rightarrow> int \<Rightarrow> string" where
  "formatFullDateTime lt unixSeconds = lt_fullDateTime lt (unixSeconds * 1000)"

definition ordinalSuffix :: "int \<Rightarrow> string" where
  "ordinalSuffix day =
     (let lastTwoDigits = day mod 100 in
      if 11 \<le> lastTwoDigits \<and> lastTwoDigits \<le> 13 then ''th''
      else if day mod 10 = 1 then ''st''
      else if day mod 10 = 2 then ''nd''
      else if day mod 10 = 3 then ''rd''
      else ''th'')"

definition formatMonthDayOrdinal :: "local_time \<Rightarrow> int \<Rightarrow> (int \<Rightarrow> string) \<Rightarrow> string" where
  "formatMonthDayOrdinal lt date monthFormatter =
     monthFormatter date @ '' '' @ show_int (lt_getDate lt date) @ ordinalSuffix (lt_getDate lt date)"

definition formatDayHeading :: "local_time \<Rightarrow> int \<Rightarrow> int \<Rightarrow> string" where
  "formatDayHeading lt nowMs unixSeconds =
     (let date = unixSeconds * 1000 in
      if isSameDayDate lt date nowMs then ''Today''
      else if isSameDayDate lt date (lt_dayBefore lt nowMs) then ''Yesterday''
      else
        (let dateLabel = lt_weekday lt date @ '', '' @ formatMonthDayOrdinal lt date (lt_longMonth lt) in
         if lt_getFullYear lt date = lt_getFullYear lt nowMs then dateLabel
         else dateLabel @ '', '' @ show_int (lt_getFullYear lt date)))"

definition formatShortMonthDayOrdinal :: "local_time \<Rightarrow> int \<Rightarrow> string" where
  "formatShortMonthDayOrdinal lt unixSeconds = formatMonthDayOrdinal lt (unixSeconds * 1000) (lt_shortMonth lt)"

definition formatAgo :: "int \<Rightarrow> string \<Rightarrow> string" where
  "formatAgo value unit = show_int value @ '' '' @ unit @ (if value = 1 then [] else ''s'') @ '' ago''"

text \<open>The current time is given in milliseconds, so that its fraction of a second is kept.\<close>

definition formatThreadSummaryLastReplyTime :: "local_time \<Rightarrow> int \<Rightarrow> int \<Rightarrow> string" where
  "formatThreadSummaryLastReplyTime lt unixSeconds nowMs =
     (let diff = max 0 (nowMs - unixSeconds * 1000) in
      if diff < 60 * 1000 then ''just now''
      else if diff < 3600 * 1000 then formatAgo (diff div (60 * 1000)) ''minute''
      else if diff < 86400 * 1000 then formatAgo (diff div (3600 * 1000)) ''hour''
      else if diff < 604800 * 1000 then formatAgo (diff div (86400 * 1000)) ''day''
      else ''on '' @ formatShortMonthDayOrdinal lt unixSeconds)"

subsection \<open>Messages of one author\<close>

definition MESSAGE_GROUPING_WINDOW_SECONDS :: int where "MESSAGE_GROUPING_WINDOW_SECONDS = 10 * 60"

definition hasSameMessageAuthor :: "string option \<Rightarrow> string option \<Rightarrow> bool" where
  "hasSameMessageAuthor previous current =
     (let previousPubkey = map_option (toLowerCase \<circ> js_trim) previous;
          currentAgentId = map_option (toLowerCase \<circ> js_trim) current
      in truthy previousPubkey \<and> truthy currentAgentId \<and> previousPubkey = currentAgentId)"

definition isWithinGroupingWindow :: "int option \<Rightarrow> int option \<Rightarrow> bool" where
  "isWithinGroupingWindow previousCreatedAt currentCreatedAt =
     (case (previousCreatedAt, currentCreatedAt) of
        (Some p, Some c) \<Rightarrow> (let gap = c - p in gap \<ge> 0 \<and> gap \<le> MESSAGE_GROUPING_WINDOW_SECONDS)
      | _ \<Rightarrow> False)"

subsection \<open>Days\<close>

lemma isSameDay_equiv: "equivp (isSameDay lt)"
  by (auto simp: equivp_def isSameDay_def isSameDayDate_def fun_eq_iff)

lemma isSameDay_refl [simp]: "isSameDay lt a a"
  by (simp add: isSameDay_def isSameDayDate_def)

lemma isSameDay_sym: "isSameDay lt a b = isSameDay lt b a"
  by (auto simp: isSameDay_def isSameDayDate_def)

lemma isSameDay_trans: "isSameDay lt a b \<Longrightarrow> isSameDay lt b c \<Longrightarrow> isSameDay lt a c"
  by (simp add: isSameDay_def isSameDayDate_def)

text \<open>
  Local midnight identifies the local day: instants of one day have the same one. This is what
  \<open>setHours(0, 0, 0, 0)\<close> documents.
\<close>

definition midnight_of_day :: "local_time \<Rightarrow> bool" where
  "midnight_of_day lt \<longleftrightarrow> (\<forall>a b. isSameDayDate lt a b \<longrightarrow> lt_startOfDay lt a = lt_startOfDay lt b)"

text \<open>An instance: the days of universal time, numbered by their year component alone.\<close>

definition utc :: local_time where
  "utc = \<lparr>lt_getFullYear = (\<lambda>t. t div 86400000), lt_getMonth = (\<lambda>t. 0), lt_getDate = (\<lambda>t. 0),
     lt_startOfDay = (\<lambda>t. t - t mod 86400000), lt_dayBefore = (\<lambda>t. t - 86400000),
     lt_clock = (\<lambda>_. []), lt_fullDateTime = (\<lambda>_. []), lt_weekday = (\<lambda>_. []), lt_longMonth = (\<lambda>_. []),
     lt_shortMonth = (\<lambda>_. [])\<rparr>"

lemma midnight_utc: "midnight_of_day utc"
  by (simp add: midnight_of_day_def isSameDayDate_def utc_def minus_mod_eq_div_mult)

lemma startOfLocalDay_same:
  "midnight_of_day lt \<Longrightarrow> isSameDay lt a b \<Longrightarrow> startOfLocalDaySeconds lt a = startOfLocalDaySeconds lt b"
  by (auto simp: midnight_of_day_def isSameDay_def startOfLocalDaySeconds_def)

end
