(* ===== verification/TimelineItems.thy ===== *)
theory TimelineItems
  imports ThreadPanel DateFormat
begin

text \<open>
  The rows of the timeline list (\<open>features/messages/lib/timelineItems.ts\<close>) and the decisions taken on
  a snapshot of it (\<open>features/messages/lib/timelineSnapshot.ts\<close>): the timeline entries are flattened
  into day dividers, the unread divider, system rows, groups of membership changes and messages that
  may continue the one above. The loop over the entries, with its jumps over groups, is \<open>walk\<close>.
\<close>

subsection \<open>Day boundaries\<close>

record day_boundary =
  db_key :: string
  db_startIndex :: nat
  db_count :: nat
  db_headingTimestamp :: int

definition boundaryStep :: "local_time \<Rightarrow> timeline_message list \<Rightarrow> nat \<Rightarrow> day_boundary list \<Rightarrow> day_boundary list" where
  "boundaryStep lt messages i boundaries =
     (let message = messages ! i in
      if i = 0 \<or> \<not> isSameDay lt (tm_createdAt (messages ! (i - 1))) (tm_createdAt message)
      then boundaries @ [\<lparr>db_key = ''day-'' @ show_int (startOfLocalDaySeconds lt (tm_createdAt message)),
             db_startIndex = i, db_count = 1, db_headingTimestamp = tm_createdAt message\<rparr>]
      else butlast boundaries @ [(last boundaries)\<lparr>db_count := db_count (last boundaries) + 1\<rparr>])"

definition buildDayGroupBoundaries :: "local_time \<Rightarrow> timeline_message list \<Rightarrow> day_boundary list" where
  "buildDayGroupBoundaries lt messages = fold (boundaryStep lt messages) [0..<length messages] []"

subsection \<open>Membership changes\<close>

datatype membership_mode = ModeAdded | ModeJoined

record membership_change =
  mc_actor :: "string option"
  mc_mode :: membership_mode
  mc_target :: string

definition MEMBERSHIP_GROUP_WINDOW_SECONDS :: int where "MEMBERSHIP_GROUP_WINDOW_SECONDS = 5 * 60"

definition isSystemEntry :: "timeline_entry \<Rightarrow> bool" where
  "isSystemEntry entry \<longleftrightarrow> tm_kind (en_message entry) = Some KIND_SYSTEM_MESSAGE"

text \<open>A body that is no JSON or the value null throws inside the \<open>try\<close>, which answers null as well.\<close>

definition parseMembershipChangePayload :: "timeline_entry \<Rightarrow> membership_change option" where
  "parseMembershipChangePayload entry =
     (if \<not> isSystemEntry entry then None
      else
        (let payload = asRecord (JSON_parse (tm_body (en_message entry))) in
         case (jfield payload ''type'', jfield payload ''actor'', jfield payload ''target'') of
           (Some (JStr type), Some (JStr rawActor), Some (JStr rawTarget)) \<Rightarrow>
             if type \<noteq> ''member_joined'' then None
             else
               (let actor = toLowerCase (js_trim rawActor); target = toLowerCase (js_trim rawTarget) in
                if actor = [] \<or> target = [] then None
                else Some (if actor = target then \<lparr>mc_actor = None, mc_mode = ModeJoined, mc_target = target\<rparr>
                           else \<lparr>mc_actor = Some actor, mc_mode = ModeAdded, mc_target = target\<rparr>))
         | _ \<Rightarrow> None))"

definition membershipChangesCanGroup :: "membership_change \<Rightarrow> membership_change \<Rightarrow> bool" where
  "membershipChangesCanGroup first second \<longleftrightarrow>
     mc_mode first = mc_mode second \<and> (mc_mode first = ModeJoined \<or> mc_actor first = mc_actor second)"

definition stopsGroup :: "timeline_entry list \<Rightarrow> nat list \<Rightarrow> timeline_entry \<Rightarrow> membership_change \<Rightarrow> nat \<Rightarrow> bool" where
  "stopsGroup entries barrierIndexes newestEntry newestPayload start =
     (let candidate = entries ! (start - 1) in
      start \<in> set barrierIndexes \<or>
      (case parseMembershipChangePayload candidate of
         None \<Rightarrow> True
       | Some candidatePayload \<Rightarrow>
           \<not> membershipChangesCanGroup candidatePayload newestPayload \<or>
           tm_createdAt (en_message newestEntry) < tm_createdAt (en_message candidate) \<or>
           tm_createdAt (en_message newestEntry) - tm_createdAt (en_message candidate) > MEMBERSHIP_GROUP_WINDOW_SECONDS))"

text \<open>The inner loop: the start of the group that ends with the newest entry.\<close>

fun groupStart :: "timeline_entry list \<Rightarrow> nat list \<Rightarrow> timeline_entry \<Rightarrow> membership_change \<Rightarrow> nat \<Rightarrow> nat" where
  "groupStart entries barrierIndexes newestEntry newestPayload 0 = 0"
| "groupStart entries barrierIndexes newestEntry newestPayload (Suc k) =
     (if stopsGroup entries barrierIndexes newestEntry newestPayload (Suc k) then Suc k
      else groupStart entries barrierIndexes newestEntry newestPayload k)"

lemma groupStart_le: "groupStart entries barrierIndexes newestEntry newestPayload k \<le> k"
  by (induction k) auto

definition slice :: "'a list \<Rightarrow> nat \<Rightarrow> nat \<Rightarrow> 'a list" where
  "slice xs start stop = take (stop - start) (drop start xs)"

text \<open>The outer loop; its first argument is one more than \<open>end\<close>, so 0 is its exit.\<close>

function groupsBelow ::
  "timeline_entry list \<Rightarrow> nat list \<Rightarrow> nat \<Rightarrow> (nat, timeline_entry list) jsmap \<Rightarrow> (nat, timeline_entry list) jsmap" where
  "groupsBelow entries barrierIndexes 0 groups = groups"
| "groupsBelow entries barrierIndexes (Suc last_index) groups =
     (case parseMembershipChangePayload (entries ! last_index) of
        None \<Rightarrow> groupsBelow entries barrierIndexes last_index groups
      | Some newestPayload \<Rightarrow>
          (let start = groupStart entries barrierIndexes (entries ! last_index) newestPayload last_index in
           groupsBelow entries barrierIndexes start
             (if start < last_index then jset groups start (slice entries start (last_index + 1)) else groups)))"
  by pat_completeness auto
termination
  by (relation "measure (\<lambda>(_, _, n, _). n)") (auto intro: le_imp_less_Suc groupStart_le)

definition buildMembershipGroups :: "timeline_entry list \<Rightarrow> nat list \<Rightarrow> (nat, timeline_entry list) jsmap" where
  "buildMembershipGroups entries barrierIndexes = groupsBelow entries barrierIndexes (length entries) []"

subsection \<open>The rows\<close>

datatype timeline_item =
    DayDivider string int
  | UnreadDivider string
  | SystemRow string timeline_entry
  | SystemGroup string "timeline_entry list"
  | MessageRow string timeline_entry bool bool

fun getTimelineItemKey :: "timeline_item \<Rightarrow> string" where
  "getTimelineItemKey (DayDivider key _) = key"
| "getTimelineItemKey (UnreadDivider key) = key"
| "getTimelineItemKey (SystemRow key _) = key"
| "getTimelineItemKey (SystemGroup key _) = key"
| "getTimelineItemKey (MessageRow key _ _ _) = key"

definition entryRenderKey :: "timeline_entry \<Rightarrow> string" where
  "entryRenderKey entry =
     (case tm_renderKey (en_message entry) of Some key \<Rightarrow> key | None \<Rightarrow> tm_id (en_message entry))"

record walk_state =
  wk_items :: "timeline_item list"
  wk_previousGroupEntry :: "timeline_entry option"
  wk_previousMessageItemIndex :: "nat option"

text \<open>Push a row that is no message: the next message cannot continue a previous one.\<close>

definition pushReset :: "timeline_item \<Rightarrow> walk_state \<Rightarrow> walk_state" where
  "pushReset item w =
     \<lparr>wk_items = wk_items w @ [item], wk_previousGroupEntry = None, wk_previousMessageItemIndex = None\<rparr>"

definition pushDividers ::
  "(nat, day_boundary) jsmap \<Rightarrow> string option \<Rightarrow> nat \<Rightarrow> timeline_entry \<Rightarrow> walk_state \<Rightarrow> walk_state" where
  "pushDividers dayBoundariesByStartIndex firstUnreadMessageId i entry w =
     (let message = en_message entry;
          w1 = (case jget dayBoundariesByStartIndex i of
                  Some dayBoundary \<Rightarrow> pushReset (DayDivider (db_key dayBoundary) (tm_createdAt message)) w
                | None \<Rightarrow> w)
      in if shouldRenderUnreadDivider (int i) (tm_id message) firstUnreadMessageId
         then pushReset (UnreadDivider (''unread-'' @ entryRenderKey entry)) w1 else w1)"

fun setFollowed :: "timeline_item \<Rightarrow> timeline_item" where
  "setFollowed (MessageRow key entry isContinuation _) = MessageRow key entry isContinuation True"
| "setFollowed item = item"

definition pushMessage :: "timeline_entry \<Rightarrow> walk_state \<Rightarrow> walk_state" where
  "pushMessage entry w =
     (let message = en_message entry;
          isContinuation =
            (case wk_previousGroupEntry w of
               None \<Rightarrow> False
             | Some previous \<Rightarrow>
                 hasSameMessageAuthor (tm_pubkey (en_message previous)) (tm_pubkey message) \<and>
                 isWithinGroupingWindow (Some (tm_createdAt (en_message previous))) (Some (tm_createdAt message)));
          items =
            (case wk_previousMessageItemIndex w of
               Some k \<Rightarrow> if isContinuation then (wk_items w)[k := setFollowed (wk_items w ! k)] else wk_items w
             | None \<Rightarrow> wk_items w)
      in \<lparr>wk_items = items @ [MessageRow (entryRenderKey entry) entry isContinuation False],
          wk_previousGroupEntry = Some entry, wk_previousMessageItemIndex = Some (length items)\<rparr>)"

function walk ::
  "timeline_entry list \<Rightarrow> (nat, day_boundary) jsmap \<Rightarrow> (nat, timeline_entry list) jsmap \<Rightarrow> string option \<Rightarrow>
   nat \<Rightarrow> walk_state \<Rightarrow> walk_state" where
  "walk entries days groups firstUnreadMessageId i w =
     (if i < length entries
      then
        (let entry = entries ! i;
             w1 = pushDividers days firstUnreadMessageId i entry w
         in if isSystemEntry entry
            then
              (case jget groups i of
                 Some membershipGroup \<Rightarrow>
                   walk entries days groups firstUnreadMessageId (i + (length membershipGroup - 1) + 1)
                     (pushReset (SystemGroup (entryRenderKey (last membershipGroup)) membershipGroup) w1)
               | None \<Rightarrow>
                   walk entries days groups firstUnreadMessageId (i + 1)
                     (pushReset (SystemRow (entryRenderKey entry) entry) w1))
            else walk entries days groups firstUnreadMessageId (i + 1) (pushMessage entry w1))
      else w)"
  by pat_completeness auto
termination
  by (relation "measure (\<lambda>(entries, _, _, _, i, _). length entries - i)") auto

declare walk.simps [simp del]

definition dayBoundariesByStartIndex :: "local_time \<Rightarrow> timeline_entry list \<Rightarrow> (nat, day_boundary) jsmap" where
  "dayBoundariesByStartIndex lt entries =
     jmap_of (map (\<lambda>boundary. (db_startIndex boundary, boundary)) (buildDayGroupBoundaries lt (map en_message entries)))"

definition membershipBarrierIndexes :: "local_time \<Rightarrow> timeline_entry list \<Rightarrow> string option \<Rightarrow> nat list" where
  "membershipBarrierIndexes lt entries firstUnreadMessageId =
     (let days = jkeys (dayBoundariesByStartIndex lt entries) in
      if truthy firstUnreadMessageId
      then (case findIndex (\<lambda>entry. Some (tm_id (en_message entry)) = firstUnreadMessageId) entries of
              Some unreadIndex \<Rightarrow> if unreadIndex > 0 then sadd days unreadIndex else days
            | None \<Rightarrow> days)
      else days)"

definition buildTimelineItems :: "local_time \<Rightarrow> timeline_entry list \<Rightarrow> string option \<Rightarrow> timeline_item list" where
  "buildTimelineItems lt entries firstUnreadMessageId =
     wk_items (walk entries (dayBoundariesByStartIndex lt entries)
       (buildMembershipGroups entries (membershipBarrierIndexes lt entries firstUnreadMessageId))
       firstUnreadMessageId 0
       \<lparr>wk_items = [], wk_previousGroupEntry = None, wk_previousMessageItemIndex = None\<rparr>)"

record timeline_day_group =
  dg_key :: string
  dg_headingTimestamp :: "int option"
  dg_items :: "timeline_item list"

fun addToDayGroups :: "timeline_item \<Rightarrow> timeline_day_group list \<Rightarrow> timeline_day_group list" where
  "addToDayGroups (DayDivider key headingTimestamp) groups =
     groups @ [\<lparr>dg_key = key, dg_headingTimestamp = Some headingTimestamp, dg_items = []\<rparr>]"
| "addToDayGroups item groups =
     (let groups' = (if groups = []
            then [\<lparr>dg_key = ''day-undated'', dg_headingTimestamp = None, dg_items = []\<rparr>] else groups)
      in butlast groups' @ [(last groups')\<lparr>dg_items := dg_items (last groups') @ [item]\<rparr>])"

definition buildTimelineDayGroups :: "timeline_item list \<Rightarrow> timeline_day_group list" where
  "buildTimelineDayGroups items = fold addToDayGroups items []"

end
