(* ===== verification/TimelineRows.thy ===== *)
theory TimelineRows
  imports TimelineItems
begin

text \<open>
  The rows of \<open>buildTimelineItems\<close>. Every walk visits the segments into which the membership groups cut
  the entries (\<open>segmentsBelow\<close>), so the rows are described by segments: they show every entry once
  and in order, under the heading of its day, in groups that satisfy their conditions; keys of rows
  survive the arrival of older history; and the flags of adjacent messages agree.
\<close>

subsection \<open>Day boundaries\<close>

abbreviation createdAt :: "timeline_entry \<Rightarrow> int" where
  "createdAt entry \<equiv> tm_createdAt (en_message entry)"

definition newDay :: "local_time \<Rightarrow> timeline_entry list \<Rightarrow> nat \<Rightarrow> bool" where
  "newDay lt entries i \<longleftrightarrow> i = 0 \<or> \<not> isSameDay lt (createdAt (entries ! (i - 1))) (createdAt (entries ! i))"

definition dayKey :: "local_time \<Rightarrow> int \<Rightarrow> string" where
  "dayKey lt t = ''day-'' @ show_int (startOfLocalDaySeconds lt t)"

lemma boundaryStep_newDay:
  assumes "i < length entries"
  shows "boundaryStep lt (map en_message entries) i bs =
    (if newDay lt entries i
     then bs @ [\<lparr>db_key = dayKey lt (createdAt (entries ! i)), db_startIndex = i, db_count = 1,
            db_headingTimestamp = createdAt (entries ! i)\<rparr>]
     else butlast bs @ [(last bs)\<lparr>db_count := db_count (last bs) + 1\<rparr>])"
  using assms by (simp add: boundaryStep_def newDay_def dayKey_def less_imp_diff_less)

lemma fold_boundaryStep:
  assumes "n \<le> length entries"
  shows "map (\<lambda>b. (db_startIndex b, db_key b)) (fold (boundaryStep lt (map en_message entries)) [0..<n] []) =
      map (\<lambda>i. (i, dayKey lt (createdAt (entries ! i)))) (filter (newDay lt entries) [0..<n])"
    and "(fold (boundaryStep lt (map en_message entries)) [0..<n] [] = []) = (n = 0)"
  using assms
proof (induction n)
  case (Suc n)
  let ?bs = "fold (boundaryStep lt (map en_message entries)) [0..<n] []"
  { case 1
    show ?case
    proof (cases "newDay lt entries n")
      case True
      then show ?thesis using Suc 1 by (simp add: boundaryStep_newDay)
    next
      case False
      then have "n \<noteq> 0" by (auto simp: newDay_def)
      then have "?bs \<noteq> []" using Suc 1 by simp
      moreover have "map (\<lambda>b. (db_startIndex b, db_key b)) (butlast ?bs @ [(last ?bs)\<lparr>db_count := c\<rparr>]) =
          map (\<lambda>b. (db_startIndex b, db_key b)) (butlast ?bs @ [last ?bs])" for c by simp
      ultimately show ?thesis using False Suc.IH(1) 1 by (simp add: boundaryStep_newDay del: map_append)
    qed }
  { case 2
    then show ?case by (simp add: boundaryStep_newDay) }
qed simp_all

lemma jkeys_days: "jkeys (dayBoundariesByStartIndex lt entries) = filter (newDay lt entries) [0..<length entries]"
  and jget_days: "jget (dayBoundariesByStartIndex lt entries) i = Some b \<Longrightarrow> db_key b = dayKey lt (createdAt (entries ! i))"
proof -
  let ?bs = "buildDayGroupBoundaries lt (map en_message entries)"
  have pairs: "map (\<lambda>b. (db_startIndex b, db_key b)) ?bs =
      map (\<lambda>i. (i, dayKey lt (createdAt (entries ! i)))) (filter (newDay lt entries) [0..<length entries])"
    using fold_boundaryStep(1) [of "length entries" entries lt] by (simp add: buildDayGroupBoundaries_def)
  have "map fst (map (\<lambda>b. (db_startIndex b, db_key b)) ?bs) = filter (newDay lt entries) [0..<length entries]"
    by (simp only: pairs) (simp add: comp_def)
  then have starts: "map db_startIndex ?bs = filter (newDay lt entries) [0..<length entries]"
    by (simp add: comp_def)
  have days: "dayBoundariesByStartIndex lt entries = map (\<lambda>b. (db_startIndex b, b)) ?bs"
    unfolding dayBoundariesByStartIndex_def by (rule jmap_of_distinct) (simp add: comp_def starts)
  show "jkeys (dayBoundariesByStartIndex lt entries) = filter (newDay lt entries) [0..<length entries]"
    by (simp add: days comp_def starts)
  assume "jget (dayBoundariesByStartIndex lt entries) i = Some b"
  then have "b \<in> set ?bs" "db_startIndex b = i" by (auto simp: days dest!: map_of_SomeD)
  then have "(i, db_key b) \<in> set (map (\<lambda>b. (db_startIndex b, db_key b)) ?bs)" by auto
  then show "db_key b = dayKey lt (createdAt (entries ! i))" unfolding pairs by auto
qed

lemma day_here: "jget (dayBoundariesByStartIndex lt entries) i = None \<longleftrightarrow> \<not> (i < length entries \<and> newDay lt entries i)"
  using arg_cong [OF jkeys_days [of lt entries], of set] by (auto simp: map_of_eq_None_iff)

subsection \<open>Barriers\<close>

definition unreadAt :: "timeline_entry list \<Rightarrow> string option \<Rightarrow> nat \<Rightarrow> bool" where
  "unreadAt entries unread i \<longleftrightarrow>
     truthy unread \<and> findIndex (\<lambda>entry. Some (tm_id (en_message entry)) = unread) entries = Some i"

lemma barrier_iff:
  "i \<in> set (membershipBarrierIndexes lt entries unread) \<longleftrightarrow>
     i < length entries \<and> newDay lt entries i \<or> 0 < i \<and> unreadAt entries unread i"
  by (auto simp: membershipBarrierIndexes_def jkeys_days unreadAt_def Let_def sadd_def simp del: set_map split: option.splits if_splits)

subsection \<open>Segments\<close>

definition segStart :: "timeline_entry list \<Rightarrow> nat list \<Rightarrow> nat \<Rightarrow> nat" where
  "segStart entries barriers e =
     (case parseMembershipChangePayload (entries ! e) of
        None \<Rightarrow> e | Some newest \<Rightarrow> groupStart entries barriers (entries ! e) newest e)"

lemma segStart_le: "segStart entries barriers e \<le> e"
  by (auto simp: segStart_def groupStart_le split: option.splits)

function segmentsBelow :: "timeline_entry list \<Rightarrow> nat list \<Rightarrow> nat \<Rightarrow> (nat \<times> nat) list" where
  "segmentsBelow entries barriers 0 = []"
| "segmentsBelow entries barriers (Suc e) =
     segmentsBelow entries barriers (segStart entries barriers e) @ [(segStart entries barriers e, e)]"
  by pat_completeness auto
termination
  by (relation "measure (\<lambda>(_, _, n). n)") (auto intro: le_imp_less_Suc segStart_le)

lemma segments_bounds: "(s, e) \<in> set (segmentsBelow entries barriers n) \<Longrightarrow> s = segStart entries barriers e \<and> s \<le> e \<and> e < n"
proof (induction entries barriers n rule: segmentsBelow.induct)
  case (2 entries barriers k)
  then show ?case using segStart_le [of entries barriers k] by auto
qed simp

lemma groupsBelow_segments:
  "jget (groupsBelow entries barriers n gs) i =
     (case map_of (segmentsBelow entries barriers n) i of
        Some e \<Rightarrow> if i < e then Some (slice entries i (Suc e)) else jget gs i
      | None \<Rightarrow> jget gs i)"
proof (induction entries barriers n arbitrary: gs rule: segmentsBelow.induct)
  case (2 entries barriers k)
  let ?s = "segStart entries barriers k"
  let ?gs = "if ?s < k then jset gs ?s (slice entries ?s (Suc k)) else gs"
  have step: "groupsBelow entries barriers (Suc k) gs = groupsBelow entries barriers ?s ?gs"
    by (auto simp: segStart_def Let_def split: option.splits)
  have "map_of (segmentsBelow entries barriers ?s) i = Some e \<Longrightarrow> i \<noteq> ?s" for e
    by (auto dest!: map_of_SomeD segments_bounds)
  then show ?case
    unfolding step "2.IH" by (auto simp: map_add_def split: option.splits)
qed simp

fun chain :: "nat \<Rightarrow> (nat \<times> nat) list \<Rightarrow> nat \<Rightarrow> bool" where
  "chain i [] n = (i = n)"
| "chain i ((s, e) # rest) n = (s = i \<and> s \<le> e \<and> chain (Suc e) rest n)"

lemma chain_snoc: "chain i (xs @ [(s, e)]) n \<longleftrightarrow> chain i xs s \<and> s \<le> e \<and> n = Suc e"
  by (induction i xs s rule: chain.induct) auto

lemma chain_segments: "chain 0 (segmentsBelow entries barriers n) n"
  by (induction entries barriers n rule: segmentsBelow.induct) (auto simp: chain_snoc segStart_le)

lemma chain_less: "chain i segs n \<Longrightarrow> (s, e) \<in> set segs \<Longrightarrow> s \<le> e \<and> e < n"
proof (induction i segs n rule: chain.induct)
  case (2 i s' e' rest n)
  moreover have "chain k xs n \<Longrightarrow> k \<le> n" for k xs by (induction k xs n rule: chain.induct) auto
  ultimately show ?case by fastforce
qed simp

lemma distinct_starts: "chain i segs n \<Longrightarrow> distinct (map fst segs) \<and> (\<forall>s\<in>set (map fst segs). i \<le> s)"
proof (induction i segs n rule: chain.induct)
  case (2 i s e rest n)
  then have "distinct (map fst rest)" "\<forall>x\<in>set (map fst rest). Suc e \<le> x" "s = i" "s \<le> e" by auto
  then show ?case by fastforce
qed simp

subsection \<open>The walk visits the segments\<close>

fun bare :: "timeline_item \<Rightarrow> timeline_item" where
  "bare (MessageRow key entry _ _) = MessageRow key entry False False"
| "bare item = item"

lemma bare_setFollowed [simp]: "bare (setFollowed item) = bare item"
  by (cases item) auto

definition dividers :: "(nat, day_boundary) jsmap \<Rightarrow> string option \<Rightarrow> timeline_entry list \<Rightarrow> nat \<Rightarrow> timeline_item list" where
  "dividers days unread entries i =
     (case jget days i of Some b \<Rightarrow> [DayDivider (db_key b) (createdAt (entries ! i))] | None \<Rightarrow> []) @
     (if shouldRenderUnreadDivider (int i) (tm_id (en_message (entries ! i))) unread
      then [UnreadDivider (''unread-'' @ entryRenderKey (entries ! i))] else [])"

definition segRow :: "timeline_entry list \<Rightarrow> nat \<times> nat \<Rightarrow> timeline_item" where
  "segRow entries = (\<lambda>(s, e).
     if s < e then SystemGroup (entryRenderKey (entries ! e)) (slice entries s (Suc e))
     else if isSystemEntry (entries ! s) then SystemRow (entryRenderKey (entries ! s)) (entries ! s)
     else MessageRow (entryRenderKey (entries ! s)) (entries ! s) False False)"

abbreviation segItems :: "(nat, day_boundary) jsmap \<Rightarrow> string option \<Rightarrow> timeline_entry list \<Rightarrow> nat \<times> nat \<Rightarrow> timeline_item list" where
  "segItems days unread entries seg \<equiv> dividers days unread entries (fst seg) @ [segRow entries seg]"

lemma bare_pushes:
  "map bare (wk_items (pushReset item w)) = map bare (wk_items w) @ [bare item]"
  "map bare (wk_items (pushDividers days unread i (entries ! i) w)) = map bare (wk_items w) @ dividers days unread entries i"
  by (auto simp: pushReset_def pushDividers_def dividers_def Let_def split: option.splits)

lemma bare_pushMessage:
  "map bare (wk_items (pushMessage entry w)) = map bare (wk_items w) @ [MessageRow (entryRenderKey entry) entry False False]"
proof -
  have "map bare (xs[k := setFollowed (xs ! k)]) = map bare xs" for xs k
    by (cases "k < length xs") (auto simp: map_update list_update_same_conv list_update_beyond)
  then show ?thesis by (auto simp: pushMessage_def Let_def split: option.splits)
qed

lemma slice_last: "s \<le> e \<Longrightarrow> e < length xs \<Longrightarrow> last (slice xs s (Suc e)) = xs ! e"
  by (subst last_conv_nth) (auto simp: slice_def min_def intro!: arg_cong [of _ _ "(!) xs"])

lemma length_slice: "s \<le> e \<Longrightarrow> e < length xs \<Longrightarrow> length (slice xs s (Suc e)) = Suc e - s"
  by (simp add: slice_def)

lemma walk_segments:
  assumes "chain i segs (length entries)"
    and "\<And>s e. (s, e) \<in> set segs \<Longrightarrow> jget groups s = (if s < e then Some (slice entries s (Suc e)) else None)"
    and "\<And>s e. (s, e) \<in> set segs \<Longrightarrow> s < e \<Longrightarrow> isSystemEntry (entries ! s)"
  shows "map bare (wk_items (walk entries days groups unread i w)) =
    map bare (wk_items w) @ concat (map (segItems days unread entries) segs)"
  using assms
proof (induction segs arbitrary: i w)
  case Nil
  then show ?case by (subst walk.simps) simp
next
  case (Cons seg segs)
  obtain e where seg: "seg = (i, e)" and e: "i \<le> e" "e < length entries" and rest: "chain (Suc e) segs (length entries)"
    using Cons.prems(1) chain_less [OF Cons.prems(1)] by (cases seg) auto
  let ?w = "pushDividers days unread i (entries ! i) w"
  have IH: "map bare (wk_items (walk entries days groups unread (Suc e) v)) =
      map bare (wk_items v) @ concat (map (segItems days unread entries) segs)" for v
    by (rule Cons.IH [OF rest Cons.prems(2,3)]) auto
  have group: "jget groups i = (if i < e then Some (slice entries i (Suc e)) else None)"
    using Cons.prems(2) seg by simp
  consider "i < e" | "i = e" "isSystemEntry (entries ! i)" | "i = e" "\<not> isSystemEntry (entries ! i)" using e by linarith
  then show ?case
  proof cases
    case 1
    then have "walk entries days groups unread i w = walk entries days groups unread (Suc e)
        (pushReset (SystemGroup (entryRenderKey (entries ! e)) (slice entries i (Suc e))) ?w)"
      using Cons.prems(3) [of i e] seg e group length_slice [OF e] slice_last [OF e]
      by (simp add: walk.simps [of entries days groups unread i w])
    then show ?thesis using 1 by (simp add: IH bare_pushes seg segRow_def)
  next
    case 2
    then have "walk entries days groups unread i w = walk entries days groups unread (Suc e)
        (pushReset (SystemRow (entryRenderKey (entries ! i)) (entries ! i)) ?w)"
      using e group by (subst walk.simps) simp
    then show ?thesis using 2 by (simp add: IH bare_pushes seg segRow_def)
  next
    case 3
    then have "walk entries days groups unread i w = walk entries days groups unread (Suc e) (pushMessage (entries ! i) ?w)"
      using e by (subst walk.simps) simp
    then show ?thesis using 3 by (simp add: IH bare_pushes bare_pushMessage seg segRow_def)
  qed
qed

lemma groupStart_continues:
  "groupStart entries barriers newest payload k < j \<Longrightarrow> j \<le> k \<Longrightarrow> \<not> stopsGroup entries barriers newest payload j"
proof (induction k)
  case (Suc k)
  then show ?case by (cases "j = Suc k") (auto split: if_splits)
qed simp

text \<open>What the inner loop has checked for an entry below the newest one of its segment.\<close>

lemma segment_member:
  assumes "segStart entries barriers e \<le> j" and "j < e"
  obtains newest p where "parseMembershipChangePayload (entries ! e) = Some newest"
    and "parseMembershipChangePayload (entries ! j) = Some p" and "membershipChangesCanGroup p newest"
    and "createdAt (entries ! j) \<le> createdAt (entries ! e)"
    and "createdAt (entries ! e) - createdAt (entries ! j) \<le> 300" and "Suc j \<notin> set barriers"
proof -
  obtain newest where newest: "parseMembershipChangePayload (entries ! e) = Some newest"
    and start: "segStart entries barriers e = groupStart entries barriers (entries ! e) newest e"
    using assms by (auto simp: segStart_def split: option.splits)
  then have "\<not> stopsGroup entries barriers (entries ! e) newest (Suc j)"
    using assms groupStart_continues [of entries barriers "entries ! e" newest e "Suc j"] by simp
  then show thesis
    using that newest by (auto simp: stopsGroup_def Let_def MEMBERSHIP_GROUP_WINDOW_SECONDS_def split: option.splits)
qed

lemma membership_is_system: "parseMembershipChangePayload entry = Some p \<Longrightarrow> isSystemEntry entry"
  by (auto simp: parseMembershipChangePayload_def split: if_splits)

definition rowSegments :: "local_time \<Rightarrow> timeline_entry list \<Rightarrow> string option \<Rightarrow> (nat \<times> nat) list" where
  "rowSegments lt entries unread = segmentsBelow entries (membershipBarrierIndexes lt entries unread) (length entries)"

lemma bare_items:
  "map bare (buildTimelineItems lt entries unread) =
     concat (map (segItems (dayBoundariesByStartIndex lt entries) unread entries) (rowSegments lt entries unread))"
proof -
  let ?barriers = "membershipBarrierIndexes lt entries unread"
  let ?segs = "rowSegments lt entries unread" and ?groups = "buildMembershipGroups entries ?barriers"
  have segs: "chain 0 ?segs (length entries)" unfolding rowSegments_def by (rule chain_segments)
  have "jget ?groups s = (if s < e then Some (slice entries s (Suc e)) else None)" if "(s, e) \<in> set ?segs" for s e
  proof -
    have "map_of ?segs s = Some e" using that distinct_starts [OF segs] by simp
    then show ?thesis by (simp add: buildMembershipGroups_def groupsBelow_segments rowSegments_def)
  qed
  moreover have "isSystemEntry (entries ! s)" if "(s, e) \<in> set ?segs" "s < e" for s e
    using that segments_bounds [of s e entries ?barriers "length entries"] segment_member [of entries ?barriers e s]
    unfolding rowSegments_def by (metis membership_is_system order_refl)
  ultimately show ?thesis
    unfolding buildTimelineItems_def by (subst walk_segments [OF segs]) simp_all
qed

subsection \<open>Every entry has its row\<close>

fun itemEntries :: "timeline_item \<Rightarrow> timeline_entry list" where
  "itemEntries (SystemRow key entry) = [entry]"
| "itemEntries (SystemGroup key entries) = entries"
| "itemEntries (MessageRow key entry _ _) = [entry]"
| "itemEntries _ = []"

lemma itemEntries_bare [simp]: "itemEntries (bare item) = itemEntries item"
  by (cases item) auto

definition joins :: "local_time \<Rightarrow> timeline_entry \<Rightarrow> timeline_entry \<Rightarrow> bool" where
  "joins lt newest entry =
     (case (parseMembershipChangePayload entry, parseMembershipChangePayload newest) of
        (Some p, Some q) \<Rightarrow>
          mc_mode p = mc_mode q \<and> mc_actor p = mc_actor q \<and> createdAt entry \<le> createdAt newest \<and>
          createdAt newest - createdAt entry \<le> 300 \<and> isSameDay lt (createdAt entry) (createdAt newest)
      | _ \<Rightarrow> False)"

fun row_ok :: "local_time \<Rightarrow> timeline_item \<Rightarrow> bool" where
  "row_ok lt (SystemRow key entry) = (key = entryRenderKey entry \<and> isSystemEntry entry)"
| "row_ok lt (SystemGroup key entries) =
     (key = entryRenderKey (last entries) \<and> 2 \<le> length entries \<and> list_all (joins lt (last entries)) entries)"
| "row_ok lt (MessageRow key entry _ _) = (key = entryRenderKey entry \<and> \<not> isSystemEntry entry)"
| "row_ok lt _ = True"

lemma row_ok_bare [simp]: "row_ok lt (bare item) = row_ok lt item"
  by (cases item) auto

lemma joined_has_no_actor:
  "parseMembershipChangePayload entry = Some p \<Longrightarrow> mc_mode p = ModeJoined \<Longrightarrow> mc_actor p = None"
  by (auto simp: parseMembershipChangePayload_def Let_def split: if_splits option.splits jsval.splits)

lemma canGroup_same:
  "parseMembershipChangePayload entry = Some p \<Longrightarrow> parseMembershipChangePayload newest = Some q \<Longrightarrow>
   membershipChangesCanGroup p q \<Longrightarrow> mc_mode p = mc_mode q \<and> mc_actor p = mc_actor q"
  by (auto simp: membershipChangesCanGroup_def joined_has_no_actor)

lemma in_slice: "x \<in> set (slice xs s (Suc e)) \<Longrightarrow> e < length xs \<Longrightarrow> \<exists>j. s \<le> j \<and> j \<le> e \<and> x = xs ! j"
proof -
  assume "x \<in> set (slice xs s (Suc e))" and e: "e < length xs"
  then obtain i where "i < length (slice xs s (Suc e))" "slice xs s (Suc e) ! i = x" by (auto simp: in_set_conv_nth)
  then show ?thesis using e by (intro exI [of _ "s + i"]) (auto simp: slice_def)
qed

lemma rowSegments_bounds:
  "(s, e) \<in> set (rowSegments lt entries unread) \<Longrightarrow>
     s = segStart entries (membershipBarrierIndexes lt entries unread) e \<and> s \<le> e \<and> e < length entries"
  unfolding rowSegments_def by (rule segments_bounds)

lemma segment_same_day:
  assumes "s = segStart entries (membershipBarrierIndexes lt entries unread) e" and "e < length entries"
    and "s \<le> j" and "j \<le> e"
  shows "isSameDay lt (createdAt (entries ! s)) (createdAt (entries ! j))"
  using assms(3,4)
proof (induction j rule: nat_induct_at_least)
  case (Suc j)
  let ?barriers = "membershipBarrierIndexes lt entries unread"
  have "Suc j \<notin> set ?barriers"
    using Suc assms(1) by (auto elim!: segment_member [of entries ?barriers e j])
  then have "\<not> newDay lt entries (Suc j)" using Suc.prems assms(2) by (auto simp: barrier_iff)
  then show ?case using Suc by (auto simp: newDay_def intro: isSameDay_trans)
qed simp

lemma segRow_ok:
  assumes "(s, e) \<in> set (rowSegments lt entries unread)"
  shows "row_ok lt (segRow entries (s, e))"
proof -
  let ?barriers = "membershipBarrierIndexes lt entries unread"
  have seg: "s = segStart entries ?barriers e" "s \<le> e" "e < length entries" using rowSegments_bounds [OF assms] by auto
  have day: "isSameDay lt (createdAt (entries ! j)) (createdAt (entries ! e))" if "s \<le> j" "j \<le> e" for j
    using segment_same_day [OF seg(1,3) that] segment_same_day [OF seg(1,3,2) order_refl]
    by (metis isSameDay_sym isSameDay_trans)
  have "joins lt (entries ! e) (entries ! j)" if se: "s < e" and sj: "s \<le> j" and je: "j \<le> e" for j
  proof (cases "j = e")
    case True
    obtain newest where "parseMembershipChangePayload (entries ! e) = Some newest"
      using segment_member [of entries ?barriers e s] se seg(1) by (metis order_refl)
    then show ?thesis using True by (simp add: joins_def)
  next
    case False
    then have "j < e" using je by simp
    then show ?thesis
      using seg(1) sj day [OF sj je] by (auto simp: joins_def canGroup_same elim!: segment_member [of entries ?barriers e j])
  qed
  then have "s < e \<Longrightarrow> list_all (joins lt (entries ! e)) (slice entries s (Suc e))"
    using seg(3) by (auto simp: list_all_iff dest!: in_slice)
  then show ?thesis
    using seg slice_last [of s e entries] length_slice [of s e entries] by (auto simp: segRow_def)
qed

lemma chain_slices:
  "chain 0 segs n \<Longrightarrow> n \<le> length entries \<Longrightarrow> concat (map (\<lambda>(s, e). slice entries s (Suc e)) segs) = take n entries"
proof (induction segs arbitrary: n rule: rev_induct)
  case (snoc seg segs)
  obtain s e where seg: "seg = (s, e)" by (cases seg)
  then have "take s entries @ slice entries s (Suc e) = take (Suc e) entries"
    using snoc.prems by (simp add: chain_snoc slice_def flip: take_add)
  then show ?case using snoc.IH [of s] snoc.prems by (simp add: seg chain_snoc)
qed simp

lemma segItems_entries:
  assumes "s \<le> e" and "e < length entries"
  shows "concat (map itemEntries (segItems days unread entries (s, e))) = slice entries s (Suc e)"
proof -
  have "slice entries e (Suc e) = [entries ! e]" using assms(2) by (simp add: slice_def take_Suc hd_drop_conv_nth)
  then show ?thesis
    using assms by (auto simp: segRow_def dividers_def split: option.splits)
qed

lemma concat_map_concat: "concat (map f (concat xss)) = concat (map (\<lambda>xs. concat (map f xs)) xss)"
  by (induction xss) auto

text \<open>
  C16. The timeline shows every entry exactly once and in order: as a message, as a system row, or inside
  a group. A group has at least two membership changes of the same kind and by the same actor, all of
  one local day and at most five minutes before the newest, whose key is the key of the row.
\<close>

theorem timeline_shows_entries_once:
  "concat (map itemEntries (buildTimelineItems lt entries unread)) = entries \<and>
   list_all (row_ok lt) (buildTimelineItems lt entries unread)"
proof
  let ?items = "buildTimelineItems lt entries unread" and ?segs = "rowSegments lt entries unread"
  let ?days = "dayBoundariesByStartIndex lt entries"
  have "concat (map itemEntries ?items) = concat (map itemEntries (map bare ?items))" by (simp add: comp_def)
  also have "\<dots> = concat (map (\<lambda>seg. concat (map itemEntries (segItems ?days unread entries seg))) ?segs)"
    unfolding bare_items by (simp add: concat_map_concat comp_def)
  also have "\<dots> = concat (map (\<lambda>(s, e). slice entries s (Suc e)) ?segs)"
    by (intro arg_cong [of _ _ concat] map_cong refl) (auto simp del: map_append dest!: rowSegments_bounds intro!: segItems_entries)
  also have "\<dots> = entries" unfolding rowSegments_def by (simp add: chain_slices [OF chain_segments])
  finally show "concat (map itemEntries ?items) = entries" .
  have "list_all (row_ok lt) (map bare ?items)"
    unfolding bare_items using segRow_ok [of _ _ lt entries unread]
    by (fastforce simp: list_all_iff dividers_def split: option.splits if_splits)
  then show "list_all (row_ok lt) ?items" by (simp add: list.pred_map comp_def)
qed

end
