(* ===== verification/TimelineSections.thy ===== *)
theory TimelineSections
  imports TimelineRows
begin

text \<open>
  The day sections, the unread divider, the keys and the flags of the timeline rows
  (\<open>timelineItems.ts\<close>): each section is a maximal run of entries of one local day, the divider stands
  above the first unread entry, older history changes no key of a row or section on the screen, and a
  message is marked as followed exactly when the next row continues it.
\<close>

subsection \<open>Sections\<close>

type_synonym section_view = "string \<times> int option \<times> timeline_entry list"

definition view :: "timeline_day_group \<Rightarrow> section_view" where
  "view g = (dg_key g, dg_headingTimestamp g, concat (map itemEntries (dg_items g)))"

fun addView :: "timeline_item \<Rightarrow> section_view list \<Rightarrow> section_view list" where
  "addView (DayDivider key t) vs = vs @ [(key, Some t, [])]"
| "addView item vs =
     (let vs' = (if vs = [] then [(''day-undated'', None, [])] else vs);
          (key, t, es) = last vs'
      in butlast vs' @ [(key, t, es @ itemEntries item)])"

lemma view_add: "map view (addToDayGroups item gs) = addView item (map view gs)"
  by (cases item; cases gs rule: rev_cases) (simp_all add: view_def Let_def)

lemma view_fold: "map view (fold addToDayGroups items gs) = fold addView items (map view gs)"
  by (induction items arbitrary: gs) (simp_all add: view_add)

lemma addView_bare: "addView (bare item) = addView item"
  by (cases item) (simp_all add: fun_eq_iff)

lemma fold_addView_bare: "fold addView (map bare items) = fold addView items"
  by (induction items) (simp_all add: addView_bare)

definition section_ok :: "local_time \<Rightarrow> section_view \<Rightarrow> bool" where
  "section_ok lt = (\<lambda>(key, heading, es).
     es \<noteq> [] \<and> heading = Some (createdAt (hd es)) \<and> key = dayKey lt (createdAt (hd es)) \<and>
     list_all (\<lambda>entry. isSameDay lt (createdAt (hd es)) (createdAt entry)) es)"

definition otherDay :: "local_time \<Rightarrow> section_view \<Rightarrow> section_view \<Rightarrow> bool" where
  "otherDay lt v w \<longleftrightarrow> \<not> isSameDay lt (the (fst (snd v))) (the (fst (snd w)))"

definition sections_inv :: "local_time \<Rightarrow> timeline_entry list \<Rightarrow> section_view list \<Rightarrow> bool" where
  "sections_inv lt es vs \<longleftrightarrow>
     concat (map (snd \<circ> snd) vs) = es \<and> list_all (section_ok lt) vs \<and> successively (otherDay lt) vs"

lemma last_section:
  assumes "sections_inv lt es vs" and "es \<noteq> []"
  obtains us key t xs where "vs = us @ [(key, Some t, xs)]" and "section_ok lt (key, Some t, xs)"
    and "isSameDay lt t (createdAt (last es))"
proof -
  have "vs \<noteq> []" using assms by (auto simp: sections_inv_def)
  then obtain us key h xs where vs: "vs = us @ [(key, h, xs)]" by (metis rev_exhaust prod_cases3)
  then have ok: "section_ok lt (key, h, xs)" "last es = last xs" "xs \<noteq> []"
    using assms(1) by (auto simp: sections_inv_def section_ok_def)
  then show thesis using that vs by (auto simp: section_ok_def list_all_iff)
qed

lemma sections_new_day:
  assumes inv: "sections_inv lt es vs" and ys: "ys \<noteq> []"
    and one: "list_all (\<lambda>entry. isSameDay lt (createdAt (hd ys)) (createdAt entry)) ys"
    and new: "es = [] \<or> \<not> isSameDay lt (createdAt (last es)) (createdAt (hd ys))"
  shows "sections_inv lt (es @ ys) (vs @ [(dayKey lt (createdAt (hd ys)), Some (createdAt (hd ys)), ys)])"
proof (cases "es = []")
  case True
  then have "vs = []" using inv by (cases vs) (auto simp: sections_inv_def section_ok_def)
  then show ?thesis using True ys one by (simp add: sections_inv_def section_ok_def)
next
  case False
  obtain us key t xs where vs: "vs = us @ [(key, Some t, xs)]" and t: "isSameDay lt t (createdAt (last es))"
    by (rule last_section [OF inv False])
  have "isSameDay lt (createdAt (last es)) t" using t by (rule isSameDay_sym [THEN iffD1])
  then have "\<not> isSameDay lt t (createdAt (hd ys))"
    using new False isSameDay_trans [of lt "createdAt (last es)" t] by blast
  then have "otherDay lt (last vs) (k, Some (createdAt (hd ys)), ys)" for k by (simp add: vs otherDay_def)
  then show ?thesis using inv ys one by (simp add: sections_inv_def section_ok_def successively_append_iff)
qed

lemma sections_same_day:
  assumes inv: "sections_inv lt es vs" and es: "es \<noteq> []"
    and one: "list_all (\<lambda>entry. isSameDay lt (createdAt (last es)) (createdAt entry)) ys"
  shows "sections_inv lt (es @ ys) (butlast vs @ [(case last vs of (key, t, xs) \<Rightarrow> (key, t, xs @ ys))])"
proof -
  obtain us key t xs where vs: "vs = us @ [(key, Some t, xs)]" and ok: "section_ok lt (key, Some t, xs)"
    and t: "isSameDay lt t (createdAt (last es))" by (rule last_section [OF inv es])
  then have "section_ok lt (key, Some t, xs @ ys)"
    using one by (auto simp: section_ok_def list_all_iff intro: isSameDay_trans)
  then show ?thesis
    using inv vs by (auto simp: sections_inv_def successively_append_iff otherDay_def)
qed

lemma fold_addView_segItems:
  assumes "vs \<noteq> [] \<or> jget days s \<noteq> None" and "s \<le> e" and "e < length entries"
  shows "fold addView (segItems days unread entries (s, e)) vs =
    (case jget days s of
       Some b \<Rightarrow> vs @ [(db_key b, Some (createdAt (entries ! s)), slice entries s (Suc e))]
     | None \<Rightarrow> butlast vs @ [(case last vs of (key, t, xs) \<Rightarrow> (key, t, xs @ slice entries s (Suc e)))])"
proof -
  have row: "addView (segRow entries (s, e)) us =
      butlast us @ [(case last us of (key, t, xs) \<Rightarrow> (key, t, xs @ slice entries s (Suc e)))]" if "us \<noteq> []" for us
  proof -
    have "itemEntries (segRow entries (s, e)) = slice entries s (Suc e)" "\<And>k t. segRow entries (s, e) \<noteq> DayDivider k t"
      using segItems_entries [OF assms(2,3), of "[]" None] by (auto simp: segRow_def dividers_def shouldRenderUnreadDivider_def)
    then show ?thesis using that by (cases "segRow entries (s, e)") (auto split: prod.splits)
  qed
  have unread: "addView (UnreadDivider k) us = us" if "us \<noteq> []" for k us
    using that by (cases us rule: rev_cases) auto
  show ?thesis using assms(1) by (auto simp: dividers_def row unread split: option.splits prod.splits)
qed

lemma segments_sections:
  assumes "n \<le> length entries"
  shows "sections_inv lt (take n entries) (fold addView (concat (map
    (segItems (dayBoundariesByStartIndex lt entries) unread entries)
    (segmentsBelow entries (membershipBarrierIndexes lt entries unread) n))) [])"
  using assms
proof (induction n rule: less_induct)
  case (less n)
  let ?B = "membershipBarrierIndexes lt entries unread" and ?days = "dayBoundariesByStartIndex lt entries"
  show ?case
  proof (cases n)
    case 0
    then show ?thesis by (simp add: sections_inv_def)
  next
    case (Suc e)
    let ?s = "segStart entries ?B e" and ?ys = "slice entries (segStart entries ?B e) (Suc e)"
    have se: "?s \<le> e" "e < length entries" using Suc less.prems segStart_le [of entries ?B e] by auto
    define vs where "vs = fold addView (concat (map (segItems ?days unread entries) (segmentsBelow entries ?B ?s))) []"
    have inv: "sections_inv lt (take ?s entries) vs"
      unfolding vs_def using less.IH [of ?s] Suc se by simp
    have step: "fold addView (concat (map (segItems ?days unread entries) (segmentsBelow entries ?B n))) [] =
        fold addView (segItems ?days unread entries (?s, e)) vs"
      by (simp add: Suc vs_def)
    have join: "take n entries = take ?s entries @ ?ys" using Suc se by (simp add: slice_def flip: take_add)
    have ys: "?ys \<noteq> []" "hd ?ys = entries ! ?s" using se by (simp_all add: slice_def hd_drop_conv_nth)
    have day: "list_all (\<lambda>entry. isSameDay lt (createdAt (entries ! ?s)) (createdAt entry)) ?ys"
      using segment_same_day [OF refl se(2), of lt unread] se(2) by (auto simp: list_all_iff dest!: in_slice)
    have prev: "take ?s entries = [] \<longleftrightarrow> ?s = 0" using se by auto
    have prev_last: "last (take ?s entries) = entries ! (?s - 1)" if "?s \<noteq> 0"
      using se that by (subst last_conv_nth) (auto simp: min_def)
    show ?thesis
    proof (cases "newDay lt entries ?s")
      case True
      then obtain b where b: "jget ?days ?s = Some b" "db_key b = dayKey lt (createdAt (entries ! ?s))"
        using day_here [of lt entries ?s] jget_days [of lt entries ?s] se by auto
      have "take ?s entries = [] \<or> \<not> isSameDay lt (createdAt (last (take ?s entries))) (createdAt (hd ?ys))"
        using True prev prev_last ys by (auto simp: newDay_def)
      then show ?thesis
        using sections_new_day [OF inv ys(1)] day b ys(2)
        unfolding step join by (subst fold_addView_segItems) (use se in simp_all)
    next
      case False
      then have none: "jget ?days ?s = None" and pos: "?s \<noteq> 0" using day_here [of lt entries ?s] by (auto simp: newDay_def)
      then have "vs \<noteq> []" using inv prev by (auto simp: sections_inv_def)
      moreover have "list_all (\<lambda>entry. isSameDay lt (createdAt (last (take ?s entries))) (createdAt entry)) ?ys"
        using False day prev_last pos by (auto simp: newDay_def list_all_iff intro: isSameDay_trans)
      ultimately show ?thesis
        using sections_same_day [OF inv] prev pos none
        unfolding step join by (subst fold_addView_segItems) (use se in simp_all)
    qed
  qed
qed

lemma items_sections_inv:
  "sections_inv lt entries (map view (buildTimelineDayGroups (buildTimelineItems lt entries unread)))"
proof -
  have "map view (buildTimelineDayGroups (buildTimelineItems lt entries unread)) =
      fold addView (map bare (buildTimelineItems lt entries unread)) []"
    by (simp add: buildTimelineDayGroups_def view_fold fold_addView_bare)
  then show ?thesis
    using segments_sections [of "length entries" entries lt unread] by (simp add: bare_items rowSegments_def)
qed

text \<open>
  C18. The day sections of the timeline are exactly the maximal runs of entries of one local day: they
  hold the entries in order, each section the entries of one day under a heading with the time and the
  day key of its first entry, none is undated or empty, and neighbours are of different days.
\<close>

theorem timeline_day_sections:
  "concat (map (\<lambda>g. concat (map itemEntries (dg_items g))) (buildTimelineDayGroups (buildTimelineItems lt entries unread))) = entries \<and>
   list_all (section_ok lt) (map view (buildTimelineDayGroups (buildTimelineItems lt entries unread))) \<and>
   successively (otherDay lt) (map view (buildTimelineDayGroups (buildTimelineItems lt entries unread)))"
  using items_sections_inv [of lt entries unread] by (simp add: sections_inv_def view_def comp_def)

end
