(* ===== verification/TimelineKeys.thy ===== *)
theory TimelineKeys
  imports TimelineSections
begin

text \<open>
  What the timeline view relies on when its rows change (\<open>timelineItems.ts\<close>): the place of the unread
  divider, the keys that stay when older history is prepended, and the continuation flags of messages.
\<close>

subsection \<open>The unread divider\<close>

fun isUnreadDivider :: "timeline_item \<Rightarrow> bool" where
  "isUnreadDivider (UnreadDivider key) = True"
| "isUnreadDivider _ = False"

lemma isUnreadDivider_bare [simp]: "isUnreadDivider (bare item) = isUnreadDivider item"
  by (cases item) auto

lemma unread_bare [simp]: "list_ex isUnreadDivider (map bare items) = list_ex isUnreadDivider items"
  by (induction items) auto

lemma bare_unread: "bare item = UnreadDivider key \<longleftrightarrow> item = UnreadDivider key"
  by (cases item) auto

lemma chain_covers: "chain i segs n \<Longrightarrow> i \<le> j \<Longrightarrow> j < n \<Longrightarrow> \<exists>s e. (s, e) \<in> set segs \<and> s \<le> j \<and> j \<le> e"
proof (induction i segs n rule: chain.induct)
  case (2 i s e rest n)
  then show ?case by (cases "j \<le> e") force+
qed simp

lemma chain_append: "chain i (xs @ (s, e) # ys) n \<Longrightarrow> chain i xs s"
  by (induction i xs s rule: chain.induct) auto

lemma barrier_starts_segment:
  assumes "u \<in> set (membershipBarrierIndexes lt entries unread)" and "u < length entries"
  shows "\<exists>e. (u, e) \<in> set (rowSegments lt entries unread)"
proof -
  let ?B = "membershipBarrierIndexes lt entries unread"
  have "chain 0 (rowSegments lt entries unread) (length entries)" unfolding rowSegments_def by (rule chain_segments)
  then obtain s e where seg: "(s, e) \<in> set (rowSegments lt entries unread)" "s \<le> u" "u \<le> e"
    using chain_covers assms(2) by blast
  have "s = u"
  proof (rule ccontr)
    assume "s \<noteq> u"
    then have "segStart entries ?B e \<le> u - 1" "u - 1 < e" "Suc (u - 1) = u"
      using rowSegments_bounds [OF seg(1)] seg(2,3) by auto
    then show False using segment_member [of entries ?B e "u - 1"] assms(1) by metis
  qed
  then show ?thesis using seg(1) by blast
qed

lemma findIndex_None: "findIndex P xs = None \<longleftrightarrow> \<not> list_ex P xs"
  by (induction xs) auto

lemma findIndex_unique:
  assumes "P (xs ! i)" and "i < length xs" and "\<And>j. j < length xs \<Longrightarrow> P (xs ! j) \<Longrightarrow> j = i"
  shows "findIndex P xs = Some i"
proof (cases "findIndex P xs")
  case None
  then show ?thesis using assms(1,2) by (auto simp: findIndex_None list_ex_length)
next
  case (Some j)
  then have "j = i" using assms(3) [of j] findIndex_Some [OF Some] by blast
  then show ?thesis using Some by blast
qed

lemma map_split:
  assumes "map f xs = ys @ z # zs"
  obtains us v ws where "xs = us @ v # ws" and "map f us = ys" and "f v = z" and "map f ws = zs"
  using assms by (auto simp: map_eq_append_conv Cons_eq_map_conv)

text \<open>
  The unread divider stands directly above the first unread entry, wherever that entry is, except
  at the very top of the timeline: above it are exactly the rows of the earlier entries, so no group of
  membership changes straddles it, and there is no second divider.
\<close>

theorem unread_divider_place:
  assumes "distinct (map (tm_id \<circ> en_message) entries)" and "0 < u" and "u < length entries"
    and "tm_id (en_message (entries ! u)) \<noteq> []"
  shows "\<exists>above below.
    buildTimelineItems lt entries (Some (tm_id (en_message (entries ! u)))) =
      above @ UnreadDivider (''unread-'' @ entryRenderKey (entries ! u)) # below \<and>
    concat (map itemEntries above) = take u entries \<and> \<not> list_ex isUnreadDivider (above @ below)"
proof -
  let ?unread = "Some (tm_id (en_message (entries ! u)))" and ?days = "dayBoundariesByStartIndex lt entries"
  let ?segs = "rowSegments lt entries ?unread" and ?k = "''unread-'' @ entryRenderKey (entries ! u)"
  have ids: "Some (tm_id (en_message (entries ! i))) = ?unread \<longleftrightarrow> i = u" if "i < length entries" for i
    using assms(1,3) that nth_eq_iff_index_eq [of "map (tm_id \<circ> en_message) entries" i u] by simp
  have "findIndex (\<lambda>entry. Some (tm_id (en_message entry)) = ?unread) entries = Some u"
    using assms(3) ids by (intro findIndex_unique) auto
  then have "u \<in> set (membershipBarrierIndexes lt entries ?unread)"
    using assms(2,4) by (auto simp: barrier_iff unreadAt_def truthy_def)
  then obtain e xs ys where segs: "?segs = xs @ (u, e) # ys"
    using barrier_starts_segment assms(3) by (metis in_set_conv_decomp)
  have chn: "chain 0 ?segs (length entries)" unfolding rowSegments_def by (rule chain_segments)
  then have xs: "chain 0 xs u" using chain_append segs by metis
  have divs: "dividers ?days ?unread entries s =
      (case jget ?days s of Some b \<Rightarrow> [DayDivider (db_key b) (createdAt (entries ! s))] | None \<Rightarrow> []) @
      (if s = u then [UnreadDivider ?k] else [])" if "s < length entries" for s
    using ids [OF that] assms(2) by (auto simp: dividers_def shouldRenderUnreadDivider_def)
  let ?A = "concat (map (segItems ?days ?unread entries) xs) @
      (case jget ?days u of Some b \<Rightarrow> [DayDivider (db_key b) (createdAt (entries ! u))] | None \<Rightarrow> [])"
  let ?C = "segRow entries (u, e) # concat (map (segItems ?days ?unread entries) ys)"
  have eq: "map bare (buildTimelineItems lt entries ?unread) = ?A @ UnreadDivider ?k # ?C"
    unfolding bare_items segs using divs [OF assms(3)] by simp
  have no_row: "\<not> isUnreadDivider (segRow entries seg)" for seg by (auto simp: segRow_def split: prod.splits)
  have "\<not> list_ex isUnreadDivider (segItems ?days ?unread entries (s, f))" if "(s, f) \<in> set ?segs" "s \<noteq> u" for s f
    using that divs [of s] rowSegments_bounds [OF that(1)] no_row by (auto split: option.splits)
  moreover have "(s, f) \<in> set xs \<or> (s, f) \<in> set ys \<Longrightarrow> s \<noteq> u" for s f
    using distinct_starts [OF chn] by (force simp: segs)
  ultimately have none: "\<not> list_ex isUnreadDivider (?A @ ?C)"
    using no_row by (fastforce simp: list_ex_iff segs split: option.splits)
  have "s \<le> f \<and> f < length entries" if "(s, f) \<in> set xs" for s f using chain_less [OF xs that] assms(3) by simp
  then have "concat (map itemEntries (concat (map (segItems ?days ?unread entries) xs))) =
      concat (map (\<lambda>(s, e). slice entries s (Suc e)) xs)"
    unfolding concat_map_concat map_map comp_def
    by (intro arg_cong [of _ _ concat] map_cong refl)
      (auto simp del: map_append intro!: segItems_entries)
  then have entries_A: "concat (map itemEntries ?A) = take u entries"
    using chain_slices [OF xs, of entries] assms(3) by (auto split: option.splits)
  obtain above it below where items: "buildTimelineItems lt entries ?unread = above @ it # below"
    and A: "map bare above = ?A" "bare it = UnreadDivider ?k" "map bare below = ?C"
    by (rule map_split [OF eq])
  have "concat (map itemEntries above) = take u entries"
    using arg_cong [OF A(1), of "\<lambda>l. concat (map itemEntries l)"] entries_A by (simp add: comp_def)
  moreover have "\<not> list_ex isUnreadDivider (above @ below)"
    using none unfolding A(1,3) [symmetric] by simp
  ultimately show ?thesis using items A(2) unfolding bare_unread by blast
qed

definition sample_entries :: "timeline_entry list" where
  "sample_entries =
     [\<lparr>en_message = sample_message ''a'' None 1, en_summary = None\<rparr>,
      \<lparr>en_message = (sample_message ''b'' None 2)\<lparr>tm_kind := Some 40099\<rparr>, en_summary = None\<rparr>,
      \<lparr>en_message = sample_message ''c'' None 3, en_summary = None\<rparr>]"

lemma sample_ids: "map (tm_id \<circ> en_message) sample_entries = [''a'', ''b'', ''c'']"
  by (simp add: sample_entries_def sample_message_def)

theorem unread_divider_place_witness:
  "\<exists>above below.
    buildTimelineItems utc sample_entries (Some ''b'') = above @ UnreadDivider ''unread-b'' # below \<and>
    concat (map itemEntries above) = take 1 sample_entries \<and> \<not> list_ex isUnreadDivider (above @ below)"
proof -
  have "length sample_entries = 3" "tm_id (en_message (sample_entries ! 1)) = ''b''" "entryRenderKey (sample_entries ! 1) = ''b''"
    by (simp_all add: sample_entries_def sample_message_def entryRenderKey_def)
  with unread_divider_place [of sample_entries 1 utc] show ?thesis by (simp add: sample_ids)
qed

subsection \<open>Keys and older history\<close>

fun isRow :: "timeline_item \<Rightarrow> bool" where
  "isRow (DayDivider key t) = False"
| "isRow (UnreadDivider key) = False"
| "isRow _ = True"

definition rowKeys :: "timeline_item list \<Rightarrow> string list" where
  "rowKeys items = map getTimelineItemKey (filter isRow items)"

lemma rowKeys_bare: "rowKeys (map bare items) = rowKeys items"
proof -
  have "isRow (bare item) = isRow item" "getTimelineItemKey (bare item) = getTimelineItemKey item" for item
    by (cases item; simp)+
  then show ?thesis by (simp add: rowKeys_def filter_map comp_def)
qed

lemma rowKeys_items: "rowKeys (buildTimelineItems lt entries unread) = map (\<lambda>(s, e). entryRenderKey (entries ! e)) (rowSegments lt entries unread)"
proof -
  have "rowKeys (concat (map (segItems days unread entries) segs)) = map (\<lambda>(s, e). entryRenderKey (entries ! e)) segs"
    if "list_all (\<lambda>(s, e). s \<le> e) segs" for days segs
    using that by (induction segs) (auto simp: rowKeys_def dividers_def segRow_def split: option.splits)
  moreover have "list_all (\<lambda>(s, e). s \<le> e) (rowSegments lt entries unread)"
    by (auto simp: list_all_iff dest!: rowSegments_bounds)
  ultimately show ?thesis
    using rowKeys_bare [of "buildTimelineItems lt entries unread"] unfolding bare_items by simp
qed

lemma groupStart_shift:
  assumes "\<And>i. 0 < i \<Longrightarrow> i < length entries \<Longrightarrow> (length older + i \<in> set B') = (i \<in> set B)" and "k < length entries"
  shows "groupStart (older @ entries) B' newest payload (length older + k) =
     (if groupStart entries B newest payload k = 0
      then groupStart (older @ entries) B' newest payload (length older)
      else length older + groupStart entries B newest payload k)"
  using assms(2)
proof (induction k)
  case (Suc k)
  have "(older @ entries) ! (length older + Suc k - 1) = entries ! (Suc k - 1)" by (simp add: nth_append)
  then have "stopsGroup (older @ entries) B' newest payload (length older + Suc k) = stopsGroup entries B newest payload (Suc k)"
    unfolding stopsGroup_def Let_def using assms(1) [of "Suc k"] Suc.prems by (simp split: option.split)
  then show ?case using Suc by simp
qed simp

lemma segments_shift:
  assumes "\<And>i. 0 < i \<Longrightarrow> i < length entries \<Longrightarrow> (length older + i \<in> set B') = (i \<in> set B)" and "n \<le> length entries"
  shows "\<exists>earlier. map (\<lambda>(s, e). entryRenderKey ((older @ entries) ! e)) (segmentsBelow (older @ entries) B' (length older + n)) =
    earlier @ map (\<lambda>(s, e). entryRenderKey (entries ! e)) (segmentsBelow entries B n)"
  using assms(2)
proof (induction n rule: less_induct)
  case (less n)
  show ?case
  proof (cases n)
    case (Suc e)
    let ?s = "segStart entries B e" and ?s' = "segStart (older @ entries) B' (length older + e)"
    have e: "e < length entries" "?s \<le> e" "(older @ entries) ! (length older + e) = entries ! e"
      using Suc less.prems segStart_le [of entries B e] by (simp_all add: nth_append)
    have "?s \<noteq> 0 \<Longrightarrow> ?s' = length older + ?s"
      using groupStart_shift [OF assms(1) e(1)] e(3) by (auto simp: segStart_def split: option.splits)
    then show ?thesis
      using less.IH [of ?s] e Suc by (cases "?s = 0") auto
  qed simp
qed

lemma findIndex_append_None: "findIndex P xs = None \<Longrightarrow> findIndex P (xs @ ys) = map_option (\<lambda>i. length xs + i) (findIndex P ys)"
  by (induction xs) (cases "findIndex P ys"; auto split: if_splits)+

lemma findIndex_append_Some: "findIndex P xs = Some i \<Longrightarrow> findIndex P (xs @ ys) = Some i"
  by (induction xs arbitrary: i) (auto split: if_splits)

lemma barriers_shift:
  assumes "distinct (map (tm_id \<circ> en_message) (older @ entries))" and "0 < i" and "i < length entries"
  shows "(length older + i \<in> set (membershipBarrierIndexes lt (older @ entries) unread)) = (i \<in> set (membershipBarrierIndexes lt entries unread))"
proof -
  let ?P = "\<lambda>entry. Some (tm_id (en_message entry)) = unread"
  have "newDay lt (older @ entries) (length older + i) = newDay lt entries i"
    using assms(2) by (auto simp: newDay_def nth_append)
  moreover have "findIndex ?P (older @ entries) = Some (length older + i) \<longleftrightarrow> findIndex ?P entries = Some i"
  proof (cases "findIndex ?P older")
    case None
    then show ?thesis by (auto simp: findIndex_append_None)
  next
    case (Some j)
    then have "j < length older" "?P (older ! j)" using findIndex_Some [OF Some] by auto
    moreover have "\<not> list_ex ?P entries"
      using assms(1) calculation by (auto simp: list_ex_iff disjoint_iff dest: nth_mem)
    ultimately show ?thesis using findIndex_append_Some [OF Some] by (auto simp: findIndex_None [symmetric])
  qed
  ultimately show ?thesis using assms(2,3) by (auto simp: barrier_iff unreadAt_def)
qed

lemma sections_keys:
  "sections_inv lt es vs \<Longrightarrow>
   map fst vs = map (\<lambda>i. dayKey lt (createdAt (es ! i))) (filter (newDay lt es) [0..<length es])"
proof (induction vs arbitrary: es rule: rev_induct)
  case (snoc v us)
  obtain k h xs where v: "v = (k, h, xs)" by (cases v)
  define es0 where "es0 = concat (map (snd \<circ> snd) us)"
  have es: "es = es0 @ xs" and ok: "section_ok lt (k, h, xs)" and inv: "sections_inv lt es0 us"
    and other: "us \<noteq> [] \<Longrightarrow> otherDay lt (last us) (k, h, xs)"
    using snoc.prems by (auto simp: sections_inv_def v es0_def successively_append_iff)
  have xs: "xs \<noteq> []" "h = Some (createdAt (hd xs))" "k = dayKey lt (createdAt (hd xs))"
    "\<And>x. x \<in> set xs \<Longrightarrow> isSameDay lt (createdAt (hd xs)) (createdAt x)"
    using ok by (auto simp: section_ok_def list_all_iff)
  have nth: "es ! (length es0 + j) = xs ! j" for j by (simp add: es nth_append)
  have "newDay lt es (length es0)"
  proof (cases "es0 = []")
    case False
    obtain us' key t ys where "us = us' @ [(key, Some t, ys)]" "isSameDay lt t (createdAt (last es0))"
      by (rule last_section [OF inv False])
    moreover have "last es0 = es ! (length es0 - 1)" using False by (simp add: es nth_append last_conv_nth)
    ultimately show ?thesis
      using other xs(1,2) nth [of 0] isSameDay_trans [of lt t "createdAt (last es0)" "createdAt (hd xs)"]
      by (auto simp: newDay_def otherDay_def hd_conv_nth)
  qed (simp add: newDay_def)
  moreover have "\<not> newDay lt es i" if i: "length es0 < i" "i < length es" for i
  proof -
    obtain j where j: "i = length es0 + Suc j" using i(1) less_imp_Suc_add by auto
    then have mem: "xs ! j \<in> set xs" "xs ! Suc j \<in> set xs" using i by (auto simp: es)
    have "isSameDay lt (createdAt (xs ! j)) (createdAt (xs ! Suc j))"
      by (rule isSameDay_trans [OF isSameDay_sym [THEN iffD1, OF xs(4) [OF mem(1)]] xs(4) [OF mem(2)]])
    then show ?thesis using j nth [of j] nth [of "Suc j"] by (simp add: newDay_def)
  qed
  ultimately have "filter (newDay lt es) [length es0..<length es] = [length es0]"
    using xs(1) by (subst upt_conv_Cons) (auto simp: es filter_empty_conv)
  moreover have "filter (newDay lt es) [0..<length es0] = filter (newDay lt es0) [0..<length es0]"
    by (rule filter_cong) (auto simp: newDay_def es nth_append)
  moreover have "[0..<length es] = [0..<length es0] @ [length es0..<length es]" 
    unfolding es length_append by (rule upt_add_eq_append) simp
  ultimately have "filter (newDay lt es) [0..<length es] = filter (newDay lt es0) [0..<length es0] @ [length es0]"
    by (simp only: filter_append)
  then show ?case
    using snoc.IH [OF inv] nth [of 0] xs(1,3) by (auto simp: v es nth_append hd_conv_nth)
qed (simp add: sections_inv_def)

lemma section_keys_items:
  "map dg_key (buildTimelineDayGroups (buildTimelineItems lt entries unread)) =
     map (\<lambda>i. dayKey lt (createdAt (entries ! i))) (filter (newDay lt entries) [0..<length entries])"
proof -
  let ?groups = "buildTimelineDayGroups (buildTimelineItems lt entries unread)"
  have "map dg_key ?groups = map fst (map view ?groups)" by (simp add: view_def)
  then show ?thesis using sections_keys [OF items_sections_inv [of lt entries unread]] by (rule trans)
qed

lemma last_day_key:
  assumes "midnight_of_day lt"
  shows "j < length es \<Longrightarrow> \<exists>pre. map (\<lambda>i. dayKey lt (createdAt (es ! i))) (filter (newDay lt es) [0..<Suc j]) =
    pre @ [dayKey lt (createdAt (es ! j))]"
proof (induction j)
  case 0
  then show ?case by (simp add: newDay_def)
next
  case (Suc j)
  show ?case
  proof (cases "newDay lt es (Suc j)")
    case False
    then have key: "dayKey lt (createdAt (es ! j)) = dayKey lt (createdAt (es ! Suc j))"
      using startOfLocalDay_same [OF assms] by (simp add: newDay_def dayKey_def)
    have none: "filter (newDay lt es) [0..<Suc (Suc j)] = filter (newDay lt es) [0..<Suc j]" using False by simp
    show ?thesis using Suc.IH Suc.prems unfolding none key by simp
  qed simp
qed

lemma section_keys_prepend:
  assumes "midnight_of_day lt"
  shows "\<exists>earlier. map (\<lambda>i. dayKey lt (createdAt ((older @ entries) ! i))) (filter (newDay lt (older @ entries)) [0..<length (older @ entries)]) =
    earlier @ map (\<lambda>i. dayKey lt (createdAt (entries ! i))) (filter (newDay lt entries) [0..<length entries])"
proof (cases "entries = []")
  case False
  let ?es = "older @ entries" and ?k = "length older"
  let ?K = "\<lambda>es i. dayKey lt (createdAt (es ! i))"
  obtain pre where pre: "map (?K ?es) (filter (newDay lt ?es) [0..<Suc ?k]) = pre @ [?K ?es ?k]"
    using last_day_key [OF assms, of ?k ?es] False by auto
  have split: "[0..<length ?es] = [0..<Suc ?k] @ map (\<lambda>i. ?k + i) [1..<length entries]"
  proof -
    have shifted: "map (\<lambda>i. ?k + i) [1..<length entries] = [Suc ?k..<length ?es]" by (rule nth_equalityI) auto
    have len: "length ?es = Suc ?k + (length entries - 1)" using False by (cases entries) simp_all
    show ?thesis unfolding shifted unfolding len by (rule upt_add_eq_append) simp
  qed
  have shifted: "map (?K ?es) (filter (newDay lt ?es) (map (\<lambda>i. ?k + i) [1..<length entries])) =
      map (?K entries) (filter (newDay lt entries) [1..<length entries])"
    unfolding filter_map map_map
    by (intro map_cong filter_cong) (auto simp: newDay_def nth_append)
  have "[0..<length entries] = 0 # [1..<length entries]" using False by (simp add: upt_conv_Cons)
  then have first: "map (?K entries) (filter (newDay lt entries) [0..<length entries]) =
      [?K ?es ?k] @ map (?K entries) (filter (newDay lt entries) [1..<length entries])"
    by (simp add: newDay_def nth_append)
  have "map (?K ?es) (filter (newDay lt ?es) [0..<length ?es]) =
      pre @ map (?K entries) (filter (newDay lt entries) [0..<length entries])"
    by (simp only: split filter_append map_append pre shifted first append_assoc)
  then show ?thesis by blast
qed simp

text \<open>
  Older history that arrives above the loaded entries changes no key of what is shown: the keys of
  the rows, with membership groups among them, and the keys of the day sections are those of before
  with the older ones in front. The view thus keeps every row and section it has mounted.
\<close>

theorem prepending_keeps_timeline_keys:
  assumes "distinct (map (tm_id \<circ> en_message) (older @ entries))" and "midnight_of_day lt"
  shows "\<exists>earlierRows earlierDays.
    rowKeys (buildTimelineItems lt (older @ entries) unread) = earlierRows @ rowKeys (buildTimelineItems lt entries unread) \<and>
    map dg_key (buildTimelineDayGroups (buildTimelineItems lt (older @ entries) unread)) =
      earlierDays @ map dg_key (buildTimelineDayGroups (buildTimelineItems lt entries unread))"
proof -
  have "\<exists>earlierRows. rowKeys (buildTimelineItems lt (older @ entries) unread) =
      earlierRows @ rowKeys (buildTimelineItems lt entries unread)"
    unfolding rowKeys_items rowSegments_def length_append
    by (rule segments_shift) (simp_all add: barriers_shift [OF assms(1)])
  then show ?thesis
    using section_keys_prepend [OF assms(2), of older entries] unfolding section_keys_items by blast
qed

theorem prepending_keeps_timeline_keys_witness:
  "\<exists>earlierRows earlierDays.
    rowKeys (buildTimelineItems utc ([hd sample_entries] @ tl sample_entries) None) =
      earlierRows @ rowKeys (buildTimelineItems utc (tl sample_entries) None) \<and>
    map dg_key (buildTimelineDayGroups (buildTimelineItems utc ([hd sample_entries] @ tl sample_entries) None)) =
      earlierDays @ map dg_key (buildTimelineDayGroups (buildTimelineItems utc (tl sample_entries) None))"
proof (rule prepending_keeps_timeline_keys)
  have "[hd sample_entries] @ tl sample_entries = sample_entries" by (simp add: sample_entries_def)
  then show "distinct (map (tm_id \<circ> en_message) ([hd sample_entries] @ tl sample_entries))" by (simp only: sample_ids) simp
qed (rule midnight_utc)

subsection \<open>Continuation flags\<close>

fun continues :: "timeline_item \<Rightarrow> timeline_item \<Rightarrow> bool" where
  "continues (MessageRow _ previous _ _) (MessageRow _ entry _ _) =
     (hasSameMessageAuthor (tm_pubkey (en_message previous)) (tm_pubkey (en_message entry)) \<and>
      0 \<le> createdAt entry - createdAt previous \<and> createdAt entry - createdAt previous \<le> 600)"
| "continues _ _ = False"

fun isContinuation :: "timeline_item \<Rightarrow> bool" where
  "isContinuation (MessageRow _ _ c _) = c"
| "isContinuation _ = False"

fun isFollowedByContinuation :: "timeline_item \<Rightarrow> bool" where
  "isFollowedByContinuation (MessageRow _ _ _ f) = f"
| "isFollowedByContinuation _ = False"

definition linked :: "timeline_item \<Rightarrow> timeline_item \<Rightarrow> bool" where
  "linked x y \<longleftrightarrow> isContinuation y = continues x y \<and> isFollowedByContinuation x = continues x y"

definition flags_inv :: "walk_state \<Rightarrow> bool" where
  "flags_inv w \<longleftrightarrow>
     successively linked (wk_items w) \<and>
     \<not> list_ex isContinuation (take 1 (wk_items w)) \<and>
     (case wk_previousGroupEntry w of
        None \<Rightarrow> wk_previousMessageItemIndex w = None \<and>
          (wk_items w = [] \<or> (\<exists>its x. wk_items w = its @ [x] \<and> (\<forall>k e c f. x \<noteq> MessageRow k e c f)))
      | Some previous \<Rightarrow>
          \<exists>its key c. wk_items w = its @ [MessageRow key previous c False] \<and> wk_previousMessageItemIndex w = Some (length its))"

lemma linked_other:
  assumes "\<forall>k e c f. y \<noteq> MessageRow k e c f"
  shows "linked x y \<longleftrightarrow> \<not> isFollowedByContinuation x"
proof -
  have "\<not> continues x y" "\<not> isContinuation y" using assms by (cases x; cases y; simp)+
  then show ?thesis by (simp add: linked_def)
qed

lemma flags_last: "flags_inv w \<Longrightarrow> wk_items w \<noteq> [] \<Longrightarrow> \<not> isFollowedByContinuation (last (wk_items w))"
proof -
  assume "flags_inv w" "wk_items w \<noteq> []"
  moreover have "(\<forall>k e c f. x \<noteq> MessageRow k e c f) \<Longrightarrow> \<not> isFollowedByContinuation x" for x by (cases x) auto
  ultimately show ?thesis by (auto simp: flags_inv_def split: option.splits)
qed

lemma flags_pushReset:
  assumes "flags_inv w" and "\<forall>k e c f. x \<noteq> MessageRow k e c f"
  shows "flags_inv (pushReset x w)"
proof -
  have "\<not> isContinuation x" using assms(2) by (cases x) auto
  then show ?thesis
    using assms flags_last [OF assms(1)]
    by (cases "wk_items w = []") (auto simp: flags_inv_def pushReset_def successively_append_iff linked_other split: option.splits)
qed

lemma flags_pushDividers: "flags_inv w \<Longrightarrow> flags_inv (pushDividers days unread i entry w)"
  by (auto simp: pushDividers_def Let_def intro!: flags_pushReset split: option.splits)

lemma flags_pushMessage:
  assumes "flags_inv w"
  shows "flags_inv (pushMessage entry w)"
proof (cases "wk_previousGroupEntry w")
  case None
  have "\<not> continues x (MessageRow k entry c f)" "\<not> isFollowedByContinuation x" if "\<forall>k e c f. x \<noteq> MessageRow k e c f" for x k c f
    using that by (cases x; simp)+
  then show ?thesis
    using None assms
    by (auto simp: flags_inv_def pushMessage_def Let_def successively_append_iff linked_def)
next
  case (Some previous)
  then obtain its key c where w: "wk_items w = its @ [MessageRow key previous c False]"
    "wk_previousMessageItemIndex w = Some (length its)" "successively linked (wk_items w)"
    "\<not> list_ex isContinuation (take 1 (wk_items w))"
    using assms by (auto simp: flags_inv_def)
  let ?cont = "continues (MessageRow key previous c False) (MessageRow (entryRenderKey entry) entry False False)"
  have push: "pushMessage entry w =
      \<lparr>wk_items = (its @ [MessageRow key previous c ?cont]) @ [MessageRow (entryRenderKey entry) entry ?cont False],
       wk_previousGroupEntry = Some entry, wk_previousMessageItemIndex = Some (length (its @ [MessageRow key previous c ?cont]))\<rparr>"
    using w(1,2) Some
    by (auto simp: pushMessage_def Let_def isWithinGroupingWindow_def MESSAGE_GROUPING_WINDOW_SECONDS_def)
  have same: "linked x (MessageRow key previous c f) = linked x (MessageRow key previous c False)" for x f
    by (cases x) (auto simp: linked_def)
  have before: "successively linked (its @ [MessageRow key previous c f])" for f
    using w(1,3) by (auto simp: successively_append_iff same [of _ f])
  have link: "linked (MessageRow key previous c ?cont) (MessageRow (entryRenderKey entry) entry ?cont False)"
    by (simp add: linked_def)
  have "successively linked ((its @ [MessageRow key previous c ?cont]) @ [MessageRow (entryRenderKey entry) entry ?cont False])"
    by (subst successively_append_iff) (use before [of ?cont] link in simp)
  moreover have "\<not> list_ex isContinuation
      (take 1 ((its @ [MessageRow key previous c ?cont]) @ [MessageRow (entryRenderKey entry) entry ?cont False]))"
    using w(1,4) by (cases its) auto
  ultimately show ?thesis unfolding push flags_inv_def by (simp del: continues.simps)
qed

lemma flags_walk: "flags_inv w \<Longrightarrow> flags_inv (walk entries days groups unread i w)"
proof (induction entries days groups unread i w rule: walk.induct)
  case (1 entries days groups unread i w)
  have w: "flags_inv (pushDividers days unread i (entries ! i) w)" by (rule flags_pushDividers [OF "1.prems"])
  show ?case
  proof (cases "i < length entries")
    case True
    note IH = "1.IH" [OF True refl refl, simplified]
    show ?thesis
      by (subst walk.simps)
        (use True in \<open>auto simp: Let_def intro!: IH flags_pushReset flags_pushMessage w split: option.splits\<close>)
  next
    case False
    then show ?thesis using "1.prems" by (subst walk.simps) simp
  qed
qed

text \<open>
  The continuation flags of the timeline agree: of two neighbouring rows the lower one is shown as a
  continuation, and the upper one as followed by one, exactly when both are messages of one author at
  most ten minutes apart; the first row is no continuation and the last one is not followed.
\<close>

theorem continuation_flags_agree:
  "successively linked (buildTimelineItems lt entries unread) \<and>
   \<not> list_ex isContinuation (take 1 (buildTimelineItems lt entries unread)) \<and>
   \<not> list_ex isFollowedByContinuation (drop (length (buildTimelineItems lt entries unread) - 1) (buildTimelineItems lt entries unread))"
proof -
  let ?w = "walk entries (dayBoundariesByStartIndex lt entries)
       (buildMembershipGroups entries (membershipBarrierIndexes lt entries unread)) unread 0
       \<lparr>wk_items = [], wk_previousGroupEntry = None, wk_previousMessageItemIndex = None\<rparr>"
  have inv: "flags_inv ?w" by (rule flags_walk) (simp add: flags_inv_def)
  then have "\<not> list_ex isFollowedByContinuation (drop (length (wk_items ?w) - 1) (wk_items ?w))"
    using flags_last [OF inv] by (cases "wk_items ?w" rule: rev_cases) auto
  then show ?thesis using inv unfolding buildTimelineItems_def flags_inv_def by blast
qed

end
