(* ===== verification/TimelineVirtual.thy ===== *)
theory TimelineVirtual
  imports TimelineKeys
begin

text \<open>
  The row stream of the virtualised list (\<open>features/messages/lib/virtualizedTimelineItems.ts\<close>). The list
  keeps the scroll position while older history is prepended only if the keys it had are an exact
  suffix of the new ones; \<open>prepending_is_exact_suffix\<close> shows that they are unless leading content was shown
  before, because a day divider is emitted only at a boundary that older history cannot move. The leading
  content is an abstract value; the estimate of row heights is not modelled.
\<close>

datatype 'c virtual_item =
    LeadingContent 'c
  | BottomSpacer
  | VirtualDay string int
  | VirtualRow timeline_item

fun virtualizedItemKey :: "'c virtual_item \<Rightarrow> string" where
  "virtualizedItemKey BottomSpacer = ''bottom-spacer''"
| "virtualizedItemKey (LeadingContent _) = ''leading-content''"
| "virtualizedItemKey (VirtualDay key _) = key"
| "virtualizedItemKey (VirtualRow item) = getTimelineItemKey item"

definition virtualGroup :: "bool \<Rightarrow> nat \<Rightarrow> timeline_day_group \<Rightarrow> 'c virtual_item list" where
  "virtualGroup historyExhausted groupIndex dayGroup =
     (let boundaryProven = (groupIndex > 0 \<or> historyExhausted);
          divider = (case dg_headingTimestamp dayGroup of
              Some t \<Rightarrow> if boundaryProven then [VirtualDay (''day-divider:'' @ dg_key dayGroup) t] else []
            | None \<Rightarrow> [])
      in divider @ map VirtualRow (dg_items dayGroup))"

definition buildVirtualizedItems :: "timeline_day_group list \<Rightarrow> 'c option \<Rightarrow> bool \<Rightarrow> 'c virtual_item list" where
  "buildVirtualizedItems dayGroups leadingContent historyExhausted =
     (let timelineItems = concat (map (\<lambda>(groupIndex, dayGroup). virtualGroup historyExhausted groupIndex dayGroup)
            (enumerate 0 dayGroups))
      in (case leadingContent of Some content \<Rightarrow> [LeadingContent content] | None \<Rightarrow> []) @ timelineItems @ [BottomSpacer])"

definition didPrependVirtualizedTimeline :: "string list \<Rightarrow> string list \<Rightarrow> bool" where
  "didPrependVirtualizedTimeline previousKeys keys =
     (let prependedCount = int (length keys) - int (length previousKeys) in
      prependedCount > 0 \<and>
      list_all (\<lambda>(index, key). jsat keys (index + nat prependedCount) = Some key) (enumerate 0 previousKeys))"

definition VIRTUALIZED_AT_BOTTOM_THRESHOLD_PX :: int where "VIRTUALIZED_AT_BOTTOM_THRESHOLD_PX = 32"

definition isVirtualizedAtBottom :: "int \<Rightarrow> int \<Rightarrow> int \<Rightarrow> bool" where
  "isVirtualizedAtBottom scrollSize viewportSize offset \<longleftrightarrow>
     scrollSize - viewportSize - offset \<le> VIRTUALIZED_AT_BOTTOM_THRESHOLD_PX"

subsection \<open>Keys of the stream\<close>

fun streamKey :: "timeline_item \<Rightarrow> string" where
  "streamKey (DayDivider key t) = ''day-divider:'' @ key"
| "streamKey item = getTimelineItemKey item"

lemma streamKey_bare [simp]: "streamKey (bare item) = streamKey item"
  by (cases item) auto

lemma didPrepend_suffix: "didPrependVirtualizedTimeline keys (front @ keys) \<longleftrightarrow> front \<noteq> []"
proof -
  have "list_all (\<lambda>(index, key). jsat (front @ keys) (index + length front) = Some key) (enumerate 0 keys)"
    by (auto simp: list_all_iff in_set_enumerate_eq jsat_def nth_append)
  then show ?thesis by (simp add: didPrependVirtualizedTimeline_def)
qed

text \<open>The stream of the groups in terms of the items: dividers are kept except a first unproven one.\<close>

definition groupKeys :: "timeline_day_group \<Rightarrow> string list" where
  "groupKeys g = (if dg_headingTimestamp g = None then [] else [''day-divider:'' @ dg_key g]) @ map getTimelineItemKey (dg_items g)"

lemma isDay_streamKey: "(\<forall>k t. item \<noteq> DayDivider k t) \<Longrightarrow> streamKey item = getTimelineItemKey item"
  by (cases item) auto

lemma groupKeys_fold:
  assumes "gs \<noteq> []"
  shows "concat (map groupKeys (fold addToDayGroups items gs)) = concat (map groupKeys gs) @ map streamKey items"
  using assms
proof (induction items arbitrary: gs)
  case (Cons item items)
  have "addToDayGroups item gs \<noteq> []" using Cons.prems by (cases item) (auto simp: Let_def)
  moreover have "concat (map groupKeys (addToDayGroups item gs)) = concat (map groupKeys gs) @ [streamKey item]"
    using Cons.prems by (cases gs rule: rev_cases; cases item) (auto simp: groupKeys_def Let_def)
  ultimately show ?case using Cons.IH by simp
qed simp

lemma groups_of_items:
  assumes "items = DayDivider key t # rest"
  shows "concat (map groupKeys (buildTimelineDayGroups items)) = map streamKey items"
  using groupKeys_fold [of "[\<lparr>dg_key = key, dg_headingTimestamp = Some t, dg_items = []\<rparr>]" rest] assms
  by (simp add: buildTimelineDayGroups_def groupKeys_def)

lemma virtual_proven:
  "0 < i \<Longrightarrow> map virtualizedItemKey (virtualGroup b i g :: 'c virtual_item list) = groupKeys g"
  by (simp add: virtualGroup_def groupKeys_def comp_def split: option.splits)

lemma virtual_rest:
  "0 < i \<Longrightarrow> concat (map (\<lambda>(j, g). map virtualizedItemKey (virtualGroup b j g :: 'c virtual_item list)) (enumerate i gs)) =
     concat (map groupKeys gs)"
  by (induction gs arbitrary: i) (simp_all add: virtual_proven)

lemma virtual_keys:
  assumes "items = [] \<or> (\<exists>key t rest. items = DayDivider key t # rest)"
  shows "map virtualizedItemKey (buildVirtualizedItems (buildTimelineDayGroups items) (None :: 'c option) b) =
    map streamKey (if b then items else tl items) @ [''bottom-spacer'']"
proof (cases items)
  case Nil
  then show ?thesis by (simp add: buildVirtualizedItems_def buildTimelineDayGroups_def)
next
  case (Cons item rest)
  then obtain key t where item: "items = DayDivider key t # rest" using assms by auto
  have "fold addToDayGroups xs (g # gs) = hd (fold addToDayGroups xs (g # gs)) # tl (fold addToDayGroups xs (g # gs)) \<and>
      dg_key (hd (fold addToDayGroups xs (g # gs))) = dg_key g \<and>
      dg_headingTimestamp (hd (fold addToDayGroups xs (g # gs))) = dg_headingTimestamp g" for xs g gs
  proof (induction xs arbitrary: g gs)
    case (Cons x xs)
    obtain g' gs' where "addToDayGroups x (g # gs) = g' # gs'" "dg_key g' = dg_key g" "dg_headingTimestamp g' = dg_headingTimestamp g"
      by (cases x; cases gs) (auto simp: Let_def)
    then show ?case using Cons.IH [of g' gs'] by simp
  qed simp
  from this [of rest "\<lparr>dg_key = key, dg_headingTimestamp = Some t, dg_items = []\<rparr>" "[]"]
  obtain g gs where groups: "buildTimelineDayGroups items = g # gs" and g: "dg_key g = key" "dg_headingTimestamp g = Some t"
    unfolding item buildTimelineDayGroups_def by (auto dest: sym)
  have items: "map streamKey items = groupKeys g @ concat (map groupKeys gs)"
    using groups_of_items [OF item] by (simp add: groups)
  have first: "map virtualizedItemKey (virtualGroup b 0 g :: 'c virtual_item list) = (if b then groupKeys g else tl (groupKeys g))"
    by (simp add: virtualGroup_def groupKeys_def g comp_def)
  have "groupKeys g \<noteq> []" by (simp add: groupKeys_def g)
  moreover have "map virtualizedItemKey (buildVirtualizedItems (g # gs) (None :: 'c option) b) =
      (if b then groupKeys g else tl (groupKeys g)) @ concat (map groupKeys gs) @ [''bottom-spacer'']"
    using virtual_rest [of 1 b gs, where 'c = 'c] first
    by (simp add: buildVirtualizedItems_def map_concat comp_def case_prod_unfold)
  ultimately show ?thesis by (simp add: groups items map_tl)
qed

subsection \<open>Older history\<close>

definition shift :: "nat \<Rightarrow> nat \<times> nat \<Rightarrow> nat \<times> nat" where
  "shift k = (\<lambda>(s, e). (k + s, k + e))"

lemma segments_prepend:
  assumes "\<And>i. 0 < i \<Longrightarrow> i < length entries \<Longrightarrow> (length older + i \<in> set B') = (i \<in> set B)"
    and "0 < n" and "n \<le> length entries"
  shows "\<exists>e rest earlier s'. segmentsBelow entries B n = (0, e) # rest \<and>
    segmentsBelow (older @ entries) B' (length older + n) = earlier @ (s', length older + e) # map (shift (length older)) rest"
  using assms(2,3)
proof (induction n rule: less_induct)
  case (less n)
  obtain e where n: "n = Suc e" using less.prems(1) by (cases n) auto
  let ?s = "segStart entries B e" and ?s' = "segStart (older @ entries) B' (length older + e)"
  have e: "e < length entries" "?s \<le> e" "(older @ entries) ! (length older + e) = entries ! e"
    using n less.prems segStart_le [of entries B e] by (simp_all add: nth_append)
  have shifted: "?s' = length older + ?s" if "?s \<noteq> 0"
    using groupStart_shift [OF assms(1) e(1)] e(3) that by (auto simp: segStart_def split: option.splits)
  show ?case
  proof (cases "?s = 0")
    case True
    then show ?thesis using n by simp
  next
    case False
    then obtain f rest earlier s' where "segmentsBelow entries B ?s = (0, f) # rest"
      "segmentsBelow (older @ entries) B' (length older + ?s) = earlier @ (s', length older + f) # map (shift (length older)) rest"
      using less.IH [of ?s] n e by auto
    then show ?thesis using n shifted [OF False] by (simp add: shift_def)
  qed
qed

lemma segItems_shift:
  assumes "0 < s" and "s \<le> e" and "e < length entries"
  shows "map streamKey (segItems (dayBoundariesByStartIndex lt (older @ entries)) unread (older @ entries) (shift (length older) (s, e))) =
    map streamKey (segItems (dayBoundariesByStartIndex lt entries) unread entries (s, e))"
proof -
  let ?es = "older @ entries" and ?k = "length older"
  have nth: "?es ! (?k + i) = entries ! i" for i by (simp add: nth_append)
  have new: "newDay lt ?es (?k + s) = newDay lt entries s"
    using assms(1) nth [of "s - 1"] nth [of s] by (auto simp: newDay_def nth_append)
  have day: "map streamKey (case jget (dayBoundariesByStartIndex lt es) i of
        Some b \<Rightarrow> [DayDivider (db_key b) (createdAt (es ! i))] | None \<Rightarrow> []) =
      (if newDay lt es i then [''day-divider:'' @ dayKey lt (createdAt (es ! i))] else [])" if "i < length es" for es i
    using that day_here [of lt es i] jget_days [of lt es i] by (auto split: option.splits)
  have "slice ?es (?k + s) (Suc (?k + e)) = slice entries s (Suc e)"
    using assms by (simp add: slice_def)
  then have row: "streamKey (segRow ?es (shift ?k (s, e))) = streamKey (segRow entries (s, e))"
    by (simp add: segRow_def shift_def nth)
  have "map streamKey (dividers (dayBoundariesByStartIndex lt ?es) unread ?es (?k + s)) =
      map streamKey (dividers (dayBoundariesByStartIndex lt entries) unread entries s)"
    using day [of "?k + s" ?es] day [of s entries] assms new nth
    by (simp add: dividers_def shouldRenderUnreadDivider_def)
  then show ?thesis using row by (simp add: shift_def)
qed

lemma items_first:
  assumes "rowSegments lt entries unread = (0, e) # rest" and "entries \<noteq> []"
  shows "\<exists>key t. map bare (buildTimelineItems lt entries unread) =
    DayDivider key t # segRow entries (0, e) # concat (map (segItems (dayBoundariesByStartIndex lt entries) unread entries) rest)"
proof -
  obtain b where "jget (dayBoundariesByStartIndex lt entries) 0 = Some b"
    using day_here [of lt entries 0] assms(2) by (cases "jget (dayBoundariesByStartIndex lt entries) 0") (auto simp: newDay_def)
  then show ?thesis by (simp add: bare_items assms(1) dividers_def shouldRenderUnreadDivider_def)
qed

lemma items_start: "buildTimelineItems lt entries unread = [] \<or> (\<exists>key t rest. buildTimelineItems lt entries unread = DayDivider key t # rest)"
proof (cases "entries = []")
  case True
  then show ?thesis using bare_items [of lt entries unread] by (simp add: rowSegments_def)
next
  case False
  then obtain e rest where "rowSegments lt entries unread = (0, e) # rest"
    using chain_segments [of entries "membershipBarrierIndexes lt entries unread" "length entries"]
    by (cases "rowSegments lt entries unread") (auto simp: rowSegments_def)
  from items_first [OF this False] obtain key t l where "map bare (buildTimelineItems lt entries unread) = DayDivider key t # l" by auto
  moreover have "bare x = DayDivider key t \<Longrightarrow> x = DayDivider key t" for x by (cases x) auto
  ultimately show ?thesis by (cases "buildTimelineItems lt entries unread") auto
qed

lemma stream_prepend:
  assumes "distinct (map (tm_id \<circ> en_message) (older @ entries))" and "entries \<noteq> []"
  shows "\<exists>front. front \<noteq> [] \<and>
    map streamKey (buildTimelineItems lt (older @ entries) unread) = front @ map streamKey (tl (buildTimelineItems lt entries unread))"
proof -
  let ?es = "older @ entries" and ?k = "length older"
  let ?B = "membershipBarrierIndexes lt entries unread" and ?B' = "membershipBarrierIndexes lt ?es unread"
  let ?days = "dayBoundariesByStartIndex lt entries" and ?days' = "dayBoundariesByStartIndex lt ?es"
  have barriers: "(?k + i \<in> set ?B') = (i \<in> set ?B)" if "0 < i" "i < length entries" for i
    by (rule barriers_shift [OF assms(1) that])
  have "\<exists>e rest earlier s'. rowSegments lt entries unread = (0, e) # rest \<and>
      rowSegments lt ?es unread = earlier @ (s', ?k + e) # map (shift ?k) rest"
    unfolding rowSegments_def length_append by (rule segments_prepend [OF barriers]) (use assms(2) in auto)
  then obtain e rest earlier s' where segs: "rowSegments lt entries unread = (0, e) # rest"
    and segs': "rowSegments lt ?es unread = earlier @ (s', ?k + e) # map (shift ?k) rest"
    by auto
  let ?front = "map streamKey (concat (map (segItems ?days' unread ?es) earlier) @ dividers ?days' unread ?es s')"
  have "chain (Suc e) rest (length entries)"
    using chain_segments [of entries ?B "length entries"] segs by (simp add: rowSegments_def)
  then have later: "0 < s \<and> s \<le> f \<and> f < length entries" if "(s, f) \<in> set rest" for s f
    using that distinct_starts chain_less by fastforce
  have each: "map streamKey (segItems ?days' unread ?es (shift ?k seg)) = map streamKey (segItems ?days unread entries seg)"
    if "seg \<in> set rest" for seg
    using segItems_shift [of "fst seg" "snd seg" entries lt older unread] later [of "fst seg" "snd seg"] that
    by (simp del: map_append)
  have "map streamKey (concat (map (segItems ?days' unread ?es) (map (shift ?k) rest))) =
      map streamKey (concat (map (segItems ?days unread entries) rest))"
    unfolding map_concat map_map comp_def by (rule arg_cong [of _ _ concat], rule map_cong [OF refl], rule each)
  moreover have "streamKey (segRow ?es (s', ?k + e)) = streamKey (segRow entries (0, e))"
    using rowSegments_bounds [of s' "?k + e" lt ?es unread] segs' by (auto simp: segRow_def nth_append)
  moreover obtain key t where "map bare (buildTimelineItems lt entries unread) =
      DayDivider key t # segRow entries (0, e) # concat (map (segItems ?days unread entries) rest)"
    using items_first [OF segs assms(2)] by auto
  then have "map streamKey (map bare (tl (buildTimelineItems lt entries unread))) =
      streamKey (segRow entries (0, e)) # map streamKey (concat (map (segItems ?days unread entries) rest))"
    by (simp only: map_tl list.sel list.map)
  moreover have "map streamKey (map bare (buildTimelineItems lt ?es unread)) =
      ?front @ streamKey (segRow ?es (s', ?k + e)) # map streamKey (concat (map (segItems ?days' unread ?es) (map (shift ?k) rest)))"
    unfolding bare_items segs' by simp
  ultimately have "map streamKey (map bare (buildTimelineItems lt ?es unread)) =
      ?front @ map streamKey (map bare (tl (buildTimelineItems lt entries unread)))" by simp
  moreover have "?front \<noteq> []"
  proof (cases earlier)
    case Nil
    then have "s' = 0" using chain_segments [of ?es ?B' "length ?es"] segs' by (simp add: rowSegments_def)
    then show ?thesis using day_here [of lt ?es 0] assms(2) by (auto simp: dividers_def newDay_def split: option.splits)
  qed simp
  ultimately show ?thesis by (intro exI [of _ ?front]) (simp add: comp_def)
qed

subsection \<open>Leading content\<close>

definition leadKeys :: "'c option \<Rightarrow> string list" where
  "leadKeys lead = (if lead = None then [] else [''leading-content''])"

lemma virtual_lead:
  "map virtualizedItemKey (buildVirtualizedItems groups lead b) =
     leadKeys lead @ map virtualizedItemKey (buildVirtualizedItems groups (None :: 'c option) b)"
  for lead :: "'c option"
  by (simp add: buildVirtualizedItems_def leadKeys_def split: option.split)

lemma didPrepend_behind_lead:
  assumes "k \<notin> set front"
  shows "\<not> didPrependVirtualizedTimeline (k # keys) (k # front @ keys)"
proof (cases "front = []")
  case False
  have "jsat (k # front @ keys) (length front) = Some (last front)"
    using False by (cases front) (auto simp: jsat_def nth_append last_conv_nth)
  moreover have "last front \<noteq> k" using assms False last_in_set by metis
  ultimately show ?thesis using False by (auto simp: didPrependVirtualizedTimeline_def list_all_iff)
qed (simp add: didPrependVirtualizedTimeline_def)

text \<open>
  C17. What the list's test for a prepend answers when older history arrives, whether or not the history is
  exhausted now. Without leading content before, the keys of the row stream before are an exact suffix of
  those after, also when leading content arrives with the last page, and the test is true exactly when
  the stream grew. With leading content before and after, as in every direct message, the new rows enter
  behind it and the test is false however many they are (unless a row has the key of the leading content).
\<close>

theorem prepending_is_exact_suffix:
  assumes "distinct (map (tm_id \<circ> en_message) (older @ entries))"
    and "before = (\<lambda>lead. map virtualizedItemKey
      (buildVirtualizedItems (buildTimelineDayGroups (buildTimelineItems lt entries unread)) (lead :: 'c option) False))"
    and "after = (\<lambda>lead. map virtualizedItemKey
      (buildVirtualizedItems (buildTimelineDayGroups (buildTimelineItems lt (older @ entries) unread)) (lead :: 'c option) exhausted))"
  shows "\<exists>front. after None = front @ before None \<and> after (Some intro) = ''leading-content'' # front @ before None \<and>
    didPrependVirtualizedTimeline (before None) (after None) = (front \<noteq> []) \<and>
    didPrependVirtualizedTimeline (before None) (after (Some intro)) \<and>
    (''leading-content'' \<notin> set front \<longrightarrow> \<not> didPrependVirtualizedTimeline (before (Some intro)) (after (Some intro)))"
proof -
  have "\<exists>front. map streamKey (if exhausted then buildTimelineItems lt (older @ entries) unread
      else tl (buildTimelineItems lt (older @ entries) unread)) = front @ map streamKey (tl (buildTimelineItems lt entries unread))"
  proof (cases "entries = []")
    case True
    then have "buildTimelineItems lt entries unread = []" using bare_items [of lt entries unread] by (simp add: rowSegments_def)
    then show ?thesis by simp
  next
    case False
    from stream_prepend [OF assms(1) False, of lt unread] obtain front where front: "front \<noteq> []"
      "map streamKey (buildTimelineItems lt (older @ entries) unread) = front @ map streamKey (tl (buildTimelineItems lt entries unread))"
      by blast
    then show ?thesis by (cases exhausted) (auto simp: map_tl)
  qed
  then obtain front where none: "after None = front @ before None"
    unfolding assms(2,3) virtual_keys [OF items_start, where 'c = 'c] by auto
  have intro: "before (Some c) = ''leading-content'' # before None" "after (Some c) = ''leading-content'' # after None" for c
    unfolding assms(2,3) virtual_lead [of _ "Some c"] by (simp_all add: leadKeys_def)
  show ?thesis
    using none intro didPrepend_suffix [of "before None" front] didPrepend_suffix [of "before None" "''leading-content'' # front"]
      didPrepend_behind_lead [of "''leading-content''" front "before None"]
    by (intro exI [of _ front]) simp
qed

theorem prepending_is_exact_suffix_witness:
  "let before = map virtualizedItemKey (buildVirtualizedItems (buildTimelineDayGroups (buildTimelineItems utc (tl sample_entries) None)) (None :: unit option) False);
       after = map virtualizedItemKey (buildVirtualizedItems (buildTimelineDayGroups (buildTimelineItems utc ([hd sample_entries] @ tl sample_entries) None)) (Some ()) True)
   in didPrependVirtualizedTimeline before after \<and> (\<exists>front. after = ''leading-content'' # front @ before)"
proof -
  have "[hd sample_entries] @ tl sample_entries = sample_entries" by (simp add: sample_entries_def)
  then have "distinct (map (tm_id \<circ> en_message) ([hd sample_entries] @ tl sample_entries))" by (simp only: sample_ids) simp
  from prepending_is_exact_suffix [OF this refl refl, of utc None True "()"] obtain front where
    "map virtualizedItemKey (buildVirtualizedItems (buildTimelineDayGroups (buildTimelineItems utc ([hd sample_entries] @ tl sample_entries) None)) (Some ()) True) =
      ''leading-content'' # front @ map virtualizedItemKey (buildVirtualizedItems (buildTimelineDayGroups (buildTimelineItems utc (tl sample_entries) None)) (None :: unit option) False)"
    "didPrependVirtualizedTimeline
      (map virtualizedItemKey (buildVirtualizedItems (buildTimelineDayGroups (buildTimelineItems utc (tl sample_entries) None)) (None :: unit option) False))
      (map virtualizedItemKey (buildVirtualizedItems (buildTimelineDayGroups (buildTimelineItems utc ([hd sample_entries] @ tl sample_entries) None)) (Some ()) True))"
    by (elim exE conjE)
  then show ?thesis unfolding Let_def by (intro conjI exI)
qed

end
