(* ===== verification/TimelineSnapshot.thy ===== *)
theory TimelineSnapshot
  imports TimelineItems
begin

text \<open>
  The decisions that the timeline view takes on a snapshot of its messages
  (\<open>features/messages/lib/timelineSnapshot.ts\<close>): whether to stick to the bottom, which row a deep link
  names, which surface to paint while the deferred list lags, and how one snapshot differs from the
  one before. Pixel distances are integers.
\<close>

subsection \<open>Scrolling\<close>

definition BOTTOM_THRESHOLD_PX :: int where "BOTTOM_THRESHOLD_PX = 72"

record scroll_metrics =
  sm_scrollHeight :: int
  sm_clientHeight :: int
  sm_scrollTop :: int

definition isNearBottomMetrics :: "scroll_metrics \<Rightarrow> bool" where
  "isNearBottomMetrics metrics \<longleftrightarrow>
     sm_scrollHeight metrics - sm_clientHeight metrics - sm_scrollTop metrics \<le> BOTTOM_THRESHOLD_PX"

definition selectLatestMessageKey :: "timeline_message list \<Rightarrow> string option" where
  "selectLatestMessageKey messages =
     (if length messages = 0 then None
      else
        (let latest = last messages in
         Some (case tm_renderKey latest of Some key \<Rightarrow> key | None \<Rightarrow> tm_id latest)))"

datatype scroll_behavior = ScrollAuto | ScrollSmooth

definition selectLatestMessageAutoScrollBehavior :: "bool \<Rightarrow> bool \<Rightarrow> bool \<Rightarrow> string option \<Rightarrow> scroll_behavior option" where
  "selectLatestMessageAutoScrollBehavior hasExplicitBottomRequest isAtBottom shouldStickToBottom targetMessageId =
     (if truthy targetMessageId then None
      else if hasExplicitBottomRequest then Some ScrollSmooth
      else if shouldStickToBottom \<or> isAtBottom then Some ScrollAuto
      else None)"

subsection \<open>Deep links\<close>

record deep_link_resolution =
  dl_resolved :: bool
  dl_index :: int

definition resolveDeepLinkTarget :: "timeline_message list \<Rightarrow> string option \<Rightarrow> deep_link_resolution" where
  "resolveDeepLinkTarget messages targetMessageId =
     (if \<not> truthy targetMessageId then \<lparr>dl_resolved = False, dl_index = -1\<rparr>
      else
        case findIndex (\<lambda>message. Some (tm_id message) = targetMessageId) messages of
          Some index \<Rightarrow> \<lparr>dl_resolved = True, dl_index = int index\<rparr>
        | None \<Rightarrow> \<lparr>dl_resolved = False, dl_index = -1\<rparr>)"

subsection \<open>Surfaces\<close>

datatype list_render_state = RenderList | RenderEmpty | RenderPending

definition selectDeferredListRenderState :: "nat \<Rightarrow> nat \<Rightarrow> list_render_state" where
  "selectDeferredListRenderState deferredCount liveCount =
     (if deferredCount > 0 then RenderList else if liveCount = 0 then RenderEmpty else RenderPending)"

datatype body_surface = SurfaceSkeleton | SurfaceEmpty | SurfaceList

definition selectTimelineBodySurface :: "nat \<Rightarrow> bool \<Rightarrow> bool \<Rightarrow> nat \<Rightarrow> body_surface" where
  "selectTimelineBodySurface deferredCount hasPersistentIntro isLoading liveCount =
     (if isLoading then SurfaceSkeleton
      else
        case selectDeferredListRenderState deferredCount liveCount of
          RenderPending \<Rightarrow> if hasPersistentIntro then SurfaceEmpty else SurfaceSkeleton
        | RenderEmpty \<Rightarrow> SurfaceEmpty
        | RenderList \<Rightarrow> SurfaceList)"

datatype intro_surface = DirectMessageIntro | ChannelIntro

definition selectTimelineIntroSurface :: "bool \<Rightarrow> bool \<Rightarrow> bool \<Rightarrow> bool \<Rightarrow> intro_surface option" where
  "selectTimelineIntroSurface hasChannelIntro hasDirectMessageIntro hasReachedChannelStart isSkeletonVisible =
     (if isSkeletonVisible then None
      else if hasDirectMessageIntro then Some DirectMessageIntro
      else if hasChannelIntro \<and> hasReachedChannelStart then Some ChannelIntro
      else None)"

definition isDeferredTimelineSnapshotStale :: "string option \<Rightarrow> string option \<Rightarrow> bool" where
  "isDeferredTimelineSnapshotStale deferredChannelId liveChannelId \<longleftrightarrow> deferredChannelId \<noteq> liveChannelId"

subsection \<open>Changes between snapshots\<close>

datatype message_delta = DeltaPrepend | DeltaAppend | DeltaReplace | DeltaNone

text \<open>The function reads only the ids of the messages, which are its arguments here.\<close>

definition classifyTimelineMessageDelta :: "string list \<Rightarrow> string list \<Rightarrow> message_delta" where
  "classifyTimelineMessageDelta current previous =
     (if length previous = 0 \<or> length current = 0
      then if length previous = length current then DeltaNone else DeltaReplace
      else
        (let previousFirstId = hd previous; previousLastId = last previous;
             currentFirstId = hd current; currentLastId = last current
         in if previousFirstId = currentFirstId \<and> previousLastId = currentLastId
            then if length previous = length current then DeltaNone
                 else if length current > length previous then DeltaAppend else DeltaReplace
            else if currentFirstId \<noteq> previousFirstId \<and> previousFirstId \<in> set current then DeltaPrepend
            else if currentLastId \<noteq> previousLastId then DeltaAppend
            else DeltaReplace))"

definition isRenderedTimelineBehindHistoryPrepend :: "timeline_message list \<Rightarrow> timeline_message list \<Rightarrow> bool" where
  "isRenderedTimelineBehindHistoryPrepend rendered live =
     (if length rendered = 0 \<or> length rendered \<ge> length live then False
      else tm_id (hd rendered) \<noteq> tm_id (hd live))"

subsection \<open>Properties\<close>

text \<open>
  The change between two snapshots is named correctly when each holds every id once: older history,
  also together with new messages, is a prepend, new messages alone are an append, and the same list
  is no change. A snapshot that was prepended to counts as not yet painted exactly in the first case.
\<close>

theorem snapshot_delta_spec:
  assumes "distinct (map tm_id (older @ previous @ newer))" and "previous \<noteq> []"
  shows "classifyTimelineMessageDelta (map tm_id (older @ previous @ newer)) (map tm_id previous) =
      (if older \<noteq> [] then DeltaPrepend else if newer \<noteq> [] then DeltaAppend else DeltaNone) \<and>
    isRenderedTimelineBehindHistoryPrepend previous (older @ previous @ newer) = (older \<noteq> [])"
proof -
  have heads: "tm_id (hd previous) \<in> tm_id ` set previous" "tm_id (last previous) \<in> tm_id ` set previous"
    using assms(2) by simp_all
  have dis: "tm_id ` set older \<inter> tm_id ` set previous = {}" "tm_id ` set previous \<inter> tm_id ` set newer = {}"
    using assms(1) by auto
  have "older \<noteq> [] \<Longrightarrow> tm_id (hd older) \<in> tm_id ` set older" "newer \<noteq> [] \<Longrightarrow> tm_id (last newer) \<in> tm_id ` set newer"
    by simp_all
  then have "older \<noteq> [] \<Longrightarrow> tm_id (hd older) \<noteq> tm_id (hd previous)" "newer \<noteq> [] \<Longrightarrow> tm_id (last newer) \<noteq> tm_id (last previous)"
    using dis heads by (metis disjoint_iff)+
  then show ?thesis
    using assms(2) heads
    by (cases "older = []"; cases "newer = []")
      (auto simp: classifyTimelineMessageDelta_def isRenderedTimelineBehindHistoryPrepend_def Let_def hd_map last_map hd_append)
qed

end
