(* ===== verification/MessageMerge.thy ===== *)
theory MessageMerge
  imports ChannelWindow
begin

text \<open>
  The message caches: the sorted, deduplicated lists of \<open>features/messages/lib/messageQueryKeys.ts\<close>, the
  merge of one event into a list, where a relay event acknowledges the pending message it confirms
  (\<open>messageMerge.ts\<close>), the projection of a channel window that keeps pending sends and thread replies
  (\<open>channelWindowReconciliation.ts\<close>), and the registry of history scopes that is part of every cache key
  (\<open>nativeHistoryScopeStore.ts\<close>).
\<close>

subsection \<open>History scopes and cache keys\<close>

record scope_store =
  hs_scopes :: "(string, string) jsmap"
  hs_listeners :: "nat list"
  hs_log :: "nat list"

definition emitScopes :: "scope_store \<Rightarrow> scope_store" where
  "emitScopes s = s\<lparr>hs_log := hs_log s @ hs_listeners s\<rparr>"

text \<open>The expression \<open>^(?:dm|group|topic):.+$\<close>; a dot matches no line break.\<close>

definition isScope :: "string \<Rightarrow> bool" where
  "isScope scope \<longleftrightarrow>
     list_ex (\<lambda>prefix. startsWith scope prefix \<and> length prefix < length scope \<and>
         list_all (\<lambda>c. c \<noteq> CHR 0x0A \<and> c \<noteq> CHR 0x0D) (drop (length prefix) scope))
       [''dm:'', ''group:'', ''topic:'']"

definition setResolvedHistoryScope :: "string \<Rightarrow> string option \<Rightarrow> scope_store \<Rightarrow> scope_store" where
  "setResolvedHistoryScope channelId scope s =
     (if channelId = [] \<or> \<not> truthy scope then s
      else if \<not> isScope (the scope) then s
      else if jget (hs_scopes s) channelId = scope then s
      else emitScopes (s\<lparr>hs_scopes := jset (hs_scopes s) channelId (the scope)\<rparr>))"

definition clearResolvedHistoryScope :: "string \<Rightarrow> scope_store \<Rightarrow> scope_store" where
  "clearResolvedHistoryScope channelId s =
     (if channelId = [] then s
      else if \<not> jhas (hs_scopes s) channelId then s
      else emitScopes (s\<lparr>hs_scopes := jdel (hs_scopes s) channelId\<rparr>))"

definition clearAllResolvedHistoryScopes :: "scope_store \<Rightarrow> scope_store" where
  "clearAllResolvedHistoryScopes s =
     (if length (hs_scopes s) = 0 then s else emitScopes (s\<lparr>hs_scopes := []\<rparr>))"

definition getResolvedHistoryScope :: "scope_store \<Rightarrow> string \<Rightarrow> string option" where
  "getResolvedHistoryScope s channelId = jget (hs_scopes s) channelId"

definition subscribeHistoryScope :: "nat \<Rightarrow> scope_store \<Rightarrow> scope_store" where
  "subscribeHistoryScope listener s = s\<lparr>hs_listeners := sadd (hs_listeners s) listener\<rparr>"

definition unsubscribeHistoryScope :: "nat \<Rightarrow> scope_store \<Rightarrow> scope_store" where
  "unsubscribeHistoryScope listener s = s\<lparr>hs_listeners := filter (\<lambda>l. l \<noteq> listener) (hs_listeners s)\<rparr>"

definition channelMessagesKey :: "scope_store \<Rightarrow> string \<Rightarrow> string option list" where
  "channelMessagesKey s channelId = [Some ''channel-messages'', Some channelId, getResolvedHistoryScope s channelId]"

definition channelWindowKey :: "scope_store \<Rightarrow> string \<Rightarrow> string option list" where
  "channelWindowKey s channelId = [Some ''channel-window'', Some channelId, getResolvedHistoryScope s channelId]"

definition threadRepliesKey :: "scope_store \<Rightarrow> string \<Rightarrow> string \<Rightarrow> string option list" where
  "threadRepliesKey s channelId rootId =
     [Some ''thread-replies'', Some channelId, Some rootId, getResolvedHistoryScope s channelId]"

subsection \<open>Sorted lists\<close>

definition dedupeMessagesById :: "relay_event list \<Rightarrow> relay_event list" where
  "dedupeMessagesById messages =
     rev (snd (fold (\<lambda>message (seenIds, deduped).
         if ev_id message \<in> set seenIds then (seenIds, deduped)
         else (sadd seenIds (ev_id message), deduped @ [message])) (rev messages) ([], [])))"

definition compareMessages :: "relay_event \<Rightarrow> relay_event \<Rightarrow> int" where
  "compareMessages left right =
     (if ev_created_at left \<noteq> ev_created_at right then ev_created_at left - ev_created_at right
      else if ev_id left < ev_id right then - 1
      else if ev_id left > ev_id right then 1
      else 0)"

definition sortMessages :: "relay_event list \<Rightarrow> relay_event list" where
  "sortMessages messages = js_sort compareMessages (dedupeMessagesById messages)"

definition normalizeTimelineMessages :: "relay_event list \<Rightarrow> relay_event list" where
  "normalizeTimelineMessages messages = sortMessages messages"

definition isOlderHistoryPage :: "relay_event list \<Rightarrow> relay_event list \<Rightarrow> bool" where
  "isOlderHistoryPage current history =
     (if length current = 0 \<or> length history = 0 then False
      else
        (let sortedCurrent = sortMessages current;
             sortedHistory = sortMessages history;
             newestHistory = map_option ev_created_at (jsat sortedHistory (length sortedHistory - 1));
             oldestCurrent = map_option ev_created_at (jsat sortedCurrent 0)
         in case (newestHistory, oldestCurrent) of
              (Some newest, Some oldest) \<Rightarrow> newest \<le> oldest
            | _ \<Rightarrow> False))"

definition normalizeTimelineHistoryMessages :: "relay_event list \<Rightarrow> relay_event list \<Rightarrow> relay_event list" where
  "normalizeTimelineHistoryMessages current history = sortMessages (current @ history)"

definition mergeTimelineHistoryMessages :: "relay_event list \<Rightarrow> relay_event list \<Rightarrow> relay_event list" where
  "mergeTimelineHistoryMessages current history =
     (if isOlderHistoryPage current history then normalizeTimelineHistoryMessages current history
      else normalizeTimelineMessages (current @ history))"

subsection \<open>Merging one event\<close>

definition getLocalRenderKey :: "relay_event \<Rightarrow> string" where
  "getLocalRenderKey message = (case ev_localKey message of Some key \<Rightarrow> key | None \<Rightarrow> ev_id message)"

definition isMatchingPendingMessage :: "relay_event \<Rightarrow> relay_event \<Rightarrow> bool" where
  "isMatchingPendingMessage pending incoming =
     (if ev_pending pending \<noteq> Some True \<or> ev_pending incoming = Some True \<or>
         ev_content pending \<noteq> ev_content incoming \<or> ev_kind pending \<noteq> ev_kind incoming \<or>
         toLowerCase (ev_pubkey pending) \<noteq> toLowerCase (ev_pubkey incoming) \<or>
         getChannelIdFromTags (ev_tags pending) \<noteq> getChannelIdFromTags (ev_tags incoming)
      then False
      else
        (let pendingThread = getThreadReference (ev_tags pending);
             incomingThread = getThreadReference (ev_tags incoming)
         in tr_parentId pendingThread = tr_parentId incomingThread \<and>
            tr_rootId pendingThread = tr_rootId incomingThread))"

definition reconcileIncomingMessage :: "relay_event list \<Rightarrow> relay_event \<Rightarrow> relay_event list" where
  "reconcileIncomingMessage current incoming =
     (let normalizedCurrent = dedupeMessagesById current;
          replacedPending = find (\<lambda>message. isMatchingPendingMessage message incoming) normalizedCurrent;
          incomingWithLocalKey =
            (case replacedPending of
               Some p \<Rightarrow> incoming\<lparr>ev_localKey := Some (case ev_localKey p of Some key \<Rightarrow> key | None \<Rightarrow> ev_id p)\<rparr>
             | None \<Rightarrow> incoming);
          incomingLocalKey = getLocalRenderKey incomingWithLocalKey;
          deduped = filter (\<lambda>message. ev_id message \<noteq> ev_id incoming \<and> getLocalRenderKey message \<noteq> incomingLocalKey)
            normalizedCurrent
      in deduped @ [incomingWithLocalKey])"

definition mergeMessagesWithNormalizer ::
  "relay_event list \<Rightarrow> relay_event \<Rightarrow> (relay_event list \<Rightarrow> relay_event list) \<Rightarrow> relay_event list" where
  "mergeMessagesWithNormalizer current incoming normalizer = normalizer (reconcileIncomingMessage current incoming)"

definition mergeMessages :: "relay_event list \<Rightarrow> relay_event \<Rightarrow> relay_event list" where
  "mergeMessages current incoming = mergeMessagesWithNormalizer current incoming sortMessages"

definition mergeTimelineCacheMessages :: "relay_event list \<Rightarrow> relay_event \<Rightarrow> relay_event list" where
  "mergeTimelineCacheMessages current incoming = mergeMessagesWithNormalizer current incoming normalizeTimelineMessages"

subsection \<open>Projecting the window\<close>

definition retainRefetchReconciliationEvents :: "relay_event list \<Rightarrow> relay_event list" where
  "retainRefetchReconciliationEvents events =
     filter (\<lambda>event.
       if ev_kind event \<notin> set CHANNEL_TIMELINE_CONTENT_KINDS then False
       else if ev_pending event = Some True then True
       else tr_parentId (getThreadReference (ev_tags event)) \<noteq> None \<and> \<not> isBroadcastReply (ev_tags event)) events"

fun mergeFrom :: "relay_event list \<Rightarrow> relay_event list \<Rightarrow> relay_event list" where
  "mergeFrom (retainedEvent # retained) (authoritativeEvent # authoritative) =
     (if compareRelayOrder retainedEvent authoritativeEvent > 0
      then retainedEvent # mergeFrom retained (authoritativeEvent # authoritative)
      else authoritativeEvent # mergeFrom (retainedEvent # retained) authoritative)"
| "mergeFrom retained authoritative = retained @ authoritative"

definition mergeChronologicalMessages :: "relay_event list \<Rightarrow> relay_event list \<Rightarrow> relay_event list" where
  "mergeChronologicalMessages cacheOnly authoritative =
     mergeFrom (js_sort (\<lambda>left right. compareRelayOrder right left) cacheOnly) authoritative"

definition reconcileStep :: "relay_event \<Rightarrow> relay_event list \<times> relay_event list \<Rightarrow> relay_event list \<times> relay_event list" where
  "reconcileStep event st =
     (case st of (cacheOnly, authoritative) \<Rightarrow>
        (let reconciled = reconcileIncomingMessage cacheOnly event;
             incoming = (case jslast reconciled of Some m \<Rightarrow> m | None \<Rightarrow> event)
         in (butlast reconciled, authoritative @ [incoming])))"

definition reconcileChannelWindowMessages :: "window_store \<Rightarrow> relay_event list \<Rightarrow> relay_event list" where
  "reconcileChannelWindowMessages window messages =
     (let windowEvents = flattenChannelWindowEvents window;
          authoritativeIds = map ev_id windowEvents;
          retained = filter (\<lambda>event. ev_id event \<notin> set authoritativeIds) (retainRefetchReconciliationEvents messages);
          (cacheOnly, authoritative) = fold reconcileStep windowEvents (retained, [])
      in mergeChronologicalMessages cacheOnly authoritative)"

end
