(* ===== verification/MessageReconcile.thy ===== *)
theory MessageReconcile
  imports MessageMerge
begin

text \<open>
  Properties of the message caches: merging live events converges to the sorted list whatever their
  order, and projecting a channel window keeps the window's rows in their order, keeps the pending sends
  and thread replies beside them, and moves the render key of an acknowledged send to its relay row.
\<close>

subsection \<open>Deduplication\<close>

lemma dedupe_seen:
  "set (fst (fold (\<lambda>message (seenIds, deduped).
      if ev_id message \<in> set seenIds then (seenIds, deduped)
      else (sadd seenIds (ev_id message), deduped @ [message])) ys (seen, out))) = set seen \<union> ev_id ` set ys"
  by (induction ys arbitrary: seen out) (auto simp: sadd_def)

lemma dedupe_simps [simp]:
  "dedupeMessagesById [] = []"
  "dedupeMessagesById (x # xs) = (if ev_id x \<in> ev_id ` set xs then dedupeMessagesById xs else x # dedupeMessagesById xs)"
proof -
  let ?f = "\<lambda>message (seenIds, deduped).
      if ev_id message \<in> set seenIds then (seenIds, deduped)
      else (sadd seenIds (ev_id message), deduped @ [message])"
  show "dedupeMessagesById [] = []" by (simp add: dedupeMessagesById_def)
  obtain seen out where st: "fold ?f (rev xs) ([], []) = (seen, out)" by fastforce
  then have "set seen = ev_id ` set xs" using dedupe_seen [of "rev xs" "[]" "[]"] by simp
  then show "dedupeMessagesById (x # xs) = (if ev_id x \<in> ev_id ` set xs then dedupeMessagesById xs else x # dedupeMessagesById xs)"
    by (simp add: dedupeMessagesById_def st)
qed

lemma dedupe_ids [simp]: "ev_id ` set (dedupeMessagesById xs) = ev_id ` set xs"
  by (induction xs) auto

lemma dedupe_subset: "set (dedupeMessagesById xs) \<subseteq> set xs"
  by (induction xs) auto

lemma dedupe_distinct [simp]: "distinct (map ev_id (dedupeMessagesById xs))"
  by (induction xs) simp_all

lemma dedupe_id: "distinct (map ev_id xs) \<Longrightarrow> dedupeMessagesById xs = xs"
  by (induction xs) auto

lemma dedupe_set: "inj_on ev_id (set xs) \<Longrightarrow> set (dedupeMessagesById xs) = set xs"
  using dedupe_subset [of xs] dedupe_ids [of xs] by (metis inj_on_image_eq_iff order_refl)

subsection \<open>The order of the lists\<close>

definition msgKey :: "relay_event \<Rightarrow> int \<times> string" where
  "msgKey e = (ev_created_at e, ev_id e)"

interpretation msg: keyed_comparator compareMessages msgKey "\<lambda>_. True"
  by unfold_locales (auto simp: compareMessages_def msgKey_def less_eq_prod_def)

lemma sortMessages_sorted: "sorted (map msgKey (sortMessages xs))"
  by (simp add: sortMessages_def msg.js_sort_sorted)

lemma sortMessages_distinct: "distinct (map ev_id (sortMessages xs))"
  using dedupe_distinct [of xs] by (simp add: sortMessages_def msg.js_sort_eq distinct_map)

lemma sortMessages_set: "inj_on ev_id (set xs) \<Longrightarrow> set (sortMessages xs) = set xs"
  by (simp add: sortMessages_def dedupe_set)

lemma sorted_unique:
  assumes "sorted (map msgKey xs)" and "sorted (map msgKey ys)"
    and "distinct (map ev_id xs)" and "distinct (map ev_id ys)" and "set xs = set ys"
  shows "xs = ys"
proof (rule map_sorted_distinct_set_unique [where f = msgKey])
  have keys: "map ev_id zs = map snd (map msgKey zs)" for zs by (simp add: msgKey_def)
  show "distinct (map msgKey xs)" "distinct (map msgKey ys)" using assms(3,4) distinct_map [of snd] unfolding keys by blast+
  then show "inj_on msgKey (set xs \<union> set ys)" using assms(5) by (simp add: distinct_map)
qed (use assms in auto)

subsection \<open>Live events converge\<close>

definition delivered :: "relay_event \<Rightarrow> bool" where
  "delivered e \<longleftrightarrow> ev_pending e \<noteq> Some True \<and> ev_localKey e = None"

lemma reconcile_delivered:
  assumes "list_all delivered (e # xs)" and "distinct (map ev_id xs)"
  shows "reconcileIncomingMessage xs e = filter (\<lambda>m. ev_id m \<noteq> ev_id e) xs @ [e]"
proof -
  have "find (\<lambda>m. isMatchingPendingMessage m e) xs = None"
    using assms(1) by (auto simp: find_None_iff list_all_iff delivered_def isMatchingPendingMessage_def)
  moreover have "filter (\<lambda>m. ev_id m \<noteq> ev_id e \<and> getLocalRenderKey m \<noteq> getLocalRenderKey e) xs = filter (\<lambda>m. ev_id m \<noteq> ev_id e) xs"
    using assms(1) by (intro filter_cong) (auto simp: list_all_iff delivered_def getLocalRenderKey_def)
  ultimately show ?thesis using assms(2) by (simp add: reconcileIncomingMessage_def dedupe_id)
qed

lemma merge_arrivals:
  assumes "list_all delivered events" and "inj_on ev_id (set events)"
  shows "set (foldl mergeMessages [] events) = set events \<and> sorted (map msgKey (foldl mergeMessages [] events)) \<and>
    distinct (map ev_id (foldl mergeMessages [] events))"
  using assms
proof (induction events rule: rev_induct)
  case (snoc e events)
  let ?cur = "foldl mergeMessages [] events"
  have IH: "set ?cur = set events" "distinct (map ev_id ?cur)"
    using snoc by (auto simp: inj_on_def)
  have "list_all delivered (e # ?cur)" using snoc.prems(1) IH(1) by (simp add: list_all_iff)
  then have merge: "mergeMessages ?cur e = sortMessages (filter (\<lambda>m. ev_id m \<noteq> ev_id e) ?cur @ [e])"
    using IH(2) by (simp add: mergeMessages_def mergeMessagesWithNormalizer_def reconcile_delivered)
  have "set (filter (\<lambda>m. ev_id m \<noteq> ev_id e) ?cur @ [e]) = set (events @ [e])"
    using snoc.prems(2) IH(1) by (auto simp: inj_on_def)
  then have "set (mergeMessages ?cur e) = set (events @ [e])"
    using snoc.prems(2) unfolding merge by (subst sortMessages_set) simp_all
  then show ?case using sortMessages_sorted sortMessages_distinct merge by simp
qed simp

text \<open>
  C15. A message list converges: delivered events, in whatever order and however often they arrive one
  by one, give the list that sorting them at once gives, each id once and in the order of time; and so
  does a page of history, older or not.
\<close>

theorem merged_messages_converge:
  assumes "list_all delivered events" and "inj_on ev_id (set events)"
  shows "foldl mergeMessages [] events = sortMessages events \<and>
    mergeTimelineHistoryMessages current history = sortMessages (current @ history)"
proof
  show "foldl mergeMessages [] events = sortMessages events"
    using merge_arrivals [OF assms] sortMessages_set [OF assms(2)]
    by (intro sorted_unique) (simp_all add: sortMessages_sorted sortMessages_distinct)
  show "mergeTimelineHistoryMessages current history = sortMessages (current @ history)"
    by (simp add: mergeTimelineHistoryMessages_def normalizeTimelineHistoryMessages_def normalizeTimelineMessages_def)
qed

subsection \<open>Projecting the window\<close>

definition acknowledged :: "relay_event list \<Rightarrow> relay_event \<Rightarrow> relay_event" where
  "acknowledged cache e =
     (case find (\<lambda>m. isMatchingPendingMessage m e) cache of
        Some p \<Rightarrow> e\<lparr>ev_localKey := Some (renderKey p)\<rparr> | None \<Rightarrow> e)"

lemma getLocalRenderKey_eq: "getLocalRenderKey = renderKey"
  by (simp add: fun_eq_iff getLocalRenderKey_def renderKey_def)

lemma acknowledged_same [simp]:
  "ev_id (acknowledged cache e) = ev_id e" "chronPos (acknowledged cache e) = chronPos e"
  by (simp_all add: acknowledged_def chronPos_def relayPos_def split: option.splits)

lemma reconcileStep_eq:
  assumes "distinct (map ev_id cache)"
  shows "reconcileStep e (cache, rows) =
    (filter (\<lambda>m. ev_id m \<noteq> ev_id e \<and> renderKey m \<noteq> renderKey (acknowledged cache e)) cache, rows @ [acknowledged cache e])"
proof -
  have key: "(case ev_localKey p of Some key \<Rightarrow> key | None \<Rightarrow> ev_id p) = renderKey p" for p by (simp add: renderKey_def)
  show ?thesis
    using assms unfolding reconcileStep_def reconcileIncomingMessage_def getLocalRenderKey_eq key acknowledged_def
    by (simp add: dedupe_id jslast_def)
qed

lemma fold_reconcileStep:
  assumes "distinct (map ev_id cache)"
  shows "\<exists>kept acks. fold reconcileStep es (cache, rows) = (kept, rows @ acks) \<and> distinct (map ev_id kept) \<and>
    set kept \<subseteq> set cache \<and> map ev_id acks = map ev_id es \<and> map chronPos acks = map chronPos es"
  using assms
proof (induction es arbitrary: cache rows)
  case (Cons e es)
  let ?cache = "filter (\<lambda>m. ev_id m \<noteq> ev_id e \<and> renderKey m \<noteq> renderKey (acknowledged cache e)) cache"
  have "distinct (map ev_id ?cache)" using Cons.prems by (simp add: distinct_map_filter)
  from Cons.IH [OF this, of "rows @ [acknowledged cache e]"] obtain kept acks where
    "fold reconcileStep es (?cache, rows @ [acknowledged cache e]) = (kept, (rows @ [acknowledged cache e]) @ acks)"
    "distinct (map ev_id kept)" "set kept \<subseteq> set ?cache" "map ev_id acks = map ev_id es" "map chronPos acks = map chronPos es"
    by blast
  then show ?case
    using reconcileStep_eq [OF Cons.prems, of e rows]
    by (intro exI [of _ kept] exI [of _ "acknowledged cache e # acks"]) auto
qed simp

lemma mset_mergeFrom: "mset (mergeFrom xs ys) = mset xs + mset ys"
  by (induction xs ys rule: mergeFrom.induct) auto

lemma set_mergeFrom: "set (mergeFrom xs ys) = set xs \<union> set ys"
  using arg_cong [OF mset_mergeFrom, of set_mset] by simp

lemma compareRelayOrder_chron: "compareRelayOrder x y > 0 \<longleftrightarrow> chronPos x < chronPos y"
  using compareRelayOrder_key [of x y] by (auto simp: chronPos_def less_chron_pos_def not_le [symmetric])

lemma sorted_mergeFrom:
  "sorted (map chronPos xs) \<Longrightarrow> sorted (map chronPos ys) \<Longrightarrow> sorted (map chronPos (mergeFrom xs ys))"
proof (induction xs ys rule: mergeFrom.induct)
  case (1 x xs y ys)
  show ?case
  proof (cases "compareRelayOrder x y > 0")
    case True
    then have "chronPos x \<le> chronPos y" by (simp add: compareRelayOrder_chron)
    then show ?thesis using 1 True by (auto simp: set_mergeFrom intro: order_trans)
  next
    case False
    then have "chronPos y \<le> chronPos x" by (simp add: compareRelayOrder_chron)
    then show ?thesis using 1 False by (auto simp: set_mergeFrom intro: order_trans)
  qed
qed auto

lemma filter_mergeFrom:
  "list_all (\<lambda>m. \<not> P m) xs \<Longrightarrow> list_all P ys \<Longrightarrow> filter P (mergeFrom xs ys) = ys"
  by (induction xs ys rule: mergeFrom.induct) (auto simp: filter_empty_conv filter_id_conv list_all_iff)

definition cacheOnlyRows :: "window_store \<Rightarrow> relay_event list \<Rightarrow> relay_event list" where
  "cacheOnlyRows window messages =
     filter (\<lambda>m. ev_id m \<notin> ev_id ` set (flattenChannelWindowEvents window)) (retainRefetchReconciliationEvents messages)"

lemma reconcile_fold:
  "reconcileChannelWindowMessages window messages =
     (case fold reconcileStep (flattenChannelWindowEvents window) (cacheOnlyRows window messages, []) of
        (kept, acks) \<Rightarrow> mergeFrom (sort_key chronPos kept) acks)"
  by (simp add: reconcileChannelWindowMessages_def cacheOnlyRows_def mergeChronologicalMessages_def chron.js_sort_eq
      Let_def split: prod.splits)

lemma distinct_cacheOnly: "distinct (map f messages) \<Longrightarrow> distinct (map f (cacheOnlyRows window messages))"
  by (simp add: cacheOnlyRows_def retainRefetchReconciliationEvents_def distinct_map_filter)

text \<open>
  C13. Projecting a channel window onto the message list: the list holds every event of the window once
  and in the window's order, and beside them only pending sends and thread replies of the list before
  that the window does not hold, unchanged; each id once, everything in the order of time.
\<close>

theorem projection_keeps_window:
  assumes "distinct (map ev_id messages)"
  shows "map ev_id (filter (\<lambda>m. ev_id m \<in> ev_id ` set (flattenChannelWindowEvents window)) (reconcileChannelWindowMessages window messages)) =
      map ev_id (flattenChannelWindowEvents window) \<and>
    set (filter (\<lambda>m. ev_id m \<notin> ev_id ` set (flattenChannelWindowEvents window)) (reconcileChannelWindowMessages window messages)) \<subseteq>
      set (cacheOnlyRows window messages) \<and>
    distinct (map ev_id (reconcileChannelWindowMessages window messages)) \<and>
    sorted (map chronPos (reconcileChannelWindowMessages window messages))"
proof -
  let ?es = "flattenChannelWindowEvents window" and ?r = "reconcileChannelWindowMessages window messages"
  let ?P = "\<lambda>m. ev_id m \<in> ev_id ` set ?es"
  obtain kept acks where fold: "fold reconcileStep ?es (cacheOnlyRows window messages, []) = (kept, acks)"
    and kept: "distinct (map ev_id kept)" "set kept \<subseteq> set (cacheOnlyRows window messages)"
    and acks: "map ev_id acks = map ev_id ?es" "map chronPos acks = map chronPos ?es"
    using fold_reconcileStep [OF distinct_cacheOnly [OF assms], of ?es window "[]"] by auto
  have r: "?r = mergeFrom (sort_key chronPos kept) acks" by (simp add: reconcile_fold fold)
  have ids: "ev_id ` set acks = ev_id ` set ?es" using acks(1) by (metis set_map)
  have not_window: "\<not> ?P m" if "m \<in> set kept" for m using kept(2) that by (auto simp: cacheOnlyRows_def)
  have window: "?P m" if "m \<in> set acks" for m using ids that by blast
  have "filter ?P ?r = acks" unfolding r by (rule filter_mergeFrom) (simp_all add: list_all_iff not_window window)
  moreover have "set (filter (\<lambda>m. \<not> ?P m) ?r) \<subseteq> set (cacheOnlyRows window messages)"
    unfolding r using kept(2) window by (auto simp: set_mergeFrom)
  moreover have "distinct (map ev_id ?r)"
  proof -
    have "mset (map ev_id ?r) = mset (map ev_id (kept @ acks))" unfolding r by (simp add: mset_mergeFrom)
    moreover have "distinct (map ev_id (kept @ acks))"
      using kept(1) distinct_flatten [of window] not_window ids by (auto simp: acks(1))
    ultimately show ?thesis by (metis mset_eq_imp_distinct_iff)
  qed
  moreover have "sorted (map chronPos ?r)"
    unfolding r by (rule sorted_mergeFrom) (simp_all add: acks(2) sorted_flatten)
  ultimately show ?thesis using acks(1) by simp
qed

text \<open>What it means that an event confirms a pending send.\<close>

definition confirms :: "relay_event \<Rightarrow> relay_event \<Rightarrow> bool" where
  "confirms e m \<longleftrightarrow>
     ev_pending m = Some True \<and> ev_pending e \<noteq> Some True \<and> ev_content e = ev_content m \<and> ev_kind e = ev_kind m \<and>
     toLowerCase (ev_pubkey e) = toLowerCase (ev_pubkey m) \<and>
     getChannelIdFromTags (ev_tags e) = getChannelIdFromTags (ev_tags m) \<and>
     tr_parentId (getThreadReference (ev_tags e)) = tr_parentId (getThreadReference (ev_tags m)) \<and>
     tr_rootId (getThreadReference (ev_tags e)) = tr_rootId (getThreadReference (ev_tags m))"

lemma matching_confirms: "isMatchingPendingMessage m e \<longleftrightarrow> confirms e m"
  by (auto simp: isMatchingPendingMessage_def confirms_def Let_def)

abbreviation withKeyOf :: "relay_event \<Rightarrow> relay_event \<Rightarrow> relay_event" where
  "withKeyOf m e \<equiv> e\<lparr>ev_localKey := Some (renderKey m)\<rparr>"

lemma renderKey_withKeyOf [simp]: "renderKey (withKeyOf m e) = renderKey m"
  by (simp add: renderKey_def)

text \<open>An event of the window confirms the first pending send that it can, or changes nothing.\<close>

lemma step_rows:
  assumes "distinct (map ev_id cache)" and "ev_id e \<notin> ev_id ` set cache" and "distinct (map renderKey (cache @ [e]))"
  obtains (unchanged) "\<And>m. m \<in> set cache \<Longrightarrow> \<not> confirms e m" and "reconcileStep e (cache, rows) = (cache, rows @ [e])"
    | (confirmed) p where "p \<in> set cache" and "confirms e p"
      and "reconcileStep e (cache, rows) = (filter (\<lambda>m. m \<noteq> p) cache, rows @ [withKeyOf p e])"
proof -
  have ids: "ev_id m \<noteq> ev_id e" if "m \<in> set cache" for m using assms(2) that by (metis imageI)
  have "renderKey e \<notin> renderKey ` set cache" using assms(3) by simp
  then have keys: "renderKey m \<noteq> renderKey e" if "m \<in> set cache" for m using that by (metis imageI)
  show thesis
  proof (cases "find (\<lambda>m. isMatchingPendingMessage m e) cache")
    case None
    then have "\<And>m. m \<in> set cache \<Longrightarrow> \<not> confirms e m" by (simp add: find_None_iff matching_confirms)
    moreover have "reconcileStep e (cache, rows) = (cache, rows @ [e])"
      using reconcileStep_eq [OF assms(1), of e rows] None by (simp add: acknowledged_def filter_id_conv ids keys)
    ultimately show ?thesis by (rule unchanged)
  next
    case (Some p)
    then have p: "p \<in> set cache" "confirms e p" by (auto simp: find_Some_iff matching_confirms)
    have "inj_on renderKey (set cache)" using assms(3) by (simp add: distinct_map)
    then have "ev_id m \<noteq> ev_id e \<and> renderKey m \<noteq> renderKey p \<longleftrightarrow> m \<noteq> p" if "m \<in> set cache" for m
      using that ids p(1) by (auto dest: inj_onD)
    then have "filter (\<lambda>m. ev_id m \<noteq> ev_id e \<and> renderKey m \<noteq> renderKey p) cache = filter (\<lambda>m. m \<noteq> p) cache"
      by (intro filter_cong) auto
    then show ?thesis
      using reconcileStep_eq [OF assms(1), of e rows] Some p by (intro confirmed [of p]) (simp_all add: acknowledged_def)
  qed
qed

text \<open>The rows after all events of the window, from the rows of before and the events.\<close>

definition settled :: "relay_event list \<Rightarrow> relay_event list \<Rightarrow> relay_event list \<Rightarrow> relay_event list \<Rightarrow> relay_event list \<Rightarrow> bool" where
  "settled cache es rows kept acks \<longleftrightarrow>
     distinct (map renderKey (kept @ acks)) \<and> set rows \<subseteq> set acks \<and> set kept \<subseteq> set cache \<and>
     (\<forall>m\<in>set cache - set kept. \<exists>e\<in>set es. confirms e m \<and> withKeyOf m e \<in> set acks) \<and>
     (\<forall>x\<in>set acks - set rows - set es. \<exists>e\<in>set es. \<exists>m\<in>set cache. confirms e m \<and> x = withKeyOf m e) \<and>
     (\<forall>m\<in>set kept. \<forall>e\<in>set es. confirms e m \<longrightarrow> (\<exists>m'\<in>set cache. confirms e m' \<and> m' \<noteq> m))"

lemma settledD:
  assumes "settled cache es rows kept acks"
  shows "x \<in> set acks \<Longrightarrow> x \<notin> set rows \<Longrightarrow> x \<notin> set es \<Longrightarrow> \<exists>e m. e \<in> set es \<and> m \<in> set cache \<and> confirms e m \<and> x = withKeyOf m e"
    and "m \<in> set kept \<Longrightarrow> e \<in> set es \<Longrightarrow> confirms e m \<Longrightarrow> \<exists>m'. m' \<in> set cache \<and> confirms e m' \<and> m' \<noteq> m"
proof -
  have "\<forall>x\<in>set acks - set rows - set es. \<exists>e\<in>set es. \<exists>m\<in>set cache. confirms e m \<and> x = withKeyOf m e"
    "\<forall>m\<in>set kept. \<forall>e\<in>set es. confirms e m \<longrightarrow> (\<exists>m'\<in>set cache. confirms e m' \<and> m' \<noteq> m)"
    using assms unfolding settled_def by blast+
  then show "x \<in> set acks \<Longrightarrow> x \<notin> set rows \<Longrightarrow> x \<notin> set es \<Longrightarrow> \<exists>e m. e \<in> set es \<and> m \<in> set cache \<and> confirms e m \<and> x = withKeyOf m e"
    and "m \<in> set kept \<Longrightarrow> e \<in> set es \<Longrightarrow> confirms e m \<Longrightarrow> \<exists>m'. m' \<in> set cache \<and> confirms e m' \<and> m' \<noteq> m"
    by blast+
qed

lemma settled_unchanged:
  assumes "settled cache es (rows @ [e]) kept acks" and "\<And>m. m \<in> set cache \<Longrightarrow> \<not> confirms e m"
  shows "settled cache (e # es) rows kept acks"
  using assms unfolding settled_def by auto

lemma settled_confirmed:
  assumes "settled (filter (\<lambda>m. m \<noteq> p) cache) es (rows @ [withKeyOf p e]) kept acks" and "p \<in> set cache" and "confirms e p"
  shows "settled cache (e # es) rows kept acks"
proof -
  have IH: "distinct (map renderKey (kept @ acks))" "set rows \<subseteq> set acks" "withKeyOf p e \<in> set acks"
    "set kept \<subseteq> set cache" "p \<notin> set kept"
    using assms(1) by (auto simp: settled_def)
  have "\<exists>e\<in>set (e # es). confirms e m \<and> withKeyOf m e \<in> set acks" if "m \<in> set cache - set kept" for m
    using assms that IH(3) by (cases "m = p") (auto simp: settled_def)
  moreover have "\<exists>e\<in>set (e # es). \<exists>m\<in>set cache. confirms e m \<and> x = withKeyOf m e"
    if "x \<in> set acks - set rows - set (e # es)" for x
  proof (cases "x = withKeyOf p e")
    case False
    then show ?thesis using settledD(1) [OF assms(1), of x] that by auto
  qed (use assms(2,3) in auto)
  moreover have "\<exists>m'\<in>set cache. confirms e' m' \<and> m' \<noteq> m" if "m \<in> set kept" "e' \<in> set (e # es)" "confirms e' m" for m e'
  proof (cases "e' = e")
    case True
    then show ?thesis using assms(2,3) IH(5) that(1) by blast
  next
    case False
    then show ?thesis using settledD(2) [OF assms(1) that(1), of e'] that by auto
  qed
  ultimately show ?thesis using IH(1,2,4) unfolding settled_def by blast
qed

lemma fold_rows:
  assumes "distinct (map ev_id cache)" and "ev_id ` set cache \<inter> ev_id ` set es = {}"
    and "distinct (map renderKey (cache @ es @ rows))"
    and "fold reconcileStep es (cache, rows) = (kept, acks)"
  shows "settled cache es rows kept acks"
  using assms
proof (induction es arbitrary: cache rows)
  case (Cons e es)
  have e: "ev_id e \<notin> ev_id ` set cache" "distinct (map renderKey (cache @ [e]))" using Cons.prems(2,3) by auto
  from Cons.prems(1) e show ?case
  proof (cases rule: step_rows [of cache e rows])
    case unchanged
    then have "fold reconcileStep es (cache, rows @ [e]) = (kept, acks)" using Cons.prems(4) by simp
    moreover have "ev_id ` set cache \<inter> ev_id ` set es = {}" "distinct (map renderKey (cache @ es @ (rows @ [e])))"
      using Cons.prems(2,3) by auto
    ultimately have "settled cache es (rows @ [e]) kept acks" using Cons.IH Cons.prems(1) by blast
    then show ?thesis using unchanged(1) by (rule settled_unchanged)
  next
    case (confirmed p)
    let ?cache = "filter (\<lambda>m. m \<noteq> p) cache" and ?ack = "withKeyOf p e"
    have "fold reconcileStep es (?cache, rows @ [?ack]) = (kept, acks)" using Cons.prems(4) confirmed(3) by simp
    moreover have "inj_on renderKey (set cache)" using e(2) by (simp add: distinct_map)
    then have "renderKey p \<notin> renderKey ` set ?cache" using confirmed(1) by (auto dest: inj_onD)
    moreover have "renderKey p \<notin> renderKey ` (set es \<union> set rows)" using Cons.prems(3) confirmed(1) by auto
    ultimately have "settled ?cache es (rows @ [?ack]) kept acks"
      using Cons.prems(1-3) by (intro Cons.IH) (auto simp: distinct_map_filter)
    then show ?thesis using confirmed(1,2) by (rule settled_confirmed)
  qed
qed (auto simp: settled_def)

text \<open>
  C14. A row keeps its identity when its message is confirmed. If ids and render keys are distinct before
  the projection, no two rows share a render key after it. A pending send or thread reply of before is
  still there, or an event of the window that confirms it (same content, kind, author, channel and place
  in a thread, and no longer pending) has taken its key; and it is gone if an event of the window confirms
  it and no other row of before. Every row is one of before, an event of the window as it is, or an event
  of the window with the key of a row it confirms.
\<close>

theorem projection_keeps_render_keys:
  assumes "distinct (map ev_id messages)"
    and "distinct (map renderKey (cacheOnlyRows window messages @ flattenChannelWindowEvents window))"
    and "m \<in> set (cacheOnlyRows window messages)"
  shows "distinct (map renderKey (reconcileChannelWindowMessages window messages)) \<and>
    (m \<in> set (reconcileChannelWindowMessages window messages) \<or>
      (\<exists>e\<in>set (flattenChannelWindowEvents window). confirms e m \<and>
         withKeyOf m e \<in> set (reconcileChannelWindowMessages window messages))) \<and>
    ((\<exists>e\<in>set (flattenChannelWindowEvents window).
        {m' \<in> set (cacheOnlyRows window messages). confirms e m'} = {m}) \<longrightarrow>
      m \<notin> set (reconcileChannelWindowMessages window messages)) \<and>
    (\<forall>x\<in>set (reconcileChannelWindowMessages window messages).
      x \<in> set (cacheOnlyRows window messages) \<or> x \<in> set (flattenChannelWindowEvents window) \<or>
      (\<exists>e\<in>set (flattenChannelWindowEvents window). \<exists>m'\<in>set (cacheOnlyRows window messages).
        confirms e m' \<and> x = withKeyOf m' e))"
proof -
  let ?es = "flattenChannelWindowEvents window" and ?r = "reconcileChannelWindowMessages window messages"
  let ?cache = "cacheOnlyRows window messages"
  obtain kept acks where fold: "fold reconcileStep ?es (?cache, []) = (kept, acks)" by fastforce
  have disjoint: "ev_id ` set ?cache \<inter> ev_id ` set ?es = {}" by (auto simp: cacheOnlyRows_def)
  have "distinct (map renderKey (?cache @ ?es @ []))" using assms(2) by simp
  from fold_rows [OF distinct_cacheOnly [OF assms(1)] disjoint this fold] have rows: "settled ?cache ?es [] kept acks" .
  have r: "?r = mergeFrom (sort_key chronPos kept) acks" by (simp add: reconcile_fold fold)
  have "mset (map renderKey ?r) = mset (map renderKey (kept @ acks))" unfolding r by (simp add: mset_mergeFrom)
  then have "distinct (map renderKey ?r)" using rows unfolding settled_def by (metis mset_eq_imp_distinct_iff)
  moreover have set: "set ?r = set kept \<union> set acks" by (simp add: r set_mergeFrom)
  moreover have "m \<notin> set acks"
  proof
    assume "m \<in> set acks"
    then consider "m \<in> set ?es" | e m' where "e \<in> set ?es" "m = withKeyOf m' e" using settledD(1) [OF rows, of m] by auto
    then have "ev_id m \<in> ev_id ` set ?es" by cases auto
    then show False using disjoint assms(3) by blast
  qed
  moreover have "m \<notin> set kept" if "e \<in> set ?es" "{m' \<in> set ?cache. confirms e m'} = {m}" for e
  proof -
    have "confirms e m" "\<And>m'. m' \<in> set ?cache \<Longrightarrow> confirms e m' \<Longrightarrow> m' = m" using that(2) by blast+
    then show ?thesis using rows that(1) unfolding settled_def by blast
  qed
  moreover have "m \<in> set kept \<or> (\<exists>e\<in>set ?es. confirms e m \<and> withKeyOf m e \<in> set acks)"
    using rows assms(3) unfolding settled_def by blast
  moreover have "x \<in> set ?cache \<or> x \<in> set ?es \<or> (\<exists>e\<in>set ?es. \<exists>m'\<in>set ?cache. confirms e m' \<and> x = withKeyOf m' e)"
    if "x \<in> set kept \<union> set acks" for x
    using settledD(1) [OF rows, of x] that rows unfolding settled_def by auto
  ultimately show ?thesis unfolding set by blast
qed

definition sample_event :: "string \<Rightarrow> bool option \<Rightarrow> relay_event" where
  "sample_event i pending =
     \<lparr>ev_id = i, ev_localKey = None, ev_pubkey = ''P'', ev_created_at = 3, ev_kind = 9,
      ev_tags = [[''h'', ''c'']], ev_content = ''hello'', ev_sig = [], ev_pending = pending\<rparr>"

definition sample_window :: window_store where
  "sample_window = mergeLiveChannelWindowEvent emptyChannelWindowStore (sample_event ''e'' None) True"

lemma sample_window_events: "flattenChannelWindowEvents sample_window = [sample_event ''e'' None]"
  by code_simp

theorem projection_keeps_window_witness:
  "sorted (map chronPos (reconcileChannelWindowMessages sample_window [sample_event ''p'' (Some True)]))"
  using projection_keeps_window [of "[sample_event ''p'' (Some True)]" sample_window] by simp

theorem projection_keeps_render_keys_witness:
  "withKeyOf (sample_event ''p'' (Some True)) (sample_event ''e'' None) \<in>
     set (reconcileChannelWindowMessages sample_window [sample_event ''p'' (Some True)]) \<and>
   sample_event ''p'' (Some True) \<notin> set (reconcileChannelWindowMessages sample_window [sample_event ''p'' (Some True)])"
proof -
  let ?m = "sample_event ''p'' (Some True)"
  have window: "flattenChannelWindowEvents sample_window = [sample_event ''e'' None]" by (rule sample_window_events)
  have cache: "cacheOnlyRows sample_window [?m] = [?m]" by code_simp
  have "confirms (sample_event ''e'' None) ?m" by code_simp
  then have only: "{m' \<in> set [?m]. confirms (sample_event ''e'' None) m'} = {?m}" by auto
  have "distinct (map renderKey ([?m] @ [sample_event ''e'' None]))" by code_simp
  then show ?thesis
    using projection_keeps_render_keys [of "[?m]" sample_window ?m] only unfolding window cache by auto
qed

theorem merged_messages_converge_witness:
  "foldl mergeMessages [] [sample_event ''b'' None, sample_event ''a'' None, sample_event ''b'' None] =
     sortMessages [sample_event ''b'' None, sample_event ''a'' None, sample_event ''b'' None]"
proof -
  have "list_all delivered [sample_event ''b'' None, sample_event ''a'' None, sample_event ''b'' None]"
    by (simp add: delivered_def sample_event_def)
  moreover have "inj_on ev_id (set [sample_event ''b'' None, sample_event ''a'' None, sample_event ''b'' None])"
    by (simp add: sample_event_def inj_on_def)
  ultimately show ?thesis using merged_messages_converge by blast
qed

subsection \<open>Two orders of one second\<close>

text \<open>
  The two lists disagree on events of the same second: the projection of a window puts the larger id
  first, the merge of a single event the smaller one.
\<close>

theorem same_second_orders_differ:
  assumes "ev_created_at x = ev_created_at y" and "ev_id x < ev_id y"
  shows "mergeChronologicalMessages [x] [y] = [y, x] \<and> mergeChronologicalMessages [y] [x] = [y, x] \<and>
    sortMessages [x, y] = [x, y] \<and> sortMessages [y, x] = [x, y]"
  using assms by (auto simp: mergeChronologicalMessages_def compareRelayOrder_def sortMessages_def compareMessages_def)

subsection \<open>The scope registry\<close>

inductive scope_step :: "scope_store \<Rightarrow> scope_store \<Rightarrow> bool" where
  step_set: "scope_step s (setResolvedHistoryScope channelId scope s)"
| step_clear: "scope_step s (clearResolvedHistoryScope channelId s)"
| step_clear_all: "scope_step s (clearAllResolvedHistoryScopes s)"
| step_subscribe: "scope_step s (subscribeHistoryScope l s)"
| step_unsubscribe: "scope_step s (unsubscribeHistoryScope l s)"

definition scopes_ok :: "scope_store \<Rightarrow> bool" where
  "scopes_ok s \<longleftrightarrow> (\<forall>channelId scope. jget (hs_scopes s) channelId = Some scope \<longrightarrow> channelId \<noteq> [] \<and> isScope scope)"

lemmas scope_ops = setResolvedHistoryScope_def clearResolvedHistoryScope_def clearAllResolvedHistoryScopes_def
  subscribeHistoryScope_def unsubscribeHistoryScope_def emitScopes_def

text \<open>
  Every stored scope is canonical, and a subscriber is called whenever the scope of a channel, and with
  it the partition of its caches, changes.
\<close>

interpretation scope_registry: announcer scope_step scopes_ok hs_listeners hs_log getResolvedHistoryScope
proof
  fix s s' assume "scope_step s s'" "scopes_ok s"
  then show "scopes_ok s'" by cases (auto simp: scopes_ok_def scope_ops split: if_splits)
next
  fix s s' assume "scope_step s s'"
  then show "\<exists>calls. hs_log s' = hs_log s @ calls" by cases (auto simp: scope_ops)
next
  fix s s' l assume "scope_step s s'" "getResolvedHistoryScope s' \<noteq> getResolvedHistoryScope s" "l \<in> set (hs_listeners s)"
  then show "l \<in> set (drop (length (hs_log s)) (hs_log s'))"
    by cases (auto simp: scope_ops getResolvedHistoryScope_def fun_eq_iff split: if_splits)
qed

end
