(* ===== verification/Audience.thy ===== *)
theory Audience
  imports LocalStorage JsText
begin

text \<open>
  The agents that stay addressed in a thread (\<open>features/messages/lib/persistentAgentAudience.ts\<close>): a store
  of audiences per thread with a generation and revisions, by which a send that was prepared against an
  older audience is told apart. Listeners are numbers and their calls a log. Scopes are the strings of
  \<open>getPersistentAgentAudienceScope\<close>, which contain colons, so no scope names a property that every
  JavaScript object has.
\<close>

subsection \<open>Store\<close>

definition ENABLED_STORAGE_KEY :: string where "ENABLED_STORAGE_KEY = ''buzz:keep-addressed-agents-active''"
definition AUDIENCES_STORAGE_KEY :: string where "AUDIENCES_STORAGE_KEY = ''buzz:persistent-agent-audiences:v2''"

type_synonym audiences = "(string, string list) jsmap"

record audience_snapshot =
  as_enabled :: bool
  as_audiences :: audiences
  as_generation :: int

record audience_state =
  au_listeners :: "nat list"
  au_log :: "nat list"
  au_revisions :: "(string, int) jsmap"
  au_revisionClock :: int
  au_defaultRevision :: int
  au_generation :: int
  au_enabled :: bool
  au_audiences :: audiences
  au_snapshot :: audience_snapshot
  au_storage :: local_storage

text \<open>The expression \<open>^[0-9a-f]{64}$\<close>.\<close>

definition isHexKey :: "string \<Rightarrow> bool" where
  "isHexKey s \<longleftrightarrow> length s = 64 \<and> list_all (\<lambda>c. c \<in> set ''0123456789abcdef'') s"

definition normalizePubkeys :: "string list \<Rightarrow> string list" where
  "normalizePubkeys pubkeys =
     filter isHexKey (fold (\<lambda>pubkey s. sadd s (toLowerCase (js_trim pubkey))) pubkeys [])"

definition readEnabled :: "local_storage \<Rightarrow> bool" where
  "readEnabled ls \<longleftrightarrow> getItem ls ENABLED_STORAGE_KEY = Some ''1''"

definition stringEntries :: "jsval list \<Rightarrow> string list" where
  "stringEntries vs = concat (map (\<lambda>v. case v of JStr s \<Rightarrow> [s] | _ \<Rightarrow> []) vs)"

definition loadEntry :: "string \<times> jsval \<Rightarrow> audiences \<Rightarrow> audiences" where
  "loadEntry = (\<lambda>(scope, value) result.
     case value of JArr vs \<Rightarrow> if scope = [] then result else jset result scope (normalizePubkeys (stringEntries vs))
     | _ \<Rightarrow> result)"

definition readAudiences :: "local_storage \<Rightarrow> audiences" where
  "readAudiences ls =
     (case JSON_parse (case getItem ls AUDIENCES_STORAGE_KEY of Some raw \<Rightarrow> raw | None \<Rightarrow> ''{}'') of
        Some (JObj entries) \<Rightarrow> fold loadEntry entries []
      | _ \<Rightarrow> [])"

definition buildSnapshot :: "audience_state \<Rightarrow> audience_snapshot" where
  "buildSnapshot s =
     \<lparr>as_enabled = au_enabled s, as_audiences = au_audiences s, as_generation = au_generation s\<rparr>"

definition emitAudience :: "audience_state \<Rightarrow> audience_state" where
  "emitAudience s = s\<lparr>au_snapshot := buildSnapshot s, au_log := au_log s @ au_listeners s\<rparr>"

definition audiencesJson :: "audiences \<Rightarrow> jsval" where
  "audiencesJson a = JObj (map (\<lambda>(scope, pubkeys). (scope, JArr (map JStr pubkeys))) a)"

definition persistAudiences :: "audience_state \<Rightarrow> audience_state" where
  "persistAudiences s =
     (case setItem (au_storage s) AUDIENCES_STORAGE_KEY (stringify (audiencesJson (au_audiences s))) of
        Some ls \<Rightarrow> s\<lparr>au_storage := ls\<rparr>
      | None \<Rightarrow> s)"

definition advanceRevision :: "string \<Rightarrow> audience_state \<Rightarrow> audience_state" where
  "advanceRevision scope s =
     (let clock = au_revisionClock s + 1 in
      s\<lparr>au_revisionClock := clock, au_revisions := jset (au_revisions s) scope clock\<rparr>)"

text \<open>The module when it is loaded.\<close>

definition initialAudienceState :: "local_storage \<Rightarrow> audience_state" where
  "initialAudienceState ls =
     \<lparr>au_listeners = [], au_log = [], au_revisions = [], au_revisionClock = 0, au_defaultRevision = 0,
      au_generation = 0, au_enabled = readEnabled ls, au_audiences = readAudiences ls,
      au_snapshot = \<lparr>as_enabled = readEnabled ls, as_audiences = readAudiences ls, as_generation = 0\<rparr>,
      au_storage = ls\<rparr>"

subsection \<open>Operations\<close>

definition clearAudiences :: "audience_state \<Rightarrow> audience_state" where
  "clearAudiences s =
     (let clock = au_revisionClock s + 1 in
      persistAudiences (s\<lparr>au_generation := au_generation s + 1, au_revisionClock := clock,
        au_defaultRevision := clock, au_revisions := [], au_audiences := []\<rparr>))"

definition setPersistentAgentAudienceEnabled :: "bool \<Rightarrow> audience_state \<Rightarrow> audience_state" where
  "setPersistentAgentAudienceEnabled nextEnabled s =
     (if au_enabled s = nextEnabled then s
      else
        (let s1 = s\<lparr>au_enabled := nextEnabled\<rparr>;
             s2 = (if nextEnabled then s1 else clearAudiences s1);
             s3 = (case setItem (au_storage s2) ENABLED_STORAGE_KEY (if nextEnabled then ''1'' else ''0'') of
                     Some ls \<Rightarrow> s2\<lparr>au_storage := ls\<rparr>
                   | None \<Rightarrow> s2)
         in emitAudience s3))"

definition getPersistentAgentAudienceScope :: "string \<Rightarrow> string \<Rightarrow> string option \<Rightarrow> string option" where
  "getPersistentAgentAudienceScope ownerAgentId channelId threadRootId =
     (let owner = toLowerCase (js_trim ownerAgentId) in
      if \<not> isHexKey owner \<or> channelId = [] then None
      else if \<not> truthy threadRootId then None
      else Some (owner @ '':'' @ channelId @ '':thread:'' @ the threadRootId))"

definition getPersistentAgentAudienceGeneration :: "audience_state \<Rightarrow> int" where
  "getPersistentAgentAudienceGeneration s = au_generation s"

definition getPersistentAgentAudienceRevision :: "string \<Rightarrow> audience_state \<Rightarrow> int" where
  "getPersistentAgentAudienceRevision scope s = jget_or (au_revisions s) scope (au_defaultRevision s)"

definition setPersistentAgentAudience :: "string \<Rightarrow> string list \<Rightarrow> audience_state \<Rightarrow> audience_state" where
  "setPersistentAgentAudience scope pubkeys s =
     (if scope = [] then s
      else
        (let normalized = normalizePubkeys pubkeys in
         if jget (au_audiences s) scope = Some normalized then s
         else
           emitAudience (persistAudiences (advanceRevision scope
             (s\<lparr>au_audiences := jset (au_audiences s) scope normalized\<rparr>)))))"

definition initializePersistentAgentAudience :: "string \<Rightarrow> string list \<Rightarrow> audience_state \<Rightarrow> audience_state" where
  "initializePersistentAgentAudience scope pubkeys s =
     (if \<not> au_enabled s \<or> scope = [] \<or> jhas (au_audiences s) scope then s
      else setPersistentAgentAudience scope pubkeys s)"

definition promotePersistentAgentAudience ::
  "int \<Rightarrow> int option \<Rightarrow> string list \<Rightarrow> string option \<Rightarrow> audience_state \<Rightarrow> audience_state" where
  "promotePersistentAgentAudience expectedGeneration expectedRevision explicitAgentPubkeys scope s =
     (if \<not> au_enabled s \<or> expectedGeneration \<noteq> au_generation s \<or> \<not> truthy scope \<or>
         (case expectedRevision of
            Some revision \<Rightarrow> getPersistentAgentAudienceRevision (the scope) s \<noteq> revision
          | None \<Rightarrow> False)
      then s
      else setPersistentAgentAudience (the scope)
             (explicitAgentPubkeys @ jget_or (au_audiences s) (the scope) []) s)"

definition removePersistentAgentAudienceMember :: "string \<Rightarrow> string \<Rightarrow> audience_state \<Rightarrow> audience_state" where
  "removePersistentAgentAudienceMember scope pubkey s =
     setPersistentAgentAudience scope
       (filter (\<lambda>candidate. candidate \<noteq> toLowerCase (js_trim pubkey)) (jget_or (au_audiences s) scope [])) s"

definition subscribeAudience :: "nat \<Rightarrow> audience_state \<Rightarrow> audience_state" where
  "subscribeAudience listener s = s\<lparr>au_listeners := sadd (au_listeners s) listener\<rparr>"

definition unsubscribeAudience :: "nat \<Rightarrow> audience_state \<Rightarrow> audience_state" where
  "unsubscribeAudience listener s = s\<lparr>au_listeners := filter (\<lambda>l. l \<noteq> listener) (au_listeners s)\<rparr>"

text \<open>What the hook shows for a scope, given the snapshot of the store.\<close>

definition shownAudience :: "string option \<Rightarrow> audience_state \<Rightarrow> string list \<times> int" where
  "shownAudience scope s =
     (let resolvedScope = (case scope of Some k \<Rightarrow> k | None \<Rightarrow> []) in
      (if resolvedScope \<noteq> [] then jget_or (as_audiences (au_snapshot s)) resolvedScope [] else [],
       if resolvedScope \<noteq> [] then getPersistentAgentAudienceRevision resolvedScope s else 0))"

subsection \<open>Normal audiences\<close>

lemma hex_char: "c \<in> set ''0123456789abcdef'' \<Longrightarrow> js_lower_char c = c \<and> \<not> js_space c"
  by (auto simp: js_lower_char_def js_space_def)

lemma isHexKey_normal: "isHexKey k \<Longrightarrow> toLowerCase (js_trim k) = k"
proof -
  assume "isHexKey k"
  then have chars: "\<forall>c\<in>set k. js_lower_char c = c \<and> \<not> js_space c" using hex_char by (auto simp: isHexKey_def list_all_iff)
  have trim: "dropWhile js_space xs = xs" if "\<forall>c\<in>set xs. \<not> js_space c" for xs using that by (cases xs) auto
  have "js_trim k = k" using chars trim [of k] trim [of "rev k"] by (simp add: js_trim_def)
  then show ?thesis using chars by (simp add: toLowerCase_def map_idI)
qed

definition normal_audience :: "string list \<Rightarrow> bool" where
  "normal_audience l \<longleftrightarrow> distinct l \<and> list_all isHexKey l"

lemma distinct_fold_sadd: "distinct s \<Longrightarrow> distinct (fold (\<lambda>x s. sadd s (f x)) xs s)"
  by (induction xs arbitrary: s) (simp_all add: sadd_def)

lemma normal_normalizePubkeys: "normal_audience (normalizePubkeys l)"
  by (simp add: normal_audience_def normalizePubkeys_def distinct_fold_sadd list_all_iff)

lemma normalizePubkeys_normal: "normal_audience l \<Longrightarrow> normalizePubkeys l = l"
proof -
  assume l: "normal_audience l"
  have "fold (\<lambda>x s. sadd s (toLowerCase (js_trim x))) xs ys = ys @ xs" if "distinct (ys @ xs)" "list_all isHexKey xs" for xs ys
    using that by (induction xs arbitrary: ys) (simp_all add: isHexKey_normal sadd_def)
  from this [of "[]" l] l show ?thesis by (simp add: normal_audience_def normalizePubkeys_def list_all_iff filter_id_conv)
qed

subsection \<open>Reachable stores\<close>

inductive audience_step :: "audience_state \<Rightarrow> audience_state \<Rightarrow> bool" where
  step_enabled: "audience_step s (setPersistentAgentAudienceEnabled b s)"
| step_initialize: "audience_step s (initializePersistentAgentAudience scope pubkeys s)"
| step_set_audience: "audience_step s (setPersistentAgentAudience scope pubkeys s)"
| step_promote: "audience_step s (promotePersistentAgentAudience g r pubkeys sc s)"
| step_remove: "audience_step s (removePersistentAgentAudienceMember scope pubkey s)"
| step_subscribe_audience: "audience_step s (subscribeAudience l s)"
| step_unsubscribe_audience: "audience_step s (unsubscribeAudience l s)"

inductive audience_reachable :: "audience_state \<Rightarrow> bool" where
  reach_load: "audience_reachable (initialAudienceState ls)"
| reach_next: "audience_reachable s \<Longrightarrow> audience_step s s' \<Longrightarrow> audience_reachable s'"

definition audiences_ok :: "audiences \<Rightarrow> bool" where
  "audiences_ok a \<longleftrightarrow> jwf a \<and> (\<forall>scope l. jget a scope = Some l \<longrightarrow> scope \<noteq> [] \<and> normal_audience l)"

definition audience_ok :: "audience_state \<Rightarrow> bool" where
  "audience_ok s \<longleftrightarrow> audiences_ok (au_audiences s) \<and> au_snapshot s = buildSnapshot s \<and>
     au_defaultRevision s \<le> au_revisionClock s \<and>
     (\<forall>scope r. jget (au_revisions s) scope = Some r \<longrightarrow> au_defaultRevision s \<le> r \<and> r \<le> au_revisionClock s)"

lemma persist_fields [simp]:
  "au_listeners (persistAudiences s) = au_listeners s" "au_log (persistAudiences s) = au_log s"
  "au_revisions (persistAudiences s) = au_revisions s" "au_revisionClock (persistAudiences s) = au_revisionClock s"
  "au_defaultRevision (persistAudiences s) = au_defaultRevision s" "au_generation (persistAudiences s) = au_generation s"
  "au_enabled (persistAudiences s) = au_enabled s" "au_audiences (persistAudiences s) = au_audiences s"
  by (simp_all add: persistAudiences_def split: option.splits)

lemma revision_le: "audience_ok s \<Longrightarrow> getPersistentAgentAudienceRevision scope s \<le> au_revisionClock s"
  by (auto simp: audience_ok_def getPersistentAgentAudienceRevision_def jget_or_def split: option.splits)

lemma loadEntry_ok: "audiences_ok a \<Longrightarrow> audiences_ok (loadEntry entry a)"
  by (cases entry; cases "snd entry") (simp_all add: loadEntry_def audiences_ok_def normal_normalizePubkeys)

lemma audiences_ok_load: "audiences_ok (readAudiences ls)"
proof -
  have "audiences_ok (fold loadEntry entries a)" if "audiences_ok a" for entries a
    using that by (induction entries arbitrary: a) (simp_all add: loadEntry_ok)
  moreover have "audiences_ok []" by (simp add: audiences_ok_def)
  ultimately show ?thesis unfolding readAudiences_def by (simp split: option.split jsval.split)
qed

text \<open>What one call does: a change of the audience of a scope raises the revision of the scope.\<close>

definition guarded :: "audience_state \<Rightarrow> audience_state \<Rightarrow> bool" where
  "guarded s s' \<longleftrightarrow> (\<forall>scope. getPersistentAgentAudienceRevision scope s \<le> getPersistentAgentAudienceRevision scope s' \<and>
     (getPersistentAgentAudienceRevision scope s' = getPersistentAgentAudienceRevision scope s \<longrightarrow>
      jget (au_audiences s') scope = jget (au_audiences s) scope))"

lemma guarded_refl [simp]: "guarded s s"
  by (simp add: guarded_def)

lemma guarded_trans: "guarded s t \<Longrightarrow> guarded t u \<Longrightarrow> guarded s u"
  unfolding guarded_def by (metis order_antisym order_trans)

lemma set_audience_same:
  "scope = [] \<or> jget (au_audiences s) scope = Some (normalizePubkeys pubkeys) \<Longrightarrow> setPersistentAgentAudience scope pubkeys s = s"
  by (auto simp: setPersistentAgentAudience_def)

lemma set_audience_changed:
  assumes "scope \<noteq> []" and "jget (au_audiences s) scope \<noteq> Some (normalizePubkeys pubkeys)"
  shows "au_revisions (setPersistentAgentAudience scope pubkeys s) = jset (au_revisions s) scope (au_revisionClock s + 1)"
    and "au_revisionClock (setPersistentAgentAudience scope pubkeys s) = au_revisionClock s + 1"
    and "au_defaultRevision (setPersistentAgentAudience scope pubkeys s) = au_defaultRevision s"
    and "au_audiences (setPersistentAgentAudience scope pubkeys s) = jset (au_audiences s) scope (normalizePubkeys pubkeys)"
    and "au_snapshot (setPersistentAgentAudience scope pubkeys s) = buildSnapshot (setPersistentAgentAudience scope pubkeys s)"
  using assms by (simp_all add: setPersistentAgentAudience_def Let_def emitAudience_def buildSnapshot_def advanceRevision_def)

lemma set_audience_ok:
  assumes ok: "audience_ok s"
  shows "audience_ok (setPersistentAgentAudience scope pubkeys s)" and "guarded s (setPersistentAgentAudience scope pubkeys s)"
proof -
  have "audience_ok (setPersistentAgentAudience scope pubkeys s) \<and> guarded s (setPersistentAgentAudience scope pubkeys s)"
  proof (cases "scope = [] \<or> jget (au_audiences s) scope = Some (normalizePubkeys pubkeys)")
    case True
    then show ?thesis using ok by (simp add: set_audience_same)
  next
    case False
    then have fields: "scope \<noteq> []" "jget (au_audiences s) scope \<noteq> Some (normalizePubkeys pubkeys)" by auto
    note changed = set_audience_changed [OF fields]
    have "audience_ok (setPersistentAgentAudience scope pubkeys s)"
      using ok fields(1) unfolding audience_ok_def audiences_ok_def changed
      by (auto simp: normal_normalizePubkeys intro: add_increasing2)
    moreover have "guarded s (setPersistentAgentAudience scope pubkeys s)"
      using revision_le [OF ok, of scope] unfolding guarded_def getPersistentAgentAudienceRevision_def changed jget_or_def by auto
    ultimately show ?thesis by blast
  qed
  then show "audience_ok (setPersistentAgentAudience scope pubkeys s)" "guarded s (setPersistentAgentAudience scope pubkeys s)" by auto
qed

lemma enabled_ok:
  assumes "audience_ok s"
  shows "audience_ok (setPersistentAgentAudienceEnabled b s)" and "guarded s (setPersistentAgentAudienceEnabled b s)"
proof -
  have fields: "au_revisions (setPersistentAgentAudienceEnabled b s) = (if au_enabled s \<and> \<not> b then [] else au_revisions s)"
    "au_revisionClock (setPersistentAgentAudienceEnabled b s) = (if au_enabled s \<and> \<not> b then au_revisionClock s + 1 else au_revisionClock s)"
    "au_defaultRevision (setPersistentAgentAudienceEnabled b s) = (if au_enabled s \<and> \<not> b then au_revisionClock s + 1 else au_defaultRevision s)"
    "au_audiences (setPersistentAgentAudienceEnabled b s) = (if au_enabled s \<and> \<not> b then [] else au_audiences s)"
    "au_snapshot s = buildSnapshot s \<Longrightarrow> au_snapshot (setPersistentAgentAudienceEnabled b s) = buildSnapshot (setPersistentAgentAudienceEnabled b s)"
    by (auto simp: setPersistentAgentAudienceEnabled_def clearAudiences_def Let_def emitAudience_def buildSnapshot_def split: option.splits)
  show "audience_ok (setPersistentAgentAudienceEnabled b s)"
    using assms by (auto simp: audience_ok_def fields audiences_ok_def)
  have "getPersistentAgentAudienceRevision scope s \<le> getPersistentAgentAudienceRevision scope (setPersistentAgentAudienceEnabled b s) \<and>
      (getPersistentAgentAudienceRevision scope (setPersistentAgentAudienceEnabled b s) = getPersistentAgentAudienceRevision scope s \<longrightarrow>
       jget (au_audiences (setPersistentAgentAudienceEnabled b s)) scope = jget (au_audiences s) scope)" for scope
    using revision_le [OF assms, of scope] by (auto simp: getPersistentAgentAudienceRevision_def jget_or_def fields)
  then show "guarded s (setPersistentAgentAudienceEnabled b s)" by (simp add: guarded_def)
qed

lemma subscribers_ok [simp]:
  "audience_ok (subscribeAudience l s) = audience_ok s" "audience_ok (unsubscribeAudience l s) = audience_ok s"
  "guarded s (subscribeAudience l s)" "guarded s (unsubscribeAudience l s)"
  by (simp_all add: audience_ok_def subscribeAudience_def unsubscribeAudience_def buildSnapshot_def guarded_def
      getPersistentAgentAudienceRevision_def)

lemma step_ok: "audience_step s s' \<Longrightarrow> audience_ok s \<Longrightarrow> audience_ok s' \<and> guarded s s'"
  by (induction rule: audience_step.induct)
    (simp_all add: initializePersistentAgentAudience_def promotePersistentAgentAudience_def removePersistentAgentAudienceMember_def
      set_audience_ok enabled_ok)

lemma load_ok: "audience_ok (initialAudienceState ls)"
  using audiences_ok_load [of ls] by (simp add: audience_ok_def initialAudienceState_def buildSnapshot_def)

lemma audience_reachable_ok: "audience_reachable s \<Longrightarrow> audience_ok s"
  by (induction rule: audience_reachable.induct) (auto simp: load_ok dest: step_ok)

lemma run_guarded: "audience_step\<^sup>*\<^sup>* s s' \<Longrightarrow> audience_ok s \<Longrightarrow> audience_ok s' \<and> guarded s s'"
proof (induction rule: rtranclp_induct)
  case (step t u)
  then show ?case using step_ok guarded_trans by blast
qed simp

lemma jget_setAudience:
  "scope \<noteq> [] \<Longrightarrow> jget (au_audiences (setPersistentAgentAudience scope pubkeys s)) scope = Some (normalizePubkeys pubkeys)"
  by (simp add: setPersistentAgentAudience_def Let_def emitAudience_def advanceRevision_def)

text \<open>
  C22. A send promotes the agents it addresses only into the audience it was prepared against. Whatever
  happens between reading the generation and the revision of a scope and the promotion: if the feature
  is on and both are unchanged, the audience is still the one that was read, and it becomes the
  addressed agents followed by it, normalised; otherwise the promotion changes nothing.
\<close>

theorem promotion_is_guarded:
  assumes "audience_reachable s" and "audience_step\<^sup>*\<^sup>* s s'" and "scope \<noteq> []"
    and "promoted = promotePersistentAgentAudience (getPersistentAgentAudienceGeneration s)
        (Some (getPersistentAgentAudienceRevision scope s)) pubkeys (Some scope) s'"
  shows "if au_enabled s' \<and> getPersistentAgentAudienceGeneration s' = getPersistentAgentAudienceGeneration s \<and>
      getPersistentAgentAudienceRevision scope s' = getPersistentAgentAudienceRevision scope s
    then jget (au_audiences s') scope = jget (au_audiences s) scope \<and>
      jget (au_audiences promoted) scope = Some (normalizePubkeys (pubkeys @ jget_or (au_audiences s) scope []))
    else promoted = s'"
proof -
  have "getPersistentAgentAudienceRevision scope s' = getPersistentAgentAudienceRevision scope s \<Longrightarrow>
      jget (au_audiences s') scope = jget (au_audiences s) scope"
    using run_guarded [OF assms(2) audience_reachable_ok [OF assms(1)]] by (simp add: guarded_def)
  then show ?thesis
    using assms(3) by (auto simp: assms(4) promotePersistentAgentAudience_def getPersistentAgentAudienceGeneration_def
        truthy_def jget_setAudience jget_or_def)
qed

lemma read_entries:
  assumes "audiences_ok a"
  shows "fold loadEntry (map (\<lambda>(scope, pubkeys). (scope, JArr (map JStr pubkeys))) a) [] = a"
proof -
  have entries: "stringEntries (map JStr l) = l" for l by (induction l) (simp_all add: stringEntries_def)
  have ok: "scope \<noteq> [] \<and> normal_audience l" if "(scope, l) \<in> set a" for scope l
    using assms that jget_in_set [of a scope l] by (auto simp: audiences_ok_def)
  have "fold loadEntry (map (\<lambda>(scope, pubkeys). (scope, JArr (map JStr pubkeys))) b) m = fold (\<lambda>(k, v) m. jset m k v) b m"
    if "set b \<subseteq> set a" for b m
    using that ok by (induction b arbitrary: m) (auto simp: loadEntry_def entries normalizePubkeys_normal)
  then show ?thesis using assms fold_jset_disjoint [of "[]" a] by (simp add: audiences_ok_def jwf_def)
qed

lemma written_audiences_read:
  assumes "audience_ok s"
    and "setItem storage AUDIENCES_STORAGE_KEY (stringify (audiencesJson (au_audiences s))) = Some ls"
  shows "readAudiences ls = au_audiences s"
proof -
  have ok: "audiences_ok (au_audiences s)" using assms(1) by (simp add: audience_ok_def)
  have item: "getItem ls AUDIENCES_STORAGE_KEY = Some (stringify (audiencesJson (au_audiences s)))"
    using assms(2) by (auto simp: setItem_def getItem_def Let_def split: if_splits)
  have "wf_json (audiencesJson (au_audiences s))"
    using ok by (auto simp: audiencesJson_def audiences_ok_def jwf_def comp_def case_prod_unfold list_all_iff)
  then have "JSON_parse (stringify (audiencesJson (au_audiences s))) = Some (audiencesJson (au_audiences s))"
    by (rule json_roundtrip)
  then show ?thesis
    unfolding readAudiences_def item by (simp add: audiencesJson_def read_entries [OF ok])
qed

lemma set_audience_storage:
  assumes "au_audiences (setPersistentAgentAudience scope pubkeys s) \<noteq> au_audiences s"
    and "setItem (au_storage s) AUDIENCES_STORAGE_KEY
      (stringify (audiencesJson (au_audiences (setPersistentAgentAudience scope pubkeys s)))) = Some ls"
  shows "au_storage (setPersistentAgentAudience scope pubkeys s) = ls"
  using assms
  by (auto simp: setPersistentAgentAudience_def Let_def emitAudience_def advanceRevision_def persistAudiences_def
      split: if_splits option.splits)

text \<open>
  C23. Audiences survive a restart. In every reachable state, after a call that changes an audience and
  whose write the storage accepts, a new session reads exactly the audiences of this one.
\<close>

theorem audiences_survive_restart:
  assumes "audience_reachable s" and "s' = setPersistentAgentAudience scope pubkeys s"
    and "au_audiences s' \<noteq> au_audiences s"
    and "setItem (au_storage s) AUDIENCES_STORAGE_KEY (stringify (audiencesJson (au_audiences s'))) \<noteq> None"
  shows "au_audiences (initialAudienceState (au_storage s')) = au_audiences s'"
proof -
  obtain ls where ls: "setItem (au_storage s) AUDIENCES_STORAGE_KEY (stringify (audiencesJson (au_audiences s'))) = Some ls"
    using assms(4) by blast
  have "audience_ok s'" using assms(1,2) audience_reachable_ok reach_next step_set_audience by blast
  then show ?thesis
    using written_audiences_read [OF _ ls] set_audience_storage [of scope pubkeys s ls] assms(2,3) ls
    by (simp add: initialAudienceState_def)
qed

text \<open>A call that changes what the hook may show calls every listener.\<close>

definition calls :: "audience_state \<Rightarrow> audience_state \<Rightarrow> bool" where
  "calls s s' \<longleftrightarrow> au_log s' = au_log s @ au_listeners s \<or> au_log s' = au_log s \<and> au_snapshot s' = au_snapshot s"

lemma calls_set: "calls s (setPersistentAgentAudience scope pubkeys s)"
  by (simp add: calls_def setPersistentAgentAudience_def Let_def emitAudience_def advanceRevision_def)

lemma calls_enabled: "calls s (setPersistentAgentAudienceEnabled b s)"
  by (auto simp: calls_def setPersistentAgentAudienceEnabled_def clearAudiences_def Let_def emitAudience_def split: option.splits)

lemma calls_step: "audience_step s s' \<Longrightarrow> calls s s'"
  by (induction rule: audience_step.induct)
    (simp_all add: calls_set calls_enabled initializePersistentAgentAudience_def promotePersistentAgentAudience_def
      removePersistentAgentAudienceMember_def, simp_all add: calls_def subscribeAudience_def unsubscribeAudience_def)

interpretation audience_store: announcer audience_step audience_ok au_listeners au_log au_snapshot
  by unfold_locales (use step_ok calls_step in \<open>fastforce simp: calls_def\<close>)+

subsection \<open>Examples\<close>

definition sample_key :: string where "sample_key = replicate 64 (CHR ''a'')"

definition sample_storage :: local_storage where
  "sample_storage = \<lparr>st_items = [(ENABLED_STORAGE_KEY, ''1'')], st_quota = 1000, st_warned = False, st_toasts = 0\<rparr>"

lemma sample_reachable: "audience_reachable (initialAudienceState sample_storage)"
  by (rule reach_load)

theorem promotion_is_guarded_witness:
  "let s = initialAudienceState sample_storage;
       s' = setPersistentAgentAudience ''other'' [sample_key] s;
       promoted = promotePersistentAgentAudience (getPersistentAgentAudienceGeneration s)
         (Some (getPersistentAgentAudienceRevision ''t'' s)) [sample_key] (Some ''t'') s'
   in jget (au_audiences s') ''t'' = jget (au_audiences s) ''t'' \<and>
      jget (au_audiences promoted) ''t'' = Some [sample_key]"
proof -
  let ?s = "initialAudienceState sample_storage"
  let ?s' = "setPersistentAgentAudience ''other'' [sample_key] ?s"
  have "au_enabled ?s' \<and> getPersistentAgentAudienceGeneration ?s' = getPersistentAgentAudienceGeneration ?s \<and>
      getPersistentAgentAudienceRevision ''t'' ?s' = getPersistentAgentAudienceRevision ''t'' ?s"
    and "normalizePubkeys ([sample_key] @ jget_or (au_audiences ?s) ''t'' []) = [sample_key]"
    by code_simp+
  then show ?thesis
    unfolding Let_def
    using promotion_is_guarded [OF sample_reachable r_into_rtranclp [of audience_step, OF step_set_audience] _ refl,
        of "''t''" "''other''" "[sample_key]" "[sample_key]"] by simp
qed

theorem audiences_survive_restart_witness:
  "au_audiences (initialAudienceState (au_storage (setPersistentAgentAudience ''t'' [sample_key] (initialAudienceState sample_storage)))) =
   au_audiences (setPersistentAgentAudience ''t'' [sample_key] (initialAudienceState sample_storage))"
proof (rule audiences_survive_restart [OF sample_reachable refl])
  let ?s = "initialAudienceState sample_storage"
  let ?s' = "setPersistentAgentAudience ''t'' [sample_key] ?s"
  show "au_audiences ?s' \<noteq> au_audiences ?s" by code_simp
  show "setItem (au_storage ?s) AUDIENCES_STORAGE_KEY (stringify (audiencesJson (au_audiences ?s'))) \<noteq> None" by code_simp
qed

end
