(* ===== verification/AutoRestart.thy ===== *)
theory AutoRestart
  imports WorkingSignal
begin

text \<open>
  The policy that restarts an agent whose configuration has drifted
  (\<open>features/agents/lib/autoRestartPolicy.ts\<close>, and the loop of \<open>useAutoRestartPolicy.ts\<close>). One run of the
  effect is \<open>renderPolicy\<close>; the attempt that it starts runs asynchronously, and \<open>continueAttempt\<close> is its next
  step once the native side has answered. A history is the list of these events in the order in
  which they happen. What the working signal and the observer store answer is part of the event;
  \<open>storesView\<close> reads it off their models. Of a managed agent the record holds the fields the policy reads.
\<close>

subsection \<open>The decision\<close>

datatype restart_decision = Fire | Arm | Hold

record auto_restart_inputs =
  ai_autoRestartEnabled :: bool
  ai_needsRestart :: bool
  ai_working :: bool
  ai_workingSource :: working_source
  ai_connected :: bool
  ai_isLocalBackend :: bool
  ai_isRunning :: bool
  ai_edgeConsumed :: bool
  ai_quiescentForMs :: int

definition AUTO_RESTART_QUIESCENCE_MS :: int where "AUTO_RESTART_QUIESCENCE_MS = 3 * 60 * 1000"

definition decideAutoRestart :: "auto_restart_inputs \<Rightarrow> restart_decision" where
  "decideAutoRestart inputs =
     (if \<not> ai_autoRestartEnabled inputs then Hold
      else if \<not> ai_needsRestart inputs then Hold
      else if \<not> ai_isLocalBackend inputs then Hold
      else if \<not> ai_isRunning inputs then Hold
      else if \<not> ai_connected inputs then Hold
      else if ai_working inputs \<or> ai_workingSource inputs \<noteq> FromNone then Hold
      else if ai_edgeConsumed inputs then Hold
      else if ai_quiescentForMs inputs \<ge> AUTO_RESTART_QUIESCENCE_MS then Fire else Arm)"

record edge_state =
  ed_consumed :: bool
  ed_armedAt :: "int option"

definition nextEdgeState :: "edge_state option \<Rightarrow> bool \<Rightarrow> bool \<Rightarrow> edge_state" where
  "nextEdgeState previous needsRestart isRunning =
     (let prior = (case previous of Some e \<Rightarrow> e | None \<Rightarrow> \<lparr>ed_consumed = False, ed_armedAt = None\<rparr>) in
      if \<not> needsRestart \<or> \<not> isRunning then \<lparr>ed_consumed = False, ed_armedAt = None\<rparr> else prior)"

subsection \<open>The loop\<close>

record managed_agent =
  mg_pubkey :: string
  mg_status :: string
  mg_needsRestart :: bool
  mg_autoRestartOnConfigChange :: bool
  mg_backendType :: string

record policy_view =
  vw_working :: "string \<Rightarrow> working_state"
  vw_connection :: "string \<Rightarrow> connection_state"

definition storesView ::
  "(string \<Rightarrow> string \<Rightarrow> int) \<Rightarrow> signal_state \<Rightarrow> 'tr observer_store \<Rightarrow> policy_view" where
  "storesView lcmp st ob =
     \<lparr>vw_working = (\<lambda>pubkey. fst (getAgentWorkingState lcmp (Some pubkey) None st)),
      vw_connection = (\<lambda>pubkey. os_connectionState (fst (getAgentObserverSnapshot (Some pubkey) ob)))\<rparr>"

datatype agent_command = StopAgent string | StartAgent string

datatype attempt_await = AwaitsSummaries | AwaitsStop | AwaitsStart

record policy_state =
  ps_edges :: "(string, edge_state) jsmap"
  ps_inFlight :: "string list"
  ps_awaits :: "(string, attempt_await) jsmap"
  ps_commands :: "agent_command list"

definition agentInputs :: "policy_view \<Rightarrow> int \<Rightarrow> managed_agent \<Rightarrow> edge_state \<Rightarrow> auto_restart_inputs" where
  "agentInputs view now agent edge =
     \<lparr>ai_autoRestartEnabled = mg_autoRestartOnConfigChange agent,
      ai_needsRestart = mg_needsRestart agent,
      ai_working = wk_working (vw_working view (mg_pubkey agent)),
      ai_workingSource = wk_source (vw_working view (mg_pubkey agent)),
      ai_connected = (vw_connection view (mg_pubkey agent) = Open),
      ai_isLocalBackend = (mg_backendType agent = ''local''),
      ai_isRunning = (mg_status agent = ''running''),
      ai_edgeConsumed = ed_consumed edge,
      ai_quiescentForMs = (case ed_armedAt edge of None \<Rightarrow> 0 | Some armedAt \<Rightarrow> now - armedAt)\<rparr>"

definition evaluateAgent :: "policy_view \<Rightarrow> int \<Rightarrow> managed_agent \<Rightarrow> policy_state \<Rightarrow> policy_state" where
  "evaluateAgent view now agent s =
     (let pubkey = mg_pubkey agent;
          edge = nextEdgeState (jget (ps_edges s) pubkey) (mg_needsRestart agent) (mg_status agent = ''running'')
      in case decideAutoRestart (agentInputs view now agent edge) of
           Hold \<Rightarrow> s\<lparr>ps_edges := jset (ps_edges s) pubkey (edge\<lparr>ed_armedAt := None\<rparr>)\<rparr>
         | Arm \<Rightarrow> s\<lparr>ps_edges := jset (ps_edges s) pubkey
                    (edge\<lparr>ed_armedAt := Some (case ed_armedAt edge of Some a \<Rightarrow> a | None \<Rightarrow> now)\<rparr>)\<rparr>
         | Fire \<Rightarrow>
             if pubkey \<in> set (ps_inFlight s) then s
             else s\<lparr>ps_inFlight := sadd (ps_inFlight s) pubkey,
                    ps_awaits := jset (ps_awaits s) pubkey AwaitsSummaries,
                    ps_edges := jset (ps_edges s) pubkey \<lparr>ed_consumed = True, ed_armedAt = None\<rparr>\<rparr>)"

definition renderPolicy :: "policy_view \<Rightarrow> int \<Rightarrow> managed_agent list \<Rightarrow> policy_state \<Rightarrow> policy_state" where
  "renderPolicy view now agents s =
     (let s1 = fold (evaluateAgent view now) agents s;
          known = map mg_pubkey agents
      in s1\<lparr>ps_edges := filter (\<lambda>(pubkey, _). pubkey \<in> set known) (ps_edges s1)\<rparr>)"

text \<open>
  The rest of an attempt runs between renders: it waits for the fresh summaries, then for the stop command,
  then for the start command. A rejected answer ends it wherever it is. With the summaries comes the
  working source at that time.
\<close>

datatype attempt_answer =
    Summaries "managed_agent list" working_source
  | Completed
  | Rejected

definition endAttempt :: "string \<Rightarrow> policy_state \<Rightarrow> policy_state" where
  "endAttempt pubkey s =
     s\<lparr>ps_inFlight := filter (\<lambda>p. p \<noteq> pubkey) (ps_inFlight s), ps_awaits := jdel (ps_awaits s) pubkey\<rparr>"

definition recheckAttempt :: "string \<Rightarrow> managed_agent list \<Rightarrow> working_source \<Rightarrow> policy_state \<Rightarrow> policy_state" where
  "recheckAttempt pubkey fresh source s =
     (case find (\<lambda>a. mg_pubkey a = pubkey) fresh of
        None \<Rightarrow> endAttempt pubkey s
      | Some current \<Rightarrow>
          if \<not> mg_needsRestart current \<or> \<not> mg_autoRestartOnConfigChange current \<or>
             mg_status current \<noteq> ''running'' \<or> source \<noteq> FromNone
          then endAttempt pubkey s
          else s\<lparr>ps_awaits := jset (ps_awaits s) pubkey AwaitsStop, ps_commands := ps_commands s @ [StopAgent pubkey]\<rparr>)"

definition continueAttempt :: "string \<Rightarrow> attempt_answer \<Rightarrow> policy_state \<Rightarrow> policy_state" where
  "continueAttempt pubkey answer s =
     (case (jget (ps_awaits s) pubkey, answer) of
        (Some AwaitsSummaries, Summaries fresh source) \<Rightarrow> recheckAttempt pubkey fresh source s
      | (Some AwaitsStop, Completed) \<Rightarrow>
          s\<lparr>ps_awaits := jset (ps_awaits s) pubkey AwaitsStart, ps_commands := ps_commands s @ [StartAgent pubkey]\<rparr>
      | (Some AwaitsStart, Completed) \<Rightarrow> endAttempt pubkey s
      | (Some _, Rejected) \<Rightarrow> endAttempt pubkey s
      | _ \<Rightarrow> s)"

subsection \<open>Histories\<close>

record policy_render =
  rn_view :: policy_view
  rn_now :: int
  rn_agents :: "managed_agent list"

datatype policy_event =
    Render policy_render
  | Answer string attempt_answer

text \<open>Only an attempt under way goes on; renders list every agent once.\<close>

fun policyStep :: "policy_event \<Rightarrow> policy_state \<Rightarrow> policy_state" where
  "policyStep (Render r) s = renderPolicy (rn_view r) (rn_now r) (rn_agents r) s"
| "policyStep (Answer pubkey answer) s =
     (if pubkey \<in> set (ps_inFlight s) then continueAttempt pubkey answer s else s)"

definition policyAfter :: "policy_event list \<Rightarrow> policy_state" where
  "policyAfter events = fold policyStep events \<lparr>ps_edges = [], ps_inFlight = [], ps_awaits = [], ps_commands = []\<rparr>"

fun render_ok :: "policy_event \<Rightarrow> bool" where
  "render_ok (Render r) = distinct (map mg_pubkey (rn_agents r))"
| "render_ok _ = True"

text \<open>An agent that is quiet: drifted, running locally, connected, without any sign of work.\<close>

definition quiet :: "string \<Rightarrow> policy_render \<Rightarrow> bool" where
  "quiet pubkey r \<longleftrightarrow>
     list_ex (\<lambda>a. mg_pubkey a = pubkey \<and> mg_autoRestartOnConfigChange a \<and> mg_needsRestart a \<and>
         mg_backendType a = ''local'' \<and> mg_status a = ''running'') (rn_agents r) \<and>
     vw_connection (rn_view r) pubkey = Open \<and>
     \<not> wk_working (vw_working (rn_view r) pubkey) \<and> wk_source (vw_working (rn_view r) pubkey) = FromNone"

fun staysQuiet :: "string \<Rightarrow> policy_event \<Rightarrow> bool" where
  "staysQuiet pubkey (Render r) = quiet pubkey r"
| "staysQuiet pubkey _ = True"

text \<open>A render that ends an edge: the agent is gone, does not run, or has not drifted any more.\<close>

definition endsEdge :: "string \<Rightarrow> policy_render \<Rightarrow> bool" where
  "endsEdge pubkey r \<longleftrightarrow>
     \<not> list_ex (\<lambda>a. mg_pubkey a = pubkey \<and> mg_needsRestart a \<and> mg_status a = ''running'') (rn_agents r)"

definition fires :: "string \<Rightarrow> policy_event list \<Rightarrow> policy_render \<Rightarrow> bool" where
  "fires pubkey events r \<longleftrightarrow>
     pubkey \<notin> set (ps_inFlight (policyAfter events)) \<and> pubkey \<in> set (ps_inFlight (policyAfter (events @ [Render r])))"

subsection \<open>One agent of a render\<close>

lemma policyAfter_snoc [simp]: "policyAfter (events @ [e]) = policyStep e (policyAfter events)"
  by (simp add: policyAfter_def)

lemma continue_edges [simp]: "ps_edges (continueAttempt pubkey answer s) = ps_edges s"
  by (simp add: continueAttempt_def recheckAttempt_def endAttempt_def split: option.split attempt_await.split attempt_answer.split)

lemma continue_inFlight: "set (ps_inFlight (continueAttempt pubkey answer s)) \<subseteq> set (ps_inFlight s)"
  by (auto simp: continueAttempt_def recheckAttempt_def endAttempt_def
      split: option.splits attempt_await.splits attempt_answer.splits if_splits)

lemma continue_stops:
  "StopAgent pk \<in> set (ps_commands (continueAttempt pubkey answer s)) \<Longrightarrow>
    StopAgent pk \<in> set (ps_commands s) \<or> pk = pubkey"
  by (auto simp: continueAttempt_def recheckAttempt_def endAttempt_def
      split: option.splits attempt_await.splits attempt_answer.splits if_splits)

lemma policyAfter_Nil [simp]: "policyAfter [] = \<lparr>ps_edges = [], ps_inFlight = [], ps_awaits = [], ps_commands = []\<rparr>"
  by (simp add: policyAfter_def)

lemma evaluate_other:
  assumes "pk \<noteq> mg_pubkey a"
  shows "jget (ps_edges (evaluateAgent view now a s)) pk = jget (ps_edges s) pk"
    and "(pk \<in> set (ps_inFlight (evaluateAgent view now a s))) = (pk \<in> set (ps_inFlight s))"
    and "ps_commands (evaluateAgent view now a s) = ps_commands s"
  using assms by (auto simp: evaluateAgent_def Let_def sadd_def split: restart_decision.splits)

lemma evaluate_commands [simp]: "ps_commands (evaluateAgent view now a s) = ps_commands s"
  by (simp add: evaluateAgent_def Let_def split: restart_decision.splits)

lemma fold_evaluate_other:
  assumes "pk \<notin> mg_pubkey ` set agents"
  shows "jget (ps_edges (fold (evaluateAgent view now) agents s)) pk = jget (ps_edges s) pk \<and>
    (pk \<in> set (ps_inFlight (fold (evaluateAgent view now) agents s))) = (pk \<in> set (ps_inFlight s))"
  using assms by (induction agents arbitrary: s) (simp_all add: evaluate_other)

lemma fold_evaluate_commands [simp]: "ps_commands (fold (evaluateAgent view now) agents s) = ps_commands s"
  by (induction agents arbitrary: s) simp_all

lemma fold_evaluate:
  assumes "distinct (map mg_pubkey agents)" and "a \<in> set agents"
  shows "jget (ps_edges (fold (evaluateAgent view now) agents s)) (mg_pubkey a) =
      jget (ps_edges (evaluateAgent view now a s)) (mg_pubkey a)"
    and "(mg_pubkey a \<in> set (ps_inFlight (fold (evaluateAgent view now) agents s))) =
      (mg_pubkey a \<in> set (ps_inFlight (evaluateAgent view now a s)))"
proof -
  have same: "jget (ps_edges (evaluateAgent view now a s)) (mg_pubkey a) = jget (ps_edges (evaluateAgent view now a t)) (mg_pubkey a) \<and>
      (mg_pubkey a \<in> set (ps_inFlight (evaluateAgent view now a s))) = (mg_pubkey a \<in> set (ps_inFlight (evaluateAgent view now a t)))"
    if "jget (ps_edges s) (mg_pubkey a) = jget (ps_edges t) (mg_pubkey a)"
      "(mg_pubkey a \<in> set (ps_inFlight s)) = (mg_pubkey a \<in> set (ps_inFlight t))" for s t
    using that by (auto simp: evaluateAgent_def Let_def split: restart_decision.splits)
  obtain before later where split: "agents = before @ a # later" using assms(2) by (meson split_list)
  then have "mg_pubkey a \<notin> mg_pubkey ` set before" "mg_pubkey a \<notin> mg_pubkey ` set later" using assms(1) by auto
  note others = fold_evaluate_other [OF this(1), of view now s]
    fold_evaluate_other [OF this(2), of view now "evaluateAgent view now a (fold (evaluateAgent view now) before s)"]
  note step = same [of "fold (evaluateAgent view now) before s" s]
  show "jget (ps_edges (fold (evaluateAgent view now) agents s)) (mg_pubkey a) =
      jget (ps_edges (evaluateAgent view now a s)) (mg_pubkey a)"
    and "(mg_pubkey a \<in> set (ps_inFlight (fold (evaluateAgent view now) agents s))) =
      (mg_pubkey a \<in> set (ps_inFlight (evaluateAgent view now a s)))"
    using others step by (simp_all add: split)
qed

lemma jget_filter_keys: "jget (filter (\<lambda>(k, _). k \<in> K) m) pk = (if pk \<in> K then jget m pk else None)"
  by (induction m) auto

text \<open>What a render does to an agent: nothing is left of one that it does not list.\<close>

lemma render_absent:
  assumes "pk \<notin> mg_pubkey ` set agents"
  shows "jget (ps_edges (renderPolicy view now agents s)) pk = None"
    and "(pk \<in> set (ps_inFlight (renderPolicy view now agents s))) = (pk \<in> set (ps_inFlight s))"
  using assms fold_evaluate_other [OF assms, of view now s]
  by (simp_all add: renderPolicy_def Let_def jget_filter_keys)

lemma render_present:
  assumes "distinct (map mg_pubkey agents)" and "a \<in> set agents"
  shows "jget (ps_edges (renderPolicy view now agents s)) (mg_pubkey a) = jget (ps_edges (evaluateAgent view now a s)) (mg_pubkey a)"
    and "(mg_pubkey a \<in> set (ps_inFlight (renderPolicy view now agents s))) = (mg_pubkey a \<in> set (ps_inFlight (evaluateAgent view now a s)))"
  using assms fold_evaluate [OF assms, of view now s]
  by (simp_all add: renderPolicy_def Let_def jget_filter_keys)

lemma render_commands [simp]: "ps_commands (renderPolicy view now agents s) = ps_commands s"
  by (simp add: renderPolicy_def Let_def)

subsection \<open>Quiet time\<close>

lemma not_hold_quiet:
  assumes "a \<in> set (rn_agents r)"
    and "decideAutoRestart (agentInputs (rn_view r) (rn_now r) a edge) \<noteq> Hold"
  shows "quiet (mg_pubkey a) r" and "\<not> ed_consumed edge"
  using assms
  by (auto simp: quiet_def list_ex_iff decideAutoRestart_def agentInputs_def split: if_splits)

lemma armed_before:
  "ed_armedAt (nextEdgeState previous needs runs) = Some a \<Longrightarrow> \<exists>e. previous = Some e \<and> ed_armedAt e = Some a"
  by (auto simp: nextEdgeState_def Let_def split: option.splits if_splits)

text \<open>An edge that is armed since a time was armed by a render of that time and quiet since.\<close>

definition quietSince :: "string \<Rightarrow> int \<Rightarrow> policy_event list \<Rightarrow> bool" where
  "quietSince pk t events \<longleftrightarrow>
     (\<exists>xs r ys. events = xs @ Render r # ys \<and> rn_now r = t \<and> quiet pk r \<and> list_all (staysQuiet pk) ys)"

lemma quietSince_snoc: "quietSince pk t events \<Longrightarrow> staysQuiet pk e \<Longrightarrow> quietSince pk t (events @ [e])"
proof -
  assume "quietSince pk t events" "staysQuiet pk e"
  then obtain xs r ys where "events = xs @ Render r # ys" "rn_now r = t" "quiet pk r" "list_all (staysQuiet pk) (ys @ [e])"
    by (auto simp: quietSince_def)
  then show ?thesis unfolding quietSince_def by (metis append.assoc append_Cons)
qed

lemma quietSince_now: "quiet pk r \<Longrightarrow> quietSince pk (rn_now r) (events @ [Render r])"
  unfolding quietSince_def by (intro exI [of _ events] exI [of _ r] exI [of _ "[]"]) simp

lemma armed_quiet:
  assumes "list_all render_ok events"
    and "jget (ps_edges (policyAfter events)) pk = Some edge" and "ed_armedAt edge = Some t"
  shows "quietSince pk t events"
  using assms
proof (induction events arbitrary: edge rule: rev_induct)
  case (snoc e events)
  have IH: "quietSince pk t' events"
    if "jget (ps_edges (policyAfter events)) pk = Some edge'" "ed_armedAt edge' = Some t'" "t' = t" for edge' t'
    using snoc that by simp
  show ?case
  proof (cases e)
    case (Answer pubkey answer)
    then have "jget (ps_edges (policyAfter events)) pk = Some edge"
      using snoc.prems(2) by (auto split: if_splits)
    then show ?thesis using IH snoc.prems(3) Answer by (simp add: quietSince_snoc)
  next
    case (Render r)
    let ?s = "policyAfter events"
    have after: "jget (ps_edges (renderPolicy (rn_view r) (rn_now r) (rn_agents r) ?s)) pk = Some edge"
      using snoc.prems(2) Render by simp
    then obtain a where a: "a \<in> set (rn_agents r)" "mg_pubkey a = pk"
      using render_absent(1) [of pk "rn_agents r"] by fastforce
    have ok: "distinct (map mg_pubkey (rn_agents r))" using snoc.prems(1) Render by simp
    define prior where "prior = nextEdgeState (jget (ps_edges ?s) pk) (mg_needsRestart a) (mg_status a = ''running'')"
    let ?decision = "decideAutoRestart (agentInputs (rn_view r) (rn_now r) a prior)"
    have edge: "jget (ps_edges (evaluateAgent (rn_view r) (rn_now r) a ?s)) pk = Some edge"
      using after render_present(1) [OF ok a(1), of "rn_view r" "rn_now r" ?s] a(2) by simp
    have "?decision \<noteq> Hold"
      using edge snoc.prems(3) a(2) by (auto simp: evaluateAgent_def Let_def prior_def [symmetric])
    then have quiet: "quiet pk r" using not_hold_quiet(1) [OF a(1)] a(2) by blast
    then have extend: ?thesis if "quietSince pk t events" using that quietSince_snoc [of pk t events e] Render by simp
    show ?thesis
    proof (cases ?decision)
      case Arm
      then have t: "t = (case ed_armedAt prior of Some a \<Rightarrow> a | None \<Rightarrow> rn_now r)"
        using edge snoc.prems(3) a(2) by (auto simp: evaluateAgent_def Let_def prior_def [symmetric])
      show ?thesis
      proof (cases "ed_armedAt prior")
        case None
        then show ?thesis using t quiet quietSince_now Render by simp
      next
        case (Some t')
        then obtain edge' where "jget (ps_edges ?s) pk = Some edge'" "ed_armedAt edge' = Some t'"
          using armed_before unfolding prior_def by blast
        then show ?thesis using extend IH t Some by simp
      qed
    next
      case Fire
      then have "jget (ps_edges ?s) pk = Some edge"
        using edge snoc.prems(3) a(2) by (auto simp: evaluateAgent_def Let_def prior_def [symmetric] split: if_splits)
      then show ?thesis using IH snoc.prems(3) extend by simp
    qed (use \<open>?decision \<noteq> Hold\<close> in simp)
  qed
qed simp

lemma fires_quiet:
  assumes "list_all render_ok (events @ [Render r])" and "fires pk events r"
  shows "quiet pk r \<and> (\<exists>t. quietSince pk t events \<and> AUTO_RESTART_QUIESCENCE_MS \<le> rn_now r - t)"
proof -
  let ?s = "policyAfter events"
  have new: "pk \<notin> set (ps_inFlight ?s)" "pk \<in> set (ps_inFlight (renderPolicy (rn_view r) (rn_now r) (rn_agents r) ?s))"
    using assms(2) by (simp_all add: fires_def)
  then obtain a where a: "a \<in> set (rn_agents r)" "mg_pubkey a = pk"
    using render_absent(2) [of pk "rn_agents r"] by fastforce
  have ok: "distinct (map mg_pubkey (rn_agents r))" using assms(1) by simp
  define prior where "prior = nextEdgeState (jget (ps_edges ?s) pk) (mg_needsRestart a) (mg_status a = ''running'')"
  have "pk \<in> set (ps_inFlight (evaluateAgent (rn_view r) (rn_now r) a ?s))"
    using new(2) render_present(2) [OF ok a(1), of "rn_view r" "rn_now r" ?s] a(2) by simp
  then have fire: "decideAutoRestart (agentInputs (rn_view r) (rn_now r) a prior) = Fire"
    using new(1) a(2) by (auto simp: evaluateAgent_def Let_def prior_def [symmetric] split: restart_decision.splits)
  then have quiet: "quiet pk r" using not_hold_quiet(1) [OF a(1), of prior] a(2) by simp
  have "AUTO_RESTART_QUIESCENCE_MS \<le> (case ed_armedAt prior of None \<Rightarrow> 0 | Some t \<Rightarrow> rn_now r - t)"
    using fire by (auto simp: decideAutoRestart_def agentInputs_def split: if_splits)
  then obtain t where t: "ed_armedAt prior = Some t" "AUTO_RESTART_QUIESCENCE_MS \<le> rn_now r - t"
    by (auto simp: AUTO_RESTART_QUIESCENCE_MS_def split: option.splits)
  then obtain edge where "jget (ps_edges ?s) pk = Some edge" "ed_armedAt edge = Some t"
    using armed_before unfolding prior_def by blast
  then have "quietSince pk t events" using armed_quiet assms(1) by simp
  then show ?thesis using quiet t(2) by blast
qed

lemma in_flight_fired:
  "pk \<in> set (ps_inFlight (policyAfter events)) \<Longrightarrow> \<exists>xs r ys. events = xs @ Render r # ys \<and> fires pk xs r"
proof (induction events rule: rev_induct)
  case (snoc e events)
  show ?case
  proof (cases "pk \<in> set (ps_inFlight (policyAfter events))")
    case True
    then obtain xs r ys where "events @ [e] = xs @ Render r # (ys @ [e])" "fires pk xs r" using snoc.IH by auto
    then show ?thesis by blast
  next
    case False
    then obtain r where "e = Render r" using snoc.prems continue_inFlight by (cases e) (auto split: if_splits)
    then show ?thesis using False snoc.prems unfolding fires_def by (metis append.right_neutral)
  qed
qed simp

lemma stop_fired:
  "StopAgent pk \<in> set (ps_commands (policyAfter events)) \<Longrightarrow> \<exists>xs r ys. events = xs @ Render r # ys \<and> fires pk xs r"
proof (induction events rule: rev_induct)
  case (snoc e events)
  have extend: ?case if "\<exists>xs r ys. events = xs @ Render r # ys \<and> fires pk xs r"
    using that by (metis append.assoc append_Cons)
  show ?case
  proof (cases "StopAgent pk \<in> set (ps_commands (policyAfter events))")
    case False
    then have "pk \<in> set (ps_inFlight (policyAfter events))"
      using snoc.prems continue_stops by (cases e) (auto split: if_splits)
    then show ?thesis using extend in_flight_fired by blast
  qed (use extend snoc.IH in blast)
qed simp

text \<open>
  C20. The policy stops an agent only after three minutes without a sign of work: every stop command goes
  back to two renders at least \<open>AUTO_RESTART_QUIESCENCE_MS\<close> apart such that in both and in every render
  between them the agent was enabled for restarts, drifted, running locally, connected and idle.
\<close>

theorem stops_only_quiet_agents:
  assumes "list_all render_ok events" and "StopAgent pk \<in> set (ps_commands (policyAfter events))"
  shows "\<exists>before r0 between r after. events = before @ Render r0 # between @ Render r # after \<and>
    quiet pk r0 \<and> list_all (staysQuiet pk) between \<and> quiet pk r \<and> 180000 \<le> rn_now r - rn_now r0"
proof -
  obtain xs r ys where split: "events = xs @ Render r # ys" "fires pk xs r" using stop_fired [OF assms(2)] by blast
  then have "list_all render_ok (xs @ [Render r])" using assms(1) by simp
  from fires_quiet [OF this split(2)] obtain t where t: "quiet pk r" "quietSince pk t xs" "180000 \<le> rn_now r - t"
    by (auto simp: AUTO_RESTART_QUIESCENCE_MS_def)
  then obtain before r0 between where "xs = before @ Render r0 # between" "rn_now r0 = t" "quiet pk r0" "list_all (staysQuiet pk) between"
    by (auto simp: quietSince_def)
  then show ?thesis using split(1) t by (intro exI [of _ before] exI [of _ r0] exI [of _ between] exI [of _ r] exI [of _ ys]) simp
qed

subsection \<open>One attempt for an edge\<close>

lemma fires_consumes:
  assumes "render_ok (Render r)" and "fires pk events r"
  shows "\<exists>edge. jget (ps_edges (policyAfter (events @ [Render r]))) pk = Some edge \<and> ed_consumed edge"
proof -
  let ?s = "policyAfter events"
  have new: "pk \<notin> set (ps_inFlight ?s)" "pk \<in> set (ps_inFlight (renderPolicy (rn_view r) (rn_now r) (rn_agents r) ?s))"
    using assms(2) by (simp_all add: fires_def)
  then obtain a where a: "a \<in> set (rn_agents r)" "mg_pubkey a = pk"
    using render_absent(2) [of pk "rn_agents r"] by fastforce
  have ok: "distinct (map mg_pubkey (rn_agents r))" using assms(1) by simp
  note present = render_present [OF ok a(1), of "rn_view r" "rn_now r" ?s]
  then show ?thesis
    using new a(2) by (auto simp: evaluateAgent_def Let_def split: restart_decision.splits)
qed

lemma consumed_stays:
  assumes "render_ok e" and "jget (ps_edges s) pk = Some edge" and "ed_consumed edge"
    and "\<And>r. e = Render r \<Longrightarrow> \<not> endsEdge pk r"
  shows "(\<exists>edge. jget (ps_edges (policyStep e s)) pk = Some edge \<and> ed_consumed edge) \<and>
    (pk \<in> set (ps_inFlight (policyStep e s)) \<longrightarrow> pk \<in> set (ps_inFlight s))"
proof (cases e)
  case (Render r)
  then obtain a where a: "a \<in> set (rn_agents r)" "mg_pubkey a = pk" "mg_needsRestart a" "mg_status a = ''running''"
    using assms(4) by (auto simp: endsEdge_def list_ex_iff)
  have ok: "distinct (map mg_pubkey (rn_agents r))" using assms(1) Render by simp
  have "nextEdgeState (jget (ps_edges s) pk) (mg_needsRestart a) (mg_status a = ''running'') = edge"
    using a assms(2) by (simp add: nextEdgeState_def)
  moreover have "decideAutoRestart (agentInputs (rn_view r) (rn_now r) a edge) = Hold"
    using assms(3) by (simp add: decideAutoRestart_def agentInputs_def)
  ultimately show ?thesis
    using render_present [OF ok a(1), of "rn_view r" "rn_now r" s] a(2) assms(3) Render
    by (simp add: evaluateAgent_def)
qed (use assms continue_inFlight in auto)

text \<open>
  C21. One attempt for a drift: between two renders that start an attempt for the same agent there is a
  render in which the agent is gone, does not run, or has no drift any more.
\<close>

theorem one_attempt_per_edge:
  assumes "list_all render_ok (events @ [Render r1] @ between @ [Render r2])"
    and "fires pk events r1" and "fires pk (events @ [Render r1] @ between) r2"
  shows "\<exists>r. Render r \<in> set between \<and> endsEdge pk r"
proof (rule ccontr)
  assume none: "\<not> ?thesis"
  have "\<exists>edge. jget (ps_edges (policyAfter (events @ [Render r1] @ es))) pk = Some edge \<and> ed_consumed edge"
    if "set es \<subseteq> set between" for es
    using that
  proof (induction es rule: rev_induct)
    case Nil
    then show ?case using fires_consumes [OF _ assms(2)] assms(1) by simp
  next
    case (snoc e es)
    then obtain edge where "jget (ps_edges (policyAfter (events @ [Render r1] @ es))) pk = Some edge" "ed_consumed edge" by auto
    moreover have "render_ok e" using snoc.prems assms(1) by (auto simp: list_all_iff)
    moreover have "\<not> endsEdge pk r" if "e = Render r" for r using that none snoc.prems by auto
    ultimately show ?case
      using consumed_stays [of e "policyAfter (events @ [Render r1] @ es)" pk edge]
        policyAfter_snoc [of "events @ [Render r1] @ es" e] by simp
  qed
  from this [of between] obtain edge where
    "jget (ps_edges (policyAfter (events @ [Render r1] @ between))) pk = Some edge" "ed_consumed edge" by blast
  moreover have "render_ok (Render r2)" using assms(1) by simp
  moreover have "\<not> endsEdge pk r2"
    using fires_quiet [of "events @ [Render r1] @ between" r2 pk] assms(1,3) by (auto simp: quiet_def endsEdge_def list_ex_iff)
  ultimately have "pk \<in> set (ps_inFlight (policyAfter (events @ [Render r1] @ between)))"
    using consumed_stays [of "Render r2" "policyAfter (events @ [Render r1] @ between)" pk edge] assms(3)
      policyAfter_snoc [of "events @ [Render r1] @ between" "Render r2"]
    by (auto simp: fires_def simp del: policyStep.simps)
  then show False using assms(3) by (simp add: fires_def)
qed

subsection \<open>A history\<close>

text \<open>Two renders three minutes apart, the attempt that follows, and a render that sees the agent stopped.\<close>

definition idle_view :: policy_view where
  "idle_view = \<lparr>vw_working = (\<lambda>_. \<lparr>wk_working = False, wk_source = FromNone, wk_channels = []\<rparr>),
     vw_connection = (\<lambda>_. Open)\<rparr>"

definition drifted_agent :: "string \<Rightarrow> managed_agent" where
  "drifted_agent status =
     \<lparr>mg_pubkey = ''a'', mg_status = status, mg_needsRestart = True, mg_autoRestartOnConfigChange = True,
      mg_backendType = ''local''\<rparr>"

definition idle_render :: "int \<Rightarrow> policy_render" where
  "idle_render now = \<lparr>rn_view = idle_view, rn_now = now, rn_agents = [drifted_agent ''running'']\<rparr>"

definition stopped_render :: "int \<Rightarrow> policy_render" where
  "stopped_render now = \<lparr>rn_view = idle_view, rn_now = now, rn_agents = [drifted_agent ''stopped'']\<rparr>"

definition attempt_events :: "policy_event list" where
  "attempt_events =
     [Render (idle_render 0), Render (idle_render 180000),
      Answer ''a'' (Summaries [drifted_agent ''running''] FromNone), Answer ''a'' Completed, Answer ''a'' Completed]"

lemmas sample_policy = idle_view_def drifted_agent_def idle_render_def stopped_render_def attempt_events_def
  policyAfter_def renderPolicy_def evaluateAgent_def nextEdgeState_def decideAutoRestart_def agentInputs_def
  AUTO_RESTART_QUIESCENCE_MS_def continueAttempt_def recheckAttempt_def endAttempt_def sadd_def

theorem stops_only_quiet_agents_witness:
  "ps_commands (policyAfter attempt_events) = [StopAgent ''a'', StartAgent ''a''] \<and>
   (\<exists>before r0 between r after. attempt_events = before @ Render r0 # between @ Render r # after \<and>
    quiet ''a'' r0 \<and> list_all (staysQuiet ''a'') between \<and> quiet ''a'' r \<and> 180000 \<le> rn_now r - rn_now r0)"
proof -
  have "ps_commands (policyAfter attempt_events) = [StopAgent ''a'', StartAgent ''a'']" "list_all render_ok attempt_events"
    by (simp_all add: sample_policy)
  then show ?thesis using stops_only_quiet_agents [of attempt_events "''a''"] by simp
qed

theorem one_attempt_per_edge_witness:
  "\<exists>r. Render r \<in> set [Answer ''a'' Rejected, Render (stopped_render 180001), Render (idle_render 180002)] \<and> endsEdge ''a'' r"
proof -
  let ?events = "[Render (idle_render 0)]"
  let ?between = "[Answer ''a'' Rejected, Render (stopped_render 180001), Render (idle_render 180002)]"
  have "list_all render_ok (?events @ [Render (idle_render 180000)] @ ?between @ [Render (idle_render 360002)])"
    and "fires ''a'' ?events (idle_render 180000)"
    and "fires ''a'' (?events @ [Render (idle_render 180000)] @ ?between) (idle_render 360002)"
    by (simp_all add: fires_def sample_policy)
  then show ?thesis by (rule one_attempt_per_edge)
qed

end
