(* ===== verification/Spec2Isabelle.thy ===== *)
theory Spec2Isabelle
  imports WorkingSignal UnreadCounts Timeout Timeline TranscriptPermissions GroupingBlocks SectionsOrder SidebarSort Inbox
    TimelineVirtual TimelineSnapshot MessageReconcile Audience AutoRestart
begin

text \<open>
  The client state of the tic-tac-toe desktop application (\<open>src/desktop/src\<close>, TypeScript).

  \<^bold>\<open>The program.\<close> The desktop client shows channels, threads and the work of agents. Relay events
  reach it through the native side; plain TypeScript modules keep them in stores and derive what the
  React views show. The verified part is these modules:

  \<^item> a channel's events live in the channel window store: pages of history, a live overlay, auxiliary
    events and thread summaries (\<open>features/messages/lib/channelWindowStore.ts\<close>, filled by the parser
    of \<open>channelWindowResponse.ts\<close>). The window is projected onto the message cache, beside pending sends
    and thread replies (\<open>channelWindowReconciliation.ts\<close>, \<open>messageMerge.ts\<close>, \<open>messageQueryKeys.ts\<close>). Events
    become rows (\<open>formatTimelineMessages.ts\<close>, with authors and labels from \<open>shared/lib/authors.ts\<close> and
    \<open>features/profile/lib/identity.ts\<close>), rows become timeline entries and thread panels
    (\<open>threadPanel.ts\<close>), and entries become the items of the list with day dividers, groups of membership
    changes and keys (\<open>timelineItems.ts\<close>, \<open>virtualizedTimelineItems.ts\<close>, \<open>timelineSnapshot.ts\<close>);
  \<^item> what has been read is kept by the read state manager (\<open>features/channels/readState\<close>) in the quota
    aware storage (\<open>shared/lib/localStorageQuota.ts\<close>) and in relay blobs with a byte budget; unread
    counts (\<open>features/channels/unreadChannelCounts.ts\<close>, \<open>features/messages/lib/unreadMarker.ts\<close>)
    compare observed events with its markers;
  \<^item> frames of agents reach the observer store (\<open>features/agents/observerRelayStore.ts\<close>), which folds
    them into the transcript of a session (\<open>features/agents/ui/agentSessionTranscript.ts\<close>, with the
    catalogue and the classifier of tools and \<open>friendlyAgentLastError.ts\<close>); the transcript is cut into the
    blocks of the feed (\<open>agentSessionTranscriptGrouping.ts\<close>). The active turn store
    (\<open>activeAgentTurnsStore.ts\<close>) synchronises from the same buffers, and the working signal
    (\<open>agentWorkingSignal.ts\<close>) merges turns with typing reports. Reading both, the restart policy
    (\<open>lib/autoRestartPolicy.ts\<close>, \<open>lib/useAutoRestartPolicy.ts\<close>) restarts agents whose configuration drifted;
  \<^item> threads keep the agents they address (\<open>features/messages/lib/persistentAgentAudience.ts\<close>);
  \<^item> the sidebar keeps sections, mutes, stars and sort modes of channels in local storage and merges them
    between devices (\<open>features/sidebar/lib\<close>);
  \<^item> events notify and fill the home feed, its badge and its inbox
    (\<open>features/notifications/lib\<close>, \<open>features/home/lib/inbox.ts\<close>);
  \<^item> a refused send sets the community timeout (\<open>features/moderation/lib\<close>).

  \<^bold>\<open>Theories.\<close> A store that the source keeps in module variables or a class is a record; every
  exported operation and every callback is one definition from the old store to the new one.

  \<^item> \<open>Prelude\<close>: JavaScript's maps, sets, stable sort and strings; the locales \<open>keyed_store\<close>,
    \<open>keyed_comparator\<close> and \<open>announcer\<close> (an operation that does not notify changes nothing a listener
    reads). \<open>Buffers\<close>: the locale \<open>newest_buffer\<close> of bounded buffers that keep the newest elements
    whatever the order of arrival; the observer buffers and the unread maps interpret it.
    \<open>Json\<close>: \<open>JSON.parse\<close> and \<open>JSON.stringify\<close> with their round trip. \<open>JsText\<close>: searching, splitting and
    the scanners of the source's regular expressions.
  \<^item> \<open>RelayEvents\<close>: events, kinds and \<open>threading.ts\<close>; tags written for a reply read back as its
    thread reference.
  \<^item> \<open>ChannelWindow\<close>: the window store and its parser. Validity of a page, the invariant of every
    reachable store (by the operations the application calls; \<open>mapChannelWindowEvents\<close> is used by tests only),
    the flattened timeline, completeness of live merges, when older history can be
    appended. Errors thrown by the source are the values of \<open>window_error\<close>.
  \<^item> \<open>MessageMerge\<close>, \<open>MessageReconcile\<close>: the message lists. Arrivals converge to the sorted list; the
    projection keeps the window's rows in order and moves the render key of an acknowledged send. The
    registry of history scopes announces every change of a cache key.
  \<^item> \<open>LocalStorage\<close>, \<open>ReadState\<close>: writing with eviction and retry (locale \<open>kv_storage\<close>), pruning,
    trimming and splitting the markers within their budgets, the manager with its persistence; an
    exception of \<open>toISOString\<close> is the value \<open>js_throw\<close>.
  \<^item> \<open>Observer\<close>: the observer store with its queue of tasks, generation guard, archive paging and agent
    management requests. The transcript step may throw; every operation that calls it returns, beside the
    store it leaves, whether it threw. Buffers converge, snapshots are current, stale tasks are inert, older
    history of a channel is reached twenty pages at a time, accepted requests are normal forms.
  \<^item> \<open>ToolCatalog\<close>, \<open>ToolClassifier\<close>, \<open>Prompts\<close>, \<open>Transcript\<close>: names and classes of tools, the readers of
    prompts, plans and errors, and the reducer over frames with one handler per kind of frame.
    \<open>TranscriptOrder\<close>, \<open>TranscriptText\<close>, \<open>TranscriptPermissions\<close>: items only grow at the end, no chunk
    of a message is lost, tool calls do not go back, answers meet their requests. \<open>Prompts\<close> shows that a
    framed system prompt reads back as its sections, whichever are present.
  \<^item> \<open>Grouping\<close> models the blocks of the feed; \<open>GroupingRows\<close>, \<open>GroupingRuns\<close> and \<open>GroupingBlocks\<close> show
    that rows, runs and blocks account for every item once, and that older history leaves the keys from every
    change of session on as they are.
  \<^item> \<open>ActiveTurns\<close>, \<open>WorkingSignal\<close>: turns, liveness, pruning, tombstones, community snapshots, and
    the three views of working agents with their caches. Replays are no-ops, completed turns stay
    completed, caches never show in an answer, the views agree. The cap on turns needs that no frame names its
    turn with the empty string (\<open>named\<close>), which the schema of frames allows; the reads of the signal are for keys
    without a bar and channel ids that are not empty (\<open>plainQuery\<close>), since its cache joins both with a bar.
  \<^item> \<open>AutoRestart\<close>: the restart policy as a machine over renders and answers of the native side. Only agents
    that were quiet for three minutes are stopped, once for a drift.
  \<^item> \<open>Audience\<close>: the addressed agents of threads. Promotions are guarded by generation and revision, and
    what is written is what a new session reads.
  \<^item> \<open>ThreadPanel\<close>: the thread index, summaries and visible rows. Descendants are counted once, opening
    a thread returns, and visible rows account for all replies.
  \<^item> \<open>Identity\<close>, \<open>Timeline\<close>: who an event is from, and the rows of a timeline: deletions, latest edit,
    reaction pills, depths, counted rows.
  \<^item> \<open>DateFormat\<close>, \<open>TimelineItems\<close> model the items of the list; \<open>TimelineRows\<close>, \<open>TimelineSections\<close>,
    \<open>TimelineKeys\<close> and \<open>TimelineVirtual\<close> show that every entry has one row under the heading of its day,
    that the flags of neighbours agree, and that older history is an exact prefix of the row stream unless
    leading content was shown before it.
    \<open>TimelineSnapshot\<close>: the decisions on a snapshot of the list.
  \<^item> \<open>Flags\<close> (locale \<open>persisted_store\<close>), \<open>Sections\<close>, \<open>SectionsReload\<close>, \<open>SectionsOrder\<close>, \<open>SidebarSort\<close>: the
    sidebar. What is stored is what is shown after a reload, the merge of two devices converges, moving
    and reordering show the intended order, the sort modes are total orders.
  \<^item> \<open>Notifications\<close>, \<open>Inbox\<close>: what notifies, the texts and the badge, and the conversations of the inbox.
  \<^item> \<open>UnreadCounts\<close>, \<open>Timeout\<close>: bounded observed events, the counts that reading a thread lowers, and
    the timeout that blocks until its expiry.
  \<^item> This theory: the rows shown for a channel window, from the store to the screen, and the feed that
    the observer store shows for an agent, with the transcript as its fold: its invariant, also after frames on which the
    reducer throws, and its messages in the order of time.

  \<^bold>\<open>Parameters.\<close> \<open>Date.now\<close> is an argument (\<open>now\<close>); \<open>Date.parse\<close>, \<open>toISOString\<close>,
  \<open>String.localeCompare\<close>, \<open>Intl.DateTimeFormat\<close> and the time zone (\<open>local_time\<close>, \<open>calendar\<close>) are function
  arguments, because their results depend on the engine's tables; so are \<open>Number(x)\<close>, \<open>toFixed(4)\<close>, the
  value of a fractional literal and the successor of a fractional number, \<open>randomUUID\<close> and the decryption
  of a frame. \<open>Observer\<close> is stated for any transcript fold that may throw; this theory instantiates it with
  the reducer of \<open>Transcript\<close>. A JSON number with a point or an exponent is kept as its literal and is no
  integer, also \<open>1.0\<close> and \<open>1e3\<close>, which \<open>JSON.stringify\<close> prints without them. Strings hold
  the code units below 256; the dash and the ellipsis of the source, which lie above, are arguments.
  Numbers are unbounded integers where the code only adds, compares and subtracts timestamps and counters
  far below the range where doubles lose them; the times of the synced flags and the orders of sections,
  which another device may write as any number, are the type \<open>js_number\<close>.

  \<^bold>\<open>Loops.\<close> Recursion is structural wherever the source loops over an array. \<open>getDepth\<close> recurs along
  parents and terminates because its set of events under way grows; the walk up the ancestors in
  \<open>creditAncestors\<close> carries the bound of the source (the number of messages plus one);
  \<open>JSON_parse\<close> has fuel of twice the length of the text, enough for every printed value;
  the loop over timeline entries (\<open>walk\<close>) jumps over groups and terminates because its index grows, the
  search for groups (\<open>groupsBelow\<close>) because its index falls;
  \<open>expandReplies\<close> has no bound in the source and is a partial function whose termination without
  reply cycles is proved.

  \<^bold>\<open>Not modelled.\<close> React components and hooks, styles and themes (rendering and browser events), the
  estimate of row heights among them; the Tauri bindings and the Rust crates (another language, reached
  by asynchronous calls); tests and test bridges; the editor extensions, drafts, native messaging and
  search, onboarding, workflows and huddles, which are mostly calls of the native side and views of
  their answers.
\<close>

subsection \<open>From the window store to the rows of the timeline\<close>

lemma formatTimelineMessages_ids:
  "map tm_id (formatTimelineMessages ell fmt lcmp opts events) = map ev_id (visibleEvents events)"
  unfolding formatTimelineMessages_def by (rule formatRows_map) simp

lemma formatTimelineMessages_times:
  "map tm_createdAt (formatTimelineMessages ell fmt lcmp opts events) = map ev_created_at (visibleEvents events)"
  unfolding formatTimelineMessages_def by (rule formatRows_map) simp

lemma sorted_times_flatten: "sorted (map ev_created_at (flattenChannelWindowEvents s))"
proof -
  have "ev_created_at e \<le> ev_created_at e'" if "chronPos e \<le> chronPos e'" for e e'
    using that by (auto simp: chronPos_def relayPos_def less_eq_chron_pos_def less_eq_relay_pos_def)
  then show ?thesis
    using sorted_flatten [of s] by (auto simp: sorted_map intro: sorted_wrt_mono_rel [rotated])
qed

text \<open>
  C34. The rows that a channel shows for its window: in the order of time, each id once, and exactly
  the events of a content kind that the window holds and no deletion of the window names.
\<close>

theorem window_rows:
  "sorted (map tm_createdAt (formatTimelineMessages ell fmt lcmp opts (flattenChannelWindowEvents s))) \<and>
   distinct (map tm_id (formatTimelineMessages ell fmt lcmp opts (flattenChannelWindowEvents s))) \<and>
   tm_id ` set (formatTimelineMessages ell fmt lcmp opts (flattenChannelWindowEvents s)) =
     ev_id ` {e \<in> set (flattenChannelWindowEvents s). ev_kind e \<in> set CHANNEL_TIMELINE_CONTENT_KINDS} -
     {target. \<exists>e\<in>set (flattenChannelWindowEvents s). ev_kind e \<in> {5, 9005} \<and> target \<in> set (getDeletionTargets (ev_tags e))}"
proof (intro conjI)
  let ?es = "flattenChannelWindowEvents s"
  show "sorted (map tm_createdAt (formatTimelineMessages ell fmt lcmp opts ?es))"
    using sorted_times_flatten [of s]
    by (simp only: formatTimelineMessages_times visibleEvents_def sorted_filter)
  show "distinct (map tm_id (formatTimelineMessages ell fmt lcmp opts ?es))"
    using distinct_flatten [of s] by (simp only: formatTimelineMessages_ids visibleEvents_def distinct_map_filter)
  have "tm_id ` set (formatTimelineMessages ell fmt lcmp opts ?es) = ev_id ` set (visibleEvents ?es)"
    using arg_cong [OF formatTimelineMessages_ids [of ell fmt lcmp opts ?es], of set] by simp
  also have "\<dots> = ev_id ` {e \<in> set ?es. ev_kind e \<in> set CHANNEL_TIMELINE_CONTENT_KINDS} - set (deletedEventIds ?es)"
    by (auto simp: visibleEvents_def content_kinds)
  finally show "tm_id ` set (formatTimelineMessages ell fmt lcmp opts ?es) =
      ev_id ` {e \<in> set ?es. ev_kind e \<in> set CHANNEL_TIMELINE_CONTENT_KINDS} -
      {target. \<exists>e\<in>set ?es. ev_kind e \<in> {5, 9005} \<and> target \<in> set (getDeletionTargets (ev_tags e))}"
    by (simp add: set_deletedEventIds isDeletion_def KIND_DELETION_def KIND_NIP29_DELETE_EVENT_def)
qed

subsection \<open>From the observer store to the feed of an agent\<close>

abbreviation feed_reachable ::
  "(string \<Rightarrow> int option) \<Rightarrow> string \<Rightarrow> (jsval \<Rightarrow> jsval) \<Rightarrow> (jsval \<Rightarrow> string) \<Rightarrow> transcript_state observer_store \<Rightarrow> bool" where
  "feed_reachable dp dash number fixed4 \<equiv>
     observer_reachable dp (processTranscriptEvent dash number fixed4) createEmptyTranscriptState"

text \<open>The frames on which the reducer throws.\<close>

definition throwing_frame :: "observer_event \<Rightarrow> bool" where
  "throwing_frame e \<longleftrightarrow> isUpdateFrame ''config_option_update'' e \<and> nullOption e"

lemma transcript_defined:
  "transcriptAfter dash number fixed4 es \<noteq> None \<longleftrightarrow> \<not> list_ex throwing_frame es"
  unfolding transcript_None throwing_frame_def list_ex_iff by blast

text \<open>
  C31. In every store that the observer's operations reach, with the transcript as its fold, frames whose
  timestamps \<open>Date.parse\<close> accepts and whatever throws on the way: the buffer of an agent is in order, without repeated frames and within its cap; so
  are the archive windows; the trusted agents are the union over the subscribers; and the feed is the
  transcript of the buffer, unless the buffer holds a configuration update with a null option.
\<close>

theorem observer_feed_invariant:
  assumes "feed_reachable dp dash number fixed4 s"
  shows "ordered_frames dp (agentBuffer s key) \<and> length (agentBuffer s key) \<le> 3000 \<and>
    ordered_frames dp (jget_or (ob_archiveEventsByChannel s) akey []) \<and>
    set (ob_knownAgentPubkeys s) = \<Union> (set ` set (jvals (ob_knownAgentsBySubscription s))) \<and>
    (list_ex throwing_frame (agentBuffer s key) \<or>
     transcriptAfter dash number fixed4 (agentBuffer s key) =
       Some (jget_or (ob_transcriptByAgent s) key createEmptyTranscriptState))"
proof -
  have wf: "observer_wf dp (processTranscriptEvent dash number fixed4) createEmptyTranscriptState s"
    by (rule reachable_wf [OF assms])
  then have "transcriptAfter dash number fixed4 (agentBuffer s key) =
      Some (jget_or (ob_transcriptByAgent s) key createEmptyTranscriptState)"
    if "\<not> list_ex throwing_frame (agentBuffer s key)"
    using that transcript_defined [of dash number fixed4 "agentBuffer s key"] by (auto simp: observer_wf_def)
  then show ?thesis using wf by (auto simp: observer_wf_def MAX_OBSERVER_EVENTS_def)
qed

text \<open>A store after four frames out of order, one of them repeated.\<close>

definition sample_feed :: "transcript_state observer_store" where
  "sample_feed = snd (syncAgentObserverEvents length_clock (processTranscriptEvent [] id stringify) createEmptyTranscriptState
     ''pk'' [chunkFrame 30 ''b'', thoughtFrame 2, chunkFrame 1 ''a'', chunkFrame 30 ''b''] emptyObserverStore)"

theorem observer_feed_invariant_witness:
  "agentBuffer sample_feed ''pk'' = [chunkFrame 1 ''a'', thoughtFrame 2, chunkFrame 30 ''b''] \<and>
   transcriptAfter [] id stringify [chunkFrame 1 ''a'', thoughtFrame 2, chunkFrame 30 ''b''] =
     Some (jget_or (ob_transcriptByAgent sample_feed) ''pk'' createEmptyTranscriptState)"
proof -
  have "list_all (parseable length_clock) [chunkFrame 30 ''b'', thoughtFrame 2, chunkFrame 1 ''a'', chunkFrame 30 ''b'']"
    by code_simp
  then have reach: "feed_reachable length_clock [] id stringify sample_feed"
    unfolding sample_feed_def by (rule reach_step [OF reach_empty step_sync])
  have buffer: "agentBuffer sample_feed ''pk'' = [chunkFrame 1 ''a'', thoughtFrame 2, chunkFrame 30 ''b'']" by code_simp
  have "\<not> list_ex throwing_frame [chunkFrame 1 ''a'', thoughtFrame 2, chunkFrame 30 ''b'']" by code_simp
  then show ?thesis using observer_feed_invariant [OF reach, of "''pk''"] unfolding buffer by simp
qed

definition feedAfter ::
  "(string \<Rightarrow> int option) \<Rightarrow> string \<Rightarrow> (jsval \<Rightarrow> jsval) \<Rightarrow> (jsval \<Rightarrow> string) \<Rightarrow> string \<Rightarrow> observer_event list \<Rightarrow>
   transcript_state option" where
  "feedAfter dp dash number fixed4 pk es =
     (case syncAgentObserverEvents dp (processTranscriptEvent dash number fixed4) createEmptyTranscriptState pk es emptyObserverStore of
        (threw, s) \<Rightarrow>
          if threw then None else Some (jget_or (ob_transcriptByAgent s) (normalizePubkey pk) createEmptyTranscriptState))"

lemma sync_no_throw:
  assumes "list_all (parseable dp) es" and "\<not> list_ex throwing_frame es"
  shows "\<not> fst (syncAgentObserverEvents dp (processTranscriptEvent dash number fixed4) createEmptyTranscriptState pk es emptyObserverStore)"
proof -
  let ?process = "processTranscriptEvent dash number fixed4"
  have "\<not> fst (throwingLoop (appendAgentEvent dp ?process createEmptyTranscriptState pk) xs s)"
    if "set xs \<subseteq> set es" "observer_wf dp ?process createEmptyTranscriptState s" "set (agentBuffer s (normalizePubkey pk)) \<subseteq> set es" for xs s
    using that
  proof (induction xs arbitrary: s)
    case (Cons x xs)
    let ?s = "snd (appendAgentEvent dp ?process createEmptyTranscriptState pk x s)"
    have x: "parseable dp x" using Cons.prems(1) assms(1) by (simp add: list_all_iff)
    have sub: "set (agentBuffer ?s (normalizePubkey pk)) \<subseteq> set es"
      using Cons.prems(1,3) set_newest [of MAX_OBSERVER_EVENTS "js_sort (compareObserverEvents dp) (agentBuffer s (normalizePubkey pk) @ [x])"]
      by (auto simp: agentBuffer_append)
    then have "transcriptAfter dash number fixed4 (agentBuffer ?s (normalizePubkey pk)) \<noteq> None"
      using assms(2) unfolding transcript_defined list_ex_iff by blast
    then have "\<not> fst (appendAgentEvent dp ?process createEmptyTranscriptState pk x s)"
      using threw_no_rebuild [OF Cons.prems(2) x, of pk] by metis
    then show ?case using Cons.IH [of ?s] Cons.prems sub append_wf [OF Cons.prems(2) x] by (simp add: case_prod_unfold)
  qed simp
  note loop = this [of es emptyObserverStore, OF subset_refl empty_wf]
  have "agentBuffer (emptyObserverStore :: transcript_state observer_store) (normalizePubkey pk) = []"
    by (simp add: agentBuffer_def emptyObserverStore_def jget_or_def)
  then show ?thesis unfolding syncAgentObserverEvents_def using loop by simp
qed

lemma feedAfter_sorted:
  assumes "list_all (parseable dp) es" and "inj_on (obsKey dp) (set es)" and "\<not> list_ex throwing_frame es"
  shows "feedAfter dp dash number fixed4 pk es =
    transcriptAfter dash number fixed4 (newest MAX_OBSERVER_EVENTS (sort_key (obsKey dp) (remdups es)))"
proof -
  let ?process = "processTranscriptEvent dash number fixed4" and ?init = createEmptyTranscriptState
  let ?sync = "syncAgentObserverEvents dp ?process ?init pk es emptyObserverStore"
  let ?frames = "newest MAX_OBSERVER_EVENTS (sort_key (obsKey dp) (remdups es))"
  note threw = sync_no_throw [OF assms(1,3), of dash number fixed4 pk]
  have "observer_reachable dp ?process ?init (snd ?sync)"
    by (rule reach_step [OF reach_empty step_sync [OF assms(1)]])
  then have wf: "observer_wf dp ?process ?init (snd ?sync)" by (rule reachable_wf)
  have buffer: "agentBuffer (snd ?sync) (normalizePubkey pk) = ?frames"
    using agent_buffer.converges [of es dp ?process ?init pk] assms(1,2) threw
      throwingLoop_fold [of "appendAgentEvent dp ?process ?init pk" es emptyObserverStore]
    by (simp add: syncAgentObserverEvents_def list_all_iff)
  have "set ?frames \<subseteq> set es" using set_newest [of MAX_OBSERVER_EVENTS "sort_key (obsKey dp) (remdups es)"] by auto
  then have "transcriptAfter dash number fixed4 ?frames \<noteq> None"
    using assms(3) unfolding transcript_defined list_ex_iff by blast
  then obtain t where "transcriptAfter dash number fixed4 ?frames = Some t" by blast
  moreover from this have "jget_or (ob_transcriptByAgent (snd ?sync)) (normalizePubkey pk) ?init = t"
    using wf buffer by (simp add: observer_wf_def)
  ultimately show ?thesis using threw by (simp add: feedAfter_def case_prod_unfold)
qed



end
